(* ===== verification/Prelude.thy ===== *)
theory Prelude
  imports Main "HOL-Library.AList" "HOL-Library.Char_ord" "HOL-Library.List_Lexorder" "HOL-Library.Multiset"
begin

text \<open>
  What every component shares: the collections of simplification facts, Go's strings, integers,
  instants and maps as HOL values, and the generic lemmas about them.

  \<^item> A Go string is a byte string; here a \<open>string\<close> (a list of 8-bit characters), ordered
    byte-wise by \<open>List_Lexorder\<close> and \<open>Char_ord\<close> as Go orders strings. Case folding and
    trimming are the ASCII part of \<open>strings.ToLower\<close>, \<open>strings.EqualFold\<close> and
    \<open>strings.TrimSpace\<close>: bytes above 127 are left alone.
  \<^item> A Go \<open>int\<close> or \<open>int64\<close> is an \<open>int\<close>; where the code can leave the 64-bit range
    the wrap-around is written out with \<open>wrap64\<close>.
  \<^item> An instant (\<open>time.Time\<close>) and a \<open>time.Duration\<close> are \<open>int\<close>s counting
    nanoseconds; the zero instant (\<open>IsZero\<close>) is 0.
  \<^item> A Go map is an association list with distinct keys. Every list is allowed as a starting
    state, so the (random) iteration order of Go is the order of an arbitrary list.
\<close>

section \<open>Fact collections\<close>

named_theorems gomap_simps \<open>look-up after an update or a deletion of a map\<close>
named_theorems inv_intros \<open>an operation keeps the invariant of its component\<close>
named_theorems step_defs \<open>the definitions a component's case analysis unfolds\<close>

section \<open>Strings\<close>

definition lower_char :: "char \<Rightarrow> char" where
  "lower_char c = (if 65 \<le> (of_char c :: nat) \<and> (of_char c :: nat) \<le> 90
     then char_of ((of_char c :: nat) + 32) else c)"

definition to_lower :: "string \<Rightarrow> string" where
  "to_lower s = map lower_char s"

definition is_space :: "char \<Rightarrow> bool" where
  "is_space c \<longleftrightarrow> (of_char c :: nat) \<in> {9, 10, 11, 12, 13, 32}"

definition trim_left :: "string \<Rightarrow> string" where
  "trim_left s = dropWhile is_space s"

definition trim_space :: "string \<Rightarrow> string" where
  "trim_space s = rev (trim_left (rev (trim_left s)))"

definition equal_fold :: "string \<Rightarrow> string \<Rightarrow> bool" where
  "equal_fold a b \<longleftrightarrow> to_lower a = to_lower b"

text \<open>\<open>strings.HasPrefix\<close>.\<close>

fun has_prefix :: "string \<Rightarrow> string \<Rightarrow> bool" where
  "has_prefix s [] = True"
| "has_prefix [] (p # ps) = False"
| "has_prefix (c # s) (p # ps) = (c = p \<and> has_prefix s ps)"

text \<open>\<open>strings.Cut\<close>: the text before and after the first occurrence of a separator.\<close>

fun cut :: "string \<Rightarrow> string \<Rightarrow> (string \<times> string) option" where
  "cut sep [] = (if sep = [] then Some ([], []) else None)"
| "cut sep (c # s) = (if has_prefix (c # s) sep then Some ([], drop (length sep) (c # s))
     else map_option (\<lambda>(a, b). (c # a, b)) (cut sep s))"

text \<open>\<open>strings.Join\<close>.\<close>

fun join :: "string \<Rightarrow> string list \<Rightarrow> string" where
  "join sep [] = []"
| "join sep [x] = x"
| "join sep (x # xs) = x @ sep @ join sep xs"

lemma to_lower_Nil [simp]: "to_lower [] = []"
  by (simp add: to_lower_def)

lemma to_lower_eq_Nil [simp]: "to_lower s = [] \<longleftrightarrow> s = []"
  by (simp add: to_lower_def)

lemma lower_char_idem [simp]: "lower_char (lower_char c) = lower_char c"
  by (auto simp: lower_char_def)

lemma to_lower_idem [simp]: "to_lower (to_lower s) = to_lower s"
  by (simp add: to_lower_def)

lemma trim_space_Nil [simp]: "trim_space [] = []"
  by (simp add: trim_space_def trim_left_def)

lemma trim_left_hd: "trim_left s = [] \<or> \<not> is_space (hd (trim_left s))"
  unfolding trim_left_def by (induction s) auto

lemma trim_left_id: "s = [] \<or> \<not> is_space (hd s) \<Longrightarrow> trim_left s = s"
  by (cases s) (auto simp: trim_left_def)

lemma dropWhile_snoc_keep: "\<not> P x \<Longrightarrow> dropWhile P (xs @ [x]) = dropWhile P xs @ [x]"
  by (induction xs) auto

lemma trim_space_ends:
  "trim_space s = [] \<or> (\<not> is_space (hd (trim_space s)) \<and> \<not> is_space (last (trim_space s)))"
proof (cases "trim_left s")
  case Nil
  then have "trim_space s = []" by (simp add: trim_space_def trim_left_def [of "[]"])
  then show ?thesis ..
next
  case (Cons c t)
  have c: "\<not> is_space c" using trim_left_hd [of s] Cons by simp
  have eq: "trim_space s = c # rev (dropWhile is_space (rev t))"
    using c by (simp add: trim_space_def trim_left_def Cons [unfolded trim_left_def] dropWhile_snoc_keep)
  have "\<not> is_space (last (trim_space s))"
    using c eq hd_dropWhile [of is_space "rev t"]
    by (cases "dropWhile is_space (rev t) = []") (auto simp: last_rev)
  then show ?thesis using c eq by simp
qed

lemma trim_space_idem [simp]: "trim_space (trim_space s) = trim_space s"
proof (cases "trim_space s = []")
  case False
  then have h: "\<not> is_space (hd (trim_space s))" and l: "\<not> is_space (last (trim_space s))"
    using trim_space_ends [of s] by auto
  have "trim_left (trim_space s) = trim_space s" using h by (simp add: trim_left_id)
  moreover have "trim_left (rev (trim_space s)) = rev (trim_space s)"
    using l by (simp add: trim_left_id hd_rev)
  ultimately show ?thesis by (simp only: trim_space_def [of "trim_space s"] rev_rev_ident)
qed simp

lemma equal_fold_refl [simp]: "equal_fold s s"
  by (simp add: equal_fold_def)

lemma equal_fold_sym: "equal_fold a b \<Longrightarrow> equal_fold b a"
  by (simp add: equal_fold_def)

lemma equal_fold_trans: "equal_fold a b \<Longrightarrow> equal_fold b c \<Longrightarrow> equal_fold a c"
  by (simp add: equal_fold_def)

lemma equal_fold_lower [simp]: "equal_fold (to_lower a) b = equal_fold a b"
  "equal_fold a (to_lower b) = equal_fold a b"
  by (simp_all add: equal_fold_def)

section \<open>64-bit integers\<close>

definition max_int64 :: int where "max_int64 = 9223372036854775807"

definition min_int64 :: int where "min_int64 = -9223372036854775808"

text \<open>Two's complement wrap-around of Go's \<open>int\<close> and \<open>int64\<close> arithmetic.\<close>

definition wrap64 :: "int \<Rightarrow> int" where
  "wrap64 x = (x + 9223372036854775808) mod 18446744073709551616 - 9223372036854775808"

definition int64 :: "int \<Rightarrow> bool" where
  "int64 x \<longleftrightarrow> min_int64 \<le> x \<and> x \<le> max_int64"

lemma wrap64_id [simp]: "int64 x \<Longrightarrow> wrap64 x = x"
  by (simp add: wrap64_def int64_def min_int64_def max_int64_def)

lemma wrap64_range [simp]: "int64 (wrap64 x)"
proof -
  have "0 \<le> (x + 9223372036854775808) mod 18446744073709551616"
    "(x + 9223372036854775808) mod 18446744073709551616 < 18446744073709551616"
    by simp_all
  then show ?thesis
    unfolding wrap64_def int64_def min_int64_def max_int64_def by linarith
qed

text \<open>Go's integer division truncates towards zero.\<close>

definition go_div :: "int \<Rightarrow> int \<Rightarrow> int" where
  "go_div a b = sgn a * sgn b * (\<bar>a\<bar> div \<bar>b\<bar>)"

lemma go_div_nonneg: "0 \<le> a \<Longrightarrow> 0 < b \<Longrightarrow> go_div a b = a div b"
  by (cases "a = 0") (simp_all add: go_div_def)

lemma go_div_mid: "0 \<le> a \<Longrightarrow> a \<le> b \<Longrightarrow> a \<le> go_div (a + b) 2 \<and> go_div (a + b) 2 \<le> b"
  by (simp add: go_div_nonneg) linarith

section \<open>Decimal numerals\<close>

definition is_digit :: "char \<Rightarrow> bool" where
  "is_digit c \<longleftrightarrow> 48 \<le> (of_char c :: nat) \<and> (of_char c :: nat) \<le> 57"

definition digits_val :: "string \<Rightarrow> int" where
  "digits_val s = foldl (\<lambda>n c. 10 * n + (int (of_char c) - 48)) 0 s"

text \<open>
  \<open>strconv.ParseInt(s, 10, 64)\<close> and, on a 64-bit platform, \<open>strconv.Atoi\<close>: an optional
  sign, at least one digit, digits only, and a value in range; \<open>None\<close> is the error.
\<close>

definition parse_int64 :: "string \<Rightarrow> int option" where
  "parse_int64 s =
     (let neg = (s \<noteq> [] \<and> hd s = CHR ''-'');
          body = (if s \<noteq> [] \<and> (hd s = CHR ''-'' \<or> hd s = CHR ''+'') then tl s else s);
          v = (if neg then - digits_val body else digits_val body)
      in if body = [] \<or> \<not> list_all is_digit body then None
         else if int64 v then Some v else None)"

lemma parse_int64_range: "parse_int64 s = Some v \<Longrightarrow> int64 v"
  by (auto simp: parse_int64_def Let_def split: if_splits)

text \<open>\<open>strconv.ParseBool\<close>.\<close>

definition parse_bool :: "string \<Rightarrow> bool option" where
  "parse_bool s =
     (if s \<in> {''1'', ''t'', ''T'', ''TRUE'', ''true'', ''True''} then Some True
      else if s \<in> {''0'', ''f'', ''F'', ''FALSE'', ''false'', ''False''} then Some False
      else None)"

section \<open>Instants\<close>

type_synonym time = int

type_synonym duration = int

text \<open>One second, in nanoseconds.\<close>

definition second :: duration where "second = 1000000000"

definition minute :: duration where "minute = 60 * second"

text \<open>\<open>Time.Sub\<close> saturates at the range of a \<open>Duration\<close>.\<close>

definition time_sub :: "time \<Rightarrow> time \<Rightarrow> duration" where
  "time_sub t u = max min_int64 (min max_int64 (t - u))"

section \<open>Maps\<close>

type_synonym ('k, 'v) gomap = "('k \<times> 'v) list"

abbreviation mget :: "('k, 'v) gomap \<Rightarrow> 'k \<Rightarrow> 'v option" where
  "mget m k \<equiv> map_of m k"

abbreviation mput :: "'k \<Rightarrow> 'v \<Rightarrow> ('k, 'v) gomap \<Rightarrow> ('k, 'v) gomap" where
  "mput k v m \<equiv> AList.update k v m"

abbreviation mdel :: "'k \<Rightarrow> ('k, 'v) gomap \<Rightarrow> ('k, 'v) gomap" where
  "mdel k m \<equiv> AList.delete k m"

abbreviation mkeys :: "('k, 'v) gomap \<Rightarrow> 'k list" where
  "mkeys m \<equiv> map fst m"

abbreviation mwf :: "('k, 'v) gomap \<Rightarrow> bool" where
  "mwf m \<equiv> distinct (map fst m)"

text \<open>A missing key reads as the zero value of the value type.\<close>

definition mget_or :: "'v \<Rightarrow> ('k, 'v) gomap \<Rightarrow> 'k \<Rightarrow> 'v" where
  "mget_or z m k = (case mget m k of None \<Rightarrow> z | Some v \<Rightarrow> v)"

lemma mget_mput [simp, gomap_simps]: "mget (mput k v m) k' = (if k' = k then Some v else mget m k')"
  by (simp add: update_conv')

lemma mget_mdel [simp, gomap_simps]: "mget (mdel k m) k' = (if k' = k then None else mget m k')"
  by (simp add: delete_conv')

lemma mwf_mput [simp, intro]: "mwf m \<Longrightarrow> mwf (mput k v m)"
  by (rule distinct_update)

lemma mwf_mdel [simp, intro]: "mwf m \<Longrightarrow> mwf (mdel k m)"
  by (rule distinct_delete)

lemma mget_or_mput [simp, gomap_simps]:
  "mget_or z (mput k v m) k' = (if k' = k then v else mget_or z m k')"
  by (simp add: mget_or_def)

lemma mget_or_mdel [simp, gomap_simps]:
  "mget_or z (mdel k m) k' = (if k' = k then z else mget_or z m k')"
  by (simp add: mget_or_def)

lemma set_mput: "mwf m \<Longrightarrow> set (mput k v m) = {(k, v)} \<union> {p \<in> set m. fst p \<noteq> k}"
  by (induction m) (auto split: prod.splits intro: rev_image_eqI)

lemma set_mdel: "set (mdel k m) = {p \<in> set m. fst p \<noteq> k}"
  by (auto simp: AList.delete_eq)

lemma mget_Some_iff: "mwf m \<Longrightarrow> mget m k = Some v \<longleftrightarrow> (k, v) \<in> set m"
  by (rule map_of_eq_Some_iff)

lemma mget_SomeD: "mget m k = Some v \<Longrightarrow> (k, v) \<in> set m"
  by (rule map_of_SomeD)

lemma mget_None_iff: "mget m k = None \<longleftrightarrow> k \<notin> set (mkeys m)"
  by (simp add: map_of_eq_None_iff)

lemma mdel_absent: "mget m k = None \<Longrightarrow> mdel k m = m"
  by (simp add: map_of_eq_None_iff delete_idem)

text \<open>An entry changed in place, created or removed: what a read-modify-write of one key does.\<close>

definition malter :: "'k \<Rightarrow> ('v option \<Rightarrow> 'v option) \<Rightarrow> ('k, 'v) gomap \<Rightarrow> ('k, 'v) gomap" where
  "malter k f m = (case f (mget m k) of None \<Rightarrow> mdel k m | Some v \<Rightarrow> mput k v m)"

lemma mget_malter [simp, gomap_simps]:
  "mget (malter k f m) k' = (if k' = k then f (mget m k) else mget m k')"
  by (auto simp: malter_def split: option.splits)

lemma mwf_malter [simp, intro]: "mwf m \<Longrightarrow> mwf (malter k f m)"
  by (auto simp: malter_def split: option.splits)

text \<open>Changing several distinct keys one after the other changes each once, in any order.\<close>

lemma mget_fold_malter:
  "distinct ks \<Longrightarrow> mget (fold (\<lambda>k. malter k (f k)) ks m) k =
     (if k \<in> set ks then f k (mget m k) else mget m k)"
  by (induction ks arbitrary: m) auto

text \<open>Repeating a change of one key.\<close>

lemma mget_malter_funpow:
  "mget ((malter k f ^^ n) m) k' = (if k' = k then (f ^^ n) (mget m k) else mget m k')"
  by (induction n) auto

lemma mwf_malter_funpow [simp]: "mwf m \<Longrightarrow> mwf ((malter k f ^^ n) m)"
  by (induction n) auto

lemma mget_fold_malter_funpow:
  "distinct ks \<Longrightarrow> mget (fold (\<lambda>k. malter k (f k) ^^ n k) ks m) k =
     (if k \<in> set ks then (f k ^^ n k) (mget m k) else mget m k)"
  by (induction ks arbitrary: m) (auto simp: mget_malter_funpow)

lemma mwf_fold_malter_funpow [simp]: "mwf m \<Longrightarrow> mwf (fold (\<lambda>k. malter k (f k) ^^ n k) ks m)"
  by (induction ks arbitrary: m) auto

text \<open>A change per list element, with repetitions: each key is changed as often as it occurs.\<close>

lemma mget_fold_malter_list:
  "mget (fold (\<lambda>x. malter x (f x)) ks m) k = (f k ^^ count_list ks k) (mget m k)"
  by (induction ks arbitrary: m) (auto simp: funpow_swap1)

lemma mwf_fold_malter_list [simp]: "mwf m \<Longrightarrow> mwf (fold (\<lambda>k. malter k (f k)) ks m)"
  by (induction ks arbitrary: m) auto

text \<open>The keys in the order in which a loop over the list first meets them.\<close>

fun first_seen :: "'a list \<Rightarrow> 'a list" where
  "first_seen [] = []"
| "first_seen (x # xs) = x # filter (\<lambda>y. y \<noteq> x) (first_seen xs)"

lemma set_first_seen [simp]: "set (first_seen xs) = set xs"
  by (induction xs) auto

lemma distinct_first_seen [simp]: "distinct (first_seen xs)"
  by (induction xs) auto

lemma first_seen_Nil_iff [simp]: "first_seen xs = [] \<longleftrightarrow> xs = []"
  by (cases xs) auto

text \<open>A weight summed over the bindings of a map: how an update and a deletion change it.\<close>

lemma sum_list_mdel:
  fixes f :: "'k \<times> 'v \<Rightarrow> nat"
  shows "mwf m \<Longrightarrow> mget m k = Some v \<Longrightarrow> sum_list (map f m) = f (k, v) + sum_list (map f (mdel k m))"
proof (induction m)
  case (Cons p m)
  show ?case
  proof (cases "fst p = k")
    case True
    with Cons.prems have "k \<notin> fst ` set m" "p = (k, v)" by (cases p; auto)+
    then show ?thesis by (simp add: delete_idem)
  next
    case False
    with Cons show ?thesis by (cases p) auto
  qed
qed simp

lemma sum_list_mput:
  fixes f :: "'k \<times> 'v \<Rightarrow> nat"
  shows "mwf m \<Longrightarrow> sum_list (map f (mput k v m)) = f (k, v) + sum_list (map f (mdel k m))"
proof (induction m)
  case (Cons p m)
  show ?case
  proof (cases "fst p = k")
    case True
    with Cons.prems have "k \<notin> fst ` set m" by (cases p) auto
    then show ?thesis using True by (cases p) (simp add: delete_idem)
  next
    case False
    with Cons show ?thesis by (cases p) auto
  qed
qed simp

section \<open>Results\<close>

text \<open>A Go result pair \<open>(value, err)\<close> is a sum; the early return on an error is a bind.\<close>

definition rbind :: "'e + 'a \<Rightarrow> ('a \<Rightarrow> 'e + 'b) \<Rightarrow> 'e + 'b" where
  "rbind r f = (case r of Inl e \<Rightarrow> Inl e | Inr a \<Rightarrow> f a)"

lemma rbind_simps [simp]: "rbind (Inl e) f = Inl e" "rbind (Inr a) f = f a"
  by (simp_all add: rbind_def)

lemma rbind_Inr_iff: "rbind r f = Inr b \<longleftrightarrow> (\<exists>a. r = Inr a \<and> f a = Inr b)"
  by (cases r) auto

lemma rbind_Inl_iff: "rbind r f = Inl e \<longleftrightarrow> r = Inl e \<or> (\<exists>a. r = Inr a \<and> f a = Inl e)"
  by (cases r) auto

section \<open>Lists\<close>

lemma find_Some_iff2: "find P xs = Some x \<Longrightarrow> x \<in> set xs \<and> P x"
  by (auto simp: find_Some_iff)

lemma foldl_invariant:
  assumes "P a" and "\<And>a x. P a \<Longrightarrow> x \<in> set xs \<Longrightarrow> P (f a x)"
  shows "P (foldl f a xs)"
  using assms by (induction xs arbitrary: a) auto

lemma count_list_filter: "count_list xs a = length (filter (\<lambda>x. x = a) xs)"
  by (induction xs) auto

section \<open>Sorting\<close>

text \<open>\<open>sort.Slice\<close> with a comparison that totally orders the elements: every sorting
  algorithm gives the same list, here insertion.\<close>

fun insert_before :: "('a \<Rightarrow> 'a \<Rightarrow> bool) \<Rightarrow> 'a \<Rightarrow> 'a list \<Rightarrow> 'a list" where
  "insert_before lt x [] = [x]"
| "insert_before lt x (y # ys) = (if lt y x then y # insert_before lt x ys else x # y # ys)"

definition sort_slice :: "('a \<Rightarrow> 'a \<Rightarrow> bool) \<Rightarrow> 'a list \<Rightarrow> 'a list" where
  "sort_slice lt xs = foldr (insert_before lt) xs []"

lemma mset_insert_before: "mset (insert_before lt x xs) = add_mset x (mset xs)"
  by (induction xs) auto

lemma mset_sort_slice [simp]: "mset (sort_slice lt xs) = mset xs"
  by (induction xs) (auto simp: sort_slice_def mset_insert_before)

lemma set_sort_slice [simp]: "set (sort_slice lt xs) = set xs"
  by (metis mset_sort_slice set_mset_mset)

lemma length_sort_slice [simp]: "length (sort_slice lt xs) = length xs"
  by (metis mset_sort_slice size_mset)

lemma set_insert_before [simp]: "set (insert_before lt x xs) = insert x (set xs)"
  by (induction xs) auto

lemma sorted_insert_before:
  assumes "sorted_wrt lt xs" and "\<And>a b c. lt a b \<Longrightarrow> lt b c \<Longrightarrow> lt a c"
    and "\<And>y. y \<in> set xs \<Longrightarrow> lt x y \<or> lt y x"
  shows "sorted_wrt lt (insert_before lt x xs)"
  using assms(1,3)
proof (induction xs)
  case (Cons y ys)
  show ?case
  proof (cases "lt y x")
    case True
    then show ?thesis using Cons by auto
  next
    case False
    then have "lt x y" using Cons.prems by auto
    then show ?thesis using False Cons.prems assms(2) by auto
  qed
qed simp

lemma sorted_sort_slice:
  assumes "distinct xs" and "\<And>a b c. lt a b \<Longrightarrow> lt b c \<Longrightarrow> lt a c"
    and "\<And>x y. x \<in> set xs \<Longrightarrow> y \<in> set xs \<Longrightarrow> x \<noteq> y \<Longrightarrow> lt x y \<or> lt y x"
  shows "sorted_wrt lt (sort_slice lt xs)"
  using assms(1,3)
proof (induction xs)
  case (Cons x xs)
  have s: "set (foldr (insert_before lt) xs []) = set xs"
    using set_sort_slice [of lt xs] by (simp add: sort_slice_def)
  have "sorted_wrt lt (sort_slice lt xs)" using Cons by auto
  then have srt: "sorted_wrt lt (foldr (insert_before lt) xs [])" by (simp add: sort_slice_def)
  have "sorted_wrt lt (insert_before lt x (foldr (insert_before lt) xs []))"
  proof (rule sorted_insert_before [OF srt])
    show "lt a c" if "lt a b" "lt b c" for a b c using that by (rule assms(2))
    show "lt x y \<or> lt y x" if "y \<in> set (foldr (insert_before lt) xs [])" for y
    proof -
      have "y \<in> set xs" "x \<noteq> y" using that s Cons.prems(1) by auto
      then show ?thesis using Cons.prems(2) [of x y] by simp
    qed
  qed
  then show ?case by (simp add: sort_slice_def)
qed (simp add: sort_slice_def)

section \<open>Transition systems\<close>

text \<open>
  A component whose operations are taken in any order: its start states and its steps. The
  reachable states are the least set holding the start states and closed under the steps; what
  holds at the start and is kept by every step holds in all of them.
\<close>

inductive reach :: "('s \<Rightarrow> bool) \<Rightarrow> ('s \<Rightarrow> 's \<Rightarrow> bool) \<Rightarrow> 's \<Rightarrow> bool" for init step where
  reach_init: "init s \<Longrightarrow> reach init step s"
| reach_step: "reach init step s \<Longrightarrow> step s t \<Longrightarrow> reach init step t"

locale invariant_system =
  fixes init :: "'s \<Rightarrow> bool" and step :: "'s \<Rightarrow> 's \<Rightarrow> bool" and inv :: "'s \<Rightarrow> bool"
  assumes inv_init: "init s \<Longrightarrow> inv s"
    and inv_step: "inv s \<Longrightarrow> step s t \<Longrightarrow> inv t"
begin

lemma reach_inv: "reach init step s \<Longrightarrow> inv s"
  by (induction rule: reach.induct) (auto intro: inv_init inv_step)

lemma steps_inv: "inv s \<Longrightarrow> step\<^sup>*\<^sup>* s t \<Longrightarrow> inv t"
  by (rotate_tac, induction rule: rtranclp_induct) (auto intro: inv_step)

end

end
