(* ===== verification/Model_Info.thy ===== *)
theory Model_Info
  imports Prelude
begin

text \<open>
  The model metadata of \<open>internal/registry/model_registry.go\<close> and
  \<open>internal/modelrouting/types.go\<close>: the structs \<open>ModelInfo\<close>, \<open>ThinkingSupport\<close>,
  \<open>ModelConfig\<close>, \<open>Pricing\<close> and \<open>PricingEntry\<close>, one record each with the fields
  in the source's order. A pointer that may be nil is an option, a slice is a list (nil and empty
  are not told apart: the code only asks for the length). \<open>cloneModelInfo\<close> is the identity
  on these values, so the copies the registry hands out are the values themselves.
\<close>

record PricingEntry =
  pe_name :: string
  pe_amount :: string
  pe_tier_type :: "string option"
  pe_tier_size :: "int option"
  pe_context_key :: "string option"

record Pricing =
  pr_currency :: string
  pr_unit :: string
  pr_source_id :: string
  pr_entries :: "PricingEntry list"

record ThinkingSupport =
  ts_min :: int
  ts_max :: int
  ts_zero_allowed :: bool
  ts_dynamic_allowed :: bool
  ts_levels :: "string list"

record ModelConfig =
  mc_override_header :: "(string, string) gomap"

record ModelInfo =
  mi_id :: string
  mi_canonical_model_id :: string
  mi_catalog_provider_id :: string
  mi_catalog_model_id :: string
  mi_catalog_route_provider_id :: string
  mi_catalog_route_model_id :: string
  mi_variant_id :: string
  mi_protocols :: "string list"
  mi_object :: string
  mi_created :: int
  mi_owned_by :: string
  mi_type :: string
  mi_display_name :: string
  mi_name :: string
  mi_version :: string
  mi_description :: string
  mi_input_token_limit :: int
  mi_output_token_limit :: int
  mi_supported_generation_methods :: "string list"
  mi_context_length :: int
  mi_max_context_length :: int
  mi_max_completion_tokens :: int
  mi_supported_parameters :: "string list"
  mi_supported_endpoints :: "string list"
  mi_supported_input_modalities :: "string list"
  mi_supported_output_modalities :: "string list"
  mi_supports_web_search :: bool
  mi_thinking :: "ThinkingSupport option"
  mi_config :: "ModelConfig option"
  mi_user_defined :: bool
  mi_is_compat :: bool
  mi_pricing :: "Pricing option"

text \<open>The zero value of the struct, with an identifier: what a composite literal starts from.\<close>

definition empty_model_info :: "string \<Rightarrow> ModelInfo" where
  "empty_model_info i =
     \<lparr>mi_id = i, mi_canonical_model_id = [], mi_catalog_provider_id = [], mi_catalog_model_id = [],
      mi_catalog_route_provider_id = [], mi_catalog_route_model_id = [], mi_variant_id = [],
      mi_protocols = [], mi_object = [], mi_created = 0, mi_owned_by = [], mi_type = [],
      mi_display_name = [], mi_name = [], mi_version = [], mi_description = [],
      mi_input_token_limit = 0, mi_output_token_limit = 0, mi_supported_generation_methods = [],
      mi_context_length = 0, mi_max_context_length = 0, mi_max_completion_tokens = 0,
      mi_supported_parameters = [], mi_supported_endpoints = [], mi_supported_input_modalities = [],
      mi_supported_output_modalities = [], mi_supports_web_search = False, mi_thinking = None,
      mi_config = None, mi_user_defined = False, mi_is_compat = False, mi_pricing = None\<rparr>"

lemma mi_id_empty [simp]: "mi_id (empty_model_info i) = i"
  by (simp add: empty_model_info_def)

end
