(* ===== verification/Thinking.thy ===== *)
theory Thinking
  imports Model_Info
begin

text \<open>
  The thinking configuration of \<open>internal/thinking\<close>: the model-name suffix
  (\<open>suffix.go\<close>), the conversions between levels and budgets (\<open>convert.go\<close>), the
  validation of a configuration against a model's capabilities (\<open>validate.go\<close>) and the parts
  of \<open>apply.go\<close> that do not touch JSON. The body of \<open>ValidateConfig\<close> is split at its
  comments into stages, composed by \<open>ValidateConfig\<close> in the code's order. Arguments that only
  reach log lines (provider, model) are dropped; an error carries the values its message prints.
\<close>

section \<open>Types\<close>

datatype ThinkingMode = ModeBudget | ModeLevel | ModeNone | ModeAuto

definition LevelNone :: string where "LevelNone = ''none''"
definition LevelAuto :: string where "LevelAuto = ''auto''"
definition LevelMinimal :: string where "LevelMinimal = ''minimal''"
definition LevelLow :: string where "LevelLow = ''low''"
definition LevelMedium :: string where "LevelMedium = ''medium''"
definition LevelHigh :: string where "LevelHigh = ''high''"
definition LevelXHigh :: string where "LevelXHigh = ''xhigh''"
definition LevelMax :: string where "LevelMax = ''max''"

lemmas level_defs = LevelNone_def LevelAuto_def LevelMinimal_def LevelLow_def LevelMedium_def
  LevelHigh_def LevelXHigh_def LevelMax_def

record ThinkingConfig =
  tc_mode :: ThinkingMode
  tc_budget :: int
  tc_level :: string

record SuffixResult =
  sr_model_name :: string
  sr_has_suffix :: bool
  sr_raw_suffix :: string

text \<open>The error codes \<open>ValidateConfig\<close> returns, with the values of their messages.\<close>

datatype ThinkingError =
    ErrThinkingNotSupported string
  | ErrUnknownLevel string
  | ErrUnknownLevelBudget int
  | ErrLevelNotSupported string "string list"
  | ErrBudgetOutOfRange int int int

section \<open>Suffix parsing\<close>

text \<open>\<open>strings.LastIndex\<close> of a one-character separator.\<close>

definition last_index :: "char \<Rightarrow> string \<Rightarrow> nat option" where
  "last_index c s =
     (let k = length (takeWhile (\<lambda>x. x \<noteq> c) (rev s))
      in if k = length s then None else Some (length s - 1 - k))"

definition ParseSuffix :: "string \<Rightarrow> SuffixResult" where
  "ParseSuffix model =
     (case last_index CHR ''('' model of
        None \<Rightarrow> \<lparr>sr_model_name = model, sr_has_suffix = False, sr_raw_suffix = []\<rparr>
      | Some i \<Rightarrow>
          if model = [] \<or> last model \<noteq> CHR '')''
          then \<lparr>sr_model_name = model, sr_has_suffix = False, sr_raw_suffix = []\<rparr>
          else \<lparr>sr_model_name = take i model, sr_has_suffix = True,
                sr_raw_suffix = take (length model - 1 - (i + 1)) (drop (i + 1) model)\<rparr>)"

definition ParseNumericSuffix :: "string \<Rightarrow> int option" where
  "ParseNumericSuffix raw =
     (if raw = [] then None
      else case parse_int64 raw of None \<Rightarrow> None
        | Some v \<Rightarrow> if v < 0 then None else Some v)"

definition ParseSpecialSuffix :: "string \<Rightarrow> ThinkingMode option" where
  "ParseSpecialSuffix raw =
     (if raw = [] then None
      else let l = to_lower raw in
        if l = ''none'' then Some ModeNone
        else if l = ''auto'' \<or> l = ''-1'' then Some ModeAuto
        else None)"

definition ParseLevelSuffix :: "string \<Rightarrow> string option" where
  "ParseLevelSuffix raw =
     (if raw = [] then None
      else let l = to_lower raw in
        if l = ''minimal'' then Some LevelMinimal
        else if l = ''low'' then Some LevelLow
        else if l = ''medium'' then Some LevelMedium
        else if l = ''high'' then Some LevelHigh
        else if l = ''xhigh'' then Some LevelXHigh
        else if l = ''max'' then Some LevelMax
        else None)"

definition empty_config :: ThinkingConfig where
  "empty_config = \<lparr>tc_mode = ModeBudget, tc_budget = 0, tc_level = []\<rparr>"

definition parseSuffixToConfig :: "string \<Rightarrow> ThinkingConfig" where
  "parseSuffixToConfig raw =
     (case ParseSpecialSuffix raw of
        Some ModeNone \<Rightarrow> \<lparr>tc_mode = ModeNone, tc_budget = 0, tc_level = []\<rparr>
      | Some ModeAuto \<Rightarrow> \<lparr>tc_mode = ModeAuto, tc_budget = -1, tc_level = []\<rparr>
      | _ \<Rightarrow>
        (case ParseLevelSuffix raw of
           Some l \<Rightarrow> \<lparr>tc_mode = ModeLevel, tc_budget = 0, tc_level = l\<rparr>
         | None \<Rightarrow>
           (case ParseNumericSuffix raw of
              Some b \<Rightarrow> if b = 0 then \<lparr>tc_mode = ModeNone, tc_budget = 0, tc_level = []\<rparr>
                        else \<lparr>tc_mode = ModeBudget, tc_budget = b, tc_level = []\<rparr>
            | None \<Rightarrow> empty_config)))"

definition hasThinkingConfig :: "ThinkingConfig \<Rightarrow> bool" where
  "hasThinkingConfig c \<longleftrightarrow> tc_mode c \<noteq> ModeBudget \<or> tc_budget c \<noteq> 0 \<or> tc_level c \<noteq> []"

definition thinkingIsFullyDisabled :: "ThinkingConfig \<Rightarrow> bool" where
  "thinkingIsFullyDisabled c \<longleftrightarrow> tc_mode c = ModeNone \<and> tc_budget c = 0 \<and> tc_level c = []"

section \<open>Levels and budgets\<close>

definition levelToBudgetMap :: "(string, int) gomap" where
  "levelToBudgetMap =
     [(''none'', 0), (''auto'', -1), (''minimal'', 512), (''low'', 1024), (''medium'', 8192),
      (''high'', 24576), (''xhigh'', 32768), (''max'', 128000)]"

definition ConvertLevelToBudget :: "string \<Rightarrow> int option" where
  "ConvertLevelToBudget level = mget levelToBudgetMap (to_lower level)"

definition ThresholdMinimal :: int where "ThresholdMinimal = 512"
definition ThresholdLow :: int where "ThresholdLow = 1024"
definition ThresholdMedium :: int where "ThresholdMedium = 8192"
definition ThresholdHigh :: int where "ThresholdHigh = 24576"

lemmas threshold_defs = ThresholdMinimal_def ThresholdLow_def ThresholdMedium_def ThresholdHigh_def

definition ConvertBudgetToLevel :: "int \<Rightarrow> string option" where
  "ConvertBudgetToLevel b =
     (if b < -1 then None
      else if b = -1 then Some LevelAuto
      else if b = 0 then Some LevelNone
      else if b \<le> ThresholdMinimal then Some LevelMinimal
      else if b \<le> ThresholdLow then Some LevelLow
      else if b \<le> ThresholdMedium then Some LevelMedium
      else if b \<le> ThresholdHigh then Some LevelHigh
      else Some LevelXHigh)"

definition HasLevel :: "string list \<Rightarrow> string \<Rightarrow> bool" where
  "HasLevel levels target = list_ex (\<lambda>l. equal_fold (trim_space l) target) levels"

definition MapToClaudeEffort :: "string \<Rightarrow> bool \<Rightarrow> string option" where
  "MapToClaudeEffort level supportsMax =
     (let l = to_lower (trim_space level) in
        if l = [] then None
        else if l = ''minimal'' then Some ''low''
        else if l \<in> {''low'', ''medium'', ''high''} then Some l
        else if l \<in> {''xhigh'', ''max''} then Some (if supportsMax then ''max'' else ''high'')
        else if l = ''auto'' then Some ''high''
        else None)"

datatype ModelCapability =
  CapabilityUnknown | CapabilityNone | CapabilityBudgetOnly | CapabilityLevelOnly | CapabilityHybrid

definition detectModelCapability :: "ModelInfo option \<Rightarrow> ModelCapability" where
  "detectModelCapability modelInfo =
     (case modelInfo of None \<Rightarrow> CapabilityUnknown
      | Some mi \<Rightarrow>
        (case mi_thinking mi of None \<Rightarrow> CapabilityNone
         | Some s \<Rightarrow>
           let hasBudget = ts_min s > 0 \<or> ts_max s > 0; hasLevels = ts_levels s \<noteq> [] in
             if hasBudget \<and> hasLevels then CapabilityHybrid
             else if hasBudget then CapabilityBudgetOnly
             else if hasLevels then CapabilityLevelOnly
             else CapabilityNone))"

section \<open>Clamping\<close>

definition isLevelSupported :: "string \<Rightarrow> string list \<Rightarrow> bool" where
  "isLevelSupported level supported = list_ex (\<lambda>s. equal_fold level (trim_space s)) supported"

definition standardLevelOrder :: "string list" where
  "standardLevelOrder = [LevelMinimal, LevelLow, LevelMedium, LevelHigh, LevelXHigh, LevelMax]"

text \<open>\<open>levelIndex\<close>: \<open>None\<close> is the code's -1.\<close>

fun index_of :: "string \<Rightarrow> string list \<Rightarrow> nat option" where
  "index_of level [] = None"
| "index_of level (l # ls) =
     (if equal_fold level l then Some 0 else map_option Suc (index_of level ls))"

definition levelIndex :: "string \<Rightarrow> nat option" where
  "levelIndex level = index_of level standardLevelOrder"

definition level_dist :: "nat \<Rightarrow> nat \<Rightarrow> nat" where
  "level_dist a b = nat \<bar>int a - int b\<bar>"

text \<open>
  One step of \<open>clampLevel\<close>'s loop: the best index so far (none is the code's -1, at
  distance \<open>len(standardLevelOrder)+1\<close>, further than any) and the next supported level.
\<close>

definition clamp_step :: "nat \<Rightarrow> nat option \<Rightarrow> string \<Rightarrow> nat option" where
  "clamp_step pos best s =
     (case levelIndex (trim_space s) of None \<Rightarrow> best
      | Some idx \<Rightarrow>
        (case best of None \<Rightarrow> Some idx
         | Some b \<Rightarrow>
           if level_dist pos idx < level_dist pos b \<or>
              (level_dist pos idx = level_dist pos b \<and> idx < b)
           then Some idx else best))"

definition clampLevel :: "string \<Rightarrow> ModelInfo option \<Rightarrow> string" where
  "clampLevel level modelInfo =
     (let supported = (case modelInfo of None \<Rightarrow> []
            | Some mi \<Rightarrow> (case mi_thinking mi of None \<Rightarrow> [] | Some s \<Rightarrow> ts_levels s)) in
      if supported = [] \<or> isLevelSupported level supported then level
      else case levelIndex level of None \<Rightarrow> level
        | Some pos \<Rightarrow>
          (case foldl (clamp_step pos) None supported of None \<Rightarrow> level
           | Some best \<Rightarrow> standardLevelOrder ! best))"

definition clampBudget :: "int \<Rightarrow> ModelInfo option \<Rightarrow> int" where
  "clampBudget value modelInfo =
     (case modelInfo of None \<Rightarrow> value
      | Some mi \<Rightarrow>
        (case mi_thinking mi of None \<Rightarrow> value
         | Some s \<Rightarrow>
           if value = -1 then value
           else if value = 0 \<and> \<not> ts_zero_allowed s then ts_min s
           else if ts_min s = 0 \<and> ts_max s = 0 then value
           else if value < ts_min s then (if value = 0 \<and> ts_zero_allowed s then 0 else ts_min s)
           else if value > ts_max s then ts_max s
           else value))"

definition normalizeLevels :: "string list \<Rightarrow> string list" where
  "normalizeLevels levels = map (\<lambda>l. to_lower (trim_space l)) levels"

definition convertAutoToMidRange :: "ThinkingConfig \<Rightarrow> ThinkingSupport \<Rightarrow> ThinkingConfig" where
  "convertAutoToMidRange c s =
     (if ts_levels s \<noteq> [] \<and> ts_min s = 0 \<and> ts_max s = 0
      then c\<lparr>tc_mode := ModeLevel, tc_level := LevelMedium, tc_budget := 0\<rparr>
      else let mid = go_div (wrap64 (ts_min s + ts_max s)) 2 in
        if mid \<le> 0 \<and> ts_zero_allowed s then c\<lparr>tc_mode := ModeNone, tc_budget := 0\<rparr>
        else if mid \<le> 0 then c\<lparr>tc_mode := ModeBudget, tc_budget := ts_min s\<rparr>
        else c\<lparr>tc_mode := ModeBudget, tc_budget := mid\<rparr>)"

section \<open>Provider families\<close>

definition isBudgetCapableProvider :: "string \<Rightarrow> bool" where
  "isBudgetCapableProvider p \<longleftrightarrow> p \<in> {''gemini'', ''antigravity'', ''claude''}"

definition isGeminiFamily :: "string \<Rightarrow> bool" where
  "isGeminiFamily p \<longleftrightarrow> p \<in> {''gemini'', ''antigravity''}"

definition isOpenAIFamily :: "string \<Rightarrow> bool" where
  "isOpenAIFamily p \<longleftrightarrow> p \<in> {''openai'', ''openai-response'', ''codex''}"

definition isSameProviderFamily :: "string \<Rightarrow> string \<Rightarrow> bool" where
  "isSameProviderFamily from to \<longleftrightarrow>
     from = to \<or> (isGeminiFamily from \<and> isGeminiFamily to) \<or> (isOpenAIFamily from \<and> isOpenAIFamily to)"

definition IsUserDefinedModel :: "ModelInfo option \<Rightarrow> bool" where
  "IsUserDefinedModel modelInfo =
     (case modelInfo of None \<Rightarrow> True | Some mi \<Rightarrow> mi_user_defined mi)"

definition normalizeUserDefinedConfig :: "ThinkingConfig \<Rightarrow> string \<Rightarrow> ThinkingConfig" where
  "normalizeUserDefinedConfig c toFormat =
     (if tc_mode c \<noteq> ModeLevel then c
      else if toFormat = ''claude'' then c
      else if \<not> isBudgetCapableProvider toFormat then c
      else case ConvertLevelToBudget (tc_level c) of None \<Rightarrow> c
        | Some b \<Rightarrow> c\<lparr>tc_mode := ModeBudget, tc_budget := b, tc_level := []\<rparr>)"

definition shouldMapConfiguredHighIntent :: "string \<Rightarrow> string \<Rightarrow> ModelInfo option \<Rightarrow> bool" where
  "shouldMapConfiguredHighIntent fromFormat toFormat modelInfo =
     (let f = to_lower (trim_space fromFormat); t = to_lower (trim_space toFormat) in
      if f \<noteq> t then True
      else case modelInfo of None \<Rightarrow> False
        | Some mi \<Rightarrow> let ty = to_lower (trim_space (mi_type mi)) in
            ty \<noteq> [] \<and> \<not> isSameProviderFamily t ty)"

definition mapConfiguredHighIntent :: "string \<Rightarrow> ModelInfo option \<Rightarrow> string" where
  "mapConfiguredHighIntent level modelInfo =
     (case modelInfo of None \<Rightarrow> level
      | Some mi \<Rightarrow>
        (case mi_thinking mi of None \<Rightarrow> level
         | Some s \<Rightarrow>
           if ts_levels s = [] then level
           else let l = to_lower (trim_space level);
                    candidates =
                      (if l = LevelXHigh then [LevelXHigh, LevelMax, LevelHigh]
                       else if l = LevelMax then [LevelMax, LevelXHigh, LevelHigh]
                       else []) in
             (case find (\<lambda>c. isLevelSupported c (ts_levels s)) candidates of
                None \<Rightarrow> l | Some c \<Rightarrow> c)))"

definition reasoningEffortFromConfig :: "ThinkingConfig \<Rightarrow> string" where
  "reasoningEffortFromConfig c =
     (if \<not> hasThinkingConfig c then []
      else case tc_mode c of
          ModeNone \<Rightarrow> LevelNone
        | ModeAuto \<Rightarrow> LevelAuto
        | ModeLevel \<Rightarrow> to_lower (trim_space (tc_level c))
        | ModeBudget \<Rightarrow> (case ConvertBudgetToLevel (tc_budget c) of None \<Rightarrow> [] | Some l \<Rightarrow> l))"

definition reasoningEffortFromSuffix :: "SuffixResult \<Rightarrow> string" where
  "reasoningEffortFromSuffix s =
     (if \<not> sr_has_suffix s then [] else reasoningEffortFromConfig (parseSuffixToConfig (sr_raw_suffix s)))"

section \<open>Validation\<close>

text \<open>Lines 66 to 82: does the model's declared type disagree with either format?\<close>

definition modelFamilyMismatch :: "ModelInfo \<Rightarrow> string \<Rightarrow> string \<Rightarrow> bool" where
  "modelFamilyMismatch mi f t =
     (let ty = to_lower (trim_space (mi_type mi)) in
        ty \<noteq> [] \<and> ((f \<noteq> [] \<and> \<not> isSameProviderFamily f ty) \<or> (t \<noteq> [] \<and> \<not> isSameProviderFamily t ty)))"

definition allowClampUnsupported :: "ModelInfo \<Rightarrow> string \<Rightarrow> string \<Rightarrow> bool" where
  "allowClampUnsupported mi f t =
     (detectModelCapability (Some mi) \<in> {CapabilityLevelOnly, CapabilityHybrid} \<and>
      (\<not> isSameProviderFamily f t \<or> modelFamilyMismatch mi f t))"

definition strictBudget :: "ModelInfo \<Rightarrow> string \<Rightarrow> string \<Rightarrow> bool \<Rightarrow> bool" where
  "strictBudget mi f t fromSuffix =
     (\<not> fromSuffix \<and> f \<noteq> [] \<and> isSameProviderFamily f t \<and> \<not> modelFamilyMismatch mi f t)"

text \<open>The capability switch; the flag is \<open>budgetDerivedFromLevel\<close>.\<close>

definition convert_for_capability :: "ThinkingConfig \<Rightarrow> ModelInfo \<Rightarrow> ThinkingError + ThinkingConfig \<times> bool" where
  "convert_for_capability c mi =
     (case detectModelCapability (Some mi) of
        CapabilityBudgetOnly \<Rightarrow>
          if tc_mode c = ModeLevel then
            (if tc_level c = LevelAuto then Inr (c, False)
             else case ConvertLevelToBudget (tc_level c) of
                 None \<Rightarrow> Inl (ErrUnknownLevel (tc_level c))
               | Some b \<Rightarrow> Inr (c\<lparr>tc_mode := ModeBudget, tc_budget := b, tc_level := []\<rparr>, True))
          else Inr (c, False)
      | CapabilityLevelOnly \<Rightarrow>
          if tc_mode c = ModeBudget then
            (case ConvertBudgetToLevel (tc_budget c) of
               None \<Rightarrow> Inl (ErrUnknownLevelBudget (tc_budget c))
             | Some l \<Rightarrow> Inr (c\<lparr>tc_mode := ModeLevel, tc_level := clampLevel l (Some mi), tc_budget := 0\<rparr>, False))
          else Inr (c, False)
      | _ \<Rightarrow> Inr (c, False))"

text \<open>The three rewrites of the special values none, auto and budget 0, in order.\<close>

definition normalize_special :: "ThinkingConfig \<Rightarrow> ThinkingConfig" where
  "normalize_special c =
     (let c1 = (if tc_mode c = ModeLevel \<and> tc_level c = LevelNone
                then c\<lparr>tc_mode := ModeNone, tc_budget := 0, tc_level := []\<rparr> else c);
          c2 = (if tc_mode c1 = ModeLevel \<and> tc_level c1 = LevelAuto
                then c1\<lparr>tc_mode := ModeAuto, tc_budget := -1, tc_level := []\<rparr> else c1)
      in if tc_mode c2 = ModeBudget \<and> tc_budget c2 = 0
         then c2\<lparr>tc_mode := ModeNone, tc_level := []\<rparr> else c2)"

definition check_level :: "ThinkingConfig \<Rightarrow> ModelInfo \<Rightarrow> ThinkingSupport \<Rightarrow> bool \<Rightarrow> ThinkingError + ThinkingConfig" where
  "check_level c mi s clampOk =
     (if ts_levels s \<noteq> [] \<and> tc_mode c = ModeLevel \<and> \<not> isLevelSupported (tc_level c) (ts_levels s) then
        (let c' = (if clampOk then c\<lparr>tc_level := clampLevel (tc_level c) (Some mi)\<rparr> else c) in
           if \<not> isLevelSupported (tc_level c') (ts_levels s)
           then Inl (ErrLevelNotSupported (to_lower (tc_level c')) (normalizeLevels (ts_levels s)))
           else Inr c')
      else Inr c)"

definition check_range :: "ThinkingConfig \<Rightarrow> ThinkingSupport \<Rightarrow> bool \<Rightarrow> bool \<Rightarrow> ThinkingError + ThinkingConfig" where
  "check_range c s strict derived =
     (if strict \<and> tc_mode c = ModeBudget \<and> \<not> derived \<and> (ts_min s \<noteq> 0 \<or> ts_max s \<noteq> 0) \<and>
         (tc_budget c < ts_min s \<or> tc_budget c > ts_max s \<or> (tc_budget c = 0 \<and> \<not> ts_zero_allowed s))
      then Inl (ErrBudgetOutOfRange (tc_budget c) (ts_min s) (ts_max s))
      else Inr c)"

definition resolve_auto :: "ThinkingConfig \<Rightarrow> ModelInfo \<Rightarrow> ThinkingSupport \<Rightarrow> ThinkingConfig" where
  "resolve_auto c mi s =
     (if tc_mode c = ModeAuto \<and> \<not> ts_dynamic_allowed s then
        (let c' = convertAutoToMidRange c s in
           if tc_mode c' = ModeLevel \<and> ts_levels s \<noteq> [] \<and> \<not> isLevelSupported (tc_level c') (ts_levels s)
           then c'\<lparr>tc_level := clampLevel (tc_level c') (Some mi)\<rparr> else c')
      else c)"

definition finish_config :: "ThinkingConfig \<Rightarrow> ModelInfo \<Rightarrow> ThinkingSupport \<Rightarrow> string \<Rightarrow> ThinkingConfig" where
  "finish_config c mi s t =
     (if tc_mode c = ModeNone \<and> t = ''claude'' then c\<lparr>tc_budget := 0, tc_level := []\<rparr>
      else let c' = (if tc_mode c \<in> {ModeBudget, ModeAuto, ModeNone}
                     then c\<lparr>tc_budget := clampBudget (tc_budget c) (Some mi)\<rparr> else c);
               cannotDisable = (\<not> ts_zero_allowed s \<and> \<not> isLevelSupported LevelNone (ts_levels s))
           in if tc_mode c' = ModeNone \<and> ts_levels s \<noteq> [] \<and> (tc_budget c' > 0 \<or> cannotDisable)
              then c'\<lparr>tc_level := hd (ts_levels s)\<rparr> else c')"

definition ValidateConfig ::
  "ThinkingConfig \<Rightarrow> ModelInfo option \<Rightarrow> string \<Rightarrow> string \<Rightarrow> bool \<Rightarrow> ThinkingError + ThinkingConfig" where
  "ValidateConfig config modelInfo fromFormat toFormat fromSuffix =
     (let f = to_lower (trim_space fromFormat);
          t = to_lower (trim_space toFormat);
          model = (case modelInfo of None \<Rightarrow> ''unknown''
                   | Some mi \<Rightarrow> if mi_id mi \<noteq> [] then mi_id mi else ''unknown'');
          support = (case modelInfo of None \<Rightarrow> None | Some mi \<Rightarrow> mi_thinking mi)
      in case (modelInfo, support) of
           (Some mi, Some s) \<Rightarrow>
             rbind (convert_for_capability config mi) (\<lambda>(c, derived).
             rbind (check_level (normalize_special c) mi s (allowClampUnsupported mi f t)) (\<lambda>c.
             rbind (check_range c s (strictBudget mi f t fromSuffix) derived) (\<lambda>c.
             Inr (finish_config (resolve_auto c mi s) mi s t))))
         | _ \<Rightarrow> if tc_mode config \<noteq> ModeNone then Inl (ErrThinkingNotSupported model) else Inr config)"

section \<open>Suffix lemmas\<close>

lemma last_index_append:
  assumes "c \<notin> set s"
  shows "last_index c (m @ c # s) = Some (length m)"
proof -
  have "length (takeWhile (\<lambda>x. x \<noteq> c) (rev s @ c # rev m)) = length s"
    using assms by (subst takeWhile_append2) auto
  then show ?thesis by (simp add: last_index_def)
qed

lemma last_index_None: "last_index c s = None \<longleftrightarrow> c \<notin> set s"
proof -
  have "length (takeWhile (\<lambda>x. x \<noteq> c) (rev s)) = length s \<longleftrightarrow> takeWhile (\<lambda>x. x \<noteq> c) (rev s) = rev s"
    by (metis length_rev takeWhile_eq_take take_all_iff order_refl)
  also have "\<dots> \<longleftrightarrow> c \<notin> set s" by (auto simp: takeWhile_eq_all_conv)
  finally show ?thesis by (auto simp: last_index_def Let_def)
qed

section \<open>Levels\<close>

lemma index_of_Some: "index_of l ls = Some i \<Longrightarrow> i < length ls \<and> equal_fold l (ls ! i)"
  by (induction ls arbitrary: i) (auto split: if_splits)

lemma level_budget_roundtrip:
  assumes "ConvertLevelToBudget l = Some b" and "to_lower l \<noteq> LevelMax"
  shows "ConvertBudgetToLevel b = Some (to_lower l)"
  using assms
  by (auto simp: ConvertLevelToBudget_def levelToBudgetMap_def ConvertBudgetToLevel_def level_defs
      threshold_defs split: if_splits)

text \<open>The order \<open>clampLevel\<close> minimises: distance first, then the lower level.\<close>

definition better :: "nat \<Rightarrow> nat \<Rightarrow> nat \<Rightarrow> bool" where
  "better pos a b \<longleftrightarrow> level_dist pos a < level_dist pos b \<or> (level_dist pos a = level_dist pos b \<and> a \<le> b)"

lemma better_trans: "better p a b \<Longrightarrow> better p b c \<Longrightarrow> better p a c"
  by (auto simp: better_def)

lemma better_refl: "better p a a"
  by (auto simp: better_def)

lemma clamp_step_Some:
  "clamp_step pos b s = Some r \<Longrightarrow>
     (b = Some r \<or> levelIndex (trim_space s) = Some r) \<and>
     (\<forall>i. b = Some i \<or> levelIndex (trim_space s) = Some i \<longrightarrow> better pos r i)"
  by (auto simp: clamp_step_def better_def split: option.splits if_splits)

lemma clamp_step_None: "clamp_step pos b s = None \<longleftrightarrow> b = None \<and> levelIndex (trim_space s) = None"
  by (auto simp: clamp_step_def split: option.splits if_splits)

lemma clamp_fold_None:
  "foldl (clamp_step pos) b xs = None \<longleftrightarrow> b = None \<and> (\<forall>s \<in> set xs. levelIndex (trim_space s) = None)"
  by (induction xs arbitrary: b) (auto simp: clamp_step_None)

lemma clamp_fold_Some:
  "foldl (clamp_step pos) b xs = Some r \<Longrightarrow>
     (b = Some r \<or> (\<exists>s \<in> set xs. levelIndex (trim_space s) = Some r)) \<and>
     (\<forall>i. b = Some i \<or> (\<exists>s \<in> set xs. levelIndex (trim_space s) = Some i) \<longrightarrow> better pos r i)"
proof (induction xs arbitrary: b)
  case Nil
  then show ?case by (simp add: better_refl)
next
  case (Cons x xs)
  from Cons.prems have f: "foldl (clamp_step pos) (clamp_step pos b x) xs = Some r" by simp
  note IH = Cons.IH [OF f]
  show ?case
  proof (cases "clamp_step pos b x")
    case None
    then have "b = None" "levelIndex (trim_space x) = None" by (simp_all add: clamp_step_None)
    then show ?thesis using IH None by auto
  next
    case (Some q)
    note q = clamp_step_Some [OF this]
    have "better pos r q" using IH Some by blast
    then show ?thesis using IH q Some by (auto intro: better_trans)
  qed
qed

lemma clampLevel_cases:
  assumes "mi_thinking mi = Some s" and "levelIndex l = Some p"
    and "\<not> isLevelSupported l (ts_levels s)"
    and "\<exists>x \<in> set (ts_levels s). levelIndex (trim_space x) \<noteq> None"
  obtains b where "clampLevel l (Some mi) = standardLevelOrder ! b" "b < length standardLevelOrder"
    "isLevelSupported (standardLevelOrder ! b) (ts_levels s)"
    "\<And>x i. x \<in> set (ts_levels s) \<Longrightarrow> levelIndex (trim_space x) = Some i \<Longrightarrow> better p b i"
proof -
  obtain b where b: "foldl (clamp_step p) None (ts_levels s) = Some b"
    using assms(4) by (metis clamp_fold_None option.exhaust)
  from clamp_fold_Some [OF b] obtain y where
    y: "y \<in> set (ts_levels s)" "levelIndex (trim_space y) = Some b" and
    best: "\<And>x i. x \<in> set (ts_levels s) \<Longrightarrow> levelIndex (trim_space x) = Some i \<Longrightarrow> better p b i"
    by blast
  have bd: "b < length standardLevelOrder" "equal_fold (trim_space y) (standardLevelOrder ! b)"
    using index_of_Some [of "trim_space y" standardLevelOrder b] y(2) by (auto simp: levelIndex_def)
  have sup: "isLevelSupported (standardLevelOrder ! b) (ts_levels s)"
    using y(1) bd(2) by (auto simp: isLevelSupported_def list_ex_iff intro: equal_fold_sym)
  have "clampLevel l (Some mi) = standardLevelOrder ! b"
    using assms b y(1) by (auto simp: clampLevel_def Let_def)
  then show thesis using bd(1) sup best by (rule that)
qed

section \<open>Stage lemmas\<close>

lemma convertAuto_not_auto: "tc_mode (convertAutoToMidRange c s) \<noteq> ModeAuto"
  by (auto simp: convertAutoToMidRange_def Let_def)

lemma resolve_auto_dynamic: "tc_mode (resolve_auto c mi s) = ModeAuto \<Longrightarrow> ts_dynamic_allowed s"
  by (auto simp: resolve_auto_def Let_def convertAuto_not_auto split: if_splits)

lemma finish_mode [simp]: "tc_mode (finish_config c mi s t) = tc_mode c"
  by (auto simp: finish_config_def Let_def)

lemma finish_level: "tc_mode c = ModeLevel \<Longrightarrow> finish_config c mi s t = c"
  by (auto simp: finish_config_def Let_def)

lemma finish_budget:
  "tc_mode c = ModeBudget \<Longrightarrow> finish_config c mi s t = c\<lparr>tc_budget := clampBudget (tc_budget c) (Some mi)\<rparr>"
  by (auto simp: finish_config_def Let_def)

lemma ValidateConfig_Inr:
  assumes "ValidateConfig c (Some mi) f t sfx = Inr c'" and "mi_thinking mi = Some s"
  obtains c1 d c2 c3 f' t' where
    "convert_for_capability c mi = Inr (c1, d)"
    "check_level (normalize_special c1) mi s (allowClampUnsupported mi f' t') = Inr c2"
    "check_range c2 s (strictBudget mi f' t' sfx) d = Inr c3"
    "c' = finish_config (resolve_auto c3 mi s) mi s t'"
  using assms by (fastforce simp: ValidateConfig_def Let_def rbind_Inr_iff split: prod.splits)

lemma check_range_Inr: "check_range c s b d = Inr c' \<Longrightarrow> c' = c"
  by (auto simp: check_range_def split: if_splits)

lemma check_level_Inr:
  "check_level c mi s b = Inr c' \<Longrightarrow>
     tc_mode c' = tc_mode c \<and> tc_budget c' = tc_budget c \<and>
     (tc_mode c = ModeLevel \<longrightarrow> ts_levels s \<noteq> [] \<longrightarrow> isLevelSupported (tc_level c') (ts_levels s))"
  by (auto simp: check_level_def Let_def split: if_splits)

lemma clampLevel_supported:
  assumes "mi_thinking mi = Some s" and "levelIndex l \<noteq> None"
    and "\<exists>x \<in> set (ts_levels s). levelIndex (trim_space x) \<noteq> None"
  shows "isLevelSupported (clampLevel l (Some mi)) (ts_levels s)"
proof (cases "isLevelSupported l (ts_levels s)")
  case True
  then show ?thesis using assms(1) by (simp add: clampLevel_def)
next
  case False
  then show ?thesis using assms by (metis clampLevel_cases option.exhaust)
qed

lemma levelIndex_medium: "levelIndex LevelMedium = Some 2"
  by (simp add: levelIndex_def standardLevelOrder_def level_defs equal_fold_def to_lower_def lower_char_def)

lemma resolve_auto_level:
  assumes "mi_thinking mi = Some s" and "tc_mode (resolve_auto c mi s) = ModeLevel"
    and "\<exists>x \<in> set (ts_levels s). levelIndex (trim_space x) \<noteq> None"
    and "tc_mode c = ModeLevel \<longrightarrow> isLevelSupported (tc_level c) (ts_levels s)"
  shows "isLevelSupported (tc_level (resolve_auto c mi s)) (ts_levels s)"
proof -
  have "isLevelSupported (clampLevel LevelMedium (Some mi)) (ts_levels s)"
    using assms(1,3) by (intro clampLevel_supported) (simp_all add: levelIndex_medium)
  then show ?thesis using assms
    by (auto simp: resolve_auto_def Let_def convertAutoToMidRange_def split: if_splits)
qed

text \<open>What a budget model declares: a range of positive numbers that does not overflow.\<close>

definition budget_range :: "ThinkingSupport \<Rightarrow> bool" where
  "budget_range s \<longleftrightarrow> 0 \<le> ts_min s \<and> ts_min s \<le> ts_max s \<and> 0 < ts_max s \<and> int64 (ts_min s + ts_max s)"

lemma convertAuto_budget:
  "budget_range s \<Longrightarrow> tc_mode (convertAutoToMidRange c s) = ModeBudget \<Longrightarrow>
     ts_min s \<le> tc_budget (convertAutoToMidRange c s) \<and> tc_budget (convertAutoToMidRange c s) \<le> ts_max s"
  using go_div_mid [of "ts_min s" "ts_max s"]
  by (auto simp: convertAutoToMidRange_def Let_def budget_range_def split: if_splits)

lemma clampBudget_range:
  assumes "mi_thinking mi = Some s" and "budget_range s" and "b \<noteq> -1" and "b \<noteq> 0"
  shows "ts_min s \<le> clampBudget b (Some mi) \<and> clampBudget b (Some mi) \<le> ts_max s"
  using assms by (auto simp: clampBudget_def budget_range_def)

lemma normalize_special_budget:
  "tc_mode (normalize_special c) = ModeBudget \<Longrightarrow>
     normalize_special c = c \<and> tc_mode c = ModeBudget \<and> tc_budget c \<noteq> 0"
  by (auto simp: normalize_special_def Let_def level_defs split: if_splits)

lemma ConvertLevelToBudget_auto: "ConvertLevelToBudget l = Some (-1) \<longleftrightarrow> to_lower l = LevelAuto"
  by (auto simp: ConvertLevelToBudget_def levelToBudgetMap_def level_defs split: if_splits)

lemma convert_budget_auto:
  assumes "convert_for_capability c mi = Inr (c1, d)" and "tc_mode c1 = ModeBudget" and "tc_budget c1 = -1"
  shows "(tc_mode c = ModeBudget \<and> tc_budget c = -1) \<or>
         (tc_mode c = ModeLevel \<and> to_lower (tc_level c) = LevelAuto \<and> tc_level c \<noteq> LevelAuto)"
  using assms ConvertLevelToBudget_auto [of "tc_level c"]
  by (auto simp: convert_for_capability_def split: ModelCapability.splits if_splits option.splits)

section \<open>Properties\<close>

text \<open>C32. A model name with a suffix in parentheses is taken apart into exactly the name and
  the suffix it was built from, whatever the name holds, when the suffix has no opening
  parenthesis.\<close>

theorem ParseSuffix_roundtrip:
  assumes "CHR ''('' \<notin> set s"
  shows "ParseSuffix (m @ ''('' @ s @ '')'') =
           \<lparr>sr_model_name = m, sr_has_suffix = True, sr_raw_suffix = s\<rparr>"
  using last_index_append [of "CHR ''(''" "s @ '')''" m] assms
  by (simp add: ParseSuffix_def)

theorem ParseSuffix_roundtrip_witness:
  "ParseSuffix (''gpt-5(mini)'' @ ''('' @ ''high'' @ '')'') =
     \<lparr>sr_model_name = ''gpt-5(mini)'', sr_has_suffix = True, sr_raw_suffix = ''high''\<rparr>"
  by (rule ParseSuffix_roundtrip) simp

text \<open>A level name read as a budget and back is the same level, except for "max", which
  the code maps to a large budget on purpose.\<close>

theorem level_budget_level:
  assumes "ConvertLevelToBudget l = Some b" and "to_lower l \<noteq> LevelMax"
  shows "ConvertBudgetToLevel b = Some (to_lower l)"
  using assms by (rule level_budget_roundtrip)

theorem level_budget_level_witness:
  "ConvertLevelToBudget ''High'' = Some 24576 \<and> ConvertBudgetToLevel 24576 = Some ''high''"
proof -
  have h: "ConvertLevelToBudget ''High'' = Some 24576" by code_simp
  have l: "to_lower ''High'' = ''high''" by code_simp
  show ?thesis using h level_budget_level [OF h] l by (simp add: level_defs)
qed

text \<open>C33. An unsupported level is clamped to a supported one that is nearest in the standard
  order, and of two equally near ones to the lower.\<close>

theorem clampLevel_nearest:
  assumes "mi_thinking mi = Some s" and "levelIndex l = Some p"
    and "\<not> isLevelSupported l (ts_levels s)"
    and "x \<in> set (ts_levels s)" and "levelIndex (trim_space x) = Some i"
  shows "\<exists>b. clampLevel l (Some mi) = standardLevelOrder ! b \<and>
             isLevelSupported (clampLevel l (Some mi)) (ts_levels s) \<and>
             (level_dist p b < level_dist p i \<or> (level_dist p b = level_dist p i \<and> b \<le> i))"
  using assms by (metis clampLevel_cases better_def option.discI)

definition witness_support :: ThinkingSupport where
  "witness_support = \<lparr>ts_min = 0, ts_max = 0, ts_zero_allowed = False, ts_dynamic_allowed = False,
     ts_levels = [''low'', '' high'']\<rparr>"

definition witness_level_model :: ModelInfo where
  "witness_level_model = (empty_model_info ''m'')\<lparr>mi_thinking := Some witness_support\<rparr>"

lemmas witness_defs = witness_support_def witness_level_model_def

lemmas level_eval = level_defs levelIndex_def standardLevelOrder_def equal_fold_def to_lower_def
  lower_char_def trim_space_def trim_left_def is_space_def isLevelSupported_def

theorem clampLevel_nearest_witness:
  "\<exists>b. clampLevel ''medium'' (Some witness_level_model) = standardLevelOrder ! b \<and>
      isLevelSupported (clampLevel ''medium'' (Some witness_level_model)) [''low'', '' high''] \<and>
      (level_dist 2 b < level_dist 2 1 \<or> level_dist 2 b = level_dist 2 1 \<and> b \<le> 1)"
  using clampLevel_nearest [of witness_level_model witness_support "''medium''" 2 "''low''" 1]
  by (simp add: witness_defs level_eval)

text \<open>C34. Validation never lets a level through that the model does not list: a result in level
  mode names a supported level, for a model that lists at least one standard level.\<close>

theorem ValidateConfig_level_supported:
  assumes "ValidateConfig c (Some mi) f t sfx = Inr c'" and "mi_thinking mi = Some s"
    and "\<exists>x \<in> set (ts_levels s). levelIndex (trim_space x) \<noteq> None"
    and "tc_mode c' = ModeLevel"
  shows "isLevelSupported (tc_level c') (ts_levels s)"
proof -
  from ValidateConfig_Inr [OF assms(1,2)] obtain c1 d c2 c3 f' t' where
    l: "check_level (normalize_special c1) mi s (allowClampUnsupported mi f' t') = Inr c2" and
    r: "check_range c2 s (strictBudget mi f' t' sfx) d = Inr c3" and
    c': "c' = finish_config (resolve_auto c3 mi s) mi s t'" by metis
  have ne: "ts_levels s \<noteq> []" using assms(3) by auto
  have c3: "tc_mode c3 = ModeLevel \<longrightarrow> isLevelSupported (tc_level c3) (ts_levels s)"
    using check_level_Inr [OF l] check_range_Inr [OF r] ne by auto
  have m: "tc_mode (resolve_auto c3 mi s) = ModeLevel" using assms(4) c' by simp
  show ?thesis
    using resolve_auto_level [OF assms(2) m assms(3) c3] finish_level [OF m] c' by simp
qed

theorem ValidateConfig_level_supported_witness:
  "\<exists>c'. ValidateConfig \<lparr>tc_mode = ModeAuto, tc_budget = -1, tc_level = []\<rparr>
          (Some witness_level_model) ''openai'' ''openai'' False = Inr c' \<and>
        isLevelSupported (tc_level c') [''low'', '' high'']"
proof -
  let ?c = "\<lparr>tc_mode = ModeAuto, tc_budget = -1, tc_level = []\<rparr>"
  let ?c' = "\<lparr>tc_mode = ModeLevel, tc_budget = 0, tc_level = ''low''\<rparr>"
  have v: "ValidateConfig ?c (Some witness_level_model) ''openai'' ''openai'' False = Inr ?c'"
    by (simp add: ValidateConfig_def witness_defs convert_for_capability_def detectModelCapability_def
        normalize_special_def check_level_def check_range_def resolve_auto_def finish_config_def
        convertAutoToMidRange_def clampLevel_def clamp_step_def level_dist_def level_eval)
  have "isLevelSupported (tc_level ?c') (ts_levels witness_support)"
    by (rule ValidateConfig_level_supported [OF v])
       (simp_all add: witness_defs level_eval)
  then show ?thesis using v by (auto simp: witness_support_def)
qed

text \<open>Automatic thinking survives validation only for models that allow a dynamic budget.\<close>

theorem ValidateConfig_auto_dynamic:
  assumes "ValidateConfig c (Some mi) f t sfx = Inr c'" and "mi_thinking mi = Some s"
    and "tc_mode c' = ModeAuto"
  shows "ts_dynamic_allowed s"
  using ValidateConfig_Inr [OF assms(1,2)] assms(3) resolve_auto_dynamic finish_mode by metis

definition witness_budget_support :: ThinkingSupport where
  "witness_budget_support = \<lparr>ts_min = 1024, ts_max = 32768, ts_zero_allowed = True,
     ts_dynamic_allowed = True, ts_levels = []\<rparr>"

definition witness_budget_model :: ModelInfo where
  "witness_budget_model = (empty_model_info ''m'')\<lparr>mi_thinking := Some witness_budget_support\<rparr>"

lemmas witness_budget_defs = witness_budget_support_def witness_budget_model_def

lemmas validate_eval = ValidateConfig_def convert_for_capability_def detectModelCapability_def
  normalize_special_def check_level_def check_range_def resolve_auto_def finish_config_def
  clampBudget_def level_eval

theorem ValidateConfig_auto_dynamic_witness:
  "ValidateConfig \<lparr>tc_mode = ModeAuto, tc_budget = -1, tc_level = []\<rparr>
     (Some witness_budget_model) ''claude'' ''gemini'' False =
       Inr \<lparr>tc_mode = ModeAuto, tc_budget = -1, tc_level = []\<rparr> \<and>
   ts_dynamic_allowed witness_budget_support"
proof -
  let ?c = "\<lparr>tc_mode = ModeAuto, tc_budget = -1, tc_level = []\<rparr>"
  have v: "ValidateConfig ?c (Some witness_budget_model) ''claude'' ''gemini'' False = Inr ?c"
    by (simp add: validate_eval witness_budget_defs)
  have "ts_dynamic_allowed witness_budget_support"
    by (rule ValidateConfig_auto_dynamic [OF v]) (simp_all add: witness_budget_model_def)
  then show ?thesis using v by simp
qed

text \<open>C35. A budget that comes out of validation lies in the model's range, unless the request
  itself asked for budget -1 or spelled the level "auto" in another case (see the property on
  automatic levels below).\<close>

theorem ValidateConfig_budget_in_range:
  assumes "ValidateConfig c (Some mi) f t sfx = Inr c'" and "mi_thinking mi = Some s"
    and "budget_range s" and "tc_mode c' = ModeBudget"
    and "tc_mode c = ModeBudget \<Longrightarrow> tc_budget c \<noteq> -1"
    and "tc_mode c = ModeLevel \<Longrightarrow> to_lower (tc_level c) = LevelAuto \<Longrightarrow> tc_level c = LevelAuto"
  shows "ts_min s \<le> tc_budget c' \<and> tc_budget c' \<le> ts_max s"
proof -
  from ValidateConfig_Inr [OF assms(1,2)] obtain c1 d c2 c3 f' t' where
    conv: "convert_for_capability c mi = Inr (c1, d)" and
    l: "check_level (normalize_special c1) mi s (allowClampUnsupported mi f' t') = Inr c2" and
    r: "check_range c2 s (strictBudget mi f' t' sfx) d = Inr c3" and
    c': "c' = finish_config (resolve_auto c3 mi s) mi s t'" by metis
  have m: "tc_mode (resolve_auto c3 mi s) = ModeBudget" using assms(4) c' by simp
  have b: "tc_budget c' = clampBudget (tc_budget (resolve_auto c3 mi s)) (Some mi)"
    using finish_budget [OF m] c' by simp
  have c3: "tc_mode c3 = tc_mode (normalize_special c1)" "tc_budget c3 = tc_budget (normalize_special c1)"
    using check_level_Inr [OF l] check_range_Inr [OF r] by auto
  show ?thesis
  proof (cases "tc_mode c3 = ModeAuto")
    case True
    with m have eq: "resolve_auto c3 mi s = convertAutoToMidRange c3 s"
      by (auto simp: resolve_auto_def Let_def split: if_splits)
    let ?b = "tc_budget (convertAutoToMidRange c3 s)"
    have rng: "ts_min s \<le> ?b \<and> ?b \<le> ts_max s"
      using convertAuto_budget [OF assms(3)] m eq by simp
    have "clampBudget ?b (Some mi) = ?b \<or> clampBudget ?b (Some mi) = ts_min s"
      using rng assms(2,3) by (auto simp: clampBudget_def budget_range_def)
    then show ?thesis using rng b eq assms(3) by (auto simp: budget_range_def)
  next
    case False
    then have eq: "resolve_auto c3 mi s = c3" by (simp add: resolve_auto_def)
    with m c3 have n: "normalize_special c1 = c1" "tc_mode c1 = ModeBudget" "tc_budget c1 \<noteq> 0"
      using normalize_special_budget by auto
    have "tc_budget c1 \<noteq> -1"
      using convert_budget_auto [OF conv n(2)] assms(5,6) by blast
    then show ?thesis
      using clampBudget_range [OF assms(2,3), of "tc_budget c1"] n b eq c3 by simp
  qed
qed

theorem ValidateConfig_budget_in_range_witness:
  "ValidateConfig \<lparr>tc_mode = ModeLevel, tc_budget = 0, tc_level = ''max''\<rparr>
     (Some witness_budget_model) ''claude'' ''gemini'' False =
       Inr \<lparr>tc_mode = ModeBudget, tc_budget = 32768, tc_level = []\<rparr> \<and>
   ts_min witness_budget_support \<le> 32768 \<and> 32768 \<le> ts_max witness_budget_support"
proof -
  let ?c = "\<lparr>tc_mode = ModeLevel, tc_budget = 0, tc_level = ''max''\<rparr>"
  let ?c' = "\<lparr>tc_mode = ModeBudget, tc_budget = 32768, tc_level = []\<rparr>"
  have v: "ValidateConfig ?c (Some witness_budget_model) ''claude'' ''gemini'' False = Inr ?c'"
    by (simp add: validate_eval witness_budget_defs ConvertLevelToBudget_def levelToBudgetMap_def
        strictBudget_def isSameProviderFamily_def isGeminiFamily_def isOpenAIFamily_def)
  have "ts_min witness_budget_support \<le> tc_budget ?c' \<and> tc_budget ?c' \<le> ts_max witness_budget_support"
    by (rule ValidateConfig_budget_in_range [OF v])
       (simp_all add: witness_budget_defs budget_range_def int64_def min_int64_def max_int64_def
          to_lower_def lower_char_def level_defs)
  then show ?thesis using v by simp
qed

text \<open>A positive budget in a request body whose format and model belong to the target's
  family is never changed: it passes as it is when the model's range holds it and is refused with
  the range error when not.\<close>

theorem ValidateConfig_strict:
  assumes "mi_thinking mi = Some s" and "detectModelCapability (Some mi) \<in> {CapabilityBudgetOnly, CapabilityHybrid}"
    and "strictBudget mi (to_lower (trim_space f)) (to_lower (trim_space t)) sfx"
    and "tc_mode c = ModeBudget" and "0 < tc_budget c"
  shows "ValidateConfig c (Some mi) f t sfx =
     (if ts_min s \<le> tc_budget c \<and> tc_budget c \<le> ts_max s then Inr c
      else Inl (ErrBudgetOutOfRange (tc_budget c) (ts_min s) (ts_max s)))"
proof -
  have nz: "ts_min s \<noteq> 0 \<or> ts_max s \<noteq> 0"
    using assms(1,2) by (auto simp: detectModelCapability_def Let_def split: if_splits)
  have conv: "convert_for_capability c mi = Inr (c, False)"
    using assms(2,4) by (auto simp: convert_for_capability_def)
  have n: "normalize_special c = c" using assms(4,5) by (simp add: normalize_special_def Let_def)
  have l: "check_level c mi s b = Inr c" for b using assms(4) by (simp add: check_level_def)
  have a: "resolve_auto c mi s = c" using assms(4) by (simp add: resolve_auto_def)
  have f: "ts_min s \<le> tc_budget c \<and> tc_budget c \<le> ts_max s \<Longrightarrow> finish_config c mi s t' = c" for t'
    using assms(1,4,5) by (simp add: finish_budget clampBudget_def)
  show ?thesis
    using assms(1,3,4,5) nz f by (auto simp: ValidateConfig_def Let_def conv n l a check_range_def)
qed

theorem ValidateConfig_strict_witness:
  "ValidateConfig \<lparr>tc_mode = ModeBudget, tc_budget = 99999, tc_level = []\<rparr>
     (Some witness_budget_model) ''Gemini'' ''antigravity'' False = Inl (ErrBudgetOutOfRange 99999 1024 32768)"
proof -
  have c: "detectModelCapability (Some witness_budget_model) \<in> {CapabilityBudgetOnly, CapabilityHybrid}"
    "strictBudget witness_budget_model (to_lower (trim_space ''Gemini'')) (to_lower (trim_space ''antigravity'')) False"
    by code_simp+
  show ?thesis
    using ValidateConfig_strict [OF _ c, of witness_budget_support
        "\<lparr>tc_mode = ModeBudget, tc_budget = 99999, tc_level = []\<rparr>"]
    by (simp add: witness_budget_defs)
qed

text \<open>On a budget-only model a level spelled "auto" in another case (as a Gemini
  \<open>thinkingLevel\<close> arrives, unfolded) is not recognised as automatic thinking: it becomes the
  budget -1 and passes, also for a model that does not allow a dynamic budget.\<close>

theorem ValidateConfig_auto_other_case:
  assumes "mi_thinking mi = Some s" and "detectModelCapability (Some mi) = CapabilityBudgetOnly"
    and "to_lower l = LevelAuto" and "l \<noteq> LevelAuto"
  shows "ValidateConfig \<lparr>tc_mode = ModeLevel, tc_budget = b, tc_level = l\<rparr> (Some mi) f t sfx =
    Inr \<lparr>tc_mode = ModeBudget, tc_budget = -1, tc_level = []\<rparr>"
proof -
  have "ConvertLevelToBudget l = Some (-1)" using assms(3) by (simp add: ConvertLevelToBudget_auto)
  then show ?thesis using assms
    by (simp add: ValidateConfig_def Let_def convert_for_capability_def normalize_special_def
        check_level_def check_range_def resolve_auto_def finish_config_def clampBudget_def)
qed

theorem ValidateConfig_auto_other_case_witness:
  "ValidateConfig \<lparr>tc_mode = ModeLevel, tc_budget = 0, tc_level = ''AUTO''\<rparr>
     (Some (witness_budget_model\<lparr>mi_thinking := Some (witness_budget_support\<lparr>ts_dynamic_allowed := False\<rparr>)\<rparr>))
     ''gemini'' ''gemini'' False = Inr \<lparr>tc_mode = ModeBudget, tc_budget = -1, tc_level = []\<rparr>"
proof (rule ValidateConfig_auto_other_case)
  show "to_lower ''AUTO'' = LevelAuto" by code_simp
qed (simp_all add: witness_budget_defs detectModelCapability_def level_defs)

end
