(* ===== verification/Model_Registry.thy ===== *)
theory Model_Registry
  imports Model_Info
begin

text \<open>
  The model registry of \<open>internal/registry/model_registry.go\<close>: which clients (credentials)
  serve which models, counted per model and per provider, with the quota and suspension marks the
  scheduler leaves on them and the cache of the model lists handed to API clients.

  Every method that changes the registry is a function from the registry to the registry; the
  mutex makes each of them one step. \<open>time.Now()\<close> is the argument \<open>now\<close>. The hook's
  asynchronous calls are recorded in \<open>rg_events\<close> in the order in which they are started.
  Pointers the code always fills (\<open>registration.Info\<close>, the registrations themselves, the
  quota instants) are values. The maps \<open>oldCounts\<close> and \<open>newCounts\<close> are read with
  \<open>count_list\<close>; a loop over their keys runs in the order of first occurrence, one of the
  orders Go may take (the lemmas show the result does not depend on it: the loop bodies change
  distinct keys).
\<close>

section \<open>State\<close>

text \<open>The values of the maps handed to API handlers (Go's \<open>any\<close>).
  \<open>VTime s\<close> is the RFC 3339 text of the Unix second \<open>s\<close>.\<close>

datatype mvalue =
    VStr string
  | VInt int
  | VBool bool
  | VStrs "string list"
  | VTime int
  | VEntries "PricingEntry list"
  | VMap "(string \<times> mvalue) list"

type_synonym model_map = "(string, mvalue) gomap"

record ModelRegistration =
  mr_info :: ModelInfo
  mr_info_by_provider :: "(string, ModelInfo) gomap"
  mr_count :: int
  mr_last_updated :: time
  mr_quota :: "(string, time) gomap"
  mr_providers :: "(string, int) gomap"
  mr_suspended :: "(string, string) gomap"

datatype hook_event =
    ModelsRegistered string string "ModelInfo list"
  | ModelsUnregistered string string

record availableModelsCacheEntry =
  ce_models :: "model_map list"
  ce_expires_at :: time

record ModelRegistry =
  rg_models :: "(string, ModelRegistration) gomap"
  rg_client_models :: "(string, string list) gomap"
  rg_client_model_infos :: "(string, (string, ModelInfo) gomap) gomap"
  rg_client_providers :: "(string, string) gomap"
  rg_cache :: "(string, availableModelsCacheEntry) gomap"
  rg_generation :: int
  rg_hook :: bool
  rg_events :: "hook_event list"

definition newModelRegistry :: "bool \<Rightarrow> ModelRegistry" where
  "newModelRegistry hook =
     \<lparr>rg_models = [], rg_client_models = [], rg_client_model_infos = [], rg_client_providers = [],
      rg_cache = [], rg_generation = 0, rg_hook = hook, rg_events = []\<rparr>"

definition modelQuotaExceededWindow :: duration where
  "modelQuotaExceededWindow = 5 * minute"

definition invalidateAvailableModelsCacheLocked :: "ModelRegistry \<Rightarrow> ModelRegistry" where
  "invalidateAvailableModelsCacheLocked r =
     r\<lparr>rg_generation := (rg_generation r + 1) mod 18446744073709551616, rg_cache := []\<rparr>"

text \<open>\<open>cloneModelInfosUnique\<close>: the valid models, the first of each identifier.\<close>

definition valid_models :: "ModelInfo option list \<Rightarrow> ModelInfo list" where
  "valid_models models = filter (\<lambda>m. mi_id m \<noteq> []) (concat (map (\<lambda>mo. case mo of None \<Rightarrow> [] | Some m \<Rightarrow> [m]) models))"

definition add_first :: "(string, ModelInfo) gomap \<Rightarrow> ModelInfo \<Rightarrow> (string, ModelInfo) gomap" where
  "add_first seen m = (if mget seen (mi_id m) = None then seen @ [(mi_id m, m)] else seen)"

definition first_models :: "ModelInfo list \<Rightarrow> (string, ModelInfo) gomap" where
  "first_models ms = foldl add_first [] ms"

definition cloneModelInfosUnique :: "ModelInfo option list \<Rightarrow> ModelInfo list" where
  "cloneModelInfosUnique models = map snd (first_models (valid_models models))"

definition triggerModelsRegistered :: "string \<Rightarrow> string \<Rightarrow> ModelInfo option list \<Rightarrow> ModelRegistry \<Rightarrow> ModelRegistry" where
  "triggerModelsRegistered provider clientID models r =
     (if rg_hook r then r\<lparr>rg_events := rg_events r @ [ModelsRegistered provider clientID (cloneModelInfosUnique models)]\<rparr>
      else r)"

definition triggerModelsUnregistered :: "string \<Rightarrow> string \<Rightarrow> ModelRegistry \<Rightarrow> ModelRegistry" where
  "triggerModelsUnregistered provider clientID r =
     (if rg_hook r then r\<lparr>rg_events := rg_events r @ [ModelsUnregistered provider clientID]\<rparr> else r)"

section \<open>One registration\<close>

definition reg_add :: "string \<Rightarrow> ModelInfo \<Rightarrow> time \<Rightarrow> ModelRegistration option \<Rightarrow> ModelRegistration option" where
  "reg_add provider model now e =
     (case e of
        Some ex \<Rightarrow>
          let ex' = ex\<lparr>mr_count := mr_count ex + 1, mr_last_updated := now, mr_info := model\<rparr> in
          Some (if provider \<noteq> []
                then ex'\<lparr>mr_providers := mput provider (mget_or 0 (mr_providers ex) provider + 1) (mr_providers ex),
                         mr_info_by_provider := mput provider model (mr_info_by_provider ex)\<rparr>
                else ex')
      | None \<Rightarrow>
          Some \<lparr>mr_info = model,
                mr_info_by_provider = (if provider \<noteq> [] then [(provider, model)] else []),
                mr_count = 1, mr_last_updated = now, mr_quota = [],
                mr_providers = (if provider \<noteq> [] then [(provider, 1)] else []),
                mr_suspended = []\<rparr>)"

definition addModelRegistration ::
  "string \<Rightarrow> string \<Rightarrow> ModelInfo option \<Rightarrow> time \<Rightarrow> (string, ModelRegistration) gomap \<Rightarrow> (string, ModelRegistration) gomap" where
  "addModelRegistration modelID provider model now ms =
     (case model of None \<Rightarrow> ms
      | Some m \<Rightarrow> if modelID = [] then ms else malter modelID (reg_add provider m now) ms)"

text \<open>Taking \<open>n\<close> of a provider's bindings away; a count that would reach zero goes, and the
  provider's own metadata with it.\<close>

definition take_provider :: "string \<Rightarrow> int \<Rightarrow> ModelRegistration \<Rightarrow> ModelRegistration" where
  "take_provider provider n reg =
     (case mget (mr_providers reg) provider of None \<Rightarrow> reg
      | Some cnt \<Rightarrow>
          if cnt \<le> n then reg\<lparr>mr_providers := mdel provider (mr_providers reg),
                              mr_info_by_provider := mdel provider (mr_info_by_provider reg)\<rparr>
          else reg\<lparr>mr_providers := mput provider (cnt - n) (mr_providers reg)\<rparr>)"

definition reg_remove :: "string \<Rightarrow> string \<Rightarrow> time \<Rightarrow> ModelRegistration option \<Rightarrow> ModelRegistration option" where
  "reg_remove clientID provider now e =
     (case e of None \<Rightarrow> None
      | Some reg \<Rightarrow>
          let c = (if mr_count reg - 1 < 0 then 0 else mr_count reg - 1);
              r1 = reg\<lparr>mr_count := c, mr_last_updated := now,
                       mr_quota := mdel clientID (mr_quota reg),
                       mr_suspended := mdel clientID (mr_suspended reg)\<rparr>;
              r2 = (if provider \<noteq> [] then take_provider provider 1 r1 else r1)
          in if c \<le> 0 then None else Some r2)"

definition removeModelRegistration ::
  "string \<Rightarrow> string \<Rightarrow> string \<Rightarrow> time \<Rightarrow> (string, ModelRegistration) gomap \<Rightarrow> (string, ModelRegistration) gomap" where
  "removeModelRegistration clientID modelID provider now = malter modelID (reg_remove clientID provider now)"

text \<open>The loop body of \<open>unregisterClientInternal\<close>; \<open>None\<close> is \<open>!hasProvider\<close>.\<close>

definition reg_release :: "string \<Rightarrow> string option \<Rightarrow> time \<Rightarrow> ModelRegistration option \<Rightarrow> ModelRegistration option" where
  "reg_release clientID provider now e =
     (case e of None \<Rightarrow> None
      | Some reg \<Rightarrow>
          let c = mr_count reg - 1;
              r1 = reg\<lparr>mr_count := c, mr_last_updated := now,
                       mr_quota := mdel clientID (mr_quota reg),
                       mr_suspended := mdel clientID (mr_suspended reg)\<rparr>;
              r2 = (case provider of None \<Rightarrow> r1 | Some p \<Rightarrow> take_provider p 1 r1)
          in if c \<le> 0 then None else Some r2)"

section \<open>Registration and removal of clients\<close>

definition unregisterClientInternal :: "ModelRegistry \<Rightarrow> string \<Rightarrow> time \<Rightarrow> ModelRegistry" where
  "unregisterClientInternal r clientID now =
     (case mget (rg_client_models r) clientID of
        None \<Rightarrow> r\<lparr>rg_client_providers := mdel clientID (rg_client_providers r)\<rparr>
      | Some ids \<Rightarrow>
          let provider = mget (rg_client_providers r) clientID in
          triggerModelsUnregistered (case provider of None \<Rightarrow> [] | Some p \<Rightarrow> p) clientID
            (r\<lparr>rg_models := fold (\<lambda>id. malter id (reg_release clientID provider now)) ids (rg_models r),
               rg_client_models := mdel clientID (rg_client_models r),
               rg_client_model_infos := mdel clientID (rg_client_model_infos r),
               rg_client_providers := mdel clientID (rg_client_providers r)\<rparr>))"

definition UnregisterClient :: "ModelRegistry \<Rightarrow> string \<Rightarrow> time \<Rightarrow> ModelRegistry" where
  "UnregisterClient r clientID now =
     invalidateAvailableModelsCacheLocked (unregisterClientInternal r clientID now)"

definition set_provider :: "string \<Rightarrow> string \<Rightarrow> (string, string) gomap \<Rightarrow> (string, string) gomap" where
  "set_provider clientID provider m = (if provider \<noteq> [] then mput clientID provider m else mdel clientID m)"

text \<open>The pure addition path.\<close>

definition add_all ::
  "string \<Rightarrow> (string, ModelInfo) gomap \<Rightarrow> string list \<Rightarrow> time \<Rightarrow> (string, ModelRegistration) gomap \<Rightarrow> (string, ModelRegistration) gomap" where
  "add_all provider newModels raw now ms =
     fold (\<lambda>id. addModelRegistration id provider (mget newModels id) now) raw ms"

text \<open>The reconciliation of a client that is already there, one definition per loop.\<close>

definition move_overlap ::
  "string \<Rightarrow> string \<Rightarrow> string list \<Rightarrow> string list \<Rightarrow> (string, ModelRegistration) gomap \<Rightarrow> (string, ModelRegistration) gomap" where
  "move_overlap oldProvider provider old raw ms =
     (if oldProvider \<noteq> provider \<and> oldProvider \<noteq> []
      then fold (\<lambda>id. if count_list raw id = 0 \<or> count_list old id = 0 then (\<lambda>ms. ms)
                  else malter id (map_option (take_provider oldProvider
                         (int (min (count_list raw id) (count_list old id))))))
             (first_seen raw) ms
      else ms)"

definition remove_dropped ::
  "string \<Rightarrow> string \<Rightarrow> string list \<Rightarrow> string list \<Rightarrow> time \<Rightarrow> (string, ModelRegistration) gomap \<Rightarrow> (string, ModelRegistration) gomap" where
  "remove_dropped clientID oldProvider old raw now ms =
     fold (\<lambda>id. removeModelRegistration clientID id oldProvider now ^^ count_list old id)
       (filter (\<lambda>id. count_list raw id = 0) (first_seen old)) ms"

definition remove_overage ::
  "string \<Rightarrow> string \<Rightarrow> string list \<Rightarrow> string list \<Rightarrow> time \<Rightarrow> (string, ModelRegistration) gomap \<Rightarrow> (string, ModelRegistration) gomap" where
  "remove_overage clientID oldProvider old raw now ms =
     fold (\<lambda>id. if count_list raw id = 0 \<or> count_list old id \<le> count_list raw id then (\<lambda>ms. ms)
            else removeModelRegistration clientID id oldProvider now ^^ (count_list old id - count_list raw id))
       (first_seen old) ms"

definition add_missing ::
  "string \<Rightarrow> (string, ModelInfo) gomap \<Rightarrow> string list \<Rightarrow> string list \<Rightarrow> time \<Rightarrow> (string, ModelRegistration) gomap \<Rightarrow> (string, ModelRegistration) gomap" where
  "add_missing provider newModels old raw now ms =
     fold (\<lambda>id. if count_list raw id \<le> count_list old id then (\<lambda>ms. ms)
            else addModelRegistration id provider (mget newModels id) now ^^ (count_list raw id - count_list old id))
       (first_seen raw) ms"

definition refresh_reg ::
  "string \<Rightarrow> string \<Rightarrow> bool \<Rightarrow> ModelInfo \<Rightarrow> nat \<Rightarrow> time \<Rightarrow> ModelRegistration \<Rightarrow> ModelRegistration" where
  "refresh_reg clientID provider providerChanged model overlap now reg =
     (let r1 = reg\<lparr>mr_info := model,
                   mr_info_by_provider := (if provider \<noteq> [] then mput provider model (mr_info_by_provider reg)
                                           else mr_info_by_provider reg),
                   mr_last_updated := now,
                   mr_quota := mdel clientID (mr_quota reg),
                   mr_suspended := mdel clientID (mr_suspended reg)\<rparr>
      in if providerChanged \<and> provider \<noteq> [] \<and> 0 < overlap
         then r1\<lparr>mr_providers := mput provider (mget_or 0 (mr_providers r1) provider + int overlap) (mr_providers r1)\<rparr>
         else r1)"

text \<open>A newly added model has no overlap (\<open>oldCounts[id]\<close> is 0), so the code's test of
  \<open>addedSet\<close> and its test of the overlap are one.\<close>

definition refresh_all ::
  "string \<Rightarrow> string \<Rightarrow> bool \<Rightarrow> (string, ModelInfo) gomap \<Rightarrow> string list \<Rightarrow> string list \<Rightarrow> time \<Rightarrow> (string, ModelRegistration) gomap \<Rightarrow> (string, ModelRegistration) gomap" where
  "refresh_all clientID provider providerChanged newModels old raw now ms =
     fold (\<lambda>id. case mget newModels id of None \<Rightarrow> (\<lambda>ms. ms)
            | Some model \<Rightarrow> malter id (map_option (refresh_reg clientID provider providerChanged model
                (min (count_list raw id) (count_list old id)) now)))
       (first_seen raw) ms"

definition reconcile_models ::
  "string \<Rightarrow> string \<Rightarrow> string \<Rightarrow> (string, ModelInfo) gomap \<Rightarrow> string list \<Rightarrow> string list \<Rightarrow> time \<Rightarrow> (string, ModelRegistration) gomap \<Rightarrow> (string, ModelRegistration) gomap" where
  "reconcile_models clientID oldProvider provider newModels old raw now ms =
     refresh_all clientID provider (oldProvider \<noteq> provider) newModels old raw now
       (add_missing provider newModels old raw now
         (remove_overage clientID oldProvider old raw now
           (remove_dropped clientID oldProvider old raw now
             (move_overlap oldProvider provider old raw ms))))"

definition RegisterClient :: "ModelRegistry \<Rightarrow> string \<Rightarrow> string \<Rightarrow> ModelInfo option list \<Rightarrow> time \<Rightarrow> ModelRegistry" where
  "RegisterClient r clientID clientProvider models now =
     (let provider = to_lower clientProvider;
          valid = valid_models models;
          raw = map mi_id valid;
          newModels = first_models valid
      in if raw = [] then
           invalidateAvailableModelsCacheLocked
             (let r1 = unregisterClientInternal r clientID now in
              r1\<lparr>rg_client_models := mdel clientID (rg_client_models r1),
                 rg_client_model_infos := mdel clientID (rg_client_model_infos r1),
                 rg_client_providers := mdel clientID (rg_client_providers r1)\<rparr>)
         else
           triggerModelsRegistered provider clientID models
             (invalidateAvailableModelsCacheLocked
               (r\<lparr>rg_models :=
                    (case mget (rg_client_models r) clientID of
                       None \<Rightarrow> add_all provider newModels raw now (rg_models r)
                     | Some old \<Rightarrow> reconcile_models clientID (mget_or [] (rg_client_providers r) clientID)
                                     provider newModels old raw now (rg_models r)),
                  rg_client_models := mput clientID raw (rg_client_models r),
                  rg_client_model_infos := mput clientID newModels (rg_client_model_infos r),
                  rg_client_providers := set_provider clientID provider (rg_client_providers r)\<rparr>)))"


section \<open>Quota and suspension marks\<close>

definition SetModelQuotaExceeded :: "ModelRegistry \<Rightarrow> string \<Rightarrow> string \<Rightarrow> time \<Rightarrow> ModelRegistry" where
  "SetModelQuotaExceeded r clientID modelID now =
     (case mget (rg_models r) modelID of None \<Rightarrow> r
      | Some reg \<Rightarrow> invalidateAvailableModelsCacheLocked
          (r\<lparr>rg_models := mput modelID (reg\<lparr>mr_quota := mput clientID now (mr_quota reg)\<rparr>) (rg_models r)\<rparr>))"

definition ClearModelQuotaExceeded :: "ModelRegistry \<Rightarrow> string \<Rightarrow> string \<Rightarrow> ModelRegistry" where
  "ClearModelQuotaExceeded r clientID modelID =
     (case mget (rg_models r) modelID of None \<Rightarrow> r
      | Some reg \<Rightarrow> invalidateAvailableModelsCacheLocked
          (r\<lparr>rg_models := mput modelID (reg\<lparr>mr_quota := mdel clientID (mr_quota reg)\<rparr>) (rg_models r)\<rparr>))"

definition SuspendClientModel :: "ModelRegistry \<Rightarrow> string \<Rightarrow> string \<Rightarrow> string \<Rightarrow> time \<Rightarrow> ModelRegistry" where
  "SuspendClientModel r clientID modelID reason now =
     (if clientID = [] \<or> modelID = [] then r
      else case mget (rg_models r) modelID of None \<Rightarrow> r
      | Some reg \<Rightarrow>
          if mget (mr_suspended reg) clientID \<noteq> None then r
          else invalidateAvailableModelsCacheLocked
            (r\<lparr>rg_models := mput modelID (reg\<lparr>mr_suspended := mput clientID reason (mr_suspended reg),
                                             mr_last_updated := now\<rparr>) (rg_models r)\<rparr>))"

definition ResumeClientModel :: "ModelRegistry \<Rightarrow> string \<Rightarrow> string \<Rightarrow> time \<Rightarrow> ModelRegistry" where
  "ResumeClientModel r clientID modelID now =
     (if clientID = [] \<or> modelID = [] then r
      else case mget (rg_models r) modelID of None \<Rightarrow> r
      | Some reg \<Rightarrow>
          if mget (mr_suspended reg) clientID = None then r
          else invalidateAvailableModelsCacheLocked
            (r\<lparr>rg_models := mput modelID (reg\<lparr>mr_suspended := mdel clientID (mr_suspended reg),
                                             mr_last_updated := now\<rparr>) (rg_models r)\<rparr>))"

definition GetClientModelSuspensionReason :: "ModelRegistry \<Rightarrow> string \<Rightarrow> string \<Rightarrow> string" where
  "GetClientModelSuspensionReason r clientID modelID =
     (let c = trim_space clientID; m = trim_space modelID in
      if c = [] \<or> m = [] then []
      else case mget (rg_models r) m of None \<Rightarrow> [] | Some reg \<Rightarrow> mget_or [] (mr_suspended reg) c)"

definition quota_expired :: "time \<Rightarrow> time \<Rightarrow> bool" where
  "quota_expired now q \<longleftrightarrow> time_sub now q \<ge> modelQuotaExceededWindow"

definition CleanupExpiredQuotas :: "ModelRegistry \<Rightarrow> time \<Rightarrow> ModelRegistry" where
  "CleanupExpiredQuotas r now =
     (let invalidated = list_ex (\<lambda>(m, reg). list_ex (\<lambda>(c, q). quota_expired now q) (mr_quota reg)) (rg_models r);
          r1 = r\<lparr>rg_models := map (\<lambda>(m, reg). (m, reg\<lparr>mr_quota := filter (\<lambda>(c, q). \<not> quota_expired now q) (mr_quota reg)\<rparr>))
                   (rg_models r)\<rparr>
      in if invalidated then invalidateAvailableModelsCacheLocked r1 else r1)"

section \<open>Queries\<close>

text \<open>Does a client's model list name the model, and does a registration's mark block the client?\<close>

definition lists_model :: "string list \<Rightarrow> string \<Rightarrow> bool" where
  "lists_model ids modelID = list_ex (\<lambda>i. equal_fold (trim_space i) modelID) ids"

definition ClientSupportsModel :: "ModelRegistry \<Rightarrow> string \<Rightarrow> string \<Rightarrow> bool" where
  "ClientSupportsModel r clientID modelID =
     (let c = trim_space clientID; m = trim_space modelID in
      c \<noteq> [] \<and> m \<noteq> [] \<and>
      (case mget (rg_client_models r) c of None \<Rightarrow> False | Some ids \<Rightarrow> lists_model ids m))"

definition quota_until :: "ModelRegistration \<Rightarrow> string \<Rightarrow> time option" where
  "quota_until reg clientID = map_option (\<lambda>q. q + modelQuotaExceededWindow) (mget (mr_quota reg) clientID)"

definition quota_blocks :: "ModelRegistration \<Rightarrow> string \<Rightarrow> time \<Rightarrow> bool" where
  "quota_blocks reg clientID now = (case quota_until reg clientID of None \<Rightarrow> False | Some u \<Rightarrow> now < u)"

text \<open>One round of the loop: the count so far and the earliest recovery (0 for none).\<close>

definition count_client ::
  "ModelRegistry \<Rightarrow> string \<Rightarrow> string \<Rightarrow> ModelRegistration \<Rightarrow> time \<Rightarrow> nat \<times> time \<Rightarrow> string \<times> string list \<Rightarrow> nat \<times> time" where
  "count_client r modelID provider reg now acc ci =
     (let (selectable, recoveryAt) = acc; (clientID, ids) = ci in
      if provider \<noteq> [] \<and> to_lower (trim_space (mget_or [] (rg_client_providers r) clientID)) \<noteq> provider then acc
      else if \<not> lists_model ids modelID then acc
      else let recoveryAt' =
             (case quota_until reg clientID of None \<Rightarrow> recoveryAt
              | Some u \<Rightarrow> if now < u \<and> (recoveryAt = 0 \<or> u < recoveryAt) then u else recoveryAt);
             blocked = (quota_blocks reg clientID now \<or> mget (mr_suspended reg) clientID \<noteq> None)
        in (if blocked then selectable else selectable + 1, recoveryAt'))"

definition selectableModelClientsLocked ::
  "ModelRegistry \<Rightarrow> string \<Rightarrow> string \<Rightarrow> ModelRegistration option \<Rightarrow> time \<Rightarrow> nat \<times> time" where
  "selectableModelClientsLocked r modelID provider registration now =
     (case registration of None \<Rightarrow> (0, 0)
      | Some reg \<Rightarrow>
          foldl (count_client r modelID (to_lower (trim_space provider)) reg now) (0, 0) (rg_client_models r))"

definition GetModelCount :: "ModelRegistry \<Rightarrow> string \<Rightarrow> time \<Rightarrow> nat" where
  "GetModelCount r modelID now =
     (case mget (rg_models r) modelID of None \<Rightarrow> 0
      | Some reg \<Rightarrow> fst (selectableModelClientsLocked r modelID [] (Some reg) now))"

definition providerHasUserDefinedModelLocked :: "ModelRegistry \<Rightarrow> string \<Rightarrow> string \<Rightarrow> bool" where
  "providerHasUserDefinedModelLocked r provider modelID =
     list_ex (\<lambda>(c, p). p = provider \<and>
         (case mget (mget_or [] (rg_client_model_infos r) c) modelID of None \<Rightarrow> False
          | Some mi \<Rightarrow> mi_user_defined mi)) (rg_client_providers r)"

text \<open>The order of \<open>GetModelProviders\<close>: user-defined first, then the higher count, then the name.
  It is total on distinct names, so \<open>sort.Slice\<close> has one result.\<close>

definition provider_before :: "bool \<times> int \<times> string \<Rightarrow> bool \<times> int \<times> string \<Rightarrow> bool" where
  "provider_before a b =
     (let (ua, ca, na) = a; (ub, cb, nb) = b in
      if ua \<noteq> ub then ua else if ca = cb then na < nb else ca > cb)"

definition GetModelProviders :: "ModelRegistry \<Rightarrow> string \<Rightarrow> string list" where
  "GetModelProviders r modelID =
     (case mget (rg_models r) modelID of None \<Rightarrow> []
      | Some reg \<Rightarrow>
          map (\<lambda>(u, c, n). n) (sort_slice provider_before
            (map (\<lambda>(n, c). (providerHasUserDefinedModelLocked r n modelID, c, n))
              (filter (\<lambda>(n, c). 0 < c) (mr_providers reg)))))"

definition GetModelInfo :: "ModelRegistry \<Rightarrow> string \<Rightarrow> string \<Rightarrow> ModelInfo option" where
  "GetModelInfo r modelID provider =
     (case mget (rg_models r) modelID of None \<Rightarrow> None
      | Some reg \<Rightarrow>
          if provider \<noteq> [] \<and> 0 < mget_or 0 (mr_providers reg) provider \<and>
             mget (mr_info_by_provider reg) provider \<noteq> None
          then mget (mr_info_by_provider reg) provider
          else Some (mr_info reg))"

definition GetModelsForClient :: "ModelRegistry \<Rightarrow> string \<Rightarrow> ModelInfo list" where
  "GetModelsForClient r clientID =
     (case mget (rg_client_models r) clientID of None \<Rightarrow> []
      | Some ids \<Rightarrow>
          concat (map (\<lambda>id.
            case mget (mget_or [] (rg_client_model_infos r) clientID) id of
              Some mi \<Rightarrow> [mi]
            | None \<Rightarrow> (case mget (rg_models r) id of Some reg \<Rightarrow> [mr_info reg] | None \<Rightarrow> []))
            (first_seen ids)))"

section \<open>Model lists for API handlers\<close>

definition DefaultClaudeMaxInputTokens :: int where "DefaultClaudeMaxInputTokens = 200000"
definition DefaultClaudeMaxOutputTokens :: int where "DefaultClaudeMaxOutputTokens = 64000"

definition opt_str :: "string \<Rightarrow> string \<Rightarrow> model_map" where
  "opt_str k v = (if v \<noteq> [] then [(k, VStr v)] else [])"

definition opt_pos :: "string \<Rightarrow> int \<Rightarrow> model_map" where
  "opt_pos k v = (if 0 < v then [(k, VInt v)] else [])"

definition opt_strs :: "string \<Rightarrow> string list \<Rightarrow> model_map" where
  "opt_strs k v = (if v \<noteq> [] then [(k, VStrs v)] else [])"

definition modelPricingMap :: "Pricing option \<Rightarrow> model_map option" where
  "modelPricingMap p = map_option (\<lambda>p.
     [(''currency'', VStr (pr_currency p)), (''unit'', VStr (pr_unit p)),
      (''source_id'', VStr (pr_source_id p)), (''entries'', VEntries (pr_entries p))]) p"

text \<open>The keys are distinct, so a map literal followed by assignments is a concatenation.\<close>

definition convert_openai :: "ModelInfo \<Rightarrow> model_map" where
  "convert_openai m =
     [(''id'', VStr (mi_id m)), (''object'', VStr ''model''), (''owned_by'', VStr (mi_owned_by m))] @
     opt_pos ''created'' (mi_created m) @ opt_str ''type'' (mi_type m) @
     opt_str ''display_name'' (mi_display_name m) @ opt_str ''version'' (mi_version m) @
     opt_str ''description'' (mi_description m) @ opt_pos ''context_length'' (mi_context_length m) @
     opt_pos ''max_context_length'' (mi_max_context_length m) @
     opt_pos ''max_completion_tokens'' (mi_max_completion_tokens m) @
     opt_strs ''supported_parameters'' (mi_supported_parameters m) @
     opt_strs ''supported_endpoints'' (mi_supported_endpoints m) @
     (case modelPricingMap (mi_pricing m) of None \<Rightarrow> [] | Some p \<Rightarrow> [(''pricing'', VMap p)])"

definition convert_claude :: "ModelInfo \<Rightarrow> model_map" where
  "convert_claude m =
     [(''id'', VStr (mi_id m)), (''object'', VStr ''model''), (''owned_by'', VStr (mi_owned_by m))] @
     (if 0 < mi_created m then [(''created_at'', VTime (mi_created m))] else []) @
     [(''type'', VStr ''model''),
      (''display_name'', VStr (if mi_display_name m \<noteq> [] then mi_display_name m else mi_id m))] @
     (case mi_thinking m of None \<Rightarrow> []
      | Some t \<Rightarrow> [(''thinking'', VBool True),
          (''extended_thinking'', VMap [(''supported'', VBool True), (''min'', VInt (ts_min t)),
             (''max'', VInt (ts_max t)), (''zero_allowed'', VBool (ts_zero_allowed t)),
             (''dynamic_allowed'', VBool (ts_dynamic_allowed t))])]) @
     opt_pos ''context_length'' (mi_context_length m) @
     opt_pos ''max_completion_tokens'' (mi_max_completion_tokens m) @
     [(''max_input_tokens'', VInt (if mi_context_length m \<le> 0 then DefaultClaudeMaxInputTokens else mi_context_length m)),
      (''max_tokens'', VInt (if mi_max_completion_tokens m \<le> 0 then DefaultClaudeMaxOutputTokens
                             else mi_max_completion_tokens m))]"

definition convert_gemini :: "ModelInfo \<Rightarrow> model_map" where
  "convert_gemini m =
     [(''name'', VStr (if mi_name m \<noteq> [] then mi_name m else mi_id m))] @
     opt_str ''version'' (mi_version m) @ opt_str ''displayName'' (mi_display_name m) @
     opt_str ''description'' (mi_description m) @ opt_pos ''inputTokenLimit'' (mi_input_token_limit m) @
     opt_pos ''outputTokenLimit'' (mi_output_token_limit m) @
     opt_strs ''supportedGenerationMethods'' (mi_supported_generation_methods m) @
     opt_strs ''supportedInputModalities'' (mi_supported_input_modalities m) @
     opt_strs ''supportedOutputModalities'' (mi_supported_output_modalities m)"

definition convert_generic :: "ModelInfo \<Rightarrow> model_map" where
  "convert_generic m =
     [(''id'', VStr (mi_id m)), (''object'', VStr ''model'')] @ opt_str ''owned_by'' (mi_owned_by m) @
     opt_str ''type'' (mi_type m) @ (if mi_created m \<noteq> 0 then [(''created'', VInt (mi_created m))] else [])"

definition convertModelToMap :: "ModelInfo \<Rightarrow> string \<Rightarrow> model_map" where
  "convertModelToMap m handlerType =
     (if handlerType = ''openai'' then convert_openai m
      else if handlerType \<in> {''claude'', ''kiro'', ''antigravity''} then convert_claude m
      else if handlerType = ''gemini'' then convert_gemini m
      else convert_generic m)"

definition build_step ::
  "ModelRegistry \<Rightarrow> string \<Rightarrow> time \<Rightarrow> model_map list \<times> time \<Rightarrow> string \<times> ModelRegistration \<Rightarrow> model_map list \<times> time" where
  "build_step r handlerType now acc mr =
     (let (models, expiresAt) = acc; (modelID, reg) = mr;
          (selectable, regExpires) = selectableModelClientsLocked r modelID [] (Some reg) now;
          expiresAt' = (if regExpires \<noteq> 0 \<and> (expiresAt = 0 \<or> regExpires < expiresAt) then regExpires else expiresAt)
      in if selectable = 0 then (models, expiresAt')
         else (models @ [convertModelToMap (mr_info reg) handlerType], expiresAt'))"

definition buildAvailableModelsLocked :: "ModelRegistry \<Rightarrow> string \<Rightarrow> time \<Rightarrow> model_map list \<times> time" where
  "buildAvailableModelsLocked r handlerType now = foldl (build_step r handlerType now) ([], 0) (rg_models r)"

definition cache_fresh :: "availableModelsCacheEntry \<Rightarrow> time \<Rightarrow> bool" where
  "cache_fresh e now \<longleftrightarrow> ce_expires_at e = 0 \<or> now < ce_expires_at e"

definition GetAvailableModels :: "ModelRegistry \<Rightarrow> string \<Rightarrow> time \<Rightarrow> ModelRegistry \<times> model_map list" where
  "GetAvailableModels r handlerType now =
     (let rebuild = (let (models, expiresAt) = buildAvailableModelsLocked r handlerType now in
            (r\<lparr>rg_cache := mput handlerType \<lparr>ce_models = models, ce_expires_at = expiresAt\<rparr> (rg_cache r)\<rparr>, models))
      in case mget (rg_cache r) handlerType of None \<Rightarrow> rebuild
         | Some e \<Rightarrow> if cache_fresh e now then (r, ce_models e) else rebuild)"

text \<open>
  \<open>sort.Slice\<close> is unspecified for a comparison that is no strict weak order, and the one of
  \<open>GetFirstAvailableModel\<close> is none as soon as some maps have no \<open>created\<close> entry. The
  sorting routine is an argument; all that is used of it is that it permutes.
\<close>

definition newer :: "model_map \<Rightarrow> model_map \<Rightarrow> bool" where
  "newer a b = (case (mget a ''created'', mget b ''created'') of
     (Some (VInt i), Some (VInt j)) \<Rightarrow> j < i | _ \<Rightarrow> False)"

datatype first_error = NoModels string | NoClients string

definition model_id_available :: "ModelRegistry \<Rightarrow> time \<Rightarrow> model_map \<Rightarrow> string option" where
  "model_id_available r now m = (case mget m ''id'' of
     Some (VStr i) \<Rightarrow> if 0 < GetModelCount r i now then Some i else None | _ \<Rightarrow> None)"

definition GetFirstAvailableModel ::
  "((model_map \<Rightarrow> model_map \<Rightarrow> bool) \<Rightarrow> model_map list \<Rightarrow> model_map list) \<Rightarrow>
   ModelRegistry \<Rightarrow> string \<Rightarrow> time \<Rightarrow> ModelRegistry \<times> (first_error + string)" where
  "GetFirstAvailableModel sortSlice r handlerType now =
     (let (r', models) = GetAvailableModels r handlerType now in
      if models = [] then (r', Inl (NoModels handlerType))
      else case find (\<lambda>m. model_id_available r' now m \<noteq> None) (sortSlice newer models) of
          None \<Rightarrow> (r', Inl (NoClients handlerType))
        | Some m \<Rightarrow> (r', case model_id_available r' now m of Some i \<Rightarrow> Inr i | None \<Rightarrow> Inl (NoClients handlerType)))"

definition GetAvailableModelInfos :: "ModelRegistry \<Rightarrow> time \<Rightarrow> ModelInfo list" where
  "GetAvailableModelInfos r now =
     sort_slice (\<lambda>a b. trim_space (mi_id a) < trim_space (mi_id b))
       (map (\<lambda>(m, reg). mr_info reg)
         (filter (\<lambda>(m, reg). fst (selectableModelClientsLocked r m [] (Some reg) now) \<noteq> 0) (rg_models r)))"

record RegisteredRouteSnapshot =
  rs_client_id :: string
  rs_route_channel :: string
  rs_runtime_model_id :: string
  rs_model :: ModelInfo
  rs_quota_blocked :: bool
  rs_quota_resets_at :: "time option"
  rs_suspension_reason :: string
  rs_last_updated :: time

definition route_snapshot :: "ModelRegistry \<Rightarrow> time \<Rightarrow> string \<Rightarrow> string \<Rightarrow> RegisteredRouteSnapshot list" where
  "route_snapshot r now clientID modelID =
     (case mget (rg_models r) modelID of None \<Rightarrow> []
      | Some reg \<Rightarrow>
          let provider = mget_or [] (rg_client_providers r) clientID;
              info = (case mget (mget_or [] (rg_client_model_infos r) clientID) modelID of Some i \<Rightarrow> i
                      | None \<Rightarrow> (case mget (mr_info_by_provider reg) provider of Some i \<Rightarrow> i | None \<Rightarrow> mr_info reg));
              blocked = quota_blocks reg clientID now
          in [\<lparr>rs_client_id = clientID, rs_route_channel = provider, rs_runtime_model_id = modelID,
               rs_model = info, rs_quota_blocked = blocked,
               rs_quota_resets_at = (if blocked then quota_until reg clientID else None),
               rs_suspension_reason = mget_or [] (mr_suspended reg) clientID,
               rs_last_updated = mr_last_updated reg\<rparr>])"

definition snapshot_before :: "RegisteredRouteSnapshot \<Rightarrow> RegisteredRouteSnapshot \<Rightarrow> bool" where
  "snapshot_before a b =
     (if rs_runtime_model_id a \<noteq> rs_runtime_model_id b then rs_runtime_model_id a < rs_runtime_model_id b
      else if rs_route_channel a \<noteq> rs_route_channel b then rs_route_channel a < rs_route_channel b
      else rs_client_id a < rs_client_id b)"

definition RegisteredRouteSnapshots :: "ModelRegistry \<Rightarrow> time \<Rightarrow> RegisteredRouteSnapshot list" where
  "RegisteredRouteSnapshots r now =
     sort_slice snapshot_before
       (concat (map (\<lambda>(c, ids). concat (map (route_snapshot r now c) ids)) (rg_client_models r)))"

text \<open>\<open>GetAvailableModelsByProvider\<close>: per trimmed identifier, in the order met, the first
  metadata found; then the models a client of the provider can serve now.\<close>

definition provider_info :: "ModelRegistry \<Rightarrow> string \<Rightarrow> string \<Rightarrow> ModelInfo option" where
  "provider_info r clientID m =
     (case mget (mget_or [] (rg_client_model_infos r) clientID) m of Some i \<Rightarrow> Some i
      | None \<Rightarrow> map_option mr_info (mget (rg_models r) m))"

definition provider_entry ::
  "ModelRegistry \<Rightarrow> (string, ModelInfo option) gomap \<Rightarrow> string \<times> string \<Rightarrow> (string, ModelInfo option) gomap" where
  "provider_entry r acc cm =
     (let (clientID, m) = cm in
      if m = [] then acc
      else case mget acc m of
          Some (Some i) \<Rightarrow> acc
        | _ \<Rightarrow> mput m (provider_info r clientID m) acc)"

definition GetAvailableModelsByProvider :: "ModelRegistry \<Rightarrow> string \<Rightarrow> time \<Rightarrow> ModelInfo list" where
  "GetAvailableModelsByProvider r provider0 now =
     (let provider = to_lower (trim_space provider0);
          pairs = concat (map (\<lambda>(c, p). if p = provider
                     then map (\<lambda>m. (c, trim_space m)) (mget_or [] (rg_client_models r) c) else [])
                     (rg_client_providers r));
          entries = foldl (provider_entry r) [] pairs
      in if provider = [] then []
         else concat (map (\<lambda>(m, info).
             let registration = mget (rg_models r) m in
             if fst (selectableModelClientsLocked r m provider registration now) = 0 then []
             else case info of Some i \<Rightarrow> [i]
               | None \<Rightarrow> (case registration of Some reg \<Rightarrow> [mr_info reg] | None \<Rightarrow> [])) entries))"

section \<open>Counting\<close>

text \<open>The specification: how many bindings of a model the clients hold, in all and with a provider.\<close>

definition bindings :: "(string, string list) gomap \<Rightarrow> string \<Rightarrow> nat" where
  "bindings cm m = sum_list (map (\<lambda>(c, ids). count_list ids m) cm)"

definition provider_bindings :: "(string, string list) gomap \<Rightarrow> (string, string) gomap \<Rightarrow> string \<Rightarrow> string \<Rightarrow> nat" where
  "provider_bindings cm cp m p = sum_list (map (\<lambda>(c, ids). if mget_or [] cp c = p \<and> p \<noteq> [] then count_list ids m else 0) cm)"

definition own :: "string \<Rightarrow> nat \<Rightarrow> string \<Rightarrow> nat" where
  "own p k q = (if q = p \<and> p \<noteq> [] then k else 0)"

lemma own_simps [simp]: "own [] k = (\<lambda>q. 0)" "own p 0 = (\<lambda>q. 0)" "own p k [] = 0"
  by (auto simp: own_def)

lemma own_add: "own p (j + k) q = own p j q + own p k q"
  by (simp add: own_def)

lemma bindings_mput: "mwf cm \<Longrightarrow> bindings (mput c ids cm) m = count_list ids m + bindings (mdel c cm) m"
  unfolding bindings_def by (subst sum_list_mput) auto

lemma bindings_mdel: "mwf cm \<Longrightarrow> mget cm c = Some ids \<Longrightarrow> bindings cm m = count_list ids m + bindings (mdel c cm) m"
  unfolding bindings_def by (subst sum_list_mdel [of cm c ids]) auto

lemma provider_bindings_mput:
  "mwf cm \<Longrightarrow> provider_bindings (mput c ids cm) cp m p = own (mget_or [] cp c) (count_list ids m) p + provider_bindings (mdel c cm) cp m p"
  unfolding provider_bindings_def own_def by (subst sum_list_mput) auto

lemma provider_bindings_mdel:
  "mwf cm \<Longrightarrow> mget cm c = Some ids \<Longrightarrow>
     provider_bindings cm cp m p = own (mget_or [] cp c) (count_list ids m) p + provider_bindings (mdel c cm) cp m p"
  unfolding provider_bindings_def own_def by (subst sum_list_mdel [of cm c ids]) auto

lemma provider_bindings_other:
  assumes "\<And>c'. c' \<noteq> c \<Longrightarrow> mget_or [] cp' c' = mget_or [] cp c'"
  shows "provider_bindings (mdel c cm) cp' m p = provider_bindings (mdel c cm) cp m p"
  unfolding provider_bindings_def
  by (rule arg_cong [of _ _ sum_list], rule map_cong [OF refl]) (auto simp: set_mdel assms)

lemma provider_bindings_le: "provider_bindings cm cp m p \<le> bindings cm m"
  unfolding provider_bindings_def bindings_def by (rule sum_list_mono) auto

lemma provider_bindings_Nil [simp]: "provider_bindings cm cp m [] = 0"
  by (simp add: provider_bindings_def sum_list_eq_0_iff)

section \<open>What a registration shows\<close>

text \<open>An entry of the model map counts \<open>n\<close> bindings, \<open>P p\<close> of them with provider \<open>p\<close>;
  there is an entry exactly when there is a binding, and metadata of exactly the counted providers.\<close>

definition reg_shows :: "ModelRegistration \<Rightarrow> nat \<Rightarrow> (string \<Rightarrow> nat) \<Rightarrow> bool" where
  "reg_shows reg n P \<longleftrightarrow> mr_count reg = int n \<and>
     (\<forall>p. mget (mr_providers reg) p = (if P p = 0 then None else Some (int (P p)))) \<and>
     (\<forall>p. mget (mr_info_by_provider reg) p = None \<longleftrightarrow> P p = 0)"

definition entry_shows :: "ModelRegistration option \<Rightarrow> nat \<Rightarrow> (string \<Rightarrow> nat) \<Rightarrow> bool" where
  "entry_shows e n P = (case e of None \<Rightarrow> n = 0 \<and> (\<forall>p. P p = 0) | Some reg \<Rightarrow> 0 < n \<and> reg_shows reg n P)"

lemma shows_add:
  assumes "entry_shows e n P"
  shows "entry_shows (reg_add p m now e) (Suc n) (\<lambda>q. P q + own p 1 q)"
proof (cases e)
  case None
  then show ?thesis using assms by (auto simp: entry_shows_def reg_shows_def reg_add_def own_def)
next
  case (Some reg)
  have "mget_or 0 (mr_providers reg) q = int (P q)" for q
    using assms Some by (auto simp: entry_shows_def reg_shows_def mget_or_def)
  then show ?thesis using assms Some
    by (auto simp: entry_shows_def reg_shows_def reg_add_def own_def Let_def)
qed

lemma shows_add_n:
  "entry_shows e n P \<Longrightarrow> entry_shows ((reg_add p m now ^^ k) e) (n + k) (\<lambda>q. P q + own p k q)"
proof (induction k)
  case (Suc k)
  have "entry_shows ((reg_add p m now ^^ Suc k) e) (Suc (n + k)) (\<lambda>q. (P q + own p k q) + own p 1 q)"
    using shows_add [OF Suc.IH [OF Suc.prems]] by simp
  then show ?case using own_add [of p k 1] by (simp add: add.assoc)
qed simp

lemma take_provider_shows:
  assumes "reg_shows reg n (\<lambda>q. P q + own p (t + j) q)" and "p \<noteq> []" and "0 < t"
  shows "reg_shows (take_provider p (int t) reg) n (\<lambda>q. P q + own p j q)"
proof -
  have g: "mget (mr_providers reg) p = Some (int (P p + (t + j)))"
    using assms by (auto simp: reg_shows_def own_def)
  show ?thesis using assms g
    by (auto simp: take_provider_def reg_shows_def own_def split: if_splits)
qed

lemma shows_remove:
  assumes "entry_shows e (Suc k + n) (\<lambda>q. P q + own p (Suc j) q)" and "j \<le> k" and "n = 0 \<Longrightarrow> \<forall>q. P q = 0"
  shows "entry_shows (reg_remove c p now e) (k + n) (\<lambda>q. P q + own p j q)"
proof -
  obtain reg where e: "e = Some reg" "reg_shows reg (Suc k + n) (\<lambda>q. P q + own p (Suc j) q)"
    using assms(1) by (auto simp: entry_shows_def split: option.splits)
  then have cnt: "mr_count reg = int (Suc k + n)" by (simp add: reg_shows_def)
  show ?thesis
  proof (cases "k + n = 0")
    case True
    then have "j = 0" "\<forall>q. P q = 0" using assms by auto
    then show ?thesis using True e cnt by (simp add: reg_remove_def entry_shows_def Let_def)
  next
    case False
    define r1 where "r1 = reg\<lparr>mr_count := int (k + n), mr_last_updated := now,
        mr_quota := mdel c (mr_quota reg), mr_suspended := mdel c (mr_suspended reg)\<rparr>"
    have r1: "reg_shows r1 (k + n) (\<lambda>q. P q + own p (Suc j) q)"
      using e by (simp add: reg_shows_def r1_def)
    have "reg_remove c p now e = Some (if p \<noteq> [] then take_provider p 1 r1 else r1)"
      using False e cnt by (auto simp: reg_remove_def Let_def r1_def)
    then show ?thesis
      using False r1 take_provider_shows [of r1 "k + n" P p 1 j] by (auto simp: entry_shows_def)
  qed
qed

lemma shows_remove_n:
  assumes "entry_shows e (i + k + n) (\<lambda>q. P q + own p (i + j) q)" and "j \<le> k" and "n = 0 \<Longrightarrow> \<forall>q. P q = 0"
  shows "entry_shows ((reg_remove c p now ^^ i) e) (k + n) (\<lambda>q. P q + own p j q)"
  using assms(1)
proof (induction i arbitrary: e)
  case (Suc i)
  have "entry_shows (reg_remove c p now e) (i + k + n) (\<lambda>q. P q + own p (i + j) q)"
    using shows_remove [of e "i + k" n P p "i + j" c now] Suc.prems assms(2,3) by (simp add: add.assoc)
  then show ?case using Suc.IH by (simp add: funpow_swap1)
qed simp

lemma release_is_remove:
  assumes "entry_shows e n P" and "\<And>p. provider = Some p \<Longrightarrow> p \<noteq> []"
  shows "reg_release c provider now e = reg_remove c (case provider of None \<Rightarrow> [] | Some p \<Rightarrow> p) now e"
  using assms by (auto simp: reg_release_def reg_remove_def entry_shows_def reg_shows_def Let_def split: option.splits)

lemma shows_release_n:
  assumes "entry_shows e (i + k + n) (\<lambda>q. P q + own (case pr of None \<Rightarrow> [] | Some p \<Rightarrow> p) (i + j) q)" and "j \<le> k"
    and "n = 0 \<Longrightarrow> \<forall>q. P q = 0" and "\<And>p. pr = Some p \<Longrightarrow> p \<noteq> []"
  shows "entry_shows ((reg_release c pr now ^^ i) e) (k + n) (\<lambda>q. P q + own (case pr of None \<Rightarrow> [] | Some p \<Rightarrow> p) j q)"
  using assms(1)
proof (induction i arbitrary: e)
  case (Suc i)
  let ?p = "case pr of None \<Rightarrow> [] | Some p \<Rightarrow> p"
  have "entry_shows (reg_release c pr now e) (i + k + n) (\<lambda>q. P q + own ?p (i + j) q)"
    using shows_remove [of e "i + k" n P ?p "i + j" c now] Suc.prems assms(2,3)
    by (subst release_is_remove [OF Suc.prems assms(4)]) (auto simp: add.assoc)
  then show ?case using Suc.IH by (simp add: funpow_swap1)
qed simp

lemma entry_shows_ext: "entry_shows e n P \<Longrightarrow> n = n' \<Longrightarrow> (\<And>q. P q = P' q) \<Longrightarrow> entry_shows e n' P'"
proof -
  assume "entry_shows e n P" "n = n'" "\<And>q. P q = P' q"
  moreover from this(3) have "P = P'" by auto
  ultimately show ?thesis by simp
qed

section \<open>The loops, per model\<close>

lemma first_models_mget:
  "mget (foldl add_first acc ms) i = (case mget acc i of Some m \<Rightarrow> Some m | None \<Rightarrow> find (\<lambda>m. mi_id m = i) ms)"
  by (induction ms arbitrary: acc) (auto simp: add_first_def map_add_def split: option.splits)

lemma first_models_some: "i \<in> set (map mi_id ms) \<Longrightarrow> \<exists>m. mget (first_models ms) i = Some m"
proof -
  assume "i \<in> set (map mi_id ms)"
  then have "find (\<lambda>m. mi_id m = i) ms \<noteq> None" by (auto simp: find_None_iff)
  then show ?thesis unfolding first_models_def first_models_mget by simp
qed

lemma valid_models_id: "m \<in> set (valid_models models) \<Longrightarrow> mi_id m \<noteq> []"
  by (auto simp: valid_models_def)

lemma fold_ext: "(\<And>x. x \<in> set xs \<Longrightarrow> f x = g x) \<Longrightarrow> fold f xs = fold g xs"
  by (rule ext, rule fold_cong) auto

definition infos_of :: "(string, ModelInfo) gomap \<Rightarrow> string \<Rightarrow> ModelInfo" where
  "infos_of nm i = (case mget nm i of Some m \<Rightarrow> m | None \<Rightarrow> empty_model_info [])"

definition covers :: "(string, ModelInfo) gomap \<Rightarrow> string list \<Rightarrow> bool" where
  "covers nm raw \<longleftrightarrow> (\<forall>i \<in> set raw. i \<noteq> [] \<and> mget nm i \<noteq> None)"

lemma covers_first_models: "covers (first_models (valid_models models)) (map mi_id (valid_models models))"
  using first_models_some [of _ "valid_models models"] by (fastforce simp: covers_def dest: valid_models_id)

lemma add_is_malter:
  "covers nm raw \<Longrightarrow> i \<in> set raw \<Longrightarrow>
     addModelRegistration i p (mget nm i) now = malter i (reg_add p (infos_of nm i) now)"
  by (rule ext) (auto simp: addModelRegistration_def covers_def infos_of_def)

lemma mget_add_all:
  assumes "covers nm raw"
  shows "mget (add_all p nm raw now ms) k = (reg_add p (infos_of nm k) now ^^ count_list raw k) (mget ms k)"
  unfolding add_all_def
  using add_is_malter [OF assms] by (subst fold_ext [of raw _ "\<lambda>i. malter i (reg_add p (infos_of nm i) now)"])
     (auto simp: mget_fold_malter_list)

lemma mget_move_overlap:
  "mget (move_overlap oldP p old raw ms) k =
     (if oldP \<noteq> p \<and> oldP \<noteq> [] \<and> count_list raw k \<noteq> 0 \<and> count_list old k \<noteq> 0
      then map_option (take_provider oldP (int (min (count_list raw k) (count_list old k)))) (mget ms k)
      else mget ms k)"
proof -
  let ?f = "\<lambda>i. map_option (take_provider oldP (int (min (count_list raw i) (count_list old i))))"
  let ?n = "\<lambda>i. if count_list raw i = 0 \<or> count_list old i = 0 then 0 else 1"
  have "fold (\<lambda>i. if count_list raw i = 0 \<or> count_list old i = 0 then (\<lambda>ms. ms) else malter i (?f i)) (first_seen raw)
      = fold (\<lambda>i. malter i (?f i) ^^ ?n i) (first_seen raw)"
    by (rule fold_ext) (auto simp: id_def)
  then show ?thesis
    unfolding move_overlap_def by (simp add: mget_fold_malter_funpow count_list_0_iff)
qed

lemma mget_remove_dropped:
  "mget (remove_dropped c oldP old raw now ms) k =
     (if count_list raw k = 0 then (reg_remove c oldP now ^^ count_list old k) (mget ms k) else mget ms k)"
  unfolding remove_dropped_def removeModelRegistration_def
  by (subst mget_fold_malter_funpow) (auto simp: count_list_0_iff)

lemma mget_remove_overage:
  "mget (remove_overage c oldP old raw now ms) k =
     (if count_list raw k = 0 then mget ms k
      else (reg_remove c oldP now ^^ (count_list old k - count_list raw k)) (mget ms k))"
proof -
  let ?n = "\<lambda>i. if count_list raw i = 0 then 0 else count_list old i - count_list raw i"
  have "fold (\<lambda>i. if count_list raw i = 0 \<or> count_list old i \<le> count_list raw i then (\<lambda>ms. ms)
            else removeModelRegistration c i oldP now ^^ (count_list old i - count_list raw i)) (first_seen old)
      = fold (\<lambda>i. malter i (reg_remove c oldP now) ^^ ?n i) (first_seen old)"
    unfolding removeModelRegistration_def by (rule fold_ext) (auto simp: id_def)
  then show ?thesis
    unfolding remove_overage_def by (auto simp: mget_fold_malter_funpow count_list_0_iff)
qed

lemma mget_add_missing:
  assumes "covers nm raw"
  shows "mget (add_missing p nm old raw now ms) k =
     (reg_add p (infos_of nm k) now ^^ (count_list raw k - count_list old k)) (mget ms k)"
proof -
  have "fold (\<lambda>i. if count_list raw i \<le> count_list old i then (\<lambda>ms. ms)
            else addModelRegistration i p (mget nm i) now ^^ (count_list raw i - count_list old i)) (first_seen raw)
      = fold (\<lambda>i. malter i (reg_add p (infos_of nm i) now) ^^ (count_list raw i - count_list old i)) (first_seen raw)"
    using add_is_malter [OF assms] by (intro fold_ext) (auto simp: id_def)
  then show ?thesis
    unfolding add_missing_def by (auto simp: mget_fold_malter_funpow count_list_0_iff)
qed

lemma mget_refresh_all:
  assumes "covers nm raw"
  shows "mget (refresh_all c p ch nm old raw now ms) k =
     (if k \<in> set raw then map_option (refresh_reg c p ch (infos_of nm k) (min (count_list raw k) (count_list old k)) now) (mget ms k)
      else mget ms k)"
proof -
  have "fold (\<lambda>i. case mget nm i of None \<Rightarrow> (\<lambda>ms. ms)
            | Some model \<Rightarrow> malter i (map_option (refresh_reg c p ch model
                (min (count_list raw i) (count_list old i)) now))) (first_seen raw)
      = fold (\<lambda>i. malter i (map_option (refresh_reg c p ch (infos_of nm i)
                (min (count_list raw i) (count_list old i)) now))) (first_seen raw)"
    using assms by (intro fold_ext) (auto simp: covers_def infos_of_def split: option.splits)
  then show ?thesis
    unfolding refresh_all_def by (simp add: mget_fold_malter)
qed

section \<open>Reconciliation\<close>

lemma refresh_shows:
  assumes "reg_shows reg n P" and "p \<noteq> [] \<Longrightarrow> 0 < P p \<or> (ch \<and> 0 < ov)"
  shows "reg_shows (refresh_reg c p ch m ov now reg) n (\<lambda>q. P q + (if ch then own p ov q else 0))"
proof -
  have "mget_or 0 (mr_providers reg) q = int (P q)" for q
    using assms by (auto simp: reg_shows_def mget_or_def)
  then show ?thesis using assms
    by (auto simp: refresh_reg_def reg_shows_def own_def Let_def)
qed

text \<open>
  One model of a client that goes from \<open>o\<close> bindings with provider \<open>op\<close> to \<open>w\<close> bindings with
  provider \<open>p\<close>, beside the \<open>n\<close> bindings of the other clients.
\<close>

lemma reconcile_entry:
  assumes cov: "covers nm raw" and sh: "entry_shows (mget ms k) (count_list old k + n) (\<lambda>q. P q + own op (count_list old k) q)"
    and z: "n = 0 \<Longrightarrow> \<forall>q. P q = 0" and pn: "P [] = 0"
  shows "entry_shows (mget (reconcile_models c op p nm old raw now ms) k)
           (count_list raw k + n) (\<lambda>q. P q + own p (count_list raw k) q)"
proof -
  let ?o = "count_list old k" and ?w = "count_list raw k" and ?ov = "min (count_list raw k) (count_list old k)"
  let ?e1 = "mget (move_overlap op p old raw ms) k"
  let ?e3 = "mget (remove_overage c op old raw now (remove_dropped c op old raw now (move_overlap op p old raw ms))) k"
  let ?e4 = "mget (add_missing p nm old raw now (remove_overage c op old raw now
               (remove_dropped c op old raw now (move_overlap op p old raw ms)))) k"
  let ?d = "if op \<noteq> p \<and> op \<noteq> [] then ?o - ?ov else ?o"
  have s1: "entry_shows ?e1 (?o + n) (\<lambda>q. P q + own op ?d q)"
  proof (cases "op \<noteq> p \<and> op \<noteq> [] \<and> ?w \<noteq> 0 \<and> ?o \<noteq> 0")
    case True
    then obtain reg where e: "mget ms k = Some reg" "reg_shows reg (?o + n) (\<lambda>q. P q + own op ?o q)"
      using sh by (auto simp: entry_shows_def split: option.splits)
    have "?o = ?ov + (?o - ?ov)" by simp
    with e(2) have "reg_shows reg (?o + n) (\<lambda>q. P q + own op (?ov + (?o - ?ov)) q)" by metis
    from take_provider_shows [OF this] True e(1) show ?thesis
      by (simp add: mget_move_overlap entry_shows_def)
  next
    case False
    then have "op = [] \<or> ?d = ?o" by auto
    then have "own op ?d = own op ?o" by auto
    moreover have "?e1 = mget ms k" using False by (simp only: mget_move_overlap) auto
    ultimately show ?thesis using sh by simp
  qed
  text \<open>Removal leaves the overlap, and of the old provider what the code has not moved.\<close>
  let ?j = "if op \<noteq> p \<and> op \<noteq> [] then 0 else ?ov"
  have s3: "entry_shows ?e3 (?ov + n) (\<lambda>q. P q + own op ?j q)"
  proof (cases "?w = 0")
    case True
    then have d: "?d = ?o" and j: "?j = 0" and ov: "?ov = 0" by auto
    have "entry_shows ((reg_remove c op now ^^ ?o) ?e1) (0 + n) (\<lambda>q. P q + own op 0 q)"
      using s1 [unfolded d] shows_remove_n [of ?e1 ?o 0 n P op 0 c now] z by simp
    then show ?thesis unfolding j ov using True by (simp add: mget_remove_overage mget_remove_dropped)
  next
    case False
    have a: "?o - ?w + ?ov = ?o" by simp
    have b: "?o - ?w + ?j = ?d" by auto
    have "entry_shows ((reg_remove c op now ^^ (?o - ?w)) ?e1) (?ov + n) (\<lambda>q. P q + own op ?j q)"
      using s1 z shows_remove_n [of ?e1 "?o - ?w" ?ov n P op ?j c now, unfolded a b] by simp
    then show ?thesis using False by (simp only: mget_remove_overage mget_remove_dropped if_False)
  qed
  have s4: "entry_shows ?e4 (?w + n) (\<lambda>q. P q + own op ?j q + own p (?w - ?o) q)"
  proof -
    have e: "?ov + n + (?w - ?o) = ?w + n" by simp
    show ?thesis
      using shows_add_n [OF s3, of "?w - ?o" p "infos_of nm k" now, unfolded e]
      by (simp only: mget_add_missing [OF cov])
  qed
  show ?thesis
  proof (cases "k \<in> set raw")
    case False
    then have w: "?w = 0" by (simp add: count_list_0_iff)
    have "entry_shows ?e4 (?w + n) (\<lambda>q. P q + own p ?w q)"
      by (rule entry_shows_ext [OF s4]) (simp_all add: w own_def)
    then show ?thesis using False
      by (simp only: reconcile_models_def mget_refresh_all [OF cov] if_False)
  next
    case True
    then have w: "0 < ?w" using count_list_0_iff by fastforce
    then obtain reg where e: "?e4 = Some reg" "reg_shows reg (?w + n) (\<lambda>q. P q + own op ?j q + own p (?w - ?o) q)"
      using s4 by (auto simp: entry_shows_def split: option.splits)
    have f: "P q + own op ?j q + own p (?w - ?o) q + (if op \<noteq> p then own p ?ov q else 0) = P q + own p ?w q" for q
      by (auto simp: own_def)
    have g: "p \<noteq> [] \<Longrightarrow> 0 < P p + own op ?j p + own p (?w - ?o) p \<or> (op \<noteq> p \<and> 0 < ?ov)"
      using w by (auto simp: own_def)
    have "reg_shows (refresh_reg c p (op \<noteq> p) (infos_of nm k) ?ov now reg) (?w + n)
        (\<lambda>q. P q + own op ?j q + own p (?w - ?o) q + (if op \<noteq> p then own p ?ov q else 0))"
      by (rule refresh_shows [OF e(2)]) (rule g)
    then have "reg_shows (refresh_reg c p (op \<noteq> p) (infos_of nm k) ?ov now reg) (?w + n) (\<lambda>q. P q + own p ?w q)"
      by (simp only: f)
    then show ?thesis using True w e(1)
      by (simp add: reconcile_models_def mget_refresh_all [OF cov] entry_shows_def)
  qed
qed

section \<open>The counting invariant\<close>

definition registry_ok :: "ModelRegistry \<Rightarrow> bool" where
  "registry_ok r \<longleftrightarrow>
     mwf (rg_client_models r) \<and>
     (\<forall>c p. mget (rg_client_providers r) c = Some p \<longrightarrow> p \<noteq> []) \<and>
     (\<forall>c. mget (rg_client_models r) c = None \<longrightarrow> mget (rg_client_providers r) c = None) \<and>
     (\<forall>m. entry_shows (mget (rg_models r) m) (bindings (rg_client_models r) m)
            (provider_bindings (rg_client_models r) (rg_client_providers r) m))"

lemma invalidate_simps [simp]:
  "rg_models (invalidateAvailableModelsCacheLocked r) = rg_models r"
  "rg_client_models (invalidateAvailableModelsCacheLocked r) = rg_client_models r"
  "rg_client_providers (invalidateAvailableModelsCacheLocked r) = rg_client_providers r"
  "rg_client_model_infos (invalidateAvailableModelsCacheLocked r) = rg_client_model_infos r"
  "rg_cache (invalidateAvailableModelsCacheLocked r) = []"
  by (simp_all add: invalidateAvailableModelsCacheLocked_def)

lemma trigger_simps [simp]:
  "rg_models (triggerModelsRegistered p c ms r) = rg_models r"
  "rg_client_models (triggerModelsRegistered p c ms r) = rg_client_models r"
  "rg_client_providers (triggerModelsRegistered p c ms r) = rg_client_providers r"
  "rg_client_model_infos (triggerModelsRegistered p c ms r) = rg_client_model_infos r"
  "rg_cache (triggerModelsRegistered p c ms r) = rg_cache r"
  "rg_models (triggerModelsUnregistered p c r) = rg_models r"
  "rg_client_models (triggerModelsUnregistered p c r) = rg_client_models r"
  "rg_client_providers (triggerModelsUnregistered p c r) = rg_client_providers r"
  "rg_client_model_infos (triggerModelsUnregistered p c r) = rg_client_model_infos r"
  "rg_cache (triggerModelsUnregistered p c r) = rg_cache r"
  by (simp_all add: triggerModelsRegistered_def triggerModelsUnregistered_def)

lemma registry_ok_invalidate [simp]: "registry_ok (invalidateAvailableModelsCacheLocked r) = registry_ok r"
  by (simp add: registry_ok_def)

text \<open>The bindings of a client beside those of all others.\<close>

lemma ok_split:
  assumes "registry_ok r" and "mget (rg_client_models r) c = Some ids"
  shows "entry_shows (mget (rg_models r) m) (count_list ids m + bindings (mdel c (rg_client_models r)) m)
     (\<lambda>q. provider_bindings (mdel c (rg_client_models r)) (rg_client_providers r) m q
          + own (mget_or [] (rg_client_providers r) c) (count_list ids m) q)"
proof (rule entry_shows_ext)
  show "entry_shows (mget (rg_models r) m) (bindings (rg_client_models r) m)
      (provider_bindings (rg_client_models r) (rg_client_providers r) m)"
    using assms(1) by (simp add: registry_ok_def)
  have wf: "mwf (rg_client_models r)" using assms(1) by (simp add: registry_ok_def)
  show "bindings (rg_client_models r) m = count_list ids m + bindings (mdel c (rg_client_models r)) m"
    by (rule bindings_mdel [OF wf assms(2)])
  show "provider_bindings (rg_client_models r) (rg_client_providers r) m q =
      provider_bindings (mdel c (rg_client_models r)) (rg_client_providers r) m q
      + own (mget_or [] (rg_client_providers r) c) (count_list ids m) q" for q
    by (simp only: provider_bindings_mdel [OF wf assms(2)] add.commute)
qed

lemma provider_bindings_zero: "bindings cm m = 0 \<Longrightarrow> \<forall>q. provider_bindings cm cp m q = 0"
  using provider_bindings_le by (metis le_zero_eq)

lemma unregister_ok [inv_intros]:
  assumes "registry_ok r"
  shows "registry_ok (unregisterClientInternal r c now)"
proof (cases "mget (rg_client_models r) c")
  case None
  then have "mdel c (rg_client_providers r) = rg_client_providers r"
    using assms by (simp add: registry_ok_def mdel_absent)
  then show ?thesis using assms None by (simp add: unregisterClientInternal_def)
next
  case (Some ids)
  let ?r = "unregisterClientInternal r c now" and ?pr = "mget (rg_client_providers r) c"
  let ?cm = "mdel c (rg_client_models r)"
  have f: "rg_models ?r = fold (\<lambda>i. malter i (reg_release c ?pr now)) ids (rg_models r)"
    "rg_client_models ?r = ?cm" "rg_client_providers ?r = mdel c (rg_client_providers r)"
    using Some by (simp_all add: unregisterClientInternal_def Let_def)
  have pne: "\<And>p. ?pr = Some p \<Longrightarrow> p \<noteq> []" using assms by (auto simp: registry_ok_def)
  have own_eq: "mget_or [] (rg_client_providers r) c = (case ?pr of None \<Rightarrow> [] | Some p \<Rightarrow> p)"
    by (simp add: mget_or_def)
  have "entry_shows (mget (rg_models ?r) m) (bindings ?cm m) (provider_bindings ?cm (mdel c (rg_client_providers r)) m)" for m
  proof -
    have "entry_shows ((reg_release c ?pr now ^^ count_list ids m) (mget (rg_models r) m)) (0 + bindings ?cm m)
        (\<lambda>q. provider_bindings ?cm (rg_client_providers r) m q + own (case ?pr of None \<Rightarrow> [] | Some p \<Rightarrow> p) 0 q)"
    proof (rule shows_release_n)
      show "entry_shows (mget (rg_models r) m) (count_list ids m + 0 + bindings ?cm m)
          (\<lambda>q. provider_bindings ?cm (rg_client_providers r) m q
             + own (case ?pr of None \<Rightarrow> [] | Some p \<Rightarrow> p) (count_list ids m + 0) q)"
        using ok_split [OF assms Some, of m] by (simp only: own_eq add_0_right)
      show "\<forall>q. provider_bindings ?cm (rg_client_providers r) m q = 0" if "bindings ?cm m = 0"
        using that by (rule provider_bindings_zero)
    qed (simp_all add: pne)
    moreover have "provider_bindings ?cm (mdel c (rg_client_providers r)) m = provider_bindings ?cm (rg_client_providers r) m"
      by (rule ext, rule provider_bindings_other) simp
    ultimately show ?thesis
      by (simp only: f mget_fold_malter_list own_simps add_0 add_0_right)
  qed
  then show ?thesis using assms by (auto simp: registry_ok_def f)
qed

lemma register_ok [inv_intros]:
  assumes "registry_ok r"
  shows "registry_ok (RegisterClient r c p models now)"
proof -
  let ?raw = "map mi_id (valid_models models)" and ?nm = "first_models (valid_models models)"
  let ?p = "to_lower p" and ?cm = "rg_client_models r" and ?cp = "rg_client_providers r"
  show ?thesis
  proof (cases "?raw = []")
    case True
    let ?u = "unregisterClientInternal r c now"
    have "mget (rg_client_models ?u) c = None"
      by (cases "mget ?cm c") (simp_all add: unregisterClientInternal_def Let_def)
    moreover from this have "mget (rg_client_providers ?u) c = None"
      using unregister_ok [OF assms] by (simp add: registry_ok_def)
    ultimately have "registry_ok (?u\<lparr>rg_client_models := mdel c (rg_client_models ?u),
        rg_client_model_infos := mdel c (rg_client_model_infos ?u),
        rg_client_providers := mdel c (rg_client_providers ?u)\<rparr>)"
      using unregister_ok [OF assms, of c now] by (simp add: registry_ok_def mdel_absent)
    then show ?thesis using True by (simp add: RegisterClient_def Let_def)
  next
    case False
    let ?ms = "case mget ?cm c of None \<Rightarrow> add_all ?p ?nm ?raw now (rg_models r)
        | Some old \<Rightarrow> reconcile_models c (mget_or [] ?cp c) ?p ?nm old ?raw now (rg_models r)"
    have wf: "mwf ?cm" using assms by (simp add: registry_ok_def)
    have gp: "mget_or [] (set_provider c ?p ?cp) c = ?p"
      by (auto simp: set_provider_def)
    have "entry_shows (mget ?ms m) (count_list ?raw m + bindings (mdel c ?cm) m)
        (\<lambda>q. provider_bindings (mdel c ?cm) ?cp m q + own ?p (count_list ?raw m) q)" for m
    proof (cases "mget ?cm c")
      case None
      then have "entry_shows (mget (rg_models r) m) (bindings (mdel c ?cm) m) (provider_bindings (mdel c ?cm) ?cp m)"
        using assms by (simp add: registry_ok_def mdel_absent)
      from shows_add_n [OF this, of "count_list ?raw m" ?p "infos_of ?nm m" now] show ?thesis
        using None by (simp add: mget_add_all [OF covers_first_models] add.commute)
    next
      case (Some old)
      then show ?thesis
        using reconcile_entry [OF covers_first_models ok_split [OF assms Some]] provider_bindings_zero by simp
    qed
    note sh = this
    have "entry_shows (mget ?ms m) (bindings (mput c ?raw ?cm) m) (provider_bindings (mput c ?raw ?cm) (set_provider c ?p ?cp) m)" for m
      using wf gp
      by (intro entry_shows_ext [OF sh])
         (auto simp: bindings_mput provider_bindings_mput set_provider_def intro!: provider_bindings_other)
    then show ?thesis using assms False
      by (auto simp: RegisterClient_def Let_def registry_ok_def set_provider_def)
  qed
qed


section \<open>Operations as steps\<close>

text \<open>The methods that change the registry. The clock never runs backwards (Go compares
  monotonic readings) and is positive.\<close>

datatype registry_op =
    OpRegister string string "ModelInfo option list"
  | OpUnregister string
  | OpSetQuota string string
  | OpClearQuota string string
  | OpSuspend string string string
  | OpResume string string
  | OpCleanup
  | OpList string

fun apply_op :: "registry_op \<Rightarrow> time \<Rightarrow> ModelRegistry \<Rightarrow> ModelRegistry" where
  "apply_op (OpRegister c p ms) now r = RegisterClient r c p ms now"
| "apply_op (OpUnregister c) now r = UnregisterClient r c now"
| "apply_op (OpSetQuota c m) now r = SetModelQuotaExceeded r c m now"
| "apply_op (OpClearQuota c m) now r = ClearModelQuotaExceeded r c m"
| "apply_op (OpSuspend c m reason) now r = SuspendClientModel r c m reason now"
| "apply_op (OpResume c m) now r = ResumeClientModel r c m now"
| "apply_op OpCleanup now r = CleanupExpiredQuotas r now"
| "apply_op (OpList h) now r = fst (GetAvailableModels r h now)"

inductive registry_step :: "ModelRegistry \<times> time \<Rightarrow> ModelRegistry \<times> time \<Rightarrow> bool" where
  "t \<le> now \<Longrightarrow> 0 < now \<Longrightarrow> registry_step (r, t) (apply_op op now r, now)"

definition registry_init :: "ModelRegistry \<times> time \<Rightarrow> bool" where
  "registry_init s \<longleftrightarrow> fst s \<in> {newModelRegistry True, newModelRegistry False} \<and> snd s = 0"

lemma mput_reg_ok:
  assumes "registry_ok r" and "mget (rg_models r) m = Some reg"
    and "mr_count reg' = mr_count reg" and "mr_providers reg' = mr_providers reg"
    and "mr_info_by_provider reg' = mr_info_by_provider reg"
  shows "registry_ok (r\<lparr>rg_models := mput m reg' (rg_models r)\<rparr>)"
proof -
  have "entry_shows (Some reg) n P \<Longrightarrow> entry_shows (Some reg') n P" for n P
    using assms by (simp add: entry_shows_def reg_shows_def)
  then show ?thesis using assms(1,2) unfolding registry_ok_def by (auto dest: spec [of _ m])
qed

lemma SetModelQuotaExceeded_ok [inv_intros]: "registry_ok r \<Longrightarrow> registry_ok (SetModelQuotaExceeded r c m now)"
  by (auto simp: SetModelQuotaExceeded_def intro!: mput_reg_ok split: option.splits)

lemma ClearModelQuotaExceeded_ok [inv_intros]: "registry_ok r \<Longrightarrow> registry_ok (ClearModelQuotaExceeded r c m)"
  by (auto simp: ClearModelQuotaExceeded_def intro!: mput_reg_ok split: option.splits)

lemma SuspendClientModel_ok [inv_intros]: "registry_ok r \<Longrightarrow> registry_ok (SuspendClientModel r c m reason now)"
  by (auto simp: SuspendClientModel_def intro!: mput_reg_ok split: option.splits)

lemma ResumeClientModel_ok [inv_intros]: "registry_ok r \<Longrightarrow> registry_ok (ResumeClientModel r c m now)"
  by (auto simp: ResumeClientModel_def intro!: mput_reg_ok split: option.splits)

lemma mget_map_values: "mget (map (\<lambda>(k, v). (k, f v)) m) k = map_option f (mget m k)"
  by (induction m) auto

lemma map_fst_values: "map (fst \<circ> (\<lambda>(k, v). (k, f v))) m = map fst m"
  by (induction m) auto

lemma CleanupExpiredQuotas_ok [inv_intros]:
  assumes "registry_ok r" shows "registry_ok (CleanupExpiredQuotas r now)"
proof -
  have "entry_shows (map_option (\<lambda>reg. reg\<lparr>mr_quota := q reg\<rparr>) e) n P = entry_shows e n P" for q e n P
    by (cases e) (simp_all add: entry_shows_def reg_shows_def)
  then show ?thesis using assms
    by (simp add: CleanupExpiredQuotas_def Let_def registry_ok_def mget_map_values)
qed

lemma GetAvailableModels_ok [inv_intros]: "registry_ok r \<Longrightarrow> registry_ok (fst (GetAvailableModels r h now))"
  by (auto simp: GetAvailableModels_def registry_ok_def Let_def split: option.splits prod.splits)

lemma UnregisterClient_ok [inv_intros]: "registry_ok r \<Longrightarrow> registry_ok (UnregisterClient r c now)"
  by (simp add: UnregisterClient_def unregister_ok)

lemma apply_op_ok: "registry_ok r \<Longrightarrow> registry_ok (apply_op op now r)"
  by (cases op) (auto intro: inv_intros)

lemma registry_ok_new: "registry_ok (newModelRegistry h)"
  by (simp add: registry_ok_def newModelRegistry_def entry_shows_def bindings_def provider_bindings_def)

interpretation registry: invariant_system registry_init registry_step "\<lambda>s. registry_ok (fst s)"
  by unfold_locales (auto simp: registry_init_def registry_ok_new elim!: registry_step.cases intro: apply_op_ok)

section \<open>Selectable clients\<close>

definition eligible :: "ModelRegistry \<Rightarrow> string \<Rightarrow> string \<Rightarrow> string \<times> string list \<Rightarrow> bool" where
  "eligible r modelID provider ci \<longleftrightarrow>
     (provider = [] \<or> to_lower (trim_space (mget_or [] (rg_client_providers r) (fst ci))) = provider) \<and>
     lists_model (snd ci) modelID"

definition client_blocked :: "ModelRegistration \<Rightarrow> time \<Rightarrow> string \<Rightarrow> bool" where
  "client_blocked reg now c \<longleftrightarrow> quota_blocks reg c now \<or> mget (mr_suspended reg) c \<noteq> None"

text \<open>The earliest recovery, 0 for none.\<close>

definition earliest :: "time \<Rightarrow> time list \<Rightarrow> time" where
  "earliest z us = foldl (\<lambda>r u. if r = 0 \<or> u < r then u else r) z us"

definition recoveries :: "ModelRegistration \<Rightarrow> time \<Rightarrow> string \<Rightarrow> time list" where
  "recoveries reg now c = (case quota_until reg c of None \<Rightarrow> [] | Some u \<Rightarrow> if now < u then [u] else [])"

lemma selectable_fold:
  "foldl (count_client r m p reg now) (n, z) cs =
     (n + length (filter (\<lambda>ci. eligible r m p ci \<and> \<not> client_blocked reg now (fst ci)) cs),
      earliest z (concat (map (recoveries reg now \<circ> fst) (filter (eligible r m p) cs))))"
proof (induction cs arbitrary: n z)
  case (Cons ci cs)
  obtain c ids where ci: "ci = (c, ids)" by (cases ci)
  have "count_client r m p reg now (n, z) ci =
     (if eligible r m p ci \<and> \<not> client_blocked reg now (fst ci) then n + 1 else n,
      if eligible r m p ci then earliest z (recoveries reg now (fst ci)) else z)"
    by (simp add: ci count_client_def eligible_def client_blocked_def earliest_def recoveries_def Let_def
        split: option.splits)
  then show ?case using Cons by (simp add: earliest_def)
qed (simp add: earliest_def)

lemma selectable_eq:
  "selectableModelClientsLocked r m [] (Some reg) now =
     (length (filter (\<lambda>ci. eligible r m [] ci \<and> \<not> client_blocked reg now (fst ci)) (rg_client_models r)),
      earliest 0 (concat (map (recoveries reg now \<circ> fst) (filter (eligible r m []) (rg_client_models r)))))"
  by (simp add: selectableModelClientsLocked_def selectable_fold)

lemma earliest_zero_or:
  "\<forall>u \<in> set us. u \<noteq> 0 \<Longrightarrow> (earliest z us = 0 \<longleftrightarrow> z = 0 \<and> us = []) \<and> (\<forall>u \<in> set us. earliest z us \<le> u) \<and>
     (z \<noteq> 0 \<longrightarrow> earliest z us \<le> z)"
proof (induction us arbitrary: z)
  case (Cons u us)
  let ?z = "if z = 0 \<or> u < z then u else z"
  have "earliest z (u # us) = earliest ?z us" by (simp add: earliest_def)
  then show ?case using Cons.IH [of ?z] Cons.prems by (auto split: if_splits)
qed (simp add: earliest_def)

section \<open>The cache\<close>

text \<open>A cached list is the one a rebuild would give, for as long as the code serves it.\<close>

definition quota_times_ok :: "ModelRegistry \<Rightarrow> bool" where
  "quota_times_ok r \<longleftrightarrow> (\<forall>m reg c q. mget (rg_models r) m = Some reg \<longrightarrow> mget (mr_quota reg) c = Some q \<longrightarrow> 0 < q)"

definition models_at :: "ModelRegistry \<Rightarrow> string \<Rightarrow> time \<Rightarrow> model_map list" where
  "models_at r h now = concat (map (\<lambda>(m, reg).
     if fst (selectableModelClientsLocked r m [] (Some reg) now) = 0 then []
     else [convertModelToMap (mr_info reg) h]) (rg_models r))"

lemma build_fold:
  "foldl (build_step r h now) (acc, z) ms =
     (acc @ concat (map (\<lambda>(m, reg).
        if fst (selectableModelClientsLocked r m [] (Some reg) now) = 0 then []
        else [convertModelToMap (mr_info reg) h]) ms),
      earliest z (filter (\<lambda>u. u \<noteq> 0) (map (\<lambda>(m, reg). snd (selectableModelClientsLocked r m [] (Some reg) now)) ms)))"
proof (induction ms arbitrary: acc z)
  case (Cons mr ms)
  then show ?case
    by (cases mr) (simp add: build_step_def earliest_def Let_def split: prod.splits)
qed (simp add: earliest_def)

lemma build_eq:
  "buildAvailableModelsLocked r h now = (models_at r h now,
     earliest 0 (filter (\<lambda>u. u \<noteq> 0) (map (\<lambda>(m, reg). snd (selectableModelClientsLocked r m [] (Some reg) now)) (rg_models r))))"
  by (simp add: buildAvailableModelsLocked_def build_fold models_at_def)

lemma models_at_later:
  assumes wf: "mwf (rg_models r)" and q: "quota_times_ok r" and t: "now \<le> now'"
    and f: "snd (buildAvailableModelsLocked r h now) = 0 \<or> now' < snd (buildAvailableModelsLocked r h now)"
  shows "models_at r h now' = models_at r h now"
proof -
  have "fst (selectableModelClientsLocked r m [] (Some reg) now') = fst (selectableModelClientsLocked r m [] (Some reg) now)"
    if mem: "(m, reg) \<in> set (rg_models r)" for m reg
  proof -
    let ?us = "concat (map (recoveries reg now \<circ> fst) (filter (eligible r m []) (rg_client_models r)))"
    let ?all = "filter (\<lambda>u. u \<noteq> 0) (map (\<lambda>(m, reg). snd (selectableModelClientsLocked r m [] (Some reg) now)) (rg_models r))"
    have g: "mget (rg_models r) m = Some reg" using wf mem by simp
    have pos: "0 < u" if "quota_until reg c = Some u" for c u
      using that q g unfolding quota_times_ok_def quota_until_def
      by (fastforce simp: modelQuotaExceededWindow_def minute_def second_def)
    have "u \<noteq> 0" if "u \<in> set (recoveries reg now c)" for c u
      using that pos [of c u] by (auto simp: recoveries_def split: option.splits if_splits)
    then have us: "\<forall>u \<in> set ?us. u \<noteq> 0" by auto
    have "now' < u" if "(c, ids) \<in> set (rg_client_models r)" "eligible r m [] (c, ids)"
      "quota_until reg c = Some u" "now < u" for c ids u
    proof -
      have "u \<in> set ?us" using that by (force simp: recoveries_def)
      then have e: "earliest 0 ?us \<noteq> 0" "earliest 0 ?us \<le> u"
        using earliest_zero_or [OF us, of 0] by auto
      then have a: "earliest 0 ?us \<in> set ?all" using mem by (force simp: selectable_eq)
      have "\<forall>u \<in> set ?all. u \<noteq> 0" by simp
      note E = earliest_zero_or [OF this, of 0]
      have "earliest 0 ?all = 0 \<longleftrightarrow> ?all = []" using E by blast
      moreover have "?all \<noteq> []" using a by (metis empty_iff empty_set)
      moreover have "earliest 0 ?all \<le> earliest 0 ?us" using E a by blast
      ultimately have "earliest 0 ?all \<noteq> 0" "earliest 0 ?all \<le> earliest 0 ?us" by blast+
      then show ?thesis using f e by (simp add: build_eq)
    qed
    then have "\<And>ci. ci \<in> set (rg_client_models r) \<Longrightarrow> eligible r m [] ci \<Longrightarrow>
        client_blocked reg now' (fst ci) = client_blocked reg now (fst ci)"
      using t by (fastforce simp: client_blocked_def quota_blocks_def split: option.splits)
    then show ?thesis by (auto simp: selectable_eq intro!: arg_cong [of _ _ length] filter_cong)
  qed
  then show ?thesis unfolding models_at_def by (intro arg_cong [of _ _ concat]) auto
qed

text \<open>What the model map keeps: distinct keys, positive quota instants and each provider once.\<close>

definition reg_inv :: "ModelRegistration option \<Rightarrow> bool" where
  "reg_inv e = (case e of None \<Rightarrow> True | Some reg \<Rightarrow> (\<forall>cq \<in> set (mr_quota reg). 0 < snd cq) \<and> mwf (mr_providers reg))"

definition models_inv :: "(string, ModelRegistration) gomap \<Rightarrow> bool" where
  "models_inv ms \<longleftrightarrow> mwf ms \<and> (\<forall>m. reg_inv (mget ms m))"

lemma set_mput_subset: "set (mput k v m) \<subseteq> insert (k, v) (set m)"
  by (induction m) auto

lemma reg_add_quota : "reg_inv e \<Longrightarrow> reg_inv (reg_add p m now e)"
  by (auto simp: reg_inv_def reg_add_def Let_def split: option.splits)

lemma take_provider_quota [simp]: "mr_quota (take_provider p n reg) = mr_quota reg"
  by (simp add: take_provider_def split: option.splits)

lemma take_provider_mwf [simp]: "mwf (mr_providers reg) \<Longrightarrow> mwf (mr_providers (take_provider p n reg))"
  by (auto simp: take_provider_def split: option.splits)

lemma take_quota : "reg_inv e \<Longrightarrow> reg_inv (map_option (take_provider p n) e)"
  by (auto simp: reg_inv_def split: option.splits)

lemma reg_remove_quota : "reg_inv e \<Longrightarrow> reg_inv (reg_remove c p now e)"
  by (auto simp: reg_inv_def set_mdel reg_remove_def Let_def split: option.splits if_splits)

lemma reg_release_quota : "reg_inv e \<Longrightarrow> reg_inv (reg_release c p now e)"
  by (auto simp: reg_inv_def set_mdel reg_release_def Let_def split: option.splits if_splits)

lemma refresh_quota : "reg_inv e \<Longrightarrow> reg_inv (map_option (refresh_reg c p ch m ov now) e)"
  by (auto simp: reg_inv_def set_mdel refresh_reg_def Let_def split: option.splits if_splits)

lemma models_inv_malter:
  "models_inv ms \<Longrightarrow> (\<And>e. reg_inv e \<Longrightarrow> reg_inv (f e)) \<Longrightarrow> models_inv (malter k f ms)"
  by (auto simp: models_inv_def)

lemma fold_inv:
  "models_inv a \<Longrightarrow> (\<And>x a. models_inv a \<Longrightarrow> models_inv (f x a)) \<Longrightarrow> models_inv (fold f xs a)"
  by (induction xs arbitrary: a) auto

lemma funpow_inv: "models_inv a \<Longrightarrow> (\<And>a. models_inv a \<Longrightarrow> models_inv (f a)) \<Longrightarrow> models_inv ((f ^^ n) a)"
  by (induction n) auto

lemma addModelRegistration_inv: "models_inv ms \<Longrightarrow> models_inv (addModelRegistration i p mo now ms)"
  by (auto simp: addModelRegistration_def intro!: models_inv_malter reg_add_quota split: option.splits)

lemma removeModelRegistration_inv: "models_inv ms \<Longrightarrow> models_inv (removeModelRegistration c i p now ms)"
  by (auto simp: removeModelRegistration_def intro!: models_inv_malter reg_remove_quota)

lemma add_all_inv: "models_inv ms \<Longrightarrow> models_inv (add_all p nm raw now ms)"
  unfolding add_all_def by (rule fold_inv) (simp_all add: addModelRegistration_inv)

lemma move_overlap_inv: "models_inv ms \<Longrightarrow> models_inv (move_overlap op p old raw ms)"
  unfolding move_overlap_def by (auto intro!: fold_inv models_inv_malter take_quota)

lemma remove_dropped_inv: "models_inv ms \<Longrightarrow> models_inv (remove_dropped c op old raw now ms)"
  unfolding remove_dropped_def
  by (rule fold_inv, assumption, rule funpow_inv, assumption, rule removeModelRegistration_inv)

lemma remove_overage_inv: "models_inv ms \<Longrightarrow> models_inv (remove_overage c op old raw now ms)"
  unfolding remove_overage_def
  by (rule fold_inv, assumption) (auto intro!: funpow_inv removeModelRegistration_inv)

lemma add_missing_inv: "models_inv ms \<Longrightarrow> models_inv (add_missing p nm old raw now ms)"
  unfolding add_missing_def
  by (rule fold_inv, assumption) (auto intro!: funpow_inv addModelRegistration_inv)

lemma refresh_all_inv: "models_inv ms \<Longrightarrow> models_inv (refresh_all c p ch nm old raw now ms)"
  unfolding refresh_all_def
  by (rule fold_inv, assumption) (auto intro!: models_inv_malter refresh_quota split: option.splits)

lemma reconcile_inv: "models_inv ms \<Longrightarrow> models_inv (reconcile_models c op p nm old raw now ms)"
  unfolding reconcile_models_def
  by (intro refresh_all_inv add_missing_inv remove_overage_inv remove_dropped_inv move_overlap_inv)

lemma unregister_inv: "models_inv (rg_models r) \<Longrightarrow> models_inv (rg_models (unregisterClientInternal r c now))"
  by (auto simp: unregisterClientInternal_def Let_def intro!: fold_inv models_inv_malter reg_release_quota
      split: option.splits)

lemma RegisterClient_inv: "models_inv (rg_models r) \<Longrightarrow> models_inv (rg_models (RegisterClient r c p ms now))"
  by (auto simp: RegisterClient_def Let_def intro: unregister_inv add_all_inv reconcile_inv split: option.splits)

lemma models_inv_mput:
  "models_inv ms \<Longrightarrow> reg_inv (Some reg) \<Longrightarrow> models_inv (mput m reg ms)"
  by (auto simp: models_inv_def)

lemma models_inv_entry: "models_inv ms \<Longrightarrow> mget ms m = Some reg \<Longrightarrow> reg_inv (Some reg)"
  unfolding models_inv_def by metis

lemma marks_inv:
  assumes "models_inv (rg_models r)" and "0 < now"
  shows "models_inv (rg_models (SetModelQuotaExceeded r c m now))"
    "models_inv (rg_models (ClearModelQuotaExceeded r c m))"
    "models_inv (rg_models (SuspendClientModel r c m reason now))"
    "models_inv (rg_models (ResumeClientModel r c m now))"
proof -
  have q: "reg_inv (Some reg)" if "mget (rg_models r) m = Some reg" for reg
    using models_inv_entry [OF assms(1) that] .
  show "models_inv (rg_models (SetModelQuotaExceeded r c m now))"
    using assms q set_mput_subset [of c now]
    by (fastforce simp: SetModelQuotaExceeded_def reg_inv_def intro!: models_inv_mput split: option.splits)
  show "models_inv (rg_models (ClearModelQuotaExceeded r c m))"
    using assms q
    by (auto simp: ClearModelQuotaExceeded_def reg_inv_def set_mdel intro!: models_inv_mput split: option.splits)
  show "models_inv (rg_models (SuspendClientModel r c m reason now))"
    using assms q
    by (auto simp: SuspendClientModel_def reg_inv_def intro!: models_inv_mput split: option.splits)
  show "models_inv (rg_models (ResumeClientModel r c m now))"
    using assms q
    by (auto simp: ResumeClientModel_def reg_inv_def intro!: models_inv_mput split: option.splits)
qed

lemma cleanup_inv: "models_inv (rg_models r) \<Longrightarrow> models_inv (rg_models (CleanupExpiredQuotas r now))"
proof -
  assume "models_inv (rg_models r)"
  moreover have "reg_inv (map_option (\<lambda>reg. reg\<lparr>mr_quota := filter P (mr_quota reg)\<rparr>) e)" if "reg_inv e" for e P
    using that by (cases e) (auto simp: reg_inv_def)
  ultimately show ?thesis
    by (auto simp: CleanupExpiredQuotas_def Let_def models_inv_def mget_map_values map_fst_values)
qed

lemma list_models: "rg_models (fst (GetAvailableModels r h now)) = rg_models r"
  by (auto simp: GetAvailableModels_def Let_def split: option.splits prod.splits)

lemma apply_op_inv:
  assumes "models_inv (rg_models r)" and "0 < now"
  shows "models_inv (rg_models (apply_op op now r))"
  using assms by (cases op) (simp_all add: marks_inv cleanup_inv list_models UnregisterClient_def
      RegisterClient_inv unregister_inv)

text \<open>The invariant of the cache, at time \<open>t\<close>.\<close>

definition cache_ok :: "ModelRegistry \<Rightarrow> time \<Rightarrow> bool" where
  "cache_ok r t \<longleftrightarrow> (\<forall>h e now. mget (rg_cache r) h = Some e \<longrightarrow> t \<le> now \<longrightarrow> cache_fresh e now \<longrightarrow>
     ce_models e = models_at r h now)"

definition available_inv :: "ModelRegistry \<times> time \<Rightarrow> bool" where
  "available_inv s \<longleftrightarrow> models_inv (rg_models (fst s)) \<and> cache_ok (fst s) (snd s)"

lemma quota_times_okI: "models_inv ms \<Longrightarrow> ms = rg_models r \<Longrightarrow> quota_times_ok r"
  by (fastforce simp: quota_times_ok_def models_inv_def reg_inv_def dest: map_of_SomeD split: option.splits)

lemma models_at_cong:
  assumes "rg_models r' = rg_models r" and "rg_client_models r' = rg_client_models r"
  shows "models_at r' h now = models_at r h now"
proof -
  have "eligible r' m [] = eligible r m []" for m by (rule ext) (simp add: eligible_def)
  then show ?thesis using assms by (simp add: models_at_def selectable_eq)
qed

lemma cache_ok_nil: "rg_cache r = [] \<Longrightarrow> cache_ok r t"
  by (simp add: cache_ok_def)

lemma cache_ok_later: "cache_ok r t \<Longrightarrow> t \<le> t' \<Longrightarrow> cache_ok r t'"
  unfolding cache_ok_def by (meson order_trans)

lemma cache_ok_list:
  assumes ok: "cache_ok r t" and t: "t \<le> now" and inv: "models_inv (rg_models r)"
  shows "cache_ok (fst (GetAvailableModels r h now)) now"
proof -
  obtain ms ex where b: "buildAvailableModelsLocked r h now = (ms, ex)" by fastforce
  let ?r' = "r\<lparr>rg_cache := mput h \<lparr>ce_models = ms, ce_expires_at = ex\<rparr> (rg_cache r)\<rparr>"
  have c: "models_at ?r' h' u = models_at r h' u" for h' u by (rule models_at_cong) simp_all
  have "models_at r h u = ms" if "now \<le> u" "ex = 0 \<or> u < ex" for u
    using models_at_later [OF _ quota_times_okI [OF inv refl] that(1), of h] that(2) b inv
    by (simp add: models_inv_def build_eq)
  then have "cache_ok ?r' now"
    using cache_ok_later [OF ok t] by (auto simp: cache_ok_def c cache_fresh_def)
  then show ?thesis
    using cache_ok_later [OF ok t] b by (auto simp: GetAvailableModels_def Let_def split: option.splits)
qed

lemma cleanup_same:
  assumes "\<not> list_ex (\<lambda>(m, reg). list_ex (\<lambda>(c, q). quota_expired now q) (mr_quota reg)) ms"
  shows "map (\<lambda>(m, reg). (m, reg\<lparr>mr_quota := filter (\<lambda>(c, q). \<not> quota_expired now q) (mr_quota reg)\<rparr>)) ms = ms"
  using assms
proof (induction ms)
  case (Cons x ms)
  obtain m reg where x: "x = (m, reg)" by (cases x)
  have "filter (\<lambda>(c, q). \<not> quota_expired now q) (mr_quota reg) = mr_quota reg"
    using Cons.prems x by (auto simp: filter_id_conv list_ex_iff)
  then show ?case using Cons x by simp
qed simp

lemma apply_op_cache:
  assumes "cache_ok r t" and "t \<le> now" and "models_inv (rg_models r)"
  shows "cache_ok (apply_op op now r) now"
proof (cases op)
  case (OpList h)
  then show ?thesis using assms cache_ok_list by simp
next
  case OpCleanup
  then show ?thesis using cache_ok_later [OF assms(1,2)]
    by (auto simp: CleanupExpiredQuotas_def Let_def cleanup_same cache_ok_nil)
qed (use cache_ok_later [OF assms(1,2)] in \<open>auto simp: RegisterClient_def UnregisterClient_def Let_def
       SetModelQuotaExceeded_def ClearModelQuotaExceeded_def SuspendClientModel_def ResumeClientModel_def
       cache_ok_nil split: option.splits\<close>)

interpretation available: invariant_system registry_init registry_step available_inv
proof
  show "available_inv s" if "registry_init s" for s
    using that by (auto simp: registry_init_def available_inv_def newModelRegistry_def models_inv_def
        reg_inv_def cache_ok_nil)
  show "available_inv s'" if "available_inv s" "registry_step s s'" for s s'
    using that(2,1) by cases (auto simp: available_inv_def intro: apply_op_inv apply_op_cache)
qed


section \<open>Facts about reachable registries\<close>

abbreviation registry_reach :: "ModelRegistry \<Rightarrow> time \<Rightarrow> bool" where
  "registry_reach r t \<equiv> reach registry_init registry_step (r, t)"

lemma reach_ok: "registry_reach r t \<Longrightarrow> registry_ok r"
  using registry.reach_inv by fastforce

lemma reach_available: "registry_reach r t \<Longrightarrow> models_inv (rg_models r) \<and> cache_ok r t"
  using available.reach_inv by (fastforce simp: available_inv_def)

lemma entry_counts:
  assumes "registry_ok r"
  shows "case mget (rg_models r) m of
      None \<Rightarrow> bindings (rg_client_models r) m = 0
    | Some reg \<Rightarrow> mr_count reg = int (bindings (rg_client_models r) m) \<and> 0 < bindings (rg_client_models r) m \<and>
        (\<forall>p. mget_or 0 (mr_providers reg) p = int (provider_bindings (rg_client_models r) (rg_client_providers r) m p))"
  using assms by (auto simp: registry_ok_def entry_shows_def reg_shows_def mget_or_def split: option.splits
      dest!: spec [of _ m])

text \<open>The count of a model and of a provider, 0 where there is no entry.\<close>

definition model_count :: "ModelRegistry \<Rightarrow> string \<Rightarrow> int" where
  "model_count r m = (case mget (rg_models r) m of None \<Rightarrow> 0 | Some reg \<Rightarrow> mr_count reg)"

definition provider_count :: "ModelRegistry \<Rightarrow> string \<Rightarrow> string \<Rightarrow> int" where
  "provider_count r m p = (case mget (rg_models r) m of None \<Rightarrow> 0 | Some reg \<Rightarrow> mget_or 0 (mr_providers reg) p)"

lemma counts_eq:
  assumes "registry_ok r"
  shows "model_count r m = int (bindings (rg_client_models r) m)"
    "provider_count r m p = int (provider_bindings (rg_client_models r) (rg_client_providers r) m p)"
  using entry_counts [OF assms, of m] provider_bindings_le [of "rg_client_models r" "rg_client_providers r" m p]
  by (auto simp: model_count_def provider_count_def split: option.splits)

lemma mdel_mdel [simp]: "mdel k (mdel k m) = mdel k m"
  by (simp add: delete_idem)

lemma unregister_maps:
  assumes "registry_ok r"
  shows "rg_client_models (unregisterClientInternal r c now) = mdel c (rg_client_models r)"
    "rg_client_providers (unregisterClientInternal r c now) = mdel c (rg_client_providers r)"
  by (auto simp: unregisterClientInternal_def Let_def mdel_absent split: option.splits)

lemma register_maps:
  assumes "registry_ok r"
  shows "rg_client_models (RegisterClient r c p ms now) =
      (if valid_models ms = [] then mdel c (rg_client_models r)
       else mput c (map mi_id (valid_models ms)) (rg_client_models r))"
    "rg_client_providers (RegisterClient r c p ms now) =
      (if valid_models ms = [] then mdel c (rg_client_providers r)
       else set_provider c (to_lower p) (rg_client_providers r))"
  by (auto simp: RegisterClient_def Let_def unregister_maps [OF assms])

lemma provider_bindings_cong:
  "(\<And>c. mget_or [] cp c = mget_or [] cp' c) \<Longrightarrow> provider_bindings cm cp m p = provider_bindings cm cp' m p"
  by (simp add: provider_bindings_def)

text \<open>The incremental reconciliation and the plain replacement leave the same client maps.\<close>

lemma replace_maps:
  assumes "registry_ok r"
  shows "bindings (rg_client_models (RegisterClient (UnregisterClient r c now) c p ms now)) m =
      bindings (rg_client_models (RegisterClient r c p ms now)) m"
    "provider_bindings (rg_client_models (RegisterClient (UnregisterClient r c now) c p ms now))
       (rg_client_providers (RegisterClient (UnregisterClient r c now) c p ms now)) m q =
     provider_bindings (rg_client_models (RegisterClient r c p ms now))
       (rg_client_providers (RegisterClient r c p ms now)) m q"
proof -
  have wf: "mwf (rg_client_models r)" using assms by (simp add: registry_ok_def)
  note maps = register_maps [OF assms, of c p ms now] register_maps [OF UnregisterClient_ok [OF assms], of c now c p ms now]
  have u: "rg_client_models (UnregisterClient r c now) = mdel c (rg_client_models r)"
    "rg_client_providers (UnregisterClient r c now) = mdel c (rg_client_providers r)"
    by (simp_all add: UnregisterClient_def unregister_maps [OF assms])
  show "bindings (rg_client_models (RegisterClient (UnregisterClient r c now) c p ms now)) m =
      bindings (rg_client_models (RegisterClient r c p ms now)) m"
    using wf by (simp add: maps u bindings_mput)
  have e: "mget_or [] (set_provider c (to_lower p) (mdel c cp)) c' = mget_or [] (set_provider c (to_lower p) cp) c'" for c' cp
    by (simp add: set_provider_def)
  show "provider_bindings (rg_client_models (RegisterClient (UnregisterClient r c now) c p ms now))
       (rg_client_providers (RegisterClient (UnregisterClient r c now) c p ms now)) m q =
     provider_bindings (rg_client_models (RegisterClient r c p ms now))
       (rg_client_providers (RegisterClient r c p ms now)) m q"
    using wf by (simp add: maps u provider_bindings_mput e
        provider_bindings_cong [OF e, of "mdel c (rg_client_models r)" "rg_client_providers r"])
qed

lemma GetAvailableModels_result:
  assumes "registry_reach r t" and "t \<le> now"
  shows "snd (GetAvailableModels r h now) = models_at r h now"
proof -
  have "cache_ok r t" using reach_available [OF assms(1)] by simp
  then show ?thesis using assms(2)
    by (auto simp: GetAvailableModels_def build_eq cache_ok_def Let_def split: option.splits)
qed

text \<open>Counting clients: the bindings of a client map have distinct keys.\<close>

lemma card_filter_keys:
  assumes "mwf m"
  shows "length (filter P m) = card {k. \<exists>v. mget m k = Some v \<and> P (k, v)}"
proof -
  have "distinct (map fst (filter P m))" using assms by (rule distinct_map_filter)
  then have "length (filter P m) = card (set (map fst (filter P m)))"
    by (metis distinct_card length_map)
  also have "set (map fst (filter P m)) = {k. \<exists>v. mget m k = Some v \<and> P (k, v)}"
    using assms by force
  finally show ?thesis .
qed

lemma GetModelCount_eq:
  assumes "registry_ok r" and "mget (rg_models r) m = Some reg"
  shows "GetModelCount r m now =
    card {c. \<exists>ids. mget (rg_client_models r) c = Some ids \<and> lists_model ids m \<and> \<not> client_blocked reg now c}"
  using assms card_filter_keys [of "rg_client_models r"]
  by (simp add: GetModelCount_def selectable_eq eligible_def registry_ok_def)

lemma provider_before_trans: "provider_before a b \<Longrightarrow> provider_before b c \<Longrightarrow> provider_before a c"
  by (auto simp: provider_before_def split: prod.splits if_splits)

lemma provider_before_total: "a \<noteq> b \<Longrightarrow> provider_before a b \<or> provider_before b a"
  by (auto simp: provider_before_def split: prod.splits if_splits)

definition provider_rank :: "ModelRegistry \<Rightarrow> string \<Rightarrow> string \<Rightarrow> bool \<times> int \<times> string" where
  "provider_rank r m p = (providerHasUserDefinedModelLocked r p m, provider_count r m p, p)"

lemma sorted_wrt_rank:
  "sorted_wrt lt xs \<Longrightarrow> (\<And>x. x \<in> set xs \<Longrightarrow> rank (g x) = x) \<Longrightarrow>
     sorted_wrt (\<lambda>a b. lt (rank a) (rank b)) (map g xs)"
  by (induction xs) auto

lemma GetModelProviders_eq:
  assumes "mget (rg_models r) m = Some reg" and "mwf (mr_providers reg)"
  shows "distinct (GetModelProviders r m)"
    "set (GetModelProviders r m) = {p. 0 < provider_count r m p}"
    "sorted_wrt (\<lambda>a b. provider_before (provider_rank r m a) (provider_rank r m b)) (GetModelProviders r m)"
proof -
  let ?f = "\<lambda>(n, c). (providerHasUserDefinedModelLocked r n m, c, n)" and ?g = "\<lambda>(u, c, n). n"
  let ?xs = "map ?f (filter (\<lambda>(n, c). 0 < c) (mr_providers reg))"
  have eq: "GetModelProviders r m = map ?g (sort_slice provider_before ?xs)"
    using assms(1) by (simp add: GetModelProviders_def)
  have keys: "map ?g ?xs = map fst (filter (\<lambda>(n, c). 0 < c) (mr_providers reg))"
    by (induction "mr_providers reg") auto
  have d: "distinct (map ?g ?xs)"
    unfolding keys using assms(2) by (rule distinct_map_filter)
  have "mset (GetModelProviders r m) = mset (map ?g ?xs)" by (simp only: eq mset_map mset_sort_slice)
  from mset_eq_imp_distinct_iff [OF this] d show "distinct (GetModelProviders r m)" by blast
  have rank: "x = provider_rank r m (?g x)" if "x \<in> set ?xs" for x
    using that assms by (auto simp: provider_rank_def provider_count_def mget_or_def)
  have "set (GetModelProviders r m) = set (map ?g ?xs)" by (simp only: eq set_map set_sort_slice)
  also have "\<dots> = {p. 0 < provider_count r m p}"
  proof -
    have "p \<in> set (map fst (filter (\<lambda>(n, c). 0 < c) (mr_providers reg))) \<longleftrightarrow>
        (\<exists>c. mget (mr_providers reg) p = Some c \<and> 0 < c)" for p
      using assms(2) by force
    moreover have "0 < provider_count r m p \<longleftrightarrow> (\<exists>c. mget (mr_providers reg) p = Some c \<and> 0 < c)" for p
      using assms(1) by (auto simp: provider_count_def mget_or_def split: option.splits)
    ultimately show ?thesis unfolding keys by blast
  qed
  finally show "set (GetModelProviders r m) = {p. 0 < provider_count r m p}" .
  have "sorted_wrt provider_before (sort_slice provider_before ?xs)"
  proof (rule sorted_sort_slice)
    show "distinct ?xs" using d by (simp only: distinct_map)
    show "provider_before a c" if "provider_before a b" "provider_before b c" for a b c
      using that by (rule provider_before_trans)
    show "provider_before x y \<or> provider_before y x" if "x \<noteq> y" for x y
      using that by (rule provider_before_total)
  qed
  then show "sorted_wrt (\<lambda>a b. provider_before (provider_rank r m a) (provider_rank r m b)) (GetModelProviders r m)"
    unfolding eq
  proof (rule sorted_wrt_rank)
    show "provider_rank r m (?g x) = x" if "x \<in> set (sort_slice provider_before ?xs)" for x
      using rank [of x] that by (simp only: set_sort_slice)
  qed
qed

lemma convert_gemini_no_id: "mget (convertModelToMap mi ''gemini'') ''id'' = None"
  by (simp add: convertModelToMap_def convert_gemini_def opt_str_def opt_pos_def opt_strs_def)

section \<open>Properties\<close>

text \<open>C36. In every reachable registry a model has an entry exactly when some client lists it, its
  count is the number of such bindings, and its count per provider is the number of the bindings of
  that provider's clients.\<close>

theorem registry_counts:
  assumes "registry_reach r t"
  shows "case mget (rg_models r) m of
      None \<Rightarrow> bindings (rg_client_models r) m = 0
    | Some reg \<Rightarrow> mr_count reg = int (bindings (rg_client_models r) m) \<and> 0 < bindings (rg_client_models r) m \<and>
        (\<forall>p. mget_or 0 (mr_providers reg) p = int (provider_bindings (rg_client_models r) (rg_client_providers r) m p))"
  using assms by (intro entry_counts reach_ok)

definition witness_model :: "string \<Rightarrow> ModelInfo" where
  "witness_model i = (empty_model_info i)\<lparr>mi_user_defined := True\<rparr>"

definition witness_registry :: ModelRegistry where
  "witness_registry = apply_op (OpSetQuota ''a'' ''m'') 30
     (apply_op (OpRegister ''b'' ''Claude'' [Some (witness_model ''m'')]) 20
       (apply_op (OpRegister ''a'' ''gemini'' [Some (witness_model ''m''), Some (witness_model ''n'')]) 10
         (newModelRegistry False)))"

lemma witness_reach: "registry_reach witness_registry 30"
proof -
  let ?r0 = "newModelRegistry False"
  let ?r1 = "apply_op (OpRegister ''a'' ''gemini'' [Some (witness_model ''m''), Some (witness_model ''n'')]) 10 ?r0"
  let ?r2 = "apply_op (OpRegister ''b'' ''Claude'' [Some (witness_model ''m'')]) 20 ?r1"
  have "registry_reach ?r0 0" by (rule reach_init) (simp add: registry_init_def)
  then have "registry_reach ?r1 10" by (rule reach_step) (rule registry_step.intros, simp_all)
  then have "registry_reach ?r2 20" by (rule reach_step) (rule registry_step.intros, simp_all)
  then show ?thesis
    unfolding witness_registry_def by (rule reach_step) (rule registry_step.intros, simp_all)
qed

theorem registry_counts_witness:
  "model_count witness_registry ''m'' = 2 \<and>
   (case mget (rg_models witness_registry) ''m'' of
      None \<Rightarrow> bindings (rg_client_models witness_registry) ''m'' = 0
    | Some reg \<Rightarrow> mr_count reg = int (bindings (rg_client_models witness_registry) ''m'') \<and>
        0 < bindings (rg_client_models witness_registry) ''m'' \<and>
        (\<forall>p. mget_or 0 (mr_providers reg) p =
           int (provider_bindings (rg_client_models witness_registry) (rg_client_providers witness_registry) ''m'' p)))"
proof
  show "model_count witness_registry ''m'' = 2" by code_simp
qed (rule registry_counts [OF witness_reach])

text \<open>C14. Re-registering a client, which the code does by incremental bookkeeping, leaves every
  count as unregistering the client and registering it afresh would.\<close>

theorem reconcile_is_replace:
  assumes "registry_reach r t"
  shows "model_count (RegisterClient r c p models now) m =
      model_count (RegisterClient (UnregisterClient r c now) c p models now) m \<and>
    provider_count (RegisterClient r c p models now) m q =
      provider_count (RegisterClient (UnregisterClient r c now) c p models now) m q"
proof -
  have ok: "registry_ok r" using assms by (rule reach_ok)
  show ?thesis
    by (simp add: counts_eq register_ok UnregisterClient_ok ok replace_maps [OF ok])
qed

theorem reconcile_is_replace_witness:
  "model_count (RegisterClient witness_registry ''a'' ''codex'' [Some (witness_model ''m'')] 40) ''m'' =
     model_count (RegisterClient (UnregisterClient witness_registry ''a'' 40) ''a'' ''codex'' [Some (witness_model ''m'')] 40) ''m'' \<and>
   provider_count (RegisterClient witness_registry ''a'' ''codex'' [Some (witness_model ''m'')] 40) ''m'' ''codex'' =
     provider_count (RegisterClient (UnregisterClient witness_registry ''a'' 40) ''a'' ''codex'' [Some (witness_model ''m'')] 40) ''m'' ''codex''"
  by (rule reconcile_is_replace [OF witness_reach])

text \<open>C37. The list of available models, cached or not, is the list a rebuild at that moment would
  give: no operation leaves a stale list behind, and a cached list is dropped in time for the
  recovery of a blocked client.\<close>

theorem available_models_current:
  assumes "registry_reach r t" and "t \<le> now"
  shows "snd (GetAvailableModels r h now) = fst (buildAvailableModelsLocked r h now)"
  using GetAvailableModels_result [OF assms] by (simp add: build_eq)

theorem available_models_current_witness:
  "snd (GetAvailableModels (fst (GetAvailableModels witness_registry ''openai'' 30)) ''openai'' (400 * second)) =
   fst (buildAvailableModelsLocked (fst (GetAvailableModels witness_registry ''openai'' 30)) ''openai'' (400 * second))"
proof (rule available_models_current)
  have "registry_reach (apply_op (OpList ''openai'') 30 witness_registry) 30"
    using witness_reach by (rule reach_step) (rule registry_step.intros, simp_all)
  then show "registry_reach (fst (GetAvailableModels witness_registry ''openai'' 30)) 30" by simp
qed (simp add: second_def)

text \<open>The number of available clients of a model is the number of clients that list it and are
  neither suspended for it nor inside the quota window.\<close>

theorem GetModelCount_card:
  assumes "registry_reach r t" and "mget (rg_models r) m = Some reg"
  shows "GetModelCount r m now =
    card {c. \<exists>ids. mget (rg_client_models r) c = Some ids \<and> lists_model ids m \<and>
             mget (mr_suspended reg) c = None \<and>
             (\<forall>q. mget (mr_quota reg) c \<noteq> Some q \<or> q + modelQuotaExceededWindow \<le> now)}"
  using GetModelCount_eq [OF reach_ok [OF assms(1)] assms(2), of now]
  by (auto simp: client_blocked_def quota_blocks_def quota_until_def not_less intro!: arg_cong [of _ _ card]
      split: option.splits)

theorem GetModelCount_card_witness:
  "GetModelCount witness_registry ''m'' 40 = 1 \<and>
   (\<exists>reg. mget (rg_models witness_registry) ''m'' = Some reg \<and> GetModelCount witness_registry ''m'' 40 =
    card {c. \<exists>ids. mget (rg_client_models witness_registry) c = Some ids \<and> lists_model ids ''m'' \<and>
             mget (mr_suspended reg) c = None \<and>
             (\<forall>q. mget (mr_quota reg) c \<noteq> Some q \<or> q + modelQuotaExceededWindow \<le> 40)})"
proof
  show "GetModelCount witness_registry ''m'' 40 = 1" by code_simp
  have "mget (rg_models witness_registry) ''m'' \<noteq> None" by code_simp
  then obtain reg where "mget (rg_models witness_registry) ''m'' = Some reg" by auto
  then show "\<exists>reg. mget (rg_models witness_registry) ''m'' = Some reg \<and> GetModelCount witness_registry ''m'' 40 =
    card {c. \<exists>ids. mget (rg_client_models witness_registry) c = Some ids \<and> lists_model ids ''m'' \<and>
             mget (mr_suspended reg) c = None \<and>
             (\<forall>q. mget (mr_quota reg) c \<noteq> Some q \<or> q + modelQuotaExceededWindow \<le> 40)}"
    using GetModelCount_card [OF witness_reach] by blast
qed

text \<open>The providers of a model are exactly those with a client that lists it, each once, ordered
  by user-defined models first, then by the number of bindings downwards, then by name.\<close>

theorem GetModelProviders_sorted:
  assumes "registry_reach r t"
  shows "distinct (GetModelProviders r m) \<and>
    set (GetModelProviders r m) = {p. 0 < provider_bindings (rg_client_models r) (rg_client_providers r) m p} \<and>
    sorted_wrt (\<lambda>a b. provider_before (provider_rank r m a) (provider_rank r m b)) (GetModelProviders r m)"
proof (cases "mget (rg_models r) m")
  case None
  then show ?thesis
    using entry_counts [OF reach_ok [OF assms], of m] provider_bindings_zero
    by (simp add: GetModelProviders_def)
next
  case (Some reg)
  then have "mwf (mr_providers reg)"
    using reach_available [OF assms] models_inv_entry [of "rg_models r" m reg] by (simp add: reg_inv_def)
  from GetModelProviders_eq [OF Some this] show ?thesis
    by (simp add: counts_eq [OF reach_ok [OF assms]])
qed

theorem GetModelProviders_sorted_witness:
  "GetModelProviders witness_registry ''m'' = [''claude'', ''gemini''] \<and>
   sorted_wrt (\<lambda>a b. provider_before (provider_rank witness_registry ''m'' a) (provider_rank witness_registry ''m'' b))
     (GetModelProviders witness_registry ''m'')"
proof
  show "GetModelProviders witness_registry ''m'' = [''claude'', ''gemini'']" by code_simp
qed (use GetModelProviders_sorted [OF witness_reach, of "''m''"] in blast)

text \<open>Registering again clears the marks of the client on every model it lists, and publishes
  the metadata it brought, for the model and for its provider.\<close>

theorem reregister_fresh:
  assumes "registry_reach r t" and "mget (rg_client_models r) c = Some old"
    and "mi \<in> set (valid_models models)" and "find (\<lambda>x. mi_id x = mi_id mi) (valid_models models) = Some mi"
  shows "\<exists>reg. mget (rg_models (RegisterClient r c p models now)) (mi_id mi) = Some reg \<and>
    mget (mr_quota reg) c = None \<and> mget (mr_suspended reg) c = None \<and>
    GetModelInfo (RegisterClient r c p models now) (mi_id mi) (to_lower p) = Some mi"
proof -
  let ?raw = "map mi_id (valid_models models)" and ?nm = "first_models (valid_models models)"
  let ?r = "RegisterClient r c p models now" and ?op = "mget_or [] (rg_client_providers r) c"
  let ?ms = "add_missing (to_lower p) ?nm old ?raw now (remove_overage c ?op old ?raw now
     (remove_dropped c ?op old ?raw now (move_overlap ?op (to_lower p) old ?raw (rg_models r))))"
  have ne: "?raw \<noteq> []" "mi_id mi \<in> set ?raw" using assms(3) by auto
  have info: "infos_of ?nm (mi_id mi) = mi"
    using assms(4) by (simp add: infos_of_def first_models_def first_models_mget)
  have ok: "registry_ok ?r" using assms(1) by (intro register_ok reach_ok)
  have "0 < bindings (rg_client_models ?r) (mi_id mi)"
    using ne assms(1) count_list_0_iff [of ?raw "mi_id mi"] reach_ok [OF assms(1)]
    by (simp add: register_maps [OF reach_ok [OF assms(1)]] bindings_mput registry_ok_def)
  then obtain reg where g: "mget (rg_models ?r) (mi_id mi) = Some reg"
    using entry_counts [OF ok, of "mi_id mi"] by (auto split: option.splits)
  have "mget (rg_models ?r) (mi_id mi) =
      map_option (refresh_reg c (to_lower p) (?op \<noteq> to_lower p) mi
        (min (count_list ?raw (mi_id mi)) (count_list old (mi_id mi))) now) (mget ?ms (mi_id mi))"
    using ne assms(2) by (simp add: RegisterClient_def Let_def reconcile_models_def info
        mget_refresh_all [OF covers_first_models])
  then obtain reg0 where "reg = refresh_reg c (to_lower p) (?op \<noteq> to_lower p) mi
      (min (count_list ?raw (mi_id mi)) (count_list old (mi_id mi))) now reg0"
    using g by (cases "mget ?ms (mi_id mi)") auto
  then show ?thesis
    using g by (auto simp: refresh_reg_def Let_def GetModelInfo_def)
qed

theorem reregister_fresh_witness:
  "\<exists>reg. mget (rg_models (RegisterClient witness_registry ''a'' ''Gemini'' [Some (witness_model ''m'')] 40)) ''m'' = Some reg \<and>
    mget (mr_quota reg) ''a'' = None \<and> mget (mr_suspended reg) ''a'' = None \<and>
    GetModelInfo (RegisterClient witness_registry ''a'' ''Gemini'' [Some (witness_model ''m'')] 40) ''m'' (to_lower ''Gemini'')
      = Some (witness_model ''m'')"
proof -
  have i: "mi_id (witness_model ''m'') = ''m''" by (simp add: witness_model_def empty_model_info_def)
  have o: "mget (rg_client_models witness_registry) ''a'' = Some [''m'', ''n'']" by code_simp
  have v: "valid_models [Some (witness_model ''m'')] = [witness_model ''m'']" by (simp add: valid_models_def i)
  show ?thesis
    using reregister_fresh [OF witness_reach o, of "witness_model ''m''" "[Some (witness_model ''m'')]" "''Gemini''" 40]
    by (simp add: v i)
qed

text \<open>The list for Gemini handlers has no \<open>id\<close> entries, so the first available model of that
  handler type is never found: the call fails whatever is registered and however the maps are sorted.\<close>

theorem GetFirstAvailableModel_gemini:
  assumes "registry_reach r t" and "t \<le> now" and "\<And>lt xs. set (srt lt xs) = set xs"
  shows "\<exists>e. snd (GetFirstAvailableModel srt r ''gemini'' now) = Inl e"
proof -
  obtain r' models where g: "GetAvailableModels r ''gemini'' now = (r', models)" by fastforce
  then have "models = models_at r ''gemini'' now"
    using GetAvailableModels_result [OF assms(1,2), of "''gemini''"] by simp
  then have "mget m ''id'' = None" if "m \<in> set models" for m
    using that convert_gemini_no_id by (auto simp: models_at_def split: if_splits)
  then have "find (\<lambda>m. model_id_available r' now m \<noteq> None) (srt newer models) = None"
    using assms(3) by (auto simp: find_None_iff model_id_available_def)
  then show ?thesis using g by (auto simp: GetFirstAvailableModel_def)
qed

theorem GetFirstAvailableModel_gemini_witness:
  "GetModelCount witness_registry ''n'' 40 = 1 \<and>
   (\<exists>e. snd (GetFirstAvailableModel sort_slice witness_registry ''gemini'' 40) = Inl e)"
proof
  show "GetModelCount witness_registry ''n'' 40 = 1" by code_simp
  show "\<exists>e. snd (GetFirstAvailableModel sort_slice witness_registry ''gemini'' 40) = Inl e"
    by (rule GetFirstAvailableModel_gemini [OF witness_reach]) simp_all
qed


end
