(* ===== verification/Credential_Weight.thy ===== *)
theory Credential_Weight
  imports Prelude
begin

text \<open>
  Credential weights: \<open>internal/credentialweight/weight.go\<close>. A Go value of type \<open>any\<close> as
  it occurs in auth metadata is a \<open>meta_value\<close>; the signed integer types share one constructor
  (each converts to \<open>int64\<close> without loss) and so do the unsigned ones (the two narrow types the
  code does not test against \<open>Max\<close> cannot exceed it). A float is told apart only as far as the
  code looks: not a number, infinite, integral, or fractional with its integer part.
\<close>

section \<open>Values\<close>

datatype gofloat = FNaN | FInf | FInt int | FFrac int

datatype meta_value =
    MNil
  | MBool bool
  | MInt int
  | MUint nat
  | MFloat gofloat
  | MNumber string
  | MStr string
  | MBytes string
  | MStrs "string list"
  | MIdSet "string list"
  | MMap "(string \<times> meta_value) list"
  | MOther

section \<open>Parsing\<close>

definition DefaultWeight :: int where "DefaultWeight = 1"
definition MaxWeight :: int where "MaxWeight = 1000000"

datatype weight_error = WeightTooLarge | WeightNotInteger

definition Normalize :: "int \<Rightarrow> weight_error + int" where
  "Normalize weight =
     (if weight \<le> 0 then Inr 0 else if weight > MaxWeight then Inl WeightTooLarge else Inr weight)"

definition ParseString :: "string \<Rightarrow> weight_error + int" where
  "ParseString raw0 =
     (let raw = trim_space raw0 in
      if raw = [] then Inr DefaultWeight
      else case parse_int64 raw of None \<Rightarrow> Inl WeightNotInteger | Some w \<Rightarrow> Normalize w)"

definition ParseValue :: "meta_value \<Rightarrow> weight_error + int" where
  "ParseValue value =
     (case value of
        MInt i \<Rightarrow> Normalize i
      | MUint n \<Rightarrow> if int n > MaxWeight then Inl WeightTooLarge else Inr (int n)
      | MFloat f \<Rightarrow>
          (case f of FInt i \<Rightarrow> if i \<le> 0 then Inr 0 else if i > MaxWeight then Inl WeightTooLarge else Inr i
           | _ \<Rightarrow> Inl WeightNotInteger)
      | MNumber s \<Rightarrow> (case parse_int64 s of None \<Rightarrow> Inl WeightNotInteger | Some w \<Rightarrow> Normalize w)
      | MStr s \<Rightarrow> ParseString s
      | _ \<Rightarrow> Inl WeightNotInteger)"

section \<open>Decimal text\<close>

text \<open>\<open>strconv.FormatInt(n, 10)\<close>.\<close>

fun format_nat :: "nat \<Rightarrow> string" where
  "format_nat n = (if n < 10 then [char_of (48 + n)] else format_nat (n div 10) @ [char_of (48 + n mod 10)])"

declare format_nat.simps [simp del]

definition format_int :: "int \<Rightarrow> string" where
  "format_int i = (if i < 0 then CHR ''-'' # format_nat (nat (- i)) else format_nat (nat i))"

lemma of_char_digit: "(d :: nat) < 10 \<Longrightarrow> (of_char (char_of (48 + d) :: char) :: nat) = 48 + d"
  by simp

lemma is_digit_char: "(d :: nat) < 10 \<Longrightarrow> is_digit (char_of (48 + d))"
  by (simp add: is_digit_def of_char_digit)

lemma format_nat_digits: "list_all is_digit (format_nat n)"
proof (induction n rule: format_nat.induct)
  case (1 n)
  then show ?case
    by (subst format_nat.simps) (simp add: is_digit_char)
qed

lemma format_nat_ne: "format_nat n \<noteq> []"
  by (subst format_nat.simps) simp

lemma digits_val_snoc: "digits_val (s @ [c]) = 10 * digits_val s + (int (of_char c) - 48)"
  by (simp add: digits_val_def)

lemma digits_val_format: "digits_val (format_nat n) = int n"
proof (induction n rule: format_nat.induct)
  case (1 n)
  show ?case
  proof (cases "n < 10")
    case True
    then show ?thesis by (subst format_nat.simps) (simp add: digits_val_def of_char_digit)
  next
    case False
    then show ?thesis using 1
      by (subst format_nat.simps) (simp add: digits_val_snoc of_char_digit zdiv_int zmod_int)
  qed
qed

lemma digit_not_sign: "is_digit c \<Longrightarrow> c \<noteq> CHR ''-'' \<and> c \<noteq> CHR ''+'' \<and> \<not> is_space c"
  by (auto simp: is_digit_def is_space_def)

lemma parse_format_nat: "int64 (int n) \<Longrightarrow> parse_int64 (format_nat n) = Some (int n)"
proof -
  assume r: "int64 (int n)"
  have "is_digit (hd (format_nat n))"
    using format_nat_digits [of n] format_nat_ne [of n] by (simp add: list_all_iff)
  then have "hd (format_nat n) \<noteq> CHR ''-''" "hd (format_nat n) \<noteq> CHR ''+''"
    using digit_not_sign by blast+
  then show ?thesis
    using r format_nat_digits [of n] format_nat_ne [of n]
    by (simp add: parse_int64_def Let_def digits_val_format)
qed

lemma trim_space_id:
  assumes "s \<noteq> []" and "\<not> is_space (hd s)" and "\<not> is_space (last s)"
  shows "trim_space s = s"
  using assms by (simp add: trim_space_def trim_left_id hd_rev)

lemma trim_format_nat: "trim_space (format_nat n) = format_nat n"
proof (rule trim_space_id)
  show "format_nat n \<noteq> []" by (rule format_nat_ne)
  have d: "c \<in> set (format_nat n) \<Longrightarrow> \<not> is_space c" for c
    using format_nat_digits [of n] digit_not_sign by (auto simp: list_all_iff)
  show "\<not> is_space (hd (format_nat n))" "\<not> is_space (last (format_nat n))"
    using format_nat_ne [of n] by (auto dest: d [OF hd_in_set] d [OF last_in_set])
qed

section \<open>Range\<close>

lemma Normalize_range: "Normalize w = Inr v \<Longrightarrow> 0 \<le> v \<and> v \<le> MaxWeight"
  by (auto simp: Normalize_def MaxWeight_def split: if_splits)

lemma ParseString_range: "ParseString s = Inr v \<Longrightarrow> 0 \<le> v \<and> v \<le> MaxWeight"
  using Normalize_range
  by (auto simp: ParseString_def Let_def DefaultWeight_def MaxWeight_def split: if_splits option.splits)

lemma ParseValue_bounds: "ParseValue x = Inr v \<Longrightarrow> 0 \<le> v \<and> v \<le> MaxWeight"
  using Normalize_range ParseString_range
  by (auto simp: ParseValue_def MaxWeight_def split: meta_value.splits gofloat.splits option.splits if_splits)

lemma ParseString_format:
  assumes "0 \<le> v" and "v \<le> MaxWeight"
  shows "ParseString (format_int v) = Inr v"
proof -
  have "parse_int64 (format_nat (nat v)) = Some v"
    using assms parse_format_nat [of "nat v"] by (simp add: int64_def min_int64_def max_int64_def MaxWeight_def)
  then show ?thesis
    using assms by (auto simp: ParseString_def format_int_def trim_format_nat format_nat_ne Normalize_def)
qed

section \<open>Properties\<close>

text \<open>Whatever the type of the metadata value, an accepted weight lies between 0 and the
  maximum, so that the scheduler's sums stay small.\<close>

theorem ParseValue_range:
  assumes "ParseValue x = Inr v"
  shows "0 \<le> v \<and> v \<le> MaxWeight"
  using assms by (rule ParseValue_bounds)

theorem ParseValue_range_witness:
  "ParseValue (MFloat (FInt 250)) = Inr 250 \<and> 0 \<le> (250 :: int) \<and> 250 \<le> MaxWeight"
proof -
  have p: "ParseValue (MFloat (FInt 250)) = Inr 250" by (simp add: ParseValue_def MaxWeight_def)
  show ?thesis using p ParseValue_range [OF p] by simp
qed

text \<open>A weight that is accepted from metadata and written back as an attribute, in decimal,
  is read again as the same weight.\<close>

theorem weight_roundtrip:
  assumes "ParseValue x = Inr v"
  shows "ParseString (format_int v) = Inr v"
  using ParseValue_bounds [OF assms] by (simp add: ParseString_format)

theorem weight_roundtrip_witness:
  "ParseValue (MStr '' 7 '') = Inr 7 \<and> ParseString (format_int 7) = Inr 7"
proof -
  have p: "ParseValue (MStr '' 7 '') = Inr 7" by code_simp
  show ?thesis using p weight_roundtrip [OF p] by simp
qed

end
