(* ===== verification/Auth_State.thy ===== *)
theory Auth_State
  imports Credential_Weight Thinking
begin

text \<open>
  One credential and what its state says about it: \<open>sdk/cliproxy/auth/types.go\<close>,
  \<open>status.go\<close>, \<open>errors.go\<close>, \<open>classification.go\<close>, \<open>weight.go\<close> and, of
  \<open>selector.go\<close>, the functions that read a single credential: priority, weight, the websocket
  flag and whether it is blocked for a model. The fields of \<open>Auth\<close> that hold opaque Go values
  (\<open>Storage\<close>, \<open>Runtime\<close>) are left out. A status is a string, as in Go. The methods guard
  against a nil receiver; here the callers that may hold one pass an option.
\<close>

section \<open>Types\<close>

definition StatusUnknown :: string where "StatusUnknown = ''unknown''"
definition StatusActive :: string where "StatusActive = ''active''"
definition StatusPending :: string where "StatusPending = ''pending''"
definition StatusRefreshing :: string where "StatusRefreshing = ''refreshing''"
definition StatusError :: string where "StatusError = ''error''"
definition StatusDisabled :: string where "StatusDisabled = ''disabled''"

lemmas status_defs = StatusUnknown_def StatusActive_def StatusPending_def StatusRefreshing_def
  StatusError_def StatusDisabled_def

definition ErrorCodeRequestScoped :: string where "ErrorCodeRequestScoped = ''request_scoped''"
definition ErrorCodeConnectionLifecycle :: string where "ErrorCodeConnectionLifecycle = ''connection_lifecycle''"
definition ErrorCodeForceCooldown :: string where "ErrorCodeForceCooldown = ''force_cooldown''"

record Error =
  er_code :: string
  er_message :: string
  er_retryable :: bool
  er_http_status :: int

definition IsRequestScoped :: "Error option \<Rightarrow> bool" where
  "IsRequestScoped e = (case e of None \<Rightarrow> False | Some e \<Rightarrow> er_code e = ErrorCodeRequestScoped)"

definition MarkRequestScoped :: "Error \<Rightarrow> Error" where
  "MarkRequestScoped e = e\<lparr>er_code := ErrorCodeRequestScoped\<rparr>"

definition NewRequestScopedError :: "string \<Rightarrow> int \<Rightarrow> Error" where
  "NewRequestScopedError message httpStatus =
     \<lparr>er_code = ErrorCodeRequestScoped, er_message = message, er_retryable = False, er_http_status = httpStatus\<rparr>"

definition ErrorText :: "Error option \<Rightarrow> string" where
  "ErrorText e = (case e of None \<Rightarrow> []
     | Some e \<Rightarrow> if er_code e = [] then er_message e else er_code e @ '': '' @ er_message e)"

definition auth_error :: "string \<Rightarrow> string \<Rightarrow> Error" where
  "auth_error code message = \<lparr>er_code = code, er_message = message, er_retryable = False, er_http_status = 0\<rparr>"

record QuotaState =
  qs_exceeded :: bool
  qs_reason :: string
  qs_next_recover_at :: time
  qs_backoff_level :: int
  qs_observed_at :: time
  qs_signals :: "(string, string) gomap"

definition empty_quota :: QuotaState where
  "empty_quota = \<lparr>qs_exceeded = False, qs_reason = [], qs_next_recover_at = 0, qs_backoff_level = 0,
     qs_observed_at = 0, qs_signals = []\<rparr>"

record ModelState =
  ms_status :: string
  ms_status_message :: string
  ms_unavailable :: bool
  ms_next_retry_after :: time
  ms_last_error :: "Error option"
  ms_quota :: QuotaState
  ms_updated_at :: time

record recentRequestBucket =
  rb_bucket_id :: int
  rb_success :: int
  rb_failed :: int

definition recentRequestBucketSeconds :: int where "recentRequestBucketSeconds = 10 * 60"
definition recentRequestBucketCount :: nat where "recentRequestBucketCount = 20"

definition empty_ring :: "recentRequestBucket list" where
  "empty_ring = replicate recentRequestBucketCount \<lparr>rb_bucket_id = 0, rb_success = 0, rb_failed = 0\<rparr>"

record Auth =
  au_id :: string
  au_index :: string
  au_provider :: string
  au_route_channel :: string
  au_quota_domain :: string
  au_openai_compatibility_index :: "int option"
  au_prefix :: string
  au_file_name :: string
  au_label :: string
  au_status :: string
  au_status_message :: string
  au_disabled :: bool
  au_unavailable :: bool
  au_proxy_url :: string
  au_attributes :: "(string, string) gomap"
  au_metadata :: "(string, meta_value) gomap"
  au_quota :: QuotaState
  au_last_error :: "Error option"
  au_created_at :: time
  au_updated_at :: time
  au_last_refreshed_at :: time
  au_next_refresh_after :: time
  au_next_retry_after :: time
  au_model_states :: "(string, ModelState option) gomap"
  au_success :: int
  au_failed :: int
  au_recent_requests :: "recentRequestBucket list"
  au_index_assigned :: bool

definition empty_auth :: "string \<Rightarrow> Auth" where
  "empty_auth i =
     \<lparr>au_id = i, au_index = [], au_provider = [], au_route_channel = [], au_quota_domain = [],
      au_openai_compatibility_index = None, au_prefix = [], au_file_name = [], au_label = [],
      au_status = [], au_status_message = [], au_disabled = False, au_unavailable = False,
      au_proxy_url = [], au_attributes = [], au_metadata = [], au_quota = empty_quota,
      au_last_error = None, au_created_at = 0, au_updated_at = 0, au_last_refreshed_at = 0,
      au_next_refresh_after = 0, au_next_retry_after = 0, au_model_states = [], au_success = 0,
      au_failed = 0, au_recent_requests = empty_ring, au_index_assigned = False\<rparr>"

section \<open>Attributes and metadata\<close>

definition authAttribute :: "Auth \<Rightarrow> string \<Rightarrow> string" where
  "authAttribute a key = trim_space (mget_or [] (au_attributes a) key)"

definition authMetadataString :: "Auth \<Rightarrow> string \<Rightarrow> string" where
  "authMetadataString a key = (case mget (au_metadata a) key of Some (MStr s) \<Rightarrow> trim_space s | _ \<Rightarrow> [])"

definition AuthKindAPIKey :: string where "AuthKindAPIKey = ''apikey''"
definition AuthKindOAuth :: string where "AuthKindOAuth = ''oauth''"

definition normalizeAuthKind :: "string \<Rightarrow> string" where
  "normalizeAuthKind kind =
     (let k = to_lower (trim_space kind) in
      if k \<in> {AuthKindAPIKey, ''api_key'', ''api-key''} then AuthKindAPIKey
      else if k \<in> {AuthKindOAuth, ''oauth2''} then AuthKindOAuth
      else [])"

definition authHasOAuthMetadata :: "Auth \<Rightarrow> bool" where
  "authHasOAuthMetadata a \<longleftrightarrow>
     list_ex (\<lambda>key. authMetadataString a key \<noteq> [])
       [''access_token'', ''refresh_token'', ''id_token'', ''email'', ''token_type'', ''expires_at'', ''expired''] \<or>
     (case mget (au_metadata a) ''token'' of Some (MMap m) \<Rightarrow> m \<noteq> [] | _ \<Rightarrow> False)"

definition AuthKind :: "Auth \<Rightarrow> string" where
  "AuthKind a =
     (let k1 = normalizeAuthKind (authAttribute a ''auth_kind'');
          k2 = normalizeAuthKind (authMetadataString a ''auth_kind'')
      in if k1 \<noteq> [] then k1
         else if k2 \<noteq> [] then k2
         else if authAttribute a ''api_key'' \<noteq> [] then AuthKindAPIKey
         else if authHasOAuthMetadata a then AuthKindOAuth
         else [])"

definition normalizeAuthSourceKind :: "string \<Rightarrow> string" where
  "normalizeAuthSourceKind source =
     (let s = to_lower (trim_space source) in
      if s = ''config'' then ''config''
      else if s \<in> {''file'', ''filesystem''} then ''file''
      else if s = ''git'' then ''git''
      else if s \<in> {''memory'', ''runtime'', ''runtime_only''} then ''memory''
      else if s \<in> {''objectstore'', ''object-store''} then ''objectstore''
      else if s \<in> {''postgres'', ''postgresql'', ''database'', ''db''} then ''postgres''
      else [])"

definition AuthSourceKind :: "Auth \<Rightarrow> string" where
  "AuthSourceKind a =
     (let backend = normalizeAuthSourceKind (authAttribute a ''source_backend'');
          source = authAttribute a ''source''
      in if equal_fold (authAttribute a ''runtime_only'') ''true'' then ''memory''
         else if backend \<noteq> [] then backend
         else if source \<noteq> [] then
           (if has_prefix (to_lower source) ''config:'' then ''config''
            else if normalizeAuthSourceKind source \<noteq> [] then normalizeAuthSourceKind source
            else ''file'')
         else if authAttribute a ''path'' \<noteq> [] then ''file''
         else if trim_space (au_file_name a) \<noteq> [] then ''file''
         else [])"

definition parseBoolAny :: "meta_value \<Rightarrow> bool option" where
  "parseBoolAny v =
     (case v of
        MBool b \<Rightarrow> Some b
      | MStr s \<Rightarrow> if trim_space s = [] then None else parse_bool (trim_space s)
      | MFloat f \<Rightarrow> Some (f \<noteq> FInt 0)
      | MNumber s \<Rightarrow> map_option (\<lambda>i. i \<noteq> 0) (parse_int64 s)
      | _ \<Rightarrow> None)"

definition first_bool :: "(string, meta_value) gomap \<Rightarrow> string list \<Rightarrow> bool option" where
  "first_bool m keys =
     foldr (\<lambda>k rest. case mget m k of None \<Rightarrow> rest
        | Some v \<Rightarrow> (case parseBoolAny v of None \<Rightarrow> rest | Some b \<Rightarrow> Some b)) keys None"

definition DisableCoolingOverride :: "Auth \<Rightarrow> bool option" where
  "DisableCoolingOverride a = first_bool (au_metadata a) [''disable_cooling'', ''disable-cooling'']"

definition ToolPrefixDisabled :: "Auth \<Rightarrow> bool" where
  "ToolPrefixDisabled a =
     (first_bool (au_metadata a) [''tool_prefix_disabled'', ''tool-prefix-disabled''] = Some True)"

definition IsPluginVirtualAuth :: "Auth \<Rightarrow> bool" where
  "IsPluginVirtualAuth a \<longleftrightarrow> au_attributes a \<noteq> [] \<and> equal_fold (authAttribute a ''plugin_virtual'') ''true''"

section \<open>Priority, weight and model keys\<close>

definition authPriority :: "Auth \<Rightarrow> int" where
  "authPriority a =
     (let raw = trim_space (mget_or [] (au_attributes a) ''priority'') in
      if raw = [] then 0 else case parse_int64 raw of None \<Rightarrow> 0 | Some p \<Rightarrow> p)"

definition or_zero :: "weight_error + int \<Rightarrow> int" where
  "or_zero r = (case r of Inl e \<Rightarrow> 0 | Inr w \<Rightarrow> w)"

definition authWeight :: "Auth option \<Rightarrow> int" where
  "authWeight ao =
     (case ao of None \<Rightarrow> DefaultWeight
      | Some a \<Rightarrow>
          (case mget (au_attributes a) ''weight'' of
             Some raw \<Rightarrow>
               if trim_space raw \<noteq> [] then or_zero (ParseString raw)
               else (case mget (au_metadata a) ''weight'' of Some v \<Rightarrow> or_zero (ParseValue v) | None \<Rightarrow> DefaultWeight)
           | None \<Rightarrow>
               (case mget (au_metadata a) ''weight'' of Some v \<Rightarrow> or_zero (ParseValue v) | None \<Rightarrow> DefaultWeight)))"

datatype weight_source_error = InvalidAttributesWeight weight_error | InvalidMetadataWeight weight_error

definition ValidateAuthWeight :: "Auth option \<Rightarrow> weight_source_error option" where
  "ValidateAuthWeight ao =
     (case ao of None \<Rightarrow> None
      | Some a \<Rightarrow>
          (case map_option ParseString (mget (au_attributes a) ''weight'') of
             Some (Inl e) \<Rightarrow> Some (InvalidAttributesWeight e)
           | _ \<Rightarrow> (case map_option ParseValue (mget (au_metadata a) ''weight'') of
                    Some (Inl e) \<Rightarrow> Some (InvalidMetadataWeight e)
                  | _ \<Rightarrow> None)))"

definition ApplyAuthWeightMetadata ::
  "Auth \<Rightarrow> (string, meta_value) gomap \<Rightarrow> weight_source_error + Auth" where
  "ApplyAuthWeightMetadata a metadata =
     (case ValidateAuthWeight (Some a) of Some e \<Rightarrow> Inl e
      | None \<Rightarrow>
          (case mget metadata ''weight'' of None \<Rightarrow> Inr a
           | Some v \<Rightarrow>
              (case ParseValue v of Inl e \<Rightarrow> Inl (InvalidMetadataWeight e)
               | Inr w \<Rightarrow> Inr (a\<lparr>au_attributes := mput ''weight'' (format_int w) (au_attributes a)\<rparr>))))"

definition canonicalModelKey :: "string \<Rightarrow> string" where
  "canonicalModelKey model0 =
     (let model = trim_space model0; name = trim_space (sr_model_name (ParseSuffix model)) in
      if model = [] then [] else if name = [] then model else name)"

definition authWebsocketsEnabled :: "Auth option \<Rightarrow> bool" where
  "authWebsocketsEnabled ao =
     (case ao of None \<Rightarrow> False
      | Some a \<Rightarrow>
          let raw = trim_space (mget_or [] (au_attributes a) ''websockets'') in
          case (if raw \<noteq> [] then parse_bool raw else None) of
             Some b \<Rightarrow> b
           | None \<Rightarrow>
              (case mget (au_metadata a) ''websockets'' of
                 Some (MBool b) \<Rightarrow> b
               | Some (MStr s) \<Rightarrow> (case parse_bool (trim_space s) of Some b \<Rightarrow> b | None \<Rightarrow> False)
               | _ \<Rightarrow> False))"

section \<open>Availability\<close>

datatype blockReason = blockReasonNone | blockReasonCooldown | blockReasonDisabled | blockReasonOther

text \<open>The later of two instants that lie after \<open>now\<close>, 0 when neither does: the loop over the two
  candidates.\<close>

definition later_future :: "time \<Rightarrow> time \<Rightarrow> time \<Rightarrow> time" where
  "later_future now nxt candidate = (if now < candidate \<and> (nxt = 0 \<or> nxt < candidate) then candidate else nxt)"

definition availabilityBlock :: "bool \<Rightarrow> bool \<Rightarrow> time \<Rightarrow> time \<Rightarrow> time \<Rightarrow> bool \<times> blockReason \<times> time" where
  "availabilityBlock unavailable quotaExceeded nextRetryAfter nextRecoverAt now =
     (if \<not> unavailable \<and> \<not> quotaExceeded then (False, blockReasonNone, 0)
      else let nxt = foldl (later_future now) 0 [nextRetryAfter, nextRecoverAt] in
        if nxt \<noteq> 0 then (True, if quotaExceeded then blockReasonCooldown else blockReasonOther, nxt)
        else if nextRetryAfter \<noteq> 0 \<or> nextRecoverAt \<noteq> 0 then (False, blockReasonNone, 0)
        else (True, blockReasonOther, 0))"

definition state_block :: "ModelState \<Rightarrow> time \<Rightarrow> bool \<times> blockReason \<times> time" where
  "state_block s now = availabilityBlock (ms_unavailable s) (qs_exceeded (ms_quota s))
     (ms_next_retry_after s) (qs_next_recover_at (ms_quota s)) now"

text \<open>
  The loop over \<open>ModelStates\<close>. The accumulator is (matched, blocked, reason, next); the result is
  \<open>Inl\<close> for an early return and \<open>Inr\<close> for the accumulator at the end.
\<close>

fun scan_states ::
  "string \<Rightarrow> time \<Rightarrow> (string \<times> ModelState option) list \<Rightarrow> bool \<times> bool \<times> blockReason \<times> time \<Rightarrow>
   (bool \<times> blockReason \<times> time) + (bool \<times> bool \<times> blockReason \<times> time)" where
  "scan_states modelKey now [] acc = Inr acc"
| "scan_states modelKey now ((m, so) # rest) (matched, blocked, reason, nxt) =
     (case so of None \<Rightarrow> scan_states modelKey now rest (matched, blocked, reason, nxt)
      | Some s \<Rightarrow>
          if canonicalModelKey m \<noteq> modelKey then scan_states modelKey now rest (matched, blocked, reason, nxt)
          else if ms_status s = StatusDisabled then Inl (True, blockReasonDisabled, 0)
          else (case state_block s now of
              (False, _, _) \<Rightarrow> scan_states modelKey now rest (True, blocked, reason, nxt)
            | (True, r, n) \<Rightarrow>
                if n = 0 then Inl (True, r, 0)
                else if \<not> blocked \<or> nxt < n \<or> (n = nxt \<and> r = blockReasonCooldown)
                then scan_states modelKey now rest (True, True, r, n)
                else scan_states modelKey now rest (True, blocked, reason, nxt)))"

definition auth_block :: "Auth \<Rightarrow> time \<Rightarrow> bool \<times> blockReason \<times> time" where
  "auth_block a now = availabilityBlock (au_unavailable a) (qs_exceeded (au_quota a))
     (au_next_retry_after a) (qs_next_recover_at (au_quota a)) now"

definition credential_quota :: "Auth \<Rightarrow> time \<Rightarrow> bool" where
  "credential_quota a now \<longleftrightarrow> qs_exceeded (au_quota a) \<and> qs_reason (au_quota a) = ''credential_quota'' \<and>
     now < qs_next_recover_at (au_quota a)"

definition isAuthBlockedForModel :: "Auth option \<Rightarrow> string \<Rightarrow> time \<Rightarrow> bool \<times> blockReason \<times> time" where
  "isAuthBlockedForModel ao model now =
     (case ao of None \<Rightarrow> (True, blockReasonOther, 0)
      | Some a \<Rightarrow>
          if au_disabled a \<or> au_status a = StatusDisabled then (True, blockReasonDisabled, 0)
          else if credential_quota a now then (True, blockReasonCooldown, qs_next_recover_at (au_quota a))
          else if model \<noteq> [] \<and> au_model_states a \<noteq> [] then
            (case scan_states (canonicalModelKey model) now (au_model_states a) (False, False, blockReasonNone, 0) of
               Inl res \<Rightarrow> res
             | Inr (matched, blocked, reason, nxt) \<Rightarrow>
                 if matched then (blocked, reason, nxt) else (False, blockReasonNone, 0))
          else auth_block a now)"

record ModelAvailability =
  ma_blocked :: bool
  ma_quota_cooldown :: bool
  ma_recover_at :: time

definition AvailabilityForModel :: "Auth option \<Rightarrow> string \<Rightarrow> time \<Rightarrow> ModelAvailability" where
  "AvailabilityForModel a model now =
     (let (blocked, reason, nxt) = isAuthBlockedForModel a model now in
      \<lparr>ma_blocked = blocked, ma_quota_cooldown = (blocked \<and> reason = blockReasonCooldown), ma_recover_at = nxt\<rparr>)"

section \<open>Recent requests\<close>

definition recentRequestBucketID :: "time \<Rightarrow> int" where
  "recentRequestBucketID now = (if now = 0 then 0 else go_div (now div second) recentRequestBucketSeconds)"

definition recentRequestBucketIndex :: "int \<Rightarrow> nat" where
  "recentRequestBucketIndex bucketID = nat (bucketID mod int recentRequestBucketCount)"

definition recordRecentRequest :: "Auth \<Rightarrow> time \<Rightarrow> bool \<Rightarrow> Auth" where
  "recordRecentRequest a now success =
     (let bucketID = recentRequestBucketID now;
          idx = recentRequestBucketIndex bucketID;
          b0 = au_recent_requests a ! idx;
          b1 = (if rb_bucket_id b0 \<noteq> bucketID
                then \<lparr>rb_bucket_id = bucketID, rb_success = 0, rb_failed = 0\<rparr> else b0);
          b2 = (if success then b1\<lparr>rb_success := rb_success b1 + 1\<rparr> else b1\<lparr>rb_failed := rb_failed b1 + 1\<rparr>)
      in a\<lparr>au_recent_requests := (au_recent_requests a)[idx := b2]\<rparr>)"

text \<open>An entry of the snapshot: the bucket its label stands for, the successes and the failures.\<close>

definition RecentRequestsSnapshot :: "Auth \<Rightarrow> time \<Rightarrow> (int \<times> int \<times> int) list" where
  "RecentRequestsSnapshot a now =
     map (\<lambda>i. let bucketID = recentRequestBucketID now - int i;
                 b = au_recent_requests a ! recentRequestBucketIndex bucketID
             in if rb_bucket_id b = bucketID then (bucketID, rb_success b, rb_failed b) else (bucketID, 0, 0))
       (rev [0..<recentRequestBucketCount])"

section \<open>Facts on availability\<close>

lemma availabilityBlock_open:
  "availabilityBlock u q a b now = (True, r, 0) \<Longrightarrow> availabilityBlock u q a b t = (True, r, 0)"
  by (auto simp: availabilityBlock_def later_future_def Let_def split: if_splits)

lemma availabilityBlock_timed:
  assumes "availabilityBlock u q a b now = (True, r, n)" and "n \<noteq> 0"
  shows "now < n" "now \<le> t \<Longrightarrow> t < n \<Longrightarrow> availabilityBlock u q a b t = (True, r, n)"
    "n \<le> t \<Longrightarrow> \<not> fst (availabilityBlock u q a b t)"
  using assms by (auto simp: availabilityBlock_def later_future_def Let_def split: if_splits)

lemma availabilityBlock_free:
  "\<not> fst (availabilityBlock u q a b now) \<Longrightarrow> now \<le> t \<Longrightarrow> \<not> fst (availabilityBlock u q a b t)"
  by (auto simp: availabilityBlock_def later_future_def Let_def split: if_splits)

text \<open>The states of the loop that count: those of the model.\<close>

definition matching :: "string \<Rightarrow> (string \<times> ModelState option) list \<Rightarrow> ModelState list" where
  "matching key l = concat (map (\<lambda>(m, so). case so of None \<Rightarrow> []
     | Some s \<Rightarrow> if canonicalModelKey m = key then [s] else []) l)"

lemma matching_simps [simp]:
  "matching key [] = []"
  "matching key ((m, so) # l) = (case so of None \<Rightarrow> matching key l
     | Some s \<Rightarrow> if canonicalModelKey m = key then s # matching key l else matching key l)"
  by (auto simp: matching_def split: option.splits)

definition stops :: "time \<Rightarrow> ModelState \<Rightarrow> bool" where
  "stops now s \<longleftrightarrow> ms_status s = StatusDisabled \<or> fst (state_block s now)"

definition scan_blocked :: "(bool \<times> blockReason \<times> time) + (bool \<times> bool \<times> blockReason \<times> time) \<Rightarrow> bool" where
  "scan_blocked r = (case r of Inl (b, _, _) \<Rightarrow> b | Inr (_, b, _, _) \<Rightarrow> b)"

lemma scan_blocked_simps [simp]: "scan_blocked (Inl (b, x, y)) = b" "scan_blocked (Inr (m, b, x, y)) = b"
  by (simp_all add: scan_blocked_def)

lemma scan_blocked_iff:
  "scan_blocked (scan_states key now l (m, b, r, n)) \<longleftrightarrow> b \<or> (\<exists>s \<in> set (matching key l). stops now s)"
proof (induction l arbitrary: m b r n)
  case (Cons x l)
  show ?case
    by (cases x) (auto simp: Cons stops_def split: option.splits prod.splits bool.splits)
qed simp

lemma scan_matched:
  "scan_states key now l (m, b, r, n) = Inr (m', b', r', n') \<Longrightarrow> m' = (m \<or> matching key l \<noteq> [])"
proof (induction l arbitrary: m b r n)
  case (Cons x l)
  then show ?case
    by (cases x) (auto split: option.splits prod.splits bool.splits if_splits dest!: Cons.IH)
qed simp

lemma scan_next:
  assumes "scan_states key now l (m, b, r, n) = Inr (m', b', r', n')"
  shows "(b' \<longrightarrow> b \<and> n' = n \<or> (\<exists>s \<in> set (matching key l). \<exists>r. state_block s now = (True, r, n'))) \<and>
    (b \<longrightarrow> n \<le> n') \<and>
    (\<forall>s \<in> set (matching key l). ms_status s \<noteq> StatusDisabled \<and>
       (\<forall>r k. state_block s now = (True, r, k) \<longrightarrow> k \<noteq> 0 \<and> k \<le> n'))"
  using assms
proof (induction l arbitrary: m b r n)
  case (Cons x l)
  obtain i so where x: "x = (i, so)" by (cases x)
  show ?case
  proof (cases "\<exists>s. so = Some s \<and> canonicalModelKey i = key")
    case False
    then have "matching key (x # l) = matching key l" "scan_states key now (x # l) (m, b, r, n) = scan_states key now l (m, b, r, n)"
      by (auto simp: x split: option.splits)
    then show ?thesis using Cons by simp
  next
    case True
    then obtain s where s: "so = Some s" "canonicalModelKey i = key" by auto
    then have mt: "matching key (x # l) = s # matching key l" by (simp add: x)
    obtain bs rs ns where sb: "state_block s now = (bs, rs, ns)" by (cases "state_block s now")
    have nd: "ms_status s \<noteq> StatusDisabled" using Cons.prems s x by (auto split: if_splits)
    show ?thesis
    proof (cases bs)
      case False
      then have "scan_states key now l (True, b, r, n) = Inr (m', b', r', n')"
        using Cons.prems s x sb nd by simp
      from Cons.IH [OF this] show ?thesis using mt sb nd False by auto
    next
      case True
      then have nz: "ns \<noteq> 0" using Cons.prems s x sb nd by (auto split: if_splits)
      show ?thesis
      proof (cases "\<not> b \<or> n < ns \<or> (ns = n \<and> rs = blockReasonCooldown)")
        case upd: True
        then have "scan_states key now l (True, True, rs, ns) = Inr (m', b', r', n')"
          using Cons.prems s x sb nd True nz by auto
        from Cons.IH [OF this] show ?thesis using mt sb nd True nz upd by auto
      next
        case keep: False
        then have "scan_states key now l (True, b, r, n) = Inr (m', b', r', n')"
          using Cons.prems s x sb nd True nz by auto
        from Cons.IH [OF this] show ?thesis using mt sb nd True nz keep by auto
      qed
    qed
  qed
qed simp

text \<open>Blocked or not, without the order of the model states.\<close>

lemma isAuthBlocked_iff:
  "fst (isAuthBlockedForModel (Some a) model now) \<longleftrightarrow>
     au_disabled a \<or> au_status a = StatusDisabled \<or> credential_quota a now \<or>
     (if model \<noteq> [] \<and> au_model_states a \<noteq> []
      then \<exists>s \<in> set (matching (canonicalModelKey model) (au_model_states a)). stops now s
      else fst (auth_block a now))"
proof -
  let ?r = "scan_states (canonicalModelKey model) now (au_model_states a) (False, False, blockReasonNone, 0)"
  have s: "scan_blocked ?r \<longleftrightarrow> (\<exists>s \<in> set (matching (canonicalModelKey model) (au_model_states a)). stops now s)"
    by (simp add: scan_blocked_iff)
  show ?thesis
  proof (cases ?r)
    case (Inl x)
    then show ?thesis using s by (cases x) (auto simp: isAuthBlockedForModel_def scan_blocked_def)
  next
    case (Inr x)
    obtain m' b' r' n' where x: "x = (m', b', r', n')" by (cases x)
    have "m' = (matching (canonicalModelKey model) (au_model_states a) \<noteq> [])"
      using scan_matched Inr x by fastforce
    then show ?thesis using s Inr x by (auto simp: isAuthBlockedForModel_def scan_blocked_def)
  qed
qed

lemma scan_timed:
  assumes "scan_states key now l (False, False, blockReasonNone, 0) = Inr (m, True, r, n)"
  obtains s r' where "s \<in> set (matching key l)" "state_block s now = (True, r', n)" "n \<noteq> 0"
    "\<And>s r k. s \<in> set (matching key l) \<Longrightarrow> ms_status s \<noteq> StatusDisabled \<and>
        (state_block s now = (True, r, k) \<longrightarrow> k \<noteq> 0 \<and> k \<le> n)"
  using scan_next [OF assms] by (auto intro: that)

lemma stops_keep:
  assumes "state_block s now = (True, r, n)" and "n \<noteq> 0" and "now \<le> t" and "t < n"
  shows "stops t s"
  using availabilityBlock_timed(2) [of "ms_unavailable s" "qs_exceeded (ms_quota s)"
      "ms_next_retry_after s" "qs_next_recover_at (ms_quota s)" now r n t] assms
  by (simp add: stops_def state_block_def)

lemma stops_end:
  assumes "ms_status s \<noteq> StatusDisabled" and "now \<le> n"
    and "\<And>r k. state_block s now = (True, r, k) \<Longrightarrow> k \<noteq> 0 \<and> k \<le> n"
  shows "\<not> stops n s"
proof (cases "state_block s now")
  case (fields b r k)
  show ?thesis
  proof (cases b)
    case True
    then have "k \<noteq> 0" "k \<le> n" using fields assms(3) by auto
    then show ?thesis
      using availabilityBlock_timed(3) [of "ms_unavailable s" "qs_exceeded (ms_quota s)"
          "ms_next_retry_after s" "qs_next_recover_at (ms_quota s)" now r k n] fields True assms(1)
      by (simp add: stops_def state_block_def)
  next
    case False
    then show ?thesis
      using availabilityBlock_free [of "ms_unavailable s" "qs_exceeded (ms_quota s)"
          "ms_next_retry_after s" "qs_next_recover_at (ms_quota s)" now n] fields assms(1,2)
      by (simp add: stops_def state_block_def)
  qed
qed

text \<open>Where a timed block comes from.\<close>

lemma timed_cases:
  assumes "isAuthBlockedForModel (Some a) model now = (True, r, n)" and "n \<noteq> 0"
  obtains (quota) "credential_quota a now" "n = qs_next_recover_at (au_quota a)"
  | (auth) "\<not> au_disabled a" "au_status a \<noteq> StatusDisabled" "\<not> credential_quota a now"
      "\<not> (model \<noteq> [] \<and> au_model_states a \<noteq> [])" "auth_block a now = (True, r, n)"
  | (state) m where "\<not> au_disabled a" "au_status a \<noteq> StatusDisabled" "\<not> credential_quota a now"
      "model \<noteq> []" "au_model_states a \<noteq> []"
      "scan_states (canonicalModelKey model) now (au_model_states a) (False, False, blockReasonNone, 0) = Inr (m, True, r, n)"
proof -
  have early: "scan_states key now l acc = Inl (b, r', n') \<Longrightarrow> n' = 0" for key l acc b r' n'
    by (induction key now l acc rule: scan_states.induct) (auto split: option.splits if_splits prod.splits bool.splits)
  show thesis
    using assms by (auto simp: isAuthBlockedForModel_def split: if_splits sum.splits prod.splits
        dest: early intro: quota auth state)
qed

lemma blocked_until:
  assumes "isAuthBlockedForModel (Some a) model now = (True, r, n)" and "n \<noteq> 0"
    and "now \<le> t" and "t < n"
  shows "fst (isAuthBlockedForModel (Some a) model t)"
  using assms(1,2)
proof (cases rule: timed_cases)
  case quota
  then show ?thesis using assms by (simp add: isAuthBlocked_iff credential_quota_def)
next
  case auth
  then show ?thesis
    using availabilityBlock_timed(2) [of "au_unavailable a" "qs_exceeded (au_quota a)"
        "au_next_retry_after a" "qs_next_recover_at (au_quota a)" now r n t] assms
    by (auto simp: isAuthBlocked_iff auth_block_def)
next
  case (state m)
  from scan_timed [OF state(6)] obtain s r' where
    s: "s \<in> set (matching (canonicalModelKey model) (au_model_states a))" "state_block s now = (True, r', n)"
    by metis
  then have "stops t s" using stops_keep assms by blast
  then show ?thesis using s(1) state by (auto simp: isAuthBlocked_iff)
qed

lemma blocked_after:
  assumes "isAuthBlockedForModel (Some a) model now = (True, r, n)" and "n \<noteq> 0"
    and "\<not> credential_quota a now"
  shows "now < n \<and> \<not> fst (isAuthBlockedForModel (Some a) model n)"
  using assms(1,2)
proof (cases rule: timed_cases)
  case quota
  then show ?thesis using assms(3) by simp
next
  case auth
  note T = availabilityBlock_timed [of "au_unavailable a" "qs_exceeded (au_quota a)"
        "au_next_retry_after a" "qs_next_recover_at (au_quota a)" now r n]
  have lt: "now < n" using T(1) auth(5) assms(2) by (simp add: auth_block_def)
  then have "\<not> credential_quota a n" using auth(3) by (auto simp: credential_quota_def)
  then show ?thesis using T(3) [of n] auth lt assms(2) by (auto simp: isAuthBlocked_iff auth_block_def)
next
  case (state m)
  from scan_timed [OF state(6)] obtain s r' where
    s: "s \<in> set (matching (canonicalModelKey model) (au_model_states a))" "state_block s now = (True, r', n)"
      "\<And>s r k. s \<in> set (matching (canonicalModelKey model) (au_model_states a)) \<Longrightarrow> ms_status s \<noteq> StatusDisabled \<and>
        (state_block s now = (True, r, k) \<longrightarrow> k \<noteq> 0 \<and> k \<le> n)" by metis
  have lt: "now < n"
    using availabilityBlock_timed(1) s(2) assms(2) by (simp add: state_block_def)
  have "\<not> stops n s'" if "s' \<in> set (matching (canonicalModelKey model) (au_model_states a))" for s'
    using s(3) [OF that] lt by (intro stops_end [of s' now n]) auto
  moreover have "\<not> credential_quota a n" using state(3) lt by (auto simp: credential_quota_def)
  ultimately show ?thesis using state lt by (auto simp: isAuthBlocked_iff)
qed

section \<open>Facts on recent requests\<close>

text \<open>The specification: how many requests of a history fell into a bucket, by outcome.\<close>

definition hits :: "(time \<times> bool) list \<Rightarrow> int \<Rightarrow> bool \<Rightarrow> int" where
  "hits h b ok = int (length (filter (\<lambda>(t, o'). recentRequestBucketID t = b \<and> o' = ok) h))"

definition ring_shows :: "recentRequestBucket list \<Rightarrow> (time \<times> bool) list \<Rightarrow> int \<Rightarrow> bool" where
  "ring_shows rs h hi \<longleftrightarrow> length rs = 20 \<and> (\<forall>r \<in> set rs. rb_bucket_id r \<le> hi) \<and>
     (\<forall>x \<in> set h. recentRequestBucketID (fst x) \<le> hi) \<and>
     (\<forall>b \<ge> hi - 19. let r = rs ! recentRequestBucketIndex b in
        if rb_bucket_id r = b then rb_success r = hits h b True \<and> rb_failed r = hits h b False
        else hits h b True = 0 \<and> hits h b False = 0)"

lemma bucket_index_lt: "recentRequestBucketIndex b < 20"
  by (simp add: recentRequestBucketIndex_def recentRequestBucketCount_def nat_less_iff)

lemma bucket_index_inj:
  assumes "recentRequestBucketIndex b = recentRequestBucketIndex c" and "c - 20 < b" and "b \<le> c"
  shows "b = c"
proof -
  have "b mod 20 = c mod 20" using assms(1) by (simp add: recentRequestBucketIndex_def recentRequestBucketCount_def eq_nat_nat_iff)
  then have "(c - b) mod 20 = 0" by (simp add: mod_eq_dvd_iff [symmetric] mod_diff_cong)
  moreover have "0 \<le> c - b" "c - b < 20" using assms by auto
  ultimately show ?thesis by (simp add: mod_pos_pos_trivial)
qed

lemma bucket_mono: "0 < t \<Longrightarrow> t \<le> u \<Longrightarrow> recentRequestBucketID t \<le> recentRequestBucketID u"
  by (simp add: recentRequestBucketID_def second_def recentRequestBucketSeconds_def go_div_nonneg
      pos_imp_zdiv_nonneg_iff zdiv_mono1)

lemma ring_step:
  assumes "ring_shows (au_recent_requests a) h hi" and "hi \<le> recentRequestBucketID t"
  shows "ring_shows (au_recent_requests (recordRecentRequest a t ok)) (h @ [(t, ok)]) (recentRequestBucketID t)"
proof -
  let ?id = "recentRequestBucketID t" and ?rs = "au_recent_requests a"
  let ?rs' = "au_recent_requests (recordRecentRequest a t ok)"
  let ?i = "recentRequestBucketIndex ?id"
  have len: "length ?rs = 20" and hi: "\<forall>r \<in> set ?rs. rb_bucket_id r \<le> hi"
    and hist: "\<forall>x \<in> set h. recentRequestBucketID (fst x) \<le> hi"
    and win: "\<And>b. hi - 19 \<le> b \<Longrightarrow> let r = ?rs ! recentRequestBucketIndex b in
        if rb_bucket_id r = b then rb_success r = hits h b True \<and> rb_failed r = hits h b False
        else hits h b True = 0 \<and> hits h b False = 0"
    using assms(1) by (auto simp: ring_shows_def)
  obtain r' where r': "?rs' = ?rs[?i := r']" "rb_bucket_id r' = ?id"
    "rb_success r' = hits (h @ [(t, ok)]) ?id True" "rb_failed r' = hits (h @ [(t, ok)]) ?id False"
    using win [of ?id] assms(2)
    by (fastforce simp: recordRecentRequest_def Let_def hits_def split: if_splits)
  have "\<forall>r \<in> set ?rs'. rb_bucket_id r \<le> ?id"
    using hi r' assms(2) by (auto dest!: set_update_subset_insert [THEN subsetD])
  moreover have "let r = ?rs' ! recentRequestBucketIndex b in
        if rb_bucket_id r = b then rb_success r = hits (h @ [(t, ok)]) b True \<and> rb_failed r = hits (h @ [(t, ok)]) b False
        else hits (h @ [(t, ok)]) b True = 0 \<and> hits (h @ [(t, ok)]) b False = 0" if "?id - 19 \<le> b" for b
  proof (cases "b = ?id")
    case True
    then show ?thesis using r' len bucket_index_lt by simp
  next
    case False
    have same: "hits (h @ [(t, ok)]) b o' = hits h b o'" for o' using False by (simp add: hits_def)
    show ?thesis
    proof (cases "recentRequestBucketIndex b = ?i")
      case True
      then have "?id < b" using bucket_index_inj [of b ?id] False that by linarith
      then have "hits h b o' = 0" for o'
        using hist assms(2) by (fastforce simp: hits_def filter_empty_conv)
      then show ?thesis using True False r' len bucket_index_lt by (simp add: same)
    next
      case ne: False
      have "hi - 19 \<le> b" using that assms(2) by simp
      then show ?thesis using win [of b] r' ne by (simp add: same Let_def)
    qed
  qed
  ultimately show ?thesis using len hist assms(2) r' by (auto simp: ring_shows_def)
qed

lemma ring_history:
  assumes "au_recent_requests a = empty_ring" and "sorted (map fst h)" and "\<forall>x \<in> set h. 0 < fst x"
  shows "ring_shows (au_recent_requests (foldl (\<lambda>a (t, ok). recordRecentRequest a t ok) a h)) h
     (if h = [] then 0 else recentRequestBucketID (fst (last h)))"
  using assms(2,3)
proof (induction h rule: rev_induct)
  case Nil
  show ?case
    by (simp add: assms(1) ring_shows_def empty_ring_def recentRequestBucketCount_def hits_def Let_def bucket_index_lt)
next
  case (snoc x h)
  obtain t ok where x: "x = (t, ok)" by (cases x)
  have le: "(if h = [] then 0 else recentRequestBucketID (fst (last h))) \<le> recentRequestBucketID t"
  proof (cases "h = []")
    case True
    then show ?thesis using snoc.prems x
      by (simp add: recentRequestBucketID_def second_def recentRequestBucketSeconds_def go_div_nonneg pos_imp_zdiv_nonneg_iff)
  next
    case False
    then have "0 < fst (last h)" "fst (last h) \<le> t" using snoc.prems x by (auto simp: sorted_append)
    then show ?thesis using False bucket_mono by simp
  qed
  show ?case
    using ring_step [OF snoc.IH le, of ok] snoc.prems x by (simp add: sorted_append)
qed

section \<open>Properties\<close>

text \<open>A block with a recovery instant lasts at least until that instant: at every moment before
  it the credential stays blocked for the model.\<close>

theorem blocked_until_recovery:
  assumes "isAuthBlockedForModel (Some a) model now = (True, r, n)" and "n \<noteq> 0"
    and "now \<le> t" and "t < n"
  shows "fst (isAuthBlockedForModel (Some a) model t)"
  using assms by (rule blocked_until)

definition witness_model_state :: "time \<Rightarrow> ModelState" where
  "witness_model_state n = \<lparr>ms_status = StatusError, ms_status_message = [], ms_unavailable = True,
     ms_next_retry_after = n, ms_last_error = None,
     ms_quota = empty_quota\<lparr>qs_exceeded := True, qs_next_recover_at := n\<rparr>, ms_updated_at = 1\<rparr>"

definition witness_auth :: Auth where
  "witness_auth = (empty_auth ''a'')\<lparr>au_model_states :=
     [(''gpt-5'', Some (witness_model_state 100)), (''gpt-5(high)'', Some (witness_model_state 150)), (''o3'', None)]\<rparr>"

lemma witness_auth_block: "isAuthBlockedForModel (Some witness_auth) ''gpt-5(low)'' 50 = (True, blockReasonCooldown, 150)"
  by code_simp

theorem blocked_until_recovery_witness:
  "fst (isAuthBlockedForModel (Some witness_auth) ''gpt-5(low)'' 120)"
  by (rule blocked_until_recovery [OF witness_auth_block]) simp_all

text \<open>C38. At the announced recovery instant the credential is available again, unless the block was
  the credential-wide quota.\<close>

theorem free_at_recovery:
  assumes "isAuthBlockedForModel (Some a) model now = (True, r, n)" and "n \<noteq> 0"
    and "\<not> credential_quota a now"
  shows "now < n \<and> \<not> fst (isAuthBlockedForModel (Some a) model n)"
  using assms by (rule blocked_after)

theorem free_at_recovery_witness:
  "\<not> fst (isAuthBlockedForModel (Some witness_auth) ''gpt-5(low)'' 150)"
proof -
  have "\<not> credential_quota witness_auth 50" by code_simp
  with free_at_recovery [OF witness_auth_block] show ?thesis by simp
qed

text \<open>Under the credential-wide quota the announced instant is the end of that quota only: a
  model whose own cooldown lasts longer is still blocked then, so that \<open>RecoverAt\<close> is too early.\<close>

theorem credential_quota_recovers_early:
  assumes "\<not> au_disabled a" and "au_status a \<noteq> StatusDisabled" and "credential_quota a now" and "0 < now"
    and "model \<noteq> []" and "s \<in> set (matching (canonicalModelKey model) (au_model_states a))"
    and "ms_unavailable s" and "qs_next_recover_at (au_quota a) < ms_next_retry_after s"
  shows "ma_recover_at (AvailabilityForModel (Some a) model now) = qs_next_recover_at (au_quota a) \<and>
    ma_blocked (AvailabilityForModel (Some a) model (qs_next_recover_at (au_quota a)))"
proof -
  have "stops (qs_next_recover_at (au_quota a)) s"
    using assms(3,4,7,8) by (auto simp: stops_def credential_quota_def state_block_def availabilityBlock_def later_future_def Let_def)
  moreover have "au_model_states a \<noteq> []" using assms(6) by auto
  ultimately have "fst (isAuthBlockedForModel (Some a) model (qs_next_recover_at (au_quota a)))"
    using assms by (auto simp: isAuthBlocked_iff)
  then show ?thesis
    using assms(1-3) by (auto simp: AvailabilityForModel_def isAuthBlockedForModel_def split: prod.splits)
qed

theorem credential_quota_recovers_early_witness:
  "\<exists>a. ma_recover_at (AvailabilityForModel (Some a) ''gpt-5'' 50) = 60 \<and>
    ma_blocked (AvailabilityForModel (Some a) ''gpt-5'' 60)"
proof -
  let ?a = "witness_auth\<lparr>au_quota := empty_quota\<lparr>qs_exceeded := True, qs_reason := ''credential_quota'',
     qs_next_recover_at := 60\<rparr>\<rparr>"
  have q: "qs_next_recover_at (au_quota ?a) = 60" by simp
  have m: "witness_model_state 100 \<in> set (matching (canonicalModelKey ''gpt-5'') (au_model_states ?a))"
  proof -
    have "canonicalModelKey ''gpt-5'' = ''gpt-5''" by code_simp
    then show ?thesis by (simp add: witness_auth_def)
  qed
  have "ma_recover_at (AvailabilityForModel (Some ?a) ''gpt-5'' 50) = qs_next_recover_at (au_quota ?a) \<and>
    ma_blocked (AvailabilityForModel (Some ?a) ''gpt-5'' (qs_next_recover_at (au_quota ?a)))"
    by (rule credential_quota_recovers_early [OF _ _ _ _ _ m])
       (simp_all add: witness_auth_def empty_auth_def credential_quota_def witness_model_state_def status_defs)
  then show ?thesis unfolding q by blast
qed

text \<open>After any history of requests recorded in time order, the snapshot shows, for each of the
  last 20 ten-minute buckets, exactly the successes and failures that fell into it.\<close>

theorem recent_requests_exact:
  assumes "au_recent_requests a = empty_ring" and "sorted (map fst h)" and "\<forall>x \<in> set h. 0 < fst x \<and> fst x \<le> now"
    and "0 < now"
  shows "RecentRequestsSnapshot (foldl (\<lambda>a (t, ok). recordRecentRequest a t ok) a h) now =
    map (\<lambda>i. let b = recentRequestBucketID now - int i in (b, hits h b True, hits h b False)) (rev [0..<20])"
proof -
  let ?a = "foldl (\<lambda>a (t, ok). recordRecentRequest a t ok) a h"
  let ?hi = "if h = [] then 0 else recentRequestBucketID (fst (last h))"
  have "0 \<le> recentRequestBucketID now"
    using assms(4) by (simp add: recentRequestBucketID_def second_def recentRequestBucketSeconds_def
        go_div_nonneg pos_imp_zdiv_nonneg_iff)
  then have hi: "?hi \<le> recentRequestBucketID now"
    using assms(3) by (auto intro: bucket_mono)
  have "ring_shows (au_recent_requests ?a) h ?hi"
    using assms by (intro ring_history) auto
  then have "let r = au_recent_requests ?a ! recentRequestBucketIndex b in
        if rb_bucket_id r = b then rb_success r = hits h b True \<and> rb_failed r = hits h b False
        else hits h b True = 0 \<and> hits h b False = 0" if "?hi - 19 \<le> b" for b
    using that by (simp add: ring_shows_def)
  then show ?thesis
    unfolding RecentRequestsSnapshot_def recentRequestBucketCount_def
    using hi by (intro map_cong) (auto simp: Let_def)
qed

theorem recent_requests_exact_witness:
  "RecentRequestsSnapshot (foldl (\<lambda>a (t, ok). recordRecentRequest a t ok) (empty_auth ''a'')
      [(700 * second, True), (800 * second, False), (20000 * second, True)]) (20001 * second) =
    map (\<lambda>i. let b = recentRequestBucketID (20001 * second) - int i in
      (b, hits [(700 * second, True), (800 * second, False), (20000 * second, True)] b True,
          hits [(700 * second, True), (800 * second, False), (20000 * second, True)] b False)) (rev [0..<20])"
  by (rule recent_requests_exact) (simp_all add: second_def empty_auth_def)


end
