(* ===== verification/Selectors.thy ===== *)
theory Selectors
  imports Auth_State
begin

text \<open>
  Credential selection of \<open>sdk/cliproxy/auth/selector.go\<close>: the candidates that can serve a
  request, and the three strategies that pick one of them, round robin, smooth weighted round robin
  and fill first. A strategy is a function from its state, the request and the candidate list (nil
  entries included) to the new state and the result; the mutex makes a call one step. What the
  strategies promise is the locale \<open>selector\<close>, which the session-affinity selector relies on.

  Of the request the model holds what a pick reads: provider, model, the excluded credentials, the
  clock, whether the downstream connection is a websocket, and the route model of the context.
\<close>

section \<open>Requests and errors\<close>

record pick_request =
  rq_provider :: string
  rq_model :: string
  rq_excluded :: "string list"
  rq_now :: time
  rq_websocket :: bool
  rq_route_model :: string

datatype pick_error =
    AuthError Error
  | ModelCooldownError string string duration

definition newModelCooldownError :: "string \<Rightarrow> string \<Rightarrow> duration \<Rightarrow> pick_error" where
  "newModelCooldownError model provider resetIn = ModelCooldownError model provider (if resetIn < 0 then 0 else resetIn)"

text \<open>\<open>extractExcludedAuthIDs\<close>: the two types the metadata entry may have.\<close>

definition extractExcludedAuthIDs :: "(string, meta_value) gomap \<Rightarrow> string list" where
  "extractExcludedAuthIDs meta =
     (case mget meta ''request_excluded_auth_ids'' of
        Some (MIdSet ids) \<Rightarrow> ids | Some (MStrs ids) \<Rightarrow> ids | _ \<Rightarrow> [])"

definition weightedSelectorStateModel :: "string \<Rightarrow> string \<Rightarrow> string" where
  "weightedSelectorStateModel routeModel availabilityModel =
     (if trim_space routeModel \<noteq> [] then routeModel else availabilityModel)"

definition preferCodexWebsocketAuths :: "bool \<Rightarrow> string \<Rightarrow> Auth list \<Rightarrow> Auth list" where
  "preferCodexWebsocketAuths websocket provider available =
     (if available = [] \<or> \<not> websocket \<or> \<not> equal_fold (trim_space provider) ''codex'' then available
      else let wsEnabled = filter (\<lambda>a. authWebsocketsEnabled (Some a)) available in
        if wsEnabled \<noteq> [] then wsEnabled else available)"

section \<open>Available candidates\<close>

definition collect_step ::
  "string \<Rightarrow> time \<Rightarrow> string list \<Rightarrow> (int, Auth list) gomap \<times> nat \<times> nat \<times> time \<Rightarrow> Auth option \<Rightarrow>
   (int, Auth list) gomap \<times> nat \<times> nat \<times> time" where
  "collect_step model now excluded acc candidate =
     (let (available, cooldownCount, eligibleCount, earliest) = acc in
      case candidate of None \<Rightarrow> acc
      | Some a \<Rightarrow>
          if au_id a \<in> set excluded then acc
          else (case isAuthBlockedForModel (Some a) model now of (blocked, reason, nxt) \<Rightarrow>
            if \<not> blocked then
              (mput (authPriority a) (mget_or [] available (authPriority a) @ [a]) available,
               cooldownCount, eligibleCount + 1, earliest)
            else if reason = blockReasonCooldown then
              (available, cooldownCount + 1, eligibleCount + 1,
               if nxt \<noteq> 0 \<and> (earliest = 0 \<or> nxt < earliest) then nxt else earliest)
            else (available, cooldownCount, eligibleCount + 1, earliest)))"

definition collectAvailableByPriority ::
  "Auth option list \<Rightarrow> string \<Rightarrow> time \<Rightarrow> string list \<Rightarrow> (int, Auth list) gomap \<times> nat \<times> nat \<times> time" where
  "collectAvailableByPriority auths model now excluded =
     foldl (collect_step model now excluded) ([], 0, 0, 0) auths"

definition best_of :: "int option \<Rightarrow> int \<Rightarrow> int option" where
  "best_of best p = (case best of None \<Rightarrow> Some p | Some b \<Rightarrow> if p > b then Some p else Some b)"

definition availableAuthsFromPriorityBuckets :: "(int, Auth list) gomap \<Rightarrow> bool \<Rightarrow> Auth list" where
  "availableAuthsFromPriorityBuckets buckets allPriorities =
     sort_slice (\<lambda>a b. au_id a < au_id b)
       (if allPriorities then concat (map snd buckets)
        else case foldl best_of None (map fst buckets) of None \<Rightarrow> [] | Some best \<Rightarrow> mget_or [] buckets best)"

definition getAvailableAuthsWithPriorityMode ::
  "Auth option list \<Rightarrow> string \<Rightarrow> string \<Rightarrow> time \<Rightarrow> bool \<Rightarrow> string list \<Rightarrow> pick_error + Auth list" where
  "getAvailableAuthsWithPriorityMode auths provider model now allPriorities excluded =
     (if auths = [] then Inl (AuthError (auth_error ''auth_not_found'' ''no auth candidates''))
      else let (buckets, cooldownCount, eligibleCount, earliest) = collectAvailableByPriority auths model now excluded in
        if buckets = [] then
          (if eligibleCount > 0 \<and> cooldownCount = eligibleCount \<and> earliest \<noteq> 0
           then Inl (newModelCooldownError model (if provider = ''mixed'' then [] else provider) (max 0 (time_sub earliest now)))
           else Inl (AuthError (auth_error ''auth_unavailable'' ''no auth available'')))
        else Inr (availableAuthsFromPriorityBuckets buckets allPriorities))"

definition getAvailableAuths ::
  "Auth option list \<Rightarrow> string \<Rightarrow> string \<Rightarrow> time \<Rightarrow> string list \<Rightarrow> pick_error + Auth list" where
  "getAvailableAuths auths provider model now excluded =
     getAvailableAuthsWithPriorityMode auths provider model now False excluded"

definition getAvailableAuthsAcrossPriorities ::
  "Auth option list \<Rightarrow> string \<Rightarrow> string \<Rightarrow> time \<Rightarrow> string list \<Rightarrow> pick_error + Auth list" where
  "getAvailableAuthsAcrossPriorities auths provider model now excluded =
     getAvailableAuthsWithPriorityMode auths provider model now True excluded"

text \<open>The loop's \<open>(bestPriority, bestCount)\<close>; a count of 0 is "nothing seen".\<close>

definition best_count :: "int \<times> nat \<Rightarrow> Auth \<Rightarrow> int \<times> nat" where
  "best_count acc a =
     (let (bestPriority, bestCount) = acc; p = authPriority a in
      if bestCount = 0 \<or> p > bestPriority then (p, 1)
      else if p = bestPriority then (bestPriority, bestCount + 1)
      else acc)"

definition highestPriorityAuths :: "Auth list \<Rightarrow> Auth list" where
  "highestPriorityAuths auths =
     (if length auths \<le> 1 then auths
      else let (bestPriority, bestCount) = foldl best_count (0, 0) auths in
        if bestCount = length auths then auths
        else filter (\<lambda>a. authPriority a = bestPriority) auths)"

definition positiveWeightAuths :: "Auth option list \<Rightarrow> Auth option list" where
  "positiveWeightAuths auths = filter (\<lambda>a. authWeight a > 0) auths"

section \<open>Round robin\<close>

text \<open>\<open>sort.Search\<close>: the binary search of the standard library.\<close>

function search_from :: "(nat \<Rightarrow> bool) \<Rightarrow> nat \<Rightarrow> nat \<Rightarrow> nat" where
  "search_from f i j =
     (if i < j then let h = (i + j) div 2 in if f h then search_from f i h else search_from f (h + 1) j else i)"
  by pat_completeness auto
termination by (relation "measure (\<lambda>(f, i, j). j - i)") auto

declare search_from.simps [simp del]

definition successorIndex :: "Auth list \<Rightarrow> string \<Rightarrow> nat" where
  "successorIndex available lastID =
     (if lastID = [] then 0
      else let i = search_from (\<lambda>i. lastID < au_id (available ! i)) 0 (length available) in
        if i \<ge> length available then 0 else i)"

record RoundRobinSelector =
  rr_last_picked :: "(string, string) gomap"
  rr_max_keys :: int

definition key_limit :: "int \<Rightarrow> int" where
  "key_limit maxKeys = (if maxKeys \<le> 0 then 4096 else maxKeys)"

definition ensureRotationKey :: "string \<Rightarrow> int \<Rightarrow> (string, string) gomap \<Rightarrow> (string, string) gomap" where
  "ensureRotationKey key limit m = (if mget m key = None \<and> int (length m) \<ge> limit then [] else m)"

definition RoundRobinPick ::
  "RoundRobinSelector \<Rightarrow> pick_request \<Rightarrow> Auth option list \<Rightarrow> RoundRobinSelector \<times> (pick_error + Auth)" where
  "RoundRobinPick s q auths =
     (case getAvailableAuths auths (rq_provider q) (rq_model q) (rq_now q) (rq_excluded q) of
        Inl e \<Rightarrow> (s, Inl e)
      | Inr available0 \<Rightarrow>
          let available = preferCodexWebsocketAuths (rq_websocket q) (rq_provider q) available0;
              key = rq_provider q @ '':'' @ canonicalModelKey (rq_model q);
              m = ensureRotationKey key (key_limit (rr_max_keys s)) (rr_last_picked s);
              picked = available ! successorIndex available (mget_or [] m key)
          in (s\<lparr>rr_last_picked := mput key (au_id picked) m\<rparr>, Inr picked))"

section \<open>Smooth weighted round robin\<close>

record smoothWeightedState =
  sw_current :: "(string, int) gomap"
  sw_weights :: "(string, int) gomap"

definition maxSmoothWeightedStateEntries :: nat where "maxSmoothWeightedStateEntries = 1024"

definition saturatingAddInt64 :: "int \<Rightarrow> int \<Rightarrow> int" where
  "saturatingAddInt64 v delta =
     (if delta > 0 \<and> v > max_int64 - delta then max_int64
      else if delta < 0 \<and> v < min_int64 - delta then min_int64
      else v + delta)"

definition weightsConfigChanged :: "(string, int) gomap \<Rightarrow> (string, int) gomap \<Rightarrow> bool" where
  "weightsConfigChanged left right =
     list_ex (\<lambda>(i, w). case mget left i of None \<Rightarrow> False | Some w' \<Rightarrow> w' \<noteq> w) right"

definition pruneStale :: "(string, int) gomap \<Rightarrow> smoothWeightedState \<Rightarrow> smoothWeightedState" where
  "pruneStale weights s =
     (if length (sw_current s) \<le> maxSmoothWeightedStateEntries \<and>
         length (sw_weights s) \<le> maxSmoothWeightedStateEntries then s
      else s\<lparr>sw_current := filter (\<lambda>(i, _). mget weights i \<noteq> None) (sw_current s),
             sw_weights := filter (\<lambda>(i, _). mget weights i \<noteq> None) (sw_weights s)\<rparr>)"

definition prepare :: "(string, int) gomap \<Rightarrow> smoothWeightedState \<Rightarrow> smoothWeightedState" where
  "prepare weights s =
     pruneStale weights
       \<lparr>sw_current = (if weightsConfigChanged (sw_weights s) weights then [] else sw_current s),
        sw_weights = foldl (\<lambda>m (i, w). mput i w m) (sw_weights s) weights\<rparr>"

definition authWeightVector :: "Auth list \<Rightarrow> (string, int) gomap" where
  "authWeightVector auths =
     foldl (\<lambda>m a. if authWeight (Some a) > 0 then mput (au_id a) (authWeight (Some a)) m else m) [] auths"

text \<open>The loop state: the best candidate with its credit, the total weight and the credits.\<close>

type_synonym smooth_acc = "(Auth \<times> int) option \<times> int \<times> (string, int) gomap"

definition smooth_step :: "smooth_acc \<Rightarrow> Auth \<Rightarrow> smooth_acc" where
  "smooth_step acc a =
     (let (best, totalWeight, current) = acc; w = authWeight (Some a) in
      if w \<le> 0 then acc
      else let credit = saturatingAddInt64 (mget_or 0 current (au_id a)) w in
        (case best of None \<Rightarrow> Some (a, credit)
         | Some (_, b) \<Rightarrow> if credit > b then Some (a, credit) else best,
         saturatingAddInt64 totalWeight w,
         mput (au_id a) credit current))"

definition pickSmoothWeightedAuth ::
  "Auth list \<Rightarrow> (string, int) gomap \<Rightarrow> Auth option \<times> (string, int) gomap" where
  "pickSmoothWeightedAuth auths current0 =
     (case foldl smooth_step (None, 0, current0) auths of
        (None, _, current) \<Rightarrow> (None, current)
      | (Some (p, _), totalWeight, current) \<Rightarrow>
          (Some p, mput (au_id p) (saturatingAddInt64 (mget_or 0 current (au_id p)) (- totalWeight)) current))"

record WeightedRoundRobinSelector =
  wr_states :: "(string, smoothWeightedState) gomap"
  wr_max_keys :: int

definition WeightedPick ::
  "WeightedRoundRobinSelector \<Rightarrow> pick_request \<Rightarrow> Auth option list \<Rightarrow> WeightedRoundRobinSelector \<times> (pick_error + Auth)" where
  "WeightedPick s q auths =
     (case getAvailableAuths (positiveWeightAuths auths) (rq_provider q) (rq_model q) (rq_now q) (rq_excluded q) of
        Inl e \<Rightarrow> (s, Inl e)
      | Inr available0 \<Rightarrow>
          let available = preferCodexWebsocketAuths (rq_websocket q) (rq_provider q) available0;
              key = rq_provider q @ '':'' @ canonicalModelKey (weightedSelectorStateModel (rq_route_model q) (rq_model q));
              states = (if mget (wr_states s) key = None \<and> int (length (wr_states s)) \<ge> key_limit (wr_max_keys s)
                        then [] else wr_states s);
              st0 = mget_or \<lparr>sw_current = [], sw_weights = []\<rparr> states key;
              st1 = prepare (authWeightVector available) st0;
              (picked, current) = pickSmoothWeightedAuth available (sw_current st1);
              s' = s\<lparr>wr_states := mput key (st1\<lparr>sw_current := current\<rparr>) states\<rparr>
          in (s', case picked of
                None \<Rightarrow> Inl (AuthError (auth_error ''auth_unavailable'' ''no auth available with positive weight''))
              | Some a \<Rightarrow> Inr a))"

section \<open>Fill first\<close>

definition FillFirstPick ::
  "unit \<Rightarrow> pick_request \<Rightarrow> Auth option list \<Rightarrow> unit \<times> (pick_error + Auth)" where
  "FillFirstPick s q auths =
     (s, case getAvailableAuths auths (rq_provider q) (rq_model q) (rq_now q) (rq_excluded q) of
           Inl e \<Rightarrow> Inl e
         | Inr available \<Rightarrow> Inr (preferCodexWebsocketAuths (rq_websocket q) (rq_provider q) available ! 0))"

section \<open>The candidates\<close>

definition request_ok :: "string \<Rightarrow> time \<Rightarrow> string list \<Rightarrow> Auth \<Rightarrow> bool" where
  "request_ok model now excluded a \<longleftrightarrow> au_id a \<notin> set excluded \<and> \<not> fst (isAuthBlockedForModel (Some a) model now)"

definition somes :: "'a option list \<Rightarrow> 'a list" where
  "somes xs = concat (map (\<lambda>x. case x of None \<Rightarrow> [] | Some a \<Rightarrow> [a]) xs)"

lemma somes_simps [simp]: "somes [] = []" "somes (None # xs) = somes xs" "somes (Some a # xs) = a # somes xs"
  "somes (xs @ ys) = somes xs @ somes ys"
  by (simp_all add: somes_def)

lemma set_somes: "a \<in> set (somes xs) \<longleftrightarrow> Some a \<in> set xs"
  by (induction xs) (auto simp: somes_def split: option.splits)

definition candidates :: "string \<Rightarrow> time \<Rightarrow> string list \<Rightarrow> Auth option list \<Rightarrow> Auth list" where
  "candidates model now excluded as = filter (request_ok model now excluded) (somes as)"

lemma set_candidates:
  "a \<in> set (candidates model now excluded as) \<longleftrightarrow> Some a \<in> set as \<and> request_ok model now excluded a"
  by (simp add: candidates_def set_somes)

lemma candidates_snoc:
  "candidates model now excluded (as @ [x]) = candidates model now excluded as @
     (case x of None \<Rightarrow> [] | Some a \<Rightarrow> if request_ok model now excluded a then [a] else [])"
  by (auto simp: candidates_def split: option.splits)

text \<open>What the collection loop leaves: one bucket per priority that has a candidate.\<close>

definition buckets_of :: "(int, Auth list) gomap \<Rightarrow> Auth list \<Rightarrow> bool" where
  "buckets_of b cs \<longleftrightarrow> mwf b \<and> (\<forall>p. mget b p =
     (let l = filter (\<lambda>a. authPriority a = p) cs in if l = [] then None else Some l))"

lemma collect_buckets:
  "buckets_of (fst (collectAvailableByPriority as model now excluded)) (candidates model now excluded as)"
proof (induction as rule: rev_induct)
  case Nil
  then show ?case by (simp add: collectAvailableByPriority_def buckets_of_def candidates_def)
next
  case (snoc x as)
  obtain b cd el er where c: "collectAvailableByPriority as model now excluded = (b, cd, el, er)"
    by (cases "collectAvailableByPriority as model now excluded")
  then have f: "collectAvailableByPriority (as @ [x]) model now excluded = collect_step model now excluded (b, cd, el, er) x"
    by (simp add: collectAvailableByPriority_def)
  have IH: "buckets_of b (candidates model now excluded as)" using snoc c by simp
  show ?case
  proof (cases "\<exists>a. x = Some a \<and> request_ok model now excluded a")
    case True
    then obtain a where a: "x = Some a" "request_ok model now excluded a" by auto
    then have "fst (collect_step model now excluded (b, cd, el, er) x)
        = mput (authPriority a) (mget_or [] b (authPriority a) @ [a]) b"
      by (auto simp: collect_step_def request_ok_def split: prod.splits)
    then show ?thesis using IH a f
      by (auto simp: buckets_of_def candidates_snoc mget_or_def Let_def)
  next
    case False
    then have "fst (collect_step model now excluded (b, cd, el, er) x) = b"
      by (auto simp: collect_step_def request_ok_def split: prod.splits option.splits)
    moreover have "candidates model now excluded (as @ [x]) = candidates model now excluded as"
      using False by (auto simp: candidates_snoc split: option.splits)
    ultimately show ?thesis using IH f by simp
  qed
qed

lemma buckets_Nil: "buckets_of b cs \<Longrightarrow> b = [] \<longleftrightarrow> cs = []"
proof -
  assume b: "buckets_of b cs"
  show ?thesis
  proof (cases cs)
    case Nil
    then have "mget b k = None" for k using b by (simp add: buckets_of_def)
    then have "k \<notin> set (map fst b)" for k by (simp add: mget_None_iff)
    then have "map fst b = []" by (metis ex_in_conv set_empty)
    then show ?thesis using Nil by simp
  next
    case (Cons a cs')
    then have "mget b (authPriority a) \<noteq> None" using b by (simp add: buckets_of_def Let_def)
    then show ?thesis using Cons by auto
  qed
qed

lemma best_of_fold:
  "foldl best_of (Some p) ps = Some (foldl max p ps)"
  by (induction ps arbitrary: p) (auto simp: best_of_def max_def)

lemma foldl_max: "p \<le> foldl max p ps \<and> (\<forall>q \<in> set ps. q \<le> foldl max p ps) \<and> foldl max (p :: int) ps \<in> insert p (set ps)"
proof (induction ps arbitrary: p)
  case (Cons a ps)
  have "max p a \<le> foldl max (max p a) ps" using Cons.IH by blast
  then show ?case using Cons.IH [of "max p a"] by (auto simp: max_def split: if_splits)
qed simp

lemma best_of_max:
  assumes "ps \<noteq> []"
  obtains m where "foldl best_of None ps = Some m" "m \<in> set ps" "\<And>q. q \<in> set ps \<Longrightarrow> q \<le> m"
proof (cases ps)
  case Nil
  then show ?thesis using assms by simp
next
  case (Cons p qs)
  then have "foldl best_of None ps = Some (foldl max p qs)"
    by (simp add: best_of_fold) (simp add: best_of_def best_of_fold)
  then show ?thesis using that foldl_max [of p qs] Cons by auto
qed

definition top_candidates :: "Auth list \<Rightarrow> Auth list" where
  "top_candidates cs = filter (\<lambda>a. \<forall>b \<in> set cs. authPriority b \<le> authPriority a) cs"

lemma bucket_sets:
  assumes "buckets_of b cs"
  shows "set (availableAuthsFromPriorityBuckets b True) = set cs"
    "availableAuthsFromPriorityBuckets b False = sort_slice (\<lambda>a b. au_id a < au_id b) (top_candidates cs)"
proof -
  have m: "\<And>p l. mget b p = Some l \<longleftrightarrow> l = filter (\<lambda>a. authPriority a = p) cs \<and> l \<noteq> []"
    using assms by (auto simp: buckets_of_def Let_def)
  have wf: "mwf b" using assms by (simp add: buckets_of_def)
  show "set (availableAuthsFromPriorityBuckets b True) = set cs"
  proof (rule set_eqI)
    fix a
    have "a \<in> set (availableAuthsFromPriorityBuckets b True) \<longleftrightarrow> (\<exists>p l. mget b p = Some l \<and> a \<in> set l)"
      using wf by (force simp: availableAuthsFromPriorityBuckets_def)
    then show "a \<in> set (availableAuthsFromPriorityBuckets b True) \<longleftrightarrow> a \<in> set cs"
      unfolding m by (auto simp: filter_empty_conv)
  qed
  show "availableAuthsFromPriorityBuckets b False = sort_slice (\<lambda>a b. au_id a < au_id b) (top_candidates cs)"
  proof (cases "b = []")
    case True
    then show ?thesis using buckets_Nil [OF assms]
      by (simp add: availableAuthsFromPriorityBuckets_def top_candidates_def)
  next
    case False
    then obtain p where p: "foldl best_of None (map fst b) = Some p" "p \<in> set (map fst b)"
      "\<And>q. q \<in> set (map fst b) \<Longrightarrow> q \<le> p" by (metis best_of_max list.map_disc_iff)
    obtain l where l: "mget b p = Some l" using p(2) mget_None_iff [of b p] by auto
    have le: "authPriority a \<le> p" if "a \<in> set cs" for a
    proof -
      have "filter (\<lambda>x. authPriority x = authPriority a) cs \<noteq> []" using that by (auto simp: filter_empty_conv)
      then have "mget b (authPriority a) \<noteq> None" using m [of "authPriority a"] by simp
      then have "authPriority a \<in> set (map fst b)" by (simp add: mget_None_iff)
      then show ?thesis by (rule p(3))
    qed
    have "top_candidates cs = filter (\<lambda>a. authPriority a = p) cs"
    proof -
      have "filter (\<lambda>a. authPriority a = p) cs \<noteq> []" using l m [of p l] by metis
      then obtain x where "x \<in> set cs" "authPriority x = p" by (auto simp: filter_empty_conv)
      then have "(\<forall>b \<in> set cs. authPriority b \<le> authPriority a) = (authPriority a = p)" if "a \<in> set cs" for a
        using le that by force
      then show ?thesis unfolding top_candidates_def by (intro filter_cong) auto
    qed
    moreover have "l = filter (\<lambda>a. authPriority a = p) cs" using l m [of p l] by metis
    ultimately show ?thesis using p(1) l by (simp add: availableAuthsFromPriorityBuckets_def mget_or_def)
  qed
qed

lemma top_candidates_Nil [simp]: "top_candidates cs = [] \<longleftrightarrow> cs = []"
proof
  assume t: "top_candidates cs = []"
  show "cs = []"
  proof (rule ccontr)
    assume "cs \<noteq> []"
    then have "Max (authPriority ` set cs) \<in> authPriority ` set cs" by (intro Max_in) auto
    then obtain a where "a \<in> set cs" "authPriority a = Max (authPriority ` set cs)" by auto
    then have "a \<in> set (top_candidates cs)" by (simp add: top_candidates_def)
    then show False using t by simp
  qed
qed (simp add: top_candidates_def)

text \<open>What the strategies are given.\<close>

definition by_id :: "Auth list \<Rightarrow> Auth list" where
  "by_id = sort_slice (\<lambda>a b. au_id a < au_id b)"

lemma getAvailableAuths_eq:
  "candidates model now excluded as \<noteq> [] \<Longrightarrow>
     getAvailableAuths as provider model now excluded = Inr (by_id (top_candidates (candidates model now excluded as)))"
  "candidates model now excluded as = [] \<Longrightarrow> \<exists>e. getAvailableAuths as provider model now excluded = Inl e"
proof -
  have B: "buckets_of (fst (collectAvailableByPriority as model now excluded)) (candidates model now excluded as)"
    by (rule collect_buckets)
  show "getAvailableAuths as provider model now excluded = Inr (by_id (top_candidates (candidates model now excluded as)))"
    if "candidates model now excluded as \<noteq> []"
  proof -
    have "as \<noteq> []" using that by (auto simp: candidates_def)
    then show ?thesis using buckets_Nil [OF B] bucket_sets(2) [OF B] that
      by (auto simp: getAvailableAuths_def getAvailableAuthsWithPriorityMode_def by_id_def split: prod.splits)
  qed
  show "candidates model now excluded as = [] \<Longrightarrow> \<exists>e. getAvailableAuths as provider model now excluded = Inl e"
    using buckets_Nil [OF B]
    by (auto simp: getAvailableAuths_def getAvailableAuthsWithPriorityMode_def split: prod.splits)
qed

lemma getAvailableAuths_Inr:
  assumes "getAvailableAuths as provider model now excluded = Inr l"
  shows "candidates model now excluded as \<noteq> []" "l = by_id (top_candidates (candidates model now excluded as))"
proof -
  show ne: "candidates model now excluded as \<noteq> []"
    using assms getAvailableAuths_eq(2) [where as = as and provider = provider] by fastforce
  show "l = by_id (top_candidates (candidates model now excluded as))"
    using assms getAvailableAuths_eq(1) [OF ne, of provider] by simp
qed

lemma getAvailableAuths_Inl:
  assumes "getAvailableAuths as provider model now excluded = Inl e"
  shows "candidates model now excluded as = []"
  using assms getAvailableAuths_eq(1) [where as = as and provider = provider] by fastforce

lemma getAcross_Inr:
  assumes "getAvailableAuthsAcrossPriorities as provider model now excluded = Inr l"
  shows "set l = set (candidates model now excluded as)" "l \<noteq> []"
proof -
  have B: "buckets_of (fst (collectAvailableByPriority as model now excluded)) (candidates model now excluded as)"
    by (rule collect_buckets)
  show s: "set l = set (candidates model now excluded as)"
    using bucket_sets(1) [OF B] assms
    by (auto simp: getAvailableAuthsAcrossPriorities_def getAvailableAuthsWithPriorityMode_def split: prod.splits if_splits)
  have "candidates model now excluded as \<noteq> []"
    using buckets_Nil [OF B] assms
    by (auto simp: getAvailableAuthsAcrossPriorities_def getAvailableAuthsWithPriorityMode_def split: prod.splits if_splits)
  then show "l \<noteq> []" using s by auto
qed

lemma getAcross_Inl:
  "getAvailableAuthsAcrossPriorities as provider model now excluded = Inl e \<Longrightarrow> candidates model now excluded as = []"
  using buckets_Nil [OF collect_buckets [of as model now excluded]]
  by (cases "as = []") (auto simp: getAvailableAuthsAcrossPriorities_def getAvailableAuthsWithPriorityMode_def candidates_def
      split: prod.splits if_splits)

lemma by_id_simps [simp]: "set (by_id xs) = set xs" "by_id xs = [] \<longleftrightarrow> xs = []" "length (by_id xs) = length xs"
proof -
  show "set (by_id xs) = set xs" "length (by_id xs) = length xs" by (simp_all add: by_id_def)
  then show "by_id xs = [] \<longleftrightarrow> xs = []" by (metis length_0_conv)
qed

lemma prefer_subset: "set (preferCodexWebsocketAuths ws p as) \<subseteq> set as"
  by (auto simp: preferCodexWebsocketAuths_def Let_def)

lemma prefer_Nil [simp]: "preferCodexWebsocketAuths ws p as = [] \<longleftrightarrow> as = []"
  by (auto simp: preferCodexWebsocketAuths_def Let_def)

lemma prefer_sorted: "sorted_wrt R as \<Longrightarrow> sorted_wrt R (preferCodexWebsocketAuths ws p as)"
  by (auto simp: preferCodexWebsocketAuths_def Let_def sorted_wrt_filter)

text \<open>The highest tier of a slice that merges several.\<close>

lemma best_count_fold:
  assumes "foldl best_count (0, 0) as = (p, n)"
  shows "(n = 0 \<longleftrightarrow> as = []) \<and> n = length (filter (\<lambda>a. authPriority a = p) as) \<and> (\<forall>a \<in> set as. authPriority a \<le> p)"
  using assms
proof (induction as arbitrary: p n rule: rev_induct)
  case (snoc a as)
  obtain p' n' where f: "foldl best_count (0, 0) as = (p', n')" by fastforce
  note IH = snoc.IH [OF f]
  have step: "best_count (p', n') a = (p, n)" using snoc.prems f by simp
  have new: "filter (\<lambda>x. authPriority x = authPriority a) as = []" if "n' = 0 \<or> p' < authPriority a"
    using IH that by (fastforce simp: filter_empty_conv)
  consider (new) "n' = 0 \<or> p' < authPriority a" "p = authPriority a" "n = 1"
    | (same) "n' \<noteq> 0" "authPriority a = p'" "p = p'" "n = n' + 1"
    | (lower) "n' \<noteq> 0" "authPriority a < p'" "p = p'" "n = n'"
    using step by (force simp: best_count_def Let_def split: if_splits)
  then show ?case
  proof cases
    case new
    then have "\<forall>x \<in> set as. authPriority x \<le> authPriority a" using IH by fastforce
    then show ?thesis using new \<open>n' = 0 \<or> p' < authPriority a \<Longrightarrow> _\<close> by simp
  qed (use IH in auto)
qed simp

lemma highestPriorityAuths_eq: "highestPriorityAuths as = top_candidates as"
proof (cases "length as \<le> 1")
  case True
  then show ?thesis by (cases as) (auto simp: highestPriorityAuths_def top_candidates_def)
next
  case False
  obtain p n where f: "foldl best_count (0, 0) as = (p, n)" by fastforce
  have n: "n \<noteq> 0" "n = length (filter (\<lambda>a. authPriority a = p) as)" "\<forall>a \<in> set as. authPriority a \<le> p"
    using best_count_fold [OF f] False by auto
  obtain x where "x \<in> set as" "authPriority x = p"
  proof -
    have "filter (\<lambda>a. authPriority a = p) as \<noteq> []" using n(1,2) by auto
    then show ?thesis using that by (auto simp: filter_empty_conv)
  qed
  then have "(\<forall>b \<in> set as. authPriority b \<le> authPriority a) = (authPriority a = p)" if "a \<in> set as" for a
    using n(3) that by force
  then have t: "top_candidates as = filter (\<lambda>a. authPriority a = p) as"
    unfolding top_candidates_def by (intro filter_cong) auto
  show ?thesis
  proof (cases "n = length as")
    case True
    then have "filter (\<lambda>a. authPriority a = p) as = as"
      using n(2) by (metis length_filter_less filter_True less_irrefl)
    then show ?thesis using False f True t by (simp add: highestPriorityAuths_def)
  next
    case ne: False
    then show ?thesis using False f t by (simp add: highestPriorityAuths_def)
  qed
qed


section \<open>The contract of a strategy\<close>

text \<open>
  What the callers of a strategy rely on: a pick is a usable candidate that is neither excluded nor
  blocked, of the highest priority among those; there is an error only when there is none.
\<close>

locale selector =
  fixes pick :: "'s \<Rightarrow> pick_request \<Rightarrow> Auth option list \<Rightarrow> 's \<times> (pick_error + Auth)"
    and usable :: "Auth option \<Rightarrow> bool"
  assumes pick_sound: "pick s q as = (s', Inr a) \<Longrightarrow>
      a \<in> set (top_candidates (candidates (rq_model q) (rq_now q) (rq_excluded q) (filter usable as)))"
    and pick_complete: "pick s q as = (s', Inl e) \<Longrightarrow>
      candidates (rq_model q) (rq_now q) (rq_excluded q) (filter usable as) = []"

text \<open>A retry loop: the credentials tried one after the other, each excluded from the next pick.\<close>

fun tries ::
  "('s \<Rightarrow> pick_request \<Rightarrow> Auth option list \<Rightarrow> 's \<times> (pick_error + Auth)) \<Rightarrow> nat \<Rightarrow> 's \<Rightarrow> pick_request \<Rightarrow>
   Auth option list \<Rightarrow> Auth list" where
  "tries pick 0 s q as = []"
| "tries pick (Suc n) s q as =
     (case pick s q as of
        (s', Inl e) \<Rightarrow> []
      | (s', Inr a) \<Rightarrow> a # tries pick n s' (q\<lparr>rq_excluded := au_id a # rq_excluded q\<rparr>) as)"

lemma top_candidates_set: "a \<in> set (top_candidates cs) \<longleftrightarrow> a \<in> set cs \<and> (\<forall>b \<in> set cs. authPriority b \<le> authPriority a)"
  by (simp add: top_candidates_def)

lemma candidates_exclude:
  "set (candidates model now (i # excluded) as) = {a \<in> set (candidates model now excluded as). au_id a \<noteq> i}"
  by (auto simp: set_candidates request_ok_def)

context selector
begin

lemma pick_from: "pick s q as = (s', Inr a) \<Longrightarrow> Some a \<in> set as \<and> usable (Some a)"
  using pick_sound [of s q as s' a] by (auto simp: top_candidates_set set_candidates)

lemma pick_ok: "pick s q as = (s', Inr a) \<Longrightarrow> request_ok (rq_model q) (rq_now q) (rq_excluded q) a"
  using pick_sound [of s q as s' a] by (auto simp: top_candidates_set set_candidates)

lemma pick_priority:
  "pick s q as = (s', Inr a) \<Longrightarrow> Some b \<in> set as \<Longrightarrow> usable (Some b) \<Longrightarrow>
     request_ok (rq_model q) (rq_now q) (rq_excluded q) b \<Longrightarrow> authPriority b \<le> authPriority a"
  using pick_sound [of s q as s' a] by (auto simp: top_candidates_set set_candidates)

lemma pick_succeeds:
  "Some b \<in> set as \<Longrightarrow> usable (Some b) \<Longrightarrow> request_ok (rq_model q) (rq_now q) (rq_excluded q) b \<Longrightarrow>
     \<exists>a. snd (pick s q as) = Inr a"
proof (cases "snd (pick s q as)")
  case (Inl e)
  assume b: "Some b \<in> set as" "usable (Some b)" "request_ok (rq_model q) (rq_now q) (rq_excluded q) b"
  have "pick s q as = (fst (pick s q as), Inl e)" using Inl by (metis prod.collapse)
  then have "candidates (rq_model q) (rq_now q) (rq_excluded q) (filter usable as) = []" by (rule pick_complete)
  moreover have "b \<in> set (candidates (rq_model q) (rq_now q) (rq_excluded q) (filter usable as))"
    using b by (simp add: set_candidates)
  ultimately show ?thesis by simp
qed blast

lemma tries_subset: "set (tries pick n s q as) \<subseteq> set (candidates (rq_model q) (rq_now q) (rq_excluded q) (filter usable as))"
proof (induction n arbitrary: s q)
  case (Suc n)
  show ?case
  proof (cases "pick s q as")
    case (Pair s' r)
    show ?thesis
    proof (cases r)
      case (Inr a)
      let ?q = "q\<lparr>rq_excluded := au_id a # rq_excluded q\<rparr>"
      have "set (tries pick n s' ?q as) \<subseteq> set (candidates (rq_model q) (rq_now q) (rq_excluded q) (filter usable as))"
        using Suc.IH [of s' ?q] by (auto simp: candidates_exclude)
      then show ?thesis using Pair Inr pick_sound [of s q as s' a] by (simp add: top_candidates_set)
    qed (simp add: Pair)
  qed
qed simp

lemma tries_distinct: "distinct (map au_id (tries pick n s q as))"
proof (induction n arbitrary: s q)
  case (Suc n)
  show ?case
  proof (cases "pick s q as")
    case (Pair s' r)
    show ?thesis
    proof (cases r)
      case (Inr a)
      let ?q = "q\<lparr>rq_excluded := au_id a # rq_excluded q\<rparr>"
      have "au_id a \<notin> au_id ` set (tries pick n s' ?q as)"
        using tries_subset [of n s' ?q as] by (auto simp: candidates_exclude)
      then show ?thesis using Pair Inr Suc.IH by simp
    qed (simp add: Pair)
  qed
qed simp

lemma tries_priority: "sorted_wrt (\<lambda>a b. authPriority b \<le> authPriority a) (tries pick n s q as)"
proof (induction n arbitrary: s q)
  case (Suc n)
  show ?case
  proof (cases "pick s q as")
    case (Pair s' r)
    show ?thesis
    proof (cases r)
      case (Inr a)
      let ?q = "q\<lparr>rq_excluded := au_id a # rq_excluded q\<rparr>"
      have "b \<in> set (candidates (rq_model q) (rq_now q) (rq_excluded q) (filter usable as))"
        if "b \<in> set (tries pick n s' ?q as)" for b
        using that tries_subset [of n s' ?q as] by (auto simp: candidates_exclude)
      then show ?thesis using Pair Inr Suc.IH pick_sound [of s q as s' a] by (auto simp: top_candidates_set)
    qed (simp add: Pair)
  qed
qed simp

lemma tries_all:
  assumes "card (au_id ` set (candidates (rq_model q) (rq_now q) (rq_excluded q) (filter usable as))) \<le> n"
  shows "au_id ` set (tries pick n s q as) =
    au_id ` set (candidates (rq_model q) (rq_now q) (rq_excluded q) (filter usable as))"
  using assms
proof (induction n arbitrary: s q)
  case (Suc n)
  let ?C = "set (candidates (rq_model q) (rq_now q) (rq_excluded q) (filter usable as))"
  show ?case
  proof (cases "pick s q as")
    case (Pair s' r)
    show ?thesis
    proof (cases r)
      case (Inl e)
      then show ?thesis using Pair pick_complete [of s q as s' e] by simp
    next
      case (Inr a)
      let ?q = "q\<lparr>rq_excluded := au_id a # rq_excluded q\<rparr>"
      let ?C' = "set (candidates (rq_model ?q) (rq_now ?q) (rq_excluded ?q) (filter usable as))"
      have C': "au_id ` ?C' = au_id ` ?C - {au_id a}" by (auto simp: candidates_exclude)
      have a: "au_id a \<in> au_id ` ?C" using Pair Inr pick_sound [of s q as s' a] by (simp add: top_candidates_set)
      then have "card (au_id ` ?C') \<le> n" unfolding C' using Suc.prems by simp
      then have "au_id ` set (tries pick n s' ?q as) = au_id ` ?C - {au_id a}" using Suc.IH [of ?q s'] C' by simp
      then show ?thesis using Pair Inr a by auto
    qed
  qed
qed simp

end

section \<open>The strategies keep the contract\<close>

lemma search_le: "i \<le> j \<Longrightarrow> search_from f i j \<le> j \<and> i \<le> search_from f i j"
proof (induction f i j rule: search_from.induct)
  case (1 f i j)
  show ?case
  proof (cases "i < j")
    case False
    then have "search_from f i j = i" by (subst search_from.simps) simp
    then show ?thesis using "1.prems" by simp
  next
    case True
    then have "(i + j) div 2 < j" "i \<le> (i + j) div 2" by auto
    then show ?thesis using "1.IH" True
      by (subst (1 2) search_from.simps) (cases "f ((i + j) div 2)"; fastforce simp: Let_def)
  qed
qed

text \<open>On a monotone predicate the search finds the first index that satisfies it.\<close>

lemma search_first:
  assumes "i \<le> j" and "\<And>k. k < i \<Longrightarrow> \<not> f k" and "\<And>k. j \<le> k \<Longrightarrow> k < n \<Longrightarrow> f k"
    and "\<And>k l. k \<le> l \<Longrightarrow> l < n \<Longrightarrow> f k \<Longrightarrow> f l" and "j \<le> n"
  shows "(\<forall>k < search_from f i j. \<not> f k) \<and> (\<forall>k. search_from f i j \<le> k \<longrightarrow> k < n \<longrightarrow> f k)"
  using assms
proof (induction f i j rule: search_from.induct)
  case (1 f i j)
  show ?case
  proof (cases "i < j")
    case False
    then have "search_from f i j = i" by (subst search_from.simps) simp
    then show ?thesis using "1.prems"(1,2,3) False by auto
  next
    case True
    define h where "h = (i + j) div 2"
    have h: "i \<le> h" "h < j" using True by (auto simp: h_def)
    have eq: "search_from f i j = (if f h then search_from f i h else search_from f (h + 1) j)"
      using True by (subst search_from.simps) (simp add: Let_def h_def)
    note IH = "1.IH" [OF True h_def]
    show ?thesis
    proof (cases "f h")
      case fh: True
      have "f k" if "h \<le> k" "k < n" for k using "1.prems"(4) [OF that fh] .
      then have "(\<forall>k < search_from f i h. \<not> f k) \<and> (\<forall>k. search_from f i h \<le> k \<longrightarrow> k < n \<longrightarrow> f k)"
        using "1.prems"(2,4,5) h by (intro IH(1) [OF fh]) auto
      then show ?thesis using eq fh by simp
    next
      case fh: False
      have "\<not> f k" if "k < h + 1" for k
      proof
        assume "f k"
        then have "f h" using "1.prems"(4) [of k h] "1.prems"(5) that h by simp
        then show False using fh by simp
      qed
      then have "(\<forall>k < search_from f (h + 1) j. \<not> f k) \<and> (\<forall>k. search_from f (h + 1) j \<le> k \<longrightarrow> k < n \<longrightarrow> f k)"
        using "1.prems"(3,4,5) h by (intro IH(2) [OF fh]) auto
      then show ?thesis using eq fh by simp
    qed
  qed
qed

lemma successor_lt: "available \<noteq> [] \<Longrightarrow> successorIndex available lastID < length available"
  by (auto simp: successorIndex_def Let_def not_le)

lemma prefer_nth:
  assumes "l \<noteq> []" and "i < length (preferCodexWebsocketAuths ws p l)"
  shows "preferCodexWebsocketAuths ws p l ! i \<in> set l"
  using assms prefer_subset [of ws p l] nth_mem by blast

interpretation round_robin: selector RoundRobinPick "\<lambda>_. True"
proof
  show "a \<in> set (top_candidates (candidates (rq_model q) (rq_now q) (rq_excluded q) (filter (\<lambda>_. True) as)))"
    if R: "RoundRobinPick s q as = (s', Inr a)" for s q as s' a
  proof -
    obtain l where l: "getAvailableAuths as (rq_provider q) (rq_model q) (rq_now q) (rq_excluded q) = Inr l"
      using R by (auto simp: RoundRobinPick_def split: sum.splits)
    have ne: "l \<noteq> []" using getAvailableAuths_Inr [OF l] by simp
    let ?p = "preferCodexWebsocketAuths (rq_websocket q) (rq_provider q) l"
    have "\<exists>last. a = ?p ! successorIndex ?p last"
      using R l by (auto simp: RoundRobinPick_def Let_def)
    then have "a \<in> set l" using prefer_nth [OF ne successor_lt] ne by auto
    then show ?thesis using getAvailableAuths_Inr(2) [OF l] by simp
  qed
  show "candidates (rq_model q) (rq_now q) (rq_excluded q) (filter (\<lambda>_. True) as) = []"
    if "RoundRobinPick s q as = (s', Inl e)" for s q as s' e
    using that getAvailableAuths_Inl by (fastforce simp: RoundRobinPick_def Let_def split: sum.splits)
qed

interpretation fill_first: selector FillFirstPick "\<lambda>_. True"
proof
  show "a \<in> set (top_candidates (candidates (rq_model q) (rq_now q) (rq_excluded q) (filter (\<lambda>_. True) as)))"
    if R: "FillFirstPick s q as = (s', Inr a)" for s q as s' a
  proof -
    obtain l where l: "getAvailableAuths as (rq_provider q) (rq_model q) (rq_now q) (rq_excluded q) = Inr l"
      using R by (auto simp: FillFirstPick_def split: sum.splits)
    have ne: "l \<noteq> []" using getAvailableAuths_Inr [OF l] by simp
    then have "preferCodexWebsocketAuths (rq_websocket q) (rq_provider q) l ! 0 \<in> set l"
      by (intro prefer_nth) auto
    then show ?thesis using getAvailableAuths_Inr(2) [OF l] R l by (auto simp: FillFirstPick_def)
  qed
  show "candidates (rq_model q) (rq_now q) (rq_excluded q) (filter (\<lambda>_. True) as) = []"
    if "FillFirstPick s q as = (s', Inl e)" for s q as s' e
    using that getAvailableAuths_Inl by (fastforce simp: FillFirstPick_def split: sum.splits)
qed

section \<open>Rotation\<close>

text \<open>The results of consecutive picks for the same request.\<close>

fun picks ::
  "('s \<Rightarrow> pick_request \<Rightarrow> Auth option list \<Rightarrow> 's \<times> (pick_error + Auth)) \<Rightarrow> nat \<Rightarrow> 's \<Rightarrow> pick_request \<Rightarrow>
   Auth option list \<Rightarrow> (pick_error + Auth) list" where
  "picks pick 0 s q as = []"
| "picks pick (Suc n) s q as = (case pick s q as of (s', r) \<Rightarrow> r # picks pick n s' q as)"

text \<open>The state they leave.\<close>

fun after_picks ::
  "('s \<Rightarrow> pick_request \<Rightarrow> Auth option list \<Rightarrow> 's \<times> (pick_error + Auth)) \<Rightarrow> nat \<Rightarrow> 's \<Rightarrow> pick_request \<Rightarrow> Auth option list \<Rightarrow> 's" where
  "after_picks pick 0 s q as = s"
| "after_picks pick (Suc n) s q as = after_picks pick n (fst (pick s q as)) q as"

lemma picks_add: "picks pick (m + n) s q as = picks pick m s q as @ picks pick n (after_picks pick m s q as) q as"
  by (induction m arbitrary: s) (auto split: prod.splits)

text \<open>The ring a request rotates over: the available credentials of the highest priority, by identifier.\<close>

definition ring :: "pick_request \<Rightarrow> Auth option list \<Rightarrow> Auth list" where
  "ring q as = preferCodexWebsocketAuths (rq_websocket q) (rq_provider q)
     (by_id (top_candidates (candidates (rq_model q) (rq_now q) (rq_excluded q) as)))"

definition distinct_ids :: "Auth option list \<Rightarrow> bool" where
  "distinct_ids as \<longleftrightarrow> distinct (map au_id (somes as)) \<and> [] \<notin> set (map au_id (somes as))"

lemma distinct_sort_slice: "distinct (map f (sort_slice lt xs)) = distinct (map f xs)"
proof -
  have "mset (map f (sort_slice lt xs)) = mset (map f xs)" by (simp only: mset_map mset_sort_slice)
  then show ?thesis by (rule mset_eq_imp_distinct_iff)
qed

lemma ring_sorted:
  assumes "distinct_ids as"
  shows "sorted_wrt (\<lambda>a b. au_id a < au_id b) (ring q as)" "[] \<notin> au_id ` set (ring q as)"
proof -
  let ?t = "top_candidates (candidates (rq_model q) (rq_now q) (rq_excluded q) as)"
  have d: "distinct (map au_id ?t)"
    using assms by (simp add: distinct_ids_def top_candidates_def candidates_def distinct_map_filter)
  have "sorted_wrt (\<lambda>a b. au_id a < au_id b) (by_id ?t)"
    unfolding by_id_def
  proof (rule sorted_sort_slice)
    show "distinct ?t" using d by (simp add: distinct_map)
    show "au_id a < au_id c" if "au_id a < au_id b" "au_id b < au_id c" for a b c using that by simp
    show "au_id x < au_id y \<or> au_id y < au_id x" if "x \<in> set ?t" "y \<in> set ?t" "x \<noteq> y" for x y
      using that d by (metis distinct_map inj_onD not_less_iff_gr_or_eq)
  qed
  then show "sorted_wrt (\<lambda>a b. au_id a < au_id b) (ring q as)" by (simp add: ring_def prefer_sorted)
  have "set (ring q as) \<subseteq> set (somes as)"
    using prefer_subset [of "rq_websocket q" "rq_provider q" "by_id ?t"]
    by (auto simp: ring_def top_candidates_set candidates_def)
  then show "[] \<notin> au_id ` set (ring q as)" using assms by (auto simp: distinct_ids_def)
qed

lemma RoundRobinPick_ring:
  assumes "ring q as \<noteq> []"
  shows "RoundRobinPick s q as =
    (let key = rq_provider q @ '':'' @ canonicalModelKey (rq_model q);
         m = ensureRotationKey key (key_limit (rr_max_keys s)) (rr_last_picked s);
         picked = ring q as ! successorIndex (ring q as) (mget_or [] m key)
     in (s\<lparr>rr_last_picked := mput key (au_id picked) m\<rparr>, Inr picked))"
proof -
  have "candidates (rq_model q) (rq_now q) (rq_excluded q) as \<noteq> []" using assms by (auto simp: ring_def)
  from getAvailableAuths_eq(1) [OF this, of "rq_provider q"] show ?thesis
    by (simp add: RoundRobinPick_def ring_def Let_def)
qed

lemma successorIndex_next:
  assumes srt: "sorted_wrt (\<lambda>a b. au_id a < au_id b) l" and i: "i < length l" and ne: "au_id (l ! i) \<noteq> []"
  shows "successorIndex l (au_id (l ! i)) = (i + 1) mod length l"
proof -
  let ?f = "\<lambda>k. au_id (l ! i) < au_id (l ! k)" and ?n = "length l"
  have lt: "au_id (l ! a) < au_id (l ! b)" if "a < b" "b < ?n" for a b
    using srt that by (rule sorted_wrt_nth_less)
  have f: "?f k \<longleftrightarrow> i < k" if "k < ?n" for k
    using lt [of i k] lt [of k i] that i by (metis less_asym' nat_neq_iff less_irrefl)
  let ?r = "search_from ?f 0 ?n"
  have S: "(\<forall>k < ?r. \<not> ?f k) \<and> (\<forall>k. ?r \<le> k \<longrightarrow> k < ?n \<longrightarrow> ?f k)"
  proof (rule search_first [of 0 ?n])
    show "?f b" if "a \<le> b" "b < ?n" "?f a" for a b using that f [of a] f [of b] by simp
  qed simp_all
  have r3: "?r \<le> ?n" using search_le [of 0 ?n ?f] by simp
  have r1: "k \<le> i" if "k < ?r" "k < ?n" for k using S that f [of k] by (metis not_le)
  have r2: "i < k" if "?r \<le> k" "k < ?n" for k using S that f [of k] by blast
  have "?r = i + 1"
  proof (rule ccontr)
    assume "?r \<noteq> i + 1"
    then consider "?r \<le> i" | "i + 1 < ?r" by linarith
    then show False
    proof cases
      case 1
      then show False using r2 [of i] i by simp
    next
      case 2
      then show False using r1 [of "i + 1"] r3 by simp
    qed
  qed
  then have "successorIndex l (au_id (l ! i)) = (if i + 1 < ?n then i + 1 else 0)"
    using ne by (simp add: successorIndex_def Let_def)
  then show ?thesis using i by (cases "i + 1 < ?n") (auto simp: not_less le_Suc_eq)
qed

lemma round_robin_steps:
  assumes d: "distinct_ids as" and i: "i < length (ring q as)"
    and k: "mget (rr_last_picked s) (rq_provider q @ '':'' @ canonicalModelKey (rq_model q)) = Some (au_id (ring q as ! i))"
  shows "picks RoundRobinPick n s q as = map (\<lambda>j. Inr (ring q as ! ((i + 1 + j) mod length (ring q as)))) [0..<n]"
  using i k
proof (induction n arbitrary: s i)
  case (Suc n)
  let ?L = "ring q as" and ?key = "rq_provider q @ '':'' @ canonicalModelKey (rq_model q)"
  let ?i = "(i + 1) mod length ?L"
  have ne: "?L \<noteq> []" using Suc.prems by auto
  then have lt: "?i < length ?L" by (intro mod_less_divisor) simp
  have "au_id (?L ! i) \<noteq> []" using ring_sorted(2) [OF d, of q] nth_mem [OF Suc.prems(1)] by (metis imageI)
  note succ = successorIndex_next [OF ring_sorted(1) [OF d] Suc.prems(1) this]
  have "RoundRobinPick s q as =
      (s\<lparr>rr_last_picked := mput ?key (au_id (?L ! ?i)) (rr_last_picked s)\<rparr>, Inr (?L ! ?i))"
    using Suc.prems(2) succ
    by (simp add: RoundRobinPick_ring [OF ne] Let_def ensureRotationKey_def mget_or_def)
  then have "picks RoundRobinPick (Suc n) s q as = Inr (?L ! ?i) #
      map (\<lambda>j. Inr (?L ! ((?i + 1 + j) mod length ?L))) [0..<n]"
    using Suc.IH [OF lt] by simp
  also have "\<dots> = map (\<lambda>j. Inr (?L ! ((i + 1 + j) mod length ?L))) (0 # map Suc [0..<n])"
  proof -
    have "(?i + 1 + j) mod length ?L = (i + 1 + Suc j) mod length ?L" for j
      using mod_add_left_eq [of "i + 1" "length ?L" "1 + j"] by (simp add: add.assoc)
    then show ?thesis by simp
  qed
  also have "0 # map Suc [0..<n] = [0..<Suc n]" by (simp add: map_Suc_upt upt_conv_Cons del: upt_Suc)
  finally show ?case .
qed simp

lemma round_robin_ring:
  assumes d: "distinct_ids as"
  shows "\<exists>k. picks RoundRobinPick (length (ring q as)) s q as = map Inr (rotate k (ring q as))"
proof (cases "ring q as = []")
  case True
  then show ?thesis by simp
next
  case False
  let ?L = "ring q as" and ?key = "rq_provider q @ '':'' @ canonicalModelKey (rq_model q)"
  let ?m = "ensureRotationKey ?key (key_limit (rr_max_keys s)) (rr_last_picked s)"
  let ?i = "successorIndex ?L (mget_or [] ?m ?key)"
  let ?s' = "s\<lparr>rr_last_picked := mput ?key (au_id (?L ! ?i)) ?m\<rparr>"
  obtain n where n: "length ?L = Suc n" using False by (cases ?L) auto
  have i: "?i < length ?L" by (rule successor_lt [OF False])
  have "picks RoundRobinPick (Suc n) s q as = Inr (?L ! ?i) # picks RoundRobinPick n ?s' q as"
    by (simp add: RoundRobinPick_ring [OF False] Let_def)
  also have "picks RoundRobinPick n ?s' q as = map (\<lambda>j. Inr (?L ! ((?i + 1 + j) mod length ?L))) [0..<n]"
    by (rule round_robin_steps [OF d i]) simp
  also have "Inr (?L ! ?i) # \<dots> = map Inr (rotate ?i ?L)"
  proof (rule nth_equalityI)
    fix j assume "j < length (Inr (?L ! ?i) # map (\<lambda>j. Inr (?L ! ((?i + 1 + j) mod length ?L))) [0..<n])"
    then have "j < length ?L" using n by simp
    then show "(Inr (?L ! ?i) # map (\<lambda>j. Inr (?L ! ((?i + 1 + j) mod length ?L))) [0..<n]) ! j = map Inr (rotate ?i ?L) ! j"
      using n i by (cases j) (auto simp: nth_rotate)
  qed (simp add: n)
  finally show ?thesis using n by auto
qed


section \<open>The smooth weighted pick\<close>

abbreviation weight_of :: "Auth \<Rightarrow> int" where
  "weight_of a \<equiv> authWeight (Some a)"

definition weight_sum :: "Auth list \<Rightarrow> int" where
  "weight_sum l = sum_list (map weight_of l)"

lemma authWeight_range: "0 \<le> weight_of a \<and> weight_of a \<le> MaxWeight"
proof -
  have s: "0 \<le> or_zero (ParseString r) \<and> or_zero (ParseString r) \<le> MaxWeight" for r
    using ParseString_range [of r] by (auto simp: or_zero_def MaxWeight_def split: sum.splits)
  have v: "0 \<le> or_zero (ParseValue r) \<and> or_zero (ParseValue r) \<le> MaxWeight" for r
    using ParseValue_bounds [of r] by (auto simp: or_zero_def MaxWeight_def split: sum.splits)
  show ?thesis using s v
    by (auto simp: authWeight_def DefaultWeight_def MaxWeight_def split: option.splits)
qed

lemma saturating_exact: "int64 (v + d) \<Longrightarrow> saturatingAddInt64 v d = v + d"
  by (auto simp: saturatingAddInt64_def int64_def)

lemma weight_sum_simps [simp]: "weight_sum [] = 0" "weight_sum (a # l) = weight_of a + weight_sum l"
  "weight_sum (l @ l') = weight_sum l + weight_sum l'"
  by (simp_all add: weight_sum_def)

lemma weight_sum_nonneg: "0 \<le> weight_sum l"
  by (induction l) (auto simp: authWeight_range add_nonneg_nonneg)

lemma weight_sum_pos: "l \<noteq> [] \<Longrightarrow> \<forall>a \<in> set l. 0 < weight_of a \<Longrightarrow> 0 < weight_sum l"
  using weight_sum_nonneg by (cases l) (auto intro: add_pos_nonneg)

lemma weight_le_sum: "a \<in> set l \<Longrightarrow> weight_of a \<le> weight_sum l"
  by (induction l) (use weight_sum_nonneg authWeight_range in \<open>auto intro: add_increasing add_increasing2\<close>)

lemma find_new_id:
  assumes "distinct (map au_id (l @ [x]))"
  shows "find (\<lambda>a. au_id a = au_id x) l = None"
proof -
  have "au_id x \<notin> au_id ` set l" using assms by simp
  then show ?thesis unfolding find_None_iff by (metis imageI)
qed

text \<open>The loop over the candidates, where nothing saturates: every candidate is credited its weight
  and a candidate with the highest credit is kept.\<close>

lemma smooth_fold:
  assumes "distinct (map au_id l)" and "\<forall>a \<in> set l. 0 < weight_of a \<and> int64 (mget_or 0 C (au_id a) + weight_of a)"
    and "weight_sum l \<le> max_int64" and "l \<noteq> []"
  shows "\<exists>p C'. foldl smooth_step (None, 0, C) l = (Some (p, mget_or 0 C (au_id p) + weight_of p), weight_sum l, C') \<and>
    p \<in> set l \<and> (\<forall>a \<in> set l. mget_or 0 C (au_id a) + weight_of a \<le> mget_or 0 C (au_id p) + weight_of p) \<and>
    (\<forall>i. mget_or 0 C' i = mget_or 0 C i + (case find (\<lambda>a. au_id a = i) l of None \<Rightarrow> 0 | Some a \<Rightarrow> weight_of a))"
  using assms
proof (induction l rule: rev_induct)
  case (snoc x l)
  have w: "0 < weight_of x" "int64 (mget_or 0 C (au_id x) + weight_of x)" using snoc.prems by auto
  have sum: "int64 (weight_sum l + weight_of x)"
    using snoc.prems(3) weight_sum_nonneg [of "l @ [x]"] by (simp add: int64_def min_int64_def)
  have find_app: "find P (l @ [x]) = (case find P l of None \<Rightarrow> if P x then Some x else None | Some a \<Rightarrow> Some a)" for P
    by (induction l) auto
  show ?case
  proof (cases "l = []")
    case True
    then show ?thesis using w sum
      by (auto simp: smooth_step_def saturating_exact Let_def)
  next
    case False
    have "weight_sum l \<le> max_int64" using snoc.prems(3) w by simp
    then obtain p C' where IH:
      "foldl smooth_step (None, 0, C) l = (Some (p, mget_or 0 C (au_id p) + weight_of p), weight_sum l, C')"
      "p \<in> set l" "\<forall>a \<in> set l. mget_or 0 C (au_id a) + weight_of a \<le> mget_or 0 C (au_id p) + weight_of p"
      "\<forall>i. mget_or 0 C' i = mget_or 0 C i + (case find (\<lambda>a. au_id a = i) l of None \<Rightarrow> 0 | Some a \<Rightarrow> weight_of a)"
      using snoc False by auto
    note nf = find_new_id [OF snoc.prems(1)]
    then have cx: "mget_or 0 C' (au_id x) = mget_or 0 C (au_id x)" using IH(4) by simp
    let ?credit = "mget_or 0 C (au_id x) + weight_of x"
    let ?C'' = "mput (au_id x) ?credit C'"
    let ?best = "if ?credit > mget_or 0 C (au_id p) + weight_of p then (x, ?credit) else (p, mget_or 0 C (au_id p) + weight_of p)"
    have step: "foldl smooth_step (None, 0, C) (l @ [x]) = (Some ?best, weight_sum (l @ [x]), ?C'')"
      using w sum by (simp add: IH(1) smooth_step_def saturating_exact cx Let_def)
    have cur: "mget_or 0 ?C'' i = mget_or 0 C i + (case find (\<lambda>a. au_id a = i) (l @ [x]) of None \<Rightarrow> 0 | Some a \<Rightarrow> weight_of a)" for i
      using IH(4) nf by (auto simp: find_app split: option.splits)
    show ?thesis
    proof (cases "?credit > mget_or 0 C (au_id p) + weight_of p")
      case True
      then show ?thesis using step cur IH(3) by (intro exI [of _ x] exI [of _ ?C'']) (auto intro: order_trans less_imp_le)
    next
      case False
      then show ?thesis using step cur IH(2,3) by (intro exI [of _ p] exI [of _ ?C'']) auto
    qed
  qed
qed simp

lemma find_id: "distinct (map au_id l) \<Longrightarrow> a \<in> set l \<Longrightarrow> find (\<lambda>b. au_id b = au_id a) l = Some a"
  by (induction l) auto

lemma pickSmooth_step:
  assumes "distinct (map au_id l)" and "\<forall>a \<in> set l. 0 < weight_of a \<and> int64 (mget_or 0 C (au_id a) + weight_of a)
      \<and> int64 (mget_or 0 C (au_id a) + weight_of a - weight_sum l)"
    and "weight_sum l \<le> max_int64" and "l \<noteq> []"
  shows "\<exists>p C'. pickSmoothWeightedAuth l C = (Some p, C') \<and> p \<in> set l \<and>
    (\<forall>a \<in> set l. mget_or 0 C (au_id a) + weight_of a \<le> mget_or 0 C (au_id p) + weight_of p) \<and>
    (\<forall>a \<in> set l. mget_or 0 C' (au_id a) = mget_or 0 C (au_id a) + weight_of a - (if a = p then weight_sum l else 0))"
proof -
  obtain p C1 where f: "foldl smooth_step (None, 0, C) l = (Some (p, mget_or 0 C (au_id p) + weight_of p), weight_sum l, C1)"
    "p \<in> set l" "\<forall>a \<in> set l. mget_or 0 C (au_id a) + weight_of a \<le> mget_or 0 C (au_id p) + weight_of p"
    "\<forall>i. mget_or 0 C1 i = mget_or 0 C i + (case find (\<lambda>a. au_id a = i) l of None \<Rightarrow> 0 | Some a \<Rightarrow> weight_of a)"
    using smooth_fold [of l C] assms by auto
  have cur: "mget_or 0 C1 (au_id a) = mget_or 0 C (au_id a) + weight_of a" if "a \<in> set l" for a
    using f(4) find_id [OF assms(1) that] by simp
  have inj: "au_id a = au_id p \<longleftrightarrow> a = p" if "a \<in> set l" for a
    using assms(1) that f(2) by (auto simp: distinct_map dest: inj_onD)
  have "saturatingAddInt64 (mget_or 0 C1 (au_id p)) (- weight_sum l) = mget_or 0 C1 (au_id p) - weight_sum l"
    using assms(2) f(2) cur [OF f(2)] saturating_exact [of "mget_or 0 C1 (au_id p)" "- weight_sum l"] by auto
  then show ?thesis using f cur inj
    by (intro exI [of _ p] exI [of _ "mput (au_id p) (mget_or 0 C1 (au_id p) - weight_sum l) C1"])
       (auto simp: pickSmoothWeightedAuth_def)
qed

text \<open>The weight vector and the preparation of the state.\<close>

lemma weight_vector:
  assumes "distinct (map au_id l)" and "\<forall>a \<in> set l. 0 < weight_of a"
  shows "mget (authWeightVector l) i = map_option weight_of (find (\<lambda>a. au_id a = i) l) \<and> mwf (authWeightVector l)"
  using assms
proof (induction l rule: rev_induct)
  case (snoc x l)
  have find_app: "find P (l @ [x]) = (case find P l of None \<Rightarrow> if P x then Some x else None | Some a \<Rightarrow> Some a)" for P
    by (induction l) auto
  note find_new_id [OF snoc.prems(1)]
  then show ?case using snoc by (auto simp: authWeightVector_def find_app split: option.splits)
qed (simp add: authWeightVector_def)

lemma mget_filter_key: "mget (filter (\<lambda>(i, _). P i) m) k = (if P k then mget m k else None)"
  by (induction m) auto

lemma mget_foldl_mput: "mwf ws \<Longrightarrow> mget (foldl (\<lambda>m (i, w). mput i w m) m ws) k = (case mget ws k of None \<Rightarrow> mget m k | Some w \<Rightarrow> Some w)"
proof (induction ws arbitrary: m)
  case (Cons p ws)
  obtain i w where p: "p = (i, w)" by (cases p)
  have "mget ws i = None" using Cons.prems by (simp add: p mget_None_iff)
  then show ?case using Cons by (auto simp: p split: option.splits)
qed simp

text \<open>The credits of the candidates, and configured weights that have not changed.\<close>

definition credits :: "Auth list \<Rightarrow> (Auth \<Rightarrow> int) \<Rightarrow> smoothWeightedState \<Rightarrow> bool" where
  "credits l cr st \<longleftrightarrow> (\<forall>a \<in> set l. mget_or 0 (sw_current st) (au_id a) = cr a \<and>
     (\<forall>w. mget (sw_weights st) (au_id a) = Some w \<longrightarrow> w = weight_of a))"

lemma prepare_credits:
  assumes "distinct (map au_id l)" and "\<forall>a \<in> set l. 0 < weight_of a" and "credits l cr st"
  shows "credits l cr (prepare (authWeightVector l) st)"
proof -
  let ?v = "authWeightVector l"
  have v: "mget ?v i = map_option weight_of (find (\<lambda>a. au_id a = i) l)" and wf: "mwf ?v" for i
    using weight_vector [OF assms(1,2)] by auto
  have va: "mget ?v (au_id a) = Some (weight_of a)" if "a \<in> set l" for a
    using v [of "au_id a"] find_id [OF assms(1) that] by simp
  have "\<not> weightsConfigChanged (sw_weights st) ?v"
  proof
    assume "weightsConfigChanged (sw_weights st) ?v"
    then obtain i w w' where c: "(i, w) \<in> set ?v" "mget (sw_weights st) i = Some w'" "w' \<noteq> w"
      by (auto simp: weightsConfigChanged_def list_ex_iff split: option.splits)
    then have "mget ?v i = Some w" using wf by simp
    then obtain a where "find (\<lambda>a. au_id a = i) l = Some a" "w = weight_of a" using v [of i] by auto
    then have "a \<in> set l" "au_id a = i" by (auto dest: find_Some_iff2)
    then show False using c assms(3) \<open>w = weight_of a\<close> by (auto simp: credits_def)
  qed
  then have cur: "mget_or 0 (sw_current (prepare ?v st)) (au_id a) = mget_or 0 (sw_current st) (au_id a)"
    and wts: "mget (sw_weights (prepare ?v st)) (au_id a) = Some (weight_of a)" if "a \<in> set l" for a
    using va [OF that] wf
    by (auto simp: prepare_def pruneStale_def mget_or_def mget_filter_key mget_foldl_mput)
  then show ?thesis using assms(3) by (auto simp: credits_def)
qed

section \<open>Weighted picks\<close>

definition weighted_ring :: "pick_request \<Rightarrow> Auth option list \<Rightarrow> Auth list" where
  "weighted_ring q as = ring q (positiveWeightAuths as)"

definition weighted_key :: "pick_request \<Rightarrow> string" where
  "weighted_key q = rq_provider q @ '':'' @ canonicalModelKey (weightedSelectorStateModel (rq_route_model q) (rq_model q))"

definition fresh_smooth :: smoothWeightedState where
  "fresh_smooth = \<lparr>sw_current = [], sw_weights = []\<rparr>"

lemma somes_filter: "set (somes (filter P as)) \<subseteq> set (somes as)"
  by (auto simp: set_somes)

lemma distinct_ids_filter: "distinct_ids as \<Longrightarrow> distinct_ids (filter P as)"
  by (induction as) (auto simp: distinct_ids_def somes_def set_somes [unfolded somes_def] split: option.splits)

lemma weighted_ring_props:
  assumes "distinct_ids as"
  shows "distinct (map au_id (weighted_ring q as))" "\<forall>a \<in> set (weighted_ring q as). 0 < weight_of a"
proof -
  have "sorted_wrt (\<lambda>a b. au_id a < au_id b) (weighted_ring q as)"
    unfolding weighted_ring_def positiveWeightAuths_def
    by (rule ring_sorted) (rule distinct_ids_filter [OF assms])
  then show "distinct (map au_id (weighted_ring q as))"
    by (simp only: strict_sorted_iff sorted_wrt_map [symmetric])
  have "set (weighted_ring q as) \<subseteq> set (somes (positiveWeightAuths as))"
    using prefer_subset [of "rq_websocket q" "rq_provider q"]
    by (fastforce simp: weighted_ring_def ring_def top_candidates_set candidates_def)
  then show "\<forall>a \<in> set (weighted_ring q as). 0 < weight_of a"
    by (auto simp: set_somes positiveWeightAuths_def)
qed

lemma WeightedPick_ring:
  assumes "weighted_ring q as \<noteq> []"
  shows "WeightedPick s q as =
    (let key = weighted_key q;
         states = (if mget (wr_states s) key = None \<and> int (length (wr_states s)) \<ge> key_limit (wr_max_keys s)
                   then [] else wr_states s);
         st1 = prepare (authWeightVector (weighted_ring q as)) (mget_or fresh_smooth (wr_states s) key);
         (picked, current) = pickSmoothWeightedAuth (weighted_ring q as) (sw_current st1)
     in (s\<lparr>wr_states := mput key (st1\<lparr>sw_current := current\<rparr>) states\<rparr>,
         case picked of None \<Rightarrow> Inl (AuthError (auth_error ''auth_unavailable'' ''no auth available with positive weight''))
         | Some a \<Rightarrow> Inr a))"
proof -
  have "candidates (rq_model q) (rq_now q) (rq_excluded q) (positiveWeightAuths as) \<noteq> []"
    using assms by (auto simp: weighted_ring_def ring_def)
  from getAvailableAuths_eq(1) [OF this, of "rq_provider q"] show ?thesis
    by (auto simp: WeightedPick_def weighted_ring_def ring_def weighted_key_def fresh_smooth_def mget_or_def Let_def
        split: prod.splits)
qed

lemma smooth_best_mem:
  "fst (foldl smooth_step acc l) = Some (p, c) \<Longrightarrow> (\<exists>c. fst acc = Some (p, c)) \<or> p \<in> set l"
proof (induction l arbitrary: acc)
  case (Cons a l)
  from Cons.IH [of "smooth_step acc a"] Cons.prems show ?case
    by (auto simp: smooth_step_def Let_def split: prod.splits if_splits option.splits)
qed simp

lemma smooth_best_some:
  "fst acc \<noteq> None \<or> (\<exists>a \<in> set l. 0 < weight_of a) \<Longrightarrow> fst (foldl smooth_step acc l) \<noteq> None"
proof (induction l arbitrary: acc)
  case (Cons a l)
  have "fst (smooth_step acc a) \<noteq> None \<or> (\<exists>b \<in> set l. 0 < weight_of b)"
    using Cons.prems by (cases acc) (auto simp: smooth_step_def Let_def split: option.splits)
  then show ?case using Cons.IH [of "smooth_step acc a"] by simp
qed simp

lemma pickSmooth_mem: "pickSmoothWeightedAuth l C = (Some p, C') \<Longrightarrow> p \<in> set l"
  using smooth_best_mem [of "(None, 0, C)" l p]
  by (auto simp: pickSmoothWeightedAuth_def split: prod.splits option.splits)

lemma pickSmooth_some: "a \<in> set l \<Longrightarrow> 0 < weight_of a \<Longrightarrow> fst (pickSmoothWeightedAuth l C) \<noteq> None"
  using smooth_best_some [of "(None, 0, C)" l]
  by (fastforce simp: pickSmoothWeightedAuth_def split: prod.splits option.splits)

interpretation weighted: selector WeightedPick "\<lambda>a. 0 < authWeight a"
proof
  fix s q as s'
  let ?as = "positiveWeightAuths as"
  have pos: "positiveWeightAuths as = filter (\<lambda>a. 0 < authWeight a) as" by (simp add: positiveWeightAuths_def)
  show "a \<in> set (top_candidates (candidates (rq_model q) (rq_now q) (rq_excluded q) (filter (\<lambda>a. 0 < authWeight a) as)))"
    if R: "WeightedPick s q as = (s', Inr a)" for a
  proof -
    obtain l where l: "getAvailableAuths ?as (rq_provider q) (rq_model q) (rq_now q) (rq_excluded q) = Inr l"
      using R by (auto simp: WeightedPick_def split: sum.splits)
    let ?p = "preferCodexWebsocketAuths (rq_websocket q) (rq_provider q) l"
    obtain C C' where "pickSmoothWeightedAuth ?p C = (Some a, C')"
      using R l by (auto simp: WeightedPick_def Let_def split: prod.splits option.splits)
    then have "a \<in> set l" using pickSmooth_mem prefer_subset by blast
    then show ?thesis using getAvailableAuths_Inr(2) [OF l] by (simp add: pos)
  qed
  show "candidates (rq_model q) (rq_now q) (rq_excluded q) (filter (\<lambda>a. 0 < authWeight a) as) = []"
    if R: "WeightedPick s q as = (s', Inl e)" for e
  proof (rule ccontr)
    assume ne: "candidates (rq_model q) (rq_now q) (rq_excluded q) (filter (\<lambda>a. 0 < authWeight a) as) \<noteq> []"
    then have rne: "weighted_ring q as \<noteq> []" by (simp add: weighted_ring_def ring_def pos)
    then obtain a where a: "a \<in> set (weighted_ring q as)" by (cases "weighted_ring q as") auto
    then have "a \<in> set (candidates (rq_model q) (rq_now q) (rq_excluded q) ?as)"
      using prefer_subset [of "rq_websocket q" "rq_provider q"] by (fastforce simp: weighted_ring_def ring_def top_candidates_set)
    then have "0 < weight_of a" by (simp add: set_candidates positiveWeightAuths_def)
    then show False
      using R pickSmooth_some [OF a] by (auto simp: WeightedPick_ring [OF rne] Let_def split: prod.splits option.splits)
        (metis fst_conv option.distinct(1))
  qed
qed

section \<open>Fairness\<close>

definition cycle_bound :: int where "cycle_bound = 3000000000"

lemma weighted_step:
  assumes d: "distinct_ids as" and ne: "weighted_ring q as \<noteq> []"
    and cr: "credits (weighted_ring q as) cr (mget_or fresh_smooth (wr_states s) (weighted_key q))"
    and bd: "\<forall>a \<in> set (weighted_ring q as). - weight_sum (weighted_ring q as) < cr a \<and>
       cr a \<le> weight_sum (weighted_ring q as) * weight_sum (weighted_ring q as)"
    and W: "weight_sum (weighted_ring q as) \<le> cycle_bound"
  obtains p s' where "WeightedPick s q as = (s', Inr p)" "p \<in> set (weighted_ring q as)"
    "\<forall>a \<in> set (weighted_ring q as). cr a + weight_of a \<le> cr p + weight_of p"
    "credits (weighted_ring q as) (\<lambda>a. cr a + weight_of a - (if a = p then weight_sum (weighted_ring q as) else 0))
       (mget_or fresh_smooth (wr_states s') (weighted_key q))"
proof -
  let ?L = "weighted_ring q as" and ?key = "weighted_key q"
  let ?W = "weight_sum ?L"
  let ?st1 = "prepare (authWeightVector ?L) (mget_or fresh_smooth (wr_states s) ?key)"
  note P = weighted_ring_props [OF d, of q]
  have c1: "credits ?L cr ?st1" by (rule prepare_credits [OF P cr])
  have Wpos: "0 < ?W" by (rule weight_sum_pos [OF ne P(2)])
  have WW: "?W * ?W \<le> cycle_bound * cycle_bound" using W Wpos by (intro mult_mono) auto
  have "0 < weight_of a \<and> int64 (mget_or 0 (sw_current ?st1) (au_id a) + weight_of a) \<and>
      int64 (mget_or 0 (sw_current ?st1) (au_id a) + weight_of a - ?W)" if "a \<in> set ?L" for a
  proof -
    have "mget_or 0 (sw_current ?st1) (au_id a) = cr a" using c1 that by (simp add: credits_def)
    moreover have "- ?W < cr a" "cr a \<le> ?W * ?W" "weight_of a \<le> ?W" "0 < weight_of a"
      using bd that weight_le_sum [OF that] P(2) by auto
    ultimately show ?thesis using W WW Wpos
      by (simp add: int64_def min_int64_def max_int64_def cycle_bound_def)
  qed
  moreover have "?W \<le> max_int64" using W by (simp add: cycle_bound_def max_int64_def)
  ultimately obtain p C' where C: "pickSmoothWeightedAuth ?L (sw_current ?st1) = (Some p, C')" "p \<in> set ?L"
    "\<forall>a \<in> set ?L. mget_or 0 (sw_current ?st1) (au_id a) + weight_of a \<le> mget_or 0 (sw_current ?st1) (au_id p) + weight_of p"
    "\<forall>a \<in> set ?L. mget_or 0 C' (au_id a) = mget_or 0 (sw_current ?st1) (au_id a) + weight_of a - (if a = p then ?W else 0)"
    using pickSmooth_step [OF P(1) _ _ ne] by blast
  obtain states where pk: "WeightedPick s q as = (s\<lparr>wr_states := mput ?key (?st1\<lparr>sw_current := C'\<rparr>) states\<rparr>, Inr p)"
    using C(1) by (auto simp: WeightedPick_ring [OF ne] Let_def)
  have "credits ?L (\<lambda>a. cr a + weight_of a - (if a = p then ?W else 0)) (?st1\<lparr>sw_current := C'\<rparr>)"
    using C(4) c1 by (simp add: credits_def)
  moreover have "\<forall>a \<in> set ?L. cr a + weight_of a \<le> cr p + weight_of p"
    using C(2,3) c1 by (simp add: credits_def)
  ultimately show thesis using that [OF pk C(2)] by simp
qed

lemma weighted_run:
  assumes d: "distinct_ids as" and ne: "weighted_ring q as \<noteq> []" and W: "weight_sum (weighted_ring q as) \<le> cycle_bound"
    and cr: "credits (weighted_ring q as) cr (mget_or fresh_smooth (wr_states s) (weighted_key q))"
    and bd: "\<forall>a \<in> set (weighted_ring q as). - weight_sum (weighted_ring q as) < cr a \<and> cr a \<le> int j * weight_of a"
    and z: "sum cr (set (weighted_ring q as)) = 0"
    and k: "int (j + k) \<le> weight_sum (weighted_ring q as)"
  shows "\<exists>ps. picks WeightedPick k s q as = map Inr ps \<and> length ps = k \<and> set ps \<subseteq> set (weighted_ring q as) \<and>
    (\<forall>a \<in> set (weighted_ring q as). - weight_sum (weighted_ring q as) <
       cr a + int k * weight_of a - weight_sum (weighted_ring q as) * int (count_list ps a)) \<and>
    credits (weighted_ring q as) (\<lambda>a. cr a + int k * weight_of a - weight_sum (weighted_ring q as) * int (count_list ps a))
      (mget_or fresh_smooth (wr_states (after_picks WeightedPick k s q as)) (weighted_key q))"
  using cr bd z k
proof (induction k arbitrary: s cr j)
  case 0
  then show ?case by simp
next
  case (Suc k)
  let ?L = "weighted_ring q as"
  let ?W = "weight_sum ?L"
  note P = weighted_ring_props [OF d, of q]
  have dl: "distinct ?L" using P(1) by (simp add: distinct_map)
  have Wpos: "0 < ?W" by (rule weight_sum_pos [OF ne P(2)])
  have "cr a \<le> ?W * ?W" if "a \<in> set ?L" for a
  proof -
    have "cr a \<le> int j * weight_of a" using Suc.prems(2) that by simp
    also have "\<dots> \<le> ?W * ?W" using Suc.prems(4) weight_le_sum [OF that] P(2) that Wpos by (intro mult_mono) auto
    finally show ?thesis .
  qed
  then have bd': "\<forall>a \<in> set ?L. - ?W < cr a \<and> cr a \<le> ?W * ?W" using Suc.prems(2) by simp
  obtain p s' where p: "WeightedPick s q as = (s', Inr p)" "p \<in> set ?L"
    "\<forall>a \<in> set ?L. cr a + weight_of a \<le> cr p + weight_of p"
    "credits ?L (\<lambda>a. cr a + weight_of a - (if a = p then ?W else 0)) (mget_or fresh_smooth (wr_states s') (weighted_key q))"
    using weighted_step [OF d ne Suc.prems(1) bd' W] by blast
  let ?cr = "\<lambda>a. cr a + weight_of a - (if a = p then ?W else 0)"
  have sw: "sum weight_of (set ?L) = ?W"
    using dl by (simp add: weight_sum_def sum_list_distinct_conv_sum_set)
  have z': "sum ?cr (set ?L) = 0"
    using Suc.prems(3) sw p(2) by (simp add: sum.distrib sum_subtractf)
  have "0 < cr p + weight_of p"
  proof (rule ccontr)
    assume "\<not> 0 < cr p + weight_of p"
    then have "\<forall>a \<in> set ?L. cr a + weight_of a \<le> 0" using p(3) by force
    then have "sum (\<lambda>a. cr a + weight_of a) (set ?L) \<le> 0" by (intro sum_nonpos) auto
    then show False using Suc.prems(3) sw Wpos by (simp add: sum.distrib)
  qed
  then have bd'': "\<forall>a \<in> set ?L. - ?W < ?cr a \<and> ?cr a \<le> int (Suc j) * weight_of a"
    using Suc.prems(2) P(2) Wpos by (fastforce simp: distrib_right)
  have "int (Suc j + k) \<le> ?W" using Suc.prems(4) by simp
  from Suc.IH [OF p(4) bd'' z' this] obtain ps where
    ps: "picks WeightedPick k s' q as = map Inr ps" "length ps = k" "set ps \<subseteq> set ?L"
    "\<forall>a \<in> set ?L. - ?W < ?cr a + int k * weight_of a - ?W * int (count_list ps a)"
    "credits ?L (\<lambda>a. ?cr a + int k * weight_of a - ?W * int (count_list ps a))
      (mget_or fresh_smooth (wr_states (after_picks WeightedPick k s' q as)) (weighted_key q))" by blast
  have e: "?cr a + int k * weight_of a - ?W * int (count_list ps a) =
      cr a + int (Suc k) * weight_of a - ?W * int (count_list (p # ps) a)" for a
    by (simp add: algebra_simps)
  have "after_picks WeightedPick (Suc k) s q as = after_picks WeightedPick k s' q as" using p(1) by simp
  then show ?case using p(1,2) ps unfolding e by (intro exI [of _ "p # ps"]) auto
qed

text \<open>A cycle from a state without credits ends in such a state.\<close>

lemma weighted_cycle:
  assumes d: "distinct_ids as" and W: "weight_sum (weighted_ring q as) \<le> cycle_bound"
    and new: "credits (weighted_ring q as) (\<lambda>_. 0) (mget_or fresh_smooth (wr_states s) (weighted_key q))"
    and w: "w = nat (weight_sum (weighted_ring q as))"
  shows "\<exists>ps. picks WeightedPick w s q as = map Inr ps \<and>
    (\<forall>a \<in> set (weighted_ring q as). int (count_list ps a) = weight_of a) \<and>
    credits (weighted_ring q as) (\<lambda>_. 0) (mget_or fresh_smooth (wr_states (after_picks WeightedPick w s q as)) (weighted_key q))"
proof (cases "weighted_ring q as = []")
  case True
  then show ?thesis using new w by simp
next
  case False
  let ?L = "weighted_ring q as"
  let ?W = "weight_sum ?L"
  note P = weighted_ring_props [OF d, of q]
  have dl: "distinct ?L" using P(1) by (simp add: distinct_map)
  have Wpos: "0 < ?W" by (rule weight_sum_pos [OF False P(2)])
  have iw: "int w = ?W" using w Wpos by simp
  from weighted_run [OF d False W new, of 0 w] obtain ps where
    ps: "picks WeightedPick w s q as = map Inr ps" "length ps = w" "set ps \<subseteq> set ?L"
    "\<forall>a \<in> set ?L. - ?W < ?W * weight_of a - ?W * int (count_list ps a)"
    "credits ?L (\<lambda>a. ?W * weight_of a - ?W * int (count_list ps a))
      (mget_or fresh_smooth (wr_states (after_picks WeightedPick w s q as)) (weighted_key q))"
    using Wpos by (auto simp: iw)
  have le: "int (count_list ps a) \<le> weight_of a" if "a \<in> set ?L" for a
  proof -
    have "?W * int (count_list ps a) < ?W * (weight_of a + 1)"
      using bspec [OF ps(4) that] by (simp add: distrib_left)
    then show ?thesis using Wpos by simp
  qed
  have "sum (\<lambda>a. int (count_list ps a)) (set ?L) = ?W"
    using sum_count_set [OF ps(3)] ps(2) iw by (simp flip: of_nat_sum)
  also have "\<dots> = sum weight_of (set ?L)"
    using dl by (simp add: weight_sum_def sum_list_distinct_conv_sum_set)
  finally have c: "\<forall>a \<in> set ?L. int (count_list ps a) = weight_of a"
    using le by (metis (no_types, lifting) List.finite_set sum_mono_inv)
  then have "credits ?L (\<lambda>_. 0) (mget_or fresh_smooth (wr_states (after_picks WeightedPick w s q as)) (weighted_key q))"
    using ps(5) by (simp add: credits_def)
  then show ?thesis using ps(1) c by blast
qed

lemma weighted_cycles:
  assumes d: "distinct_ids as" and W: "weight_sum (weighted_ring q as) \<le> cycle_bound"
    and w: "w = nat (weight_sum (weighted_ring q as))"
  shows "credits (weighted_ring q as) (\<lambda>_. 0) (mget_or fresh_smooth (wr_states s) (weighted_key q)) \<Longrightarrow>
    \<exists>ps. picks WeightedPick (n * w) s q as = map Inr ps \<and>
      (\<forall>a \<in> set (weighted_ring q as). int (count_list ps a) = int n * weight_of a)"
proof (induction n arbitrary: s)
  case (Suc n)
  let ?s = "after_picks WeightedPick w s q as"
  obtain ps where ps: "picks WeightedPick w s q as = map Inr ps" "\<forall>a \<in> set (weighted_ring q as). int (count_list ps a) = weight_of a"
    "credits (weighted_ring q as) (\<lambda>_. 0) (mget_or fresh_smooth (wr_states ?s) (weighted_key q))"
    using weighted_cycle [OF d W Suc.prems w] by blast
  obtain rs where rs: "picks WeightedPick (n * w) ?s q as = map Inr rs"
    "\<forall>a \<in> set (weighted_ring q as). int (count_list rs a) = int n * weight_of a" using Suc.IH [OF ps(3)] by blast
  have "picks WeightedPick (Suc n * w) s q as = map Inr (ps @ rs)"
    using picks_add [of WeightedPick w "n * w" s q as] ps(1) rs(1) by simp
  moreover have "\<forall>a \<in> set (weighted_ring q as). int (count_list (ps @ rs) a) = int (Suc n) * weight_of a"
    using ps(2) rs(2) by (simp add: distrib_right)
  ultimately show ?case by blast
qed simp

section \<open>Errors\<close>

text \<open>The collection loop's bookkeeping over the candidates that are not excluded.\<close>

definition eligible_auths :: "string list \<Rightarrow> Auth option list \<Rightarrow> Auth list" where
  "eligible_auths excluded as = filter (\<lambda>a. au_id a \<notin> set excluded) (somes as)"

definition cooling :: "string \<Rightarrow> time \<Rightarrow> Auth \<Rightarrow> bool" where
  "cooling model now a \<longleftrightarrow> fst (isAuthBlockedForModel (Some a) model now) \<and>
     fst (snd (isAuthBlockedForModel (Some a) model now)) = blockReasonCooldown"

definition recovery :: "string \<Rightarrow> time \<Rightarrow> Auth \<Rightarrow> time" where
  "recovery model now a = snd (snd (isAuthBlockedForModel (Some a) model now))"

definition collected :: "string \<Rightarrow> time \<Rightarrow> string list \<Rightarrow> Auth option list \<Rightarrow> nat \<Rightarrow> nat \<Rightarrow> time \<Rightarrow> bool" where
  "collected model now excluded as cd el er \<longleftrightarrow>
     el = length (eligible_auths excluded as) \<and>
     cd = length (filter (cooling model now) (eligible_auths excluded as)) \<and>
     (er \<noteq> 0 \<longrightarrow> (\<exists>a \<in> set (eligible_auths excluded as). cooling model now a \<and> recovery model now a = er)) \<and>
     (\<forall>a \<in> set (eligible_auths excluded as). cooling model now a \<longrightarrow> recovery model now a \<noteq> 0 \<longrightarrow>
        er \<noteq> 0 \<and> er \<le> recovery model now a)"

lemma collect_collected:
  "collectAvailableByPriority as model now excluded = (b, cd, el, er) \<Longrightarrow> collected model now excluded as cd el er"
proof (induction as arbitrary: b cd el er rule: rev_induct)
  case Nil
  then show ?case by (simp add: collectAvailableByPriority_def collected_def eligible_auths_def)
next
  case (snoc x as)
  obtain b' cd' el' er' where c: "collectAvailableByPriority as model now excluded = (b', cd', el', er')"
    by (cases "collectAvailableByPriority as model now excluded")
  note IH = snoc.IH [OF c]
  have step: "collect_step model now excluded (b', cd', el', er') x = (b, cd, el, er)"
    using snoc.prems c by (simp add: collectAvailableByPriority_def)
  show ?case
  proof (cases "\<exists>a. x = Some a \<and> au_id a \<notin> set excluded")
    case False
    then have "eligible_auths excluded (as @ [x]) = eligible_auths excluded as"
      by (cases x) (auto simp: eligible_auths_def)
    moreover have "(b, cd, el, er) = (b', cd', el', er')" using step False by (auto simp: collect_step_def split: option.splits)
    ultimately show ?thesis using IH by (simp add: collected_def)
  next
    case True
    then obtain a where a: "x = Some a" "au_id a \<notin> set excluded" by auto
    obtain bl r n where i: "isAuthBlockedForModel (Some a) model now = (bl, r, n)"
      by (cases "isAuthBlockedForModel (Some a) model now")
    have e: "eligible_auths excluded (as @ [x]) = eligible_auths excluded as @ [a]"
      using a by (simp add: eligible_auths_def)
    have el: "el = el' + 1" using step a i by (auto simp: collect_step_def split: if_splits)
    show ?thesis
    proof (cases "cooling model now a")
      case True
      then have "cd = cd' + 1" "er = (if n \<noteq> 0 \<and> (er' = 0 \<or> n < er') then n else er')"
        using step a i by (auto simp: collect_step_def cooling_def split: if_splits)
      then show ?thesis using IH True el by (auto simp: collected_def e recovery_def i split: if_splits)
    next
      case False
      then have "cd = cd'" "er = er'"
        using step a i by (auto simp: collect_step_def cooling_def split: if_splits)
      then show ?thesis using IH False el by (auto simp: collected_def e)
    qed
  qed
qed

lemma cooldown_error:
  assumes "getAvailableAuths as provider model now excluded = Inl (ModelCooldownError m p d)"
  shows "\<exists>a \<in> set (eligible_auths excluded as). d = max 0 (time_sub (recovery model now a) now) \<and>
    recovery model now a \<noteq> 0 \<and>
    (\<forall>b \<in> set (eligible_auths excluded as). cooling model now b \<and>
       (recovery model now b = 0 \<or> recovery model now a \<le> recovery model now b))"
proof -
  obtain b cd el er where c: "collectAvailableByPriority as model now excluded = (b, cd, el, er)"
    by (cases "collectAvailableByPriority as model now excluded")
  have e: "0 < el" "cd = el" "er \<noteq> 0" "d = max 0 (time_sub er now)"
    using assms c by (auto simp: getAvailableAuths_def getAvailableAuthsWithPriorityMode_def
        newModelCooldownError_def auth_error_def split: if_splits)
  have C: "collected model now excluded as cd el er" by (rule collect_collected [OF c])
  then have "length (filter (cooling model now) (eligible_auths excluded as)) = length (eligible_auths excluded as)"
    using e by (simp add: collected_def)
  then have all: "\<forall>b \<in> set (eligible_auths excluded as). cooling model now b"
    by (metis length_filter_less less_irrefl)
  obtain a where "a \<in> set (eligible_auths excluded as)" "recovery model now a = er"
    using C e(3) by (auto simp: collected_def)
  then show ?thesis using e all C by (intro bexI [of _ a]) (auto simp: collected_def)
qed

section \<open>Properties\<close>

text \<open>C3. Smooth weighted round robin is exactly proportional: starting afresh, with the same credentials
  available throughout, every credential is picked \<open>n\<close> times its weight in \<open>n\<close> times as many consecutive
  picks as the weights add up to, for every \<open>n\<close>.\<close>

theorem weighted_proportional:
  assumes "distinct_ids as" and "weight_sum (weighted_ring q as) \<le> cycle_bound"
    and "mget (wr_states s) (weighted_key q) = None"
  shows "\<exists>ps. picks WeightedPick (n * nat (weight_sum (weighted_ring q as))) s q as = map Inr ps \<and>
    (\<forall>a \<in> set (weighted_ring q as). int (count_list ps a) = int n * weight_of a)"
proof -
  have "credits (weighted_ring q as) (\<lambda>_. 0) (mget_or fresh_smooth (wr_states s) (weighted_key q))"
    using assms(3) by (simp add: credits_def mget_or_def fresh_smooth_def)
  then show ?thesis by (rule weighted_cycles [OF assms(1,2) refl])
qed

definition witness_cred :: "string \<Rightarrow> string \<Rightarrow> string \<Rightarrow> Auth" where
  "witness_cred i w p = (empty_auth i)\<lparr>au_attributes := [(''weight'', w), (''priority'', p)]\<rparr>"

definition witness_auths :: "Auth option list" where
  "witness_auths = [Some (witness_cred ''b'' ''2'' ''1''), None, Some (witness_cred ''a'' ''1'' ''1''),
     Some (witness_cred ''c'' ''5'' ''0'')]"

definition witness_request :: pick_request where
  "witness_request = \<lparr>rq_provider = ''codex'', rq_model = ''m'', rq_excluded = [], rq_now = 10,
     rq_websocket = False, rq_route_model = []\<rparr>"

lemma witness_distinct: "distinct_ids witness_auths"
  by code_simp

theorem weighted_proportional_witness:
  "map au_id (weighted_ring witness_request witness_auths) = [''a'', ''b''] \<and>
   (\<exists>ps. picks WeightedPick (2 * nat (weight_sum (weighted_ring witness_request witness_auths)))
        \<lparr>wr_states = [], wr_max_keys = 0\<rparr> witness_request witness_auths = map Inr ps \<and>
     (\<forall>a \<in> set (weighted_ring witness_request witness_auths). int (count_list ps a) = 2 * weight_of a))"
proof
  show "map au_id (weighted_ring witness_request witness_auths) = [''a'', ''b'']" by code_simp
  have "weight_sum (weighted_ring witness_request witness_auths) = 3" by code_simp
  then show "\<exists>ps. picks WeightedPick (2 * nat (weight_sum (weighted_ring witness_request witness_auths)))
        \<lparr>wr_states = [], wr_max_keys = 0\<rparr> witness_request witness_auths = map Inr ps \<and>
     (\<forall>a \<in> set (weighted_ring witness_request witness_auths). int (count_list ps a) = 2 * weight_of a)"
    using weighted_proportional [OF witness_distinct, of witness_request "\<lparr>wr_states = [], wr_max_keys = 0\<rparr>" 2] by (simp add: cycle_bound_def)
qed

text \<open>C6. Round robin is fair from any state: as many consecutive picks as there are available
  credentials return each of them exactly once, in the order of their identifiers from some point of
  the ring on.\<close>

theorem round_robin_fair:
  assumes "distinct_ids as"
  shows "\<exists>k. picks RoundRobinPick (length (ring q as)) s q as = map Inr (rotate k (ring q as))"
  using assms by (rule round_robin_ring)

theorem round_robin_fair_witness:
  "map au_id (ring witness_request witness_auths) = [''a'', ''b''] \<and>
   (\<exists>k. picks RoundRobinPick (length (ring witness_request witness_auths))
      \<lparr>rr_last_picked = [(''codex:m'', ''aa'')], rr_max_keys = 1\<rparr> witness_request witness_auths =
      map Inr (rotate k (ring witness_request witness_auths)))"
proof
  show "map au_id (ring witness_request witness_auths) = [''a'', ''b'']" by code_simp
qed (rule round_robin_fair [OF witness_distinct])

text \<open>A weighted pick is a candidate of positive weight that is neither excluded nor blocked,
  and no such candidate has a higher priority.\<close>

theorem weighted_pick_best:
  assumes "WeightedPick s q as = (s', Inr a)"
  shows "Some a \<in> set as \<and> 0 < weight_of a \<and> request_ok (rq_model q) (rq_now q) (rq_excluded q) a \<and>
    (\<forall>b. Some b \<in> set as \<and> 0 < weight_of b \<and> request_ok (rq_model q) (rq_now q) (rq_excluded q) b \<longrightarrow>
       authPriority b \<le> authPriority a)"
  using weighted.pick_from [OF assms] weighted.pick_ok [OF assms] weighted.pick_priority [OF assms] by blast

theorem weighted_pick_best_witness:
  "\<exists>a s'. WeightedPick \<lparr>wr_states = [], wr_max_keys = 0\<rparr> witness_request witness_auths = (s', Inr a) \<and>
     au_id a = ''b'' \<and> 0 < weight_of a \<and> authPriority (witness_cred ''c'' ''5'' ''0'') \<le> authPriority a"
proof -
  let ?s = "\<lparr>wr_states = [], wr_max_keys = 0\<rparr>"
  have i: "map_option au_id (case snd (WeightedPick ?s witness_request witness_auths) of Inr a \<Rightarrow> Some a | _ \<Rightarrow> None) = Some ''b''"
    by code_simp
  then obtain a where "snd (WeightedPick ?s witness_request witness_auths) = Inr a" and b: "au_id a = ''b''"
    by (auto split: sum.splits)
  then have p: "WeightedPick ?s witness_request witness_auths = (fst (WeightedPick ?s witness_request witness_auths), Inr a)"
    by (metis prod.collapse)
  have c: "Some (witness_cred ''c'' ''5'' ''0'') \<in> set witness_auths" by (simp add: witness_auths_def)
  have "0 < weight_of (witness_cred ''c'' ''5'' ''0'')"
    "request_ok (rq_model witness_request) (rq_now witness_request) (rq_excluded witness_request) (witness_cred ''c'' ''5'' ''0'')"
    by code_simp+
  then show ?thesis using weighted_pick_best [OF p] p b c by blast
qed

text \<open>C17. A failing request walks through all its candidates: tried ones being excluded, consecutive
  round-robin picks never repeat a credential, never go up in priority, and with as many tries as
  there are candidates they reach every one of them.\<close>

theorem failover_complete:
  assumes "card (au_id ` set (candidates (rq_model q) (rq_now q) (rq_excluded q) as)) \<le> n"
  shows "distinct (map au_id (tries RoundRobinPick n s q as)) \<and>
    sorted_wrt (\<lambda>a b. authPriority b \<le> authPriority a) (tries RoundRobinPick n s q as) \<and>
    au_id ` set (tries RoundRobinPick n s q as) = au_id ` set (candidates (rq_model q) (rq_now q) (rq_excluded q) as)"
  using round_robin.tries_distinct round_robin.tries_priority round_robin.tries_all [of q as n s] assms by simp

theorem failover_complete_witness:
  "map au_id (tries RoundRobinPick 3 \<lparr>rr_last_picked = [], rr_max_keys = 0\<rparr> witness_request witness_auths) = [''a'', ''b'', ''c''] \<and>
   au_id ` set (tries RoundRobinPick 3 \<lparr>rr_last_picked = [], rr_max_keys = 0\<rparr> witness_request witness_auths) =
     au_id ` set (candidates ''m'' 10 [] witness_auths)"
proof
  show "map au_id (tries RoundRobinPick 3 \<lparr>rr_last_picked = [], rr_max_keys = 0\<rparr> witness_request witness_auths) = [''a'', ''b'', ''c'']"
    by code_simp
  have m: "map au_id (candidates ''m'' 10 [] witness_auths) = [''b'', ''a'', ''c'']" by code_simp
  have "au_id ` set (candidates ''m'' 10 [] witness_auths) = set (map au_id (candidates ''m'' 10 [] witness_auths))" by simp
  then have "card (au_id ` set (candidates (rq_model witness_request) (rq_now witness_request) (rq_excluded witness_request) witness_auths)) \<le> 3"
    unfolding witness_request_def by (simp add: m)
  from failover_complete [OF this] show "au_id ` set (tries RoundRobinPick 3 \<lparr>rr_last_picked = [], rr_max_keys = 0\<rparr> witness_request witness_auths) =
     au_id ` set (candidates ''m'' 10 [] witness_auths)"
    by (simp add: witness_request_def)
qed

text \<open>The cooldown error is returned only when every candidate that is not excluded is cooling
  down, and the time it announces is that to the earliest of their recoveries.\<close>

theorem cooldown_error_earliest:
  assumes "getAvailableAuths as provider model now excluded = Inl (ModelCooldownError m p d)"
  shows "\<exists>a \<in> set (eligible_auths excluded as). d = max 0 (time_sub (recovery model now a) now) \<and>
    recovery model now a \<noteq> 0 \<and>
    (\<forall>b \<in> set (eligible_auths excluded as). cooling model now b \<and>
       (recovery model now b = 0 \<or> recovery model now a \<le> recovery model now b))"
  using assms by (rule cooldown_error)

theorem cooldown_error_earliest_witness:
  "getAvailableAuths [Some witness_auth, None] ''mixed'' ''gpt-5'' 50 [] = Inl (ModelCooldownError ''gpt-5'' [] 100) \<and>
   (\<exists>a \<in> set (eligible_auths [] [Some witness_auth, None]). 100 = max 0 (time_sub (recovery ''gpt-5'' 50 a) 50))"
proof -
  have e: "getAvailableAuths [Some witness_auth, None] ''mixed'' ''gpt-5'' 50 [] = Inl (ModelCooldownError ''gpt-5'' [] 100)"
    by code_simp
  show ?thesis using e cooldown_error_earliest [OF e] by blast
qed

end
