(* ===== verification/Session_Cache.thy ===== *)
theory Session_Cache
  imports Prelude
begin

text \<open>
  The session cache of \<open>sdk/cliproxy/auth/session_cache.go\<close>: identifiers of client sessions
  bound to credentials for a limited time. Several identifiers of one logical session form an alias
  group, which is bound, refreshed, moved and dropped together. The cache is a record passed from
  call to call, and the mutex makes a call one step; the clock is an argument, twice where the code
  reads it twice. The map is an association list, the generation counter, a \<open>uint64\<close> which
  would wrap after \<open>2 ^ 64\<close> writes, a natural number. The cleanup goroutine is the operation
  \<open>cleanup\<close>, which may happen at any time.
\<close>

section \<open>State\<close>

record sessionEntry =
  se_auth :: string
  se_expires :: time
  se_aliases :: "string list"
  se_gen :: nat

record SessionCache =
  sc_entries :: "(string, sessionEntry) gomap"
  sc_ttl :: duration
  sc_gen :: nat

definition maxStableSessionAliases :: nat where "maxStableSessionAliases = 64"

definition NewSessionCache :: "duration \<Rightarrow> SessionCache" where
  "NewSessionCache ttl = \<lparr>sc_entries = [], sc_ttl = (if ttl \<le> 0 then 30 * minute else ttl), sc_gen = 0\<rparr>"

section \<open>Alias lists\<close>

definition add_alias :: "string list \<Rightarrow> string \<Rightarrow> string list" where
  "add_alias aliases a = (if a = [] \<or> a \<in> set aliases then aliases else aliases @ [a])"

definition mergeSessionAliases :: "string list \<Rightarrow> string list \<Rightarrow> string list" where
  "mergeSessionAliases existing candidates = foldl add_alias (foldl add_alias [] existing) candidates"

definition isLocalPromptCacheSessionAlias :: "string \<Rightarrow> bool" where
  "isLocalPromptCacheSessionAlias a =
     (has_prefix a ''pck:'' \<or>
      (case cut ''::'' a of None \<Rightarrow> False | Some (_, sessionAndModel) \<Rightarrow> has_prefix sessionAndModel ''pck:''))"

text \<open>The loop state: the aliases kept, whether one of them is a prompt cache key, and how many are not.\<close>

definition compact_step :: "(string \<Rightarrow> bool) \<Rightarrow> string list \<times> bool \<times> nat \<Rightarrow> string \<Rightarrow> string list \<times> bool \<times> nat" where
  "compact_step isPromptCacheAlias acc a =
     (let (compacted, hasPromptCacheKey, stableAliases) = acc in
      if isPromptCacheAlias a then
        (if hasPromptCacheKey then acc else (compacted @ [a], True, stableAliases))
      else if stableAliases \<ge> maxStableSessionAliases then acc
      else (compacted @ [a], hasPromptCacheKey, stableAliases + 1))"

definition compactSessionAliasesWith :: "string list \<Rightarrow> (string \<Rightarrow> bool) \<Rightarrow> string list" where
  "compactSessionAliasesWith aliases isPromptCacheAlias = fst (foldl (compact_step isPromptCacheAlias) ([], False, 0) aliases)"

definition compactSessionAliases :: "string list \<Rightarrow> string list" where
  "compactSessionAliases aliases = compactSessionAliasesWith aliases isLocalPromptCacheSessionAlias"

definition compactHomeSessionAliases :: "string list \<Rightarrow> string list" where
  "compactHomeSessionAliases aliases = compactSessionAliasesWith aliases (\<lambda>a. has_prefix a ''pck:'')"

fun equalSessionAliases :: "string list \<Rightarrow> string list \<Rightarrow> bool" where
  "equalSessionAliases [] [] = True"
| "equalSessionAliases (x # xs) (y # ys) = (x = y \<and> equalSessionAliases xs ys)"
| "equalSessionAliases _ _ = False"

section \<open>Groups\<close>

definition same_group :: "sessionEntry \<Rightarrow> sessionEntry \<Rightarrow> bool" where
  "same_group current e \<longleftrightarrow> se_auth current = se_auth e \<and> se_expires current = se_expires e \<and>
     equalSessionAliases (se_aliases current) (se_aliases e)"

definition remove_alias :: "sessionEntry \<Rightarrow> (string, sessionEntry) gomap \<Rightarrow> string \<Rightarrow> (string, sessionEntry) gomap" where
  "remove_alias e m a =
     (case mget m a of None \<Rightarrow> m
      | Some current \<Rightarrow> if same_group current e then mdel a m else m)"

definition removeAliasGroupLocked :: "sessionEntry \<Rightarrow> (string, sessionEntry) gomap \<Rightarrow> (string, sessionEntry) gomap" where
  "removeAliasGroupLocked e m = foldl (remove_alias e) m (se_aliases e)"

definition replaceAliasGroupsLocked ::
  "string \<Rightarrow> time \<Rightarrow> string list \<Rightarrow> sessionEntry list \<Rightarrow> SessionCache \<Rightarrow> SessionCache" where
  "replaceAliasGroupsLocked authID expiresAt aliases previousGroups c =
     (let gen = sc_gen c + 1;
          e = \<lparr>se_auth = authID, se_expires = expiresAt, se_aliases = aliases, se_gen = gen\<rparr>;
          m = foldl (\<lambda>m previous. removeAliasGroupLocked previous m) (sc_entries c) previousGroups
      in c\<lparr>sc_entries := foldl (\<lambda>m a. mput a e m) m aliases, sc_gen := gen\<rparr>)"

section \<open>Reads\<close>

text \<open>\<open>Get\<close> reads the clock before the read lock and again under the write lock; a session
  found expired by both is removed with its group.\<close>

definition Get :: "time \<Rightarrow> time \<Rightarrow> string \<Rightarrow> SessionCache \<Rightarrow> SessionCache \<times> string option" where
  "Get now now' sessionID c =
     (if sessionID = [] then (c, None)
      else case mget (sc_entries c) sessionID of
        None \<Rightarrow> (c, None)
      | Some e \<Rightarrow>
          if now < se_expires e then (c, Some (se_auth e))
          else if now' < se_expires e then (c, Some (se_auth e))
          else (c\<lparr>sc_entries := removeAliasGroupLocked e (sc_entries c)\<rparr>, None))"

definition GetAndRefresh :: "time \<Rightarrow> string \<Rightarrow> SessionCache \<Rightarrow> SessionCache \<times> string option" where
  "GetAndRefresh now sessionID c =
     (if sessionID = [] then (c, None)
      else case mget (sc_entries c) sessionID of
        None \<Rightarrow> (c, None)
      | Some e \<Rightarrow>
          if \<not> now < se_expires e then (c\<lparr>sc_entries := removeAliasGroupLocked e (sc_entries c)\<rparr>, None)
          else (replaceAliasGroupsLocked (se_auth e) (now + sc_ttl c)
                  (compactSessionAliases (mergeSessionAliases [sessionID] (se_aliases e))) [e] c,
                Some (se_auth e)))"

definition GetWithGeneration :: "time \<Rightarrow> string \<Rightarrow> SessionCache \<Rightarrow> (string \<times> nat \<times> string list) option" where
  "GetWithGeneration now sessionID c =
     (if sessionID = [] then None
      else case mget (sc_entries c) sessionID of
        None \<Rightarrow> None
      | Some e \<Rightarrow> if \<not> now < se_expires e then None else Some (se_auth e, se_gen e, se_aliases e))"

section \<open>Writes\<close>

text \<open>The loop of \<open>setAliasesUntil\<close>: the map, the groups to replace and the aliases so far.\<close>

definition absorb_step ::
  "time \<Rightarrow> (string, sessionEntry) gomap \<times> sessionEntry list \<times> string list \<Rightarrow> string \<Rightarrow>
   (string, sessionEntry) gomap \<times> sessionEntry list \<times> string list" where
  "absorb_step now acc sessionID =
     (let (m, previousGroups, aliases) = acc in
      case mget m sessionID of
        None \<Rightarrow> acc
      | Some e \<Rightarrow>
          if \<not> now < se_expires e then (removeAliasGroupLocked e m, previousGroups, aliases)
          else (m, previousGroups @ [e], mergeSessionAliases aliases (se_aliases e)))"

definition setAliasesUntil :: "time \<Rightarrow> string \<Rightarrow> time \<Rightarrow> string list \<Rightarrow> SessionCache \<Rightarrow> SessionCache" where
  "setAliasesUntil now authID expiresAt sessionIDs c =
     (if authID = [] \<or> expiresAt = 0 then c
      else if \<not> now < expiresAt then c
      else let (m, previousGroups, aliases0) =
             foldl (absorb_step now) (sc_entries c, [], mergeSessionAliases [] sessionIDs) sessionIDs;
             aliases = compactSessionAliases aliases0;
             c' = c\<lparr>sc_entries := m\<rparr>
        in if aliases = [] then c'
           else replaceAliasGroupsLocked authID expiresAt aliases previousGroups c')"

definition SetAliases :: "time \<Rightarrow> string \<Rightarrow> string list \<Rightarrow> SessionCache \<Rightarrow> SessionCache" where
  "SetAliases now authID sessionIDs c = setAliasesUntil now authID (now + sc_ttl c) sessionIDs c"

definition SetBinding :: "time \<Rightarrow> string \<Rightarrow> string \<Rightarrow> SessionCache \<Rightarrow> SessionCache" where
  "SetBinding now sessionID authID c = SetAliases now authID [sessionID] c"

definition RestoreAliasesIfAbsent :: "time \<Rightarrow> string \<Rightarrow> string list \<Rightarrow> SessionCache \<Rightarrow> SessionCache \<times> bool" where
  "RestoreAliasesIfAbsent now authID sessionIDs c =
     (if authID = [] \<or> sessionIDs = [] then (c, False)
      else let absent = filter (\<lambda>sid. sid \<noteq> [] \<and>
                (case mget (sc_entries c) sid of None \<Rightarrow> True | Some e \<Rightarrow> \<not> now < se_expires e)) sessionIDs;
             aliases = compactSessionAliases absent
        in if aliases = [] then (c, False)
           else let gen = sc_gen c + 1;
                    e = \<lparr>se_auth = authID, se_expires = now + sc_ttl c, se_aliases = aliases, se_gen = gen\<rparr>
                in (c\<lparr>sc_entries := foldl (\<lambda>m a. mput a e m) (sc_entries c) aliases, sc_gen := gen\<rparr>, True))"

definition Touch :: "time \<Rightarrow> string \<Rightarrow> string \<Rightarrow> SessionCache \<Rightarrow> SessionCache \<times> bool" where
  "Touch now sessionID expectedAuthID c =
     (if sessionID = [] \<or> expectedAuthID = [] then (c, False)
      else case mget (sc_entries c) sessionID of
        None \<Rightarrow> (c, False)
      | Some e \<Rightarrow>
          if se_auth e \<noteq> expectedAuthID \<or> \<not> now < se_expires e then (c, False)
          else (replaceAliasGroupsLocked expectedAuthID (now + sc_ttl c)
                  (compactSessionAliases (mergeSessionAliases [sessionID] (se_aliases e))) [e] c, True))"

section \<open>Removals\<close>

text \<open>One alias of the group of \<open>e\<close> loses \<open>sessionID\<close>; \<open>newGen\<close> is what its
  generation becomes.\<close>

definition drop_alias ::
  "sessionEntry \<Rightarrow> string \<Rightarrow> nat option \<Rightarrow> (string, sessionEntry) gomap \<Rightarrow> string \<Rightarrow> (string, sessionEntry) gomap" where
  "drop_alias e sessionID newGen m a =
     (if a = sessionID then m
      else case mget m a of
        None \<Rightarrow> m
      | Some current \<Rightarrow>
          if se_auth current \<noteq> se_auth e then m
          else mput a (current\<lparr>se_aliases := filter (\<lambda>x. x \<noteq> sessionID) (se_aliases current),
                               se_gen := (case newGen of None \<Rightarrow> se_gen current | Some g \<Rightarrow> g)\<rparr>) m)"

definition CompareAndDelete :: "string \<Rightarrow> string \<Rightarrow> SessionCache \<Rightarrow> SessionCache \<times> bool" where
  "CompareAndDelete sessionID expectedAuthID c =
     (if sessionID = [] \<or> expectedAuthID = [] then (c, False)
      else case mget (sc_entries c) sessionID of
        None \<Rightarrow> (c, False)
      | Some e \<Rightarrow>
          if se_auth e \<noteq> expectedAuthID then (c, False)
          else (c\<lparr>sc_entries := foldl (drop_alias e sessionID None) (mdel sessionID (sc_entries c)) (se_aliases e)\<rparr>, True))"

definition Invalidate :: "string \<Rightarrow> SessionCache \<Rightarrow> SessionCache" where
  "Invalidate sessionID c =
     (if sessionID = [] then c
      else case mget (sc_entries c) sessionID of
        None \<Rightarrow> c
      | Some e \<Rightarrow>
          let gen = sc_gen c + 1 in
          c\<lparr>sc_entries := foldl (drop_alias e sessionID (Some gen)) (mdel sessionID (sc_entries c)) (se_aliases e),
            sc_gen := gen\<rparr>)"

definition delete_matching ::
  "string \<Rightarrow> sessionEntry \<Rightarrow> (string, sessionEntry) gomap \<Rightarrow> string \<Rightarrow> (string, sessionEntry) gomap" where
  "delete_matching expectedAuthID e m a =
     (case mget m a of None \<Rightarrow> m
      | Some current \<Rightarrow>
          if se_auth current = expectedAuthID \<and> equalSessionAliases (se_aliases current) (se_aliases e) then mdel a m else m)"

definition CompareAndDeleteAliases :: "string \<Rightarrow> string \<Rightarrow> SessionCache \<Rightarrow> SessionCache \<times> string list" where
  "CompareAndDeleteAliases sessionID expectedAuthID c =
     (if sessionID = [] \<or> expectedAuthID = [] then (c, [])
      else case mget (sc_entries c) sessionID of
        None \<Rightarrow> (c, [])
      | Some e \<Rightarrow>
          if se_auth e \<noteq> expectedAuthID then (c, [])
          else (c\<lparr>sc_entries := foldl (delete_matching expectedAuthID e) (sc_entries c) (se_aliases e),
                  sc_gen := sc_gen c + 1\<rparr>, se_aliases e))"

text \<open>Go's nil slice and an empty one differ for the caller of this method, hence the option.\<close>

definition CompareAndDeleteGroup ::
  "string \<Rightarrow> string \<Rightarrow> nat \<Rightarrow> string list \<Rightarrow> SessionCache \<Rightarrow> SessionCache \<times> string list option" where
  "CompareAndDeleteGroup sessionID expectedAuthID expectedGen expectedAliases c =
     (if sessionID = [] \<or> expectedAuthID = [] then (c, None)
      else case mget (sc_entries c) sessionID of
        None \<Rightarrow> (c, None)
      | Some e \<Rightarrow>
          if se_auth e \<noteq> expectedAuthID \<or> se_gen e \<noteq> expectedGen then (c, None)
          else if \<not> equalSessionAliases (compactSessionAliases (se_aliases e)) (compactSessionAliases expectedAliases) then (c, None)
          else (c\<lparr>sc_entries := foldl (delete_matching expectedAuthID e) (sc_entries c) (se_aliases e),
                  sc_gen := sc_gen c + 1\<rparr>,
                if se_aliases e = [] then None else Some (se_aliases e)))"

text \<open>What the first loop of \<open>CompareAndReplaceAliases\<close> checks of each observed alias, and the
  second of each added one.\<close>

definition observed_current ::
  "time \<Rightarrow> string \<Rightarrow> nat \<Rightarrow> string list \<Rightarrow> (string, sessionEntry) gomap \<Rightarrow> string \<Rightarrow> bool" where
  "observed_current now expectedAuthID expectedGen observedAliases m a =
     (case mget m a of None \<Rightarrow> False
      | Some e \<Rightarrow> now < se_expires e \<and> se_auth e = expectedAuthID \<and> se_gen e = expectedGen \<and>
          equalSessionAliases (se_aliases e) observedAliases)"

definition taken_alias :: "time \<Rightarrow> string list \<Rightarrow> (string, sessionEntry) gomap \<Rightarrow> string \<Rightarrow> bool" where
  "taken_alias now observedAliases m a =
     (a \<notin> set observedAliases \<and> (case mget m a of None \<Rightarrow> False | Some e \<Rightarrow> now < se_expires e))"

definition CompareAndReplaceAliases ::
  "time \<Rightarrow> string \<Rightarrow> nat \<Rightarrow> string list \<Rightarrow> string \<Rightarrow> string list \<Rightarrow> SessionCache \<Rightarrow> SessionCache \<times> bool" where
  "CompareAndReplaceAliases now expectedAuthID expectedGen observedAliases newAuthID additionalAliases c =
     (if expectedAuthID = [] \<or> expectedGen = 0 \<or> observedAliases = [] \<or> newAuthID = [] then (c, False)
      else if \<not> list_all (observed_current now expectedAuthID expectedGen observedAliases (sc_entries c)) observedAliases
        then (c, False)
      else case mget (sc_entries c) (hd observedAliases) of
        None \<Rightarrow> (c, False)
      | Some matchedEntry \<Rightarrow>
          if length (se_aliases matchedEntry) \<noteq> length observedAliases then (c, False)
          else let allAliases = compactSessionAliases (mergeSessionAliases observedAliases additionalAliases) in
            if allAliases = [] then (c, False)
            else if list_ex (taken_alias now observedAliases (sc_entries c)) allAliases then (c, False)
            else (replaceAliasGroupsLocked newAuthID (now + sc_ttl c) allAliases [matchedEntry] c, True))"

definition CacheInvalidateAuth :: "string \<Rightarrow> SessionCache \<Rightarrow> SessionCache" where
  "CacheInvalidateAuth authID c =
     (if authID = [] then c else c\<lparr>sc_entries := filter (\<lambda>(_, e). se_auth e \<noteq> authID) (sc_entries c)\<rparr>)"

definition cleanup :: "time \<Rightarrow> SessionCache \<Rightarrow> SessionCache" where
  "cleanup now c = c\<lparr>sc_entries := filter (\<lambda>(_, e). now < se_expires e) (sc_entries c)\<rparr>"

section \<open>Alias lists\<close>

lemma equalSessionAliases_eq [simp]: "equalSessionAliases xs ys = (xs = ys)"
  by (induction xs ys rule: equalSessionAliases.induct) auto

lemma add_alias_set: "set (add_alias as a) = set as \<union> ({a} - {[]})"
  by (auto simp: add_alias_def)

lemma add_alias_distinct: "distinct as \<Longrightarrow> [] \<notin> set as \<Longrightarrow> distinct (add_alias as a) \<and> [] \<notin> set (add_alias as a)"
  by (auto simp: add_alias_def)

lemma foldl_add_alias:
  "distinct as \<Longrightarrow> [] \<notin> set as \<Longrightarrow>
   distinct (foldl add_alias as xs) \<and> [] \<notin> set (foldl add_alias as xs) \<and> set (foldl add_alias as xs) = set as \<union> (set xs - {[]})"
proof (induction xs arbitrary: as)
  case (Cons x xs)
  then show ?case using Cons.IH [of "add_alias as x"] add_alias_distinct [of as x] by (auto simp: add_alias_set)
qed simp

lemma foldl_add_alias_hd: "as \<noteq> [] \<Longrightarrow> foldl add_alias as xs \<noteq> [] \<and> hd (foldl add_alias as xs) = hd as"
proof (induction xs arbitrary: as)
  case (Cons x xs)
  have "add_alias as x \<noteq> []" "hd (add_alias as x) = hd as" using Cons.prems by (auto simp: add_alias_def)
  then show ?case using Cons.IH [of "add_alias as x"] by simp
qed simp

lemma set_merge [simp]: "set (mergeSessionAliases xs ys) = set xs \<union> set ys - {[]}"
  using foldl_add_alias [of "[]" xs] foldl_add_alias [of "foldl add_alias [] xs" ys]
  by (auto simp: mergeSessionAliases_def)

lemma merge_distinct [simp]: "distinct (mergeSessionAliases xs ys)"
  using foldl_add_alias [of "[]" xs] foldl_add_alias [of "foldl add_alias [] xs" ys]
  by (auto simp: mergeSessionAliases_def)

lemma merge_hd: "x \<noteq> [] \<Longrightarrow> mergeSessionAliases [x] ys \<noteq> [] \<and> hd (mergeSessionAliases [x] ys) = x"
  using foldl_add_alias_hd [of "[x]" ys] by (simp add: mergeSessionAliases_def add_alias_def)

text \<open>An alias list a group may have: no repetition, no empty identifier, at most one prompt cache
  key and at most 64 others.\<close>

definition alias_list_ok :: "string list \<Rightarrow> bool" where
  "alias_list_ok as \<longleftrightarrow> distinct as \<and> [] \<notin> set as \<and>
     length (filter isLocalPromptCacheSessionAlias as) \<le> 1 \<and>
     length (filter (\<lambda>a. \<not> isLocalPromptCacheSessionAlias a) as) \<le> maxStableSessionAliases"

lemma alias_list_ok_filter: "alias_list_ok as \<Longrightarrow> alias_list_ok (filter P as)"
proof -
  have "length (filter Q (filter P as)) \<le> length (filter Q as)" for Q
    by (induction as) auto
  then show "alias_list_ok as \<Longrightarrow> alias_list_ok (filter P as)"
    unfolding alias_list_ok_def by (meson distinct_filter filter_is_subset le_trans subsetD)
qed

definition compact_inv :: "(string \<Rightarrow> bool) \<Rightarrow> string list \<Rightarrow> string list \<times> bool \<times> nat \<Rightarrow> bool" where
  "compact_inv P xs acc \<longleftrightarrow> (case acc of (c, h, n) \<Rightarrow>
     set c \<subseteq> set xs \<and> (distinct xs \<longrightarrow> distinct c) \<and> length (filter P c) = (if h then 1 else 0) \<and>
     length (filter (\<lambda>a. \<not> P a) c) = n \<and> n \<le> maxStableSessionAliases \<and>
     (xs \<noteq> [] \<longrightarrow> c \<noteq> [] \<and> hd c = hd xs))"

lemma compact_inv_skip: "xs \<noteq> [] \<Longrightarrow> compact_inv P xs acc \<Longrightarrow> compact_inv P (xs @ [x]) acc"
  by (auto simp: compact_inv_def split: prod.splits)

lemma compact_inv_keep:
  assumes "compact_inv P xs (c, h, n)"
  shows "P x \<Longrightarrow> \<not> h \<Longrightarrow> compact_inv P (xs @ [x]) (c @ [x], True, n)"
    and "\<not> P x \<Longrightarrow> n < maxStableSessionAliases \<Longrightarrow> compact_inv P (xs @ [x]) (c @ [x], h, n + 1)"
proof -
  have s: "set c \<subseteq> set xs" "distinct xs \<Longrightarrow> distinct c" "xs \<noteq> [] \<Longrightarrow> c \<noteq> [] \<and> hd c = hd xs"
    and l: "length (filter P c) = (if h then 1 else 0)" "length (filter (\<lambda>a. \<not> P a) c) = n" "n \<le> maxStableSessionAliases"
    using assms by (auto simp: compact_inv_def)
  have k: "set (c @ [x]) \<subseteq> set (xs @ [x])" "distinct (xs @ [x]) \<Longrightarrow> distinct (c @ [x])" using s by auto
  have h: "c @ [x] \<noteq> [] \<and> hd (c @ [x]) = hd (xs @ [x])" using s by (cases "xs = []") auto
  show "P x \<Longrightarrow> \<not> h \<Longrightarrow> compact_inv P (xs @ [x]) (c @ [x], True, n)"
    using k h l by (simp add: compact_inv_def)
  show "\<not> P x \<Longrightarrow> n < maxStableSessionAliases \<Longrightarrow> compact_inv P (xs @ [x]) (c @ [x], h, n + 1)"
    using k h l by (simp add: compact_inv_def)
qed

lemma compact_inv_start: "compact_inv P [] (c, h, n) \<Longrightarrow> \<not> h \<and> n = 0"
  by (auto simp: compact_inv_def split: if_splits)

lemma compact_steps: "compact_inv P xs (foldl (compact_step P) ([], False, 0) xs)"
proof (induction xs rule: rev_induct)
  case Nil
  then show ?case by (simp add: compact_inv_def)
next
  case (snoc x xs)
  obtain c h n where f: "foldl (compact_step P) ([], False, 0) xs = (c, h, n)"
    by (cases "foldl (compact_step P) ([], False, 0) xs")
  note I = snoc [unfolded f]
  have m: "0 < maxStableSessionAliases" by (simp add: maxStableSessionAliases_def)
  have ne: "h \<or> n \<ge> maxStableSessionAliases \<Longrightarrow> xs \<noteq> []"
    using compact_inv_start I m by fastforce
  have "foldl (compact_step P) ([], False, 0) (xs @ [x]) =
      (if P x then if h then (c, h, n) else (c @ [x], True, n)
       else if n \<ge> maxStableSessionAliases then (c, h, n) else (c @ [x], h, n + 1))"
    using f by (simp add: compact_step_def)
  then show ?case
    using compact_inv_skip [OF ne I, of x] compact_inv_keep [OF I, of x]
    by (cases h; cases "P x"; cases "n < maxStableSessionAliases") simp_all
qed

lemma compact_fold_id:
  "(h \<longrightarrow> filter P xs = []) \<Longrightarrow> length (filter P xs) \<le> 1 \<Longrightarrow>
   n + length (filter (\<lambda>a. \<not> P a) xs) \<le> maxStableSessionAliases \<Longrightarrow> fst (foldl (compact_step P) (c, h, n) xs) = c @ xs"
proof (induction xs arbitrary: c h n)
  case (Cons x xs)
  show ?case
  proof (cases "P x")
    case True
    then have "\<not> h" "filter P xs = []" using Cons.prems by auto
    then show ?thesis using True Cons.IH [of True n "c @ [x]"] Cons.prems by (simp add: compact_step_def)
  next
    case False
    then show ?thesis using Cons.IH [of h "n + 1" "c @ [x]"] Cons.prems by (simp add: compact_step_def)
  qed
qed simp

lemma compact_ok [simp]:
  "distinct as \<Longrightarrow> [] \<notin> set as \<Longrightarrow> alias_list_ok (compactSessionAliases as)"
  using compact_steps [of isLocalPromptCacheSessionAlias as]
  by (auto simp: compact_inv_def alias_list_ok_def compactSessionAliases_def compactSessionAliasesWith_def split: prod.splits)

lemma compact_subset: "set (compactSessionAliases as) \<subseteq> set as"
  using compact_steps [of isLocalPromptCacheSessionAlias as]
  by (auto simp: compact_inv_def compactSessionAliases_def compactSessionAliasesWith_def split: prod.splits)

lemma compact_hd: "as \<noteq> [] \<Longrightarrow> compactSessionAliases as \<noteq> [] \<and> hd (compactSessionAliases as) = hd as"
  using compact_steps [of isLocalPromptCacheSessionAlias as]
  by (auto simp: compact_inv_def compactSessionAliases_def compactSessionAliasesWith_def split: prod.splits)

lemma compact_id: "alias_list_ok as \<Longrightarrow> compactSessionAliases as = as"
  by (simp add: alias_list_ok_def compactSessionAliases_def compactSessionAliasesWith_def compact_fold_id)

lemma compact_merge_ok [simp]: "alias_list_ok (compactSessionAliases (mergeSessionAliases xs ys))"
  by simp

lemma compact_merge_self: "x \<noteq> [] \<Longrightarrow> x \<in> set (compactSessionAliases (mergeSessionAliases [x] ys))"
  using merge_hd [of x ys] compact_hd [of "mergeSessionAliases [x] ys"] by (metis hd_in_set)

section \<open>Bindings\<close>

text \<open>
  What a caller sees of the cache at a moment: the credential an identifier is bound to, the aliases
  of its group and its expiry. An expired entry is no binding.
\<close>

type_synonym bindings = "string \<Rightarrow> (string \<times> string list \<times> time) option"

definition entry_fields :: "sessionEntry \<Rightarrow> string \<times> string list \<times> time" where
  "entry_fields e = (se_auth e, se_aliases e, se_expires e)"

definition binding :: "time \<Rightarrow> (string, sessionEntry) gomap \<Rightarrow> bindings" where
  "binding now m a = (case mget m a of None \<Rightarrow> None
     | Some e \<Rightarrow> if now < se_expires e then Some (entry_fields e) else None)"

text \<open>The bindings after a group is replaced: \<open>gone\<close> is unbound, then \<open>aliases\<close> are bound.\<close>

definition rebind :: "bindings \<Rightarrow> string set \<Rightarrow> string \<Rightarrow> string list \<Rightarrow> time \<Rightarrow> bindings" where
  "rebind B gone authID aliases expiresAt = (\<lambda>x.
     if x \<in> set aliases then Some (authID, aliases, expiresAt) else if x \<in> gone then None else B x)"

definition group :: "bindings \<Rightarrow> string \<Rightarrow> string set" where
  "group B a = (case B a of None \<Rightarrow> {} | Some (_, aliases, _) \<Rightarrow> set aliases)"

definition entries_ok :: "(string, sessionEntry) gomap \<Rightarrow> bool" where
  "entries_ok m \<longleftrightarrow> mwf m \<and> (\<forall>a e. mget m a = Some e \<longrightarrow> a \<in> set (se_aliases e) \<and> alias_list_ok (se_aliases e))"

definition groups_ok :: "bindings \<Rightarrow> bool" where
  "groups_ok B \<longleftrightarrow> (\<forall>a au al ex. B a = Some (au, al, ex) \<longrightarrow> (\<forall>b \<in> set al. B b = Some (au, al, ex)))"

definition coherent :: "time \<Rightarrow> SessionCache \<Rightarrow> bool" where
  "coherent now c \<longleftrightarrow> 0 < sc_ttl c \<and> entries_ok (sc_entries c) \<and> groups_ok (binding now (sc_entries c))"

lemma binding_SomeD:
  "binding now m a = Some (au, al, ex) \<Longrightarrow>
     \<exists>e. mget m a = Some e \<and> now < ex \<and> se_auth e = au \<and> se_aliases e = al \<and> se_expires e = ex"
  by (auto simp: binding_def entry_fields_def split: option.splits if_splits)

lemma binding_Some_live: "mget m a = Some e \<Longrightarrow> now < se_expires e \<Longrightarrow> binding now m a = Some (entry_fields e)"
  by (simp add: binding_def)

lemma binding_expired: "mget m a = Some e \<Longrightarrow> \<not> now < se_expires e \<Longrightarrow> binding now m a = None"
  by (simp add: binding_def)

lemma binding_member: "entries_ok m \<Longrightarrow> binding now m a = Some (au, al, ex) \<Longrightarrow> a \<in> set al \<and> alias_list_ok al"
  unfolding entries_ok_def by (blast dest: binding_SomeD)

lemma groups_okD: "groups_ok B \<Longrightarrow> B a = Some (au, al, ex) \<Longrightarrow> b \<in> set al \<Longrightarrow> B b = Some (au, al, ex)"
  unfolding groups_ok_def by blast

lemma binding_later: "now \<le> now' \<Longrightarrow> binding now' m a =
    (case binding now m a of None \<Rightarrow> None | Some (au, al, ex) \<Rightarrow> if now' < ex then Some (au, al, ex) else None)"
  by (auto simp: binding_def entry_fields_def split: option.splits)

lemma coherent_later: "coherent now c \<Longrightarrow> now \<le> now' \<Longrightarrow> coherent now' c"
proof -
  assume c: "coherent now c" and t: "now \<le> now'"
  then have g: "groups_ok (binding now (sc_entries c))" by (simp add: coherent_def)
  have "binding now' (sc_entries c) b = Some (au, al, ex)"
    if a: "binding now' (sc_entries c) a = Some (au, al, ex)" and b: "b \<in> set al" for a b au al ex
  proof -
    have "binding now (sc_entries c) a = Some (au, al, ex)" "now' < ex"
      using a by (auto simp: binding_later [OF t] split: option.splits if_splits)
    then show ?thesis using groups_okD [OF g _ b] by (simp add: binding_later [OF t])
  qed
  then have "groups_ok (binding now' (sc_entries c))" unfolding groups_ok_def by blast
  then show "coherent now' c" using c by (simp add: coherent_def)
qed

lemma rebind_groups_ok:
  assumes "groups_ok B" and "\<And>a au al ex. B a = Some (au, al, ex) \<Longrightarrow> a \<in> gone \<Longrightarrow> set al \<subseteq> gone"
    and "\<And>a au al ex. B a = Some (au, al, ex) \<Longrightarrow> a \<in> set al"
    and "\<And>a. a \<in> set aliases \<Longrightarrow> a \<in> gone \<or> B a = None"
  shows "groups_ok (rebind B gone au' aliases ex')"
proof -
  have "rebind B gone au' aliases ex' b = Some (au, al, ex)"
    if r: "rebind B gone au' aliases ex' a = Some (au, al, ex)" and b: "b \<in> set al" for a au al ex b
  proof (cases "a \<in> set aliases")
    case True
    then show ?thesis using r b by (auto simp: rebind_def)
  next
    case False
    then have a: "a \<notin> gone" "B a = Some (au, al, ex)" using r by (auto simp: rebind_def split: if_splits)
    then have B: "B b = Some (au, al, ex)" using assms(1) b by (blast intro: groups_okD)
    have "a \<in> set al" using assms(3) a(2) by blast
    then have "b \<notin> gone" using assms(2) [OF B] a(1) by blast
    then have "b \<notin> set aliases" using assms(4) [of b] B by auto
    then show ?thesis using B \<open>b \<notin> gone\<close> by (simp add: rebind_def)
  qed
  then show ?thesis unfolding groups_ok_def by blast
qed

section \<open>The effect of the primitives\<close>

lemma same_group_iff: "same_group e' e \<longleftrightarrow> entry_fields e' = entry_fields e"
  by (auto simp: same_group_def entry_fields_def)

lemma foldl_remove_alias:
  "mget (foldl (remove_alias e) m as) x =
     (if x \<in> set as \<and> (\<exists>e'. mget m x = Some e' \<and> same_group e' e) then None else mget m x)"
  by (induction as arbitrary: m) (auto simp: remove_alias_def split: option.splits)

lemma binding_remove:
  "binding now (removeAliasGroupLocked e m) x =
     (if x \<in> set (se_aliases e) \<and> binding now m x = Some (entry_fields e) then None else binding now m x)"
  by (auto simp: binding_def removeAliasGroupLocked_def foldl_remove_alias same_group_iff split: option.splits)

lemma foldl_remove_alias_mwf: "mwf m \<Longrightarrow> mwf (foldl (remove_alias e) m as)"
  by (induction as arbitrary: m) (auto simp: remove_alias_def split: option.splits)

lemma entries_ok_sub:
  "entries_ok m \<Longrightarrow> mwf m' \<Longrightarrow> (\<And>x e. mget m' x = Some e \<Longrightarrow> mget m x = Some e) \<Longrightarrow> entries_ok m'"
  unfolding entries_ok_def by blast

lemma entries_ok_remove: "entries_ok m \<Longrightarrow> entries_ok (removeAliasGroupLocked e m)"
  by (rule entries_ok_sub [of m])
    (auto simp: removeAliasGroupLocked_def foldl_remove_alias foldl_remove_alias_mwf entries_ok_def split: if_splits)

lemma binding_remove_groups:
  "binding now (foldl (\<lambda>m p. removeAliasGroupLocked p m) m ps) x =
     (if \<exists>p \<in> set ps. x \<in> set (se_aliases p) \<and> binding now m x = Some (entry_fields p) then None else binding now m x)"
  by (induction ps arbitrary: m) (auto simp: binding_remove)

lemma entries_ok_remove_groups: "entries_ok m \<Longrightarrow> entries_ok (foldl (\<lambda>m p. removeAliasGroupLocked p m) m ps)"
  by (induction ps arbitrary: m) (auto simp: entries_ok_remove)

lemma mget_foldl_mput_const: "mget (foldl (\<lambda>m a. mput a e m) m as) x = (if x \<in> set as then Some e else mget m x)"
  by (induction as arbitrary: m) auto

lemma mwf_foldl_mput: "mwf m \<Longrightarrow> mwf (foldl (\<lambda>m a. mput a e m) m as)"
  by (induction as arbitrary: m) auto

lemma entries_ok_mput:
  "entries_ok m \<Longrightarrow> alias_list_ok (se_aliases e) \<Longrightarrow> entries_ok (foldl (\<lambda>m a. mput a e m) m (se_aliases e))"
  by (auto simp: entries_ok_def mget_foldl_mput_const mwf_foldl_mput)

lemma binding_mput:
  "now < se_expires e \<Longrightarrow> binding now (foldl (\<lambda>m a. mput a e m) m as) x =
     (if x \<in> set as then Some (entry_fields e) else binding now m x)"
  by (auto simp: binding_def mget_foldl_mput_const)

lemma replace_entries_ok:
  "entries_ok (sc_entries c) \<Longrightarrow> alias_list_ok as \<Longrightarrow> entries_ok (sc_entries (replaceAliasGroupsLocked au ex as ps c))"
  using entries_ok_mput [of "foldl (\<lambda>m p. removeAliasGroupLocked p m) (sc_entries c) ps"
      "\<lparr>se_auth = au, se_expires = ex, se_aliases = as, se_gen = sc_gen c + 1\<rparr>"]
  by (simp add: replaceAliasGroupsLocked_def Let_def entries_ok_remove_groups)

lemma replace_ttl [simp]: "sc_ttl (replaceAliasGroupsLocked au ex as ps c) = sc_ttl c"
  by (simp add: replaceAliasGroupsLocked_def Let_def)

lemma replace_binding:
  assumes "now < ex" and "groups_ok (binding now (sc_entries c))"
    and "\<And>p. p \<in> set ps \<Longrightarrow> \<exists>a. a \<in> G \<and> binding now (sc_entries c) a = Some (entry_fields p)"
    and "\<And>a. a \<in> G \<Longrightarrow> binding now (sc_entries c) a \<noteq> None \<Longrightarrow> \<exists>p \<in> set ps. binding now (sc_entries c) a = Some (entry_fields p)"
  shows "binding now (sc_entries (replaceAliasGroupsLocked au ex as ps c)) =
    rebind (binding now (sc_entries c)) (\<Union>a \<in> G. group (binding now (sc_entries c)) a) au as ex"
proof
  fix x
  let ?B = "binding now (sc_entries c)"
  have "(\<exists>p \<in> set ps. x \<in> set (se_aliases p) \<and> ?B x = Some (entry_fields p)) \<longleftrightarrow> x \<in> (\<Union>a \<in> G. group ?B a)"
  proof
    assume "\<exists>p \<in> set ps. x \<in> set (se_aliases p) \<and> ?B x = Some (entry_fields p)"
    then obtain p where p: "p \<in> set ps" "x \<in> set (se_aliases p)" by blast
    then obtain a where "a \<in> G" "?B a = Some (entry_fields p)" using assms(3) by blast
    then show "x \<in> (\<Union>a \<in> G. group ?B a)" using p(2) by (intro UN_I [of a]) (auto simp: group_def entry_fields_def)
  next
    assume "x \<in> (\<Union>a \<in> G. group ?B a)"
    then obtain a where a: "a \<in> G" "x \<in> group ?B a" by blast
    then have "?B a \<noteq> None" by (auto simp: group_def split: option.splits)
    then obtain p where p: "p \<in> set ps" "?B a = Some (entry_fields p)" using assms(4) a(1) by blast
    then have x: "x \<in> set (se_aliases p)" using a(2) by (simp add: group_def entry_fields_def)
    then have "?B x = Some (entry_fields p)" using groups_okD [OF assms(2) p(2) [unfolded entry_fields_def] x] by (simp add: entry_fields_def)
    then show "\<exists>p \<in> set ps. x \<in> set (se_aliases p) \<and> ?B x = Some (entry_fields p)" using p(1) x by blast
  qed
  then show "binding now (sc_entries (replaceAliasGroupsLocked au ex as ps c)) x =
      rebind ?B (\<Union>a \<in> G. group ?B a) au as ex x"
    using assms(1) by (simp add: replaceAliasGroupsLocked_def Let_def binding_mput binding_remove_groups rebind_def entry_fields_def)
qed

lemma group_closed:
  "entries_ok m \<Longrightarrow> groups_ok (binding now m) \<Longrightarrow> binding now m a = Some (au, al, ex) \<Longrightarrow>
   a \<in> (\<Union>x \<in> G. group (binding now m) x) \<Longrightarrow> set al \<subseteq> (\<Union>x \<in> G. group (binding now m) x)"
proof -
  assume m: "entries_ok m" "groups_ok (binding now m)" and b: "binding now m a = Some (au, al, ex)"
    and "a \<in> (\<Union>x \<in> G. group (binding now m) x)"
  then obtain x where x: "x \<in> G" "a \<in> group (binding now m) x" by blast
  then obtain au' al' ex' where "binding now m x = Some (au', al', ex')" "a \<in> set al'"
    by (auto simp: group_def split: option.splits)
  moreover from this have "binding now m a = Some (au', al', ex')" by (rule groups_okD [OF m(2)])
  ultimately have "group (binding now m) x = set al" using b by (simp add: group_def)
  then show ?thesis using x(1) by blast
qed

lemma rebind_coherent:
  assumes "coherent now c" and "\<And>a. a \<in> set as \<Longrightarrow> a \<in> (\<Union>x \<in> G. group (binding now (sc_entries c)) x) \<or> binding now (sc_entries c) a = None"
    and "entries_ok (sc_entries c')" and "sc_ttl c' = sc_ttl c"
    and "binding now (sc_entries c') = rebind (binding now (sc_entries c)) (\<Union>a \<in> G. group (binding now (sc_entries c)) a) au as ex"
  shows "coherent now c'"
proof -
  have m: "entries_ok (sc_entries c)" "groups_ok (binding now (sc_entries c))" "0 < sc_ttl c"
    using assms(1) by (auto simp: coherent_def)
  have "groups_ok (rebind (binding now (sc_entries c)) (\<Union>a \<in> G. group (binding now (sc_entries c)) a) au as ex)"
    by (intro rebind_groups_ok m(2) group_closed [OF m(1,2)] assms(2)) (auto dest: binding_member [OF m(1)])
  then show ?thesis using assms(3-5) m(3) by (simp add: coherent_def)
qed

section \<open>The effect of the operations\<close>

abbreviation bound :: "time \<Rightarrow> SessionCache \<Rightarrow> bindings" where
  "bound now c \<equiv> binding now (sc_entries c)"

lemma coherentD:
  "coherent now c \<Longrightarrow> entries_ok (sc_entries c)"
  "coherent now c \<Longrightarrow> groups_ok (bound now c)"
  "coherent now c \<Longrightarrow> 0 < sc_ttl c"
  by (simp_all add: coherent_def)

lemma mget_filter_entries:
  "mwf m \<Longrightarrow> mget (filter (\<lambda>(_, e). P e) m) x = (case mget m x of None \<Rightarrow> None | Some e \<Rightarrow> if P e then Some e else None)"
  by (induction m) (auto simp: mget_None_iff split: option.splits)

lemma mwf_filter: "mwf m \<Longrightarrow> mwf (filter P m)"
  by (rule distinct_map_filter)

lemma rebind_nothing [simp]: "rebind B {} au [] ex = B"
  by (simp add: rebind_def)

lemma remove_expired: "\<not> now < se_expires e \<Longrightarrow> binding now (removeAliasGroupLocked e m) = binding now m"
  by (rule ext) (auto simp: binding_remove entry_fields_def dest!: binding_SomeD)

lemma permuted_alias_list_ok: "mset as = mset bs \<Longrightarrow> alias_list_ok as \<Longrightarrow> alias_list_ok bs"
  unfolding alias_list_ok_def
  by (metis mset_eq_setD mset_eq_imp_distinct_iff mset_filter size_mset)

lemma refresh_aliases:
  assumes "alias_list_ok al" and "a \<in> set al"
  shows "compactSessionAliases (mergeSessionAliases [a] al) = mergeSessionAliases [a] al"
    and "set (mergeSessionAliases [a] al) = set al"
proof -
  show s: "set (mergeSessionAliases [a] al) = set al" using assms by (auto simp: alias_list_ok_def)
  then have "mset al = mset (mergeSessionAliases [a] al)"
    using assms(1) by (intro set_eq_iff_mset_eq_distinct [THEN iffD1]) (auto simp: alias_list_ok_def)
  then show "compactSessionAliases (mergeSessionAliases [a] al) = mergeSessionAliases [a] al"
    using assms(1) by (intro compact_id) (rule permuted_alias_list_ok)
qed

lemma same_binding_coherent:
  "coherent now c \<Longrightarrow> entries_ok (sc_entries c') \<Longrightarrow> sc_ttl c' = sc_ttl c \<Longrightarrow> bound now c' = bound now c \<Longrightarrow> coherent now c'"
  by (simp add: coherent_def)

subsection \<open>Get and refresh\<close>

lemma Get_bound: "bound now' (fst (Get now now' a c)) = bound now' c"
  by (auto simp: Get_def remove_expired split: option.splits)

lemma Get_result: "now \<le> now' \<Longrightarrow> a \<noteq> [] \<Longrightarrow> snd (Get now now' a c) = map_option fst (bound now c a)"
  by (auto simp: Get_def binding_def entry_fields_def split: option.splits)

lemma Get_coherent: "coherent now' c \<Longrightarrow> coherent now' (fst (Get now now' a c))"
  by (rule same_binding_coherent) (auto simp: Get_bound, auto simp: Get_def coherent_def entries_ok_remove split: option.splits)

text \<open>What a refresh does to a bound identifier: its whole group, reordered, gets a new expiry.\<close>

lemma refresh_bound:
  assumes c: "coherent now c" and e: "mget (sc_entries c) a = Some e" "now < se_expires e"
  defines "c' \<equiv> replaceAliasGroupsLocked (se_auth e) (now + sc_ttl c)
      (compactSessionAliases (mergeSessionAliases [a] (se_aliases e))) [e] c"
  shows "coherent now c'"
    and "bound now c' = rebind (bound now c) (group (bound now c) a) (se_auth e) (mergeSessionAliases [a] (se_aliases e)) (now + sc_ttl c)"
    and "bound now c' x = (case bound now c x of None \<Rightarrow> None | Some (au, al, ex) \<Rightarrow>
      if a \<in> set al then Some (au, mergeSessionAliases [a] al, now + sc_ttl c) else Some (au, al, ex))"
proof -
  let ?B = "bound now c" and ?as = "mergeSessionAliases [a] (se_aliases e)"
  note m = coherentD [OF c]
  have B: "?B a = Some (se_auth e, se_aliases e, se_expires e)"
    using binding_Some_live [OF e] by (simp add: entry_fields_def)
  have ok: "a \<in> set (se_aliases e)" "alias_list_ok (se_aliases e)" using binding_member [OF m(1) B] by auto
  note r = refresh_aliases [OF ok(2,1)]
  have b: "bound now c' = rebind ?B (\<Union>x \<in> {a}. group ?B x) (se_auth e) ?as (now + sc_ttl c)"
    unfolding c'_def r(1) using m(3) B by (intro replace_binding m(2)) (auto simp: entry_fields_def)
  then show eq: "bound now c' = rebind ?B (group ?B a) (se_auth e) ?as (now + sc_ttl c)" by simp
  have g: "group ?B a = set (se_aliases e)" by (simp add: group_def B)
  show "coherent now c'"
  proof (rule rebind_coherent [OF c _ _ _ b])
    show "entries_ok (sc_entries c')" unfolding c'_def using m(1) by (intro replace_entries_ok) simp_all
  qed (use g r(2) in \<open>auto simp: c'_def\<close>)
  show "bound now c' x = (case ?B x of None \<Rightarrow> None | Some (au, al, ex) \<Rightarrow>
      if a \<in> set al then Some (au, mergeSessionAliases [a] al, now + sc_ttl c) else Some (au, al, ex))"
  proof (cases "x \<in> set (se_aliases e)")
    case True
    then have "?B x = Some (se_auth e, se_aliases e, se_expires e)" by (rule groups_okD [OF m(2) B])
    then show ?thesis using True ok(1) r(2) by (simp add: eq rebind_def)
  next
    case False
    have "a \<notin> set al" if "?B x = Some (au, al, ex)" for au al ex
    proof
      assume "a \<in> set al"
      then have "?B a = Some (au, al, ex)" by (rule groups_okD [OF m(2) that])
      then show False using binding_member [OF m(1) that] B False by simp
    qed
    then show ?thesis using False r(2) g by (auto simp: eq rebind_def split: option.splits)
  qed
qed

lemma refresh_case:
  assumes "coherent now c" and "bound now c a = Some (au, al, ex)"
  obtains e where "mget (sc_entries c) a = Some e" "now < se_expires e" "se_auth e = au" "se_aliases e = al" "a \<noteq> []"
proof -
  obtain e where "mget (sc_entries c) a = Some e" "now < ex" "se_auth e = au" "se_aliases e = al" "se_expires e = ex"
    using binding_SomeD [OF assms(2)] by blast
  moreover have "a \<noteq> []" using binding_member [OF coherentD(1) [OF assms(1)] assms(2)] by (auto simp: alias_list_ok_def)
  ultimately show ?thesis using that by blast
qed

lemma unbound_empty: "coherent now c \<Longrightarrow> bound now c [] = None"
proof (rule ccontr)
  assume c: "coherent now c" and "bound now c [] \<noteq> None"
  then obtain au al ex where "bound now c [] = Some (au, al, ex)" by auto
  from binding_member [OF coherentD(1) [OF c] this] show False by (auto simp: alias_list_ok_def)
qed

lemma GetAndRefresh_result: "coherent now c \<Longrightarrow> snd (GetAndRefresh now a c) = map_option fst (bound now c a)"
  using unbound_empty [of now c]
  by (auto simp: GetAndRefresh_def binding_def entry_fields_def split: option.splits)

lemma GetAndRefresh_bound:
  assumes "coherent now c"
  shows "bound now (fst (GetAndRefresh now a c)) x =
    (case bound now c x of None \<Rightarrow> None | Some (au, al, ex) \<Rightarrow>
      if a \<in> set al then Some (au, mergeSessionAliases [a] al, now + sc_ttl c) else Some (au, al, ex))"
proof (cases "bound now c a")
  case (Some v)
  then obtain au al ex where b: "bound now c a = Some (au, al, ex)" by (cases v) auto
  obtain e where e: "mget (sc_entries c) a = Some e" "now < se_expires e" "a \<noteq> []"
    by (rule refresh_case [OF assms b])
  show ?thesis by (simp add: GetAndRefresh_def e refresh_bound(3) [OF assms e(1,2)])
next
  case None
  have "a \<notin> set al" if "bound now c x = Some (au, al, ex)" for au al ex
    using groups_okD [OF coherentD(2) [OF assms] that] None by auto
  moreover have "bound now (fst (GetAndRefresh now a c)) = bound now c"
    using None by (auto simp: GetAndRefresh_def binding_Some_live remove_expired split: option.splits)
  ultimately show ?thesis by (auto split: option.splits)
qed

lemma GetAndRefresh_coherent: "coherent now c \<Longrightarrow> coherent now (fst (GetAndRefresh now a c))"
proof (cases "bound now c a")
  case (Some v)
  assume c: "coherent now c"
  obtain au al ex where b: "bound now c a = Some (au, al, ex)" using Some by (cases v) auto
  obtain e where e: "mget (sc_entries c) a = Some e" "now < se_expires e" "a \<noteq> []"
    by (rule refresh_case [OF c b])
  show ?thesis by (simp add: GetAndRefresh_def e refresh_bound(1) [OF c e(1,2)])
next
  case None
  assume c: "coherent now c"
  show ?thesis using c None
    by (intro same_binding_coherent [OF c])
      (auto simp: GetAndRefresh_def binding_Some_live remove_expired entries_ok_remove coherent_def split: option.splits)
qed

lemma Touch_coherent: "coherent now c \<Longrightarrow> coherent now (fst (Touch now a au c))"
  by (auto simp: Touch_def intro: refresh_bound(1) split: option.splits)

lemma Touch_bound:
  "coherent now c \<Longrightarrow> snd (Touch now a au c) \<Longrightarrow>
    bound now (fst (Touch now a au c)) x = (case bound now c x of None \<Rightarrow> None | Some (au, al, ex) \<Rightarrow>
      if a \<in> set al then Some (au, mergeSessionAliases [a] al, now + sc_ttl c) else Some (au, al, ex))"
  by (auto simp: Touch_def refresh_bound(3) split: option.splits if_splits)

lemma Touch_fails: "\<not> snd (Touch now a au c) \<Longrightarrow> fst (Touch now a au c) = c"
  by (auto simp: Touch_def split: option.splits if_splits)

subsection \<open>Binding\<close>

text \<open>The union of the groups that the identifiers belong to.\<close>

definition groups_of :: "bindings \<Rightarrow> string list \<Rightarrow> string set" where
  "groups_of B ids = (\<Union>a \<in> set ids. group B a)"

text \<open>The alias list that binding the identifiers gives.\<close>

definition gather :: "bindings \<Rightarrow> string list \<Rightarrow> string list \<Rightarrow> string list" where
  "gather B as ids = foldl (\<lambda>as a. case B a of None \<Rightarrow> as | Some (_, al, _) \<Rightarrow> mergeSessionAliases as al) as ids"

definition absorbed_aliases :: "bindings \<Rightarrow> string list \<Rightarrow> string list" where
  "absorbed_aliases B ids = compactSessionAliases (gather B (mergeSessionAliases [] ids) ids)"

definition absorb_inv ::
  "time \<Rightarrow> (string, sessionEntry) gomap \<Rightarrow> string list \<Rightarrow> string list \<Rightarrow>
   (string, sessionEntry) gomap \<times> sessionEntry list \<times> string list \<Rightarrow> bool" where
  "absorb_inv now m0 as0 ids acc \<longleftrightarrow> (case acc of (m, ps, as) \<Rightarrow>
     entries_ok m \<and> binding now m = binding now m0 \<and>
     (\<forall>p \<in> set ps. \<exists>a \<in> set ids. binding now m0 a = Some (entry_fields p)) \<and>
     (\<forall>a \<in> set ids. binding now m0 a \<noteq> None \<longrightarrow> (\<exists>p \<in> set ps. binding now m0 a = Some (entry_fields p))) \<and>
     as = gather (binding now m0) as0 ids)"

lemma absorb_steps:
  "entries_ok m0 \<Longrightarrow> absorb_inv now m0 as0 ids (foldl (absorb_step now) (m0, [], as0) ids)"
proof (induction ids rule: rev_induct)
  case Nil
  then show ?case by (simp add: absorb_inv_def gather_def)
next
  case (snoc x ids)
  obtain m ps as where f: "foldl (absorb_step now) (m0, [], as0) ids = (m, ps, as)"
    by (cases "foldl (absorb_step now) (m0, [], as0) ids")
  have I: "entries_ok m" "binding now m = binding now m0"
    "\<forall>p \<in> set ps. \<exists>a \<in> set ids. binding now m0 a = Some (entry_fields p)"
    "\<forall>a \<in> set ids. binding now m0 a \<noteq> None \<longrightarrow> (\<exists>p \<in> set ps. binding now m0 a = Some (entry_fields p))"
    "as = gather (binding now m0) as0 ids"
    using snoc.IH [OF snoc.prems] f by (auto simp: absorb_inv_def)
  have step: "foldl (absorb_step now) (m0, [], as0) (ids @ [x]) = absorb_step now (m, ps, as) x" by (simp add: f)
  show ?case
  proof (cases "binding now m0 x")
    case None
    then have n: "binding now m x = None" by (simp add: I(2))
    obtain m' where m': "absorb_step now (m, ps, as) x = (m', ps, as)" "entries_ok m'" "binding now m' = binding now m"
      using n I(1) that by (cases "mget m x") (auto simp: absorb_step_def binding_def remove_expired entries_ok_remove split: if_splits)
    have "a \<in> set ids" if "a \<in> set (ids @ [x])" "binding now m0 a \<noteq> None" for a using that None by auto
    moreover have "gather (binding now m0) as0 (ids @ [x]) = as" using None I(5) by (simp add: gather_def)
    ultimately show ?thesis unfolding step m'(1) absorb_inv_def prod.case using I(2-4) m'(2,3)
      by (intro conjI) (simp, simp, (use I(3) in \<open>force\<close>), blast, simp)
  next
    case (Some v)
    then have "binding now m x = Some v" by (simp add: I(2))
    then obtain e where e: "mget m x = Some e" "now < se_expires e" "v = entry_fields e"
      by (auto simp: binding_def split: option.splits if_splits)
    then have "absorb_step now (m, ps, as) x = (m, ps @ [e], mergeSessionAliases as (se_aliases e))"
      by (simp add: absorb_step_def)
    moreover have "gather (binding now m0) as0 (ids @ [x]) = mergeSessionAliases as (se_aliases e)"
      using Some I(5) e(3) by (simp add: gather_def entry_fields_def)
    ultimately show ?thesis unfolding step absorb_inv_def prod.case using I(1-4) Some e(3) by auto
  qed
qed

lemma foldl_merge:
  "distinct as0 \<Longrightarrow> [] \<notin> set as0 \<Longrightarrow>
   distinct (gather B as0 ids) \<and>
   set (gather B as0 ids) =
     (set as0 \<union> groups_of B ids) - {[]}"
proof (induction ids arbitrary: as0)
  case (Cons x ids)
  show ?case
  proof (cases "B x")
    case None
    then show ?thesis using Cons by (simp add: groups_of_def group_def gather_def)
  next
    case (Some v)
    obtain au al ex where v: "v = (au, al, ex)" by (cases v)
    show ?thesis using Cons.IH [of "mergeSessionAliases as0 al"] Some v by (auto simp: groups_of_def group_def gather_def)
  qed
qed (simp add: groups_of_def gather_def)

lemma absorbed_ok: "alias_list_ok (absorbed_aliases B ids)"
  using foldl_merge [of "mergeSessionAliases [] ids" B ids] unfolding absorbed_aliases_def by (intro compact_ok) auto

lemma absorbed_subset: "set (absorbed_aliases B ids) \<subseteq> (set ids \<union> groups_of B ids) - {[]}"
proof -
  have "set (gather B (mergeSessionAliases [] ids) ids) = (set ids - {[]} \<union> groups_of B ids) - {[]}"
    using foldl_merge [of "mergeSessionAliases [] ids" B ids] by simp
  then show ?thesis using compact_subset [of "gather B (mergeSessionAliases [] ids) ids"] unfolding absorbed_aliases_def by blast
qed

lemma setAliasesUntil_effect:
  assumes c: "coherent now c" and "au \<noteq> []" "now < ex" "ex \<noteq> 0" and ne: "absorbed_aliases (bound now c) ids \<noteq> []"
  defines "c' \<equiv> setAliasesUntil now au ex ids c"
  shows "coherent now c'"
    and "bound now c' = rebind (bound now c) (groups_of (bound now c) ids) au (absorbed_aliases (bound now c) ids) ex"
proof -
  let ?B = "bound now c" and ?as = "absorbed_aliases (bound now c) ids"
  note m = coherentD [OF c]
  obtain m' ps as where f: "foldl (absorb_step now) (sc_entries c, [], mergeSessionAliases [] ids) ids = (m', ps, as)"
    by (cases "foldl (absorb_step now) (sc_entries c, [], mergeSessionAliases [] ids) ids")
  have I: "entries_ok m'" "binding now m' = ?B"
    "\<forall>p \<in> set ps. \<exists>a \<in> set ids. ?B a = Some (entry_fields p)"
    "\<forall>a \<in> set ids. ?B a \<noteq> None \<longrightarrow> (\<exists>p \<in> set ps. ?B a = Some (entry_fields p))"
    "compactSessionAliases as = ?as"
    using absorb_steps [OF m(1), of now "mergeSessionAliases [] ids" ids] f
    by (auto simp: absorb_inv_def absorbed_aliases_def)
  let ?c = "c\<lparr>sc_entries := m'\<rparr>"
  have e: "c' = replaceAliasGroupsLocked au ex ?as ps ?c"
    using assms(2-4) ne f I(5) by (simp add: c'_def setAliasesUntil_def)
  have g: "groups_ok (bound now ?c)" using m(2) I(2) by simp
  have "bound now c' = rebind (bound now ?c) (\<Union>a \<in> set ids. group (bound now ?c) a) au ?as ex"
    unfolding e using I by (intro replace_binding assms(3) g) auto
  then have b: "bound now c' = rebind ?B (\<Union>a \<in> set ids. group ?B a) au ?as ex" by (simp add: I(2))
  then show "bound now c' = rebind ?B (groups_of ?B ids) au ?as ex" by (simp add: groups_of_def)
  show "coherent now c'"
  proof (rule rebind_coherent [OF c _ _ _ b])
    show "entries_ok (sc_entries c')" unfolding e using I(1) by (intro replace_entries_ok) (simp_all add: absorbed_ok)
    fix a assume "a \<in> set ?as"
    then have "a \<in> groups_of ?B ids \<or> a \<in> set ids" using absorbed_subset by blast
    moreover have "a \<in> group ?B a" if "?B a \<noteq> None"
      using that binding_member [OF m(1)] by (fastforce simp: group_def)
    ultimately show "a \<in> (\<Union>x \<in> set ids. group ?B x) \<or> ?B a = None" unfolding groups_of_def by blast
  qed (simp add: e)
qed

lemma setAliasesUntil_noop:
  assumes c: "coherent now c" and "\<not> (au \<noteq> [] \<and> now < ex \<and> ex \<noteq> 0 \<and> absorbed_aliases (bound now c) ids \<noteq> [])"
  shows "coherent now (setAliasesUntil now au ex ids c)"
    and "bound now (setAliasesUntil now au ex ids c) = bound now c"
proof -
  note m = coherentD [OF c]
  obtain m' ps as where f: "foldl (absorb_step now) (sc_entries c, [], mergeSessionAliases [] ids) ids = (m', ps, as)"
    by (cases "foldl (absorb_step now) (sc_entries c, [], mergeSessionAliases [] ids) ids")
  have I: "entries_ok m'" "binding now m' = bound now c" "compactSessionAliases as = absorbed_aliases (bound now c) ids"
    using absorb_steps [OF m(1), of now "mergeSessionAliases [] ids" ids] f
    by (auto simp: absorb_inv_def absorbed_aliases_def)
  show b: "bound now (setAliasesUntil now au ex ids c) = bound now c"
    using assms(2) f I by (auto simp: setAliasesUntil_def)
  show "coherent now (setAliasesUntil now au ex ids c)"
    using assms(2) f I m(1) by (intro same_binding_coherent [OF c _ _ b]) (auto simp: setAliasesUntil_def)
qed

lemma setAliasesUntil_coherent: "coherent now c \<Longrightarrow> coherent now (setAliasesUntil now au ex ids c)"
  using setAliasesUntil_effect(1) setAliasesUntil_noop(1) by blast

lemma setAliasesUntil_ttl [simp]: "sc_ttl (setAliasesUntil now au ex ids c) = sc_ttl c"
  by (simp add: setAliasesUntil_def Let_def split: prod.splits)

text \<open>\<open>RestoreAliasesIfAbsent\<close> keeps a repetition among its arguments; its only caller
  passes a merged list, which has none.\<close>

lemma Restore_effect:
  assumes c: "coherent now c" and d: "distinct ids"
  defines "as \<equiv> compactSessionAliases (filter (\<lambda>a. a \<noteq> [] \<and> bound now c a = None) ids)"
  shows "coherent now (fst (RestoreAliasesIfAbsent now au ids c))"
    and "bound now (fst (RestoreAliasesIfAbsent now au ids c)) =
      (if au = [] then bound now c else rebind (bound now c) {} au as (now + sc_ttl c))"
proof -
  note m = coherentD [OF c]
  let ?c' = "fst (RestoreAliasesIfAbsent now au ids c)"
  let ?e = "\<lparr>se_auth = au, se_expires = now + sc_ttl c, se_aliases = as, se_gen = sc_gen c + 1\<rparr>"
  have "filter (\<lambda>a. a \<noteq> [] \<and> (case mget (sc_entries c) a of None \<Rightarrow> True | Some e \<Rightarrow> \<not> now < se_expires e)) ids =
      filter (\<lambda>a. a \<noteq> [] \<and> bound now c a = None) ids"
    by (rule filter_cong) (auto simp: binding_def split: option.splits)
  then have r: "?c' = (if au = [] \<or> ids = [] \<or> as = [] then c
      else c\<lparr>sc_entries := foldl (\<lambda>m a. mput a ?e m) (sc_entries c) as, sc_gen := sc_gen c + 1\<rparr>)"
    by (simp add: RestoreAliasesIfAbsent_def as_def Let_def)
  have sub: "a \<in> set as \<Longrightarrow> bound now c a = None" for a using compact_subset unfolding as_def by fastforce
  have ok: "alias_list_ok as" unfolding as_def using d by (intro compact_ok) auto
  have e: "ids = [] \<Longrightarrow> as = []" by (simp add: as_def compactSessionAliases_def compactSessionAliasesWith_def)
  show b: "bound now ?c' = (if au = [] then bound now c else rebind (bound now c) {} au as (now + sc_ttl c))"
    using m(3) e by (auto simp: r binding_mput rebind_def entry_fields_def fun_eq_iff)
  show "coherent now ?c'"
  proof (cases "au = [] \<or> as = []")
    case True
    then show ?thesis using c e by (auto simp: r)
  next
    case False
    then have "bound now ?c' = rebind (bound now c) (\<Union>a \<in> {}. group (bound now c) a) au as (now + sc_ttl c)" by (simp add: b)
    then show ?thesis
    proof (rule rebind_coherent [OF c, rotated 3])
      show "entries_ok (sc_entries ?c')" using m(1) entries_ok_mput [OF m(1), of ?e] ok by (simp add: r)
    qed (simp_all add: sub r)
  qed
qed

subsection \<open>Removal\<close>

lemma entries_ok_unique: "entries_ok m \<Longrightarrow> mwf m" by (simp add: entries_ok_def)

lemma mget_drop_alias:
  "mget (foldl (drop_alias e a g) m as) x =
     (if x \<in> set as \<and> x \<noteq> a then
        (case mget m x of None \<Rightarrow> None | Some e' \<Rightarrow>
           if se_auth e' \<noteq> se_auth e then Some e'
           else Some (e'\<lparr>se_aliases := filter (\<lambda>y. y \<noteq> a) (se_aliases e'),
                         se_gen := (case g of None \<Rightarrow> se_gen e' | Some n \<Rightarrow> n)\<rparr>))
      else mget m x)"
  by (induction as arbitrary: m) (auto simp: drop_alias_def filter_filter split: option.splits)

lemma mwf_drop_alias: "mwf m \<Longrightarrow> mwf (foldl (drop_alias e a g) m as)"
  by (induction as arbitrary: m) (auto simp: drop_alias_def split: option.splits)

text \<open>An expired identifier is in no bound group.\<close>

lemma unbound_in_no_group:
  "groups_ok B \<Longrightarrow> B a = None \<Longrightarrow> B x = Some (au, al, ex) \<Longrightarrow> a \<notin> set al"
proof
  assume g: "groups_ok B" and n: "B a = None" and x: "B x = Some (au, al, ex)" and a: "a \<in> set al"
  from groups_okD [OF g x a] n show False by simp
qed

lemma drop_binding:
  assumes c: "coherent now c" and e: "mget (sc_entries c) a = Some e"
  shows "binding now (foldl (drop_alias e a g) (mdel a (sc_entries c)) (se_aliases e)) =
    rebind (bound now c) (group (bound now c) a) (se_auth e)
      (if bound now c a = None then [] else filter (\<lambda>y. y \<noteq> a) (se_aliases e)) (se_expires e)"
proof
  fix x
  note m = coherentD [OF c]
  let ?B = "bound now c"
  show "binding now (foldl (drop_alias e a g) (mdel a (sc_entries c)) (se_aliases e)) x =
    rebind ?B (group ?B a) (se_auth e) (if ?B a = None then [] else filter (\<lambda>y. y \<noteq> a) (se_aliases e)) (se_expires e) x"
  proof (cases "?B a")
    case None
    have "filter (\<lambda>y. y \<noteq> a) (se_aliases e') = se_aliases e'" if "mget (sc_entries c) x = Some e'" "now < se_expires e'" for e'
    proof -
      have "a \<notin> set (se_aliases e')"
        using unbound_in_no_group [OF m(2) None, of x] binding_Some_live [OF that] by (simp add: entry_fields_def)
      then show ?thesis by (auto intro: filter_True)
    qed
    then show ?thesis using None
      by (auto simp: rebind_def group_def binding_def mget_drop_alias entry_fields_def split: option.splits)
  next
    case (Some v)
    then have B: "?B a = Some (se_auth e, se_aliases e, se_expires e)" and l: "now < se_expires e"
      using e by (auto simp: binding_def entry_fields_def split: if_splits)
    have gr: "group ?B a = set (se_aliases e)" by (simp add: group_def B)
    have a: "a \<in> set (se_aliases e)" using binding_member [OF m(1) B] by simp
    show ?thesis
    proof (cases "x \<in> set (se_aliases e)")
      case True
      obtain e' where e': "mget (sc_entries c) x = Some e'" "se_auth e' = se_auth e" "se_aliases e' = se_aliases e" "se_expires e' = se_expires e"
        using binding_SomeD [OF groups_okD [OF m(2) B True]] by blast
      then show ?thesis using True B l gr by (auto simp: rebind_def binding_def mget_drop_alias entry_fields_def)
    next
      case False
      then have "x \<noteq> a" using a by blast
      then show ?thesis using False B gr by (auto simp: rebind_def binding_def mget_drop_alias)
    qed
  qed
qed

lemma drop_entries_ok:
  "entries_ok m \<Longrightarrow> entries_ok (foldl (drop_alias e a g) (mdel a m) as)"
proof -
  assume m: "entries_ok m"
  have "x \<in> set (se_aliases e') \<and> alias_list_ok (se_aliases e')"
    if G: "mget (foldl (drop_alias e a g) (mdel a m) as) x = Some e'" for x e'
  proof -
    obtain e0 where e0: "mget m x = Some e0" "x \<noteq> a"
      "se_aliases e' = se_aliases e0 \<or> se_aliases e' = filter (\<lambda>y. y \<noteq> a) (se_aliases e0)"
      using G by (cases "mget m x"; cases "x = a"; cases "x \<in> set as") (auto simp: mget_drop_alias split: if_splits)
    then show ?thesis using m alias_list_ok_filter unfolding entries_ok_def by fastforce
  qed
  then show ?thesis using m by (simp add: entries_ok_def mwf_drop_alias)
qed

lemma removal_coherent:
  assumes "coherent now c" and "entries_ok (sc_entries c')" "sc_ttl c' = sc_ttl c"
    and "set as \<subseteq> group (bound now c) a"
    and "bound now c' = rebind (bound now c) (group (bound now c) a) au as ex"
  shows "coherent now c'"
  using assms(2-5) by (intro rebind_coherent [OF assms(1), of as "{a}" c' au ex]) auto

lemma Invalidate_bound:
  assumes c: "coherent now c"
  shows "bound now (Invalidate a c) x = (case bound now c x of None \<Rightarrow> None
      | Some (au, al, ex) \<Rightarrow> if x = a then None else Some (au, filter (\<lambda>y. y \<noteq> a) al, ex))"
    and "coherent now (Invalidate a c)"
proof -
  note m = coherentD [OF c]
  let ?B = "bound now c"
  have "bound now (Invalidate a c) x = (case ?B x of None \<Rightarrow> None
      | Some (au, al, ex) \<Rightarrow> if x = a then None else Some (au, filter (\<lambda>y. y \<noteq> a) al, ex)) \<and> coherent now (Invalidate a c)"
  proof (cases "a \<noteq> [] \<and> mget (sc_entries c) a \<noteq> None")
    case False
    then have i: "Invalidate a c = c" "?B a = None"
      using unbound_empty [OF c] by (auto simp: Invalidate_def binding_def split: option.splits)
    then have "filter (\<lambda>y. y \<noteq> a) al = al" if "?B x = Some (au, al, ex)" for au al ex
      using unbound_in_no_group [OF m(2) i(2) that] by (auto intro: filter_True)
    then show ?thesis using c i by (auto split: option.splits)
  next
    case True
    then obtain e where e: "mget (sc_entries c) a = Some e" "a \<noteq> []" by auto
    let ?as = "if ?B a = None then [] else filter (\<lambda>y. y \<noteq> a) (se_aliases e)"
    have b: "bound now (Invalidate a c) = rebind ?B (group ?B a) (se_auth e) ?as (se_expires e)"
      using e drop_binding [OF c e(1)] by (simp add: Invalidate_def Let_def)
    have g: "?B a \<noteq> None \<Longrightarrow> ?B a = Some (se_auth e, se_aliases e, se_expires e)"
      using e(1) by (simp add: binding_def entry_fields_def split: if_splits)
    then have "set ?as \<subseteq> group ?B a" by (auto simp: group_def)
    moreover have "entries_ok (sc_entries (Invalidate a c))" "sc_ttl (Invalidate a c) = sc_ttl c"
      using e m(1) by (simp_all add: Invalidate_def Let_def drop_entries_ok)
    ultimately have "coherent now (Invalidate a c)" using b by (intro removal_coherent [OF c])
    moreover have "bound now (Invalidate a c) x = (case ?B x of None \<Rightarrow> None
      | Some (au, al, ex) \<Rightarrow> if x = a then None else Some (au, filter (\<lambda>y. y \<noteq> a) al, ex))"
    proof (cases "x \<in> group ?B a")
      case True
      then have B: "?B a = Some (se_auth e, se_aliases e, se_expires e)" using g by (auto simp: group_def split: option.splits)
      then have "?B x = Some (se_auth e, se_aliases e, se_expires e)" using True groups_okD [OF m(2) B] by (simp add: group_def)
      then show ?thesis using True B by (auto simp: b rebind_def group_def)
    next
      case False
      have n: "a \<notin> set al" if x: "?B x = Some (au, al, ex)" for au al ex
      proof
        assume "a \<in> set al"
        then have "?B a = Some (au, al, ex)" by (rule groups_okD [OF m(2) x])
        then show False using binding_member [OF m(1) x] False by (simp add: group_def)
      qed
      then have "filter (\<lambda>y. y \<noteq> a) al = al \<and> x \<noteq> a" if "?B x = Some (au, al, ex)" for au al ex
        using that binding_member [OF m(1) that] by (auto intro: filter_True)
      then show ?thesis using False \<open>set ?as \<subseteq> group ?B a\<close> by (auto simp: b rebind_def split: option.splits)
    qed
    ultimately show ?thesis by blast
  qed
  then show "bound now (Invalidate a c) x = (case ?B x of None \<Rightarrow> None
      | Some (au, al, ex) \<Rightarrow> if x = a then None else Some (au, filter (\<lambda>y. y \<noteq> a) al, ex))"
    and "coherent now (Invalidate a c)" by blast+
qed

lemma CompareAndDelete_coherent:
  assumes c: "coherent now c" shows "coherent now (fst (CompareAndDelete a au c))"
proof (cases "snd (CompareAndDelete a au c)")
  case True
  then obtain e where e: "mget (sc_entries c) a = Some e" "a \<noteq> []" "se_auth e = au" "au \<noteq> []"
    by (auto simp: CompareAndDelete_def split: option.splits if_splits)
  let ?B = "bound now c" and ?c' = "fst (CompareAndDelete a au c)"
  let ?as = "if ?B a = None then [] else filter (\<lambda>y. y \<noteq> a) (se_aliases e)"
  have "bound now ?c' = rebind ?B (group ?B a) (se_auth e) ?as (se_expires e)"
    using e drop_binding [OF c e(1)] by (simp add: CompareAndDelete_def)
  moreover have "?B a \<noteq> None \<Longrightarrow> ?B a = Some (se_auth e, se_aliases e, se_expires e)"
    using e(1) by (simp add: binding_def entry_fields_def split: if_splits)
  then have "set ?as \<subseteq> group ?B a" by (auto simp: group_def)
  moreover have "entries_ok (sc_entries ?c')" "sc_ttl ?c' = sc_ttl c"
    using e coherentD(1) [OF c] by (simp_all add: CompareAndDelete_def drop_entries_ok)
  ultimately show ?thesis by (intro removal_coherent [OF c])
next
  case False
  then have "fst (CompareAndDelete a au c) = c" by (auto simp: CompareAndDelete_def split: option.splits if_splits)
  then show ?thesis using c by simp
qed

lemma mget_delete_matching:
  "mget (foldl (delete_matching au e) m as) x =
     (if x \<in> set as \<and> (\<exists>e'. mget m x = Some e' \<and> se_auth e' = au \<and> se_aliases e' = se_aliases e) then None else mget m x)"
  by (induction as arbitrary: m) (auto simp: delete_matching_def split: option.splits)

lemma mwf_delete_matching: "mwf m \<Longrightarrow> mwf (foldl (delete_matching au e) m as)"
  by (induction as arbitrary: m) (auto simp: delete_matching_def split: option.splits)

lemma entries_ok_delete_matching: "entries_ok m \<Longrightarrow> entries_ok (foldl (delete_matching au e) m as)"
  by (rule entries_ok_sub [of m]) (auto simp: mget_delete_matching mwf_delete_matching entries_ok_unique split: if_splits)

lemma delete_matching_bound:
  assumes c: "coherent now c" and e: "mget (sc_entries c) a = Some e" "se_auth e = au"
  shows "binding now (foldl (delete_matching au e) (sc_entries c) (se_aliases e)) =
    rebind (bound now c) (group (bound now c) a) au [] 0"
proof
  fix x
  note m = coherentD [OF c]
  let ?B = "bound now c"
  have a: "a \<in> set (se_aliases e)" using m(1) e(1) unfolding entries_ok_def by blast
  show "binding now (foldl (delete_matching au e) (sc_entries c) (se_aliases e)) x = rebind ?B (group ?B a) au [] 0 x"
  proof (cases "?B a")
    case None
    have "\<not> (se_auth e' = au \<and> se_aliases e' = se_aliases e)" if "mget (sc_entries c) x = Some e'" "now < se_expires e'" for e'
      using unbound_in_no_group [OF m(2) None, of x] binding_Some_live [OF that] a by (auto simp: entry_fields_def)
    then show ?thesis using None
      by (auto simp: rebind_def group_def binding_def mget_delete_matching split: option.splits)
  next
    case (Some v)
    then have B: "?B a = Some (au, se_aliases e, se_expires e)"
      using e by (auto simp: binding_def entry_fields_def split: if_splits)
    have gr: "group ?B a = set (se_aliases e)" by (simp add: group_def B)
    show ?thesis
    proof (cases "x \<in> set (se_aliases e)")
      case True
      obtain e' where "mget (sc_entries c) x = Some e'" "se_auth e' = au" "se_aliases e' = se_aliases e"
        using binding_SomeD [OF groups_okD [OF m(2) B True]] by blast
      then show ?thesis using True gr by (simp add: rebind_def binding_def mget_delete_matching)
    qed (simp add: gr rebind_def binding_def mget_delete_matching)
  qed
qed

lemma delete_coherent:
  assumes c: "coherent now c" and e: "mget (sc_entries c) a = Some e" "se_auth e = au"
  shows "coherent now (c\<lparr>sc_entries := foldl (delete_matching au e) (sc_entries c) (se_aliases e), sc_gen := g\<rparr>)"
  using delete_matching_bound [OF assms] coherentD(1) [OF c]
  by (intro removal_coherent [OF c, where as = "[]" and a = a]) (simp_all add: entries_ok_delete_matching)

lemma CompareAndDeleteAliases_coherent: "coherent now c \<Longrightarrow> coherent now (fst (CompareAndDeleteAliases a au c))"
  by (auto simp: CompareAndDeleteAliases_def intro: delete_coherent split: option.splits)

lemma CompareAndDeleteGroup_coherent: "coherent now c \<Longrightarrow> coherent now (fst (CompareAndDeleteGroup a au g as c))"
  by (auto simp: CompareAndDeleteGroup_def intro: delete_coherent split: option.splits)

lemma InvalidateAuth_bound:
  assumes c: "coherent now c"
  shows "bound now (CacheInvalidateAuth au c) x = (case bound now c x of None \<Rightarrow> None
      | Some (au', al, ex) \<Rightarrow> if au \<noteq> [] \<and> au' = au then None else Some (au', al, ex))"
    and "coherent now (CacheInvalidateAuth au c)"
proof -
  note m = coherentD [OF c]
  let ?c' = "CacheInvalidateAuth au c"
  have g: "mget (sc_entries ?c') x = (if au = [] then mget (sc_entries c) x else case mget (sc_entries c) x of None \<Rightarrow> None
      | Some e \<Rightarrow> if se_auth e \<noteq> au then Some e else None)" for x
    using mget_filter_entries [OF entries_ok_unique [OF m(1)]] by (simp add: CacheInvalidateAuth_def)
  then have b: "bound now ?c' x = (case bound now c x of None \<Rightarrow> None
      | Some (au', al, ex) \<Rightarrow> if au \<noteq> [] \<and> au' = au then None else Some (au', al, ex))" for x
    by (auto simp: binding_def entry_fields_def split: option.splits)
  then show "bound now ?c' x = (case bound now c x of None \<Rightarrow> None
      | Some (au', al, ex) \<Rightarrow> if au \<noteq> [] \<and> au' = au then None else Some (au', al, ex))" .
  have "bound now ?c' y = Some (au', al, ex)" if x: "bound now ?c' x = Some (au', al, ex)" and y: "y \<in> set al" for x y au' al ex
  proof -
    have "bound now c x = Some (au', al, ex)" "\<not> (au \<noteq> [] \<and> au' = au)" using x by (auto simp: b split: option.splits if_splits)
    then show ?thesis using groups_okD [OF m(2) _ y] by (simp add: b)
  qed
  then have "groups_ok (bound now ?c')" unfolding groups_ok_def by blast
  moreover have "mwf (sc_entries ?c')" by (simp add: CacheInvalidateAuth_def entries_ok_unique [OF m(1)] mwf_filter)
  then have "entries_ok (sc_entries ?c')"
    using m(1) by (intro entries_ok_sub [OF m(1)]) (auto simp: g split: if_splits option.splits)
  moreover have "sc_ttl ?c' = sc_ttl c" by (simp add: CacheInvalidateAuth_def)
  ultimately show "coherent now ?c'" using m(3) by (simp add: coherent_def)
qed

lemma cleanup_bound:
  assumes c: "coherent now c"
  shows "bound now (cleanup now c) = bound now c" and "coherent now (cleanup now c)"
proof -
  note m = coherentD [OF c]
  have g: "mget (sc_entries (cleanup now c)) x = (case mget (sc_entries c) x of None \<Rightarrow> None
      | Some e \<Rightarrow> if now < se_expires e then Some e else None)" for x
    using mget_filter_entries [OF entries_ok_unique [OF m(1)]] by (simp add: cleanup_def)
  then show b: "bound now (cleanup now c) = bound now c"
    by (auto simp: binding_def fun_eq_iff split: option.splits)
  have "mwf (sc_entries (cleanup now c))" by (simp add: cleanup_def entries_ok_unique [OF m(1)] mwf_filter)
  then have "entries_ok (sc_entries (cleanup now c))"
    by (intro entries_ok_sub [OF m(1)]) (auto simp: g split: if_splits option.splits)
  then show "coherent now (cleanup now c)"
    by (intro same_binding_coherent [OF c _ _ b]) (simp_all add: cleanup_def)
qed

subsection \<open>Compare and replace\<close>

lemma CompareAndReplace_fails: "\<not> snd (CompareAndReplaceAliases now au g obs nau extra c) \<Longrightarrow> fst (CompareAndReplaceAliases now au g obs nau extra c) = c"
  by (auto simp: CompareAndReplaceAliases_def Let_def split: option.splits if_splits)

lemma CompareAndReplace_effect:
  assumes c: "coherent now c" and s: "snd (CompareAndReplaceAliases now au g obs nau extra c)"
  defines "c' \<equiv> fst (CompareAndReplaceAliases now au g obs nau extra c)"
    and "as \<equiv> compactSessionAliases (mergeSessionAliases obs extra)"
  shows "obs \<noteq> []" and "\<exists>ex. \<forall>a \<in> set obs. bound now c a = Some (au, obs, ex)"
    and "\<And>a. a \<in> set as \<Longrightarrow> a \<notin> set obs \<Longrightarrow> bound now c a = None"
    and "bound now c' = rebind (bound now c) (set obs) nau as (now + sc_ttl c)"
    and "coherent now c'"
proof -
  note m = coherentD [OF c]
  let ?B = "bound now c"
  have h: "list_all (observed_current now au g obs (sc_entries c)) obs"
    and ne: "obs \<noteq> []"
    using s by (auto simp: CompareAndReplaceAliases_def split: if_splits)
  show "obs \<noteq> []" by (rule ne)
  obtain e where e: "mget (sc_entries c) (hd obs) = Some e" "now < se_expires e" "se_auth e = au" "se_aliases e = obs"
    using h ne by (cases obs) (auto simp: observed_current_def split: option.splits)
  have B: "?B (hd obs) = Some (au, obs, se_expires e)"
    using binding_Some_live [OF e(1,2)] e(3,4) by (simp add: entry_fields_def)
  then have all: "?B a = Some (au, obs, se_expires e)" if "a \<in> set obs" for a by (rule groups_okD [OF m(2) _ that])
  then show "\<exists>ex. \<forall>a \<in> set obs. ?B a = Some (au, obs, ex)" by blast
  have x: "\<not> list_ex (taken_alias now obs (sc_entries c)) as"
    and r: "c' = replaceAliasGroupsLocked nau (now + sc_ttl c) as [e] c"
    using s e(1,4) unfolding c'_def as_def
    by (auto simp: CompareAndReplaceAliases_def Let_def split: if_splits)
  show free: "?B a = None" if "a \<in> set as" "a \<notin> set obs" for a
    using x that by (auto simp: binding_def list_ex_iff taken_alias_def split: option.splits)
  have gr: "group ?B (hd obs) = set obs" by (simp add: group_def B)
  have b: "bound now c' = rebind ?B (\<Union>a \<in> {hd obs}. group ?B a) nau as (now + sc_ttl c)"
    unfolding r using m(3) B e by (intro replace_binding m(2)) (auto simp: entry_fields_def)
  then show "bound now c' = rebind ?B (set obs) nau as (now + sc_ttl c)" by (simp add: gr)
  show "coherent now c'"
  proof (rule rebind_coherent [OF c _ _ _ b])
    show "entries_ok (sc_entries c')" unfolding r as_def using m(1) by (intro replace_entries_ok) simp_all
  qed (use free gr in \<open>auto simp: r\<close>)
qed

lemma CompareAndReplace_coherent: "coherent now c \<Longrightarrow> coherent now (fst (CompareAndReplaceAliases now au g obs nau extra c))"
  using CompareAndReplace_effect(5) CompareAndReplace_fails by metis

text \<open>When it succeeds: the observation is current and the added identifiers are free.\<close>

lemma CompareAndReplace_succeeds:
  assumes c: "coherent now c" and B: "bound now c a = Some (au, al, ex)"
    and g: "\<And>b e. b \<in> set al \<Longrightarrow> mget (sc_entries c) b = Some e \<Longrightarrow> se_gen e = g" "g \<noteq> 0"
    and n: "au \<noteq> []" "nau \<noteq> []"
    and f: "\<And>x. x \<in> set extra \<Longrightarrow> x \<noteq> [] \<Longrightarrow> x \<in> set al \<or> bound now c x = None"
  shows "snd (CompareAndReplaceAliases now au g al nau extra c)"
proof -
  note m = coherentD [OF c]
  have a: "a \<in> set al" "alias_list_ok al" using binding_member [OF m(1) B] by auto
  have all: "\<exists>e. mget (sc_entries c) b = Some e \<and> now < se_expires e \<and> se_auth e = au \<and> se_gen e = g \<and> se_aliases e = al"
    if b: "b \<in> set al" for b
    using binding_SomeD [OF groups_okD [OF m(2) B b]] g(1) [OF b] by blast
  then have h: "list_all (observed_current now au g al (sc_entries c)) al"
    unfolding list_all_iff observed_current_def by fastforce
  have ne: "al \<noteq> []" using a(1) by auto
  then obtain e where e: "mget (sc_entries c) (hd al) = Some e" "se_aliases e = al" using all [of "hd al"] by auto
  let ?as = "compactSessionAliases (mergeSessionAliases al extra)"
  have "x \<in> set al \<or> bound now c x = None" if "x \<in> set ?as" for x
  proof -
    have "x \<in> set al \<or> x \<in> set extra \<and> x \<noteq> []"
      using that compact_subset [of "mergeSessionAliases al extra"] by auto
    then show ?thesis using f by metis
  qed
  moreover have "taken_alias now al (sc_entries c) x \<Longrightarrow> x \<notin> set al \<and> bound now c x \<noteq> None" for x
    by (auto simp: taken_alias_def binding_def entry_fields_def split: option.splits)
  ultimately have x: "\<not> list_ex (taken_alias now al (sc_entries c)) ?as"
    unfolding list_ex_iff by blast
  have "a \<in> set (mergeSessionAliases al extra)" using a by (auto simp: alias_list_ok_def)
  then have "mergeSessionAliases al extra \<noteq> []" by (auto simp del: set_merge)
  then have "?as \<noteq> []" using compact_hd by blast
  then show ?thesis unfolding CompareAndReplaceAliases_def using n g(2) ne h x e by (simp add: Let_def)
qed

section \<open>The cache as a transition system\<close>

text \<open>
  Every operation, in any order and at any later moment. \<open>RestoreAliasesIfAbsent\<close> gets merged
  identifiers, as from its caller.
\<close>

datatype cache_op =
    OpGet time string
  | OpGetAndRefresh string
  | OpSetAliases string time "string list"
  | OpRestore string "string list"
  | OpTouch string string
  | OpCompareAndDelete string string
  | OpInvalidate string
  | OpCompareAndDeleteAliases string string
  | OpCompareAndDeleteGroup string string nat "string list"
  | OpCompareAndReplace string nat "string list" string "string list"
  | OpInvalidateAuth string
  | OpCleanup

fun run_op :: "time \<Rightarrow> cache_op \<Rightarrow> SessionCache \<Rightarrow> SessionCache" where
  "run_op now (OpGet now0 a) c = fst (Get now0 now a c)"
| "run_op now (OpGetAndRefresh a) c = fst (GetAndRefresh now a c)"
| "run_op now (OpSetAliases au ex ids) c = setAliasesUntil now au ex ids c"
| "run_op now (OpRestore au ids) c = fst (RestoreAliasesIfAbsent now au (mergeSessionAliases ids []) c)"
| "run_op now (OpTouch a au) c = fst (Touch now a au c)"
| "run_op now (OpCompareAndDelete a au) c = fst (CompareAndDelete a au c)"
| "run_op now (OpInvalidate a) c = Invalidate a c"
| "run_op now (OpCompareAndDeleteAliases a au) c = fst (CompareAndDeleteAliases a au c)"
| "run_op now (OpCompareAndDeleteGroup a au g as) c = fst (CompareAndDeleteGroup a au g as c)"
| "run_op now (OpCompareAndReplace au g obs nau extra) c = fst (CompareAndReplaceAliases now au g obs nau extra c)"
| "run_op now (OpInvalidateAuth au) c = CacheInvalidateAuth au c"
| "run_op now OpCleanup c = cleanup now c"

text \<open>The identifiers an operation may newly bind.\<close>

fun op_binds :: "cache_op \<Rightarrow> string set" where
  "op_binds (OpSetAliases au ex ids) = set ids"
| "op_binds (OpRestore au ids) = set ids"
| "op_binds (OpCompareAndReplace au g obs nau extra) = set extra"
| "op_binds _ = {}"

definition cache_init :: "SessionCache \<times> time \<Rightarrow> bool" where
  "cache_init s \<longleftrightarrow> (\<exists>ttl. fst s = NewSessionCache ttl)"

inductive cache_step :: "SessionCache \<times> time \<Rightarrow> SessionCache \<times> time \<Rightarrow> bool" where
  "now \<le> now' \<Longrightarrow> cache_step (c, now) (run_op now' p c, now')"

text \<open>The steps that bind nothing of \<open>a\<close>.\<close>

inductive quiet_step :: "string \<Rightarrow> SessionCache \<times> time \<Rightarrow> SessionCache \<times> time \<Rightarrow> bool" for a where
  "now \<le> now' \<Longrightarrow> a \<notin> op_binds p \<Longrightarrow> quiet_step a (c, now) (run_op now' p c, now')"

lemma NewSessionCache_coherent: "coherent now (NewSessionCache ttl)"
  by (simp add: coherent_def NewSessionCache_def entries_ok_def groups_ok_def binding_def minute_def second_def)

lemma run_op_coherent: "coherent now c \<Longrightarrow> coherent now (run_op now p c)"
  by (cases p) (auto intro: Get_coherent GetAndRefresh_coherent setAliasesUntil_coherent Restore_effect(1) Touch_coherent
      CompareAndDelete_coherent Invalidate_bound(2) CompareAndDeleteAliases_coherent CompareAndDeleteGroup_coherent
      CompareAndReplace_coherent InvalidateAuth_bound(2) cleanup_bound(2))

interpretation cache_groups: invariant_system cache_init cache_step "\<lambda>(c, now). coherent now c"
proof unfold_locales
  show "(case s of (c, now) \<Rightarrow> coherent now c)" if "cache_init s" for s
    using that by (cases s) (auto simp: cache_init_def NewSessionCache_coherent)
  show "(case t of (c, now) \<Rightarrow> coherent now c)" if I: "case s of (c, now) \<Rightarrow> coherent now c" and S: "cache_step s t" for s t
    using S
  proof cases
    case (1 now now' c p)
    then show ?thesis using I coherent_later [of now c now'] by (simp add: run_op_coherent)
  qed
qed

lemma reachable_coherent: "reach cache_init cache_step (c, now) \<Longrightarrow> coherent now c"
  using cache_groups.reach_inv [of "(c, now)"] by simp

section \<open>Unbound identifiers stay unbound\<close>

lemma rebind_None: "x \<notin> set as \<Longrightarrow> B x = None \<Longrightarrow> rebind B G au as ex x = None"
  by (simp add: rebind_def)

lemma group_memberD: "x \<in> groups_of B ids \<Longrightarrow> \<exists>a au al ex. B a = Some (au, al, ex) \<and> x \<in> set al"
proof -
  assume "x \<in> groups_of B ids"
  then obtain a where a: "x \<in> group B a" unfolding groups_of_def by blast
  then obtain au al ex where "B a = Some (au, al, ex)" by (cases "B a") (auto simp: group_def)
  then show ?thesis using a by (auto simp: group_def)
qed

lemma unbound_not_grouped: "coherent now c \<Longrightarrow> bound now c x = None \<Longrightarrow> x \<notin> groups_of (bound now c) ids"
  using unbound_in_no_group [OF coherentD(2)] group_memberD by metis

lemma setAliasesUntil_unbound:
  "coherent now c \<Longrightarrow> bound now c x = None \<Longrightarrow> x \<notin> set ids \<Longrightarrow> bound now (setAliasesUntil now au ex ids c) x = None"
proof (cases "au \<noteq> [] \<and> now < ex \<and> ex \<noteq> 0 \<and> absorbed_aliases (bound now c) ids \<noteq> []")
  case True
  assume c: "coherent now c" and x: "bound now c x = None" "x \<notin> set ids"
  have "x \<notin> set (absorbed_aliases (bound now c) ids)"
    using absorbed_subset unbound_not_grouped [OF c x(1)] x(2) by blast
  then show ?thesis using True x(1) by (simp add: setAliasesUntil_effect(2) [OF c] rebind_None)
next
  case False
  assume c: "coherent now c" and x: "bound now c x = None"
  show ?thesis by (simp add: setAliasesUntil_noop(2) [OF c False] x)
qed

lemma Restore_unbound:
  "coherent now c \<Longrightarrow> bound now c x = None \<Longrightarrow> x \<notin> set ids \<Longrightarrow>
     bound now (fst (RestoreAliasesIfAbsent now au (mergeSessionAliases ids []) c)) x = None"
  using compact_subset [of "filter (\<lambda>a. a \<noteq> [] \<and> bound now c a = None) (mergeSessionAliases ids [])"]
  by (auto simp: Restore_effect(2) intro!: rebind_None)

lemma CompareAndReplace_unbound:
  assumes c: "coherent now c" and x: "bound now c x = None" "x \<notin> set extra"
  shows "bound now (fst (CompareAndReplaceAliases now au g obs nau extra c)) x = None"
proof (cases "snd (CompareAndReplaceAliases now au g obs nau extra c)")
  case True
  note e = CompareAndReplace_effect [OF c True]
  have "x \<notin> set obs" using e(2) x(1) by force
  then have "x \<notin> set (compactSessionAliases (mergeSessionAliases obs extra))"
    using compact_subset [of "mergeSessionAliases obs extra"] x(2) by auto
  then show ?thesis using x(1) by (simp add: e(4) rebind_None)
qed (use x in \<open>simp add: CompareAndReplace_fails\<close>)

lemma removal_bound_sub:
  "bound now c x = None \<Longrightarrow> (\<And>e. mget m' x = Some e \<Longrightarrow> mget (sc_entries c) x = Some e) \<Longrightarrow> binding now m' x = None"
  by (cases "mget m' x") (auto simp: binding_def split: if_splits)

lemma run_op_unbound:
  assumes c: "coherent now c" and x: "bound now c x = None" "x \<notin> op_binds p"
  shows "bound now (run_op now p c) x = None"
proof (cases p)
  case (OpGet t a)
  then show ?thesis using x by (simp add: Get_bound)
next
  case (OpGetAndRefresh a)
  then show ?thesis using x by (simp add: GetAndRefresh_bound [OF c])
next
  case (OpSetAliases au ex ids)
  then show ?thesis using x by (simp add: setAliasesUntil_unbound [OF c])
next
  case (OpRestore au ids)
  then show ?thesis using x by (simp add: Restore_unbound [OF c])
next
  case (OpTouch a au)
  then show ?thesis using x Touch_bound [OF c, of a au x] Touch_fails [of now a au c] by (cases "snd (Touch now a au c)") auto
next
  case (OpCompareAndDelete a au)
  show ?thesis
  proof (cases "snd (CompareAndDelete a au c)")
    case True
    then obtain e where e: "mget (sc_entries c) a = Some e" "a \<noteq> []" "se_auth e = au" "au \<noteq> []"
      by (auto simp: CompareAndDelete_def split: option.splits if_splits)
    then have b: "bound now (fst (CompareAndDelete a au c)) = rebind (bound now c) (group (bound now c) a) (se_auth e)
      (if bound now c a = None then [] else filter (\<lambda>y. y \<noteq> a) (se_aliases e)) (se_expires e)"
      using drop_binding [OF c e(1)] by (simp add: CompareAndDelete_def)
    have "x \<notin> set (se_aliases e)" if "bound now c a \<noteq> None"
    proof -
      have "bound now c a = Some (se_auth e, se_aliases e, se_expires e)"
        using that e(1) by (simp add: binding_def entry_fields_def split: if_splits)
      then show ?thesis by (rule unbound_in_no_group [OF coherentD(2) [OF c] x(1)])
    qed
    then show ?thesis using OpCompareAndDelete x(1) by (auto simp: b intro!: rebind_None)
  next
    case False
    then have "fst (CompareAndDelete a au c) = c" by (auto simp: CompareAndDelete_def split: option.splits if_splits)
    then show ?thesis using OpCompareAndDelete x by simp
  qed
next
  case (OpInvalidate a)
  then show ?thesis using x by (simp add: Invalidate_bound(1) [OF c])
next
  case (OpCompareAndDeleteAliases a au)
  then show ?thesis using x
    by (auto simp: CompareAndDeleteAliases_def mget_delete_matching split: option.splits if_splits intro!: removal_bound_sub [OF x(1)])
next
  case (OpCompareAndDeleteGroup a au g as)
  then show ?thesis using x
    by (auto simp: CompareAndDeleteGroup_def mget_delete_matching split: option.splits if_splits intro!: removal_bound_sub [OF x(1)])
next
  case (OpCompareAndReplace au g obs nau extra)
  then show ?thesis using x by (simp add: CompareAndReplace_unbound [OF c])
next
  case (OpInvalidateAuth au)
  then show ?thesis using x by (simp add: InvalidateAuth_bound(1) [OF c])
next
  case OpCleanup
  then show ?thesis using x by (simp add: cleanup_bound(1) [OF c])
qed

lemma quiet_steps_unbound:
  assumes "(quiet_step a)\<^sup>*\<^sup>* s t" and "coherent (snd s) (fst s)" and "bound (snd s) (fst s) a = None"
  shows "coherent (snd t) (fst t) \<and> bound (snd t) (fst t) a = None"
  using assms
proof (induction rule: rtranclp_induct)
  case (step t u)
  then have c: "coherent (snd t) (fst t)" and n: "bound (snd t) (fst t) a = None" by auto
  from step.hyps(2) show ?case
  proof cases
    case (1 now now' p c)
    have "coherent now' c" using c coherent_later 1 by auto
    moreover have "bound now' c a = None" using n 1 by (auto simp: binding_later [of now now'])
    ultimately show ?thesis using 1 by (simp add: run_op_coherent run_op_unbound)
  qed
qed simp

section \<open>Properties\<close>

lemma absorbed_nonempty:
  assumes "a \<in> set ids" "a \<noteq> []" shows "absorbed_aliases B ids \<noteq> []"
proof -
  have "a \<in> set (gather B (mergeSessionAliases [] ids) ids)"
    using foldl_merge [of "mergeSessionAliases [] ids" B ids] assms by simp
  then have "gather B (mergeSessionAliases [] ids) ids \<noteq> []" by auto
  then show ?thesis unfolding absorbed_aliases_def using compact_hd by blast
qed

lemma absorbed_fits:
  "alias_list_ok (gather B (mergeSessionAliases [] ids) ids) \<Longrightarrow> set (absorbed_aliases B ids) = (set ids \<union> groups_of B ids) - {[]}"
  using foldl_merge [of "mergeSessionAliases [] ids" B ids] unfolding absorbed_aliases_def by (auto simp: compact_id)

lemma Get_now: "coherent now c \<Longrightarrow> snd (Get now now a c) = map_option fst (bound now c a)"
  using unbound_empty [of now c] Get_result [of now now a c] by (cases "a = []") (auto simp: Get_def)

lemma set_aliases_get:
  assumes c: "coherent now c" and "au \<noteq> []" "0 < now" and a: "a \<in> set ids" "a \<noteq> []"
  shows "snd (Get now now x (SetAliases now au ids c)) =
    (if x \<in> set (absorbed_aliases (bound now c) ids) then Some au
     else if x \<in> set ids \<union> groups_of (bound now c) ids then None else snd (Get now now x c))"
proof -
  let ?B = "bound now c" and ?as = "absorbed_aliases (bound now c) ids"
  have t: "now < now + sc_ttl c" "now + sc_ttl c \<noteq> 0" using coherentD(3) [OF c] assms(3) by auto
  note e = setAliasesUntil_effect [OF c assms(2) t absorbed_nonempty [OF a]]
  have g: "snd (Get now now x (SetAliases now au ids c)) = map_option fst (rebind ?B (groups_of ?B ids) au ?as (now + sc_ttl c) x)"
    unfolding SetAliases_def by (simp add: Get_now [OF e(1)] e(2))
  have "?B x = None" if "x \<in> set ids" "x \<notin> groups_of ?B ids"
  proof (rule ccontr)
    assume "?B x \<noteq> None"
    then obtain au' al ex where b: "?B x = Some (au', al, ex)" by auto
    then have "x \<in> group ?B x" using binding_member [OF coherentD(1) [OF c] b] by (simp add: group_def)
    then show False using that by (auto simp: groups_of_def)
  qed
  then show ?thesis unfolding g by (auto simp: rebind_def Get_now [OF c])
qed

definition witness_cache :: SessionCache where
  "witness_cache = run_op 5 (OpSetAliases ''a1'' 65 [''p::s::m'', ''p::pck:k::m'']) (NewSessionCache 60)"

lemma witness_cache_reach: "reach cache_init cache_step (witness_cache, 5)"
proof (rule reach_step)
  show "reach cache_init cache_step (NewSessionCache 60, 5)" by (rule reach_init) (auto simp: cache_init_def)
  show "cache_step (NewSessionCache 60, 5) (witness_cache, 5)" unfolding witness_cache_def by (rule cache_step.intros) simp
qed

text \<open>C39. In every reachable cache the identifiers of a live session agree: each is bound to the same
  credential until the same instant, and there are at most one prompt cache key and 64 others.\<close>

theorem session_groups:
  assumes "reach cache_init cache_step (c, now)" and "bound now c a = Some (au, al, ex)"
  shows "now < ex \<and> a \<in> set al \<and> alias_list_ok al \<and> (\<forall>b \<in> set al. bound now c b = Some (au, al, ex))"
proof -
  note m = coherentD [OF reachable_coherent [OF assms(1)]]
  show ?thesis
    using binding_SomeD [OF assms(2)] binding_member [OF m(1) assms(2)] groups_okD [OF m(2) assms(2)] by blast
qed

theorem session_groups_witness:
  "bound 5 witness_cache ''p::s::m'' = Some (''a1'', [''p::s::m'', ''p::pck:k::m''], 65) \<and>
   bound 5 witness_cache ''p::pck:k::m'' = Some (''a1'', [''p::s::m'', ''p::pck:k::m''], 65)"
proof -
  have b: "bound 5 witness_cache ''p::s::m'' = Some (''a1'', [''p::s::m'', ''p::pck:k::m''], 65)" by code_simp
  show ?thesis using b session_groups [OF witness_cache_reach b] by simp
qed

text \<open>C40. Binding identifiers to a credential moves the whole of every session they belong to: none
  of its identifiers stays with another credential, all that fit the limits are bound to the new
  one, and no other session changes.\<close>

theorem set_aliases_moves_session:
  assumes "reach cache_init cache_step (c, now)" and "au \<noteq> []" "0 < now" "a \<in> set ids" "a \<noteq> []"
  shows "snd (Get now now x (SetAliases now au ids c)) =
    (if x \<in> set (absorbed_aliases (bound now c) ids) then Some au
     else if x \<in> set ids \<union> groups_of (bound now c) ids then None else snd (Get now now x c)) \<and>
    (alias_list_ok (gather (bound now c) (mergeSessionAliases [] ids) ids) \<longrightarrow>
       set (absorbed_aliases (bound now c) ids) = (set ids \<union> groups_of (bound now c) ids) - {[]})"
  using set_aliases_get [OF reachable_coherent [OF assms(1)] assms(2-5)] absorbed_fits by blast

theorem set_aliases_moves_session_witness:
  "snd (Get 5 5 ''p::s::m'' (SetAliases 5 ''a2'' [''p::pck:k::m'', ''p::t::m''] witness_cache)) = Some ''a2'' \<and>
   set (absorbed_aliases (bound 5 witness_cache) [''p::pck:k::m'', ''p::t::m'']) =
     (set [''p::pck:k::m'', ''p::t::m''] \<union> groups_of (bound 5 witness_cache) [''p::pck:k::m'', ''p::t::m'']) - {[]}"
proof -
  have m: "absorbed_aliases (bound 5 witness_cache) [''p::pck:k::m'', ''p::t::m''] = [''p::pck:k::m'', ''p::t::m'', ''p::s::m'']"
    by code_simp
  have f: "alias_list_ok (gather (bound 5 witness_cache) (mergeSessionAliases [] [''p::pck:k::m'', ''p::t::m'']) [''p::pck:k::m'', ''p::t::m''])"
    by code_simp
  have "''p::t::m'' \<in> set [''p::pck:k::m'', ''p::t::m'']" "''p::t::m'' \<noteq> []" "''a2'' \<noteq> []" "(0::int) < 5" by simp_all
  from set_aliases_moves_session [OF witness_cache_reach this(3,4,1,2), of "''p::s::m''"] f m show ?thesis by simp
qed

lemma succeeded: "snd r \<Longrightarrow> r = (fst r, True)"
  by (cases r) simp

text \<open>Compare-and-replace is atomic: it succeeds only on exactly the group that was observed,
  binds that group and the added identifiers to the new credential, takes none of them from another
  live session and leaves every other identifier as it was.\<close>

theorem compare_and_replace_atomic:
  assumes "reach cache_init cache_step (c, now)"
    and "CompareAndReplaceAliases now au g obs nau extra c = (c', True)"
  shows "(\<exists>ex. \<forall>a \<in> set obs. bound now c a = Some (au, obs, ex)) \<and>
    (\<forall>x. bound now c' x =
      (if x \<in> set (compactSessionAliases (mergeSessionAliases obs extra))
       then Some (nau, compactSessionAliases (mergeSessionAliases obs extra), now + sc_ttl c)
       else if x \<in> set obs then None else bound now c x)) \<and>
    (\<forall>x \<in> set (compactSessionAliases (mergeSessionAliases obs extra)) - set obs. bound now c x = None)"
proof -
  have s: "snd (CompareAndReplaceAliases now au g obs nau extra c)" and c': "c' = fst (CompareAndReplaceAliases now au g obs nau extra c)"
    using assms(2) by simp_all
  note e = CompareAndReplace_effect [OF reachable_coherent [OF assms(1)] s]
  have "\<forall>x \<in> set (compactSessionAliases (mergeSessionAliases obs extra)) - set obs. bound now c x = None" using e(3) by blast
  then show ?thesis unfolding c' e(4) rebind_def using e(2) by simp
qed

theorem compare_and_replace_atomic_witness:
  "\<exists>c'. CompareAndReplaceAliases 5 ''a1'' 1 [''p::s::m'', ''p::pck:k::m''] ''a2'' [''p::u::m''] witness_cache = (c', True) \<and>
     bound 5 c' ''p::u::m'' = Some (''a2'', [''p::s::m'', ''p::pck:k::m'', ''p::u::m''], 65)"
proof -
  let ?r = "CompareAndReplaceAliases 5 ''a1'' 1 [''p::s::m'', ''p::pck:k::m''] ''a2'' [''p::u::m''] witness_cache"
  have "snd ?r" by code_simp
  then have r: "?r = (fst ?r, True)" by (rule succeeded)
  have "compactSessionAliases (mergeSessionAliases [''p::s::m'', ''p::pck:k::m''] [''p::u::m'']) = [''p::s::m'', ''p::pck:k::m'', ''p::u::m'']"
    "sc_ttl witness_cache = 60" by code_simp+
  then have "bound 5 (fst ?r) ''p::u::m'' = Some (''a2'', [''p::s::m'', ''p::pck:k::m'', ''p::u::m''], 65)"
    using compare_and_replace_atomic [OF witness_cache_reach r] by simp
  then show ?thesis using r by blast
qed

text \<open>An invalidated identifier stays unbound whatever happens next, refreshes of the other
  identifiers of its session included, until an operation binds it by name.\<close>

theorem invalidated_stays_unbound:
  assumes "reach cache_init cache_step (c, now)" and "(quiet_step a)\<^sup>*\<^sup>* (Invalidate a c, now) (d, now')"
  shows "snd (Get now' now' a d) = None"
proof -
  note c = reachable_coherent [OF assms(1)]
  have "bound now (Invalidate a c) a = None" using Invalidate_bound(1) [OF c, of a a] by (simp split: option.splits)
  then have "coherent now' d \<and> bound now' d a = None"
    using quiet_steps_unbound [OF assms(2)] Invalidate_bound(2) [OF c] by simp
  then show ?thesis by (simp add: Get_now)
qed

theorem invalidated_stays_unbound_witness:
  "snd (Get 7 7 ''p::s::m'' (run_op 7 (OpGetAndRefresh ''p::pck:k::m'') (Invalidate ''p::s::m'' witness_cache))) = None \<and>
   snd (Get 7 7 ''p::pck:k::m'' (run_op 7 (OpGetAndRefresh ''p::pck:k::m'') (Invalidate ''p::s::m'' witness_cache))) = Some ''a1''"
proof
  have "quiet_step ''p::s::m'' (Invalidate ''p::s::m'' witness_cache, 5)
      (run_op 7 (OpGetAndRefresh ''p::pck:k::m'') (Invalidate ''p::s::m'' witness_cache), 7)"
    by (rule quiet_step.intros) simp_all
  then show "snd (Get 7 7 ''p::s::m'' (run_op 7 (OpGetAndRefresh ''p::pck:k::m'') (Invalidate ''p::s::m'' witness_cache))) = None"
    by (intro invalidated_stays_unbound [OF witness_cache_reach] r_into_rtranclp)
  show "snd (Get 7 7 ''p::pck:k::m'' (run_op 7 (OpGetAndRefresh ''p::pck:k::m'') (Invalidate ''p::s::m'' witness_cache))) = Some ''a1''"
    by code_simp
qed

end
