(* ===== verification/Result_Errors.thy ===== *)
theory Result_Errors
  imports Auth_State
begin

text \<open>
  What an upstream failure says about the credential: the classification of result errors in
  \<open>internal/clienterror\<close> and \<open>sdk/cliproxy/auth/conductor_cooldown.go\<close>. It decides whether a
  failure is the request's fault, the connection's, or the credential's, and only the last cools the
  credential down.

  An error body that is JSON is read with \<open>json.Valid\<close> and the gjson package, which are the
  parameter \<open>J\<close>: whether a string is JSON, and the string at a path of it.
\<close>

section \<open>Strings\<close>

fun contains :: "string \<Rightarrow> string \<Rightarrow> bool" where
  "contains sub [] = (sub = [])"
| "contains sub (c # s) = (has_prefix (c # s) sub \<or> contains sub s)"

record json_lib =
  json_valid :: "string \<Rightarrow> bool"
  json_get :: "string \<Rightarrow> string \<Rightarrow> string"

section \<open>Request faults\<close>

definition requestFaultCodes :: "string list" where
  "requestFaultCodes = [''cyber_policy'', ''context_length_exceeded'', ''message_too_big'',
     ''string_above_max_length'', ''invalid_prompt'', ''invalid_value'', ''unsupported_value'',
     ''invalid_request_error'', ''previous_response_not_found'']"

definition requestFaultTypes :: "string list" where
  "requestFaultTypes = [''invalid_request'', ''invalid_request_error'', ''bad_request_error'', ''invalid_prompt'']"

definition code_paths :: "string list" where
  "code_paths = [''error.code'', ''code'', ''response.error.code'', ''body.error.code'']"

definition type_paths :: "string list" where
  "type_paths = [''error.type'', ''type'', ''response.error.type'', ''body.error.type'']"

definition status_paths :: "string list" where
  "status_paths = [''error.status'', ''status'', ''response.error.status'', ''body.error.status'']"

definition json_field :: "json_lib \<Rightarrow> string \<Rightarrow> string \<Rightarrow> string" where
  "json_field J body path = to_lower (trim_space (json_get J body path))"

definition HasRequestFaultBodyString :: "json_lib \<Rightarrow> string \<Rightarrow> bool" where
  "HasRequestFaultBodyString J raw =
     (let body = trim_space raw in
      if body = [] \<or> \<not> json_valid J body then False
      else list_ex (\<lambda>p. json_field J body p \<in> set requestFaultCodes) code_paths \<or>
           list_ex (\<lambda>p. json_field J body p \<in> set requestFaultTypes) type_paths)"

definition hasAuthenticationErrorBody :: "json_lib \<Rightarrow> string \<Rightarrow> bool" where
  "hasAuthenticationErrorBody J text =
     (let body = trim_space text in
      if body = [] \<or> \<not> json_valid J body then False
      else list_ex (\<lambda>p. json_field J body p \<in> {''invalid_api_key'', ''incorrect_api_key'', ''expired_api_key''}) code_paths \<or>
           list_ex (\<lambda>p. json_field J body p = ''authentication_error'') type_paths \<or>
           list_ex (\<lambda>p. json_field J body p = ''unauthenticated'') status_paths)"

definition IsItemNotPersisted :: "string \<Rightarrow> bool" where
  "IsItemNotPersisted message =
     (let lower = to_lower message in
      contains ''item with id'' lower \<and> contains ''not found'' lower \<and>
      contains ''items are not persisted when `store` is set to false'' lower)"

text \<open>The error argument is its text and, when it has one, its status code.\<close>

definition IsRequestFault :: "json_lib \<Rightarrow> int \<Rightarrow> string \<Rightarrow> int option \<Rightarrow> bool" where
  "IsRequestFault J status0 text carried =
     (let status = (if status0 \<le> 0 then (case carried of None \<Rightarrow> status0 | Some s \<Rightarrow> s) else status0) in
      if status = 402 \<or> status = 429 then False
      else if (status = 401 \<or> status = 403) \<and> hasAuthenticationErrorBody J text then False
      else if HasRequestFaultBodyString J text then True
      else if IsItemNotPersisted text then True
      else status \<in> {400, 409, 413, 422})"

section \<open>Kinds of credential failure\<close>

definition statusCodeFromResult :: "Error option \<Rightarrow> int" where
  "statusCodeFromResult err = (case err of None \<Rightarrow> 0 | Some e \<Rightarrow> er_http_status e)"

definition modelSupportPatterns :: "string list" where
  "modelSupportPatterns = [''model_not_supported'', ''requested model is not supported'',
     ''requested model is unsupported'', ''requested model is unavailable'', ''model is not supported'',
     ''model not supported'', ''unsupported model'', ''model unavailable'',
     ''not available for your plan'', ''not available for your account'']"

definition isModelSupportErrorMessage :: "string \<Rightarrow> bool" where
  "isModelSupportErrorMessage message =
     (let lower = to_lower (trim_space message) in
      lower \<noteq> [] \<and> list_ex (\<lambda>p. contains p lower) modelSupportPatterns)"

definition isModelSupportError :: "Error \<Rightarrow> bool" where
  "isModelSupportError err =
     (er_http_status err \<in> {400, 422} \<and> isModelSupportErrorMessage (ErrorText (Some err)))"

definition isModelSupportResultError :: "Error option \<Rightarrow> bool" where
  "isModelSupportResultError err =
     (case err of None \<Rightarrow> False
      | Some e \<Rightarrow> statusCodeFromResult err \<in> {400, 422} \<and> isModelSupportErrorMessage (er_message e))"

definition isInvalidGrantErrorMessage :: "string \<Rightarrow> bool" where
  "isInvalidGrantErrorMessage message = contains ''invalid_grant'' (to_lower message)"

definition isInvalidGrantError :: "Error \<Rightarrow> bool" where
  "isInvalidGrantError err =
     (er_http_status err \<in> {400, 401} \<and> isInvalidGrantErrorMessage (ErrorText (Some err)))"

definition isInvalidGrantResultError :: "Error option \<Rightarrow> bool" where
  "isInvalidGrantResultError err =
     (case err of None \<Rightarrow> False
      | Some e \<Rightarrow> statusCodeFromResult err \<in> {400, 401} \<and>
          (isInvalidGrantErrorMessage (er_code e) \<or> isInvalidGrantErrorMessage (er_message e)))"

definition isInvalidAPIKeyErrorMessage :: "string \<Rightarrow> bool" where
  "isInvalidAPIKeyErrorMessage message =
     (let lowered = to_lower message in contains ''api key not valid'' lowered \<or> contains ''api_key_invalid'' lowered)"

definition isInvalidAPIKeyError :: "Error \<Rightarrow> bool" where
  "isInvalidAPIKeyError err =
     (er_http_status err \<in> {400, 401, 403} \<and> isInvalidAPIKeyErrorMessage (ErrorText (Some err)))"

definition isInvalidAPIKeyResultError :: "Error option \<Rightarrow> bool" where
  "isInvalidAPIKeyResultError err =
     (case err of None \<Rightarrow> False
      | Some e \<Rightarrow> statusCodeFromResult err \<in> {400, 401, 403} \<and>
          (isInvalidAPIKeyErrorMessage (er_code e) \<or> isInvalidAPIKeyErrorMessage (er_message e)))"

definition isCloudflareChallengeErrorMessage :: "string \<Rightarrow> bool" where
  "isCloudflareChallengeErrorMessage message =
     (let lower = to_lower (trim_space message) in
      contains ''challenge-platform'' lower \<or> contains ''cf-mitigated'' lower \<or>
      contains ''cloudflare challenge'' lower \<or>
      (contains ''cloudflare'' lower \<and> contains ''<html'' lower))"

definition isCloudflareChallengeError :: "Error \<Rightarrow> bool" where
  "isCloudflareChallengeError err = isCloudflareChallengeErrorMessage (ErrorText (Some err))"

definition isCloudflareChallengeResultError :: "Error option \<Rightarrow> bool" where
  "isCloudflareChallengeResultError err =
     (case err of None \<Rightarrow> False | Some e \<Rightarrow> isCloudflareChallengeErrorMessage (er_message e))"

section \<open>What does not cool a credential\<close>

definition isConnectionLifecycleMessage :: "string \<Rightarrow> bool" where
  "isConnectionLifecycleMessage message =
     (let lower = to_lower (trim_space message) in
      if lower = [] then False
      else lower \<in> {''context canceled'', ''context deadline exceeded'', ''eof'', ''unexpected eof''} \<or>
        contains ''websocket: close 1000'' lower \<or> contains ''websocket: close 1001'' lower \<or>
        contains ''websocket: close 1006'' lower \<or> contains ''unexpected eof'' lower)"

definition isConnectionLifecycleResultError :: "Error option \<Rightarrow> bool" where
  "isConnectionLifecycleResultError err =
     (case err of None \<Rightarrow> False
      | Some e \<Rightarrow>
          if er_code e = ErrorCodeConnectionLifecycle then True
          else if statusCodeFromResult err \<noteq> 0 then False
          else isConnectionLifecycleMessage (er_message e))"

definition isRequestInvalidError :: "json_lib \<Rightarrow> Error \<Rightarrow> bool" where
  "isRequestInvalidError J err =
     (if IsRequestScoped (Some err) then True
      else if isCloudflareChallengeError err then False
      else if isInvalidGrantError err then False
      else if isInvalidAPIKeyError err then False
      else if isModelSupportError err then False
      else if IsRequestFault J (er_http_status err) (ErrorText (Some err)) (Some (er_http_status err)) then True
      else er_message err \<noteq> [] \<and> IsRequestFault J (er_http_status err) (er_message err) None)"

definition isRequestScopedNotFoundResultError :: "Error option \<Rightarrow> bool" where
  "isRequestScopedNotFoundResultError err =
     (case err of None \<Rightarrow> False
      | Some e \<Rightarrow> statusCodeFromResult err = 404 \<and> IsItemNotPersisted (er_message e))"

definition isRequestScopedResultError :: "json_lib \<Rightarrow> Error option \<Rightarrow> bool" where
  "isRequestScopedResultError J err =
     (case err of None \<Rightarrow> False
      | Some e \<Rightarrow>
          if IsRequestScoped err \<or> isRequestScopedNotFoundResultError err then True
          else isRequestInvalidError J e)"

definition shouldSkipCredentialCooldown :: "json_lib \<Rightarrow> Error option \<Rightarrow> bool" where
  "shouldSkipCredentialCooldown J err =
     (case err of
        Some e \<Rightarrow> if er_code e = ErrorCodeForceCooldown then False
                  else isRequestScopedResultError J err \<or> isConnectionLifecycleResultError err
      | None \<Rightarrow> isRequestScopedResultError J err \<or> isConnectionLifecycleResultError err)"

end
