(* ===== verification/Quota_Signals.thy ===== *)
theory Quota_Signals
  imports Result_Errors
begin

text \<open>
  The passive quota snapshot of a credential (\<open>sdk/cliproxy/auth/quota_signals.go\<close>): which
  response headers are kept as signals, and the split of a quota state into cooldown fields, which
  the scheduler reads, and observation fields, which it never does. Response headers are a map from
  names to the list of values; a Go map is iterated in any order, here in that of the list.
\<close>

definition maxQuotaSignalHeaders :: nat where "maxQuotaSignalHeaders = 64"
definition maxQuotaSignalValue :: nat where "maxQuotaSignalValue = 512"

section \<open>Cooldown and observation fields\<close>

definition cooldownFieldsOf :: "QuotaState \<Rightarrow> QuotaState" where
  "cooldownFieldsOf q = q\<lparr>qs_observed_at := 0, qs_signals := []\<rparr>"

definition applyCooldownFields :: "QuotaState \<Rightarrow> QuotaState \<Rightarrow> QuotaState" where
  "applyCooldownFields dst cooldown = dst\<lparr>qs_exceeded := qs_exceeded cooldown, qs_reason := qs_reason cooldown,
     qs_next_recover_at := qs_next_recover_at cooldown, qs_backoff_level := qs_backoff_level cooldown\<rparr>"

text \<open>A \<open>QuotaState\<close> literal with the four cooldown fields.\<close>

definition cooldown_quota :: "bool \<Rightarrow> string \<Rightarrow> time \<Rightarrow> int \<Rightarrow> QuotaState" where
  "cooldown_quota exceeded reason nextRecoverAt backoffLevel =
     empty_quota\<lparr>qs_exceeded := exceeded, qs_reason := reason, qs_next_recover_at := nextRecoverAt, qs_backoff_level := backoffLevel\<rparr>"

definition mergeQuotaObservation :: "QuotaState \<Rightarrow> QuotaState \<Rightarrow> QuotaState" where
  "mergeQuotaObservation target source =
     (if qs_observed_at source = 0 \<or> qs_observed_at source < qs_observed_at target then target
      else target\<lparr>qs_observed_at := qs_observed_at source, qs_signals := qs_signals source\<rparr>)"

definition ClearObservationSignals :: "QuotaState \<Rightarrow> QuotaState" where
  "ClearObservationSignals q =
     (if qs_signals q = [] \<and> qs_observed_at q = 0 then q else q\<lparr>qs_signals := [], qs_observed_at := 0\<rparr>)"

section \<open>Headers\<close>

definition ProviderSupportsQuotaObservation :: "string \<Rightarrow> bool" where
  "ProviderSupportsQuotaObservation provider = (to_lower (trim_space provider) \<in> {''claude'', ''codex''})"

text \<open>\<open>http.CanonicalHeaderKey\<close>: upper case at the start and after a hyphen, lower case
  elsewhere; a name with a character that is no token character is kept.\<close>

definition upper_char :: "char \<Rightarrow> char" where
  "upper_char c = (if 97 \<le> (of_char c :: nat) \<and> (of_char c :: nat) \<le> 122
     then char_of ((of_char c :: nat) - 32) else c)"

definition token_char :: "char \<Rightarrow> bool" where
  "token_char c = (let n = (of_char c :: nat) in
     (48 \<le> n \<and> n \<le> 57) \<or> (65 \<le> n \<and> n \<le> 90) \<or> (97 \<le> n \<and> n \<le> 122) \<or> c \<in> set ''!#$%&*+-.^_|~'' \<or> n \<in> {39, 96})"

fun canonical_from :: "bool \<Rightarrow> string \<Rightarrow> string" where
  "canonical_from up [] = []"
| "canonical_from up (c # s) = (if up then upper_char c else lower_char c) # canonical_from (c = CHR ''-'') s"

definition CanonicalHeaderKey :: "string \<Rightarrow> string" where
  "CanonicalHeaderKey name = (if list_all token_char name then canonical_from True name else name)"

definition quotaSignalMarkers :: "string list" where
  "quotaSignalMarkers = [''-allowed'', ''-limit-reached'', ''-limit-name'', ''-used-percent'', ''-window-minutes'',
     ''-reset-after-seconds'', ''-reset-at'', ''-over-secondary-limit-percent'']"

definition isQuotaSignalHeaderForProvider :: "string \<Rightarrow> string \<Rightarrow> bool" where
  "isQuotaSignalHeaderForProvider provider0 name0 =
     (let provider = to_lower (trim_space provider0); name = to_lower (trim_space name0) in
      if name = ''retry-after'' then provider = ''claude'' \<or> provider = ''codex''
      else if has_prefix name ''anthropic-ratelimit-unified-'' then provider = ''claude''
      else if has_prefix name ''x-ratelimit-'' then provider = ''codex''
      else if \<not> has_prefix name ''x-codex-'' then False
      else if provider \<noteq> ''codex'' then False
      else if name = ''x-codex-active-limit'' \<or> name = ''x-codex-plan-type'' \<or> has_prefix name ''x-codex-credits-'' then True
      else list_ex (\<lambda>marker. contains marker name) quotaSignalMarkers)"

definition validQuotaSignalValue :: "string \<Rightarrow> bool" where
  "validQuotaSignalValue v =
     (if v = [] \<or> length v > maxQuotaSignalValue then False
      else list_all (\<lambda>c. \<not> ((of_char c :: nat) < 32 \<or> (of_char c :: nat) = 127)) v)"

definition quotaSignalRetentionRank :: "string \<Rightarrow> nat" where
  "quotaSignalRetentionRank name =
     (let lower = to_lower (trim_space name) in
      if lower = ''retry-after'' \<or> has_prefix lower ''anthropic-ratelimit-unified-'' then 0
      else if lower = ''x-codex-plan-type'' \<or> lower = ''x-codex-active-limit'' \<or> has_prefix lower ''x-codex-credits-'' then 1
      else if lower = ''x-codex-allowed'' \<or> lower = ''x-codex-limit-reached'' \<or>
        has_prefix lower ''x-codex-primary-'' \<or> has_prefix lower ''x-codex-secondary-'' then 2
      else if has_prefix lower ''x-codex-code-review-'' then 3
      else if has_prefix lower ''x-codex-additional-'' then 5
      else if has_prefix lower ''x-codex-'' then 4
      else 6)"

definition signal_before :: "string \<Rightarrow> string \<Rightarrow> bool" where
  "signal_before a b =
     (let ra = quotaSignalRetentionRank a; rb = quotaSignalRetentionRank b in
      if ra \<noteq> rb then ra < rb else a < b)"

text \<open>One header of the loop: the names seen and the value of each.\<close>

definition collect_signal ::
  "string \<Rightarrow> string list \<times> (string, string) gomap \<Rightarrow> string \<times> string list \<Rightarrow> string list \<times> (string, string) gomap" where
  "collect_signal provider acc header =
     (let (names, vals) = acc; (key, headerValues) = header; canonicalKey = CanonicalHeaderKey (trim_space key) in
      if \<not> isQuotaSignalHeaderForProvider provider canonicalKey \<or> headerValues = [] then acc
      else let v = trim_space (last headerValues) in
        if \<not> validQuotaSignalValue v then acc
        else (if mget vals canonicalKey = None then names @ [canonicalKey] else names, mput canonicalKey v vals))"

definition collectQuotaSignals :: "string \<Rightarrow> (string, string list) gomap \<Rightarrow> (string, string) gomap" where
  "collectQuotaSignals provider headers =
     (let (names, vals) = foldl (collect_signal provider) ([], []) headers;
          sorted = sort_slice signal_before names;
          kept = (if length sorted > maxQuotaSignalHeaders then take maxQuotaSignalHeaders sorted else sorted)
      in foldl (\<lambda>m n. mput n (mget_or [] vals n) m) [] kept)"

text \<open>The callers pass the clock, so the case of a zero \<open>observedAt\<close> does not arise.\<close>

definition ObserveResponseHeadersForProvider ::
  "string \<Rightarrow> (string, string list) gomap \<Rightarrow> time \<Rightarrow> QuotaState \<Rightarrow> QuotaState" where
  "ObserveResponseHeadersForProvider provider headers observedAt q =
     (if \<not> ProviderSupportsQuotaObservation provider then ClearObservationSignals q
      else let nxt = collectQuotaSignals provider headers in
        if nxt = [] then q else q\<lparr>qs_signals := nxt, qs_observed_at := observedAt\<rparr>)"

section \<open>Facts\<close>

text \<open>An observation never touches a cooldown field, and a cooldown never an observation.\<close>

lemma observe_cooldown [simp]:
  "cooldownFieldsOf (ObserveResponseHeadersForProvider p h t q) = cooldownFieldsOf q"
  "qs_exceeded (ObserveResponseHeadersForProvider p h t q) = qs_exceeded q"
  "qs_reason (ObserveResponseHeadersForProvider p h t q) = qs_reason q"
  "qs_next_recover_at (ObserveResponseHeadersForProvider p h t q) = qs_next_recover_at q"
  "qs_backoff_level (ObserveResponseHeadersForProvider p h t q) = qs_backoff_level q"
  by (simp_all add: cooldownFieldsOf_def ObserveResponseHeadersForProvider_def ClearObservationSignals_def Let_def)

lemma apply_cooldown [simp]:
  "qs_exceeded (applyCooldownFields q c) = qs_exceeded c"
  "qs_reason (applyCooldownFields q c) = qs_reason c"
  "qs_next_recover_at (applyCooldownFields q c) = qs_next_recover_at c"
  "qs_backoff_level (applyCooldownFields q c) = qs_backoff_level c"
  "qs_observed_at (applyCooldownFields q c) = qs_observed_at q"
  "qs_signals (applyCooldownFields q c) = qs_signals q"
  by (simp_all add: applyCooldownFields_def)

lemma cooldown_quota_simps [simp]:
  "qs_exceeded (cooldown_quota e r n b) = e"
  "qs_reason (cooldown_quota e r n b) = r"
  "qs_next_recover_at (cooldown_quota e r n b) = n"
  "qs_backoff_level (cooldown_quota e r n b) = b"
  by (simp_all add: cooldown_quota_def)

lemma empty_quota_simps [simp]:
  "qs_exceeded empty_quota = False" "qs_reason empty_quota = []"
  "qs_next_recover_at empty_quota = 0" "qs_backoff_level empty_quota = 0"
  by (simp_all add: empty_quota_def)

lemma merge_observation [simp]:
  "qs_exceeded (mergeQuotaObservation t s) = qs_exceeded t"
  "qs_reason (mergeQuotaObservation t s) = qs_reason t"
  "qs_next_recover_at (mergeQuotaObservation t s) = qs_next_recover_at t"
  "qs_backoff_level (mergeQuotaObservation t s) = qs_backoff_level t"
  by (simp_all add: mergeQuotaObservation_def)

end
