(* ===== verification/Cooldown.thy ===== *)
theory Cooldown
  imports Quota_Signals
begin

text \<open>
  What a result does to one credential (\<open>sdk/cliproxy/auth/conductor_cooldown.go\<close>): the
  exponential quota backoff, the model states and their aggregation into the credential's own
  availability, and the state after a failure. A pointer to a model state is an entry of the
  credential's map. Go iterates over that map in any order, here in that of the list, whatever it is.
  Of the configuration the model holds what decides whether cooling is disabled.
\<close>

section \<open>Backoff\<close>

definition quotaBackoffBase :: duration where "quotaBackoffBase = second"
definition quotaBackoffMax :: duration where "quotaBackoffMax = 30 * minute"
definition transientErrorCooldown :: duration where "transientErrorCooldown = minute"
definition hour :: duration where "hour = 60 * minute"

text \<open>\<open>1 << n\<close> on a 64-bit integer.\<close>

definition shl_one :: "int \<Rightarrow> int" where
  "shl_one n = wrap64 (2 ^ nat n)"

definition nextQuotaCooldown :: "int \<Rightarrow> bool \<Rightarrow> duration \<times> int" where
  "nextQuotaCooldown prevLevel0 disableCooling =
     (let prevLevel = (if prevLevel0 < 0 then 0 else prevLevel0) in
      if disableCooling then (0, prevLevel)
      else let cooldown0 = wrap64 (quotaBackoffBase * shl_one prevLevel);
               cooldown = (if cooldown0 < quotaBackoffBase then quotaBackoffBase else cooldown0)
        in if cooldown \<ge> quotaBackoffMax then (quotaBackoffMax, prevLevel) else (cooldown, prevLevel + 1))"

definition quotaCooldownAfterFailure :: "QuotaState \<Rightarrow> time \<Rightarrow> time \<times> int" where
  "quotaCooldownAfterFailure quota now =
     (if qs_next_recover_at quota > now then (qs_next_recover_at quota, qs_backoff_level quota)
      else let (cooldown, nextLevel) = nextQuotaCooldown (qs_backoff_level quota) False
        in (if cooldown > 0 then now + cooldown else 0, nextLevel))"

definition nextCloudflareCooldown :: "int \<Rightarrow> bool \<Rightarrow> time \<Rightarrow> time \<times> int" where
  "nextCloudflareCooldown backoffLevel disableCooling now =
     (if disableCooling then (0, backoffLevel)
      else let (cooldown0, nextLevel) = nextQuotaCooldown backoffLevel disableCooling;
               cooldown = (if cooldown0 < 10 * second then 10 * second else cooldown0)
        in (if cooldown > 0 then now + cooldown else 0, nextLevel))"

text \<open>\<open>seconds\<close> is the setting \<open>transientErrorCooldownSeconds\<close>.\<close>

definition nextTransientErrorRetryAfter :: "int \<Rightarrow> time \<Rightarrow> time" where
  "nextTransientErrorRetryAfter seconds now =
     (if seconds < 0 then 0
      else if seconds = 0 then now + transientErrorCooldown
      else now + wrap64 (seconds * second))"

definition recoverableFailureRetryAfter :: "int \<Rightarrow> time \<Rightarrow> bool \<Rightarrow> time" where
  "recoverableFailureRetryAfter seconds now disableCooling =
     (if disableCooling then 0 else nextTransientErrorRetryAfter seconds now)"

section \<open>Disabled cooling\<close>

record OpenAICompatibility =
  oc_name :: string
  oc_disabled :: bool
  oc_disable_cooling :: "bool option"

record Config =
  cf_home_enabled :: bool
  cf_disable_cooling :: bool
  cf_openai_compatibility :: "OpenAICompatibility list"

definition resolveOpenAICompatConfig :: "Config \<Rightarrow> string \<Rightarrow> string \<Rightarrow> string \<Rightarrow> OpenAICompatibility option" where
  "resolveOpenAICompatConfig cfg providerKey compatName authProvider =
     (let candidates = filter (\<lambda>v. v \<noteq> []) (map trim_space [compatName, providerKey, authProvider])
      in find (\<lambda>compat. \<not> oc_disabled compat \<and> list_ex (\<lambda>c. equal_fold c (oc_name compat)) candidates)
           (cf_openai_compatibility cfg))"

definition providerCoolingOverrideForAuth :: "Auth \<Rightarrow> Config option \<Rightarrow> bool option" where
  "providerCoolingOverrideForAuth a cfg =
     (case cfg of None \<Rightarrow> None
      | Some c \<Rightarrow>
          let provider = to_lower (trim_space (au_provider a));
              providerKey = trim_space (mget_or [] (au_attributes a) ''provider_key'');
              compatName = trim_space (mget_or [] (au_attributes a) ''compat_name'')
          in if provider = [] then None
             else if providerKey = [] \<and> compatName = [] \<and> provider \<noteq> ''openai-compatibility'' then None
             else case resolveOpenAICompatConfig c (if providerKey = [] then provider else providerKey) compatName provider of
                 None \<Rightarrow> None
               | Some entry \<Rightarrow> oc_disable_cooling entry)"

text \<open>\<open>quotaDisabled\<close> is the global switch \<open>quotaCooldownDisabled\<close>.\<close>

definition quotaCooldownDisabledForAuthWithConfig :: "bool \<Rightarrow> Auth \<Rightarrow> Config option \<Rightarrow> bool" where
  "quotaCooldownDisabledForAuthWithConfig quotaDisabled a cfg =
     (if (case cfg of None \<Rightarrow> False | Some c \<Rightarrow> cf_home_enabled c) then True
      else case DisableCoolingOverride a of Some b \<Rightarrow> b
      | None \<Rightarrow> (case providerCoolingOverrideForAuth a cfg of Some b \<Rightarrow> b
        | None \<Rightarrow> if (case cfg of None \<Rightarrow> False | Some c \<Rightarrow> cf_disable_cooling c) then True else quotaDisabled))"

section \<open>Model states\<close>

definition existingModelState :: "Auth \<Rightarrow> string \<Rightarrow> ModelState option" where
  "existingModelState a model0 =
     (let model = canonicalModelKey model0 in
      if model = [] then None else mget_or None (au_model_states a) model)"

definition active_state :: ModelState where
  "active_state = \<lparr>ms_status = StatusActive, ms_status_message = [], ms_unavailable = False, ms_next_retry_after = 0,
     ms_last_error = None, ms_quota = empty_quota, ms_updated_at = 0\<rparr>"

definition later :: "time \<Rightarrow> time \<Rightarrow> time" where
  "later a b = (if b > a then b else a)"

text \<open>The case of two states of \<open>mergeModelState\<close>, whose result overwrites the target.\<close>

definition merge_states :: "ModelState \<Rightarrow> ModelState \<Rightarrow> ModelState" where
  "merge_states target source =
     (let newer = ms_updated_at source > ms_updated_at target;
          preferred = (if newer then source else target);
          fallback = (if newer then target else source);
          tq = ms_quota target; sq = ms_quota source;
          quota0 = \<lparr>qs_exceeded = (qs_exceeded tq \<or> qs_exceeded sq),
                    qs_reason = (if qs_reason (ms_quota preferred) = [] then qs_reason (ms_quota fallback) else qs_reason (ms_quota preferred)),
                    qs_next_recover_at = later (qs_next_recover_at tq) (qs_next_recover_at sq),
                    qs_backoff_level = (if qs_backoff_level sq > qs_backoff_level tq then qs_backoff_level sq else qs_backoff_level tq),
                    qs_observed_at = 0, qs_signals = []\<rparr>;
          quota = mergeQuotaObservation (mergeQuotaObservation quota0 (ms_quota fallback)) (ms_quota preferred);
          unavailable = (ms_unavailable target \<or> ms_unavailable source)
      in \<lparr>ms_status = (if ms_status target = StatusDisabled \<or> ms_status source = StatusDisabled then StatusDisabled
                       else if unavailable \<or> qs_exceeded quota then StatusError else ms_status preferred),
          ms_status_message = (if ms_status_message preferred = [] then ms_status_message fallback else ms_status_message preferred),
          ms_unavailable = unavailable,
          ms_next_retry_after = later (ms_next_retry_after target) (ms_next_retry_after source),
          ms_last_error = (case ms_last_error preferred of None \<Rightarrow> ms_last_error fallback | Some e \<Rightarrow> Some e),
          ms_quota = quota,
          ms_updated_at = later (ms_updated_at target) (ms_updated_at source)\<rparr>)"

definition mergeModelState :: "ModelState option \<Rightarrow> ModelState option \<Rightarrow> ModelState option" where
  "mergeModelState target source =
     (case target of None \<Rightarrow> source
      | Some t \<Rightarrow> (case source of None \<Rightarrow> target | Some s \<Rightarrow> Some (merge_states t s)))"

text \<open>One entry of the loop of \<open>normalizeModelStates\<close>: the new map and whether anything changed.\<close>

definition normalize_step ::
  "(string, ModelState option) gomap \<times> bool \<Rightarrow> string \<times> ModelState option \<Rightarrow> (string, ModelState option) gomap \<times> bool" where
  "normalize_step acc entry =
     (let (normalized, changed) = acc; (model, state) = entry;
          key0 = canonicalModelKey model;
          modelKey = (if key0 = [] then trim_space model else key0);
          changed' = (changed \<or> modelKey \<noteq> model)
      in case mget normalized modelKey of
           Some existing \<Rightarrow> (mput modelKey (mergeModelState existing state) normalized, True)
         | None \<Rightarrow> (mput modelKey state normalized, changed'))"

definition normalizeModelStates :: "Auth \<Rightarrow> Auth" where
  "normalizeModelStates a =
     (let (normalized, changed) = foldl normalize_step ([], False) (au_model_states a)
      in if changed then a\<lparr>au_model_states := normalized\<rparr> else a)"

text \<open>\<open>ensureModelState\<close>: the credential with a state for the model. The callers check that the
  canonical key is not empty.\<close>

definition ensureModelState :: "Auth \<Rightarrow> string \<Rightarrow> Auth" where
  "ensureModelState a model0 =
     (let model = canonicalModelKey model0 in
      if model = [] then a
      else let a1 = normalizeModelStates a in
        case mget_or None (au_model_states a1) model of
          Some s \<Rightarrow> a1
        | None \<Rightarrow> a1\<lparr>au_model_states := mput model (Some active_state) (au_model_states a1)\<rparr>)"

text \<open>What a pointer to the state of a model reads and writes.\<close>

definition model_state :: "Auth \<Rightarrow> string \<Rightarrow> ModelState" where
  "model_state a model = (case mget_or None (au_model_states a) model of None \<Rightarrow> active_state | Some s \<Rightarrow> s)"

definition put_model_state :: "string \<Rightarrow> ModelState \<Rightarrow> Auth \<Rightarrow> Auth" where
  "put_model_state model s a = a\<lparr>au_model_states := mput model (Some s) (au_model_states a)\<rparr>"

definition resetModelState :: "time \<Rightarrow> ModelState \<Rightarrow> ModelState" where
  "resetModelState now s = s\<lparr>ms_unavailable := False, ms_status := StatusActive, ms_status_message := [],
     ms_next_retry_after := 0, ms_last_error := None,
     ms_quota := applyCooldownFields (ms_quota s) empty_quota, ms_updated_at := now\<rparr>"

definition modelStateIsClean :: "ModelState option \<Rightarrow> bool" where
  "modelStateIsClean so =
     (case so of None \<Rightarrow> True
      | Some s \<Rightarrow> ms_status s = StatusActive \<and> \<not> ms_unavailable s \<and> ms_status_message s = [] \<and>
          ms_next_retry_after s = 0 \<and> ms_last_error s = None \<and> \<not> qs_exceeded (ms_quota s) \<and>
          qs_reason (ms_quota s) = [] \<and> qs_next_recover_at (ms_quota s) = 0 \<and> qs_backoff_level (ms_quota s) = 0)"

section \<open>Aggregated availability\<close>

definition clearAggregatedAvailability :: "Auth \<Rightarrow> Auth" where
  "clearAggregatedAvailability a = a\<lparr>au_unavailable := False, au_next_retry_after := 0,
     au_quota := applyCooldownFields (au_quota a) empty_quota\<rparr>"

record aggregate =
  ag_all_unavailable :: bool
  ag_earliest_retry :: time
  ag_quota_exceeded :: bool
  ag_quota_recover :: time
  ag_max_backoff :: int
  ag_has_state :: bool

text \<open>Whether a state counts as unavailable, and the state after an expired block is lifted.\<close>

definition state_unavailable :: "time \<Rightarrow> ModelState \<Rightarrow> bool" where
  "state_unavailable now s =
     (ms_status s = StatusDisabled \<or> (ms_unavailable s \<and> ms_next_retry_after s \<noteq> 0 \<and> ms_next_retry_after s > now))"

definition lift_expired :: "time \<Rightarrow> ModelState \<Rightarrow> ModelState" where
  "lift_expired now s =
     (if ms_status s \<noteq> StatusDisabled \<and> ms_unavailable s \<and> ms_next_retry_after s \<noteq> 0 \<and> \<not> ms_next_retry_after s > now
      then s\<lparr>ms_unavailable := False, ms_next_retry_after := 0\<rparr> else s)"

definition aggregate_step :: "time \<Rightarrow> aggregate \<Rightarrow> ModelState option \<Rightarrow> aggregate" where
  "aggregate_step now g so =
     (case so of None \<Rightarrow> g
      | Some s \<Rightarrow>
          let q = ms_quota s; timed = (ms_status s \<noteq> StatusDisabled \<and> state_unavailable now s) in
          \<lparr>ag_all_unavailable = (ag_all_unavailable g \<and> state_unavailable now s),
           ag_earliest_retry = (if timed \<and> (ag_earliest_retry g = 0 \<or> ms_next_retry_after s < ag_earliest_retry g)
             then ms_next_retry_after s else ag_earliest_retry g),
           ag_quota_exceeded = (ag_quota_exceeded g \<or> qs_exceeded q),
           ag_quota_recover = (if qs_exceeded q \<and> (ag_quota_recover g = 0 \<or>
               (qs_next_recover_at q \<noteq> 0 \<and> qs_next_recover_at q < ag_quota_recover g))
             then qs_next_recover_at q else ag_quota_recover g),
           ag_max_backoff = (if qs_exceeded q \<and> qs_backoff_level q > ag_max_backoff g then qs_backoff_level q else ag_max_backoff g),
           ag_has_state = True\<rparr>)"

definition aggregate_states :: "time \<Rightarrow> ModelState option list \<Rightarrow> aggregate" where
  "aggregate_states now states = foldl (aggregate_step now)
     \<lparr>ag_all_unavailable = True, ag_earliest_retry = 0, ag_quota_exceeded = False, ag_quota_recover = 0,
      ag_max_backoff = 0, ag_has_state = False\<rparr> states"

definition updateAggregatedAvailability :: "time \<Rightarrow> Auth \<Rightarrow> Auth" where
  "updateAggregatedAvailability now a =
     (if qs_exceeded (au_quota a) \<and> qs_reason (au_quota a) = ''credential_quota'' \<and> qs_next_recover_at (au_quota a) > now
      then a\<lparr>au_unavailable := True\<rparr>
      else if au_model_states a = [] then clearAggregatedAvailability a
      else let g = aggregate_states now (map snd (au_model_states a));
               a1 = a\<lparr>au_model_states := map (\<lambda>(m, so). (m, map_option (lift_expired now) so)) (au_model_states a)\<rparr>
        in if \<not> ag_has_state g then clearAggregatedAvailability a1
           else let a2 = a1\<lparr>au_unavailable := ag_all_unavailable g,
                            au_next_retry_after := (if ag_all_unavailable g then ag_earliest_retry g else 0)\<rparr>;
                    q = au_quota a2
             in if ag_quota_exceeded g then
                  a2\<lparr>au_quota := q\<lparr>qs_exceeded := True, qs_reason := ''quota'',
                       qs_next_recover_at := later (ag_quota_recover g) (qs_next_recover_at q),
                       qs_backoff_level := ag_max_backoff g\<rparr>\<rparr>
                else if qs_exceeded q \<and> qs_next_recover_at q > now then a2
                else a2\<lparr>au_quota := applyCooldownFields q empty_quota\<rparr>)"

definition hasModelError :: "time \<Rightarrow> Auth \<Rightarrow> bool" where
  "hasModelError now a = list_ex (\<lambda>(m, so). case so of None \<Rightarrow> False
     | Some s \<Rightarrow> ms_last_error s \<noteq> None \<or>
         (ms_status s = StatusError \<and> ms_unavailable s \<and> (ms_next_retry_after s = 0 \<or> ms_next_retry_after s > now)))
     (au_model_states a)"

definition clearAuthStateOnSuccess :: "time \<Rightarrow> Auth \<Rightarrow> Auth" where
  "clearAuthStateOnSuccess now a = a\<lparr>au_unavailable := False, au_status := StatusActive, au_status_message := [],
     au_quota := applyCooldownFields (au_quota a) empty_quota, au_last_error := None, au_next_retry_after := 0,
     au_updated_at := now\<rparr>"

section \<open>Clearing\<close>

definition needs_clearing :: "bool \<Rightarrow> time \<Rightarrow> QuotaState \<Rightarrow> bool" where
  "needs_clearing unavailable nextRetryAfter q =
     (unavailable \<or> nextRetryAfter \<noteq> 0 \<or> qs_exceeded q \<or> qs_next_recover_at q \<noteq> 0)"

definition clear_state :: "time \<Rightarrow> ModelState \<Rightarrow> ModelState" where
  "clear_state now s =
     (if needs_clearing (ms_unavailable s) (ms_next_retry_after s) (ms_quota s)
      then s\<lparr>ms_unavailable := False, ms_next_retry_after := 0,
             ms_quota := applyCooldownFields (ms_quota s) empty_quota, ms_updated_at := now\<rparr>
      else s)"

definition clearCooldownStateForAuth :: "time \<Rightarrow> Auth \<Rightarrow> Auth \<times> bool" where
  "clearCooldownStateForAuth now a =
     (let self = needs_clearing (au_unavailable a) (au_next_retry_after a) (au_quota a);
          a1 = (if self then a\<lparr>au_unavailable := False, au_next_retry_after := 0,
                  au_quota := applyCooldownFields (au_quota a) empty_quota, au_updated_at := now\<rparr> else a);
          changed = (self \<or> list_ex (\<lambda>(m, so). case so of None \<Rightarrow> False
             | Some s \<Rightarrow> needs_clearing (ms_unavailable s) (ms_next_retry_after s) (ms_quota s)) (au_model_states a1));
          a2 = a1\<lparr>au_model_states := map (\<lambda>(m, so). (m, map_option (clear_state now) so)) (au_model_states a1)\<rparr>
      in (if au_model_states a2 \<noteq> [] then updateAggregatedAvailability now a2 else a2, changed))"

end
