(* ===== verification/Mark_Result.thy ===== *)
theory Mark_Result
  imports Cooldown Model_Registry
begin

text \<open>
  Recording results (\<open>Manager.MarkResult\<close> and the operations around it in
  \<open>sdk/cliproxy/auth/conductor_cooldown.go\<close>): the new state of the credential, the marks on the
  model registry, and the cooldown records that are persisted and restored. The manager is a record
  of what these operations read and write; its lock makes the part that changes a credential one
  step. What happens outside it, storage, scheduler, hook and session selector, is a list of events;
  whether storage fails is a parameter.
\<close>

section \<open>Results\<close>

record Result =
  re_auth_id :: string
  re_provider :: string
  re_model :: string
  re_success :: bool
  re_retry_after :: "duration option"
  re_credential_scope :: bool
  re_error :: "Error option"
  re_skip_observation :: bool

definition force_cooldown :: "Error option \<Rightarrow> bool" where
  "force_cooldown err = (case err of None \<Rightarrow> False | Some e \<Rightarrow> er_code e = ErrorCodeForceCooldown)"

section \<open>A failure of the whole credential\<close>

definition other_state :: "ModelState \<Rightarrow> time \<Rightarrow> string \<Rightarrow> ModelState" where
  "other_state s nxt message = s\<lparr>ms_unavailable := True, ms_status := StatusError, ms_status_message := message,
     ms_next_retry_after := nxt, ms_quota := cooldown_quota True ''credential_quota'' nxt 0\<rparr>"

definition auth_timed :: "string \<Rightarrow> duration \<Rightarrow> time \<Rightarrow> bool \<Rightarrow> Auth \<Rightarrow> Auth" where
  "auth_timed message d now disableCooling a =
     a\<lparr>au_status_message := message, au_next_retry_after := (if disableCooling then 0 else now + d)\<rparr>"

definition auth_quota_failure :: "duration option \<Rightarrow> time \<Rightarrow> bool \<Rightarrow> Auth \<Rightarrow> Auth" where
  "auth_quota_failure retryAfter now disableCooling a =
     (let q0 = (au_quota a)\<lparr>qs_exceeded := True, qs_reason := ''quota''\<rparr>;
          (nxt, level) =
            (if disableCooling then (0, qs_backoff_level q0)
             else let (n, l) = (case retryAfter of Some d \<Rightarrow> (now + d, qs_backoff_level q0)
                                | None \<Rightarrow> quotaCooldownAfterFailure q0 now)
               in (if qs_exceeded q0 \<and> qs_next_recover_at q0 > n then qs_next_recover_at q0 else n, l))
      in a\<lparr>au_status_message := ''quota exhausted'',
           au_quota := q0\<lparr>qs_backoff_level := level, qs_next_recover_at := nxt\<rparr>, au_next_retry_after := nxt\<rparr>)"

definition auth_failure_switch :: "int \<Rightarrow> int \<Rightarrow> duration option \<Rightarrow> time \<Rightarrow> bool \<Rightarrow> Auth \<Rightarrow> Auth" where
  "auth_failure_switch seconds statusCode retryAfter now disableCooling a =
     (if statusCode = 401 then auth_timed ''unauthorized'' (30 * minute) now disableCooling a
      else if statusCode = 402 \<or> statusCode = 403 then auth_timed ''payment_required'' (30 * minute) now disableCooling a
      else if statusCode = 404 then auth_timed ''not_found'' (12 * hour) now disableCooling a
      else if statusCode = 429 then auth_quota_failure retryAfter now disableCooling a
      else let nxt = recoverableFailureRetryAfter seconds now disableCooling;
               message = (if statusCode \<in> {408, 500, 502, 503, 504} then ''transient upstream error''
                 else if au_status_message a = [] then ''request failed'' else au_status_message a)
        in a\<lparr>au_status_message := message, au_next_retry_after := nxt, au_unavailable := (nxt \<noteq> 0)\<rparr>)"

definition auth_failure_kind :: "int \<Rightarrow> Error option \<Rightarrow> duration option \<Rightarrow> time \<Rightarrow> bool \<Rightarrow> Auth \<Rightarrow> Auth" where
  "auth_failure_kind seconds resultErr retryAfter now disableCooling a =
     (if isCloudflareChallengeResultError resultErr then
        (let (nxt, level) = nextCloudflareCooldown (qs_backoff_level (au_quota a)) disableCooling now in
         a\<lparr>au_status_message := ''cloudflare challenge'',
           au_quota := applyCooldownFields (au_quota a) (cooldown_quota True ''cloudflare challenge'' nxt level),
           au_next_retry_after := nxt\<rparr>)
      else if isInvalidGrantResultError resultErr then auth_timed ''invalid_grant'' (30 * minute) now disableCooling a
      else if isInvalidAPIKeyResultError resultErr then
        (if disableCooling then a\<lparr>au_status_message := ''invalid_api_key'', au_next_retry_after := 0\<rparr>
         else let nxt = now + 30 * minute in
           a\<lparr>au_status_message := ''invalid_api_key'', au_next_retry_after := nxt,
             au_quota := cooldown_quota True ''credential_quota'' nxt 0,
             au_model_states := map (\<lambda>(m, so). (m, map_option (\<lambda>s. other_state s nxt ''invalid_api_key'') so)) (au_model_states a)\<rparr>)
      else
        (let a1 = auth_failure_switch seconds (statusCodeFromResult resultErr) retryAfter now disableCooling a in
         if force_cooldown resultErr \<and> au_next_retry_after a1 = 0
         then a1\<lparr>au_next_retry_after := now + transientErrorCooldown, au_unavailable := True\<rparr> else a1))"

definition applyAuthFailureState ::
  "json_lib \<Rightarrow> int \<Rightarrow> Error option \<Rightarrow> duration option \<Rightarrow> time \<Rightarrow> bool \<Rightarrow> Auth \<Rightarrow> Auth" where
  "applyAuthFailureState J seconds resultErr retryAfter now disableCooling a =
     (if shouldSkipCredentialCooldown J resultErr then a
      else let a1 = a\<lparr>au_unavailable := True, au_status := StatusError, au_updated_at := now\<rparr>;
               a2 = (case resultErr of None \<Rightarrow> a1
                 | Some e \<Rightarrow> a1\<lparr>au_last_error := Some e,
                     au_status_message := (if er_message e \<noteq> [] then er_message e else au_status_message a1)\<rparr>);
               a3 = auth_failure_kind seconds resultErr retryAfter now disableCooling a2
        in if disableCooling \<and> au_next_retry_after a3 = 0 \<and> qs_next_recover_at (au_quota a3) = 0
           then a3\<lparr>au_unavailable := False, au_quota := (au_quota a3)\<lparr>qs_exceeded := False\<rparr>\<rparr> else a3)"

section \<open>A failure for one model\<close>

text \<open>
  What a branch computes: the state of the model, the credential (its other states included), the
  reason to suspend the model in the registry, if any, and whether to set its quota mark.
\<close>

type_synonym failure = "ModelState \<times> Auth \<times> string option \<times> bool"

definition model_timed :: "string \<Rightarrow> duration \<Rightarrow> time \<Rightarrow> bool \<Rightarrow> ModelState \<Rightarrow> Auth \<Rightarrow> failure" where
  "model_timed reason d now disableCooling s a =
     (if disableCooling then (s\<lparr>ms_next_retry_after := 0\<rparr>, a, None, False)
      else (s\<lparr>ms_next_retry_after := now + d\<rparr>, a, Some reason, False))"

text \<open>The loop over the states of the other models.\<close>

definition map_others :: "string \<Rightarrow> (ModelState \<Rightarrow> ModelState) \<Rightarrow> Auth \<Rightarrow> Auth" where
  "map_others key f a = a\<lparr>au_model_states :=
     map (\<lambda>(m, so). (m, if m = key then so else map_option f so)) (au_model_states a)\<rparr>"

definition invalid_key_failure :: "string \<Rightarrow> time \<Rightarrow> bool \<Rightarrow> ModelState \<Rightarrow> Auth \<Rightarrow> failure" where
  "invalid_key_failure key now disableCooling s a =
     (if disableCooling then (s\<lparr>ms_next_retry_after := 0\<rparr>, a, None, False)
      else let nxt = now + 30 * minute in
        (s\<lparr>ms_next_retry_after := nxt, ms_quota := cooldown_quota True ''credential_quota'' nxt 0\<rparr>,
         (map_others key (\<lambda>o'. other_state o' nxt ''invalid_api_key'') a)
           \<lparr>au_unavailable := True, au_status := StatusError, au_status_message := ''invalid_api_key'',
            au_quota := cooldown_quota True ''credential_quota'' nxt 0, au_next_retry_after := nxt\<rparr>,
         Some ''invalid_api_key'', False))"

definition scope_state :: "time \<Rightarrow> int \<Rightarrow> ModelState \<Rightarrow> ModelState" where
  "scope_state nxt level s =
     (let q = ms_quota s; nxt' = (if qs_exceeded q \<and> qs_next_recover_at q > nxt then qs_next_recover_at q else nxt)
      in s\<lparr>ms_unavailable := True, ms_status := StatusError, ms_next_retry_after := nxt',
           ms_quota := applyCooldownFields q (cooldown_quota True ''credential_quota'' nxt' level)\<rparr>)"

definition quota_failure :: "Result \<Rightarrow> string \<Rightarrow> time \<Rightarrow> bool \<Rightarrow> ModelState \<Rightarrow> Auth \<Rightarrow> failure" where
  "quota_failure result key now disableCooling s a =
     (let q = ms_quota s;
          (nxt, level) =
            (if disableCooling then (0, qs_backoff_level q)
             else let (n, l) = (case re_retry_after result of Some d \<Rightarrow> (now + d, qs_backoff_level q)
                                | None \<Rightarrow> quotaCooldownAfterFailure q now)
               in (if qs_exceeded q \<and> qs_next_recover_at q > n then qs_next_recover_at q else n, l));
          s' = s\<lparr>ms_next_retry_after := nxt, ms_quota := applyCooldownFields q (cooldown_quota True ''quota'' nxt level)\<rparr>;
          a' = (if re_credential_scope result \<and> \<not> disableCooling then
                  let aq = au_quota a; authNext = later nxt (qs_next_recover_at aq) in
                  (map_others key (scope_state nxt level) a)
                    \<lparr>au_unavailable := True,
                     au_quota := aq\<lparr>qs_exceeded := True, qs_reason := ''credential_quota'', qs_next_recover_at := authNext\<rparr>,
                     au_next_retry_after := authNext\<rparr>
                else a)
      in (s', a', None, \<not> disableCooling))"

definition cloudflare_failure :: "time \<Rightarrow> bool \<Rightarrow> ModelState \<Rightarrow> Auth \<Rightarrow> failure" where
  "cloudflare_failure now disableCooling s a =
     (let (nxt, level) = nextCloudflareCooldown (qs_backoff_level (ms_quota s)) disableCooling now in
      (s\<lparr>ms_next_retry_after := nxt, ms_status_message := ''cloudflare challenge'',
         ms_quota := applyCooldownFields (ms_quota s) (cooldown_quota True ''cloudflare challenge'' nxt level)\<rparr>,
       if au_last_error a \<noteq> None then a\<lparr>au_status_message := ''cloudflare challenge''\<rparr> else a, None, False))"

definition model_failure_switch :: "int \<Rightarrow> Result \<Rightarrow> string \<Rightarrow> time \<Rightarrow> bool \<Rightarrow> ModelState \<Rightarrow> Auth \<Rightarrow> failure" where
  "model_failure_switch seconds result key now disableCooling s a =
     (let statusCode = statusCodeFromResult (re_error result) in
      if isModelSupportResultError (re_error result) then
        (s\<lparr>ms_next_retry_after := now + 12 * hour\<rparr>, a, Some ''model_not_supported'', False)
      else if isCloudflareChallengeResultError (re_error result) then cloudflare_failure now disableCooling s a
      else if isInvalidGrantResultError (re_error result) then model_timed ''invalid_grant'' (30 * minute) now disableCooling s a
      else if isInvalidAPIKeyResultError (re_error result) then invalid_key_failure key now disableCooling s a
      else if statusCode = 401 then model_timed ''unauthorized'' (30 * minute) now disableCooling s a
      else if statusCode = 402 \<or> statusCode = 403 then model_timed ''payment_required'' (30 * minute) now disableCooling s a
      else if statusCode = 404 then model_timed ''not_found'' (12 * hour) now disableCooling s a
      else if statusCode = 429 then quota_failure result key now disableCooling s a
      else let nxt = recoverableFailureRetryAfter seconds now disableCooling
        in (s\<lparr>ms_next_retry_after := nxt, ms_unavailable := (nxt \<noteq> 0)\<rparr>, a, None, False))"

text \<open>The two adjustments after the switch.\<close>

definition settle_state :: "Error option \<Rightarrow> time \<Rightarrow> bool \<Rightarrow> ModelState \<Rightarrow> ModelState" where
  "settle_state err now disableCooling s =
     (let s1 = (if disableCooling \<and> ms_next_retry_after s = 0 \<and> qs_next_recover_at (ms_quota s) = 0
                then s\<lparr>ms_unavailable := False, ms_quota := (ms_quota s)\<lparr>qs_exceeded := False\<rparr>\<rparr> else s)
      in if force_cooldown err \<and> ms_next_retry_after s1 = 0
         then s1\<lparr>ms_next_retry_after := now + transientErrorCooldown, ms_unavailable := True\<rparr> else s1)"

definition model_failure ::
  "int \<Rightarrow> Result \<Rightarrow> string \<Rightarrow> time \<Rightarrow> bool \<Rightarrow> Auth \<Rightarrow> Auth \<times> string option \<times> bool" where
  "model_failure seconds result modelKey now disableCooling a =
     (let key = canonicalModelKey modelKey;
          a0 = ensureModelState a modelKey;
          s0 = (model_state a0 key)\<lparr>ms_unavailable := True, ms_status := StatusError, ms_updated_at := now\<rparr>;
          (s1, a1) = (case re_error result of None \<Rightarrow> (s0, a0)
             | Some e \<Rightarrow> (s0\<lparr>ms_last_error := Some e, ms_status_message := er_message e\<rparr>,
                         a0\<lparr>au_last_error := Some e, au_status_message := er_message e\<rparr>));
          (s2, a2, suspend, setQuota) = model_failure_switch seconds result key now disableCooling s1 a1;
          s3 = settle_state (re_error result) now disableCooling s2;
          a3 = (put_model_state key s3 a2)\<lparr>au_status := StatusError, au_updated_at := now\<rparr>
      in (updateAggregatedAvailability now a3, suspend, setQuota))"

section \<open>The effect of a result on its credential\<close>

record marks =
  mk_resume :: bool
  mk_suspend :: "string option"
  mk_clear_quota :: bool
  mk_set_quota :: bool

definition no_marks :: marks where
  "no_marks = \<lparr>mk_resume = False, mk_suspend = None, mk_clear_quota = False, mk_set_quota = False\<rparr>"

definition model_success :: "string \<Rightarrow> time \<Rightarrow> Auth \<Rightarrow> Auth" where
  "model_success modelKey now a =
     (let key = canonicalModelKey modelKey;
          a0 = ensureModelState a modelKey;
          a1 = updateAggregatedAvailability now (put_model_state key (resetModelState now (model_state a0 key)) a0);
          a2 = (if \<not> hasModelError now a1 then a1\<lparr>au_last_error := None, au_status_message := [], au_status := StatusActive\<rparr> else a1)
      in a2\<lparr>au_updated_at := now\<rparr>)"

definition observe_quota :: "Result \<Rightarrow> (string, string list) gomap \<Rightarrow> string \<Rightarrow> time \<Rightarrow> Auth \<Rightarrow> Auth" where
  "observe_quota result headers modelKey now a =
     (if re_skip_observation result then a
      else let a1 = a\<lparr>au_quota := ObserveResponseHeadersForProvider (re_provider result) headers now (au_quota a)\<rparr>
        in case existingModelState a1 modelKey of None \<Rightarrow> a1
           | Some s \<Rightarrow> put_model_state (canonicalModelKey modelKey)
               (s\<lparr>ms_quota := ObserveResponseHeadersForProvider (re_provider result) headers now (ms_quota s)\<rparr>) a1)"

text \<open>\<open>disabled\<close> is \<open>cooldownDisabledForAuth\<close>.\<close>

definition mark_auth ::
  "json_lib \<Rightarrow> int \<Rightarrow> bool \<Rightarrow> Result \<Rightarrow> (string, string list) gomap \<Rightarrow> time \<Rightarrow> Auth \<Rightarrow> Auth \<times> marks" where
  "mark_auth J seconds disabled result headers now a =
     (let modelKey = canonicalModelKey (re_model result);
          a1 = recordRecentRequest a now (re_success result);
          a2 = (if re_success result then a1\<lparr>au_success := au_success a1 + 1\<rparr> else a1\<lparr>au_failed := au_failed a1 + 1\<rparr>);
          disableCooling = (disabled \<and> \<not> force_cooldown (re_error result));
          (a3, marks) =
            (if re_success result then
               (if qs_reason (au_quota a2) = ''credential_quota'' \<and> qs_next_recover_at (au_quota a2) > now then (a2, no_marks)
                else if modelKey \<noteq> [] then (model_success modelKey now a2, no_marks\<lparr>mk_resume := True, mk_clear_quota := True\<rparr>)
                else (clearAuthStateOnSuccess now a2, no_marks))
             else if modelKey \<noteq> [] then
               (if shouldSkipCredentialCooldown J (re_error result) then (a2, no_marks)
                else let (a', suspend, setQuota) = model_failure seconds result modelKey now disableCooling a2
                  in (a', no_marks\<lparr>mk_suspend := suspend, mk_set_quota := setQuota\<rparr>))
             else (applyAuthFailureState J seconds (re_error result) (re_retry_after result) now disableCooling a2, no_marks))
      in (observe_quota result headers modelKey now a3, marks))"

section \<open>Cooldown records\<close>

record CooldownStateRecord =
  cr_provider :: string
  cr_auth_id :: string
  cr_auth_file :: string
  cr_model :: string
  cr_status :: string
  cr_next_retry_after :: time
  cr_reason :: string
  cr_quota :: QuotaState
  cr_last_error :: "Error option"
  cr_updated_at :: time

definition cooldownAuthFile :: "Auth \<Rightarrow> string" where
  "cooldownAuthFile a =
     (let path = trim_space (mget_or [] (au_attributes a) ''path'') in
      if path \<noteq> [] then path else trim_space (au_file_name a))"

definition cooldownReason :: "string \<Rightarrow> QuotaState \<Rightarrow> Error option \<Rightarrow> string" where
  "cooldownReason statusMessage quota lastErr =
     (if trim_space (qs_reason quota) \<noteq> [] then trim_space (qs_reason quota)
      else if trim_space statusMessage \<noteq> [] then trim_space statusMessage
      else case lastErr of None \<Rightarrow> []
        | Some e \<Rightarrow> if trim_space (er_code e) \<noteq> [] then trim_space (er_code e) else trim_space (er_message e))"

definition authCooldownStateRecord :: "time \<Rightarrow> Auth \<Rightarrow> CooldownStateRecord option" where
  "authCooldownStateRecord now a =
     (if \<not> au_unavailable a \<or> au_next_retry_after a = 0 \<or> \<not> au_next_retry_after a > now then None
      else Some \<lparr>cr_provider = trim_space (au_provider a), cr_auth_id = au_id a, cr_auth_file = cooldownAuthFile a,
             cr_model = [], cr_status = ''cooling'', cr_next_retry_after = au_next_retry_after a,
             cr_reason = cooldownReason (au_status_message a) (au_quota a) (au_last_error a),
             cr_quota = cooldownFieldsOf (au_quota a), cr_last_error = au_last_error a, cr_updated_at = au_updated_at a\<rparr>)"

definition modelCooldownStateRecord :: "time \<Rightarrow> Auth \<Rightarrow> string \<Rightarrow> ModelState option \<Rightarrow> CooldownStateRecord option" where
  "modelCooldownStateRecord now a model0 so =
     (let model = trim_space model0 in
      case so of None \<Rightarrow> None
      | Some s \<Rightarrow>
          if model = [] \<or> \<not> ms_unavailable s \<or> ms_next_retry_after s = 0 \<or> \<not> ms_next_retry_after s > now then None
          else Some \<lparr>cr_provider = trim_space (au_provider a), cr_auth_id = au_id a, cr_auth_file = cooldownAuthFile a,
                 cr_model = model, cr_status = ''cooling'', cr_next_retry_after = ms_next_retry_after s,
                 cr_reason = cooldownReason (ms_status_message s) (ms_quota s) (ms_last_error s),
                 cr_quota = cooldownFieldsOf (ms_quota s), cr_last_error = ms_last_error s, cr_updated_at = ms_updated_at s\<rparr>)"

definition list_of :: "'a option \<Rightarrow> 'a list" where
  "list_of x = (case x of None \<Rightarrow> [] | Some a \<Rightarrow> [a])"

definition cooldownStateRecordsForAuthLocked :: "bool \<Rightarrow> time \<Rightarrow> Auth \<Rightarrow> CooldownStateRecord list" where
  "cooldownStateRecordsForAuthLocked disabled now a =
     (if au_id a = [] \<or> au_disabled a \<or> au_status a = StatusDisabled \<or> disabled then []
      else sort_slice (\<lambda>x y. cr_model x < cr_model y)
        (list_of (authCooldownStateRecord now a) @
         concat (map (\<lambda>(m, so). list_of (modelCooldownStateRecord now a m so)) (au_model_states a))))"

definition cooldownQuotaEqual :: "QuotaState \<Rightarrow> QuotaState \<Rightarrow> bool" where
  "cooldownQuotaEqual a b = (qs_exceeded a = qs_exceeded b \<and> qs_reason a = qs_reason b \<and>
     qs_backoff_level a = qs_backoff_level b \<and> qs_next_recover_at a = qs_next_recover_at b)"

definition cooldownErrorEqual :: "Error option \<Rightarrow> Error option \<Rightarrow> bool" where
  "cooldownErrorEqual a b =
     (case (a, b) of (None, None) \<Rightarrow> True
      | (Some x, Some y) \<Rightarrow> er_code x = er_code y \<and> er_message x = er_message y \<and>
          er_retryable x = er_retryable y \<and> er_http_status x = er_http_status y
      | _ \<Rightarrow> False)"

definition cooldownStateRecordEqual :: "CooldownStateRecord \<Rightarrow> CooldownStateRecord \<Rightarrow> bool" where
  "cooldownStateRecordEqual a b =
     (cr_provider a = cr_provider b \<and> cr_auth_id a = cr_auth_id b \<and> cr_auth_file a = cr_auth_file b \<and>
      cr_model a = cr_model b \<and> cr_status a = cr_status b \<and> cr_reason a = cr_reason b \<and>
      cr_next_retry_after a = cr_next_retry_after b \<and> cr_updated_at a = cr_updated_at b \<and>
      cooldownQuotaEqual (cr_quota a) (cr_quota b) \<and> cooldownErrorEqual (cr_last_error a) (cr_last_error b))"

definition cooldownStateRecordsEqual :: "CooldownStateRecord list \<Rightarrow> CooldownStateRecord list \<Rightarrow> bool" where
  "cooldownStateRecordsEqual a b = list_all2 cooldownStateRecordEqual a b"

section \<open>The manager\<close>

datatype manager_event =
    PersistAuth Auth
  | SchedulerUpsert Auth
  | SaveCooldowns "CooldownStateRecord list"
  | HookResult Result
  | SessionResult Result
  | HookRegistered Auth
  | HookUpdated Auth
  | RefreshQueued string
  | RefreshUnscheduled string
  | AffinityInvalidated string
  | SessionsClosed string

record Manager =
  mg_auths :: "(string, Auth) gomap"
  mg_registry :: ModelRegistry
  mg_config :: "Config option"
  mg_transient_seconds :: int
  mg_quota_disabled :: bool
  mg_has_cooldown_store :: bool
  mg_has_scheduler :: bool
  mg_events :: "manager_event list"

text \<open>What the operations depend on outside the program: the JSON package, and whether saving a
  credential or the cooldown records fails.\<close>

record environment =
  en_json :: json_lib
  en_persist_fails :: "Auth \<Rightarrow> bool"
  en_save_fails :: "CooldownStateRecord list \<Rightarrow> bool"

datatype mark_error = PersistAuthFailed | PersistCooldownFailed | AuthIDRequired

definition emit :: "manager_event list \<Rightarrow> Manager \<Rightarrow> Manager" where
  "emit evs m = m\<lparr>mg_events := mg_events m @ evs\<rparr>"

definition cooldownDisabledForAuth :: "Manager \<Rightarrow> Auth \<Rightarrow> bool" where
  "cooldownDisabledForAuth m a = quotaCooldownDisabledForAuthWithConfig (mg_quota_disabled m) a (mg_config m)"

definition record_before :: "CooldownStateRecord \<Rightarrow> CooldownStateRecord \<Rightarrow> bool" where
  "record_before x y =
     (if cr_provider x \<noteq> cr_provider y then cr_provider x < cr_provider y
      else if cr_auth_id x \<noteq> cr_auth_id y then cr_auth_id x < cr_auth_id y
      else cr_model x < cr_model y)"

definition cooldownStateRecordsSnapshot :: "Manager \<Rightarrow> time \<Rightarrow> CooldownStateRecord list" where
  "cooldownStateRecordsSnapshot m now =
     sort_slice record_before
       (concat (map (\<lambda>(i, a). cooldownStateRecordsForAuthLocked (cooldownDisabledForAuth m a) now a) (mg_auths m)))"

definition persistCooldownStates :: "environment \<Rightarrow> time \<Rightarrow> Manager \<Rightarrow> Manager \<times> bool" where
  "persistCooldownStates E now m =
     (if \<not> mg_has_cooldown_store m then (m, True)
      else let records = cooldownStateRecordsSnapshot m now in
        (emit [SaveCooldowns records] m, \<not> en_save_fails E records))"

definition modelsForRegisteredAuth :: "ModelRegistry \<Rightarrow> string \<Rightarrow> string list" where
  "modelsForRegisteredAuth r authID =
     map (\<lambda>mi. canonicalModelKey (mi_id mi)) (filter (\<lambda>mi. trim_space (mi_id mi) \<noteq> []) (GetModelsForClient r authID))"

definition resume_invalid_key :: "string \<Rightarrow> time \<Rightarrow> ModelRegistry \<Rightarrow> string \<Rightarrow> ModelRegistry" where
  "resume_invalid_key authID now r model =
     (if GetClientModelSuspensionReason r authID model = ''invalid_api_key'' then ResumeClientModel r authID model now else r)"

text \<open>The registry calls at the end of \<open>MarkResult\<close>.\<close>

definition mark_registry :: "string \<Rightarrow> string \<Rightarrow> marks \<Rightarrow> time \<Rightarrow> ModelRegistry \<Rightarrow> ModelRegistry" where
  "mark_registry authID modelKey mk now r =
     (let r1 = (if mk_clear_quota mk \<and> modelKey \<noteq> [] then ClearModelQuotaExceeded r authID modelKey else r);
          r2 = (if mk_set_quota mk \<and> modelKey \<noteq> [] then SetModelQuotaExceeded r1 authID modelKey now else r1)
      in if mk_resume mk then
           (let r3 = foldl (resume_invalid_key authID now) r2 (modelsForRegisteredAuth r2 authID)
            in if modelKey \<noteq> [] then ResumeClientModel r3 authID modelKey now else r3)
         else case mk_suspend mk of None \<Rightarrow> r2
           | Some reason \<Rightarrow>
               if reason = ''invalid_api_key'' then
                 (let r3 = foldl (\<lambda>r model. SuspendClientModel r authID model reason now) r2 (modelsForRegisteredAuth r2 authID)
                  in if modelKey \<noteq> [] then SuspendClientModel r3 authID modelKey reason now else r3)
               else SuspendClientModel r2 authID modelKey reason now)"

definition MarkResult ::
  "environment \<Rightarrow> (string, string list) gomap \<Rightarrow> time \<Rightarrow> Result \<Rightarrow> Manager \<Rightarrow> Manager \<times> mark_error option" where
  "MarkResult E headers now result m =
     (if re_auth_id result = [] then (m, None)
      else let modelKey = canonicalModelKey (re_model result) in
        case mget (mg_auths m) (re_auth_id result) of
          None \<Rightarrow> (emit [HookResult result, SessionResult result] m, None)
        | Some existing \<Rightarrow>
            let (a, mk) = mark_auth (en_json E) (mg_transient_seconds m) (cooldownDisabledForAuth m existing) result headers now existing;
                changed = (mg_has_cooldown_store m \<and>
                  \<not> cooldownStateRecordsEqual
                      (cooldownStateRecordsForAuthLocked (cooldownDisabledForAuth m existing) now existing)
                      (cooldownStateRecordsForAuthLocked (cooldownDisabledForAuth m a) now a))
            in if en_persist_fails E a then (emit [PersistAuth a] m, Some PersistAuthFailed)
               else let m1 = emit ([PersistAuth a] @ (if mg_has_scheduler m then [SchedulerUpsert a] else []))
                               (m\<lparr>mg_auths := mput (re_auth_id result) a (mg_auths m)\<rparr>);
                        (m2, saved) = (if changed then persistCooldownStates E now m1 else (m1, True));
                        m3 = m2\<lparr>mg_registry := mark_registry (re_auth_id result) modelKey mk now (mg_registry m2)\<rparr>
                 in (emit [HookResult result, SessionResult result] m3, if saved then None else Some PersistCooldownFailed))"

definition recordAvailabilityNeutralResult ::
  "environment \<Rightarrow> time \<Rightarrow> Result \<Rightarrow> Manager \<Rightarrow> Manager \<times> mark_error option" where
  "recordAvailabilityNeutralResult E now result m =
     (if re_auth_id result = [] then (m, None)
      else case mget (mg_auths m) (re_auth_id result) of
        None \<Rightarrow> (emit [HookResult result] m, None)
      | Some a0 \<Rightarrow>
          let a1 = recordRecentRequest a0 now (re_success result);
              a = (if re_success result then a1\<lparr>au_success := au_success a1 + 1\<rparr> else a1\<lparr>au_failed := au_failed a1 + 1\<rparr>)
          in (emit [PersistAuth a, HookResult result] (m\<lparr>mg_auths := mput (re_auth_id result) a (mg_auths m)\<rparr>),
              if en_persist_fails E a then Some PersistAuthFailed else None))"

section \<open>Clearing and restoring\<close>

definition clear_disabled_step ::
  "Config option \<Rightarrow> time \<Rightarrow> Manager \<times> Auth list \<Rightarrow> string \<times> Auth \<Rightarrow> Manager \<times> Auth list" where
  "clear_disabled_step cfg now acc entry =
     (let (m, snapshots) = acc; (i, a) = entry in
      if \<not> quotaCooldownDisabledForAuthWithConfig (mg_quota_disabled m) a cfg \<and> \<not> au_disabled a \<and> au_status a \<noteq> StatusDisabled then acc
      else let (a', changed) = clearCooldownStateForAuth now a
        in (m\<lparr>mg_auths := mput i a' (mg_auths m)\<rparr>, if changed then snapshots @ [a'] else snapshots))"

definition clearDisabledCooldownStates :: "Config option \<Rightarrow> time \<Rightarrow> Manager \<Rightarrow> Manager \<times> bool" where
  "clearDisabledCooldownStates cfg now m =
     (let (m', snapshots) = foldl (clear_disabled_step cfg now) (m, []) (mg_auths m)
      in (if mg_has_scheduler m' then emit (map SchedulerUpsert snapshots) m' else m', snapshots \<noteq> []))"

definition restored_state :: "CooldownStateRecord \<Rightarrow> QuotaState \<Rightarrow> time \<Rightarrow> ModelState" where
  "restored_state r quota updatedAt =
     \<lparr>ms_status = StatusError, ms_status_message = trim_space (cr_reason r), ms_unavailable = True,
      ms_next_retry_after = cr_next_retry_after r, ms_last_error = cr_last_error r, ms_quota = quota, ms_updated_at = updatedAt\<rparr>"

definition restore_auth :: "CooldownStateRecord \<Rightarrow> time \<Rightarrow> Auth \<Rightarrow> Auth" where
  "restore_auth r now a =
     (let updatedAt = (if cr_updated_at r = 0 then now else cr_updated_at r);
          reason = trim_space (cr_reason r); model = trim_space (cr_model r);
          q = cr_quota r;
          quota = (if qs_exceeded q \<and> qs_next_recover_at q = 0 then q\<lparr>qs_next_recover_at := cr_next_retry_after r\<rparr> else q)
      in if model = [] then
           a\<lparr>au_unavailable := True, au_status := StatusError, au_next_retry_after := cr_next_retry_after r,
             au_quota := mergeQuotaObservation (applyCooldownFields (au_quota a) quota) quota, au_updated_at := updatedAt,
             au_status_message := (if reason \<noteq> [] then reason else au_status_message a), au_last_error := cr_last_error r\<rparr>
         else let key = canonicalModelKey model; a1 = ensureModelState a model
           in updateAggregatedAvailability now
                (put_model_state key (merge_states (model_state a1 key) (restored_state r quota updatedAt)) a1))"

definition restoreCooldownRecordLocked :: "CooldownStateRecord \<Rightarrow> time \<Rightarrow> Manager \<Rightarrow> Manager \<times> bool" where
  "restoreCooldownRecordLocked r now m =
     (let authID = trim_space (cr_auth_id r) in
      if authID = [] \<or> cr_next_retry_after r = 0 \<or> \<not> cr_next_retry_after r > now then (m, False)
      else case mget (mg_auths m) authID of None \<Rightarrow> (m, False)
      | Some a \<Rightarrow>
          if au_disabled a \<or> au_status a = StatusDisabled \<or> cooldownDisabledForAuth m a then (m, False)
          else (m\<lparr>mg_auths := mput authID (restore_auth r now a) (mg_auths m)\<rparr>, True))"

definition restore_step :: "time \<Rightarrow> Manager \<times> string list \<Rightarrow> CooldownStateRecord \<Rightarrow> Manager \<times> string list" where
  "restore_step now acc r =
     (let (m, restored) = acc; (m', ok) = restoreCooldownRecordLocked r now m
      in (m', if ok then restored @ [trim_space (cr_auth_id r)] else restored))"

text \<open>\<open>records\<close> is what the store loads; \<open>None\<close> when loading fails.\<close>

definition RestoreCooldownStates ::
  "environment \<Rightarrow> CooldownStateRecord list option \<Rightarrow> time \<Rightarrow> Manager \<Rightarrow> Manager \<times> bool" where
  "RestoreCooldownStates E loaded now m =
     (if \<not> mg_has_cooldown_store m then (m, True)
      else case loaded of None \<Rightarrow> (m, False)
      | Some records \<Rightarrow>
          if records = [] then (m, True)
          else let (m1, ids1) = foldl (restore_step now) (m, []) (filter (\<lambda>r. trim_space (cr_model r) \<noteq> []) records);
                   (m2, ids2) = foldl (restore_step now) (m1, ids1) (filter (\<lambda>r. trim_space (cr_model r) = []) records);
                   upserts = concat (map (\<lambda>i. case mget (mg_auths m2) i of None \<Rightarrow> [] | Some a \<Rightarrow> [SchedulerUpsert a]) (first_seen ids2))
            in persistCooldownStates E now (if mg_has_scheduler m2 then emit upserts m2 else m2))"

definition dedupeStrings :: "string list \<Rightarrow> string list" where
  "dedupeStrings vals =
     (if length vals < 2 then vals else first_seen (filter (\<lambda>v. v \<noteq> []) (map trim_space vals)))"

definition reset_states :: "time \<Rightarrow> Auth \<Rightarrow> Auth" where
  "reset_states now a = a\<lparr>au_model_states :=
     map (\<lambda>(m, so). (m, if trim_space m = [] then so else map_option (resetModelState now) so)) (au_model_states a)\<rparr>"

text \<open>What \<open>ResetQuota\<close> does to the credential.\<close>

definition reset_auth :: "time \<Rightarrow> Auth \<Rightarrow> Auth" where
  "reset_auth now a0 =
     (let (a1, changed) = clearCooldownStateForAuth now (reset_states now a0);
          a2 = (if changed then a1 else if au_model_states a1 \<noteq> [] then updateAggregatedAvailability now a1 else a1);
          a3 = (if \<not> au_disabled a2 \<and> au_status a2 \<noteq> StatusDisabled \<and> \<not> hasModelError now a2
                then a2\<lparr>au_last_error := None, au_status_message := [], au_status := StatusActive\<rparr> else a2)
      in a3\<lparr>au_updated_at := now\<rparr>)"

definition ResetQuota ::
  "environment \<Rightarrow> string \<Rightarrow> time \<Rightarrow> Manager \<Rightarrow> Manager \<times> (Auth \<times> string list) option \<times> mark_error option" where
  "ResetQuota E authID0 now m =
     (let authID = trim_space authID0 in
      if authID = [] then (m, None, Some AuthIDRequired)
      else case mget (mg_auths m) authID of None \<Rightarrow> (m, None, None)
      | Some a0 \<Rightarrow>
          let registered = modelsForRegisteredAuth (mg_registry m) authID;
              models0 = filter (\<lambda>k. trim_space k \<noteq> []) (map fst (au_model_states a0));
              records0 = cooldownStateRecordsForAuthLocked (cooldownDisabledForAuth m a0) now a0;
              models = dedupeStrings (if models0 = [] then registered else models0);
              a = reset_auth now a0;
              m1 = m\<lparr>mg_auths := mput authID a (mg_auths m)\<rparr>
          in if en_persist_fails E a then (emit [PersistAuth a] m1, None, Some PersistAuthFailed)
             else let r = foldl (\<lambda>r k. ResumeClientModel (ClearModelQuotaExceeded r authID k) authID k now) (mg_registry m1) models;
                      m2 = emit ([PersistAuth a] @ (if mg_has_scheduler m then [SchedulerUpsert a] else [])) (m1\<lparr>mg_registry := r\<rparr>);
                      storeChanged = (mg_has_cooldown_store m \<and>
                        \<not> cooldownStateRecordsEqual records0 (cooldownStateRecordsForAuthLocked (cooldownDisabledForAuth m a) now a));
                      (m3, saved) = (if storeChanged then persistCooldownStates E now m2 else (m2, True))
               in (m3, Some (a, models), if saved then None else Some PersistCooldownFailed))"

section \<open>Facts on blocking\<close>

lemma set_matching: "s \<in> set (matching key l) \<longleftrightarrow> (\<exists>m. (m, Some s) \<in> set l \<and> canonicalModelKey m = key)"
  by (force simp: matching_def split: option.splits if_splits)

text \<open>Two model states, and two credentials, that differ in nothing the availability reads.\<close>

definition same_state :: "ModelState \<Rightarrow> ModelState \<Rightarrow> bool" where
  "same_state s t \<longleftrightarrow> ms_status s = ms_status t \<and> ms_unavailable s = ms_unavailable t \<and>
     ms_next_retry_after s = ms_next_retry_after t \<and> qs_exceeded (ms_quota s) = qs_exceeded (ms_quota t) \<and>
     qs_next_recover_at (ms_quota s) = qs_next_recover_at (ms_quota t)"

definition same_entry :: "string \<times> ModelState option \<Rightarrow> string \<times> ModelState option \<Rightarrow> bool" where
  "same_entry x y \<longleftrightarrow> fst x = fst y \<and> rel_option same_state (snd x) (snd y)"

definition same_availability :: "Auth \<Rightarrow> Auth \<Rightarrow> bool" where
  "same_availability a b \<longleftrightarrow> au_disabled a = au_disabled b \<and> au_status a = au_status b \<and>
     au_unavailable a = au_unavailable b \<and> au_next_retry_after a = au_next_retry_after b \<and>
     qs_exceeded (au_quota a) = qs_exceeded (au_quota b) \<and> qs_reason (au_quota a) = qs_reason (au_quota b) \<and>
     qs_next_recover_at (au_quota a) = qs_next_recover_at (au_quota b) \<and>
     list_all2 same_entry (au_model_states a) (au_model_states b)"

lemma same_state_refl [simp]: "same_state s s"
  by (simp add: same_state_def)

lemma same_entry_refl [simp]: "same_entry x x"
  by (cases "snd x") (simp_all add: same_entry_def)

lemma same_entries_refl [simp]: "list_all2 same_entry l l"
  by (simp add: list_all2_refl)

lemma same_state_block: "same_state s t \<Longrightarrow> state_block s now = state_block t now"
  by (simp add: same_state_def state_block_def)

lemma scan_same: "list_all2 same_entry l l' \<Longrightarrow> scan_states key now l acc = scan_states key now l' acc"
proof (induction l l' arbitrary: acc rule: list_all2_induct)
  case (Cons x l y l')
  obtain m so n to mt b r nx where x: "x = (m, so)" "y = (n, to)" "acc = (mt, b, r, nx)" by (cases x; cases y; cases acc)
  have e: "m = n" "rel_option same_state so to" using Cons.hyps(1) x by (auto simp: same_entry_def)
  show ?case
  proof (cases so)
    case None
    then show ?thesis using x e Cons.IH by simp
  next
    case (Some s)
    then obtain t where t: "to = Some t" "same_state s t" using e(2) by (auto simp: option_rel_Some1)
    have "ms_status s = ms_status t" using t(2) by (simp add: same_state_def)
    then show ?thesis using x e Some t Cons.IH same_state_block [OF t(2)] by (simp split: bool.splits prod.splits)
  qed
qed simp

lemma same_availability_block:
  "same_availability a b \<Longrightarrow> isAuthBlockedForModel (Some a) model now = isAuthBlockedForModel (Some b) model now"
proof -
  assume s: "same_availability a b"
  then have l: "list_all2 same_entry (au_model_states a) (au_model_states b)" by (simp add: same_availability_def)
  then have "au_model_states a = [] \<longleftrightarrow> au_model_states b = []" by auto
  then show ?thesis using s scan_same [OF l]
    by (simp add: isAuthBlockedForModel_def same_availability_def credential_quota_def auth_block_def)
qed

lemma same_entries_mput:
  "mget l k = Some (Some s) \<Longrightarrow> same_state s t \<Longrightarrow> list_all2 same_entry (mput k (Some t) l) l"
proof (induction l)
  case (Cons x l)
  have "same_entry (k, Some t) (k, Some s)" using Cons.prems(2) by (simp add: same_entry_def same_state_def)
  then show ?case using Cons by (cases x) auto
qed simp

lemma existingModelState_Some:
  "existingModelState a model = Some s \<Longrightarrow> mget (au_model_states a) (canonicalModelKey model) = Some (Some s)"
  by (auto simp: existingModelState_def mget_or_def Let_def split: if_splits option.splits)

lemma observe_quota_same: "same_availability (observe_quota result headers modelKey now a) a"
proof -
  let ?a = "a\<lparr>au_quota := ObserveResponseHeadersForProvider (re_provider result) headers now (au_quota a)\<rparr>"
  show ?thesis
  proof (cases "existingModelState ?a modelKey")
    case None
    then show ?thesis by (simp add: observe_quota_def same_availability_def Let_def)
  next
    case (Some s)
    then have "mget (au_model_states a) (canonicalModelKey modelKey) = Some (Some s)"
      by (auto dest!: existingModelState_Some)
    then have "list_all2 same_entry (mput (canonicalModelKey modelKey)
        (Some (s\<lparr>ms_quota := ObserveResponseHeadersForProvider (re_provider result) headers now (ms_quota s)\<rparr>)) (au_model_states a))
        (au_model_states a)"
      by (rule same_entries_mput) (simp add: same_state_def)
    then show ?thesis using Some by (simp add: observe_quota_def put_model_state_def same_availability_def Let_def)
  qed
qed

lemma record_request_same: "same_availability (recordRecentRequest a now ok) a"
  by (simp add: recordRecentRequest_def same_availability_def Let_def)

section \<open>Facts on aggregation\<close>

text \<open>A state is over quota exactly when it says until when.\<close>

definition quota_dated :: "Auth \<Rightarrow> bool" where
  "quota_dated a \<longleftrightarrow> (\<forall>(m, so) \<in> set (au_model_states a). \<forall>s. so = Some s \<longrightarrow>
     qs_exceeded (ms_quota s) = (qs_next_recover_at (ms_quota s) \<noteq> 0))"

lemma lift_stops:
  "now \<le> t \<Longrightarrow> qs_exceeded (ms_quota s) = (qs_next_recover_at (ms_quota s) \<noteq> 0) \<Longrightarrow>
     stops t (lift_expired now s) \<longleftrightarrow> stops t s"
  by (cases "qs_next_recover_at (ms_quota s) = 0"; cases "t < qs_next_recover_at (ms_quota s)")
    (auto simp: lift_expired_def stops_def state_block_def availabilityBlock_def later_future_def Let_def)

lemma lift_future: "now < ms_next_retry_after s \<Longrightarrow> lift_expired now s = s"
  by (simp add: lift_expired_def)

lemma lift_status [simp]: "ms_status (lift_expired now s) = ms_status s" "ms_quota (lift_expired now s) = ms_quota s"
  "ms_last_error (lift_expired now s) = ms_last_error s"
  by (simp_all add: lift_expired_def)

abbreviation cred_active :: "Auth \<Rightarrow> time \<Rightarrow> bool" where
  "cred_active a now \<equiv> credential_quota a now"

lemma update_cases:
  "updateAggregatedAvailability now a =
     (if credential_quota a now then a\<lparr>au_unavailable := True\<rparr> else updateAggregatedAvailability now a)"
  by (simp add: updateAggregatedAvailability_def credential_quota_def)

lemma update_basic [simp]:
  "au_disabled (updateAggregatedAvailability now a) = au_disabled a"
  "au_status (updateAggregatedAvailability now a) = au_status a"
  "au_id (updateAggregatedAvailability now a) = au_id a"
  by (simp_all add: updateAggregatedAvailability_def clearAggregatedAvailability_def Let_def)

lemma update_states:
  "au_model_states (updateAggregatedAvailability now a) =
     (if credential_quota a now then au_model_states a
      else map (\<lambda>(m, so). (m, map_option (lift_expired now) so)) (au_model_states a))"
  by (auto simp: updateAggregatedAvailability_def credential_quota_def clearAggregatedAvailability_def Let_def)

lemma update_credential_quota:
  "now \<le> t \<Longrightarrow> credential_quota (updateAggregatedAvailability now a) t = credential_quota a t"
  by (auto simp: updateAggregatedAvailability_def credential_quota_def clearAggregatedAvailability_def later_def Let_def)

lemma update_mem:
  "(m, so) \<in> set (au_model_states (updateAggregatedAvailability now a)) \<longleftrightarrow>
     (\<exists>so'. (m, so') \<in> set (au_model_states a) \<and> so = (if credential_quota a now then so' else map_option (lift_expired now) so'))"
  by (auto simp: update_states)

lemma update_blocked:
  assumes "now \<le> t" "quota_dated a" "au_model_states a \<noteq> []" "model \<noteq> []"
  shows "fst (isAuthBlockedForModel (Some (updateAggregatedAvailability now a)) model t) =
    fst (isAuthBlockedForModel (Some a) model t)"
proof -
  let ?k = "canonicalModelKey model"
  have ne: "au_model_states (updateAggregatedAvailability now a) \<noteq> []" using assms(3) by (auto simp: update_states)
  have q: "qs_exceeded (ms_quota s) = (qs_next_recover_at (ms_quota s) \<noteq> 0)" if "(m, Some s) \<in> set (au_model_states a)" for m s
    using that assms(2) by (auto simp: quota_dated_def)
  have "(\<exists>s \<in> set (matching ?k (au_model_states (updateAggregatedAvailability now a))). stops t s) \<longleftrightarrow>
      (\<exists>s \<in> set (matching ?k (au_model_states a)). stops t s)" (is "?L \<longleftrightarrow> ?R")
  proof
    assume ?L
    then obtain m s where s: "(m, Some s) \<in> set (au_model_states (updateAggregatedAvailability now a))"
      "canonicalModelKey m = ?k" "stops t s" by (auto simp: set_matching)
    then obtain so' where so': "(m, so') \<in> set (au_model_states a)"
      "Some s = (if credential_quota a now then so' else map_option (lift_expired now) so')" by (auto simp: update_mem)
    then obtain s' where "so' = Some s'" "s = s' \<or> s = lift_expired now s'" by (cases so') (auto split: if_splits)
    moreover from this have "stops t s'" using so'(1) s(3) lift_stops [OF assms(1) q] by auto
    ultimately show ?R using so'(1) s(2) unfolding set_matching Bex_def by blast
  next
    assume ?R
    then obtain m s where s: "(m, Some s) \<in> set (au_model_states a)" "canonicalModelKey m = ?k" "stops t s"
      by (auto simp: set_matching)
    let ?s = "if credential_quota a now then s else lift_expired now s"
    have "(m, Some ?s) \<in> set (au_model_states (updateAggregatedAvailability now a))"
      using s(1) by (auto simp: update_states rev_image_eqI)
    moreover have "stops t ?s" using lift_stops [OF assms(1) q [OF s(1)]] s(3) by simp
    ultimately show ?L using s(2) unfolding set_matching Bex_def by blast
  qed
  then show ?thesis using ne assms(1,3,4) by (simp add: isAuthBlocked_iff update_credential_quota)
qed

section \<open>Facts on model states\<close>

definition keys_canonical :: "Auth \<Rightarrow> bool" where
  "keys_canonical a \<longleftrightarrow> mwf (au_model_states a) \<and> (\<forall>k \<in> set (mkeys (au_model_states a)). canonicalModelKey k = k)"

lemma trim_canonical: "trim_space (canonicalModelKey k) = canonicalModelKey k"
  by (simp add: canonicalModelKey_def Let_def)

lemma canonical_trim: "canonicalModelKey k = k \<Longrightarrow> trim_space k = k"
  using trim_canonical [of k] by simp

lemma normalize_id: "keys_canonical a \<Longrightarrow> normalizeModelStates a = a"
proof -
  assume k: "keys_canonical a"
  have "foldl normalize_step ([], False) l = (l, False)"
    if "mwf l" "\<forall>k \<in> set (mkeys l). canonicalModelKey k = k" for l
    using that
  proof (induction l rule: rev_induct)
    case (snoc x l)
    obtain m so where x: "x = (m, so)" by (cases x)
    have f: "foldl normalize_step ([], False) l = (l, False)" using snoc by auto
    have n: "mget l m = None" using snoc.prems x by (auto simp: mget_None_iff)
    have "mput m so l = l @ [(m, so)]" using n by (induction l) (auto split: if_splits)
    moreover have "canonicalModelKey m = m" using snoc.prems x by simp
    moreover from this have "(if canonicalModelKey m = [] then trim_space m else canonicalModelKey m) = m"
      using canonical_trim [of m] by simp
    ultimately have "normalize_step (l, False) (m, so) = (l @ [(m, so)], False)"
      using n by (simp add: normalize_step_def Let_def)
    then show ?case using f x by simp
  qed simp
  then show ?thesis using k by (simp add: normalizeModelStates_def keys_canonical_def)
qed

lemma ensure_canonical:
  assumes "keys_canonical a" "canonicalModelKey model = key" "key \<noteq> []"
  shows "ensureModelState a model =
    (case mget_or None (au_model_states a) key of Some s \<Rightarrow> a
     | None \<Rightarrow> a\<lparr>au_model_states := mput key (Some active_state) (au_model_states a)\<rparr>)"
  using assms by (simp add: ensureModelState_def normalize_id Let_def)

lemma put_mem: "(key, Some s) \<in> set (au_model_states (put_model_state key s a))"
  by (rule mget_SomeD) (simp add: put_model_state_def)

lemma put_nonempty [simp]: "au_model_states (put_model_state key s a) \<noteq> []"
  using put_mem [of key s a] by auto

lemma put_basic [simp]:
  "au_status (put_model_state key s a) = au_status a" "au_disabled (put_model_state key s a) = au_disabled a"
  "au_quota (put_model_state key s a) = au_quota a"
  by (simp_all add: put_model_state_def)

section \<open>Backoff bounds\<close>

lemma nextQuotaCooldown_range: "quotaBackoffBase \<le> fst (nextQuotaCooldown l False) \<and> fst (nextQuotaCooldown l False) \<le> quotaBackoffMax"
  by (auto simp: nextQuotaCooldown_def Let_def quotaBackoffBase_def quotaBackoffMax_def minute_def second_def)

lemma nextQuotaCooldown_pos: "0 < fst (nextQuotaCooldown l False)"
  using nextQuotaCooldown_range [of l] by (simp add: quotaBackoffBase_def second_def)

lemma wrap64_small: "0 \<le> x \<Longrightarrow> x \<le> max_int64 \<Longrightarrow> wrap64 x = x"
  by (rule wrap64_id) (simp add: int64_def min_int64_def)

text \<open>From level 0 the ladder climbs to level 11 and stays there.\<close>

definition ladder :: "nat \<Rightarrow> int" where
  "ladder n = ((\<lambda>l. snd (nextQuotaCooldown l False)) ^^ n) 0"

lemma nextQuotaCooldown_levels:
  "list_all (\<lambda>l. nextQuotaCooldown (int l) False = (if l = 11 then (30 * minute, 11) else (2 ^ l * second, int l + 1))) [0..<12]"
  by code_simp

lemma nextQuotaCooldown_level:
  "l \<le> 11 \<Longrightarrow> nextQuotaCooldown (int l) False = (if l = 11 then (30 * minute, 11) else (2 ^ l * second, int l + 1))"
  using nextQuotaCooldown_levels by (simp add: list_all_iff)

lemma ladder_min: "ladder n = int (min n 11)"
proof (induction n)
  case (Suc n)
  have "ladder (Suc n) = snd (nextQuotaCooldown (ladder n) False)" by (simp add: ladder_def)
  then show ?case using Suc nextQuotaCooldown_level [of "min n 11"] by (auto simp: min_def split: if_splits)
qed (simp add: ladder_def)

lemma ladder_cooldown: "fst (nextQuotaCooldown (ladder n) False) = min (2 ^ n * second) (30 * minute)"
proof (cases "n \<le> 10")
  case True
  then have "(2::int) ^ n \<le> 2 ^ 10" by (intro power_increasing) auto
  then have "2 ^ n * second \<le> 30 * minute" by (simp add: second_def minute_def)
  then show ?thesis using True nextQuotaCooldown_level [of n] by (simp add: ladder_min min_def)
next
  case False
  then have "(2::int) ^ 11 \<le> 2 ^ n" by (intro power_increasing) auto
  then have "30 * minute \<le> 2 ^ n * second" by (simp add: second_def minute_def)
  moreover have "min n 11 = 11" using False by simp
  ultimately show ?thesis using nextQuotaCooldown_level [of 11] by (simp add: ladder_min min_absorb2)
qed

section \<open>A failure blocks its model\<close>

definition retry_positive :: "Result \<Rightarrow> bool" where
  "retry_positive result \<longleftrightarrow> (\<forall>d. re_retry_after result = Some d \<longrightarrow> 0 < d)"

definition transient_enabled :: "int \<Rightarrow> bool" where
  "transient_enabled seconds \<longleftrightarrow> 0 \<le> seconds \<and> seconds * second \<le> max_int64"

lemma unavailable_stops:
  "0 \<le> t \<Longrightarrow> ms_unavailable s \<Longrightarrow> t < ms_next_retry_after s \<Longrightarrow> stops t s"
  by (auto simp: stops_def state_block_def availabilityBlock_def later_future_def Let_def)

lemma transient_future: "transient_enabled seconds \<Longrightarrow> now < recoverableFailureRetryAfter seconds now False"
  by (auto simp: transient_enabled_def recoverableFailureRetryAfter_def nextTransientErrorRetryAfter_def wrap64_small
      transientErrorCooldown_def minute_def second_def)

lemma after_failure_future: "now < fst (quotaCooldownAfterFailure q now)"
  using nextQuotaCooldown_pos [of "qs_backoff_level q"]
  by (auto simp: quotaCooldownAfterFailure_def Let_def split: prod.splits)

lemma cloudflare_future: "now < fst (nextCloudflareCooldown l False now)"
  using nextQuotaCooldown_pos [of l]
  by (auto simp: nextCloudflareCooldown_def Let_def second_def split: prod.splits)

definition stays_blocked :: "time \<Rightarrow> ModelState \<Rightarrow> bool" where
  "stays_blocked now s \<longleftrightarrow> ms_unavailable s \<and> now < ms_next_retry_after s"

lemma quota_failure_blocked:
  "ms_unavailable s \<Longrightarrow> retry_positive result \<Longrightarrow> stays_blocked now (fst (quota_failure result key now False s a))"
  using after_failure_future [of now "ms_quota s"]
  by (auto simp: quota_failure_def Let_def retry_positive_def stays_blocked_def split: option.splits prod.splits)

lemma switch_blocked:
  assumes "ms_unavailable s" "retry_positive result" "transient_enabled seconds" "0 < now"
  shows "stays_blocked now (fst (model_failure_switch seconds result key now False s a))"
proof -
  have n: "recoverableFailureRetryAfter seconds now False \<noteq> 0" "now < recoverableFailureRetryAfter seconds now False"
    using transient_future [OF assms(3), of now] assms(4) by auto
  have c: "stays_blocked now (fst (cloudflare_failure now False s a))"
    using cloudflare_future [of now "qs_backoff_level (ms_quota s)"] assms(1)
    by (auto simp: cloudflare_failure_def stays_blocked_def split: prod.splits)
  have t: "0 < d \<Longrightarrow> stays_blocked now (fst (model_timed r d now False s a))" for r d
    using assms(1) by (simp add: model_timed_def stays_blocked_def)
  have p: "0 < 30 * minute" "0 < 12 * hour" by (simp_all add: minute_def second_def hour_def)
  have k: "stays_blocked now (fst (invalid_key_failure key now False s a))"
    using assms(1) p by (simp add: invalid_key_failure_def stays_blocked_def Let_def)
  show ?thesis
    using n c t p k quota_failure_blocked [OF assms(1,2)] assms(1)
    by (simp add: model_failure_switch_def Let_def stays_blocked_def)
qed

lemma settle_keeps: "stays_blocked now s \<Longrightarrow> 0 < now \<Longrightarrow> settle_state err now False s = s"
  by (auto simp: settle_state_def stays_blocked_def Let_def)

text \<open>The state of the model after a failure, before the aggregation.\<close>

lemma model_failure_state:
  assumes "retry_positive result" "transient_enabled seconds" "0 < now"
  shows "\<exists>s a1. stays_blocked now s \<and>
    fst (model_failure seconds result modelKey now False a) = updateAggregatedAvailability now (put_model_state (canonicalModelKey modelKey) s a1)"
proof -
  let ?key = "canonicalModelKey modelKey"
  let ?a0 = "ensureModelState a modelKey"
  let ?s0 = "(model_state ?a0 ?key)\<lparr>ms_unavailable := True, ms_status := StatusError, ms_updated_at := now\<rparr>"
  obtain s1 a1 where s1: "(case re_error result of None \<Rightarrow> (?s0, ?a0)
             | Some e \<Rightarrow> (?s0\<lparr>ms_last_error := Some e, ms_status_message := er_message e\<rparr>,
                         ?a0\<lparr>au_last_error := Some e, au_status_message := er_message e\<rparr>)) = (s1, a1)" "ms_unavailable s1"
    by (cases "re_error result") auto
  obtain s2 a2 su sq where s2: "model_failure_switch seconds result ?key now False s1 a1 = (s2, a2, su, sq)"
    by (metis prod_cases4)
  have b: "stays_blocked now s2" using switch_blocked [OF s1(2) assms, of ?key a1] s2 by simp
  have "fst (model_failure seconds result modelKey now False a) =
      updateAggregatedAvailability now ((put_model_state ?key s2 a2)\<lparr>au_status := StatusError, au_updated_at := now\<rparr>)"
    unfolding model_failure_def Let_def s1(1) prod.case s2 by (simp add: settle_keeps [OF b assms(3)])
  also have "(put_model_state ?key s2 a2)\<lparr>au_status := StatusError, au_updated_at := now\<rparr> =
      put_model_state ?key s2 (a2\<lparr>au_status := StatusError, au_updated_at := now\<rparr>)" by (simp add: put_model_state_def)
  finally show ?thesis using b by blast
qed

lemma model_failure_blocked:
  assumes "retry_positive result" "transient_enabled seconds" "0 < now"
    and "canonicalModelKey modelKey = modelKey" "canonicalModelKey model = modelKey" "modelKey \<noteq> []"
  shows "\<exists>D > now. \<forall>t. now \<le> t \<longrightarrow> t < D \<longrightarrow>
    fst (isAuthBlockedForModel (Some (fst (model_failure seconds result modelKey now False a))) model t)"
proof -
  obtain s a1 where s: "stays_blocked now s"
    "fst (model_failure seconds result modelKey now False a) = updateAggregatedAvailability now (put_model_state modelKey s a1)"
    using model_failure_state [OF assms(1-3), of modelKey a] assms(4) by auto
  let ?a = "updateAggregatedAvailability now (put_model_state modelKey s a1)"
  have "(modelKey, Some s) \<in> set (au_model_states ?a)"
    using put_mem [of modelKey s a1] lift_future [of now s] s(1)
    by (auto simp: update_mem stays_blocked_def intro: exI [of _ "Some s"])
  then have m: "s \<in> set (matching (canonicalModelKey model) (au_model_states ?a))" "au_model_states ?a \<noteq> []"
    using assms(4,5) by (auto simp: set_matching)
  have "model \<noteq> []" using assms(5,6) by (auto simp: canonicalModelKey_def)
  then have "fst (isAuthBlockedForModel (Some ?a) model t)" if "now \<le> t" "t < ms_next_retry_after s" for t
    using m unavailable_stops [of t s] s(1) that assms(3) unfolding isAuthBlocked_iff by (auto simp: stays_blocked_def)
  then show ?thesis using s by (auto simp: stays_blocked_def)
qed

section \<open>The credential a result leaves\<close>

text \<open>When storage works, the credential of the result is the marked one.\<close>

lemma persistCooldownStates_auths [simp]: "mg_auths (fst (persistCooldownStates E now m)) = mg_auths m"
  by (simp add: persistCooldownStates_def emit_def Let_def)

lemma emit_auths [simp]: "mg_auths (emit evs m) = mg_auths m"
  by (simp add: emit_def)

lemma MarkResult_auth:
  assumes "mget (mg_auths m) (re_auth_id result) = Some a" "re_auth_id result \<noteq> []"
    and "mark_auth (en_json E) (mg_transient_seconds m) (cooldownDisabledForAuth m a) result headers now a = (a', mk)"
    and "\<not> en_persist_fails E a'"
  shows "mget (mg_auths (fst (MarkResult E headers now result m))) (re_auth_id result) = Some a'"
proof -
  let ?m1 = "emit ([PersistAuth a'] @ (if mg_has_scheduler m then [SchedulerUpsert a'] else []))
      (m\<lparr>mg_auths := mput (re_auth_id result) a' (mg_auths m)\<rparr>)"
  let ?p = "if mg_has_cooldown_store m \<and>
       \<not> cooldownStateRecordsEqual (cooldownStateRecordsForAuthLocked (cooldownDisabledForAuth m a) now a)
           (cooldownStateRecordsForAuthLocked (cooldownDisabledForAuth m a') now a')
     then persistCooldownStates E now ?m1 else (?m1, True)"
  obtain m2 saved where p: "?p = (m2, saved)" by (cases ?p)
  have "mg_auths m2 = mg_auths ?m1" using p by (auto split: if_splits dest: arg_cong [where f = "\<lambda>x. mg_auths (fst x)"])
  moreover have "mg_auths (fst (MarkResult E headers now result m)) = mg_auths m2"
    unfolding MarkResult_def Let_def using assms p by simp
  ultimately show ?thesis by simp
qed

section \<open>From the credential to the result\<close>

definition counted :: "Result \<Rightarrow> time \<Rightarrow> Auth \<Rightarrow> Auth" where
  "counted result now a = (let a1 = recordRecentRequest a now (re_success result) in
     if re_success result then a1\<lparr>au_success := au_success a1 + 1\<rparr> else a1\<lparr>au_failed := au_failed a1 + 1\<rparr>)"

lemma counted_fields [simp]:
  "au_model_states (counted result now a) = au_model_states a" "au_quota (counted result now a) = au_quota a"
  "au_disabled (counted result now a) = au_disabled a" "au_status (counted result now a) = au_status a"
  "au_unavailable (counted result now a) = au_unavailable a" "au_next_retry_after (counted result now a) = au_next_retry_after a"
  by (simp_all add: counted_def recordRecentRequest_def Let_def)

lemma counted_same: "same_availability (counted result now a) a"
  by (simp add: same_availability_def)

lemma mark_auth_counted:
  "mark_auth J seconds disabled result headers now a =
     (let modelKey = canonicalModelKey (re_model result); a2 = counted result now a;
          disableCooling = (disabled \<and> \<not> force_cooldown (re_error result));
          (a3, marks) =
            (if re_success result then
               (if qs_reason (au_quota a2) = ''credential_quota'' \<and> qs_next_recover_at (au_quota a2) > now then (a2, no_marks)
                else if modelKey \<noteq> [] then (model_success modelKey now a2, no_marks\<lparr>mk_resume := True, mk_clear_quota := True\<rparr>)
                else (clearAuthStateOnSuccess now a2, no_marks))
             else if modelKey \<noteq> [] then
               (if shouldSkipCredentialCooldown J (re_error result) then (a2, no_marks)
                else let (a', suspend, setQuota) = model_failure seconds result modelKey now disableCooling a2
                  in (a', no_marks\<lparr>mk_suspend := suspend, mk_set_quota := setQuota\<rparr>))
             else (applyAuthFailureState J seconds (re_error result) (re_retry_after result) now disableCooling a2, no_marks))
      in (observe_quota result headers modelKey now a3, marks))"
  by (simp only: mark_auth_def counted_def Let_def)

text \<open>Cooling is on for the credential, or the failure forces it.\<close>

definition cools :: "bool \<Rightarrow> Result \<Rightarrow> bool" where
  "cools disabled result \<longleftrightarrow> \<not> disabled \<or> force_cooldown (re_error result)"

lemma mark_failure:
  assumes "\<not> re_success result" "canonicalModelKey (re_model result) \<noteq> []"
    and "\<not> shouldSkipCredentialCooldown J (re_error result)" "cools disabled result"
  shows "fst (mark_auth J seconds disabled result headers now a) =
    observe_quota result headers (canonicalModelKey (re_model result)) now
      (fst (model_failure seconds result (canonicalModelKey (re_model result)) now False (counted result now a)))"
proof -
  have d: "(disabled \<and> \<not> force_cooldown (re_error result)) = False" using assms(4) by (auto simp: cools_def)
  show ?thesis unfolding mark_auth_counted Let_def d using assms by (simp split: prod.splits)
qed

lemma mark_skipped:
  assumes "\<not> re_success result" "shouldSkipCredentialCooldown J (re_error result)"
  shows "same_availability (fst (mark_auth J seconds disabled result headers now a)) a"
proof -
  have "fst (mark_auth J seconds disabled result headers now a) =
      observe_quota result headers (canonicalModelKey (re_model result)) now (counted result now a)"
    unfolding mark_auth_counted Let_def using assms by (simp add: applyAuthFailureState_def)
  then show ?thesis
    using observe_quota_same [of result headers "canonicalModelKey (re_model result)" now "counted result now a"]
    by (simp add: same_availability_def)
qed

lemma mark_success:
  assumes "re_success result" "canonicalModelKey (re_model result) \<noteq> []" "\<not> (qs_reason (au_quota a) = ''credential_quota'' \<and> now < qs_next_recover_at (au_quota a))"
  shows "fst (mark_auth J seconds disabled result headers now a) =
    observe_quota result headers (canonicalModelKey (re_model result)) now
      (model_success (canonicalModelKey (re_model result)) now (counted result now a))"
proof -
  have c: "(qs_reason (au_quota (counted result now a)) = ''credential_quota'' \<and> qs_next_recover_at (au_quota (counted result now a)) > now) = False"
    using assms(3) by simp
  show ?thesis unfolding mark_auth_counted Let_def c using assms(1,2) by simp
qed

section \<open>Success\<close>

lemma update_mem_Some:
  assumes "(m, Some x) \<in> set (au_model_states (updateAggregatedAvailability now a))"
  obtains y where "(m, Some y) \<in> set (au_model_states a)" "x = (if credential_quota a now then y else lift_expired now y)"
proof -
  obtain so' where so': "(m, so') \<in> set (au_model_states a)"
    "Some x = (if credential_quota a now then so' else map_option (lift_expired now) so')" using assms by (auto simp: update_mem)
  then obtain y where "so' = Some y" by (cases so') (auto split: if_splits)
  then show thesis using so' by (intro that [of y]) auto
qed


lemma put_mem_iff:
  "mwf (au_model_states a) \<Longrightarrow> (m, so) \<in> set (au_model_states (put_model_state key s a)) \<longleftrightarrow>
     (if m = key then so = Some s else (m, so) \<in> set (au_model_states a))"
  by (auto simp: put_model_state_def set_mput)

lemma put_canonical: "keys_canonical a \<Longrightarrow> canonicalModelKey key = key \<Longrightarrow> keys_canonical (put_model_state key s a)"
  by (auto simp: keys_canonical_def put_model_state_def dom_update)

lemma ensure_keys:
  assumes "keys_canonical a" "canonicalModelKey key = key" "key \<noteq> []"
  shows "keys_canonical (ensureModelState a key)"
    and "au_quota (ensureModelState a key) = au_quota a" "au_disabled (ensureModelState a key) = au_disabled a"
      "au_status (ensureModelState a key) = au_status a"
    and "m \<noteq> key \<Longrightarrow> (m, so) \<in> set (au_model_states (ensureModelState a key)) \<longleftrightarrow> (m, so) \<in> set (au_model_states a)"
  using put_canonical [OF assms(1,2), of active_state] put_mem_iff [of a m so key active_state] assms
  by (auto simp: ensure_canonical [OF assms(1,2,3)] put_model_state_def keys_canonical_def split: option.splits)

lemma reset_free: "0 \<le> t \<Longrightarrow> \<not> stops t (lift_expired now (resetModelState now s))" "\<not> stops t (resetModelState now s)"
  by (simp_all add: stops_def lift_expired_def resetModelState_def state_block_def availabilityBlock_def status_defs)

lemma model_success_free:
  assumes k: "keys_canonical a" "canonicalModelKey key = key" "key \<noteq> []" "canonicalModelKey model = key"
    and d: "\<not> au_disabled a" "au_status a \<noteq> StatusDisabled" "\<not> credential_quota a now" and t: "now \<le> t"
  shows "\<not> fst (isAuthBlockedForModel (Some (model_success key now a)) model t)"
proof -
  let ?a0 = "ensureModelState a key"
  let ?p = "put_model_state key (resetModelState now (model_state ?a0 key)) ?a0"
  let ?u = "updateAggregatedAvailability now ?p"
  note e = ensure_keys [OF k(1-3)]
  have q: "\<not> credential_quota ?u t"
    unfolding update_credential_quota [OF t] using d(3) t e(2) by (auto simp: credential_quota_def)
  have cp: "\<not> credential_quota ?p now" using d(3) e(2) by (simp add: credential_quota_def)
  have s: "au_model_states (model_success key now a) = au_model_states ?u"
    "au_disabled (model_success key now a) = au_disabled a"
    "credential_quota (model_success key now a) t = credential_quota ?u t"
    "au_status (model_success key now a) \<noteq> StatusDisabled"
    using e(3,4) d(2) k(2) by (simp_all add: model_success_def Let_def credential_quota_def status_defs)
  have "\<not> stops t x" if mx: "x \<in> set (matching key (au_model_states ?u))" for x
  proof -
    obtain m where m: "(m, Some x) \<in> set (au_model_states ?u)" "canonicalModelKey m = key" using mx by (auto simp: set_matching)
    from m(1) obtain y where y: "(m, Some y) \<in> set (au_model_states ?p)" "x = lift_expired now y"
      by (rule update_mem_Some) (use cp in auto)
    have "keys_canonical ?p" by (rule put_canonical [OF e(1) k(2)])
    then have "m = key" using y(1) m(2) by (force simp: keys_canonical_def)
    then have "y = resetModelState now (model_state ?a0 key)" using y(1) e(1) by (simp add: put_mem_iff keys_canonical_def)
    then show ?thesis using y(2) by (simp add: stops_def lift_expired_def resetModelState_def state_block_def availabilityBlock_def status_defs)
  qed
  moreover have "model \<noteq> []" using k(3,4) by (auto simp: canonicalModelKey_def)
  moreover have "au_model_states ?u \<noteq> []" using put_nonempty by (simp add: update_states)
  ultimately show ?thesis using s q d(1) k(4) by (auto simp: isAuthBlocked_iff)
qed

section \<open>Other models\<close>

text \<open>Failures that concern the whole credential.\<close>

definition credential_wide :: "Result \<Rightarrow> bool" where
  "credential_wide result \<longleftrightarrow> isInvalidAPIKeyResultError (re_error result) \<or>
     (statusCodeFromResult (re_error result) = 429 \<and> re_credential_scope result)"

lemma switch_auth:
  assumes "\<not> credential_wide result" "model_failure_switch seconds result key now dis s a = (s', a', su, sq)"
  shows "au_model_states a' = au_model_states a" "au_quota a' = au_quota a" "au_disabled a' = au_disabled a"
  using assms
  by (auto simp: model_failure_switch_def credential_wide_def model_timed_def cloudflare_failure_def quota_failure_def Let_def
      split: if_splits prod.splits)

lemma model_failure_others:
  assumes k: "keys_canonical a" "canonicalModelKey key = key" "key \<noteq> []" "canonicalModelKey model \<noteq> key" "canonicalModelKey model \<noteq> []"
    and w: "\<not> credential_wide result" and q: "quota_dated a" and t: "now \<le> t"
    and free: "\<not> fst (isAuthBlockedForModel (Some a) model t)"
  shows "\<not> fst (isAuthBlockedForModel (Some (fst (model_failure seconds result key now dis a))) model t)"
proof -
  let ?a0 = "ensureModelState a key"
  let ?s0 = "(model_state ?a0 key)\<lparr>ms_unavailable := True, ms_status := StatusError, ms_updated_at := now\<rparr>"
  note e = ensure_keys [OF k(1-3)]
  obtain s1 a1 where s1: "(case re_error result of None \<Rightarrow> (?s0, ?a0)
             | Some e \<Rightarrow> (?s0\<lparr>ms_last_error := Some e, ms_status_message := er_message e\<rparr>,
                         ?a0\<lparr>au_last_error := Some e, au_status_message := er_message e\<rparr>)) = (s1, a1)"
    "au_model_states a1 = au_model_states ?a0" "au_quota a1 = au_quota ?a0" "au_disabled a1 = au_disabled ?a0"
    by (cases "re_error result") auto
  obtain s2 a2 su sq where s2: "model_failure_switch seconds result key now dis s1 a1 = (s2, a2, su, sq)"
    by (metis prod_cases4)
  note sa = switch_auth [OF w s2]
  let ?p = "(put_model_state key (settle_state (re_error result) now dis s2) a2)\<lparr>au_status := StatusError, au_updated_at := now\<rparr>"
  have f: "fst (model_failure seconds result key now dis a) = updateAggregatedAvailability now ?p"
    unfolding model_failure_def Let_def k(2) s1(1) prod.case s2 by simp
  have ne: "model \<noteq> []" using k(5) by (auto simp: canonicalModelKey_def)
  have cq: "credential_quota ?p t = credential_quota a t" using sa(2) s1(3) e(2) by (simp add: credential_quota_def)
  have "\<not> stops t x" if x: "x \<in> set (matching (canonicalModelKey model) (au_model_states (updateAggregatedAvailability now ?p)))" for x
  proof -
    obtain m where m: "(m, Some x) \<in> set (au_model_states (updateAggregatedAvailability now ?p))" "canonicalModelKey m = canonicalModelKey model"
      using x by (auto simp: set_matching)
    from m(1) obtain y where y: "(m, Some y) \<in> set (au_model_states ?p)" "x = y \<or> x = lift_expired now y"
      by (rule update_mem_Some) auto
    have "m \<noteq> key" using m(2) k(2,4) by auto
    moreover have "mwf (au_model_states a2)" using e(1) sa(1) s1(2) by (simp add: keys_canonical_def)
    ultimately have "(m, Some y) \<in> set (au_model_states ?a0)"
      using y(1) put_mem_iff [of a2 m "Some y" key] sa(1) s1(2) by simp
    then have ya: "(m, Some y) \<in> set (au_model_states a)" using e(5) \<open>m \<noteq> key\<close> by blast
    then have "au_model_states a \<noteq> []" by auto
    then have "\<not> stops t y" using free ya m(2) ne unfolding isAuthBlocked_iff set_matching Bex_def by auto
    moreover have "qs_exceeded (ms_quota y) = (qs_next_recover_at (ms_quota y) \<noteq> 0)" using q ya by (auto simp: quota_dated_def)
    ultimately show ?thesis using y(2) lift_stops [OF t] by auto
  qed
  moreover have "au_model_states (updateAggregatedAvailability now ?p) \<noteq> []"
    using put_nonempty by (simp add: update_states)
  moreover have "\<not> credential_quota a t" "\<not> au_disabled a" using free by (auto simp: isAuthBlocked_iff)
  ultimately show ?thesis unfolding f using ne cq t sa(3) s1(4) e(3)
    by (auto simp: isAuthBlocked_iff update_credential_quota status_defs)
qed

section \<open>The whole credential\<close>

lemma quota_scope_quota:
  assumes "retry_positive result" "re_credential_scope result"
  shows "au_quota (fst (snd (quota_failure result key now False s a))) = (au_quota a)\<lparr>qs_exceeded := True, qs_reason := ''credential_quota'',
      qs_next_recover_at := later (ms_next_retry_after (fst (quota_failure result key now False s a))) (qs_next_recover_at (au_quota a))\<rparr>"
  using assms(2) by (simp add: quota_failure_def Let_def split: prod.splits option.splits)

lemma scope_failure_blocks:
  assumes "statusCodeFromResult (re_error result) = 429" "re_credential_scope result" "\<not> isCloudflareChallengeResultError (re_error result)"
    and "retry_positive result" "0 < now"
  shows "\<exists>D > now. \<forall>t model. now \<le> t \<longrightarrow> t < D \<longrightarrow>
    fst (isAuthBlockedForModel (Some (fst (model_failure seconds result modelKey now False a))) model t)"
proof -
  let ?key = "canonicalModelKey modelKey"
  let ?a0 = "ensureModelState a modelKey"
  let ?s0 = "(model_state ?a0 ?key)\<lparr>ms_unavailable := True, ms_status := StatusError, ms_updated_at := now\<rparr>"
  obtain s1 a1 where s1: "(case re_error result of None \<Rightarrow> (?s0, ?a0)
             | Some e \<Rightarrow> (?s0\<lparr>ms_last_error := Some e, ms_status_message := er_message e\<rparr>,
                         ?a0\<lparr>au_last_error := Some e, au_status_message := er_message e\<rparr>)) = (s1, a1)" "ms_unavailable s1"
    by (cases "re_error result") auto
  obtain s2 a2 su sq where s2: "quota_failure result ?key now False s1 a1 = (s2, a2, su, sq)" by (metis prod_cases4)
  have sw: "model_failure_switch seconds result ?key now False s1 a1 = (s2, a2, su, sq)"
    using assms(1,3) s2 by (cases "re_error result")
      (simp_all add: model_failure_switch_def Let_def isModelSupportResultError_def isInvalidGrantResultError_def isInvalidAPIKeyResultError_def)
  have b: "now < ms_next_retry_after s2"
    using quota_failure_blocked [OF s1(2) assms(4), of now ?key a1] s2 by (simp add: stays_blocked_def)
  let ?D = "later (ms_next_retry_after s2) (qs_next_recover_at (au_quota a1))"
  have q: "qs_exceeded (au_quota a2)" "qs_reason (au_quota a2) = ''credential_quota''" "qs_next_recover_at (au_quota a2) = ?D"
    using quota_scope_quota [OF assms(4,2), of ?key now s1 a1] s2 by simp_all
  have D: "now < ?D" using b by (simp add: later_def)
  let ?p = "(put_model_state ?key (settle_state (re_error result) now False s2) a2)\<lparr>au_status := StatusError, au_updated_at := now\<rparr>"
  have f: "fst (model_failure seconds result modelKey now False a) = updateAggregatedAvailability now ?p"
    unfolding model_failure_def Let_def s1(1) prod.case sw by simp
  have "credential_quota (updateAggregatedAvailability now ?p) t" if "now \<le> t" "t < ?D" for t
    using that q unfolding update_credential_quota [OF that(1)] by (simp add: credential_quota_def)
  then show ?thesis unfolding f using D by (auto simp: isAuthBlocked_iff)
qed

end
