(* ===== verification/Session_Affinity.thy ===== *)
theory Session_Affinity
  imports Selectors Session_Cache Mark_Result
begin

text \<open>
  Session affinity (\<open>SessionAffinitySelector\<close> of \<open>sdk/cliproxy/auth/selector.go\<close>): a strategy
  around another one that keeps a client session on one credential. The identifiers of the session,
  read from headers and body, are arguments; the strategy it wraps is an argument too. Every cache
  call is one step under the lock of the cache, and between two calls other requests may run: a
  \<open>world\<close> says what the \<open>n\<close>-th call of an operation finds, the clock and what others
  did to the bindings. The quarantine is read and written as if in one step.
\<close>

section \<open>Steps\<close>

record world =
  wd_clock :: "nat \<Rightarrow> time"
  wd_others :: "nat \<Rightarrow> SessionCache \<Rightarrow> SessionCache"

text \<open>Nobody else is there, and no time passes.\<close>

definition alone :: "time \<Rightarrow> world" where
  "alone now = \<lparr>wd_clock = (\<lambda>_. now), wd_others = (\<lambda>_ c. c)\<rparr>"

text \<open>The calls made so far and the bindings.\<close>

type_synonym steps = "nat \<times> SessionCache"

definition call :: "world \<Rightarrow> (time \<Rightarrow> SessionCache \<Rightarrow> SessionCache \<times> 'r) \<Rightarrow> steps \<Rightarrow> steps \<times> 'r" where
  "call W f st = (let (n, c) = st; (c', r) = f (wd_clock W n) (wd_others W n c) in ((n + 1, c'), r))"

definition update_call :: "world \<Rightarrow> (time \<Rightarrow> SessionCache \<Rightarrow> SessionCache) \<Rightarrow> steps \<Rightarrow> steps" where
  "update_call W f st = fst (call W (\<lambda>now c. (f now c, ())) st)"

section \<open>The selector\<close>

record SessionAffinitySelector =
  sa_cache :: SessionCache
  sa_quarantine :: SessionCache

definition NewSessionAffinitySelectorWithConfig :: "duration \<Rightarrow> SessionAffinitySelector" where
  "NewSessionAffinitySelectorWithConfig ttl0 =
     (let ttl = (if ttl0 \<le> 0 then 60 * minute else ttl0)
      in \<lparr>sa_cache = NewSessionCache ttl, sa_quarantine = NewSessionCache ttl\<rparr>)"

definition affinity_key :: "string \<Rightarrow> string \<Rightarrow> string \<Rightarrow> string" where
  "affinity_key provider sessionID modelKey = provider @ ''::'' @ sessionID @ ''::'' @ modelKey"

definition fallback_key :: "string \<Rightarrow> string \<Rightarrow> string \<Rightarrow> string \<Rightarrow> string" where
  "fallback_key provider primaryID fallbackID modelKey =
     (if fallbackID \<noteq> [] \<and> fallbackID \<noteq> primaryID then affinity_key provider fallbackID modelKey else [])"

section \<open>Quarantine\<close>

definition quarantine_key :: "string \<Rightarrow> string \<Rightarrow> string" where
  "quarantine_key key authID = key @ ''::failed::'' @ authID"

text \<open>The inner loop: whether a key of the session is quarantined for the credential.\<close>

fun quarantined :: "time \<Rightarrow> string list \<Rightarrow> string \<Rightarrow> SessionCache \<Rightarrow> SessionCache \<times> bool" where
  "quarantined now [] authID q = (q, False)"
| "quarantined now (key # keys) authID q =
     (if key = [] then quarantined now keys authID q
      else case Get now now (quarantine_key key authID) q of
        (q', Some _) \<Rightarrow> (q', True)
      | (q', None) \<Rightarrow> quarantined now keys authID q')"

fun excludeSessionQuarantine :: "time \<Rightarrow> string \<Rightarrow> string \<Rightarrow> Auth list \<Rightarrow> SessionCache \<Rightarrow> SessionCache \<times> Auth list" where
  "excludeSessionQuarantine now cacheKey fallbackKey [] q = (q, [])"
| "excludeSessionQuarantine now cacheKey fallbackKey (a # as) q =
     (let (q1, blocked) = quarantined now [cacheKey, fallbackKey] (au_id a) q;
          (q2, filtered) = excludeSessionQuarantine now cacheKey fallbackKey as q1
      in (q2, if blocked then filtered else a # filtered))"

definition quarantineSessionAuth :: "time \<Rightarrow> string list \<Rightarrow> string \<Rightarrow> duration option \<Rightarrow> SessionCache \<Rightarrow> SessionCache" where
  "quarantineSessionAuth now cacheKeys authID retryAfter q =
     (if authID = [] then q
      else let delay = (case retryAfter of Some d \<Rightarrow> if d > 0 then d else 5 * second | None \<Rightarrow> 5 * second) in
        foldl (\<lambda>q key. if key = [] then q
                 else setAliasesUntil now authID (now + delay) [quarantine_key key authID] q) q cacheKeys)"

section \<open>Bindings of a session\<close>

definition find_auth :: "Auth list \<Rightarrow> string \<Rightarrow> Auth option" where
  "find_auth available authID = find (\<lambda>a. au_id a = authID) available"

definition bind_session :: "string \<Rightarrow> string \<Rightarrow> string \<Rightarrow> time \<Rightarrow> SessionCache \<Rightarrow> SessionCache" where
  "bind_session cacheKey fallbackKey authID now c =
     (if fallbackKey \<noteq> [] then SetAliases now authID [cacheKey, fallbackKey] c
      else SetBinding now cacheKey authID c)"

text \<open>The look-up of \<open>Pick\<close>, made twice: a bound credential that is available is bound anew.\<close>

definition reuse_binding :: "world \<Rightarrow> string \<Rightarrow> string \<Rightarrow> Auth list \<Rightarrow> string \<Rightarrow> steps \<Rightarrow> steps \<times> Auth option" where
  "reuse_binding W cacheKey fallbackKey available cachedAuthID st =
     (case find_auth available cachedAuthID of
        None \<Rightarrow> (st, None)
      | Some a \<Rightarrow> (update_call W (\<lambda>now. bind_session cacheKey fallbackKey (au_id a) now) st, Some a))"

definition lookup_session :: "world \<Rightarrow> string \<Rightarrow> string \<Rightarrow> Auth list \<Rightarrow> steps \<Rightarrow> steps \<times> Auth option" where
  "lookup_session W cacheKey fallbackKey available st =
     (case call W (\<lambda>now. GetAndRefresh now cacheKey) st of
        (st1, Some cachedAuthID) \<Rightarrow> reuse_binding W cacheKey fallbackKey available cachedAuthID st1
      | (st1, None) \<Rightarrow>
          if fallbackKey = [] then (st1, None)
          else (case call W (\<lambda>now. Get now now fallbackKey) st1 of
             (st2, Some cachedAuthID) \<Rightarrow> reuse_binding W cacheKey fallbackKey available cachedAuthID st2
           | (st2, None) \<Rightarrow> (st2, None)))"

type_synonym observation = "(string \<times> nat \<times> string list) option"

definition observe :: "world \<Rightarrow> string \<Rightarrow> steps \<Rightarrow> steps \<times> observation" where
  "observe W key = call W (\<lambda>now c. (c, GetWithGeneration now key c))"

section \<open>Moving a session\<close>

fun rebind_attempts ::
  "world \<Rightarrow> nat \<Rightarrow> string \<Rightarrow> string \<Rightarrow> nat \<Rightarrow> string list \<Rightarrow> string \<Rightarrow> string list \<Rightarrow> steps \<Rightarrow> steps \<times> bool" where
  "rebind_attempts W 0 sessionKey expectedAuthID expectedGen expectedAliases newAuthID additional st = (st, False)"
| "rebind_attempts W (Suc n) sessionKey expectedAuthID expectedGen expectedAliases newAuthID additional st =
     (case call W (\<lambda>now. CompareAndReplaceAliases now expectedAuthID expectedGen expectedAliases newAuthID additional) st of
        (st1, True) \<Rightarrow> (st1, True)
      | (st1, False) \<Rightarrow>
          (case observe W sessionKey st1 of
             (st2, None) \<Rightarrow> (st2, False)
           | (st2, Some (au, gen, aliases)) \<Rightarrow> rebind_attempts W n sessionKey au gen aliases newAuthID additional st2))"

definition rebindAliasGroupCAS ::
  "world \<Rightarrow> string \<Rightarrow> string \<Rightarrow> nat \<Rightarrow> string list \<Rightarrow> string \<Rightarrow> string list \<Rightarrow> steps \<Rightarrow> steps \<times> bool" where
  "rebindAliasGroupCAS W = rebind_attempts W 3"

definition group_of :: "observation \<Rightarrow> string list" where
  "group_of ob = (case ob of None \<Rightarrow> [] | Some (_, _, aliases) \<Rightarrow> aliases)"

text \<open>One attempt of \<open>mergeSplitAliasGroupsCAS\<close> after the two observations. \<open>retained\<close>
  and \<open>deletedAuth\<close> are the variables that outlive it.\<close>

fun merge_attempts ::
  "world \<Rightarrow> nat \<Rightarrow> string \<Rightarrow> string \<Rightarrow> string \<Rightarrow> string list \<Rightarrow> string \<Rightarrow> steps \<Rightarrow> steps \<times> bool" where
  "merge_attempts W 0 cacheKey fallbackKey authID retained deletedAuth st =
     (if retained \<noteq> [] \<and> deletedAuth \<noteq> []
      then (fst (call W (\<lambda>now. RestoreAliasesIfAbsent now deletedAuth retained) st), False) else (st, False))"
| "merge_attempts W (Suc n) cacheKey fallbackKey authID retained deletedAuth st =
     (let (st1, obP) = observe W cacheKey st;
          (st2, obF) = observe W fallbackKey st1;
          aliasesF = (if obF = None then retained else group_of obF);
          merged = mergeSessionAliases (mergeSessionAliases (group_of obP) aliasesF) [cacheKey, fallbackKey];
          (st3, deleted) =
            (case obF of
               Some (authF, genF, aliasesF) \<Rightarrow>
                 if authF \<noteq> authID
                 then (case call W (\<lambda>_. CompareAndDeleteGroup fallbackKey authF genF aliasesF) st2 of
                         (st3, None) \<Rightarrow> (st3, None)
                       | (st3, Some removed) \<Rightarrow> (st3, Some (mergeSessionAliases retained removed, authF)))
                 else (st2, Some (retained, deletedAuth))
             | None \<Rightarrow> (st2, Some (retained, deletedAuth)))
      in case deleted of
           None \<Rightarrow> merge_attempts W n cacheKey fallbackKey authID retained deletedAuth st3
         | Some (retained', deletedAuth') \<Rightarrow>
             (case obP of
                Some (authP, genP, aliasesP) \<Rightarrow>
                  (case call W (\<lambda>now. CompareAndReplaceAliases now authP genP aliasesP authID merged) st3 of
                     (st4, True) \<Rightarrow> (st4, True)
                   | (st4, False) \<Rightarrow> merge_attempts W n cacheKey fallbackKey authID retained' deletedAuth' st4)
              | None \<Rightarrow> (update_call W (\<lambda>now. SetAliases now authID merged) st3, True)))"

definition mergeSplitAliasGroupsCAS :: "world \<Rightarrow> string \<Rightarrow> string \<Rightarrow> string \<Rightarrow> steps \<Rightarrow> steps \<times> bool" where
  "mergeSplitAliasGroupsCAS W cacheKey fallbackKey authID = merge_attempts W 3 cacheKey fallbackKey authID [] []"

text \<open>What \<open>Pick\<close> does with the credential the fallback chose: the stale groups it observed are
  merged or moved, and without one the session is bound.\<close>

definition move_session :: "world \<Rightarrow> string \<Rightarrow> string \<Rightarrow> observation \<Rightarrow> observation \<Rightarrow> string \<Rightarrow> steps \<Rightarrow> steps" where
  "move_session W cacheKey fallbackKey stale split authID st =
     (let additional = [cacheKey] @ (if fallbackKey \<noteq> [] then [fallbackKey] else []) in
      case (stale, split) of
        (Some (staleAuth, gen, aliases), _) \<Rightarrow>
          if (case split of None \<Rightarrow> False | Some (splitAuth, _, _) \<Rightarrow> staleAuth \<noteq> splitAuth)
          then fst (mergeSplitAliasGroupsCAS W cacheKey fallbackKey authID st)
          else fst (rebindAliasGroupCAS W cacheKey staleAuth gen aliases authID additional st)
      | (None, Some (splitAuth, gen, aliases)) \<Rightarrow>
          fst (rebindAliasGroupCAS W fallbackKey splitAuth gen aliases authID additional st)
      | (None, None) \<Rightarrow> update_call W (\<lambda>now. bind_session cacheKey fallbackKey authID now) st)"

section \<open>Picking\<close>

text \<open>A strategy as the selector uses it, and whether it is the weighted one.\<close>

type_synonym 's strategy = "'s \<Rightarrow> pick_request \<Rightarrow> Auth option list \<Rightarrow> 's \<times> (pick_error + Auth)"

text \<open>\<open>Pick\<close> after the candidates are known, for a request with a session.\<close>

definition session_pick ::
  "world \<Rightarrow> 's strategy \<Rightarrow> pick_request \<Rightarrow> string \<Rightarrow> string \<Rightarrow> Auth list \<Rightarrow> steps \<Rightarrow> 's \<Rightarrow> steps \<times> 's \<times> (pick_error + Auth)" where
  "session_pick W pick q cacheKey fallbackKey available st fs =
     (case lookup_session W cacheKey fallbackKey available st of
        (st1, Some a) \<Rightarrow> (st1, fs, Inr a)
      | (st1, None) \<Rightarrow>
     (case lookup_session W cacheKey fallbackKey available st1 of
        (st2, Some a) \<Rightarrow> (st2, fs, Inr a)
      | (st2, None) \<Rightarrow>
          let (st3, stale) = observe W cacheKey st2;
              (st4, split) = (if fallbackKey \<noteq> [] then observe W fallbackKey st3 else (st3, None))
          in case pick fs q (map Some (highestPriorityAuths available)) of
               (fs', Inl e) \<Rightarrow> (st4, fs', Inl e)
             | (fs', Inr a) \<Rightarrow> (move_session W cacheKey fallbackKey stale split (au_id a) st4, fs', Inr a)))"

definition AffinityPick ::
  "world \<Rightarrow> bool \<Rightarrow> 's strategy \<Rightarrow> pick_request \<Rightarrow> string \<Rightarrow> string \<Rightarrow> Auth option list \<Rightarrow>
   SessionAffinitySelector \<Rightarrow> 's \<Rightarrow> SessionAffinitySelector \<times> 's \<times> (pick_error + Auth)" where
  "AffinityPick W weighted pick q primaryID fallbackID auths s fs =
     (let candidates = (if weighted then positiveWeightAuths auths else auths) in
      if primaryID = [] then
        (case getAvailableAuths candidates (rq_provider q) (rq_model q) (rq_now q) (rq_excluded q) of
           Inl e \<Rightarrow> (s, fs, Inl e)
         | Inr fallbackAuths \<Rightarrow> (let (fs', r) = pick fs q (map Some fallbackAuths) in (s, fs', r)))
      else case getAvailableAuthsAcrossPriorities candidates (rq_provider q) (rq_model q) (rq_now q) (rq_excluded q) of
        Inl e \<Rightarrow> (s, fs, Inl e)
      | Inr available0 \<Rightarrow>
          let modelKey = canonicalModelKey (rq_model q);
              cacheKey = affinity_key (rq_provider q) primaryID modelKey;
              fallbackKey = fallback_key (rq_provider q) primaryID fallbackID modelKey;
              (quarantine, available) = excludeSessionQuarantine (rq_now q) cacheKey fallbackKey available0 (sa_quarantine s);
              ((n, cache), fs', r) = session_pick W pick q cacheKey fallbackKey available (0, sa_cache s) fs
          in (s\<lparr>sa_cache := cache, sa_quarantine := quarantine\<rparr>, fs', r))"

section \<open>Results\<close>

text \<open>The group the failed credential still has under a key is invalidated there; its aliases.\<close>

definition release_key :: "world \<Rightarrow> string \<Rightarrow> string \<Rightarrow> steps \<Rightarrow> steps \<times> string list option" where
  "release_key W key authID st =
     (case observe W key st of
        (st1, Some (au, _, aliases)) \<Rightarrow>
          if au = authID then (update_call W (\<lambda>_. Invalidate key) st1, Some aliases) else (st1, None)
      | (st1, None) \<Rightarrow> (st1, None))"

definition release_session :: "world \<Rightarrow> string \<Rightarrow> string \<Rightarrow> string \<Rightarrow> steps \<Rightarrow> steps \<times> string list" where
  "release_session W cacheKey fallbackKey authID st =
     (case release_key W cacheKey authID st of
        (st1, Some aliases) \<Rightarrow> (st1, aliases)
      | (st1, None) \<Rightarrow>
          if fallbackKey = [] then (st1, [])
          else (case release_key W fallbackKey authID st1 of
             (st2, Some aliases) \<Rightarrow> (st2, aliases)
           | (st2, None) \<Rightarrow> (st2, [])))"

text \<open>\<open>mdProvider\<close> and \<open>mdModel\<close> are the metadata entries \<open>Pick\<close> left, empty when absent.\<close>

definition OnResult ::
  "world \<Rightarrow> json_lib \<Rightarrow> time \<Rightarrow> Result \<Rightarrow> string \<Rightarrow> string \<Rightarrow> string \<Rightarrow> string \<Rightarrow> SessionAffinitySelector \<Rightarrow> SessionAffinitySelector" where
  "OnResult W J now res mdProvider mdModel primaryID fallbackID s =
     (if re_auth_id res = [] \<or> (primaryID = [] \<and> fallbackID = []) then s
      else let ns = (if mdProvider \<noteq> [] then mdProvider else re_provider res);
               nsModel = canonicalModelKey (if mdModel \<noteq> [] then mdModel else re_model res);
               cacheKey = affinity_key ns primaryID nsModel;
               fallbackKey = fallback_key ns primaryID fallbackID nsModel;
               st = (0, sa_cache s)
        in if re_success res then
             (if fallbackKey \<noteq> [] then
                s\<lparr>sa_cache := snd (update_call W (\<lambda>now. SetAliases now (re_auth_id res) [cacheKey, fallbackKey]) st)\<rparr>
              else case call W (\<lambda>now. Get now now cacheKey) st of
                (st1, current) \<Rightarrow>
                  if current = None \<or> current = Some (re_auth_id res)
                  then s\<lparr>sa_cache := snd (update_call W (\<lambda>now. SetBinding now cacheKey (re_auth_id res)) st1)\<rparr>
                  else s\<lparr>sa_cache := snd st1\<rparr>)
           else if re_error res \<noteq> None \<and> shouldSkipCredentialCooldown J (re_error res) then s
           else let (st1, aliases) = release_session W cacheKey fallbackKey (re_auth_id res) st;
                    keys = (if aliases = [] then [cacheKey, fallbackKey] else aliases)
             in s\<lparr>sa_cache := snd st1, sa_quarantine := quarantineSessionAuth now keys (re_auth_id res) (re_retry_after res) (sa_quarantine s)\<rparr>)"

definition AffinityInvalidateAuth :: "string \<Rightarrow> SessionAffinitySelector \<Rightarrow> SessionAffinitySelector" where
  "AffinityInvalidateAuth authID s =
     s\<lparr>sa_cache := CacheInvalidateAuth authID (sa_cache s), sa_quarantine := CacheInvalidateAuth authID (sa_quarantine s)\<rparr>"

section \<open>Candidates of a session\<close>

lemma affinity_key_ne [simp]: "affinity_key p s m \<noteq> []"
  by (simp add: affinity_key_def)

lemma find_auth_SomeD: "find_auth as i = Some a \<Longrightarrow> a \<in> set as \<and> au_id a = i"
  by (auto simp: find_auth_def find_Some_iff)

lemma exclude_subset: "set (snd (excludeSessionQuarantine now k f as q)) \<subseteq> set as"
proof (induction as arbitrary: q)
  case (Cons a as)
  obtain q1 b where q1: "quarantined now [k, f] (au_id a) q = (q1, b)" by (cases "quarantined now [k, f] (au_id a) q")
  then show ?case using Cons [of q1] by (auto simp del: quarantined.simps split: prod.splits if_splits)
qed simp

text \<open>Whatever other requests do to the bindings, a look-up answers with a candidate.\<close>

lemma reuse_mem: "reuse_binding W k f as i st = (st', Some a) \<Longrightarrow> a \<in> set as \<and> au_id a = i"
  by (auto simp: reuse_binding_def split: option.splits dest: find_auth_SomeD)

lemma lookup_mem: "lookup_session W k f as st = (st', Some a) \<Longrightarrow> a \<in> set as"
  by (auto simp: lookup_session_def split: prod.splits option.splits if_splits dest: reuse_mem)

section \<open>Running alone\<close>

lemma call_alone [simp]: "call (alone now) f (n, c) = (let (c', r) = f now c in ((n + 1, c'), r))"
  by (simp add: call_def alone_def)

lemma update_call_alone [simp]: "update_call (alone now) f (n, c) = (n + 1, f now c)"
  by (simp add: update_call_def)

lemma observe_alone [simp]: "observe (alone now) k (n, c) = ((n + 1, c), GetWithGeneration now k c)"
  by (simp add: observe_def)

text \<open>The session is bound to the credential for a whole period, and its second key, if bound, to the
  same one.\<close>

definition session_at :: "time \<Rightarrow> SessionCache \<Rightarrow> string \<Rightarrow> string \<Rightarrow> string \<Rightarrow> bool" where
  "session_at now c k f i \<longleftrightarrow> coherent now c \<and> (\<exists>al. bound now c k = Some (i, al, now + sc_ttl c)) \<and>
     (\<forall>au al ex. bound now c f = Some (au, al, ex) \<longrightarrow> au = i)"

lemma absorbed_hd: "k \<noteq> [] \<Longrightarrow> k \<in> set (absorbed_aliases B (k # ks))"
proof -
  assume k: "k \<noteq> []"
  have h: "mergeSessionAliases [] (k # ks) \<noteq> [] \<and> hd (mergeSessionAliases [] (k # ks)) = k"
    using k foldl_add_alias_hd [of "[k]" ks] by (simp add: mergeSessionAliases_def add_alias_def)
  have keep: "as \<noteq> [] \<Longrightarrow> distinct as \<Longrightarrow> [] \<notin> set as \<Longrightarrow> mergeSessionAliases as al \<noteq> [] \<and> hd (mergeSessionAliases as al) = hd as" for as al
  proof -
    assume as: "as \<noteq> []" "distinct as" "[] \<notin> set as"
    have "foldl add_alias [] as = as" using as(2,3)
    proof (induction as rule: rev_induct)
      case (snoc x as)
      then show ?case by (auto simp: add_alias_def)
    qed simp
    then show ?thesis using foldl_add_alias_hd [OF as(1), of al] by (simp add: mergeSessionAliases_def)
  qed
  have "gather B as ids \<noteq> [] \<and> hd (gather B as ids) = hd as" if "as \<noteq> []" "distinct as" "[] \<notin> set as" for as ids
    using that
  proof (induction ids arbitrary: as)
    case (Cons x ids)
    show ?case
    proof (cases "B x")
      case (Some v)
      then obtain au al ex where v: "B x = Some (au, al, ex)" by (cases v) auto
      have "gather B as (x # ids) = gather B (mergeSessionAliases as al) ids" using v by (simp add: gather_def)
      then show ?thesis using Cons.IH [of "mergeSessionAliases as al"] keep [OF Cons.prems, of al] by simp
    qed (use Cons in \<open>simp add: gather_def\<close>)
  qed (simp add: gather_def)
  from this [of "mergeSessionAliases [] (k # ks)" "k # ks"] h
  have "gather B (mergeSessionAliases [] (k # ks)) (k # ks) \<noteq> [] \<and> hd (gather B (mergeSessionAliases [] (k # ks)) (k # ks)) = k"
    by (simp del: set_merge) simp
  then show ?thesis unfolding absorbed_aliases_def using compact_hd by (metis hd_in_set)
qed

lemma bind_session_at:
  assumes "coherent now c" "0 \<le> now" "k \<noteq> []" "i \<noteq> []"
  shows "session_at now (bind_session k f i now c) k f i \<and> sc_ttl (bind_session k f i now c) = sc_ttl c"
proof -
  let ?ids = "k # (if f \<noteq> [] then [f] else [])"
  let ?c = "setAliasesUntil now i (now + sc_ttl c) ?ids c"
  have b: "bind_session k f i now c = ?c" by (simp add: bind_session_def SetAliases_def SetBinding_def)
  have t: "now < now + sc_ttl c" "now + sc_ttl c \<noteq> 0" using coherentD(3) [OF assms(1)] assms(2) by auto
  have m: "k \<in> set (absorbed_aliases (bound now c) ?ids)" using absorbed_hd [OF assms(3)] by simp
  then have "absorbed_aliases (bound now c) ?ids \<noteq> []" by auto
  note e = setAliasesUntil_effect [OF assms(1,4) t this]
  have "au = i" if "bound now ?c f = Some (au, al, ex)" for au al ex
  proof (rule ccontr)
    assume ne: "au \<noteq> i"
    have "f \<noteq> []" using that unbound_empty [OF e(1)] by auto
    then have "f \<in> set ?ids" by simp
    moreover have "f \<notin> set (absorbed_aliases (bound now c) ?ids)" "f \<notin> groups_of (bound now c) ?ids" "bound now c f \<noteq> None"
      using that ne by (auto simp: e(2) rebind_def split: if_splits)
    moreover from this obtain au' al' ex' where bf: "bound now c f = Some (au', al', ex')" by auto
    moreover have "f \<in> set al'" using binding_member [OF coherentD(1) [OF assms(1)] bf] by simp
    ultimately show False by (auto simp: groups_of_def group_def)
  qed
  then show ?thesis using m e(1) by (auto simp: b session_at_def e(2) rebind_def)
qed

text \<open>Who an identifier is bound to, and with whom.\<close>

definition view :: "time \<Rightarrow> SessionCache \<Rightarrow> string \<Rightarrow> (string \<times> string set) option" where
  "view now c x = map_option (\<lambda>(au, al, ex). (au, set al)) (bound now c x)"

lemma view_fst: "map_option fst (view now c x) = map_option fst (bound now c x)"
  by (cases "bound now c x") (auto simp: view_def)

text \<open>All entries of a group carry the same generation.\<close>

definition one_gen :: "SessionCache \<Rightarrow> string list \<Rightarrow> bool" where
  "one_gen c al \<longleftrightarrow> (\<exists>g. g \<noteq> 0 \<and> (\<forall>b \<in> set al. \<forall>e. mget (sc_entries c) b = Some e \<longrightarrow> se_gen e = g))"

lemma refresh_one_gen:
  assumes "coherent now c" "bound now c k = Some (au, al, ex)"
  shows "one_gen (fst (GetAndRefresh now k c)) (mergeSessionAliases [k] al)"
proof -
  obtain e where e: "mget (sc_entries c) k = Some e" "now < se_expires e" "se_aliases e = al" "k \<noteq> []"
    by (rule refresh_case [OF assms])
  have ok: "k \<in> set al" "alias_list_ok al" using binding_member [OF coherentD(1) [OF assms(1)] assms(2)] by auto
  have "fst (GetAndRefresh now k c) = replaceAliasGroupsLocked (se_auth e) (now + sc_ttl c) (mergeSessionAliases [k] al) [e] c"
    using e refresh_aliases [OF ok(2,1)] by (simp add: GetAndRefresh_def)
  then show ?thesis
    by (auto simp: one_gen_def replaceAliasGroupsLocked_def Let_def mget_foldl_mput_const simp del: set_merge intro!: exI [of _ "sc_gen c + 1"])
qed

lemma GetAndRefresh_ttl [simp]: "sc_ttl (fst (GetAndRefresh now k c)) = sc_ttl c"
  by (auto simp: GetAndRefresh_def split: option.splits)

lemma Get_ttl [simp]: "sc_ttl (fst (Get now now' k c)) = sc_ttl c"
  by (auto simp: Get_def split: option.splits)

lemma refresh_view:
  assumes c: "coherent now c"
  shows "view now (fst (GetAndRefresh now k c)) = view now c"
proof
  fix x
  have "set (mergeSessionAliases [k] al) = set al" if "bound now c x = Some (au, al, ex)" "k \<in> set al" for au al ex
    using refresh_aliases(2) binding_member [OF coherentD(1) [OF c] that(1)] that(2) by blast
  then show "view now (fst (GetAndRefresh now k c)) x = view now c x"
    by (auto simp: view_def GetAndRefresh_bound [OF c] simp del: set_merge split: option.splits)
qed

lemma Get_view [simp]: "view now (fst (Get now now k c)) = view now c"
  by (simp add: view_def Get_bound fun_eq_iff)

text \<open>What a look-up leaves: a bound session, or the bindings as they were with a fresh first group.\<close>

definition missed :: "time \<Rightarrow> SessionCache \<Rightarrow> string \<Rightarrow> SessionCache \<Rightarrow> bool" where
  "missed now c k c' \<longleftrightarrow> coherent now c' \<and> sc_ttl c' = sc_ttl c \<and> view now c' = view now c \<and>
     (\<forall>au al ex. bound now c' k = Some (au, al, ex) \<longrightarrow> one_gen c' al)"

lemma missed_trans: "missed now c k c' \<Longrightarrow> missed now c' k c'' \<Longrightarrow> missed now c k c''"
  by (simp add: missed_def)

lemma refresh_missed: "coherent now c \<Longrightarrow> missed now c k (fst (GetAndRefresh now k c))"
  using refresh_one_gen [of now c k] refresh_view [of now c k] GetAndRefresh_coherent [of now c k]
  by (auto simp: missed_def GetAndRefresh_bound split: option.splits if_splits dest: binding_member [OF coherentD(1)])

lemma reuse_alone:
  assumes "coherent now c" "0 \<le> now" "k \<noteq> []" "\<forall>a \<in> set as. au_id a \<noteq> []"
    and "reuse_binding (alone now) k f as i (n, c) = ((n', c'), r)"
  shows "(r = None \<longrightarrow> c' = c \<and> find_auth as i = None) \<and>
    (\<forall>a. r = Some a \<longrightarrow> find_auth as i = Some a \<and> session_at now c' k f (au_id a) \<and> sc_ttl c' = sc_ttl c)"
proof (cases "find_auth as i")
  case None
  then show ?thesis using assms(5) by (simp add: reuse_binding_def)
next
  case (Some a)
  then have "au_id a \<noteq> []" using assms(4) by (auto dest: find_auth_SomeD)
  moreover have "r = Some a" "c' = bind_session k f (au_id a) now c" using Some assms(5) by (auto simp: reuse_binding_def)
  ultimately show ?thesis using Some bind_session_at [OF assms(1-3), of "au_id a" f] by simp
qed

lemma lookup_alone:
  assumes c: "coherent now c" and a: "0 \<le> now" "k \<noteq> []" "\<forall>a \<in> set as. au_id a \<noteq> []"
    and l: "lookup_session (alone now) k f as (n, c) = ((n', c'), r)"
  shows "(r = None \<longrightarrow> missed now c k c' \<and> (\<forall>i al ex. bound now c k = Some (i, al, ex) \<longrightarrow> find_auth as i = None)) \<and>
    (\<forall>a. r = Some a \<longrightarrow> session_at now c' k f (au_id a) \<and> sc_ttl c' = sc_ttl c \<and>
       (\<forall>i al ex. bound now c k = Some (i, al, ex) \<longrightarrow> find_auth as i = Some a) \<and>
       (map_option fst (view now c k) = Some (au_id a) \<or> map_option fst (view now c f) = Some (au_id a)))"
proof -
  obtain c1 x where g: "GetAndRefresh now k c = (c1, x)" by (cases "GetAndRefresh now k c")
  have c1: "coherent now c1" "sc_ttl c1 = sc_ttl c" "missed now c k c1" "x = map_option fst (bound now c k)"
    using GetAndRefresh_coherent [OF c, of k] GetAndRefresh_ttl [of now k c] refresh_missed [OF c, of k] GetAndRefresh_result [OF c, of k] g
    by simp_all
  show ?thesis
  proof (cases x)
    case (Some i)
    obtain al ex where b: "bound now c k = Some (i, al, ex)" using Some c1(4) by (cases "bound now c k") auto
    have "reuse_binding (alone now) k f as i (n + 1, c1) = ((n', c'), r)" using l g Some by (simp add: lookup_session_def)
    from reuse_alone [OF c1(1) a this] show ?thesis using b c1(2,3) by (auto simp: view_def dest: find_auth_SomeD)
  next
    case None
    then have b: "bound now c k = None" using c1(4) by simp
    show ?thesis
    proof (cases "f = []")
      case True
      then show ?thesis using l g None b c1(3) by (simp add: lookup_session_def)
    next
      case False
      obtain c2 y where h: "Get now now f c1 = (c2, y)" by (cases "Get now now f c1")
      have "bound now c2 = bound now c1" using Get_bound [of now now f c1] h by simp
      moreover have "coherent now c2" "sc_ttl c2 = sc_ttl c1" "view now c2 = view now c1"
        using Get_coherent [OF c1(1), of now f] Get_ttl [of now now f c1] Get_view [of now f c1] h by simp_all
      moreover have "bound now c1 k = None" using b by (simp add: GetAndRefresh_bound [OF c, of k, unfolded g, simplified])
      ultimately have c2: "coherent now c2" "sc_ttl c2 = sc_ttl c" "missed now c k c2"
        using c1(2,3) by (auto simp: missed_def)
      show ?thesis
      proof (cases y)
        case None
        then show ?thesis using l g h \<open>x = None\<close> False b c2(3) by (simp add: lookup_session_def)
      next
        case (Some i)
        have "reuse_binding (alone now) k f as i (n + 2, c2) = ((n', c'), r)" using l g h \<open>x = None\<close> False Some by (simp add: lookup_session_def)
        have "view now c1 = view now c" using c1(3) by (simp add: missed_def)
        then have v: "map_option fst (view now c f) = Some i"
          using Some h Get_now [OF c1(1), of f] view_fst [of now c1 f] by simp
        from reuse_alone [OF c2(1) a \<open>reuse_binding (alone now) k f as i (n + 2, c2) = ((n', c'), r)\<close>]
        show ?thesis using b c2(2,3) v by (auto dest: find_auth_SomeD)
      qed
    qed
  qed
qed

section \<open>Moving alone\<close>

lemma observed_binding:
  assumes "coherent now c"
  shows "bound now c k = None \<Longrightarrow> GetWithGeneration now k c = None"
    and "bound now c k = Some (au, al, ex) \<Longrightarrow> \<exists>e. mget (sc_entries c) k = Some e \<and> GetWithGeneration now k c = Some (au, se_gen e, al)"
proof -
  show "GetWithGeneration now k c = None" if "bound now c k = None"
    using that by (auto simp: GetWithGeneration_def binding_def split: option.splits if_splits)
  assume b: "bound now c k = Some (au, al, ex)"
  obtain e where "mget (sc_entries c) k = Some e" "now < se_expires e" "se_auth e = au" "se_aliases e = al" "k \<noteq> []"
    by (rule refresh_case [OF assms b])
  then show "\<exists>e. mget (sc_entries c) k = Some e \<and> GetWithGeneration now k c = Some (au, se_gen e, al)"
    by (simp add: GetWithGeneration_def)
qed

lemma compact_grows: "set c \<subseteq> set (fst (foldl (compact_step P) (c, h, n) xs))"
proof (induction xs arbitrary: c h n)
  case (Cons x xs)
  obtain c' h' n' where s: "compact_step P (c, h, n) x = (c', h', n')" by (cases "compact_step P (c, h, n) x")
  then have "set c \<subseteq> set c'" by (auto simp: compact_step_def split: if_splits)
  then show ?case using Cons [of c' h' n'] s by auto
qed simp

lemma compact_keeps: "alias_list_ok al \<Longrightarrow> set al \<subseteq> set (compactSessionAliases (al @ xs))"
proof -
  assume "alias_list_ok al"
  then have "fst (foldl (compact_step isLocalPromptCacheSessionAlias) ([], False, 0) al) = al"
    using compact_id [of al] by (simp add: compactSessionAliases_def compactSessionAliasesWith_def)
  then obtain h n where "foldl (compact_step isLocalPromptCacheSessionAlias) ([], False, 0) al = (al, h, n)"
    by (cases "foldl (compact_step isLocalPromptCacheSessionAlias) ([], False, 0) al") auto
  then show ?thesis using compact_grows [of al isLocalPromptCacheSessionAlias h n xs]
    by (simp add: compactSessionAliases_def compactSessionAliasesWith_def)
qed

lemma merge_append: "alias_list_ok al \<Longrightarrow> \<exists>xs'. mergeSessionAliases al xs = al @ xs'"
proof -
  assume "alias_list_ok al"
  then have ok: "distinct al" "[] \<notin> set al" by (auto simp: alias_list_ok_def)
  have "foldl add_alias [] al = al" using ok
  proof (induction al rule: rev_induct)
    case (snoc x as)
    then show ?case by (auto simp: add_alias_def)
  qed simp
  moreover have "\<exists>xs'. foldl add_alias as xs = as @ xs'" for as
  proof (induction xs arbitrary: as)
    case (Cons x xs)
    obtain xs' where "foldl add_alias (add_alias as x) xs = add_alias as x @ xs'" using Cons by blast
    moreover obtain ys where "add_alias as x = as @ ys" using add_alias_def [of as x] by (cases "x = [] \<or> x \<in> set as") auto
    ultimately show ?case by simp
  qed simp
  ultimately show ?thesis by (simp add: mergeSessionAliases_def)
qed

lemma merged_keeps: "alias_list_ok al \<Longrightarrow> set al \<subseteq> set (compactSessionAliases (mergeSessionAliases al xs))"
  using merge_append [of al xs] compact_keeps [of al] by metis

text \<open>A group whose added keys are free moves in one go.\<close>

lemma group_moves:
  assumes c: "coherent now c" and b: "bound now c k = Some (p, al, ex)" and n: "p \<noteq> []" "i \<noteq> []"
    and g: "one_gen c al" "mget (sc_entries c) k = Some e"
    and f: "\<And>x. x \<in> set extra \<Longrightarrow> x \<noteq> [] \<Longrightarrow> x \<in> set al \<or> bound now c x = None"
  obtains c' where "CompareAndReplaceAliases now p (se_gen e) al i extra c = (c', True)" "coherent now c'" "sc_ttl c' = sc_ttl c"
    "bound now c' k = Some (i, compactSessionAliases (mergeSessionAliases al extra), now + sc_ttl c)"
    "\<And>x. bound now c' x \<noteq> None \<Longrightarrow> x \<in> set al \<or> bound now c x = None \<Longrightarrow> map_option fst (bound now c' x) = Some i"
proof -
  let ?r = "CompareAndReplaceAliases now p (se_gen e) al i extra c"
  have ok: "k \<in> set al" "alias_list_ok al" using binding_member [OF coherentD(1) [OF c] b] by auto
  have gens: "se_gen e' = se_gen e" if "x \<in> set al" "mget (sc_entries c) x = Some e'" for x e'
    using g ok(1) that unfolding one_gen_def by metis
  have ne: "se_gen e \<noteq> 0" using g ok(1) unfolding one_gen_def by blast
  have s: "snd ?r" by (rule CompareAndReplace_succeeds [OF c b gens ne n f])
  note ef = CompareAndReplace_effect [OF c s]
  have kin: "k \<in> set (compactSessionAliases (mergeSessionAliases al extra))" using merged_keeps [OF ok(2)] ok(1) by blast
  show thesis
  proof (rule that)
    show "?r = (fst ?r, True)" using s by (rule succeeded)
    show "coherent now (fst ?r)" by (rule ef(5))
    show "sc_ttl (fst ?r) = sc_ttl c" by (auto simp: CompareAndReplaceAliases_def Let_def split: option.splits)
    show "bound now (fst ?r) k = Some (i, compactSessionAliases (mergeSessionAliases al extra), now + sc_ttl c)"
      using kin by (simp add: ef(4) rebind_def)
    fix x assume "bound now (fst ?r) x \<noteq> None" "x \<in> set al \<or> bound now c x = None"
    then show "map_option fst (bound now (fst ?r) x) = Some i" by (auto simp: ef(4) rebind_def split: if_splits)
  qed
qed

lemma session_atI:
  assumes "coherent now c" "bound now c k = Some (i, al, now + sc_ttl c)"
    and "bound now c f \<noteq> None \<Longrightarrow> map_option fst (bound now c f) = Some i"
  shows "session_at now c k f i"
  using assms by (auto simp: session_at_def)

lemma rebind_alone:
  assumes c: "coherent now c" and b: "bound now c k = Some (p, al, ex)" and n: "p \<noteq> []" "i \<noteq> []" "k \<noteq> []"
    and g: "one_gen c al" "mget (sc_entries c) k = Some e" and f: "f \<in> set al \<or> bound now c f = None"
  shows "\<exists>c'. rebindAliasGroupCAS (alone now) k p (se_gen e) al i ([k] @ (if f \<noteq> [] then [f] else [])) (m, c) = ((m + 1, c'), True) \<and>
    session_at now c' k f i \<and> sc_ttl c' = sc_ttl c"
proof -
  have "k \<in> set al" using binding_member [OF coherentD(1) [OF c] b] by simp
  then have fr: "x \<in> set al \<or> bound now c x = None" if "x \<in> set ([k] @ (if f \<noteq> [] then [f] else []))" for x
    using that f by (auto split: if_splits)
  obtain c' where c': "CompareAndReplaceAliases now p (se_gen e) al i ([k] @ (if f \<noteq> [] then [f] else [])) c = (c', True)" "coherent now c'"
    "sc_ttl c' = sc_ttl c"
    "bound now c' k = Some (i, compactSessionAliases (mergeSessionAliases al ([k] @ (if f \<noteq> [] then [f] else []))), now + sc_ttl c)"
    "\<And>x. bound now c' x \<noteq> None \<Longrightarrow> x \<in> set al \<or> bound now c x = None \<Longrightarrow> map_option fst (bound now c' x) = Some i"
    by (rule group_moves [OF c b n(1,2) g fr]) blast+
  have "session_at now c' k f i" by (rule session_atI [OF c'(2) c'(4) [folded c'(3)] c'(5)]) (use f in auto)
  then show ?thesis using c'(1,3) by (simp add: rebindAliasGroupCAS_def numeral_3_eq_3)
qed

text \<open>A session split over two credentials is merged at the first attempt, unless its second group is
  bound to the new credential already.\<close>

lemma delete_group_alone:
  assumes c: "coherent now c" and b: "bound now c f = Some (y, al, ex)" "y \<noteq> []" and e: "mget (sc_entries c) f = Some e"
  obtains c' where "CompareAndDeleteGroup f y (se_gen e) al c = (c', Some al)" "coherent now c'" "sc_ttl c' = sc_ttl c"
    "bound now c' = rebind (bound now c) (set al) y [] 0"
    "\<And>x e'. mget (sc_entries c') x = Some e' \<Longrightarrow> mget (sc_entries c) x = Some e'"
    "\<And>x e'. mget (sc_entries c) x = Some e' \<Longrightarrow> se_auth e' \<noteq> y \<Longrightarrow> mget (sc_entries c') x = Some e'"
proof -
  obtain e1 where e1: "mget (sc_entries c) f = Some e1" "now < se_expires e1" "se_auth e1 = y" "se_aliases e1 = al" "f \<noteq> []"
    by (rule refresh_case [OF c b(1)])
  then have e: "e1 = e" using e by simp
  have "al \<noteq> []" using binding_member [OF coherentD(1) [OF c] b(1)] by auto
  then have r: "CompareAndDeleteGroup f y (se_gen e) al c =
      (c\<lparr>sc_entries := foldl (delete_matching y e) (sc_entries c) (se_aliases e), sc_gen := sc_gen c + 1\<rparr>, Some al)"
    using e1 b(2) by (simp add: CompareAndDeleteGroup_def e)
  show thesis
  proof (rule that [OF r])
    show "coherent now (c\<lparr>sc_entries := foldl (delete_matching y e) (sc_entries c) (se_aliases e), sc_gen := sc_gen c + 1\<rparr>)"
      by (rule delete_coherent [OF c, of f]) (use e1(1,3) e in auto)
    have "group (bound now c) f = set al" by (simp add: group_def b)
    then show "bound now (c\<lparr>sc_entries := foldl (delete_matching y e) (sc_entries c) (se_aliases e), sc_gen := sc_gen c + 1\<rparr>) =
        rebind (bound now c) (set al) y [] 0"
      using delete_matching_bound [OF c, of f e y] e1 e by simp
  qed (auto simp: mget_delete_matching split: if_splits)
qed

lemma merge_alone:
  assumes c: "coherent now c" and P: "bound now c k = Some (p, alP, exP)" "p \<noteq> []" "one_gen c alP"
    and F: "bound now c f = Some (y, alF, exF)" "y \<noteq> []" and d: "p \<noteq> y" "y \<noteq> i" "i \<noteq> []"
  shows "\<exists>c' n'. mergeSplitAliasGroupsCAS (alone now) k f i (n, c) = ((n', c'), True) \<and> session_at now c' k f i \<and> sc_ttl c' = sc_ttl c"
proof -
  obtain eP where eP: "mget (sc_entries c) k = Some eP" "GetWithGeneration now k c = Some (p, se_gen eP, alP)"
    using observed_binding(2) [OF c P(1)] by blast
  obtain eF where eF: "mget (sc_entries c) f = Some eF" "GetWithGeneration now f c = Some (y, se_gen eF, alF)"
    using observed_binding(2) [OF c F(1)] by blast
  obtain c3 where c3: "CompareAndDeleteGroup f y (se_gen eF) alF c = (c3, Some alF)" "coherent now c3" "sc_ttl c3 = sc_ttl c"
    "bound now c3 = rebind (bound now c) (set alF) y [] 0"
    "\<And>x e'. mget (sc_entries c3) x = Some e' \<Longrightarrow> mget (sc_entries c) x = Some e'"
    "\<And>x e'. mget (sc_entries c) x = Some e' \<Longrightarrow> se_auth e' \<noteq> y \<Longrightarrow> mget (sc_entries c3) x = Some e'"
    using delete_group_alone [OF c F eF(1)] by blast
  have mem: "k \<in> set alP" "f \<in> set alF" using binding_member [OF coherentD(1) [OF c]] P(1) F(1) by blast+
  have dis: "x \<notin> set alF" if "x \<in> set alP" for x
    using groups_okD [OF coherentD(2) [OF c] P(1) that] groups_okD [OF coherentD(2) [OF c] F(1)] d(1) by fastforce
  have b3: "bound now c3 k = Some (p, alP, exP)" using dis [OF mem(1)] P(1) by (simp add: c3(4) rebind_def)
  have "se_auth eP = p" using eP(1) binding_SomeD [OF P(1)] by auto
  then have e3: "mget (sc_entries c3) k = Some eP" using c3(6) eP(1) d(1) by blast
  have g3: "one_gen c3 alP" using P(3) c3(5) unfolding one_gen_def by blast
  let ?merged = "mergeSessionAliases (mergeSessionAliases alP alF) [k, f]"
  have fr: "x \<in> set alP \<or> bound now c3 x = None" if "x \<in> set ?merged" for x
    using that mem by (auto simp: c3(4) rebind_def)
  obtain c4 where c4: "CompareAndReplaceAliases now p (se_gen eP) alP i ?merged c3 = (c4, True)" "coherent now c4" "sc_ttl c4 = sc_ttl c3"
    "bound now c4 k = Some (i, compactSessionAliases (mergeSessionAliases alP ?merged), now + sc_ttl c3)"
    "\<And>x. bound now c4 x \<noteq> None \<Longrightarrow> x \<in> set alP \<or> bound now c3 x = None \<Longrightarrow> map_option fst (bound now c4 x) = Some i"
    by (rule group_moves [OF c3(2) b3 P(2) d(3) g3 e3 fr]) blast+
  have "bound now c3 f = None" using mem(2) by (simp add: c3(4) rebind_def)
  then have "session_at now c4 k f i" by (intro session_atI [OF c4(2) c4(4) [folded c4(3)]] c4(5)) auto
  then show ?thesis using c3(1,3) c4(1,3) eP(2) eF(2) d(2)
    by (simp add: mergeSplitAliasGroupsCAS_def numeral_3_eq_3 group_of_def)
qed

text \<open>When a session can be moved: not when its second identifier is known alone, nor when its two
  groups are bound to the same credential or the second one to the new credential.\<close>

definition movable :: "time \<Rightarrow> SessionCache \<Rightarrow> string \<Rightarrow> string \<Rightarrow> string \<Rightarrow> bool" where
  "movable now c k f i \<longleftrightarrow> i \<noteq> [] \<and>
     (case view now c k of None \<Rightarrow> view now c f = None
      | Some (p, P) \<Rightarrow> p \<noteq> [] \<and> (case view now c f of None \<Rightarrow> True
          | Some (y, Y) \<Rightarrow> f \<in> P \<or> (y \<noteq> [] \<and> y \<noteq> p \<and> y \<noteq> i)))"

lemma move_alone:
  assumes m: "missed now c0 k c" and v: "movable now c k f i" and k: "k \<noteq> []" "0 \<le> now"
    and o': "stale = GetWithGeneration now k c" "split = (if f \<noteq> [] then GetWithGeneration now f c else None)"
  shows "\<exists>c' n'. move_session (alone now) k f stale split i (n, c) = (n', c') \<and> session_at now c' k f i \<and> sc_ttl c' = sc_ttl c"
proof -
  have c: "coherent now c" using m by (simp add: missed_def)
  have i: "i \<noteq> []" using v by (simp add: movable_def)
  have sp: "split = GetWithGeneration now f c" using o'(2) by (auto simp: GetWithGeneration_def)
  show ?thesis
  proof (cases "bound now c k")
    case None
    then have "bound now c f = None" using v by (simp add: movable_def view_def)
    then have "stale = None" "split = None" using None observed_binding(1) [OF c] o'(1) sp by simp_all
    then show ?thesis using bind_session_at [OF c k(2,1) i, of f] by (simp add: move_session_def)
  next
    case (Some t)
    then obtain p alP exP where P: "bound now c k = Some (p, alP, exP)" by (cases t) auto
    have pn: "p \<noteq> []" using v P by (simp add: movable_def view_def)
    have g: "one_gen c alP" using m P by (auto simp: missed_def)
    obtain eP where eP: "mget (sc_entries c) k = Some eP" "stale = Some (p, se_gen eP, alP)"
      using observed_binding(2) [OF c P] o'(1) by blast
    show ?thesis
    proof (cases "bound now c f")
      case None
      then have "split = None" using observed_binding(1) [OF c] sp by simp
      then show ?thesis using rebind_alone [OF c P pn i k(1) g eP(1), of f n] None eP(2) by (auto simp: move_session_def)
    next
      case (Some u)
      then obtain y alF exF where F: "bound now c f = Some (y, alF, exF)" by (cases u) auto
      obtain eF :: sessionEntry where eF: "split = Some (y, se_gen eF, alF)" using observed_binding(2) [OF c F] sp by blast
      show ?thesis
      proof (cases "f \<in> set alP")
        case True
        then have "y = p" using groups_okD [OF coherentD(2) [OF c] P] F by auto
        then show ?thesis using rebind_alone [OF c P pn i k(1) g eP(1), of f n] True eP(2) eF by (auto simp: move_session_def)
      next
        case False
        then have "y \<noteq> []" "y \<noteq> p" "y \<noteq> i" using v P F by (auto simp: movable_def view_def)
        then show ?thesis using merge_alone [OF c P pn g F _ _ _ i, of n] eP(2) eF by (auto simp: move_session_def)
      qed
    qed
  qed
qed

section \<open>Picking alone\<close>

lemma session_pick_hit:
  assumes c: "coherent now c" and a: "0 \<le> now" "k \<noteq> []" "\<forall>a \<in> set as. au_id a \<noteq> []"
    and b: "bound now c k = Some (i, al, ex)" and f: "find_auth as i = Some a"
  shows "\<exists>st'. session_pick (alone now) pick q k f' as (n, c) fs = (st', fs, Inr a)"
proof -
  obtain n1 c1 r where l: "lookup_session (alone now) k f' as (n, c) = ((n1, c1), r)"
    by (cases "lookup_session (alone now) k f' as (n, c)") auto
  have "r = Some a" using lookup_alone [OF c a l] b f by (cases r) auto
  then show ?thesis using l by (simp add: session_pick_def)
qed

lemma missed_movable: "missed now c k c' \<Longrightarrow> movable now c' k f i = movable now c k f i"
proof -
  assume "missed now c k c'"
  then have "view now c' = view now c" by (simp add: missed_def)
  then show ?thesis by (simp only: movable_def)
qed

lemma session_pick_alone:
  assumes c: "coherent now c" and a: "0 \<le> now" "k \<noteq> []" "\<forall>a \<in> set as. au_id a \<noteq> []"
    and p: "session_pick (alone now) pick q k f as (n, c) fs = ((n', c'), fs', Inr a)" and v: "movable now c k f (au_id a)"
  shows "session_at now c' k f (au_id a) \<and> sc_ttl c' = sc_ttl c"
proof -
  obtain n1 c1 r1 where l1: "lookup_session (alone now) k f as (n, c) = ((n1, c1), r1)"
    by (cases "lookup_session (alone now) k f as (n, c)") auto
  note s1 = lookup_alone [OF c a l1]
  show ?thesis
  proof (cases r1)
    case (Some b)
    then show ?thesis using p l1 s1 by (simp add: session_pick_def)
  next
    case None
    then have m1: "missed now c k c1" using s1 by simp
    then have c1: "coherent now c1" "sc_ttl c1 = sc_ttl c" by (simp_all add: missed_def)
    obtain n2 c2 r2 where l2: "lookup_session (alone now) k f as (n1, c1) = ((n2, c2), r2)"
      by (cases "lookup_session (alone now) k f as (n1, c1)") auto
    note s2 = lookup_alone [OF c1(1) a l2]
    show ?thesis
    proof (cases r2)
      case (Some b)
      then show ?thesis using p l1 l2 s2 None c1(2) by (simp add: session_pick_def)
    next
      case N2: None
      then have m2: "missed now c k c2" using s2 m1 missed_trans by blast
      let ?stale = "GetWithGeneration now k c2" and ?split = "if f \<noteq> [] then GetWithGeneration now f c2 else None"
      have e: "\<exists>m. session_pick (alone now) pick q k f as (n, c) fs =
          (case pick fs q (map Some (highestPriorityAuths as)) of
             (fs', Inl e) \<Rightarrow> ((m, c2), fs', Inl e)
           | (fs', Inr a) \<Rightarrow> (move_session (alone now) k f ?stale ?split (au_id a) (m, c2), fs', Inr a))"
        using l1 l2 None N2 by (cases "f = []") (auto simp: session_pick_def Let_def)
      then obtain m where m: "(case pick fs q (map Some (highestPriorityAuths as)) of
             (fs', Inl e) \<Rightarrow> ((m, c2), fs', Inl e)
           | (fs', Inr a) \<Rightarrow> (move_session (alone now) k f ?stale ?split (au_id a) (m, c2), fs', Inr a)) = ((n', c'), fs', Inr a)"
        using p by auto
      then have "move_session (alone now) k f ?stale ?split (au_id a) (m, c2) = (n', c')" by (auto split: prod.splits sum.splits)
      moreover have "movable now c2 k f (au_id a)" using v missed_movable [OF m2] by simp
      ultimately show ?thesis using move_alone [OF m2 _ a(2,1) refl refl, of f "au_id a" m] m2 by (auto simp: missed_def)
    qed
  qed
qed

text \<open>The pick is the credential a key of the session is bound to, or one of the highest priority.\<close>

lemma session_pick_choice:
  assumes c: "coherent now c" and a: "0 \<le> now" "k \<noteq> []" "\<forall>a \<in> set as. au_id a \<noteq> []"
    and p: "session_pick (alone now) pick q k f as (n, c) fs = (st', fs', Inr a)"
    and s: "\<And>as' s' s'' a. pick s' q as' = (s'', Inr a) \<Longrightarrow> Some a \<in> set as'"
  shows "map_option fst (view now c k) = Some (au_id a) \<or> map_option fst (view now c f) = Some (au_id a) \<or>
    a \<in> set (highestPriorityAuths as)"
proof -
  obtain n1 c1 r1 where l1: "lookup_session (alone now) k f as (n, c) = ((n1, c1), r1)"
    by (cases "lookup_session (alone now) k f as (n, c)") auto
  note s1 = lookup_alone [OF c a l1]
  show ?thesis
  proof (cases r1)
    case (Some b)
    then show ?thesis using p l1 s1 by (auto simp: session_pick_def)
  next
    case None
    then have m1: "missed now c k c1" using s1 by simp
    then have c1: "coherent now c1" "view now c1 = view now c" by (simp_all add: missed_def)
    obtain n2 c2 r2 where l2: "lookup_session (alone now) k f as (n1, c1) = ((n2, c2), r2)"
      by (cases "lookup_session (alone now) k f as (n1, c1)") auto
    note s2 = lookup_alone [OF c1(1) a l2]
    show ?thesis
    proof (cases r2)
      case (Some b)
      then show ?thesis using p l1 l2 s2 None c1(2) by (auto simp: session_pick_def)
    next
      case N2: None
      obtain s' r where pk: "pick fs q (map Some (highestPriorityAuths as)) = (s', r)"
        by (cases "pick fs q (map Some (highestPriorityAuths as))")
      then have "r = Inr a" using p l1 l2 None N2 by (auto simp: session_pick_def Let_def split: sum.splits if_splits)
      then show ?thesis using s pk by fastforce
    qed
  qed
qed

section \<open>The quarantine of a session\<close>

text \<open>Every quarantined key is a group of its own.\<close>

definition singletons :: "time \<Rightarrow> SessionCache \<Rightarrow> bool" where
  "singletons now q \<longleftrightarrow> (\<forall>x au al ex. bound now q x = Some (au, al, ex) \<longrightarrow> al = [x])"

lemma quarantine_key_ne [simp]: "quarantine_key k i \<noteq> []"
  by (simp add: quarantine_key_def)

lemma quarantine_one:
  assumes q: "coherent now q" "singletons now q" and x: "x \<noteq> []" "i \<noteq> []" "now < ex" "ex \<noteq> 0"
  shows "coherent now (setAliasesUntil now i ex [x] q)"
    and "bound now (setAliasesUntil now i ex [x] q) = (bound now q)(x := Some (i, [x], ex))"
    and "singletons now (setAliasesUntil now i ex [x] q)"
proof -
  have s: "al = [x]" if "bound now q x = Some (au, al, t)" for au al t using q(2) that by (auto simp: singletons_def)
  then have ab: "absorbed_aliases (bound now q) [x] = [x]"
    using x(1) by (cases "bound now q x")
      (auto simp: absorbed_aliases_def gather_def mergeSessionAliases_def add_alias_def compactSessionAliases_def
        compactSessionAliasesWith_def compact_step_def maxStableSessionAliases_def)
  have g: "groups_of (bound now q) [x] \<subseteq> {x}" using s by (auto simp: groups_of_def group_def split: option.splits)
  note e = setAliasesUntil_effect [OF q(1) x(2-4), of "[x]", unfolded ab]
  show "coherent now (setAliasesUntil now i ex [x] q)" using e(1) by simp
  show b: "bound now (setAliasesUntil now i ex [x] q) = (bound now q)(x := Some (i, [x], ex))"
    using e(2) g by (auto simp: rebind_def fun_eq_iff)
  show "singletons now (setAliasesUntil now i ex [x] q)" using q(2) by (simp add: singletons_def b)
qed

definition quarantine_delay :: "duration option \<Rightarrow> duration" where
  "quarantine_delay retryAfter = (case retryAfter of Some d \<Rightarrow> if d > 0 then d else 5 * second | None \<Rightarrow> 5 * second)"

lemma quarantine_all:
  assumes "coherent now q" "singletons now q" "i \<noteq> []" "0 \<le> now"
  shows "coherent now (quarantineSessionAuth now keys i ra q) \<and> singletons now (quarantineSessionAuth now keys i ra q) \<and>
    (\<forall>k \<in> set keys. k \<noteq> [] \<longrightarrow> (\<exists>al. bound now (quarantineSessionAuth now keys i ra q) (quarantine_key k i) =
       Some (i, al, now + quarantine_delay ra)))"
proof -
  let ?ex = "now + quarantine_delay ra"
  let ?step = "\<lambda>q key. if key = [] then q else setAliasesUntil now i ?ex [quarantine_key key i] q"
  have ex: "now < ?ex" "?ex \<noteq> 0" using assms(4) by (auto simp: quarantine_delay_def second_def split: option.splits)
  have I: "coherent now (foldl ?step q keys) \<and> singletons now (foldl ?step q keys) \<and>
    (\<forall>k \<in> set keys. k \<noteq> [] \<longrightarrow> (\<exists>al. bound now (foldl ?step q keys) (quarantine_key k i) = Some (i, al, ?ex)))"
  proof (induction keys rule: rev_induct)
    case (snoc k keys)
    let ?q = "foldl ?step q keys"
    note o = quarantine_one [of now ?q "quarantine_key k i", OF _ _ quarantine_key_ne assms(3) ex]
    show ?case
    proof (cases "k = []")
      case False
      then have "foldl ?step q (keys @ [k]) = setAliasesUntil now i ?ex [quarantine_key k i] ?q" by simp
      then show ?thesis using o snoc by auto
    qed (use snoc in simp)
  qed (use assms in simp)
  have e: "quarantineSessionAuth now keys i ra q = foldl ?step q keys"
    unfolding quarantineSessionAuth_def quarantine_delay_def Let_def using assms(3) by simp
  show ?thesis unfolding e by (rule I)
qed

lemma quarantined_answer:
  assumes "coherent now q"
  shows "coherent now (fst (quarantined now keys i q)) \<and> bound now (fst (quarantined now keys i q)) = bound now q \<and>
    (snd (quarantined now keys i q) \<longleftrightarrow> (\<exists>k \<in> set keys. k \<noteq> [] \<and> bound now q (quarantine_key k i) \<noteq> None))"
  using assms
proof (induction keys arbitrary: q)
  case (Cons k keys)
  obtain q1 r where g: "Get now now (quarantine_key k i) q = (q1, r)" by (cases "Get now now (quarantine_key k i) q")
  have q1: "coherent now q1" "bound now q1 = bound now q" "r = map_option fst (bound now q (quarantine_key k i))"
    using Get_coherent [OF Cons.prems, of now "quarantine_key k i"] Get_bound [of now now "quarantine_key k i" q]
      Get_now [OF Cons.prems, of "quarantine_key k i"] g by simp_all
  show ?case
  proof (cases "k = []")
    case True
    then show ?thesis using Cons.IH [OF Cons.prems] by simp
  next
    case False
    show ?thesis
    proof (cases "bound now q (quarantine_key k i)")
      case None
      then have "quarantined now (k # keys) i q = quarantined now keys i q1" using g q1(3) False by simp
      then show ?thesis using Cons.IH [OF q1(1)] q1(2) None by auto
    next
      case (Some v)
      then have "quarantined now (k # keys) i q = (q1, True)" using g q1(3) False by simp
      then show ?thesis using q1(1,2) Some False by (cases v) auto
    qed
  qed
qed simp

lemma exclude_answer:
  assumes "coherent now q"
  shows "coherent now (fst (excludeSessionQuarantine now k f as q)) \<and>
    bound now (fst (excludeSessionQuarantine now k f as q)) = bound now q \<and>
    snd (excludeSessionQuarantine now k f as q) =
      filter (\<lambda>a. \<not> (\<exists>x \<in> set [k, f]. x \<noteq> [] \<and> bound now q (quarantine_key x (au_id a)) \<noteq> None)) as"
  using assms
proof (induction as arbitrary: q)
  case (Cons a as)
  obtain q1 b where q1: "quarantined now [k, f] (au_id a) q = (q1, b)" by (cases "quarantined now [k, f] (au_id a) q")
  have A: "coherent now q1" "bound now q1 = bound now q"
    "b \<longleftrightarrow> (\<exists>x \<in> set [k, f]. x \<noteq> [] \<and> bound now q (quarantine_key x (au_id a)) \<noteq> None)"
    using quarantined_answer [OF Cons.prems, of "[k, f]" "au_id a"] q1 by simp_all
  obtain q2 l where q2: "excludeSessionQuarantine now k f as q1 = (q2, l)" by (cases "excludeSessionQuarantine now k f as q1")
  have B: "coherent now q2" "bound now q2 = bound now q"
    "l = filter (\<lambda>a. \<not> (\<exists>x \<in> set [k, f]. x \<noteq> [] \<and> bound now q (quarantine_key x (au_id a)) \<noteq> None)) as"
    using Cons.IH [OF A(1)] q2 A(2) by simp_all
  show ?case using q1 q2 B A(3) by (simp del: quarantined.simps)
qed simp

section \<open>Releasing alone\<close>

lemma release_key_alone:
  assumes c: "coherent now c"
  shows "release_key (alone now) k i (n, c) =
    (case bound now c k of Some (au, al, ex) \<Rightarrow> if au = i then ((n + 2, Invalidate k c), Some al) else ((n + 1, c), None)
     | None \<Rightarrow> ((n + 1, c), None))"
proof (cases "bound now c k")
  case None
  then show ?thesis using observed_binding(1) [OF c] by (simp add: release_key_def)
next
  case (Some v)
  then obtain au al ex where b: "bound now c k = Some (au, al, ex)" by (cases v) auto
  obtain e :: sessionEntry where "GetWithGeneration now k c = Some (au, se_gen e, al)" using observed_binding(2) [OF c b] by blast
  then show ?thesis using b by (simp add: release_key_def)
qed

text \<open>The keys a failure quarantines hold one of the two keys of the session.\<close>

lemma release_keys:
  assumes c: "coherent now c" and k: "k \<noteq> []" and r: "release_session (alone now) k f i (n, c) = (st, aliases)"
  shows "k \<in> set (if aliases = [] then [k, f] else aliases) \<or> (f \<noteq> [] \<and> f \<in> set (if aliases = [] then [k, f] else aliases))"
proof -
  have m: "x \<in> set al" if "bound now c x = Some (au, al, ex)" for x au al ex
    using binding_member [OF coherentD(1) [OF c] that] by simp
  show ?thesis
  proof (cases "bound now c k")
    case None
    show ?thesis
    proof (cases "f = [] \<or> bound now c f = None")
      case True
      then show ?thesis using r None by (auto simp: release_session_def release_key_alone [OF c] split: if_splits)
    next
      case False
      then obtain au al ex where b: "bound now c f = Some (au, al, ex)" by auto
      then show ?thesis using r None False m [OF b]
        by (auto simp: release_session_def release_key_alone [OF c] split: if_splits)
    qed
  next
    case (Some v)
    then obtain au al ex where b: "bound now c k = Some (au, al, ex)" by (cases v) auto
    show ?thesis
    proof (cases "au = i")
      case True
      then show ?thesis using r b m [OF b] by (auto simp: release_session_def release_key_alone [OF c] split: if_splits)
    next
      case ne: False
      show ?thesis
      proof (cases "f = [] \<or> bound now c f = None")
        case True
        then show ?thesis using r b ne by (auto simp: release_session_def release_key_alone [OF c] split: if_splits)
      next
        case False
        then obtain au' al' ex' where b': "bound now c f = Some (au', al', ex')" by auto
        then show ?thesis using r b ne False m [OF b']
          by (auto simp: release_session_def release_key_alone [OF c] split: if_splits)
      qed
    qed
  qed
qed

section \<open>Candidates\<close>

text \<open>The candidates of a request with a session: available in any priority and not quarantined.\<close>

definition session_candidates :: "bool \<Rightarrow> pick_request \<Rightarrow> string \<Rightarrow> string \<Rightarrow> Auth option list \<Rightarrow> SessionCache \<Rightarrow> Auth list" where
  "session_candidates weighted q k f auths quarantine =
     (case getAvailableAuthsAcrossPriorities (if weighted then positiveWeightAuths auths else auths)
             (rq_provider q) (rq_model q) (rq_now q) (rq_excluded q) of
        Inl e \<Rightarrow> []
      | Inr available \<Rightarrow> snd (excludeSessionQuarantine (rq_now q) k f available quarantine))"

abbreviation session_key :: "pick_request \<Rightarrow> string \<Rightarrow> string" where
  "session_key q primaryID \<equiv> affinity_key (rq_provider q) primaryID (canonicalModelKey (rq_model q))"

abbreviation second_key :: "pick_request \<Rightarrow> string \<Rightarrow> string \<Rightarrow> string" where
  "second_key q primaryID fallbackID \<equiv> fallback_key (rq_provider q) primaryID fallbackID (canonicalModelKey (rq_model q))"

lemma session_candidates_ok:
  assumes "coherent (rq_now q) quarantine" and "a \<in> set (session_candidates weighted q k f auths quarantine)"
  shows "Some a \<in> set auths" "weighted \<Longrightarrow> 0 < authWeight (Some a)" "request_ok (rq_model q) (rq_now q) (rq_excluded q) a"
    and "k \<noteq> [] \<Longrightarrow> bound (rq_now q) quarantine (quarantine_key k (au_id a)) = None"
    and "f \<noteq> [] \<Longrightarrow> bound (rq_now q) quarantine (quarantine_key f (au_id a)) = None"
proof -
  obtain l where l: "getAvailableAuthsAcrossPriorities (if weighted then positiveWeightAuths auths else auths)
      (rq_provider q) (rq_model q) (rq_now q) (rq_excluded q) = Inr l"
    and a: "a \<in> set (snd (excludeSessionQuarantine (rq_now q) k f l quarantine))"
    using assms(2) unfolding session_candidates_def
    by (cases "getAvailableAuthsAcrossPriorities (if weighted then positiveWeightAuths auths else auths)
      (rq_provider q) (rq_model q) (rq_now q) (rq_excluded q)") auto
  note x = exclude_answer [OF assms(1), of k f l]
  have "a \<in> set (candidates (rq_model q) (rq_now q) (rq_excluded q) (if weighted then positiveWeightAuths auths else auths))"
    using getAcross_Inr(1) [OF l] a x by auto
  then show "Some a \<in> set auths" "weighted \<Longrightarrow> 0 < authWeight (Some a)" "request_ok (rq_model q) (rq_now q) (rq_excluded q) a"
    by (auto simp: set_candidates positiveWeightAuths_def split: if_splits)
  show "k \<noteq> [] \<Longrightarrow> bound (rq_now q) quarantine (quarantine_key k (au_id a)) = None"
    "f \<noteq> [] \<Longrightarrow> bound (rq_now q) quarantine (quarantine_key f (au_id a)) = None"
    using a by (simp_all add: x del: not_None_eq split_paired_All split_paired_Ex)
qed

text \<open>A pick with a session, as a function of its candidates.\<close>

lemma AffinityPick_session:
  assumes "primaryID \<noteq> []" "AffinityPick W weighted pick q primaryID fallbackID auths s fs = (s', fs', Inr a)"
  obtains n where "session_pick W pick q (session_key q primaryID) (second_key q primaryID fallbackID)
      (session_candidates weighted q (session_key q primaryID) (second_key q primaryID fallbackID) auths (sa_quarantine s))
      (0, sa_cache s) fs = ((n, sa_cache s'), fs', Inr a)"
  using assms by (auto simp: AffinityPick_def session_candidates_def Let_def split: sum.splits prod.splits)

lemma session_pick_mem:
  assumes p: "session_pick W pick q k f as st fs = (st', fs', Inr a)"
    and s: "\<And>as' s' s'' a. pick s' q as' = (s'', Inr a) \<Longrightarrow> Some a \<in> set as'"
  shows "a \<in> set as"
proof -
  obtain st1 r1 where l1: "lookup_session W k f as st = (st1, r1)" by (cases "lookup_session W k f as st")
  obtain st2 r2 where l2: "lookup_session W k f as st1 = (st2, r2)" by (cases "lookup_session W k f as st1")
  show ?thesis
  proof (cases r1)
    case (Some b)
    then show ?thesis using p l1 lookup_mem [of W k f as st st1 b] by (simp add: session_pick_def)
  next
    case N1: None
    show ?thesis
    proof (cases r2)
      case (Some b)
      then show ?thesis using p l1 l2 N1 lookup_mem [of W k f as st1 st2 b] by (simp add: session_pick_def)
    next
      case None
      obtain s' r where pk: "pick fs q (map Some (highestPriorityAuths as)) = (s', r)"
        by (cases "pick fs q (map Some (highestPriorityAuths as))")
      then have "r = Inr a" using p l1 l2 N1 None by (auto simp: session_pick_def Let_def split: sum.splits if_splits prod.splits)
      then have "Some a \<in> set (map Some (highestPriorityAuths as))" using s pk by blast
      then show ?thesis by (auto simp: highestPriorityAuths_eq top_candidates_def)
    qed
  qed
qed

end
