(* ===== verification/Affinity_Properties.thy ===== *)
theory Affinity_Properties
  imports Session_Affinity
begin

text \<open>
  What session affinity guarantees (\<open>SessionAffinitySelector\<close>): the credential picked, how long a
  session stays with it, what a failure and a success do to it, and sessions whose two identifiers
  are bound apart.
\<close>

section \<open>Example\<close>

definition example_request :: "time \<Rightarrow> pick_request" where
  "example_request now = \<lparr>rq_provider = ''mixed'', rq_model = ''gpt-5(high)'', rq_excluded = [], rq_now = now,
     rq_websocket = False, rq_route_model = []\<rparr>"

definition prio_cred :: "string \<Rightarrow> string \<Rightarrow> Auth" where
  "prio_cred i p = (empty_auth i)\<lparr>au_status := StatusActive, au_attributes := [(''priority'', p)]\<rparr>"

lemma prio_cred_id [simp]: "au_id (prio_cred i p) = i"
  by (simp add: prio_cred_def empty_auth_def)

definition low_high :: "Auth option list" where
  "low_high = [Some (prio_cred ''low'' ''1''), Some (prio_cred ''high'' ''5'')]"

definition new_affinity :: SessionAffinitySelector where
  "new_affinity = NewSessionAffinitySelectorWithConfig (60 * minute)"

definition example_rotation :: RoundRobinSelector where
  "example_rotation = \<lparr>rr_last_picked = [], rr_max_keys = 4096\<rparr>"

lemma new_affinity_coherent: "coherent now (sa_cache new_affinity)" "coherent now (sa_quarantine new_affinity)"
  by (simp_all add: new_affinity_def NewSessionAffinitySelectorWithConfig_def NewSessionCache_coherent Let_def)

lemma new_affinity_unbound: "bound now (sa_cache new_affinity) x = None" "bound now (sa_quarantine new_affinity) x = None"
  by (simp_all add: new_affinity_def NewSessionAffinitySelectorWithConfig_def NewSessionCache_def binding_def Let_def)

lemma example_pick:
  obtains s' fs' where "AffinityPick (alone 100) False RoundRobinPick (example_request 100) ''user_1'' [] low_high new_affinity
      example_rotation = (s', fs', Inr (prio_cred ''high'' ''5''))"
proof -
  let ?r = "AffinityPick (alone 100) False RoundRobinPick (example_request 100) ''user_1'' [] low_high new_affinity
      example_rotation"
  have "snd (snd ?r) = Inr (prio_cred ''high'' ''5'')" by code_simp
  then show thesis using that by (cases ?r) auto
qed

lemma affinity_pick_facts:
  assumes "selector pick usable" "primaryID \<noteq> []" "coherent (rq_now q) (sa_quarantine s)"
    and "AffinityPick W weighted pick q primaryID fallbackID auths s fs = (s', fs', Inr a)"
  shows "Some a \<in> set auths \<and> (weighted \<longrightarrow> 0 < authWeight (Some a)) \<and>
    request_ok (rq_model q) (rq_now q) (rq_excluded q) a \<and>
    bound (rq_now q) (sa_quarantine s) (quarantine_key (session_key q primaryID) (au_id a)) = None \<and>
    (second_key q primaryID fallbackID \<noteq> [] \<longrightarrow>
       bound (rq_now q) (sa_quarantine s) (quarantine_key (second_key q primaryID fallbackID) (au_id a)) = None)"
proof -
  obtain n where p: "session_pick W pick q (session_key q primaryID) (second_key q primaryID fallbackID)
      (session_candidates weighted q (session_key q primaryID) (second_key q primaryID fallbackID) auths (sa_quarantine s))
      (0, sa_cache s) fs = ((n, sa_cache s'), fs', Inr a)"
    by (rule AffinityPick_session [OF assms(2,4)])
  have "a \<in> set (session_candidates weighted q (session_key q primaryID) (second_key q primaryID fallbackID) auths (sa_quarantine s))"
    by (rule session_pick_mem [OF p]) (use selector.pick_from [OF assms(1)] in blast)
  from session_candidates_ok [OF assms(3) this] show ?thesis by simp
qed

section \<open>Properties\<close>

text \<open>C26. Whatever other requests do meanwhile to the bindings, the credential picked for a session is a
  candidate of the request that is neither excluded nor blocked for the model, has a positive weight
  when the strategy is the weighted one, and is not quarantined for either identifier of the session.\<close>

theorem affinity_pick_sound:
  assumes "selector pick usable" "primaryID \<noteq> []" "coherent (rq_now q) (sa_quarantine s)"
    and "AffinityPick W weighted pick q primaryID fallbackID auths s fs = (s', fs', Inr a)"
  shows "Some a \<in> set auths \<and> (weighted \<longrightarrow> 0 < authWeight (Some a)) \<and>
    request_ok (rq_model q) (rq_now q) (rq_excluded q) a \<and>
    bound (rq_now q) (sa_quarantine s) (quarantine_key (session_key q primaryID) (au_id a)) = None \<and>
    (second_key q primaryID fallbackID \<noteq> [] \<longrightarrow>
       bound (rq_now q) (sa_quarantine s) (quarantine_key (second_key q primaryID fallbackID) (au_id a)) = None)"
  by (rule affinity_pick_facts [OF assms])

theorem affinity_pick_sound_witness:
  "request_ok (rq_model (example_request 100)) 100 [] (prio_cred ''high'' ''5'') \<and>
   bound 100 (sa_quarantine new_affinity) (quarantine_key (session_key (example_request 100) ''user_1'') ''high'') = None"
proof -
  obtain s' fs' where p: "AffinityPick (alone 100) False RoundRobinPick (example_request 100) ''user_1'' [] low_high new_affinity
      example_rotation = (s', fs', Inr (prio_cred ''high'' ''5''))"
    by (rule example_pick)
  show ?thesis
    using affinity_pick_sound [OF round_robin.selector_axioms _ _ p] new_affinity_coherent(2)
    by (simp add: example_request_def)
qed

text \<open>The binding of a session, fresh at \<open>t\<close>.\<close>

definition settled_at :: "time \<Rightarrow> SessionAffinitySelector \<Rightarrow> string \<Rightarrow> string \<Rightarrow> duration \<Rightarrow> bool" where
  "settled_at t s k i ttl \<longleftrightarrow> 0 \<le> t \<and> coherent t (sa_cache s) \<and> sc_ttl (sa_cache s) = ttl \<and>
     (\<exists>al. bound t (sa_cache s) k = Some (i, al, t + ttl))"

text \<open>A request of the session, at a time at which the binding still lives, that may use its credential \<open>a\<close>.\<close>

definition session_request ::
  "string \<Rightarrow> string \<Rightarrow> time \<Rightarrow> SessionAffinitySelector \<Rightarrow> time \<Rightarrow> bool \<Rightarrow> pick_request \<Rightarrow> string \<Rightarrow> Auth option list \<Rightarrow> Auth \<Rightarrow> bool" where
  "session_request k primaryID t s t' weighted q fallbackID auths a \<longleftrightarrow>
     session_key q primaryID = k \<and> t \<le> t' \<and> t' < t + sc_ttl (sa_cache s) \<and>
     (\<forall>b. Some b \<in> set auths \<longrightarrow> au_id b \<noteq> []) \<and> coherent (rq_now q) (sa_quarantine s) \<and>
     find_auth (session_candidates weighted q k (second_key q primaryID fallbackID) auths (sa_quarantine s)) (au_id a) = Some a"

lemma pick_hits:
  assumes s: "settled_at t s k (au_id a) ttl" and p: "primaryID \<noteq> []" and r: "session_request k primaryID t s t' weighted q fallbackID auths a"
  shows "\<exists>s'. AffinityPick (alone t') weighted pick q primaryID fallbackID auths s fs = (s', fs, Inr a) \<and> settled_at t' s' k (au_id a) ttl"
proof -
  let ?f = "second_key q primaryID fallbackID"
  let ?as = "session_candidates weighted q k ?f auths (sa_quarantine s)"
  have r': "session_key q primaryID = k" "t \<le> t'" "t' < t + ttl" "\<forall>b. Some b \<in> set auths \<longrightarrow> au_id b \<noteq> []"
    "coherent (rq_now q) (sa_quarantine s)" "find_auth ?as (au_id a) = Some a"
    using r s by (auto simp: session_request_def settled_at_def)
  obtain al where b0: "0 \<le> t" "coherent t (sa_cache s)" "bound t (sa_cache s) k = Some (au_id a, al, t + ttl)" "sc_ttl (sa_cache s) = ttl"
    using s by (auto simp: settled_at_def)
  have k: "k \<noteq> []" using r'(1) by auto
  have ids: "\<forall>b \<in> set ?as. au_id b \<noteq> []" using session_candidates_ok(1) [OF r'(5)] r'(4) by blast
  have b: "bound t' (sa_cache s) k = Some (au_id a, al, t + ttl)" using b0(3) r'(3) by (simp add: binding_later [OF r'(2)])
  have c: "coherent t' (sa_cache s)" by (rule coherent_later [OF b0(2) r'(2)])
  obtain n1 c1 x where l: "lookup_session (alone t') k ?f ?as (0, sa_cache s) = ((n1, c1), x)"
    by (cases "lookup_session (alone t') k ?f ?as (0, sa_cache s)") auto
  note L = lookup_alone [OF c _ k ids l]
  have t0: "0 \<le> t'" using b0(1) r'(2) by simp
  then have x: "x = Some a" "session_at t' c1 k ?f (au_id a)" "sc_ttl c1 = ttl" using L b r'(6) b0(4) by (cases x; auto)+
  have sp: "session_pick (alone t') pick q k ?f ?as (0, sa_cache s) fs = ((n1, c1), fs, Inr a)" using l x(1) by (simp add: session_pick_def)
  obtain avail where av: "getAvailableAuthsAcrossPriorities (if weighted then positiveWeightAuths auths else auths)
      (rq_provider q) (rq_model q) (rq_now q) (rq_excluded q) = Inr avail"
    using r'(6) by (cases "getAvailableAuthsAcrossPriorities (if weighted then positiveWeightAuths auths else auths)
      (rq_provider q) (rq_model q) (rq_now q) (rq_excluded q)") (auto simp: session_candidates_def find_auth_def)
  have e: "?as = snd (excludeSessionQuarantine (rq_now q) k ?f avail (sa_quarantine s))" by (simp add: session_candidates_def av)
  define s' where "s' = s\<lparr>sa_cache := c1, sa_quarantine := fst (excludeSessionQuarantine (rq_now q) k ?f avail (sa_quarantine s))\<rparr>"
  have "AffinityPick (alone t') weighted pick q primaryID fallbackID auths s fs = (s', fs, Inr a)"
    using sp p av r'(1) by (simp add: AffinityPick_def Let_def split_def e s'_def)
  moreover have "settled_at t' s' k (au_id a) ttl" using x t0 by (auto simp: settled_at_def session_at_def s'_def)
  ultimately show ?thesis by blast
qed

lemma pick_kept:
  assumes "settled_at t s k (au_id a) ttl" "primaryID \<noteq> []" "session_request k primaryID t s t' weighted q fallbackID auths a"
    and "AffinityPick (alone t') weighted pick q primaryID fallbackID auths s fs = (s', fs', r)"
  shows "settled_at t' s' k (au_id a) ttl \<and> fs' = fs"
  using pick_hits [OF assms(1-3), of pick fs] unfolding assms(4) by blast

text \<open>Picks for the session one after the other, each within the lifetime the one before it gave the binding and with the
  credential \<open>i\<close> among its candidates.\<close>

inductive session_picks ::
  "'s strategy \<Rightarrow> string \<Rightarrow> string \<Rightarrow> string \<Rightarrow> time \<times> SessionAffinitySelector \<times> 's \<Rightarrow> time \<times> SessionAffinitySelector \<times> 's \<Rightarrow> bool"
  for pick k primaryID i st0 where
  none: "session_picks pick k primaryID i st0 st0"
| another: "session_picks pick k primaryID i st0 (t, s, fs) \<Longrightarrow>
    session_request k primaryID t s t' weighted q fallbackID auths b \<Longrightarrow> au_id b = i \<Longrightarrow>
    AffinityPick (alone t') weighted pick q primaryID fallbackID auths s fs = (s', fs', r) \<Longrightarrow>
    session_picks pick k primaryID i st0 (t', s', fs')"

lemma session_picks_settled:
  assumes "session_picks pick k primaryID i st0 st" "settled_at (fst st0) (fst (snd st0)) k i ttl" "primaryID \<noteq> []"
  shows "settled_at (fst st) (fst (snd st)) k i ttl \<and> snd (snd st) = snd (snd st0)"
  using assms
proof (induction rule: session_picks.induct)
  case none
  then show ?case by blast
next
  case (another t s fs t' weighted q fallbackID auths b s' fs' r)
  have IH: "settled_at t s k i ttl" "fs = snd (snd st0)"
    using another.IH [OF another.prems] unfolding fst_conv snd_conv by blast+
  have "settled_at t' s' k i ttl \<and> fs' = fs"
    using pick_kept [OF IH(1) [folded another.hyps(3)] another.prems(2) another.hyps(2,4)] unfolding another.hyps(3) by blast
  then show ?case unfolding fst_conv snd_conv IH(2) .
qed

text \<open>C27. A session stays where it is: after a pick for a session that could be moved, every later pick for it
  gives the same credential, even when others have a higher priority, and leaves the strategy untouched,
  as long as no request but those of the session steps in, each pick comes within the lifetime of the
  binding, which every pick renews, and each finds the credential among its candidates. A session cannot
  be moved when only its second identifier is known, or when its two identifiers are bound apart, both to
  the same credential or the second one to the credential picked.\<close>

theorem session_sticks:
  assumes "coherent now (sa_cache s)" "0 \<le> now" "primaryID \<noteq> []"
    and "\<forall>b. Some b \<in> set auths \<longrightarrow> au_id b \<noteq> []" "coherent (rq_now q) (sa_quarantine s)"
    and "AffinityPick (alone now) weighted pick0 q primaryID fallbackID auths s fs0 = (s1, fs1, Inr a)"
    and "movable now (sa_cache s) (session_key q primaryID) (second_key q primaryID fallbackID) (au_id a)"
    and "session_picks pick (session_key q primaryID) primaryID (au_id a) (now, s1, fs) (t, s2, fs2)"
    and "session_request (session_key q primaryID) primaryID t s2 t' weighted' q' fallbackID' auths' a'" "au_id a' = au_id a"
  shows "\<exists>s3. AffinityPick (alone t') weighted' pick q' primaryID fallbackID' auths' s2 fs2 = (s3, fs, Inr a')"
proof -
  let ?k = "session_key q primaryID" and ?f = "second_key q primaryID fallbackID"
  let ?as = "session_candidates weighted q ?k ?f auths (sa_quarantine s)"
  have ids: "\<forall>b \<in> set ?as. au_id b \<noteq> []" using session_candidates_ok(1) [OF assms(5)] assms(4) by blast
  obtain n where p: "session_pick (alone now) pick0 q ?k ?f ?as (0, sa_cache s) fs0 = ((n, sa_cache s1), fs1, Inr a)"
    by (rule AffinityPick_session [OF assms(3,6)])
  have "session_at now (sa_cache s1) ?k ?f (au_id a)" "sc_ttl (sa_cache s1) = sc_ttl (sa_cache s)"
    using session_pick_alone [OF assms(1,2) affinity_key_ne ids p assms(7)] by auto
  then have "settled_at now s1 ?k (au_id a) (sc_ttl (sa_cache s))" using assms(2) by (auto simp: session_at_def settled_at_def)
  then have "settled_at t s2 ?k (au_id a') (sc_ttl (sa_cache s))" "fs2 = fs"
    using session_picks_settled [OF assms(8), of "sc_ttl (sa_cache s)"] assms(3,10) by simp_all
  from pick_hits [OF this(1) assms(3,9), of pick fs2] this(2) show ?thesis by blast
qed

theorem session_sticks_witness:
  "\<exists>s1 s2 s3. AffinityPick (alone 100) False RoundRobinPick (example_request 100) ''user_1'' [] [hd low_high] new_affinity example_rotation =
       (s1, example_rotation\<lparr>rr_last_picked := [(''mixed:gpt-5'', ''low'')]\<rparr>, Inr (prio_cred ''low'' ''1'')) \<and>
     AffinityPick (alone 200) False RoundRobinPick (example_request 200) ''user_1'' [] low_high s1 example_rotation =
       (s2, example_rotation, Inr (prio_cred ''low'' ''1'')) \<and>
     AffinityPick (alone 300) False RoundRobinPick (example_request 300) ''user_1'' [] low_high s2 example_rotation =
       (s3, example_rotation, Inr (prio_cred ''low'' ''1''))"
proof -
  let ?r1 = "AffinityPick (alone 100) False RoundRobinPick (example_request 100) ''user_1'' [] [hd low_high] new_affinity example_rotation"
  let ?r2 = "AffinityPick (alone 200) False RoundRobinPick (example_request 200) ''user_1'' [] low_high (fst ?r1) example_rotation"
  let ?k = "session_key (example_request 100) ''user_1''" and ?low = "prio_cred ''low'' ''1''"
  have r: "snd ?r1 = (example_rotation\<lparr>rr_last_picked := [(''mixed:gpt-5'', ''low'')]\<rparr>, Inr ?low)" "snd ?r2 = (example_rotation, Inr ?low)"
    "sa_quarantine (fst ?r1) = sa_quarantine new_affinity" "sa_quarantine (fst ?r2) = sa_quarantine new_affinity"
    "sc_ttl (sa_cache (fst ?r1)) = 60 * minute" "sc_ttl (sa_cache (fst ?r2)) = 60 * minute" by code_simp+
  define s1 s2 where "s1 = fst ?r1" and "s2 = fst ?r2"
  have p: "?r1 = (s1, example_rotation\<lparr>rr_last_picked := [(''mixed:gpt-5'', ''low'')]\<rparr>, Inr ?low)"
    unfolding r(1) [symmetric] s1_def by (rule prod.collapse [symmetric])
  have p2: "AffinityPick (alone 200) False RoundRobinPick (example_request 200) ''user_1'' [] low_high s1 example_rotation = (s2, example_rotation, Inr ?low)"
    unfolding r(2) [symmetric] s1_def s2_def by (rule prod.collapse [symmetric])
  have w: "sa_quarantine s1 = sa_quarantine new_affinity" "sa_quarantine s2 = sa_quarantine new_affinity"
    "sc_ttl (sa_cache s1) = 60 * minute" "sc_ttl (sa_cache s2) = 60 * minute"
    unfolding s1_def s2_def by (fact r)+
  have ids: "\<forall>b. Some b \<in> set [hd low_high] \<longrightarrow> au_id b \<noteq> []" "\<forall>b. Some b \<in> set low_high \<longrightarrow> au_id b \<noteq> []"
    by (auto simp: low_high_def)
  have m: "movable 100 (sa_cache new_affinity) x y (au_id ?low)" for x y
    by (simp add: movable_def view_def new_affinity_unbound)
  have f: "find_auth (session_candidates False (example_request 200) ?k (second_key (example_request 200) ''user_1'' []) low_high (sa_quarantine new_affinity)) ''low'' = Some ?low"
    "find_auth (session_candidates False (example_request 300) ?k (second_key (example_request 300) ''user_1'' []) low_high (sa_quarantine new_affinity)) ''low'' = Some ?low"
    "session_key (example_request 200) ''user_1'' = ?k" "session_key (example_request 300) ''user_1'' = ?k" by code_simp+
  have q: "session_request ?k ''user_1'' 100 s1 200 False (example_request 200) [] low_high ?low"
    "session_request ?k ''user_1'' 200 s2 300 False (example_request 300) [] low_high ?low"
    unfolding session_request_def w f(3,4)
    using f(1,2) ids(2) new_affinity_coherent(2) [of 200] new_affinity_coherent(2) [of 300]
    by (simp_all add: example_request_def minute_def second_def)
  have "session_picks RoundRobinPick ?k ''user_1'' (au_id ?low) (100, s1, example_rotation) (200, s2, example_rotation)"
    by (rule session_picks.another [OF session_picks.none q(1) refl p2])
  from session_sticks [OF new_affinity_coherent(1) _ _ ids(1) new_affinity_coherent(2) p m this q(2) refl]
  obtain s3 where "AffinityPick (alone 300) False RoundRobinPick (example_request 300) ''user_1'' [] low_high s2 example_rotation = (s3, example_rotation, Inr ?low)"
    by auto
  with p p2 show ?thesis by blast
qed

text \<open>Picks of any session and results that are no failures, in any order.\<close>

inductive no_failure :: "'s strategy \<Rightarrow> time \<times> SessionAffinitySelector \<Rightarrow> time \<times> SessionAffinitySelector \<Rightarrow> bool"
  for pick st0 where
  nothing: "no_failure pick st0 st0"
| picked: "no_failure pick st0 (t, s) \<Longrightarrow> t \<le> rq_now q \<Longrightarrow>
    AffinityPick W weighted pick q primaryID fallbackID auths s fs = (s', fs', r) \<Longrightarrow> no_failure pick st0 (rq_now q, s')"
| succeeded: "no_failure pick st0 (t, s) \<Longrightarrow> t \<le> t' \<Longrightarrow> re_success res \<Longrightarrow>
    no_failure pick st0 (t', OnResult W J t' res mdProvider mdModel primaryID fallbackID s)"

lemma no_failure_keeps:
  assumes "no_failure pick st0 st" "coherent (fst st0) (sa_quarantine (snd st0))"
    and "bound (fst st0) (sa_quarantine (snd st0)) x = Some (i, al, ex)"
  shows "fst st0 \<le> fst st \<and> coherent (fst st) (sa_quarantine (snd st)) \<and>
    (fst st < ex \<longrightarrow> bound (fst st) (sa_quarantine (snd st)) x = Some (i, al, ex))"
  using assms
proof (induction rule: no_failure.induct)
  case nothing
  then show ?case by simp
next
  case (picked t s q W weighted primaryID fallbackID auths fs s' fs' r)
  then have IH: "fst st0 \<le> t" "coherent t (sa_quarantine s)" "t < ex \<longrightarrow> bound t (sa_quarantine s) x = Some (i, al, ex)" by simp_all
  have c: "coherent (rq_now q) (sa_quarantine s)" by (rule coherent_later [OF IH(2) picked.hyps(2)])
  have b: "rq_now q < ex \<longrightarrow> bound (rq_now q) (sa_quarantine s) x = Some (i, al, ex)"
    using IH(3) picked.hyps(2) by (simp add: binding_later [OF picked.hyps(2)])
  have "coherent (rq_now q) (sa_quarantine s') \<and> bound (rq_now q) (sa_quarantine s') = bound (rq_now q) (sa_quarantine s)"
    using picked.hyps(3) c exclude_answer [OF c] by (auto simp: AffinityPick_def Let_def split_def split: if_splits sum.splits)
  then show ?case using IH(1) b picked.hyps(2) by simp
next
  case (succeeded t s t' res W J mdProvider mdModel primaryID fallbackID)
  then have IH: "fst st0 \<le> t" "coherent t (sa_quarantine s)" "t < ex \<longrightarrow> bound t (sa_quarantine s) x = Some (i, al, ex)" by simp_all
  have "sa_quarantine (OnResult W J t' res mdProvider mdModel primaryID fallbackID s) = sa_quarantine s"
    using succeeded.hyps(3) by (simp add: OnResult_def Let_def split_def)
  then show ?case using IH coherent_later [OF IH(2) succeeded.hyps(2)] succeeded.hyps(2) by (simp add: binding_later [OF succeeded.hyps(2)])
qed

text \<open>C28. After a failure that counts against its credential, the credential is not picked for the
  session until the announced delay, five seconds without one, has passed, whatever picks and successes
  of any session come in between and whatever they do to the bindings. A further failure is left out: it may
  shorten the delay.\<close>

theorem failed_auth_avoided:
  assumes "selector pick usable" "primaryID \<noteq> []" "coherent now (sa_cache s)"
    and "coherent now (sa_quarantine s)" "singletons now (sa_quarantine s)" "0 \<le> now"
    and "re_auth_id res \<noteq> []" "\<not> re_success res" "re_error res = None \<or> \<not> shouldSkipCredentialCooldown J (re_error res)"
    and "s1 = OnResult (alone now) J now res (rq_provider q) (rq_model q) primaryID fallbackID s"
    and "rq_provider q \<noteq> []" "rq_model q \<noteq> []"
    and "no_failure pick' (now, s1) (t, s2)" "t \<le> rq_now q" "rq_now q < now + quarantine_delay (re_retry_after res)"
    and "AffinityPick W weighted pick q primaryID fallbackID auths s2 fs = (s3, fs', Inr a)"
  shows "au_id a \<noteq> re_auth_id res"
proof
  assume i: "au_id a = re_auth_id res"
  let ?k = "session_key q primaryID" and ?f = "second_key q primaryID fallbackID"
  obtain st aliases where r: "release_session (alone now) ?k ?f (re_auth_id res) (0, sa_cache s) = (st, aliases)"
    by (cases "release_session (alone now) ?k ?f (re_auth_id res) (0, sa_cache s)")
  let ?keys = "if aliases = [] then [?k, ?f] else aliases"
  have q1: "sa_quarantine s1 = quarantineSessionAuth now ?keys (re_auth_id res) (re_retry_after res) (sa_quarantine s)"
    unfolding assms(10) using assms(2,7-9,11,12) r by (auto simp: OnResult_def Let_def)
  note a1 = quarantine_all [OF assms(4,5,7,6), of ?keys "re_retry_after res"]
  have c: "coherent now (sa_quarantine s1)" using a1 unfolding q1 by blast
  have open_: "bound (rq_now q) (sa_quarantine s2) (quarantine_key x (au_id a)) \<noteq> None \<and> coherent t (sa_quarantine s2)"
    if x: "x \<in> set ?keys" "x \<noteq> []" for x
  proof -
    obtain al where "bound now (sa_quarantine s1) (quarantine_key x (re_auth_id res)) =
        Some (re_auth_id res, al, now + quarantine_delay (re_retry_after res))"
      using a1 x unfolding q1 by blast
    then have "coherent t (sa_quarantine s2)" "t < now + quarantine_delay (re_retry_after res) \<longrightarrow>
        bound t (sa_quarantine s2) (quarantine_key x (re_auth_id res)) = Some (re_auth_id res, al, now + quarantine_delay (re_retry_after res))"
      using no_failure_keeps [OF assms(13), of "quarantine_key x (re_auth_id res)"] c by auto
    then show ?thesis using assms(14,15) unfolding i by (simp add: binding_later [OF assms(14)])
  qed
  have k: "?k \<in> set ?keys \<or> (?f \<noteq> [] \<and> ?f \<in> set ?keys)" by (rule release_keys [OF assms(3) affinity_key_ne r])
  then have "coherent t (sa_quarantine s2)" using open_ affinity_key_ne by blast
  from affinity_pick_facts [OF assms(1,2) coherent_later [OF this assms(14)] assms(16)]
  show False using open_ k affinity_key_ne by blast
qed

definition affinity_failure :: Result where
  "affinity_failure = \<lparr>re_auth_id = ''high'', re_provider = ''codex'', re_model = ''gpt-5'', re_success = False, re_retry_after = None,
     re_credential_scope = False, re_error = None, re_skip_observation = False\<rparr>"

definition no_json :: json_lib where
  "no_json = \<lparr>json_valid = (\<lambda>_. False), json_get = (\<lambda>_ _. [])\<rparr>"

theorem failed_auth_avoided_witness:
  "\<exists>s' fs' a. AffinityPick (alone 200) False RoundRobinPick (example_request 200) ''user_1'' [] low_high
      (fst (AffinityPick (alone 150) False RoundRobinPick (example_request 150) ''user_2'' [] low_high
        (OnResult (alone 100) no_json 100 affinity_failure ''mixed'' ''gpt-5(high)'' ''user_1'' [] new_affinity) example_rotation)) example_rotation =
      (s', fs', Inr a) \<and> au_id a \<noteq> ''high''"
proof -
  let ?s = "OnResult (alone 100) no_json 100 affinity_failure ''mixed'' ''gpt-5(high)'' ''user_1'' [] new_affinity"
  let ?p = "AffinityPick (alone 150) False RoundRobinPick (example_request 150) ''user_2'' [] low_high ?s example_rotation"
  let ?r = "AffinityPick (alone 200) False RoundRobinPick (example_request 200) ''user_1'' [] low_high (fst ?p) example_rotation"
  have "snd (snd ?r) = Inr (prio_cred ''low'' ''1'')" by code_simp
  then obtain s' fs' where p: "?r = (s', fs', Inr (prio_cred ''low'' ''1''))" by (cases ?r) auto
  have q: "rq_provider (example_request n) = ''mixed''" "rq_model (example_request n) = ''gpt-5(high)''" "rq_now (example_request n) = n" for n
    by (simp_all add: example_request_def)
  obtain s2 fs2 r2 where p2: "?p = (s2, fs2, r2)" by (cases ?p)
  have "no_failure RoundRobinPick (100, ?s) (rq_now (example_request 150), s2)"
    by (rule no_failure.picked [OF no_failure.nothing _ p2]) (simp add: q)
  then have n: "no_failure RoundRobinPick (100, ?s) (150, fst ?p)" by (simp add: q p2)
  have g: "singletons 100 (sa_quarantine new_affinity)" by (simp add: singletons_def new_affinity_unbound)
  have "re_auth_id affinity_failure \<noteq> []" "\<not> re_success affinity_failure"
    "re_error affinity_failure = None \<or> \<not> shouldSkipCredentialCooldown no_json (re_error affinity_failure)" "''user_1'' \<noteq> []"
    by code_simp+
  moreover have "(200::time) < 100 + quarantine_delay (re_retry_after affinity_failure)"
    by (simp add: affinity_failure_def quarantine_delay_def second_def)
  moreover have "?s = OnResult (alone 100) no_json 100 affinity_failure (rq_provider (example_request 200)) (rq_model (example_request 200)) ''user_1'' [] new_affinity"
    by (simp only: q)
  ultimately have "au_id (prio_cred ''low'' ''1'') \<noteq> re_auth_id affinity_failure"
    by - (rule failed_auth_avoided [where now = 100 and t = 150 and q = "example_request 200" and J = no_json and res = affinity_failure
          and s = new_affinity and ?s1.0 = ?s, OF round_robin.selector_axioms _ new_affinity_coherent g _ _ _ _ _ _ _ n _ _ p]; simp add: q)
  then show ?thesis using p by auto
qed

text \<open>Priorities decide only where no binding does: the credential picked for a session is the one
  its first identifier is bound to, the one its second identifier is bound to, or of the highest
  priority among the candidates the session may use.\<close>

theorem affinity_priority:
  assumes "selector pick usable" "primaryID \<noteq> []" "coherent now (sa_cache s)" "0 \<le> now" "coherent (rq_now q) (sa_quarantine s)"
    and "\<forall>b. Some b \<in> set auths \<longrightarrow> au_id b \<noteq> []"
    and "AffinityPick (alone now) weighted pick q primaryID fallbackID auths s fs = (s', fs', Inr a)"
  shows "map_option fst (bound now (sa_cache s) (session_key q primaryID)) = Some (au_id a) \<or>
    map_option fst (bound now (sa_cache s) (second_key q primaryID fallbackID)) = Some (au_id a) \<or>
    (\<forall>b \<in> set (session_candidates weighted q (session_key q primaryID) (second_key q primaryID fallbackID) auths (sa_quarantine s)).
       authPriority b \<le> authPriority a)"
proof -
  let ?as = "session_candidates weighted q (session_key q primaryID) (second_key q primaryID fallbackID) auths (sa_quarantine s)"
  have ids: "\<forall>b \<in> set ?as. au_id b \<noteq> []" using session_candidates_ok(1) [OF assms(5)] assms(6) by blast
  obtain n where p: "session_pick (alone now) pick q (session_key q primaryID) (second_key q primaryID fallbackID) ?as
      (0, sa_cache s) fs = ((n, sa_cache s'), fs', Inr a)"
    by (rule AffinityPick_session [OF assms(2,7)])
  have "map_option fst (view now (sa_cache s) (session_key q primaryID)) = Some (au_id a) \<or>
    map_option fst (view now (sa_cache s) (second_key q primaryID fallbackID)) = Some (au_id a) \<or> a \<in> set (highestPriorityAuths ?as)"
    by (rule session_pick_choice [OF assms(3,4) affinity_key_ne ids p]) (use selector.pick_from [OF assms(1)] in blast)
  then show ?thesis unfolding view_fst by (auto simp: highestPriorityAuths_eq top_candidates_def)
qed

theorem affinity_priority_witness:
  "list_all (\<lambda>b. authPriority b \<le> authPriority (prio_cred ''high'' ''5''))
     (session_candidates False (example_request 100) (session_key (example_request 100) ''user_1'') [] low_high (sa_quarantine new_affinity))"
proof -
  obtain s' fs' where p: "AffinityPick (alone 100) False RoundRobinPick (example_request 100) ''user_1'' [] low_high new_affinity
      example_rotation = (s', fs', Inr (prio_cred ''high'' ''5''))"
    by (rule example_pick)
  have f: "second_key (example_request 100) ''user_1'' [] = []" by (simp add: fallback_key_def)
  have ids: "\<forall>b. Some b \<in> set low_high \<longrightarrow> au_id b \<noteq> []" by (auto simp: low_high_def)
  show ?thesis
    using affinity_priority [OF round_robin.selector_axioms _ new_affinity_coherent(1) _ new_affinity_coherent(2) ids p]
    by (simp add: f new_affinity_unbound list_all_iff)
qed




definition affinity_success :: "string \<Rightarrow> Result" where
  "affinity_success i = affinity_failure\<lparr>re_auth_id := i, re_success := True\<rparr>"


section \<open>Findings\<close>

text \<open>The identifiers of a session, and a session whose two identifiers are bound apart: the first to
  ''high'', the second to ''low''.\<close>

definition first_key :: string where
  "first_key = affinity_key ''mixed'' ''user_1'' ''gpt-5''"

definition other_key :: string where
  "other_key = affinity_key ''mixed'' ''user_2'' ''gpt-5''"

definition split_affinity :: SessionAffinitySelector where
  "split_affinity = new_affinity\<lparr>sa_cache := SetBinding 50 other_key ''low'' (SetBinding 50 first_key ''high'' (sa_cache new_affinity))\<rparr>"

text \<open>When the first credential is gone and the strategy picks the one the second identifier is bound
  to, the merge fails three times although nobody else is there: the group to be moved must not take
  the second identifier, which is live in the other group and, bound to the credential picked, was not
  deleted. The session stays bound to the credential that is gone.\<close>

theorem split_with_picked_stays_split:
  "(case AffinityPick (alone 100) False RoundRobinPick (example_request 100) ''user_1'' ''user_2'' [hd low_high] split_affinity example_rotation of
      (s', _, r) \<Rightarrow> (r, map_option fst (bound 100 (sa_cache s') first_key))) = (Inr (prio_cred ''low'' ''1''), Some ''high'')"
  by code_simp

text \<open>The same when both identifiers are bound, in two groups, to the credential that is gone: the groups
  count as one, and the move of the first may not take the identifier of the second.\<close>

theorem twice_bound_stays_bound:
  "(case AffinityPick (alone 100) False RoundRobinPick (example_request 100) ''user_1'' ''user_2'' [hd low_high]
      (split_affinity\<lparr>sa_cache := SetBinding 60 other_key ''high'' (sa_cache split_affinity)\<rparr>) example_rotation of
      (s', _, r) \<Rightarrow> (r, map_option fst (bound 100 (sa_cache s') first_key), map_option fst (bound 100 (sa_cache s') other_key))) =
   (Inr (prio_cred ''low'' ''1''), Some ''high'', Some ''high'')"
  by code_simp

text \<open>A second failure without an announced delay ends a quarantine of an hour after five seconds.\<close>

theorem quarantine_shortened:
  "map_option (snd \<circ> snd) (bound 60 (quarantineSessionAuth 60 [first_key] ''high'' None
      (quarantineSessionAuth 50 [first_key] ''high'' (Some (60 * minute)) (sa_quarantine new_affinity))) (quarantine_key first_key ''high'')) =
   Some (60 + 5 * second)"
  by code_simp

text \<open>A late success with two identifiers takes a session over that another credential holds by now.\<close>

theorem late_success_takes_over:
  "map_option fst (bound 100 (sa_cache split_affinity) first_key) = Some ''high'' \<and>
   map_option fst (bound 100 (sa_cache (OnResult (alone 100) no_json 100 (affinity_success ''low'') ''mixed'' ''gpt-5'' ''user_1'' ''user_2''
     split_affinity)) first_key) = Some ''low''"
  by code_simp

end
