(* ===== verification/Scheduler.thy ===== *)
theory Scheduler
  imports Selectors Model_Registry
begin

text \<open>
  The scheduler of \<open>sdk/cliproxy/auth/scheduler.go\<close>: for each provider and model a shard that
  keeps the credentials sorted into ready buckets by priority and a queue of blocked ones, so that a
  pick needs no pass over all credentials. A shard holds pointers to its entries in several places;
  here the places hold the identifier, under which \<open>md_entries\<close> has the one entry. The mutex makes
  a call one step; \<open>clk\<close> gives its readings of the clock in their order.
\<close>

section \<open>Data\<close>

datatype schedulerStrategy = StrategyCurrent | StrategyCustom | StrategyRoundRobin | StrategyFillFirst | StrategyWeightedRoundRobin

datatype scheduledState = ScheduledReady | ScheduledCooldown | ScheduledBlocked | ScheduledDisabled

record scheduledAuthMeta =
  sm_auth :: Auth
  sm_provider_key :: string
  sm_priority :: int
  sm_weight :: int
  sm_websocket :: bool
  sm_models :: "string list"

text \<open>The field \<open>auth\<close> of an entry is that of its metadata.\<close>

record scheduledAuth =
  sd_meta :: scheduledAuthMeta
  sd_state :: scheduledState
  sd_next_retry_at :: time

abbreviation sd_auth :: "scheduledAuth \<Rightarrow> Auth" where
  "sd_auth e \<equiv> sm_auth (sd_meta e)"

record readyView =
  rv_flat :: "string list"
  rv_last_picked :: string
  rv_weighted :: smoothWeightedState

record readyBucket =
  bk_all :: readyView
  bk_ws :: readyView

record modelScheduler =
  md_key :: string
  md_entries :: "(string, scheduledAuth) gomap"
  md_order :: "int list"
  md_ready :: "(int, readyBucket) gomap"
  md_blocked :: "string list"

record providerScheduler =
  ps_key :: string
  ps_auths :: "(string, scheduledAuthMeta) gomap"
  ps_shards :: "(string, modelScheduler) gomap"

record authScheduler =
  sh_strategy :: schedulerStrategy
  sh_providers :: "(string, providerScheduler) gomap"
  sh_auth_providers :: "(string, string) gomap"
  sh_mixed_cursors :: "(string, nat) gomap"
  sh_mixed_weighted :: "(string, smoothWeightedState) gomap"

type_synonym clock = "nat \<Rightarrow> time"

type_synonym predicate = "scheduledAuth \<Rightarrow> bool"

datatype selector_kind = NoSelector | RoundRobinKind | FillFirstKind | WeightedKind | OtherKind

definition selectorStrategy :: "selector_kind \<Rightarrow> schedulerStrategy" where
  "selectorStrategy k = (case k of FillFirstKind \<Rightarrow> StrategyFillFirst | WeightedKind \<Rightarrow> StrategyWeightedRoundRobin
     | NoSelector \<Rightarrow> StrategyRoundRobin | RoundRobinKind \<Rightarrow> StrategyRoundRobin | OtherKind \<Rightarrow> StrategyCustom)"

definition newAuthScheduler :: "selector_kind \<Rightarrow> authScheduler" where
  "newAuthScheduler k = \<lparr>sh_strategy = selectorStrategy k, sh_providers = [], sh_auth_providers = [],
     sh_mixed_cursors = [], sh_mixed_weighted = []\<rparr>"

definition setSelector :: "selector_kind \<Rightarrow> authScheduler \<Rightarrow> authScheduler" where
  "setSelector k s = s\<lparr>sh_strategy := selectorStrategy k, sh_mixed_cursors := [], sh_mixed_weighted := []\<rparr>"

section \<open>The entries of a view\<close>

definition view_entries :: "modelScheduler \<Rightarrow> readyView \<Rightarrow> scheduledAuth list" where
  "view_entries m v = somes (map (mget (md_entries m)) (rv_flat v))"

definition entry_id :: "scheduledAuth \<Rightarrow> string" where
  "entry_id e = au_id (sd_auth e)"

definition scheduledWeightVectorMatching :: "scheduledAuth list \<Rightarrow> predicate \<Rightarrow> (string, int) gomap" where
  "scheduledWeightVectorMatching entries pred =
     foldl (\<lambda>w e. if sm_weight (sd_meta e) \<le> 0 \<or> \<not> pred e then w else mput (entry_id e) (sm_weight (sd_meta e)) w) [] entries"

definition scheduledWeightVector :: "scheduledAuth list \<Rightarrow> (string, int) gomap" where
  "scheduledWeightVector entries = scheduledWeightVectorMatching entries (\<lambda>_. True)"

section \<open>Rebuilding the indexes\<close>

text \<open>What is kept of a view over a rebuild: the rotation, and the credits unless a weight changed.\<close>

definition restoreReadyViewCursors :: "modelScheduler \<Rightarrow> readyView \<Rightarrow> readyView \<Rightarrow> readyView" where
  "restoreReadyViewCursors m old view0 =
     (let view = view0\<lparr>rv_last_picked := rv_last_picked old\<rparr>;
          weights = scheduledWeightVector (view_entries m view)
      in if sw_current (rv_weighted old) = [] \<or> weightsConfigChanged (sw_weights (rv_weighted old)) weights then view
         else view\<lparr>rv_weighted :=
           \<lparr>sw_current = foldl (\<lambda>c e. case mget (sw_current (rv_weighted old)) (entry_id e) of
                None \<Rightarrow> c | Some v \<Rightarrow> mput (entry_id e) v c) [] (view_entries m view),
            sw_weights = weights\<rparr>\<rparr>)"

definition buildReadyView :: "scheduledAuth list \<Rightarrow> readyView" where
  "buildReadyView entries = \<lparr>rv_flat = map entry_id entries, rv_last_picked = [], rv_weighted = \<lparr>sw_current = [], sw_weights = []\<rparr>\<rparr>"

definition buildReadyBucket :: "scheduledAuth list \<Rightarrow> readyBucket" where
  "buildReadyBucket entries =
     \<lparr>bk_all = buildReadyView entries, bk_ws = buildReadyView (filter (\<lambda>e. sm_websocket (sd_meta e)) entries)\<rparr>"

definition blocked_before :: "scheduledAuth \<Rightarrow> scheduledAuth \<Rightarrow> bool" where
  "blocked_before l r =
     (if sd_next_retry_at l = sd_next_retry_at r then entry_id l < entry_id r
      else if sd_next_retry_at l = 0 then False
      else if sd_next_retry_at r = 0 then True
      else sd_next_retry_at l < sd_next_retry_at r)"

text \<open>The buckets of the ready entries by priority.\<close>

definition bucket_step :: "(int, scheduledAuth list) gomap \<Rightarrow> scheduledAuth \<Rightarrow> (int, scheduledAuth list) gomap" where
  "bucket_step b e =
     (if sd_state e = ScheduledReady
      then mput (sm_priority (sd_meta e)) (mget_or [] b (sm_priority (sd_meta e)) @ [e]) b else b)"

definition ready_bucket :: "modelScheduler \<Rightarrow> int \<Rightarrow> scheduledAuth list \<Rightarrow> readyBucket" where
  "ready_bucket m priority entries =
     (let bucket = buildReadyBucket (sort_slice (\<lambda>a b. entry_id a < entry_id b) entries) in
      case mget (md_ready m) priority of
        None \<Rightarrow> bucket
      | Some old \<Rightarrow> \<lparr>bk_all = restoreReadyViewCursors m (bk_all old) (bk_all bucket),
                     bk_ws = restoreReadyViewCursors m (bk_ws old) (bk_ws bucket)\<rparr>)"

definition rebuildIndexesLocked :: "modelScheduler \<Rightarrow> modelScheduler" where
  "rebuildIndexesLocked m =
     (let entries = map snd (md_entries m);
          buckets = foldl bucket_step [] entries
      in m\<lparr>md_ready := map (\<lambda>(p, es). (p, ready_bucket m p es)) buckets,
           md_order := sort_slice (\<lambda>a b. b < a) (mkeys buckets),
           md_blocked := map entry_id (sort_slice blocked_before
             (filter (\<lambda>e. sd_state e = ScheduledCooldown \<or> sd_state e = ScheduledBlocked) entries))\<rparr>)"

section \<open>Entries\<close>

text \<open>The switch that gives an entry its state, written twice in the source.\<close>

definition classify :: "Auth \<Rightarrow> string \<Rightarrow> time \<Rightarrow> scheduledState \<times> time" where
  "classify a modelKey now =
     (let (blocked, reason, nxt) = isAuthBlockedForModel (Some a) modelKey now in
      if \<not> blocked then (ScheduledReady, 0)
      else if reason = blockReasonCooldown then (ScheduledCooldown, nxt)
      else if reason = blockReasonDisabled then (ScheduledDisabled, 0)
      else (ScheduledBlocked, nxt))"

definition scheduled :: "scheduledAuthMeta \<Rightarrow> string \<Rightarrow> time \<Rightarrow> scheduledAuth" where
  "scheduled meta modelKey now =
     (let (state, nxt) = classify (sm_auth meta) modelKey now
      in \<lparr>sd_meta = meta, sd_state = state, sd_next_retry_at = nxt\<rparr>)"

definition same_place :: "scheduledAuth \<Rightarrow> scheduledAuth \<Rightarrow> bool" where
  "same_place old e \<longleftrightarrow> sd_state old = sd_state e \<and> sd_next_retry_at old = sd_next_retry_at e \<and>
     sm_priority (sd_meta old) = sm_priority (sd_meta e) \<and> sm_websocket (sd_meta old) = sm_websocket (sd_meta e)"

definition upsertEntryLocked :: "scheduledAuthMeta \<Rightarrow> time \<Rightarrow> modelScheduler \<Rightarrow> modelScheduler" where
  "upsertEntryLocked meta now m =
     (let authID = au_id (sm_auth meta);
          e = scheduled meta (md_key m) now;
          m' = m\<lparr>md_entries := mput authID e (md_entries m)\<rparr>
      in case mget (md_entries m) authID of
           Some old \<Rightarrow> if same_place old e then m' else rebuildIndexesLocked m'
         | None \<Rightarrow> rebuildIndexesLocked m')"

definition removeEntryLocked :: "string \<Rightarrow> modelScheduler \<Rightarrow> modelScheduler" where
  "removeEntryLocked authID m =
     (if authID = [] \<or> mget (md_entries m) authID = None then m
      else rebuildIndexesLocked (m\<lparr>md_entries := mdel authID (md_entries m)\<rparr>))"

definition promote_step :: "string \<Rightarrow> time \<Rightarrow> (string, scheduledAuth) gomap \<times> bool \<Rightarrow> string \<Rightarrow> (string, scheduledAuth) gomap \<times> bool" where
  "promote_step modelKey now acc authID =
     (let (entries, changed) = acc in
      case mget entries authID of None \<Rightarrow> acc
      | Some e \<Rightarrow>
          if sd_next_retry_at e = 0 \<or> now < sd_next_retry_at e then acc
          else (mput authID (scheduled (sd_meta e) modelKey now) entries, True))"

definition promoteExpiredLocked :: "time \<Rightarrow> modelScheduler \<Rightarrow> modelScheduler" where
  "promoteExpiredLocked now m =
     (let (entries, changed) = foldl (promote_step (md_key m) now) (md_entries m, False) (md_blocked m);
          m' = m\<lparr>md_entries := entries\<rparr>
      in if changed then rebuildIndexesLocked m' else m')"

section \<open>Picking from a view\<close>

definition pickFirst :: "modelScheduler \<Rightarrow> predicate \<Rightarrow> readyView \<Rightarrow> scheduledAuth option" where
  "pickFirst m pred v = find pred (view_entries m v)"

definition scheduledSuccessorIndex :: "scheduledAuth list \<Rightarrow> string \<Rightarrow> nat" where
  "scheduledSuccessorIndex entries lastID =
     (if lastID = [] then 0
      else let i = search_from (\<lambda>i. lastID < entry_id (entries ! i)) 0 (length entries) in
        if i \<ge> length entries then 0 else i)"

definition pickRoundRobin :: "modelScheduler \<Rightarrow> predicate \<Rightarrow> readyView \<Rightarrow> readyView \<times> scheduledAuth option" where
  "pickRoundRobin m pred v =
     (let flat = view_entries m v; start = scheduledSuccessorIndex flat (rv_last_picked v) in
      case find pred (map (\<lambda>offset. flat ! ((start + offset) mod length flat)) [0..<length flat]) of
        None \<Rightarrow> (v, None)
      | Some e \<Rightarrow> (v\<lparr>rv_last_picked := entry_id e\<rparr>, Some e))"

text \<open>The loop state: the best entry with its credit, the total weight and the credits.\<close>

definition scheduled_step ::
  "predicate \<Rightarrow> (scheduledAuth \<times> int) option \<times> int \<times> (string, int) gomap \<Rightarrow> scheduledAuth \<Rightarrow>
   (scheduledAuth \<times> int) option \<times> int \<times> (string, int) gomap" where
  "scheduled_step pred acc e =
     (let (best, totalWeight, current) = acc; w = sm_weight (sd_meta e) in
      if w \<le> 0 \<or> \<not> pred e then acc
      else let credit = saturatingAddInt64 (mget_or 0 current (entry_id e)) w in
        (case best of None \<Rightarrow> Some (e, credit)
         | Some (_, b) \<Rightarrow> if credit > b then Some (e, credit) else best,
         saturatingAddInt64 totalWeight w,
         mput (entry_id e) credit current))"

definition pickSmoothWeightedScheduled ::
  "scheduledAuth list \<Rightarrow> (string, int) gomap \<Rightarrow> predicate \<Rightarrow> scheduledAuth option \<times> (string, int) gomap" where
  "pickSmoothWeightedScheduled entries current0 pred =
     (case foldl (scheduled_step pred) (None, 0, current0) entries of
        (None, _, current) \<Rightarrow> (None, current)
      | (Some (p, _), totalWeight, current) \<Rightarrow>
          (Some p, mput (entry_id p) (saturatingAddInt64 (mget_or 0 current (entry_id p)) (- totalWeight)) current))"

text \<open>Preparing and picking, as the shard and the mixed pick do it.\<close>

definition weighted_pick :: "scheduledAuth list \<Rightarrow> predicate \<Rightarrow> smoothWeightedState \<Rightarrow> smoothWeightedState \<times> scheduledAuth option" where
  "weighted_pick entries pred st =
     (let st1 = prepare (scheduledWeightVectorMatching entries pred) st;
          (picked, current) = pickSmoothWeightedScheduled entries (sw_current st1) pred
      in (st1\<lparr>sw_current := current\<rparr>, picked))"

definition pickWeighted :: "modelScheduler \<Rightarrow> predicate \<Rightarrow> readyView \<Rightarrow> readyView \<times> scheduledAuth option" where
  "pickWeighted m pred v =
     (if rv_flat v = [] then (v, None)
      else let (st, picked) = weighted_pick (view_entries m v) pred (rv_weighted v) in (v\<lparr>rv_weighted := st\<rparr>, picked))"

section \<open>Picking from a shard\<close>

definition has_ready :: "modelScheduler \<Rightarrow> predicate \<Rightarrow> (readyBucket \<Rightarrow> readyView) \<Rightarrow> int \<Rightarrow> bool" where
  "has_ready m pred view p = (case mget (md_ready m) p of None \<Rightarrow> False | Some b \<Rightarrow> pickFirst m pred (view b) \<noteq> None)"

definition highestReadyPriorityLocked :: "bool \<Rightarrow> predicate \<Rightarrow> modelScheduler \<Rightarrow> int option" where
  "highestReadyPriorityLocked preferWebsocket pred m =
     (case (if preferWebsocket then find (has_ready m pred bk_ws) (md_order m) else None) of
        Some p \<Rightarrow> Some p
      | None \<Rightarrow> find (has_ready m pred bk_all) (md_order m))"

definition use_ws :: "modelScheduler \<Rightarrow> bool \<Rightarrow> predicate \<Rightarrow> readyBucket \<Rightarrow> bool" where
  "use_ws m preferWebsocket pred b \<longleftrightarrow> preferWebsocket \<and> pickFirst m pred (bk_ws b) \<noteq> None"

definition pick_from_view :: "modelScheduler \<Rightarrow> schedulerStrategy \<Rightarrow> predicate \<Rightarrow> readyView \<Rightarrow> readyView \<times> scheduledAuth option" where
  "pick_from_view m strategy pred v =
     (case strategy of
        StrategyFillFirst \<Rightarrow> (v, pickFirst m pred v)
      | StrategyWeightedRoundRobin \<Rightarrow> pickWeighted m pred v
      | _ \<Rightarrow> pickRoundRobin m pred v)"

definition pickReadyAtPriorityLocked ::
  "bool \<Rightarrow> int \<Rightarrow> schedulerStrategy \<Rightarrow> predicate \<Rightarrow> modelScheduler \<Rightarrow> modelScheduler \<times> Auth option" where
  "pickReadyAtPriorityLocked preferWebsocket priority strategy pred m =
     (case mget (md_ready m) priority of
        None \<Rightarrow> (m, None)
      | Some b \<Rightarrow>
          let ws = use_ws m preferWebsocket pred b;
              (v, picked) = pick_from_view m strategy pred (if ws then bk_ws b else bk_all b);
              b' = (if ws then b\<lparr>bk_ws := v\<rparr> else b\<lparr>bk_all := v\<rparr>)
          in (m\<lparr>md_ready := mput priority b' (md_ready m)\<rparr>, map_option sd_auth picked))"

definition pickReadyLocked ::
  "time \<Rightarrow> bool \<Rightarrow> schedulerStrategy \<Rightarrow> predicate \<Rightarrow> modelScheduler \<Rightarrow> modelScheduler \<times> Auth option" where
  "pickReadyLocked now preferWebsocket strategy pred m0 =
     (let m = promoteExpiredLocked now m0 in
      case highestReadyPriorityLocked preferWebsocket pred m of
        None \<Rightarrow> (m, None)
      | Some p \<Rightarrow> pickReadyAtPriorityLocked preferWebsocket p strategy pred m)"

definition readyCountAtPriorityLocked :: "bool \<Rightarrow> int \<Rightarrow> predicate \<Rightarrow> modelScheduler \<Rightarrow> nat" where
  "readyCountAtPriorityLocked preferWebsocket priority pred m =
     (case mget (md_ready m) priority of
        None \<Rightarrow> 0
      | Some b \<Rightarrow> length (filter pred (view_entries m (if use_ws m preferWebsocket pred b then bk_ws b else bk_all b))))"

definition summary_step :: "predicate \<Rightarrow> nat \<times> nat \<times> time \<Rightarrow> scheduledAuth \<Rightarrow> nat \<times> nat \<times> time" where
  "summary_step pred acc e =
     (let (matched, cooldownCount, earliest) = acc in
      if \<not> pred e then acc
      else if sd_state e \<noteq> ScheduledCooldown then (matched + 1, cooldownCount, earliest)
      else (matched + 1, cooldownCount + 1,
        if sd_next_retry_at e \<noteq> 0 \<and> (earliest = 0 \<or> sd_next_retry_at e < earliest) then sd_next_retry_at e else earliest))"

definition availabilitySummaryLocked :: "predicate \<Rightarrow> modelScheduler \<Rightarrow> nat \<times> nat \<times> time" where
  "availabilitySummaryLocked pred m = foldl (summary_step pred) (0, 0, 0) (map snd (md_entries m))"

definition summary_error :: "time \<Rightarrow> string \<Rightarrow> string \<Rightarrow> nat \<times> nat \<times> time \<Rightarrow> pick_error" where
  "summary_error now model providerForError summary =
     (let (matched, cooldownCount, earliest) = summary in
      if matched = 0 then AuthError (auth_error ''auth_not_found'' ''no auth available'')
      else if cooldownCount = matched \<and> earliest \<noteq> 0
        then newModelCooldownError model providerForError (max 0 (time_sub earliest now))
      else AuthError (auth_error ''auth_unavailable'' ''no auth available''))"

definition unavailableErrorLocked :: "time \<Rightarrow> string \<Rightarrow> string \<Rightarrow> predicate \<Rightarrow> modelScheduler \<Rightarrow> pick_error" where
  "unavailableErrorLocked now provider model pred m =
     summary_error now model (if provider = ''mixed'' then [] else provider) (availabilitySummaryLocked pred m)"

section \<open>Providers\<close>

definition OpenAICompatibleProviderKey :: "string \<Rightarrow> string" where
  "OpenAICompatibleProviderKey name0 =
     (let name = to_lower (trim_space name0) in
      if name = [] then ''openai-compatibility''
      else if name = ''openai-compatibility'' \<or> has_prefix name ''openai-compatible-'' then name
      else ''openai-compatible-'' @ name)"

definition executorKeyFromAuth :: "Auth \<Rightarrow> string" where
  "executorKeyFromAuth a =
     (let routeChannel = trim_space (au_route_channel a);
          providerKey = trim_space (mget_or [] (au_attributes a) ''provider_key'');
          compatName = trim_space (mget_or [] (au_attributes a) ''compat_name'')
      in if routeChannel \<noteq> [] then to_lower routeChannel
         else if compatName \<noteq> [] then OpenAICompatibleProviderKey (if providerKey = [] then compatName else providerKey)
         else if equal_fold (trim_space (au_provider a)) ''openai-compatibility'' then
           OpenAICompatibleProviderKey (let label = trim_space (au_label a) in if label = [] then ''openai-compatibility'' else label)
         else to_lower (trim_space (au_provider a)))"

text \<open>The set as the list of its keys, in the order of the registry.\<close>

definition supportedModelSetForAuth :: "ModelRegistry \<Rightarrow> string \<Rightarrow> string list" where
  "supportedModelSetForAuth r authID0 =
     (let authID = trim_space authID0 in
      if authID = [] then []
      else filter (\<lambda>k. k \<noteq> []) (map (\<lambda>m. canonicalModelKey (mi_id m)) (GetModelsForClient r authID)))"

definition buildScheduledAuthMeta :: "ModelRegistry \<Rightarrow> Auth \<Rightarrow> scheduledAuthMeta" where
  "buildScheduledAuthMeta r a =
     \<lparr>sm_auth = a, sm_provider_key = executorKeyFromAuth a, sm_priority = authPriority a, sm_weight = authWeight (Some a),
      sm_websocket = authWebsocketsEnabled (Some a), sm_models = supportedModelSetForAuth r (au_id a)\<rparr>"

definition supportsModel :: "string \<Rightarrow> scheduledAuthMeta \<Rightarrow> bool" where
  "supportsModel modelKey0 meta =
     (let modelKey = canonicalModelKey modelKey0 in
      modelKey = [] \<or> sm_provider_key meta = ''cursor'' \<or> modelKey \<in> set (sm_models meta))"

definition provider_upsert :: "scheduledAuthMeta \<Rightarrow> time \<Rightarrow> providerScheduler \<Rightarrow> providerScheduler" where
  "provider_upsert meta now p =
     p\<lparr>ps_auths := mput (au_id (sm_auth meta)) meta (ps_auths p),
       ps_shards := map (\<lambda>(k, m). (k, if supportsModel k meta then upsertEntryLocked meta now m
                                      else removeEntryLocked (au_id (sm_auth meta)) m)) (ps_shards p)\<rparr>"

definition provider_remove :: "string \<Rightarrow> providerScheduler \<Rightarrow> providerScheduler" where
  "provider_remove authID p =
     (if authID = [] then p
      else p\<lparr>ps_auths := mdel authID (ps_auths p), ps_shards := map (\<lambda>(k, m). (k, removeEntryLocked authID m)) (ps_shards p)\<rparr>)"

definition new_shard :: "string \<Rightarrow> modelScheduler" where
  "new_shard modelKey = \<lparr>md_key = modelKey, md_entries = [], md_order = [], md_ready = [], md_blocked = []\<rparr>"

text \<open>The provider with the shard stored, and the shard; \<open>put_shard\<close> stores what a later step makes of it.\<close>

definition put_shard :: "modelScheduler \<Rightarrow> providerScheduler \<Rightarrow> providerScheduler" where
  "put_shard m p = p\<lparr>ps_shards := mput (md_key m) m (ps_shards p)\<rparr>"

definition ensureModelLocked :: "string \<Rightarrow> time \<Rightarrow> providerScheduler \<Rightarrow> modelScheduler" where
  "ensureModelLocked modelKey0 now p =
     (let modelKey = canonicalModelKey modelKey0 in
      case mget (ps_shards p) modelKey of
        Some m \<Rightarrow> promoteExpiredLocked now m
      | None \<Rightarrow> foldl (\<lambda>m meta. if supportsModel modelKey meta then upsertEntryLocked meta now m else m)
          (new_shard modelKey) (map snd (ps_auths p)))"

section \<open>Credentials of the scheduler\<close>

definition ensureProviderLocked :: "string \<Rightarrow> authScheduler \<Rightarrow> providerScheduler" where
  "ensureProviderLocked providerKey s =
     mget_or \<lparr>ps_key = providerKey, ps_auths = [], ps_shards = []\<rparr> (sh_providers s) providerKey"

definition put_provider :: "string \<Rightarrow> providerScheduler \<Rightarrow> authScheduler \<Rightarrow> authScheduler" where
  "put_provider providerKey p s = s\<lparr>sh_providers := mput providerKey p (sh_providers s)\<rparr>"

definition on_provider :: "string \<Rightarrow> (providerScheduler \<Rightarrow> providerScheduler) \<Rightarrow> authScheduler \<Rightarrow> authScheduler" where
  "on_provider providerKey f s =
     (case mget (sh_providers s) providerKey of None \<Rightarrow> s | Some p \<Rightarrow> put_provider providerKey (f p) s)"

definition removeAuthLocked :: "string \<Rightarrow> authScheduler \<Rightarrow> authScheduler" where
  "removeAuthLocked authID s =
     (let providerKey = mget_or [] (sh_auth_providers s) authID in
      if authID = [] \<or> providerKey = [] then s
      else (on_provider providerKey (provider_remove authID) s)\<lparr>sh_auth_providers := mdel authID (sh_auth_providers s)\<rparr>)"

definition removeAuth :: "string \<Rightarrow> authScheduler \<Rightarrow> authScheduler" where
  "removeAuth authID s = removeAuthLocked (trim_space authID) s"

definition upsertAuthLocked :: "ModelRegistry \<Rightarrow> Auth \<Rightarrow> time \<Rightarrow> authScheduler \<Rightarrow> authScheduler" where
  "upsertAuthLocked r a now s =
     (let authID = trim_space (au_id a); providerKey = executorKeyFromAuth a in
      if authID = [] \<or> providerKey = [] \<or> au_disabled a then removeAuthLocked authID s
      else let previousProvider = mget_or [] (sh_auth_providers s) authID;
               s1 = (if previousProvider \<noteq> [] \<and> previousProvider \<noteq> providerKey
                     then on_provider previousProvider (provider_remove authID) s else s);
               s2 = s1\<lparr>sh_auth_providers := mput authID providerKey (sh_auth_providers s1)\<rparr>
           in put_provider providerKey
                (provider_upsert (buildScheduledAuthMeta r a) now (ensureProviderLocked providerKey s2)) s2)"

definition upsertAuth :: "ModelRegistry \<Rightarrow> Auth \<Rightarrow> time \<Rightarrow> authScheduler \<Rightarrow> authScheduler" where
  "upsertAuth = upsertAuthLocked"

definition rebuild :: "ModelRegistry \<Rightarrow> Auth option list \<Rightarrow> time \<Rightarrow> authScheduler \<Rightarrow> authScheduler" where
  "rebuild r auths now s =
     foldl (\<lambda>s ao. case ao of None \<Rightarrow> s | Some a \<Rightarrow> upsertAuthLocked r a now s)
       (s\<lparr>sh_providers := [], sh_auth_providers := [], sh_mixed_cursors := [], sh_mixed_weighted := []\<rparr>) auths"

section \<open>Requests\<close>

text \<open>What a request brings: the metadata of its options, and of its context the required kind of
  credential, the credential policy and whether the client is connected by websocket.\<close>

record sched_request =
  sq_model :: string
  sq_metadata :: "(string, meta_value) gomap"
  sq_required_kind :: string
  sq_policy :: string
  sq_websocket :: bool
  sq_tried :: "string list"

definition pinnedAuthIDFromMetadata :: "(string, meta_value) gomap \<Rightarrow> string" where
  "pinnedAuthIDFromMetadata meta =
     (case mget meta ''pinned_auth_id'' of Some (MStr v) \<Rightarrow> trim_space v | Some (MBytes v) \<Rightarrow> trim_space v | _ \<Rightarrow> [])"

definition disallowFreeAuthFromMetadata :: "(string, meta_value) gomap \<Rightarrow> bool" where
  "disallowFreeAuthFromMetadata meta =
     (case mget meta ''disallow_free_auth'' of
        Some (MBool b) \<Rightarrow> b
      | Some (MStr v) \<Rightarrow> parse_bool (trim_space v) = Some True
      | Some (MBytes v) \<Rightarrow> parse_bool (trim_space v) = Some True
      | _ \<Rightarrow> False)"

definition allowedAuthIDsFromMetadata :: "(string, meta_value) gomap \<Rightarrow> string list option" where
  "allowedAuthIDsFromMetadata meta =
     (case mget meta ''cliproxy.model_routing.allowed_auth_ids'' of Some (MIdSet ids) \<Rightarrow> Some ids | _ \<Rightarrow> None)"

definition credentialPolicyAllows :: "string \<Rightarrow> Auth \<Rightarrow> bool" where
  "credentialPolicyAllows policy a =
     (policy = ''codex_alpha_search_v1'' \<and> equal_fold (trim_space (au_provider a)) ''codex'' \<and>
      (AuthKind a = AuthKindOAuth \<or>
       (AuthKind a = AuthKindAPIKey \<and> equal_fold (authAttribute a ''codex_alpha_search'') ''true'')))"

definition isFreeCodexAuth :: "Auth \<Rightarrow> bool" where
  "isFreeCodexAuth a =
     (equal_fold (trim_space (au_provider a)) ''codex'' \<and>
      equal_fold (trim_space (mget_or [] (au_attributes a) ''plan_type'')) ''free'')"

record authSelectionEligibility =
  el_required_kind :: string
  el_policy :: string
  el_disallow_free :: bool
  el_excluded :: "string list"
  el_allowed :: "string list option"

definition authSelectionEligibilityForRequest :: "sched_request \<Rightarrow> authSelectionEligibility" where
  "authSelectionEligibilityForRequest q =
     \<lparr>el_required_kind = sq_required_kind q, el_policy = sq_policy q,
      el_disallow_free = disallowFreeAuthFromMetadata (sq_metadata q),
      el_excluded = extractExcludedAuthIDs (sq_metadata q), el_allowed = allowedAuthIDsFromMetadata (sq_metadata q)\<rparr>"

definition allows :: "authSelectionEligibility \<Rightarrow> Auth \<Rightarrow> bool" where
  "allows e a \<longleftrightarrow>
     au_id a \<notin> set (el_excluded e) \<and>
     (case el_allowed e of None \<Rightarrow> True | Some ids \<Rightarrow> au_id a \<in> set ids) \<and>
     (el_required_kind e = [] \<or> AuthKind a = el_required_kind e) \<and>
     (el_policy e = [] \<or> credentialPolicyAllows (el_policy e) a) \<and>
     (\<not> el_disallow_free e \<or> \<not> isFreeCodexAuth a)"

definition scheduledAuthPredicate :: "authSelectionEligibility \<Rightarrow> string list \<Rightarrow> string \<Rightarrow> bool \<Rightarrow> predicate" where
  "scheduledAuthPredicate eligibility tried pinnedAuthID requirePositiveWeight e \<longleftrightarrow>
     allows eligibility (sd_auth e) \<and>
     (requirePositiveWeight \<longrightarrow> 0 < sm_weight (sd_meta e)) \<and>
     (pinnedAuthID \<noteq> [] \<longrightarrow> entry_id e = pinnedAuthID) \<and>
     entry_id e \<notin> set tried"

definition providerPrefersWebsocketTransport :: "string \<Rightarrow> bool" where
  "providerPrefersWebsocketTransport providerKey = (to_lower (trim_space providerKey) \<in> set [''codex'', ''xai''])"

definition provider_key_step :: "string list \<Rightarrow> string \<Rightarrow> string list" where
  "provider_key_step out provider =
     (let providerKey = to_lower (trim_space provider) in
      if providerKey = [] \<or> providerKey \<in> set out then out else out @ [providerKey])"

definition normalizeProviderKeys :: "string list \<Rightarrow> string list" where
  "normalizeProviderKeys providers = foldl provider_key_step [] providers"

section \<open>Picking from one provider\<close>

definition no_auth :: pick_error where
  "no_auth = AuthError (auth_error ''auth_not_found'' ''no auth available'')"

definition current_strategy :: "authScheduler \<Rightarrow> schedulerStrategy \<Rightarrow> schedulerStrategy" where
  "current_strategy s strategy = (if strategy = StrategyCurrent then sh_strategy s else strategy)"

definition request_predicate :: "sched_request \<Rightarrow> string \<Rightarrow> schedulerStrategy \<Rightarrow> predicate" where
  "request_predicate q pinnedAuthID strategy =
     scheduledAuthPredicate (authSelectionEligibilityForRequest q) (sq_tried q) pinnedAuthID (strategy = StrategyWeightedRoundRobin)"

text \<open>Ensuring the shard, picking from it or naming the reason: three readings of the clock.\<close>

definition pick_from_provider ::
  "clock \<Rightarrow> string \<Rightarrow> bool \<Rightarrow> schedulerStrategy \<Rightarrow> predicate \<Rightarrow> string \<Rightarrow> string \<Rightarrow> providerScheduler \<Rightarrow>
   providerScheduler \<times> (pick_error + Auth)" where
  "pick_from_provider clk modelKey preferWebsocket strategy pred provider model p =
     (case pickReadyLocked (clk 1) preferWebsocket strategy pred (ensureModelLocked modelKey (clk 0) p) of
        (m, Some a) \<Rightarrow> (put_shard m p, Inr a)
      | (m, None) \<Rightarrow> (put_shard m p, Inl (unavailableErrorLocked (clk 2) provider model pred m)))"

definition pickSingleWithStrategy ::
  "clock \<Rightarrow> string \<Rightarrow> sched_request \<Rightarrow> schedulerStrategy \<Rightarrow> authScheduler \<Rightarrow> authScheduler \<times> (pick_error + Auth)" where
  "pickSingleWithStrategy clk provider q strategy0 s =
     (let providerKey = to_lower (trim_space provider);
          pinnedAuthID = pinnedAuthIDFromMetadata (sq_metadata q);
          preferWebsocket = (sq_websocket q \<and> providerPrefersWebsocketTransport providerKey \<and> pinnedAuthID = []);
          strategy = current_strategy s strategy0
      in case mget (sh_providers s) providerKey of
           None \<Rightarrow> (s, Inl no_auth)
         | Some p \<Rightarrow>
             let (p', r) = pick_from_provider clk (canonicalModelKey (sq_model q)) preferWebsocket strategy
                   (request_predicate q pinnedAuthID strategy) provider (sq_model q) p
             in (put_provider providerKey p' s, r))"

definition pickSingle :: "clock \<Rightarrow> string \<Rightarrow> sched_request \<Rightarrow> authScheduler \<Rightarrow> authScheduler \<times> (pick_error + Auth)" where
  "pickSingle clk provider q = pickSingleWithStrategy clk provider q StrategyCurrent"

section \<open>Picking from several providers\<close>

text \<open>The shards of the model, each ensured at \<open>now\<close>, and the scheduler that holds them.\<close>

definition ensure_shards :: "string \<Rightarrow> time \<Rightarrow> string list \<Rightarrow> authScheduler \<Rightarrow> authScheduler" where
  "ensure_shards modelKey now providers s =
     foldl (\<lambda>s k. on_provider k (\<lambda>p. put_shard (ensureModelLocked modelKey now p) p) s) s providers"

definition shard_of :: "authScheduler \<Rightarrow> string \<Rightarrow> string \<Rightarrow> modelScheduler option" where
  "shard_of s modelKey providerKey =
     (case mget (sh_providers s) providerKey of None \<Rightarrow> None
      | Some p \<Rightarrow> mget (ps_shards p) (canonicalModelKey modelKey))"

definition candidate_shards :: "authScheduler \<Rightarrow> string \<Rightarrow> string list \<Rightarrow> (string \<times> modelScheduler) list" where
  "candidate_shards s modelKey providers =
     somes (map (\<lambda>k. map_option (Pair k) (shard_of s modelKey k)) providers)"

definition best_priority :: "predicate \<Rightarrow> (string \<times> modelScheduler) list \<Rightarrow> int option" where
  "best_priority pred shards =
     foldl (\<lambda>best (k, m). case highestReadyPriorityLocked False pred m of None \<Rightarrow> best | Some p \<Rightarrow> best_of best p) None shards"

definition mixedUnavailableErrorLocked ::
  "time \<Rightarrow> string list \<Rightarrow> string \<Rightarrow> predicate \<Rightarrow> authScheduler \<Rightarrow> authScheduler \<times> pick_error" where
  "mixedUnavailableErrorLocked now providers model pred s =
     (let s1 = ensure_shards (canonicalModelKey model) now providers s;
          add = (\<lambda>(n, c, earliest) (k, m). let (n', c', e') = availabilitySummaryLocked pred m in
                  (n + n', c + c', if e' \<noteq> 0 \<and> (earliest = 0 \<or> e' < earliest) then e' else earliest))
      in (s1, summary_error now model [] (foldl add (0, 0, 0) (candidate_shards s1 (canonicalModelKey model) providers))))"

text \<open>One shard's pick at the best priority, with the scheduler updated.\<close>

definition pick_in_shard ::
  "int \<Rightarrow> schedulerStrategy \<Rightarrow> predicate \<Rightarrow> string \<Rightarrow> modelScheduler \<Rightarrow> authScheduler \<Rightarrow> authScheduler \<times> Auth option" where
  "pick_in_shard priority strategy pred providerKey m s =
     (let (m', picked) = pickReadyAtPriorityLocked False priority strategy pred m
      in (on_provider providerKey (put_shard m') s, picked))"

fun first_pick ::
  "int \<Rightarrow> schedulerStrategy \<Rightarrow> predicate \<Rightarrow> (string \<times> modelScheduler) list \<Rightarrow> authScheduler \<Rightarrow>
   authScheduler \<times> (Auth \<times> string) option" where
  "first_pick priority strategy pred [] s = (s, None)"
| "first_pick priority strategy pred ((k, m) # shards) s =
     (case pick_in_shard priority strategy pred k m s of
        (s', Some a) \<Rightarrow> (s', Some (a, k))
      | (s', None) \<Rightarrow> first_pick priority strategy pred shards s')"

definition mixed_entries :: "int \<Rightarrow> (string \<times> modelScheduler) list \<Rightarrow> scheduledAuth list" where
  "mixed_entries priority shards =
     sort_slice (\<lambda>a b. entry_id a < entry_id b)
       (concat (map (\<lambda>(k, m). case mget (md_ready m) priority of None \<Rightarrow> [] | Some b \<Rightarrow> view_entries m (bk_all b)) shards))"

text \<open>
  The mixed rotation: the slots of all providers, one for each ready credential of the best priority,
  lie in a row; the cursor names the next slot. The turn is that of the provider the slot belongs to,
  and the providers after it are tried when its pick fails.
\<close>

definition slot_counts :: "int \<Rightarrow> predicate \<Rightarrow> string list \<Rightarrow> string \<Rightarrow> authScheduler \<Rightarrow> nat list" where
  "slot_counts priority pred providers modelKey s =
     map (\<lambda>k. case shard_of s modelKey k of None \<Rightarrow> 0 | Some m \<Rightarrow> readyCountAtPriorityLocked False priority pred m) providers"

definition segment_start :: "nat list \<Rightarrow> nat \<Rightarrow> nat" where
  "segment_start weights i = sum_list (take i weights)"

definition start_provider :: "nat list \<Rightarrow> nat \<Rightarrow> nat option" where
  "start_provider weights startSlot =
     find (\<lambda>i. weights ! i \<noteq> 0 \<and> startSlot < segment_start weights (Suc i)) [0..<length weights]"

fun rotate_pick ::
  "int \<Rightarrow> predicate \<Rightarrow> string \<Rightarrow> string list \<Rightarrow> nat list \<Rightarrow> nat \<Rightarrow> nat \<Rightarrow> nat list \<Rightarrow> authScheduler \<Rightarrow>
   authScheduler \<times> (Auth \<times> string \<times> nat) option" where
  "rotate_pick priority pred modelKey providers weights start slot [] s = (s, None)"
| "rotate_pick priority pred modelKey providers weights start slot (offset # offsets) s =
     (let i = (start + offset) mod length providers in
      if weights ! i = 0 then rotate_pick priority pred modelKey providers weights start slot offsets s
      else let slot' = (if i \<noteq> start then segment_start weights i else slot) in
        case shard_of s modelKey (providers ! i) of
          None \<Rightarrow> rotate_pick priority pred modelKey providers weights start slot' offsets s
        | Some m \<Rightarrow>
            (case pick_in_shard priority StrategyRoundRobin pred (providers ! i) m s of
               (s', Some a) \<Rightarrow> (s', Some (a, providers ! i, slot' + 1))
             | (s', None) \<Rightarrow> rotate_pick priority pred modelKey providers weights start slot' offsets s'))"

definition mixed_rotation ::
  "int \<Rightarrow> predicate \<Rightarrow> string \<Rightarrow> string \<Rightarrow> string list \<Rightarrow> authScheduler \<Rightarrow> authScheduler \<times> (Auth \<times> string) option" where
  "mixed_rotation priority pred cursorKey modelKey providers s =
     (let weights = slot_counts priority pred providers modelKey s; totalWeight = sum_list weights in
      if totalWeight = 0 then (s, None)
      else let startSlot = mget_or 0 (sh_mixed_cursors s) cursorKey mod totalWeight in
        case start_provider weights startSlot of
          None \<Rightarrow> (s, None)
        | Some start \<Rightarrow>
            (case rotate_pick priority pred modelKey providers weights start startSlot [0..<length providers] s of
               (s', None) \<Rightarrow> (s', None)
             | (s', Some (a, k, slot)) \<Rightarrow> (s'\<lparr>sh_mixed_cursors := mput cursorKey slot (sh_mixed_cursors s')\<rparr>, Some (a, k))))"

definition mixed_weighted ::
  "int \<Rightarrow> predicate \<Rightarrow> string \<Rightarrow> string \<Rightarrow> string list \<Rightarrow> authScheduler \<Rightarrow> authScheduler \<times> (Auth \<times> string) option" where
  "mixed_weighted priority pred cursorKey modelKey providers s =
     (let entries = mixed_entries priority (candidate_shards s modelKey providers);
          (st, picked) = weighted_pick entries pred
            (mget_or \<lparr>sw_current = [], sw_weights = []\<rparr> (sh_mixed_weighted s) cursorKey)
      in (s\<lparr>sh_mixed_weighted := mput cursorKey st (sh_mixed_weighted s)\<rparr>,
          map_option (\<lambda>e. (sd_auth e, sm_provider_key (sd_meta e))) picked))"

definition pick_several ::
  "clock \<Rightarrow> string list \<Rightarrow> string \<Rightarrow> schedulerStrategy \<Rightarrow> predicate \<Rightarrow> authScheduler \<Rightarrow>
   authScheduler \<times> (pick_error + Auth \<times> string)" where
  "pick_several clk providers model strategy pred s =
     (let modelKey = canonicalModelKey model;
          s1 = ensure_shards modelKey (clk 0) providers s;
          shards = candidate_shards s1 modelKey providers;
          cursorKey = join '','' providers @ '':'' @ modelKey;
          (s2, picked) =
            (case best_priority pred shards of
               None \<Rightarrow> (s1, None)
             | Some priority \<Rightarrow>
                 if strategy = StrategyFillFirst then first_pick priority strategy pred shards s1
                 else if strategy = StrategyWeightedRoundRobin then mixed_weighted priority pred cursorKey modelKey providers s1
                 else mixed_rotation priority pred cursorKey modelKey providers s1)
      in case picked of
           Some (a, k) \<Rightarrow> (s2, Inr (a, k))
         | None \<Rightarrow> (let (s3, e) = mixedUnavailableErrorLocked (clk 1) providers model pred s2 in (s3, Inl e)))"

definition pick_pinned ::
  "clock \<Rightarrow> string list \<Rightarrow> string \<Rightarrow> string \<Rightarrow> schedulerStrategy \<Rightarrow> predicate \<Rightarrow> authScheduler \<Rightarrow>
   authScheduler \<times> (pick_error + Auth \<times> string)" where
  "pick_pinned clk providers pinnedAuthID model strategy pred s =
     (let providerKey = mget_or [] (sh_auth_providers s) pinnedAuthID in
      if providerKey = [] \<or> providerKey \<notin> set providers then (s, Inl no_auth)
      else case mget (sh_providers s) providerKey of
        None \<Rightarrow> (s, Inl no_auth)
      | Some p \<Rightarrow>
          let (p', r) = pick_from_provider clk (canonicalModelKey model) False strategy pred ''mixed'' model p
          in (put_provider providerKey p' s, map_sum id (\<lambda>a. (a, providerKey)) r))"

definition pickMixedWithStrategy ::
  "clock \<Rightarrow> string list \<Rightarrow> sched_request \<Rightarrow> schedulerStrategy \<Rightarrow> authScheduler \<Rightarrow>
   authScheduler \<times> (pick_error + Auth \<times> string)" where
  "pickMixedWithStrategy clk providers q strategy0 s =
     (let normalized = normalizeProviderKeys providers;
          pinnedAuthID = pinnedAuthIDFromMetadata (sq_metadata q);
          strategy = current_strategy s strategy0;
          pred = request_predicate q pinnedAuthID strategy
      in case normalized of
           [] \<Rightarrow> (s, Inl (AuthError (auth_error ''provider_not_found'' ''no provider supplied'')))
         | [providerKey] \<Rightarrow>
             (let (s', r) = pickSingleWithStrategy clk providerKey q strategy0 s
              in (s', map_sum id (\<lambda>a. (a, providerKey)) r))
         | _ \<Rightarrow> if pinnedAuthID \<noteq> [] then pick_pinned clk normalized pinnedAuthID (sq_model q) strategy pred s
                else pick_several clk normalized (sq_model q) strategy pred s)"

definition pickMixed :: "clock \<Rightarrow> string list \<Rightarrow> sched_request \<Rightarrow> authScheduler \<Rightarrow> authScheduler \<times> (pick_error + Auth \<times> string)" where
  "pickMixed clk providers q = pickMixedWithStrategy clk providers q StrategyCurrent"

end
