(* ===== verification/Model_Alias.thy ===== *)
theory Model_Alias
  imports Scheduler Cooldown
begin

text \<open>
  What the name of a requested model stands for: the aliases of the configuration and of a credential
  (\<open>sdk/cliproxy/auth/oauth_model_alias.go\<close>, \<open>conductor_models.go\<close>), the ordered chains of upstream
  models of an alias (\<open>ordered_pool.go\<close>) and the models excluded by pattern
  (\<open>conductor_exclusion.go\<close>). The credentials are local ones: the attributes that a Home dispatch
  writes on a credential, and the branches that read them, are left out. Decoding JSON
  (\<open>encoding/json\<close>) is the parameter \<open>ae_unmarshal\<close>.
\<close>

section \<open>Excluded models\<close>

text \<open>\<open>strings.Split\<close> with a one-character separator.\<close>

fun split_on :: "char \<Rightarrow> string \<Rightarrow> string list" where
  "split_on d [] = [[]]"
| "split_on d (c # s) = (if c = d then [] # split_on d s
     else (case split_on d s of [] \<Rightarrow> [[c]] | p # ps \<Rightarrow> (c # p) # ps))"

definition has_suffix :: "string \<Rightarrow> string \<Rightarrow> bool" where
  "has_suffix s p = has_prefix (rev s) (rev p)"

text \<open>The loop over the segments between two stars: each is found at its first occurrence.\<close>

fun match_segments :: "string list \<Rightarrow> string \<Rightarrow> bool" where
  "match_segments [] v = True"
| "match_segments (seg # segs) v =
     (if seg = [] then match_segments segs v
      else case cut seg v of None \<Rightarrow> False | Some (_, rest) \<Rightarrow> match_segments segs rest)"

definition matchExcludedPattern :: "string \<Rightarrow> string \<Rightarrow> bool" where
  "matchExcludedPattern pattern val =
     (if pattern = [] then False
      else if CHR ''*'' \<notin> set pattern then pattern = val
      else let parts = split_on (CHR ''*'') pattern; pre = hd parts; suf = last parts in
        if \<not> has_prefix val pre then False
        else let v1 = drop (length pre) val in
          if \<not> has_suffix v1 suf then False
          else match_segments (butlast (tl parts)) (take (length v1 - length suf) v1))"

text \<open>\<open>excluded\<close> is \<open>OAuthExcludedModels\<close> of the configuration.\<close>

definition isModelExcludedForRoute :: "(string, string list) gomap \<Rightarrow> string \<Rightarrow> string \<Rightarrow> bool" where
  "isModelExcludedForRoute excluded channel0 requestedModel0 =
     (let channel = to_lower (trim_space channel0); requestedModel = trim_space requestedModel0 in
      if channel = [] \<or> requestedModel = [] then False
      else let patterns = mget_or [] excluded channel;
               c0 = to_lower (trim_space (sr_model_name (ParseSuffix requestedModel)));
               canonical = to_lower (trim_space requestedModel);
               candidates = c0 # (if canonical \<noteq> [] \<and> canonical \<noteq> c0 then [canonical] else [])
        in list_ex (\<lambda>p. let pattern = to_lower (trim_space p) in
             pattern \<noteq> [] \<and> list_ex (matchExcludedPattern pattern) candidates) patterns)"

section \<open>Aliases\<close>

text \<open>An alias entry, of the OAuth tables as of a configured API key: \<open>OAuthModelAlias\<close> and the
  interface \<open>modelAliasEntry\<close>.\<close>

record OAuthModelAlias =
  oa_name :: string
  oa_alias :: string
  oa_fork :: bool
  oa_display_name :: string
  oa_force_mapping :: bool

record oauthModelAliasEntry =
  ae_upstream_model :: string
  ae_config_alias :: string
  ae_force_mapping :: bool

record oauthModelAliasTable =
  at_reverse :: "(string, (string, oauthModelAliasEntry) gomap) gomap"
  at_ordered :: "(string, (string, oauthModelAliasEntry list) gomap) gomap"

record OAuthModelAliasResult =
  ar_upstream_model :: string
  ar_force_mapping :: bool
  ar_original_alias :: string

definition no_alias :: OAuthModelAliasResult where
  "no_alias = \<lparr>ar_upstream_model = [], ar_force_mapping = False, ar_original_alias = []\<rparr>"

text \<open>A nil table of the source is an empty one.\<close>

definition usable_alias :: "OAuthModelAlias \<Rightarrow> bool" where
  "usable_alias e \<longleftrightarrow> trim_space (oa_name e) \<noteq> [] \<and> trim_space (oa_alias e) \<noteq> [] \<and>
     \<not> equal_fold (trim_space (oa_name e)) (trim_space (oa_alias e))"

definition alias_entry :: "OAuthModelAlias \<Rightarrow> oauthModelAliasEntry" where
  "alias_entry e = \<lparr>ae_upstream_model = trim_space (oa_name e), ae_config_alias = trim_space (oa_alias e),
     ae_force_mapping = oa_force_mapping e\<rparr>"

definition alias_key :: "OAuthModelAlias \<Rightarrow> string" where
  "alias_key e = to_lower (trim_space (oa_alias e))"

definition compile_entry ::
  "(string, oauthModelAliasEntry) gomap \<times> (string, oauthModelAliasEntry list) gomap \<Rightarrow> OAuthModelAlias \<Rightarrow>
   (string, oauthModelAliasEntry) gomap \<times> (string, oauthModelAliasEntry list) gomap" where
  "compile_entry acc e =
     (let (rev_map, ord_map) = acc in
      if \<not> usable_alias e then acc
      else (if mget rev_map (alias_key e) = None then mput (alias_key e) (alias_entry e) rev_map else rev_map,
            mput (alias_key e) (mget_or [] ord_map (alias_key e) @ [alias_entry e]) ord_map))"

definition compile_channel :: "oauthModelAliasTable \<Rightarrow> string \<times> OAuthModelAlias list \<Rightarrow> oauthModelAliasTable" where
  "compile_channel out entry =
     (let (rawChannel, entries) = entry; channel = to_lower (trim_space rawChannel) in
      if channel = [] \<or> entries = [] then out
      else let (rev_map, ord_map) = foldl compile_entry ([], []) entries in
        out\<lparr>at_reverse := if rev_map \<noteq> [] then mput channel rev_map (at_reverse out) else at_reverse out,
            at_ordered := if ord_map \<noteq> [] then mput channel ord_map (at_ordered out) else at_ordered out\<rparr>)"

definition compileOAuthModelAliasTable :: "(string, OAuthModelAlias list) gomap \<Rightarrow> oauthModelAliasTable" where
  "compileOAuthModelAliasTable aliases = foldl compile_channel \<lparr>at_reverse = [], at_ordered = []\<rparr> aliases"

section \<open>Looking up an alias\<close>

definition no_suffix :: SuffixResult where
  "no_suffix = \<lparr>sr_model_name = [], sr_has_suffix = False, sr_raw_suffix = []\<rparr>"

definition modelAliasLookupCandidates :: "string \<Rightarrow> SuffixResult \<times> string list" where
  "modelAliasLookupCandidates requestedModel0 =
     (let requestedModel = trim_space requestedModel0 in
      if requestedModel = [] then (no_suffix, [])
      else let r = ParseSuffix requestedModel;
               base = (if sr_model_name r = [] then requestedModel else sr_model_name r)
        in (r, requestedModel # (if base \<noteq> requestedModel then [base] else [])))"

definition preserveResolvedModelSuffix :: "string \<Rightarrow> SuffixResult \<Rightarrow> string" where
  "preserveResolvedModelSuffix resolved0 r =
     (let resolved = trim_space resolved0 in
      if resolved = [] then []
      else if sr_has_suffix (ParseSuffix resolved) then resolved
      else if sr_has_suffix r \<and> sr_raw_suffix r \<noteq> [] then resolved @ ''('' @ sr_raw_suffix r @ '')''
      else resolved)"

definition preserveRequestedModelSuffix :: "string \<Rightarrow> string \<Rightarrow> string" where
  "preserveRequestedModelSuffix requestedModel resolved = preserveResolvedModelSuffix resolved (ParseSuffix requestedModel)"

text \<open>A loop over the candidates that returns at the first one with a result.\<close>

fun first_result :: "('a \<Rightarrow> 'b option) \<Rightarrow> 'a list \<Rightarrow> 'b option" where
  "first_result f [] = None"
| "first_result f (x # xs) = (case f x of None \<Rightarrow> first_result f xs | Some r \<Rightarrow> Some r)"

text \<open>The answer for the entry found: none when the alias names the model itself, unless it forces
  the mapping. \<open>shown\<close> is the name a response without forced mapping keeps.\<close>

definition matched_result :: "SuffixResult \<Rightarrow> string \<Rightarrow> string \<Rightarrow> string \<Rightarrow> string \<Rightarrow> bool \<Rightarrow> OAuthModelAliasResult" where
  "matched_result r baseModel shown original alias_name force =
     (if equal_fold original baseModel \<and> \<not> force then no_alias
      else \<lparr>ar_upstream_model = preserveResolvedModelSuffix original r, ar_force_mapping = force,
            ar_original_alias = (if force then trim_space alias_name else shown)\<rparr>)"

definition entry_matches :: "string \<Rightarrow> OAuthModelAlias \<Rightarrow> bool" where
  "entry_matches key e \<longleftrightarrow> trim_space (oa_name e) \<noteq> [] \<and> trim_space (oa_alias e) \<noteq> [] \<and>
     equal_fold (trim_space (oa_alias e)) key"

definition result_of_entries :: "string \<Rightarrow> string \<Rightarrow> OAuthModelAlias list \<Rightarrow> OAuthModelAliasResult" where
  "result_of_entries requestedModel shown entries =
     (let (r, candidates) = modelAliasLookupCandidates requestedModel;
          baseModel = (if sr_model_name r = [] then trim_space requestedModel else sr_model_name r)
      in case first_result (\<lambda>c. let key = trim_space c in
             if key = [] then None else find (entry_matches key) entries) candidates of
           None \<Rightarrow> no_alias
         | Some e \<Rightarrow> matched_result r baseModel shown (trim_space (oa_name e)) (trim_space (oa_alias e)) (oa_force_mapping e))"

definition resolveUpstreamModelFromAliases :: "OAuthModelAlias list \<Rightarrow> string \<Rightarrow> OAuthModelAliasResult" where
  "resolveUpstreamModelFromAliases aliases requestedModel = result_of_entries requestedModel requestedModel aliases"

definition resolveModelAliasResultFromConfigModels :: "string \<Rightarrow> OAuthModelAlias list \<Rightarrow> OAuthModelAliasResult" where
  "resolveModelAliasResultFromConfigModels requestedModel models =
     result_of_entries (trim_space requestedModel) (trim_space requestedModel) models"

definition resolveUpstreamModelFromAliasTable :: "oauthModelAliasTable \<Rightarrow> string \<Rightarrow> string \<Rightarrow> OAuthModelAliasResult" where
  "resolveUpstreamModelFromAliasTable table requestedModel channel =
     (if channel = [] then no_alias
      else let (r, candidates) = modelAliasLookupCandidates requestedModel in
        case mget (at_reverse table) channel of None \<Rightarrow> no_alias
        | Some rev_map \<Rightarrow>
            (case first_result (\<lambda>c. let key = to_lower (trim_space c) in
               if key = [] then None
               else case mget rev_map key of None \<Rightarrow> None
                 | Some e \<Rightarrow> if ae_upstream_model e = [] then None else Some e) candidates of
               None \<Rightarrow> no_alias
             | Some e \<Rightarrow> matched_result r (sr_model_name r) requestedModel (ae_upstream_model e) (ae_config_alias e) (ae_force_mapping e)))"

section \<open>Credentials\<close>

definition normalizeOAuthModelAliasAuthKind :: "string \<Rightarrow> string" where
  "normalizeOAuthModelAliasAuthKind authKind0 =
     (let authKind = to_lower (trim_space authKind0) in
      if authKind \<in> {''api_key'', ''api-key''} then ''apikey'' else authKind)"

definition OAuthModelAliasChannel :: "string \<Rightarrow> string \<Rightarrow> string" where
  "OAuthModelAliasChannel provider0 authKind =
     (let provider = to_lower (trim_space provider0) in
      if normalizeOAuthModelAliasAuthKind authKind = ''apikey'' then []
      else if provider = ''gemini'' then [] else provider)"

definition modelAliasChannel :: "Auth \<Rightarrow> string" where
  "modelAliasChannel a = OAuthModelAliasChannel (to_lower (trim_space (au_provider a))) (AuthKind a)"

definition sanitize_entry :: "OAuthModelAlias \<Rightarrow> OAuthModelAlias" where
  "sanitize_entry e = e\<lparr>oa_name := trim_space (oa_name e), oa_alias := trim_space (oa_alias e),
     oa_display_name := trim_space (oa_display_name e)\<rparr>"

definition sanitize_key :: "OAuthModelAlias \<Rightarrow> string" where
  "sanitize_key e = to_lower (trim_space (oa_name e)) @ CHR 0x00 # to_lower (trim_space (oa_alias e))"

definition sanitize_step :: "OAuthModelAlias list \<Rightarrow> OAuthModelAlias \<Rightarrow> OAuthModelAlias list" where
  "sanitize_step clean e =
     (if \<not> usable_alias e \<or> sanitize_key e \<in> set (map sanitize_key clean) then clean else clean @ [sanitize_entry e])"

definition sanitizeOAuthModelAliases :: "OAuthModelAlias list \<Rightarrow> OAuthModelAlias list" where
  "sanitizeOAuthModelAliases aliases = foldl sanitize_step [] aliases"

type_synonym alias_decoder = "string \<Rightarrow> OAuthModelAlias list option"

definition OAuthModelAliasesFromAttributes :: "alias_decoder \<Rightarrow> (string, string) gomap \<Rightarrow> OAuthModelAlias list" where
  "OAuthModelAliasesFromAttributes unmarshal attributes =
     (let raw = trim_space (mget_or [] attributes ''model_aliases'') in
      if raw = [] then [] else case unmarshal raw of None \<Rightarrow> [] | Some aliases \<Rightarrow> sanitizeOAuthModelAliases aliases)"

text \<open>A rule for the errors of an upstream that concern the request.\<close>

record RequestScopedErrorRule =
  rs_status :: int
  rs_match :: "string list"
  rs_match_regexr :: "string list"
  rs_action :: string

text \<open>What the routing of models reads: the decoder, the alias table of the manager and the
  configured API keys.\<close>

record APIKeyConfigEntry =
  ak_api_key :: string
  ak_base_url :: string
  ak_prefix :: string
  ak_proxy_url :: string
  ak_models :: "OAuthModelAlias list"
  ak_request_scoped_errors :: "RequestScopedErrorRule list"

record compat_entry =
  ce_config :: OpenAICompatibility
  ce_models :: "OAuthModelAlias list"
  ce_request_scoped_errors :: "RequestScopedErrorRule list"

record RoutingConfig =
  rc_gemini :: "APIKeyConfigEntry list"
  rc_interactions :: "APIKeyConfigEntry list"
  rc_claude :: "APIKeyConfigEntry list"
  rc_codex :: "APIKeyConfigEntry list"
  rc_xai :: "APIKeyConfigEntry list"
  rc_vertex :: "APIKeyConfigEntry list"
  rc_compat :: "compat_entry list"
  rc_oauth_request_scoped_errors :: "(string, RequestScopedErrorRule list) gomap"

record alias_env =
  ae_unmarshal :: alias_decoder
  ae_table :: oauthModelAliasTable
  ae_routing :: RoutingConfig
  ae_key_aliases :: "(string, (string, string) gomap) gomap"

definition resolveOAuthModelAliasWithResult :: "alias_env \<Rightarrow> Auth \<Rightarrow> string \<Rightarrow> OAuthModelAliasResult" where
  "resolveOAuthModelAliasWithResult env a requestedModel =
     (let channel = modelAliasChannel a in
      if channel = [] then no_alias
      else let own = resolveUpstreamModelFromAliases (OAuthModelAliasesFromAttributes (ae_unmarshal env) (au_attributes a)) requestedModel
        in if ar_upstream_model own \<noteq> [] then own
           else resolveUpstreamModelFromAliasTable (ae_table env) requestedModel channel)"

definition applyOAuthModelAliasWithResult :: "alias_env \<Rightarrow> Auth \<Rightarrow> string \<Rightarrow> OAuthModelAliasResult" where
  "applyOAuthModelAliasWithResult env a requestedModel =
     (let r = resolveOAuthModelAliasWithResult env a requestedModel in
      if ar_upstream_model r = [] then no_alias\<lparr>ar_upstream_model := requestedModel\<rparr> else r)"

definition applyOAuthModelAlias :: "alias_env \<Rightarrow> Auth \<Rightarrow> string \<Rightarrow> string" where
  "applyOAuthModelAlias env a requestedModel =
     (let upstream = ar_upstream_model (resolveOAuthModelAliasWithResult env a requestedModel)
      in if upstream = [] then requestedModel else upstream)"

definition rewriteModelForAuth :: "string \<Rightarrow> Auth \<Rightarrow> string" where
  "rewriteModelForAuth model a =
     (let pre = trim_space (au_prefix a) in
      if model = [] \<or> pre = [] then model
      else if has_prefix model (pre @ ''/'') then drop (length pre + 1) model else model)"

definition selectionModelForAuth :: "alias_env \<Rightarrow> Auth \<Rightarrow> string \<Rightarrow> string" where
  "selectionModelForAuth env a routeModel =
     (let r0 = rewriteModelForAuth routeModel a;
          requestedModel = (if trim_space r0 = [] then trim_space routeModel else r0);
          resolved = applyOAuthModelAlias env a requestedModel
      in if trim_space resolved = [] then requestedModel else resolved)"

definition selectionModelKeyForAuth :: "alias_env \<Rightarrow> Auth \<Rightarrow> string \<Rightarrow> string" where
  "selectionModelKeyForAuth env a routeModel = canonicalModelKey (selectionModelForAuth env a routeModel)"

definition authSupportsRouteModel :: "alias_env \<Rightarrow> ModelRegistry \<Rightarrow> Auth \<Rightarrow> string \<Rightarrow> bool" where
  "authSupportsRouteModel env r a routeModel =
     (let routeKey = canonicalModelKey routeModel; selectionKey = selectionModelKeyForAuth env a routeModel in
      routeKey = [] \<or> ClientSupportsModel r (au_id a) routeKey \<or>
      (selectionKey \<noteq> [] \<and> selectionKey \<noteq> routeKey \<and> ClientSupportsModel r (au_id a) selectionKey))"

definition routeAwareSelectionRequired :: "alias_env \<Rightarrow> Auth \<Rightarrow> string \<Rightarrow> bool" where
  "routeAwareSelectionRequired env a routeModel =
     (trim_space routeModel \<noteq> [] \<and> selectionModelKeyForAuth env a routeModel \<noteq> canonicalModelKey routeModel)"

section \<open>Configured API keys\<close>

definition matches_credentials :: "Auth \<Rightarrow> APIKeyConfigEntry \<Rightarrow> bool" where
  "matches_credentials a e =
     (let attrKey = authAttribute a ''api_key''; attrBase = authAttribute a ''base_url'';
          cfgKey = trim_space (ak_api_key e); cfgBase = trim_space (ak_base_url e)
      in if attrKey \<noteq> [] \<and> attrBase \<noteq> [] then equal_fold cfgKey attrKey \<and> equal_fold cfgBase attrBase
         else if attrKey \<noteq> [] then equal_fold cfgKey attrKey \<and> (cfgBase = [] \<or> equal_fold cfgBase attrBase)
         else attrBase \<noteq> [] \<and> equal_fold cfgBase attrBase)"

definition config_index :: "Auth \<Rightarrow> int option" where
  "config_index a = (if AuthSourceKind a = ''config'' then parse_int64 (authAttribute a ''config_index'') else None)"

text \<open>\<open>x\<close>, or else \<open>y\<close>.\<close>

definition or_else :: "'a option \<Rightarrow> 'a option \<Rightarrow> 'a option" where
  "or_else x y = (case x of None \<Rightarrow> y | Some v \<Rightarrow> Some v)"

definition resolveAPIKeyConfig :: "APIKeyConfigEntry list \<Rightarrow> Auth \<Rightarrow> APIKeyConfigEntry option" where
  "resolveAPIKeyConfig entries a =
     or_else (case config_index a of None \<Rightarrow> None
        | Some i \<Rightarrow> if 0 \<le> i \<and> i < int (length entries) \<and> matches_credentials a (entries ! nat i) then Some (entries ! nat i) else None)
     (or_else (find (\<lambda>e. matches_credentials a e \<and> equal_fold (trim_space (ak_prefix e)) (trim_space (au_prefix a)) \<and>
        equal_fold (trim_space (ak_proxy_url e)) (trim_space (au_proxy_url a))) entries)
     (or_else (find (matches_credentials a) entries)
        (if authAttribute a ''api_key'' = [] then None
         else find (\<lambda>e. equal_fold (trim_space (ak_api_key e)) (authAttribute a ''api_key'')) entries)))"

definition resolveOpenAICompatConfigForAuth :: "RoutingConfig \<Rightarrow> Auth \<Rightarrow> string \<Rightarrow> string \<Rightarrow> compat_entry option" where
  "resolveOpenAICompatConfigForAuth cfg a providerKey compatName =
     (if AuthSourceKind a = ''config'' then
        (case au_openai_compatibility_index a of None \<Rightarrow> None
         | Some i \<Rightarrow> if i < 0 \<or> i \<ge> int (length (rc_compat cfg)) \<or> oc_disabled (ce_config (rc_compat cfg ! nat i)) then None
             else Some (rc_compat cfg ! nat i))
      else let candidates = filter (\<lambda>v. v \<noteq> []) (map trim_space [compatName, providerKey, au_provider a]) in
        find (\<lambda>e. \<not> oc_disabled (ce_config e) \<and> list_ex (\<lambda>c. equal_fold c (oc_name (ce_config e))) candidates) (rc_compat cfg))"

definition isConfiguredModelRoutingAuth :: "Auth \<Rightarrow> bool" where
  "isConfiguredModelRoutingAuth a =
     (AuthKind a = AuthKindAPIKey \<or> (AuthSourceKind a = ''config'' \<and> authAttribute a ''compat_name'' \<noteq> []))"

definition isConfiguredOpenAICompatAuth :: "Auth \<Rightarrow> bool" where
  "isConfiguredOpenAICompatAuth a =
     (isConfiguredModelRoutingAuth a \<and>
      (equal_fold (trim_space (au_provider a)) ''openai-compatibility'' \<or> authAttribute a ''compat_name'' \<noteq> []))"

text \<open>The models of the entry configured for a credential, by its provider; the switch is written
  three times in the source.\<close>

definition models_of :: "APIKeyConfigEntry option \<Rightarrow> OAuthModelAlias list" where
  "models_of e = (case e of None \<Rightarrow> [] | Some k \<Rightarrow> ak_models k)"

definition compat_models :: "RoutingConfig \<Rightarrow> Auth \<Rightarrow> OAuthModelAlias list" where
  "compat_models cfg a =
     (let compatName = authAttribute a ''compat_name'' in
      if compatName \<noteq> [] \<or> equal_fold (trim_space (au_provider a)) ''openai-compatibility'' then
        (case resolveOpenAICompatConfigForAuth cfg a (authAttribute a ''provider_key'') compatName of
           None \<Rightarrow> [] | Some e \<Rightarrow> ce_models e)
      else [])"

definition configuredModelAliasEntries :: "RoutingConfig \<Rightarrow> Auth \<Rightarrow> OAuthModelAlias list" where
  "configuredModelAliasEntries cfg a =
     (let provider = to_lower (trim_space (au_provider a)) in
      if provider = ''gemini'' then models_of (resolveAPIKeyConfig (rc_gemini cfg) a)
      else if provider = ''gemini-interactions'' then models_of (resolveAPIKeyConfig (rc_interactions cfg) a)
      else if provider = ''claude'' then models_of (resolveAPIKeyConfig (rc_claude cfg) a)
      else if provider = ''codex'' then models_of (resolveAPIKeyConfig (rc_codex cfg) a)
      else if provider = ''xai'' then models_of (resolveAPIKeyConfig (rc_xai cfg) a)
      else if provider = ''vertex'' then models_of (resolveAPIKeyConfig (rc_vertex cfg) a)
      else compat_models cfg a)"

definition pool_step :: "string \<Rightarrow> SuffixResult \<Rightarrow> string list \<Rightarrow> OAuthModelAlias \<Rightarrow> string list" where
  "pool_step candidate r out e =
     (let name = trim_space (oa_name e); alias_name = trim_space (oa_alias e);
          resolved = preserveResolvedModelSuffix (if name \<noteq> [] then name else candidate) r;
          key = to_lower (trim_space resolved)
      in if candidate = [] \<or> alias_name = [] \<or> \<not> equal_fold alias_name candidate \<or> key = [] \<or>
            key \<in> set (map (\<lambda>x. to_lower (trim_space x)) out)
         then out else out @ [resolved])"

definition resolveModelAliasPoolFromConfigModels :: "string \<Rightarrow> OAuthModelAlias list \<Rightarrow> string list" where
  "resolveModelAliasPoolFromConfigModels requestedModel models =
     (let (r, candidates) = modelAliasLookupCandidates requestedModel in
      case first_result (\<lambda>c. let out = foldl (pool_step c r) [] models in if out = [] then None else Some out) candidates of
        Some out \<Rightarrow> out
      | None \<Rightarrow>
          (case first_result (\<lambda>c. find (\<lambda>e. c \<noteq> [] \<and> trim_space (oa_name e) \<noteq> [] \<and> equal_fold (trim_space (oa_name e)) c) models) candidates of
             Some e \<Rightarrow> [preserveResolvedModelSuffix (trim_space (oa_name e)) r]
           | None \<Rightarrow> []))"

definition resolveModelAliasFromConfigModels :: "string \<Rightarrow> OAuthModelAlias list \<Rightarrow> string" where
  "resolveModelAliasFromConfigModels requestedModel models =
     (case resolveModelAliasPoolFromConfigModels requestedModel models of [] \<Rightarrow> [] | m # _ \<Rightarrow> m)"

section \<open>The table of the configured keys\<close>

definition add_model_alias :: "string \<Rightarrow> string \<Rightarrow> (string, string) gomap \<Rightarrow> (string, string) gomap" where
  "add_model_alias key0 name out =
     (let key = to_lower (trim_space key0) in if key = [] \<or> mget out key \<noteq> None then out else mput key name out)"

definition compile_model :: "(string, string) gomap \<Rightarrow> OAuthModelAlias \<Rightarrow> (string, string) gomap" where
  "compile_model out e =
     (let alias_name = trim_space (oa_alias e); name = trim_space (oa_name e) in
      if alias_name = [] \<or> name = [] then out
      else add_model_alias (sr_model_name (ParseSuffix name)) name (add_model_alias name name
        (add_model_alias (sr_model_name (ParseSuffix alias_name)) name (add_model_alias alias_name name out))))"

definition compileAPIKeyModelAliasForModels :: "OAuthModelAlias list \<Rightarrow> (string, string) gomap" where
  "compileAPIKeyModelAliasForModels models = foldl compile_model [] models"

definition rebuild_key_aliases :: "RoutingConfig \<Rightarrow> (string, Auth) gomap \<Rightarrow> (string, (string, string) gomap) gomap" where
  "rebuild_key_aliases cfg auths =
     foldl (\<lambda>out (i, a).
       if trim_space (au_id a) = [] \<or> \<not> isConfiguredModelRoutingAuth a then out
       else let byAlias = compileAPIKeyModelAliasForModels (configuredModelAliasEntries cfg a)
         in if byAlias \<noteq> [] then mput (au_id a) byAlias out else out) [] auths"

definition lookupAPIKeyUpstreamModel :: "alias_env \<Rightarrow> string \<Rightarrow> string \<Rightarrow> string" where
  "lookupAPIKeyUpstreamModel env authID0 requestedModel0 =
     (let authID = trim_space authID0; requestedModel = trim_space requestedModel0 in
      if authID = [] \<or> requestedModel = [] then []
      else let byAlias = mget_or [] (ae_key_aliases env) authID;
               k0 = to_lower requestedModel;
               baseKey = to_lower (trim_space (sr_model_name (ParseSuffix requestedModel)));
               keys = k0 # (if baseKey \<noteq> [] \<and> baseKey \<noteq> k0 then [baseKey] else [])
        in case first_result (\<lambda>k. let resolved = trim_space (mget_or [] byAlias k) in if resolved = [] then None else Some resolved) keys of
             None \<Rightarrow> []
           | Some resolved \<Rightarrow> preserveRequestedModelSuffix requestedModel resolved)"

definition applyAPIKeyModelAliasWithRouting :: "alias_env \<Rightarrow> Auth \<Rightarrow> string \<Rightarrow> string" where
  "applyAPIKeyModelAliasWithRouting env a requestedModel0 =
     (if AuthKind a \<noteq> AuthKindAPIKey then requestedModel0
      else let requestedModel = trim_space requestedModel0 in
        if requestedModel = [] then requestedModel
        else let fast = lookupAPIKeyUpstreamModel env (au_id a) requestedModel;
                 slow = resolveModelAliasFromConfigModels requestedModel (configuredModelAliasEntries (ae_routing env) a)
          in if fast \<noteq> [] then fast else if slow \<noteq> [] then slow else requestedModel)"

definition resolveAPIKeyModelAliasWithResult :: "alias_env \<Rightarrow> Auth \<Rightarrow> string \<Rightarrow> OAuthModelAliasResult" where
  "resolveAPIKeyModelAliasWithResult env a requestedModel0 =
     (let requestedModel = trim_space requestedModel0;
          models = configuredModelAliasEntries (ae_routing env) a
      in if requestedModel = [] then no_alias
         else let r = resolveModelAliasResultFromConfigModels requestedModel models in
           if models = [] \<or> trim_space (ar_upstream_model r) = [] then no_alias\<lparr>ar_upstream_model := requestedModel\<rparr> else r)"

section \<open>The upstream models of an attempt\<close>

definition resolveExecutionAliasResult :: "alias_env \<Rightarrow> Auth \<Rightarrow> string \<Rightarrow> OAuthModelAliasResult" where
  "resolveExecutionAliasResult env a requestedModel =
     (if isConfiguredModelRoutingAuth a then resolveAPIKeyModelAliasWithResult env a requestedModel
      else applyOAuthModelAliasWithResult env a requestedModel)"

definition executionAliasPoolModel :: "Auth \<Rightarrow> string \<Rightarrow> OAuthModelAliasResult \<Rightarrow> string" where
  "executionAliasPoolModel a requestedModel r =
     (if isConfiguredModelRoutingAuth a \<and> trim_space requestedModel \<noteq> [] then requestedModel
      else if trim_space (ar_upstream_model r) \<noteq> [] then ar_upstream_model r else requestedModel)"

definition openAICompatProviderKey :: "Auth \<Rightarrow> string" where
  "openAICompatProviderKey a =
     (let providerKey = authAttribute a ''provider_key''; compatName = authAttribute a ''compat_name'' in
      if providerKey \<noteq> [] then OpenAICompatibleProviderKey providerKey
      else if compatName \<noteq> [] then OpenAICompatibleProviderKey compatName
      else OpenAICompatibleProviderKey (au_provider a))"

definition openAICompatModelPoolKey :: "Auth \<Rightarrow> string \<Rightarrow> string" where
  "openAICompatModelPoolKey a requestedModel =
     (let b = trim_space (sr_model_name (ParseSuffix requestedModel)); base = (if b = [] then trim_space requestedModel else b)
      in to_lower (trim_space (au_id a)) @ ''|'' @ openAICompatProviderKey a @ ''|'' @ to_lower base)"

definition maxPoolOffset :: int where "maxPoolOffset = 2147483640"

definition nextModelPoolOffset :: "string \<Rightarrow> nat \<Rightarrow> (string, int) gomap \<Rightarrow> (string, int) gomap \<times> nat" where
  "nextModelPoolOffset key0 n offsets =
     (let key = trim_space key0 in
      if n \<le> 1 \<or> key = [] then (offsets, 0)
      else let o1 = mget_or 0 offsets key; offset = (if o1 \<ge> maxPoolOffset then 0 else o1)
        in (mput key (offset + 1) offsets, nat (offset mod int n)))"

definition rotateStrings :: "string list \<Rightarrow> nat \<Rightarrow> string list" where
  "rotateStrings vals offset =
     (if length vals \<le> 1 then vals else let k = offset mod length vals in drop k vals @ take k vals)"

definition resolveOpenAICompatUpstreamModelPool :: "RoutingConfig \<Rightarrow> Auth \<Rightarrow> string \<Rightarrow> string list" where
  "resolveOpenAICompatUpstreamModelPool cfg a requestedModel =
     (if \<not> isConfiguredOpenAICompatAuth a \<or> trim_space requestedModel = [] then []
      else case resolveOpenAICompatConfigForAuth cfg a (authAttribute a ''provider_key'') (authAttribute a ''compat_name'') of
             None \<Rightarrow> []
           | Some e \<Rightarrow> resolveModelAliasPoolFromConfigModels (trim_space requestedModel) (ce_models e))"

text \<open>The upstream models in the order they are tried, whether they are a pool, and the alias.\<close>

definition executionModelCandidatesWithAlias ::
  "alias_env \<Rightarrow> Auth \<Rightarrow> string \<Rightarrow> (string, int) gomap \<Rightarrow> (string, int) gomap \<times> string list \<times> bool \<times> OAuthModelAliasResult" where
  "executionModelCandidatesWithAlias env a routeModel offsets =
     (let requestedModel = rewriteModelForAuth routeModel a;
          r = resolveExecutionAliasResult env a requestedModel;
          upstreamModel = executionAliasPoolModel a requestedModel r;
          pool = resolveOpenAICompatUpstreamModelPool (ae_routing env) a upstreamModel;
          (offsets', candidates) =
            (if length pool > 1 then
               (let (os, k) = nextModelPoolOffset (openAICompatModelPoolKey a upstreamModel) (length pool) offsets
                in (os, rotateStrings pool k))
             else if pool \<noteq> [] then (offsets, pool)
             else let resolved = applyAPIKeyModelAliasWithRouting env a upstreamModel
               in (offsets, [if trim_space resolved = [] then upstreamModel else resolved]))
      in (offsets', candidates, length candidates > 1, r))"

definition executionResultModel :: "string \<Rightarrow> string \<Rightarrow> bool \<Rightarrow> string" where
  "executionResultModel routeModel upstreamModel pooled =
     (if pooled \<and> trim_space upstreamModel \<noteq> [] then trim_space upstreamModel
      else if trim_space routeModel \<noteq> [] then trim_space routeModel else trim_space upstreamModel)"

definition stateModelForExecution :: "alias_env \<Rightarrow> Auth \<Rightarrow> string \<Rightarrow> string \<Rightarrow> bool \<Rightarrow> string" where
  "stateModelForExecution env a routeModel upstreamModel pooled =
     (let selectionModel = selectionModelForAuth env a routeModel in
      if canonicalModelKey selectionModel = canonicalModelKey upstreamModel \<and> trim_space selectionModel \<noteq> []
      then trim_space upstreamModel
      else executionResultModel routeModel upstreamModel pooled)"

definition filterExecutionModels :: "alias_env \<Rightarrow> Auth \<Rightarrow> string \<Rightarrow> string list \<Rightarrow> bool \<Rightarrow> time \<Rightarrow> string list" where
  "filterExecutionModels env a routeModel models pooled now =
     filter (\<lambda>m. \<not> fst (isAuthBlockedForModel (Some a) (stateModelForExecution env a routeModel m pooled) now)) models"

definition preparedExecutionModelsWithAlias ::
  "alias_env \<Rightarrow> Auth \<Rightarrow> string \<Rightarrow> time \<Rightarrow> (string, int) gomap \<Rightarrow> (string, int) gomap \<times> string list \<times> bool \<times> OAuthModelAliasResult" where
  "preparedExecutionModelsWithAlias env a routeModel now offsets =
     (let (offsets', candidates, pooled, r) = executionModelCandidatesWithAlias env a routeModel offsets
      in (offsets', filterExecutionModels env a routeModel candidates pooled now, pooled, r))"

section \<open>Ordered chains\<close>

record OrderedCandidate =
  oc_channel :: string
  oc_upstream_model :: string
  oc_config_alias :: string
  oc_force_mapping :: bool

definition resolveCandidateUpstreamModel :: "string \<Rightarrow> SuffixResult \<Rightarrow> string" where
  "resolveCandidateUpstreamModel upstream0 r =
     (let upstream = trim_space upstream0 in
      if upstream = [] then []
      else if sr_has_suffix (ParseSuffix upstream) then upstream
      else if sr_has_suffix r \<and> sr_raw_suffix r \<noteq> [] then upstream @ ''('' @ sr_raw_suffix r @ '')''
      else upstream)"

definition chain_of :: "string \<Rightarrow> SuffixResult \<Rightarrow> oauthModelAliasEntry list \<Rightarrow> OrderedCandidate list" where
  "chain_of channel r entries =
     map (\<lambda>e. \<lparr>oc_channel = channel, oc_upstream_model = resolveCandidateUpstreamModel (ae_upstream_model e) r,
              oc_config_alias = ae_config_alias e, oc_force_mapping = ae_force_mapping e\<rparr>)
       (filter (\<lambda>e. resolveCandidateUpstreamModel (ae_upstream_model e) r \<noteq> []) entries)"

definition resolveOrderedCandidates :: "oauthModelAliasTable \<Rightarrow> string \<Rightarrow> string \<Rightarrow> OrderedCandidate list" where
  "resolveOrderedCandidates table channel0 requestedModel0 =
     (let channel = to_lower (trim_space channel0); requestedModel = trim_space requestedModel0 in
      if channel = [] \<or> requestedModel = [] then []
      else let byAlias = mget_or [] (at_ordered table) channel;
               r = ParseSuffix requestedModel;
               candidates = sr_model_name r # (if sr_model_name r \<noteq> requestedModel then [requestedModel] else [])
        in case first_result (\<lambda>requested. let key = to_lower (trim_space requested) in
               if key = [] then None
               else let out = chain_of channel r (mget_or [] byAlias key) in if out = [] then None else Some out) candidates of
             None \<Rightarrow> []
           | Some out \<Rightarrow> out)"

definition compileOrderedCandidatesFromConfig :: "(string, OAuthModelAlias list) gomap \<Rightarrow> string \<Rightarrow> string \<Rightarrow> OrderedCandidate list" where
  "compileOrderedCandidatesFromConfig aliases channel requestedModel =
     resolveOrderedCandidates (compileOAuthModelAliasTable aliases) channel requestedModel"

section \<open>Patterns\<close>

text \<open>What a pattern means: a star stands for any text, every other character for itself.\<close>

fun glob :: "string \<Rightarrow> string \<Rightarrow> bool" where
  "glob [] v = (v = [])"
| "glob (c # p) v = (if c = CHR ''*'' then list_ex (\<lambda>k. glob p (drop k v)) [0..<Suc (length v)]
     else v \<noteq> [] \<and> hd v = c \<and> glob p (tl v))"

lemma has_prefix_iff: "has_prefix s p \<longleftrightarrow> (\<exists>t. s = p @ t)"
  by (induction s p rule: has_prefix.induct) auto

lemma has_suffix_iff: "has_suffix s p \<longleftrightarrow> (\<exists>t. s = t @ p)"
proof
  assume "has_suffix s p"
  then obtain t where "rev s = rev p @ t" by (auto simp: has_suffix_def has_prefix_iff)
  then have "s = rev t @ p" by (metis rev_append rev_rev_ident)
  then show "\<exists>t. s = t @ p" by blast
qed (auto simp: has_suffix_def has_prefix_iff)

lemma cut_Some: "cut sep s = Some (a, b) \<Longrightarrow> s = a @ sep @ b"
  by (induction s arbitrary: a b) (auto simp: has_prefix_iff split: if_splits)

text \<open>The cut is at the first occurrence: every other one lies further right.\<close>

lemma cut_first: "\<exists>a b x. cut sep (a' @ sep @ b') = Some (a, b) \<and> b = x @ b'"
proof (induction a')
  case Nil
  show ?case
  proof (cases "sep @ b'")
    case (Cons c s)
    have "has_prefix (c # s) sep" unfolding Cons [symmetric] has_prefix_iff by blast
    then have "cut sep (sep @ b') = Some ([], drop (length sep) (sep @ b'))" unfolding Cons by simp
    then show ?thesis by simp
  qed simp
next
  case (Cons c a')
  show ?case
  proof (cases "has_prefix (c # a' @ sep @ b') sep")
    case True
    then obtain t where t: "c # a' @ sep @ b' = sep @ t" by (auto simp: has_prefix_iff)
    from arg_cong [OF t, of length] have "length b' \<le> length t" by simp
    moreover have "\<exists>y. t = y @ b' \<or> b' = y @ t"
      using t by (metis append_eq_append_conv2 append_Cons append_assoc)
    ultimately have "\<exists>x. t = x @ b'" by auto
    moreover have "cut sep (c # a' @ sep @ b') = Some ([], drop (length sep) (c # a' @ sep @ b'))"
      by (simp only: cut.simps True if_True)
    moreover have "drop (length sep) (c # a' @ sep @ b') = t" unfolding t by simp
    ultimately show ?thesis by auto
  next
    case False
    then show ?thesis using Cons by force
  qed
qed

lemma match_segments_more: "match_segments segs v \<Longrightarrow> match_segments segs (x @ v)"
proof (induction segs v arbitrary: x rule: match_segments.induct)
  case (2 seg segs v)
  show ?case
  proof (cases "seg = []")
    case False
    then obtain a b where ab: "cut seg v = Some (a, b)" "match_segments segs b"
      using "2.prems" by (auto split: option.splits)
    have v: "v = a @ seg @ b" by (rule cut_Some [OF ab(1)])
    obtain a' b' y where c: "cut seg (x @ v) = Some (a', b')" "b' = y @ b"
      using cut_first [of seg "x @ a" b] v by auto
    have "match_segments segs b'" unfolding c(2) by (rule "2.IH"(2) [OF False ab(1) refl ab(2)])
    then show ?thesis using False c(1) by simp
  qed (use 2 in simp)
qed simp

lemma match_segments_Cons:
  "match_segments (seg # segs) v \<longleftrightarrow> (\<exists>a b. v = a @ seg @ b \<and> match_segments segs b)"
proof (cases "seg = []")
  case True
  then show ?thesis by (auto intro: match_segments_more)
next
  case False
  show ?thesis
  proof
    assume "match_segments (seg # segs) v"
    then obtain a b where "cut seg v = Some (a, b)" "match_segments segs b" using False by (auto split: option.splits)
    then show "\<exists>a b. v = a @ seg @ b \<and> match_segments segs b" using cut_Some by blast
  next
    assume "\<exists>a b. v = a @ seg @ b \<and> match_segments segs b"
    then obtain a b where v: "v = a @ seg @ b" "match_segments segs b" by blast
    obtain a' b' x where c: "cut seg v = Some (a', b')" "b' = x @ b" using cut_first [of seg a b] v(1) by auto
    then show "match_segments (seg # segs) v" using False match_segments_more [OF v(2)] by simp
  qed
qed

text \<open>Splitting at the stars.\<close>

lemma split_on_ne: "split_on d s \<noteq> []"
  by (induction s) (auto split: list.splits)

lemma split_on_Nil_iff: "tl (split_on d s) = [] \<longleftrightarrow> d \<notin> set s"
proof (induction s)
  case (Cons c s)
  then show ?case using split_on_ne [of d s] by (cases "split_on d s") auto
qed simp

lemma glob_star: "glob (CHR ''*'' # p) v \<longleftrightarrow> (\<exists>a b. v = a @ b \<and> glob p b)"
proof -
  have "glob (CHR ''*'' # p) v \<longleftrightarrow> (\<exists>k \<le> length v. glob p (drop k v))"
    by (auto simp: list_ex_iff less_Suc_eq_le simp del: upt_Suc)
  also have "\<dots> \<longleftrightarrow> (\<exists>a b. v = a @ b \<and> glob p b)"
    by (metis append_take_drop_id append_eq_conv_conj length_append le_add1)
  finally show ?thesis .
qed

lemma glob_literal: "CHR ''*'' \<notin> set p \<Longrightarrow> glob (p @ q) v \<longleftrightarrow> (\<exists>t. v = p @ t \<and> glob q t)"
proof (induction p arbitrary: v)
  case (Cons c p)
  then show ?case by (cases v) auto
qed simp

lemma glob_plain: "CHR ''*'' \<notin> set p \<Longrightarrow> glob p v \<longleftrightarrow> v = p"
  using glob_literal [of p "[]" v] by auto

text \<open>The pattern with these parts.\<close>

fun stars :: "string list \<Rightarrow> string" where
  "stars [] = []"
| "stars [p] = p"
| "stars (p # ps) = p @ CHR ''*'' # stars ps"

lemma stars_split: "stars (split_on (CHR ''*'') s) = s"
proof (induction s)
  case (Cons c s)
  then show ?case using split_on_ne [of "CHR ''*''" s]
    by (cases "split_on (CHR ''*'') s"; cases "tl (split_on (CHR ''*'') s)") (auto simp: neq_Nil_conv)
qed simp

lemma split_no_star: "p \<in> set (split_on d s) \<Longrightarrow> d \<notin> set p"
proof (induction s arbitrary: p)
  case (Cons c s)
  then show ?case using split_on_ne [of d s] by (cases "split_on d s") (auto split: if_splits)
qed simp

lemma stars_tail: "ps \<noteq> [] \<Longrightarrow> stars (p # ps) = p @ CHR ''*'' # stars ps"
  by (cases ps) auto

text \<open>After a star: any text, the segments in order, and the suffix at the end.\<close>

lemma segments_glob:
  "(\<forall>p \<in> set (segs @ [suf]). CHR ''*'' \<notin> set p) \<Longrightarrow>
   (\<exists>a b. v = a @ b \<and> glob (stars (segs @ [suf])) b) \<longleftrightarrow> (\<exists>w. v = w @ suf \<and> match_segments segs w)"
proof (induction segs arbitrary: v)
  case Nil
  then show ?case by (auto simp: glob_plain)
next
  case (Cons s segs)
  then have s: "CHR ''*'' \<notin> set s" and r: "\<forall>p \<in> set (segs @ [suf]). CHR ''*'' \<notin> set p" by auto
  have g: "glob (stars ((s # segs) @ [suf])) b \<longleftrightarrow> (\<exists>t. b = s @ t \<and> (\<exists>x y. t = x @ y \<and> glob (stars (segs @ [suf])) y))" for b
    using glob_literal [OF s, of "CHR ''*'' # stars (segs @ [suf])" b] unfolding glob_star by (simp add: stars_tail)
  have "(\<exists>a b. v = a @ b \<and> glob (stars ((s # segs) @ [suf])) b) \<longleftrightarrow>
      (\<exists>a t. v = a @ s @ t \<and> (\<exists>w. t = w @ suf \<and> match_segments segs w))"
    unfolding g Cons.IH [OF r] by blast
  also have "\<dots> \<longleftrightarrow> (\<exists>w. v = w @ suf \<and> (\<exists>a b. w = a @ s @ b \<and> match_segments segs b))"
    by (intro iffI; elim exE conjE) auto
  also have "\<dots> \<longleftrightarrow> (\<exists>w. v = w @ suf \<and> match_segments (s # segs) w)"
    unfolding match_segments_Cons ..
  finally show ?case .
qed

text \<open>C31. The matching of an excluded pattern is exactly that of a glob: a star stands for any text,
  every other character for itself, and the empty pattern matches nothing. Taking each segment at its
  first occurrence, between the prefix and the suffix, misses no match.\<close>

theorem matchExcludedPattern_glob: "matchExcludedPattern pattern val = (pattern \<noteq> [] \<and> glob pattern val)"
proof (cases "pattern = [] \<or> CHR ''*'' \<notin> set pattern")
  case True
  then show ?thesis by (auto simp: matchExcludedPattern_def glob_plain)
next
  case False
  define parts where "parts = split_on (CHR ''*'') pattern"
  have "tl parts \<noteq> []" using False split_on_Nil_iff [of "CHR ''*''" pattern] by (simp add: parts_def)
  then obtain pre segs suf where p: "parts = pre # segs @ [suf]"
    by (metis append_butlast_last_id list.collapse list.sel(2))
  have ns: "CHR ''*'' \<notin> set x" if "x \<in> set parts" for x using split_no_star that by (simp add: parts_def)
  have pat: "pattern = pre @ CHR ''*'' # stars (segs @ [suf])"
    using stars_split [of pattern] p by (simp add: parts_def stars_tail)
  have "glob pattern val \<longleftrightarrow> (\<exists>t. val = pre @ t \<and> (\<exists>a b. t = a @ b \<and> glob (stars (segs @ [suf])) b))"
    unfolding pat using ns p glob_literal glob_star by (simp del: glob.simps)
  also have "\<dots> \<longleftrightarrow> (\<exists>t. val = pre @ t \<and> (\<exists>w. t = w @ suf \<and> match_segments segs w))"
    by (subst segments_glob) (use ns p in auto)
  also have "\<dots> \<longleftrightarrow> matchExcludedPattern pattern val"
    using False p by (auto simp: matchExcludedPattern_def parts_def [symmetric] Let_def has_prefix_iff has_suffix_iff)
  finally show ?thesis using False by blast
qed

section \<open>Chains\<close>

text \<open>The entries of one channel after compiling: those of an alias in the order of the configuration,
  and the first of them for the plain lookup.\<close>

definition entries_for :: "string \<Rightarrow> OAuthModelAlias list \<Rightarrow> oauthModelAliasEntry list" where
  "entries_for key es = map alias_entry (filter (\<lambda>e. usable_alias e \<and> alias_key e = key) es)"

lemma compile_entries:
  "mget_or [] (snd (foldl compile_entry ([], []) es)) key = entries_for key es \<and>
   (mget (snd (foldl compile_entry ([], []) es)) key = None \<longleftrightarrow> entries_for key es = []) \<and>
   mget (fst (foldl compile_entry ([], []) es)) key = (case entries_for key es of [] \<Rightarrow> None | e # _ \<Rightarrow> Some e)"
proof (induction es rule: rev_induct)
  case (snoc e es)
  obtain r o' where f: "foldl compile_entry ([], []) es = (r, o')" by (cases "foldl compile_entry ([], []) es")
  have s: "entries_for key (es @ [e]) = entries_for key es @ (if usable_alias e \<and> alias_key e = key then [alias_entry e] else [])"
    by (simp add: entries_for_def)
  note IH = snoc [unfolded f fst_conv snd_conv]
  have st: "foldl compile_entry ([], []) (es @ [e]) = compile_entry (r, o') e" by (simp add: f)
  show ?case
  proof (cases "usable_alias e \<and> alias_key e = key")
    case True
    then show ?thesis using IH unfolding st s by (cases "entries_for key es") (auto simp: compile_entry_def mget_or_def)
  next
    case False
    then have "entries_for key (es @ [e]) = entries_for key es" using s by simp
    then show ?thesis using IH False unfolding st by (auto simp: compile_entry_def)
  qed
qed (simp add: entries_for_def mget_or_def)

definition normal_channel :: "string \<times> OAuthModelAlias list \<Rightarrow> string" where
  "normal_channel p = to_lower (trim_space (fst p))"

lemma compile_channel_other:
  assumes "c \<notin> normal_channel ` set aliases"
  shows "mget (at_ordered (foldl compile_channel t aliases)) c = mget (at_ordered t) c"
    "mget (at_reverse (foldl compile_channel t aliases)) c = mget (at_reverse t) c"
  using assms by (induction aliases arbitrary: t) (auto simp: compile_channel_def normal_channel_def Let_def split_def)

lemma compile_table:
  assumes "distinct (map normal_channel aliases)" "(raw, es) \<in> set aliases" "normal_channel (raw, es) \<noteq> []"
  shows "mget_or [] (mget_or [] (at_ordered (compileOAuthModelAliasTable aliases)) (normal_channel (raw, es))) key = entries_for key es"
    "(case mget (at_reverse (compileOAuthModelAliasTable aliases)) (normal_channel (raw, es)) of None \<Rightarrow> None | Some m \<Rightarrow> mget m key) =
       (case entries_for key es of [] \<Rightarrow> None | e # _ \<Rightarrow> Some e)"
proof -
  let ?c = "normal_channel (raw, es)"
  obtain xs ys where a: "aliases = xs @ (raw, es) # ys" using split_list [OF assms(2)] by blast
  define t where "t = foldl compile_channel \<lparr>at_reverse = [], at_ordered = []\<rparr> xs"
  have n: "?c \<notin> normal_channel ` set xs" "?c \<notin> normal_channel ` set ys" using assms(1) a by auto
  have t: "mget (at_ordered t) ?c = None" "mget (at_reverse t) ?c = None"
    using compile_channel_other [OF n(1)] by (simp_all add: t_def)
  obtain r o' where f: "foldl compile_entry ([], []) es = (r, o')" by (cases "foldl compile_entry ([], []) es")
  have c: "to_lower (trim_space raw) \<noteq> []" "?c = to_lower (trim_space raw)" using assms(3) by (simp_all add: normal_channel_def)
  have T: "compileOAuthModelAliasTable aliases = foldl compile_channel (compile_channel t (raw, es)) ys"
    by (simp add: compileOAuthModelAliasTable_def a t_def)
  note ce = compile_entries [of es key, unfolded f fst_conv snd_conv]
  have "mget_or [] (mget_or [] (at_ordered (compile_channel t (raw, es))) ?c) key = entries_for key es"
    using t c ce f by (cases "es = []") (auto simp: compile_channel_def mget_or_def Let_def entries_for_def)
  then show "mget_or [] (mget_or [] (at_ordered (compileOAuthModelAliasTable aliases)) ?c) key = entries_for key es"
    unfolding T mget_or_def compile_channel_other(1) [OF n(2)] .
  have "(case mget (at_reverse (compile_channel t (raw, es))) ?c of None \<Rightarrow> None | Some m \<Rightarrow> mget m key) =
      (case entries_for key es of [] \<Rightarrow> None | e # _ \<Rightarrow> Some e)"
    using t c ce f by (cases "es = []") (auto simp: compile_channel_def Let_def entries_for_def)
  then show "(case mget (at_reverse (compileOAuthModelAliasTable aliases)) ?c of None \<Rightarrow> None | Some m \<Rightarrow> mget m key) =
      (case entries_for key es of [] \<Rightarrow> None | e # _ \<Rightarrow> Some e)"
    unfolding T compile_channel_other(2) [OF n(2)] .
qed

text \<open>The candidate an entry of the configuration stands for.\<close>

definition candidate_for :: "string \<Rightarrow> SuffixResult \<Rightarrow> OAuthModelAlias \<Rightarrow> OrderedCandidate" where
  "candidate_for channel r e =
     \<lparr>oc_channel = channel, oc_upstream_model = preserveResolvedModelSuffix (oa_name e) r,
      oc_config_alias = trim_space (oa_alias e), oc_force_mapping = oa_force_mapping e\<rparr>"

definition configured_chain :: "string \<Rightarrow> SuffixResult \<Rightarrow> string \<Rightarrow> OAuthModelAlias list \<Rightarrow> OrderedCandidate list" where
  "configured_chain channel r model es =
     map (candidate_for channel r) (filter (\<lambda>e. usable_alias e \<and> equal_fold (trim_space (oa_alias e)) (trim_space model)) es)"

lemma resolveCandidate_preserve: "resolveCandidateUpstreamModel u r = preserveResolvedModelSuffix u r"
  by (simp add: resolveCandidateUpstreamModel_def preserveResolvedModelSuffix_def)

lemma preserve_trim: "preserveResolvedModelSuffix (trim_space u) r = preserveResolvedModelSuffix u r"
  by (simp add: preserveResolvedModelSuffix_def)

lemma preserve_ne: "preserveResolvedModelSuffix u r = [] \<longleftrightarrow> trim_space u = []"
  by (auto simp: preserveResolvedModelSuffix_def Let_def)

lemma chain_of_entries: "chain_of channel r (entries_for (to_lower (trim_space model)) es) = configured_chain channel r model es"
proof -
  have "filter (\<lambda>e. resolveCandidateUpstreamModel (ae_upstream_model e) r \<noteq> []) (entries_for (to_lower (trim_space model)) es) =
      entries_for (to_lower (trim_space model)) es"
    by (rule filter_True) (auto simp: entries_for_def alias_entry_def usable_alias_def resolveCandidate_preserve preserve_ne)
  then show ?thesis
    by (auto simp: chain_of_def configured_chain_def entries_for_def candidate_for_def alias_entry_def alias_key_def
        resolveCandidate_preserve preserve_trim equal_fold_def intro!: arg_cong [where f = "map _"] filter_cong)
qed

lemma configured_chain_blank: "trim_space model = [] \<Longrightarrow> configured_chain channel r model es = []"
  by (auto simp: configured_chain_def usable_alias_def equal_fold_def filter_empty_conv)

lemma ordered_chain_eq:
  assumes "distinct (map normal_channel aliases)" "(raw, es) \<in> set aliases" "normal_channel (raw, es) \<noteq> []"
  shows "compileOrderedCandidatesFromConfig aliases raw model =
    (let r = ParseSuffix (trim_space model);
         base = configured_chain (normal_channel (raw, es)) r (sr_model_name r) es
     in if base \<noteq> [] then base else configured_chain (normal_channel (raw, es)) r model es)"
proof (cases "trim_space model = []")
  case True
  have "sr_model_name (ParseSuffix []) = []" by code_simp
  then show ?thesis using True
    by (simp add: compileOrderedCandidatesFromConfig_def resolveOrderedCandidates_def Let_def configured_chain_blank)
next
  case False
  have c: "to_lower (trim_space raw) \<noteq> []" "normal_channel (raw, es) = to_lower (trim_space raw)"
    using assms(3) by (simp_all add: normal_channel_def)
  note entries = compile_table(1) [OF assms, unfolded c(2)]
  let ?r = "ParseSuffix (trim_space model)" and ?c = "to_lower (trim_space raw)"
  have f: "first_result (\<lambda>requested. let key = to_lower (trim_space requested) in
        if key = [] then None else let out = configured_chain ?c ?r requested es in if out = [] then None else Some out) l =
      first_result (\<lambda>requested. let out = configured_chain ?c ?r requested es in if out = [] then None else Some out) l" for l
    by (induction l) (auto simp: Let_def configured_chain_blank)
  have t: "configured_chain ?c ?r (trim_space model) es = configured_chain ?c ?r model es"
    by (simp add: configured_chain_def)
  show ?thesis using False c
    by (auto simp: compileOrderedCandidatesFromConfig_def resolveOrderedCandidates_def entries chain_of_entries f Let_def t configured_chain_blank
        split: option.splits)
qed


text \<open>C15. The ordered chain of a requested model holds the entries of the configuration whose alias it
  is, in the order of the configuration, with the suffix of the request on every upstream model that has
  none: those of the model without its suffix, or else those of the model as it was written.\<close>

theorem ordered_chain_exact:
  assumes "distinct (map normal_channel aliases)" "(raw, es) \<in> set aliases" "normal_channel (raw, es) \<noteq> []"
  shows "compileOrderedCandidatesFromConfig aliases raw model =
    (let r = ParseSuffix (trim_space model);
         base = configured_chain (normal_channel (raw, es)) r (sr_model_name r) es
     in if base \<noteq> [] then base else configured_chain (normal_channel (raw, es)) r model es)"
  by (rule ordered_chain_eq [OF assms])

definition example_alias :: "string \<Rightarrow> string \<Rightarrow> OAuthModelAlias" where
  "example_alias name alias_name = \<lparr>oa_name = name, oa_alias = alias_name, oa_fork = False, oa_display_name = [], oa_force_mapping = False\<rparr>"

definition example_entries :: "OAuthModelAlias list" where
  "example_entries = [example_alias ''opus'' ''best'', example_alias ''sonnet'' ''Best'', example_alias ''opus(max)'' ''best(high)'']"

theorem ordered_chain_exact_witness:
  "map oc_upstream_model (compileOrderedCandidatesFromConfig [(''Claude'', example_entries)] ''Claude'' ''best(low)'') =
     [''opus(low)'', ''sonnet(low)'']"
proof -
  have "distinct (map normal_channel [(''Claude'', example_entries)])" "(''Claude'', example_entries) \<in> set [(''Claude'', example_entries)]"
    by simp_all
  moreover have "normal_channel (''Claude'', example_entries) \<noteq> []" by code_simp
  moreover have "map oc_upstream_model (let r = ParseSuffix (trim_space ''best(low)'');
         base = configured_chain (normal_channel (''Claude'', example_entries)) r (sr_model_name r) example_entries
     in if base \<noteq> [] then base else configured_chain (normal_channel (''Claude'', example_entries)) r ''best(low)'' example_entries) =
     [''opus(low)'', ''sonnet(low)'']" by code_simp
  ultimately show ?thesis using ordered_chain_exact [of "[(''Claude'', example_entries)]" "''Claude''" example_entries "''best(low)''"] by metis
qed

text \<open>The plain lookup over the entries of its channel.\<close>

definition plain_lookup :: "OAuthModelAlias list \<Rightarrow> string \<Rightarrow> oauthModelAliasEntry option" where
  "plain_lookup es c = (case entries_for (to_lower (trim_space c)) es of [] \<Rightarrow> None | e # _ \<Rightarrow> Some e)"

lemma resolve_table_lookup:
  assumes "distinct (map normal_channel aliases)" "(raw, es) \<in> set aliases" "normal_channel (raw, es) \<noteq> []"
  shows "resolveUpstreamModelFromAliasTable (compileOAuthModelAliasTable aliases) model (normal_channel (raw, es)) =
    (let (r, cs) = modelAliasLookupCandidates model in
     case first_result (plain_lookup es) cs of None \<Rightarrow> no_alias
     | Some e \<Rightarrow> matched_result r (sr_model_name r) model (ae_upstream_model e) (ae_config_alias e) (ae_force_mapping e))"
proof -
  let ?t = "at_reverse (compileOAuthModelAliasTable aliases)" and ?c = "normal_channel (raw, es)"
  note tab = compile_table(2) [OF assms]
  have one: "(let key = to_lower (trim_space c) in if key = [] then None
      else case mget rev_map key of None \<Rightarrow> None | Some e \<Rightarrow> if ae_upstream_model e = [] then None else Some e) = plain_lookup es c"
    if "mget ?t ?c = Some rev_map" for rev_map c
  proof -
    have "mget rev_map (to_lower (trim_space c)) = plain_lookup es c"
      using tab [of "to_lower (trim_space c)"] that by (simp add: plain_lookup_def)
    then show ?thesis
      by (auto simp: Let_def plain_lookup_def entries_for_def usable_alias_def alias_key_def alias_entry_def
          filter_empty_conv filter_eq_Cons_iff split: list.splits option.splits)
  qed
  have none: "first_result (plain_lookup es) cs = None" if "mget ?t ?c = None" for cs
  proof -
    have "plain_lookup es c = None" for c using tab [of "to_lower (trim_space c)"] that by (simp add: plain_lookup_def)
    then show ?thesis by (induction cs) simp_all
  qed
  show ?thesis
  proof (cases "mget ?t ?c")
    case None
    then show ?thesis using assms(3) none by (simp add: resolveUpstreamModelFromAliasTable_def split: prod.splits)
  next
    case (Some rev_map)
    then show ?thesis
      by (simp only: resolveUpstreamModelFromAliasTable_def assms(3) if_False Some option.case one [OF Some])
  qed
qed

text \<open>C30. The two resolutions of an alias agree: unless the model as written, with its suffix, is an alias
  itself, the plain lookup answers the upstream model the ordered chain starts with, and finds none when
  the chain is empty.\<close>

theorem chain_starts_at_alias:
  assumes "distinct (map normal_channel aliases)" "(raw, es) \<in> set aliases" "normal_channel (raw, es) \<noteq> []"
    and "sr_model_name (ParseSuffix (trim_space model)) = trim_space model \<or>
      (\<forall>e \<in> set es. usable_alias e \<longrightarrow> \<not> equal_fold (trim_space (oa_alias e)) (trim_space model))"
    and "trim_space (sr_model_name (ParseSuffix (trim_space model))) = sr_model_name (ParseSuffix (trim_space model))"
  shows "ar_upstream_model (resolveUpstreamModelFromAliasTable (compileOAuthModelAliasTable aliases) model (normal_channel (raw, es))) =
    (case compileOrderedCandidatesFromConfig aliases raw model of [] \<Rightarrow> [] | c # _ \<Rightarrow> oc_upstream_model c)"
proof -
  let ?c = "normal_channel (raw, es)" and ?r = "ParseSuffix (trim_space model)" and ?m = "trim_space model"
  let ?b = "sr_model_name ?r"
  have pl: "plain_lookup es x = (case filter (\<lambda>e. usable_alias e \<and> equal_fold (trim_space (oa_alias e)) (trim_space x)) es of
      [] \<Rightarrow> None | e # _ \<Rightarrow> Some (alias_entry e))" for x
  proof -
    have "filter (\<lambda>e. usable_alias e \<and> alias_key e = to_lower (trim_space x)) es =
        filter (\<lambda>e. usable_alias e \<and> equal_fold (trim_space (oa_alias e)) (trim_space x)) es"
      by (auto simp: alias_key_def equal_fold_def intro!: filter_cong)
    then show ?thesis by (auto simp: plain_lookup_def entries_for_def split: list.splits)
  qed
  show ?thesis
  proof (cases "plain_lookup es ?b")
    case None
    then have e: "filter (\<lambda>e. usable_alias e \<and> equal_fold (trim_space (oa_alias e)) (trim_space ?b)) es = []"
      by (simp add: pl split: list.splits)
    have f: "filter (\<lambda>e. usable_alias e \<and> equal_fold (trim_space (oa_alias e)) ?m) es = []"
      using assms(4) e by (auto simp: filter_empty_conv)
    then have "plain_lookup es ?m = None" by (simp add: pl)
    then have "first_result (plain_lookup es) (snd (modelAliasLookupCandidates model)) = None"
      using None by (auto simp: modelAliasLookupCandidates_def Let_def)
    moreover have "compileOrderedCandidatesFromConfig aliases raw model = []"
      unfolding ordered_chain_eq [OF assms(1-3)] using e f by (simp add: configured_chain_def Let_def)
    ultimately show ?thesis by (simp add: resolve_table_lookup [OF assms(1-3)] no_alias_def split_def)
  next
    case (Some en)
    then obtain e rest where e: "filter (\<lambda>e. usable_alias e \<and> equal_fold (trim_space (oa_alias e)) (trim_space ?b)) es = e # rest" "en = alias_entry e"
      by (auto simp: pl split: list.splits)
    then have "usable_alias e" "equal_fold (trim_space (oa_alias e)) ?b"
      using assms(5) by (auto simp: filter_eq_Cons_iff)
    then have ne: "\<not> equal_fold (trim_space (oa_name e)) ?b" "trim_space (oa_name e) \<noteq> []" "?b \<noteq> []"
      by (auto simp: usable_alias_def equal_fold_def)
    have m: "?m \<noteq> []"
    proof
      assume "?m = []"
      moreover have "sr_model_name (ParseSuffix []) = []" by code_simp
      ultimately show False using ne(3) by simp
    qed
    have full: "?b \<noteq> ?m \<Longrightarrow> plain_lookup es ?m = None"
      using assms(4) by (simp add: pl filter_False)
    have "first_result (plain_lookup es) (snd (modelAliasLookupCandidates model)) = Some en" "fst (modelAliasLookupCandidates model) = ?r"
      using Some full m ne(3) by (auto simp: modelAliasLookupCandidates_def Let_def)
    moreover have "compileOrderedCandidatesFromConfig aliases raw model = configured_chain ?c ?r ?b es"
      unfolding ordered_chain_eq [OF assms(1-3)] using e by (simp add: configured_chain_def Let_def)
    ultimately show ?thesis using ne e
      by (simp add: resolve_table_lookup [OF assms(1-3)] matched_result_def configured_chain_def candidate_for_def
          alias_entry_def preserve_trim split_def)
  qed
qed

theorem chain_starts_at_alias_witness:
  "ar_upstream_model (resolveUpstreamModelFromAliasTable (compileOAuthModelAliasTable [(''Claude'', example_entries)]) ''best(low)'' ''claude'') =
     ''opus(low)''"
proof -
  have a: "distinct (map normal_channel [(''Claude'', example_entries)])" "(''Claude'', example_entries) \<in> set [(''Claude'', example_entries)]"
    by simp_all
  have c: "normal_channel (''Claude'', example_entries) = ''claude''" by code_simp
  have e: "sr_model_name (ParseSuffix (trim_space ''best(low)'')) = trim_space ''best(low)'' \<or>
      (\<forall>e \<in> set example_entries. usable_alias e \<longrightarrow> \<not> equal_fold (trim_space (oa_alias e)) (trim_space ''best(low)''))" by code_simp
  have b: "trim_space (sr_model_name (ParseSuffix (trim_space ''best(low)''))) = sr_model_name (ParseSuffix (trim_space ''best(low)''))"
    by code_simp
  have "(case compileOrderedCandidatesFromConfig [(''Claude'', example_entries)] ''Claude'' ''best(low)'' of [] \<Rightarrow> [] | c # _ \<Rightarrow> oc_upstream_model c) =
      ''opus(low)''" by code_simp
  then show ?thesis using chain_starts_at_alias [OF a _ e b] by (simp only: c) simp
qed

text \<open>With an alias of its own for the model with its suffix the two disagree: the plain lookup takes the
  alias as written first, the chain the alias without the suffix.\<close>

theorem exact_alias_shadowed:
  "ar_upstream_model (resolveUpstreamModelFromAliasTable (compileOAuthModelAliasTable [(''claude'', example_entries)]) ''best(high)'' ''claude'') =
     ''opus(max)''"
  "map oc_upstream_model (compileOrderedCandidatesFromConfig [(''claude'', example_entries)] ''claude'' ''best(high)'') =
     [''opus(high)'', ''sonnet(high)'']"
  by code_simp+

text \<open>The two lookups of an API key disagree when an alias is the upstream name of an earlier entry: the
  compiled table answers that name, the entries, and with them the result a response is rewritten by,
  the model of the alias.\<close>

definition example_key_cred :: Auth where
  "example_key_cred = (empty_auth ''k'')\<lparr>au_provider := ''claude'', au_attributes := [(''api_key'', ''secret'')]\<rparr>"

definition example_routing :: RoutingConfig where
  "example_routing = \<lparr>rc_gemini = [], rc_interactions = [],
     rc_claude = [\<lparr>ak_api_key = ''secret'', ak_base_url = [], ak_prefix = [], ak_proxy_url = [],
       ak_models = [example_alias ''A'' ''x'', example_alias ''B'' ''A''], ak_request_scoped_errors = []\<rparr>],
     rc_codex = [], rc_xai = [], rc_vertex = [], rc_compat = [],
     rc_oauth_request_scoped_errors = []\<rparr>"

definition example_env :: alias_env where
  "example_env = \<lparr>ae_unmarshal = (\<lambda>_. None), ae_table = \<lparr>at_reverse = [], at_ordered = []\<rparr>, ae_routing = example_routing,
     ae_key_aliases = rebuild_key_aliases example_routing [(''k'', example_key_cred)]\<rparr>"

theorem key_alias_lookups_disagree:
  "applyAPIKeyModelAliasWithRouting example_env example_key_cred ''A'' = ''A''"
  "ar_upstream_model (resolveAPIKeyModelAliasWithResult example_env example_key_cred ''A'') = ''B''"
  by code_simp+

end
