(* ===== verification/Request_Errors.thy ===== *)
theory Request_Errors
  imports Model_Alias Result_Errors
begin

text \<open>
  Errors as the execution of a request sees them (\<open>conductor_cooldown.go\<close>,
  \<open>conductor_request_scoped_errors.go\<close>, \<open>conductor_ordered_failover.go\<close>, \<open>route_tracker.go\<close>, all
  under \<open>sdk/cliproxy/auth\<close>). A Go error is what the code observes of it: its text and what
  \<open>errors.As\<close> and \<open>errors.Is\<close> find in its tree. Wrapping an error keeps what it finds, unless the
  wrapper answers for itself. The stop marker of a request is put outermost only. Regular expressions and JSON are parameters.
\<close>

section \<open>Errors\<close>

record ordered_trace =
  ot_from_model :: string
  ot_to_model :: string
  ot_reason :: string
  ot_status :: int
  ot_chain_index :: nat
  ot_chain_length :: nat

record Failure =
  fl_text :: string
  fl_error :: "Error option"
  fl_status :: "int option"
  fl_retry_after :: "duration option option"
  fl_body :: "string option"
  fl_request_scoped :: "bool option"
  fl_credential_scoped :: "bool option"
  fl_canceled :: bool
  fl_deadline :: bool
  fl_eof :: bool
  fl_close_code :: "int option"
  fl_model_cooldown :: bool
  fl_terminated :: bool
  fl_stop :: bool
  fl_record :: bool
  fl_trace :: "ordered_trace option"

definition plain_failure :: "string \<Rightarrow> Failure" where
  "plain_failure text = \<lparr>fl_text = text, fl_error = None, fl_status = None, fl_retry_after = None, fl_body = None,
     fl_request_scoped = None, fl_credential_scoped = None, fl_canceled = False, fl_deadline = False, fl_eof = False,
     fl_close_code = None, fl_model_cooldown = False, fl_terminated = False, fl_stop = False, fl_record = False, fl_trace = None\<rparr>"

definition of_error :: "Error \<Rightarrow> Failure" where
  "of_error e = (plain_failure (ErrorText (Some e)))
     \<lparr>fl_error := Some e, fl_status := Some (er_http_status e), fl_request_scoped := Some (IsRequestScoped (Some e))\<rparr>"

text \<open>The error of a pick; \<open>text\<close> is what \<open>modelCooldownError.Error\<close> prints.\<close>

definition of_pick_error :: "(string \<Rightarrow> string \<Rightarrow> duration \<Rightarrow> string) \<Rightarrow> pick_error \<Rightarrow> Failure" where
  "of_pick_error text e = (case e of
       AuthError err \<Rightarrow> of_error err
     | ModelCooldownError model provider resetIn \<Rightarrow>
         (plain_failure (text model provider resetIn))\<lparr>fl_status := Some 429, fl_model_cooldown := True\<rparr>)"

definition statusCodeFromError :: "Failure \<Rightarrow> int" where
  "statusCodeFromError f = (case fl_status f of None \<Rightarrow> 0 | Some s \<Rightarrow> s)"

definition retryAfterFromError :: "Failure \<Rightarrow> duration option" where
  "retryAfterFromError f = (case fl_retry_after f of None \<Rightarrow> None | Some r \<Rightarrow> r)"

definition isRequestScopedError :: "Failure \<Rightarrow> bool" where
  "isRequestScopedError f = (fl_request_scoped f = Some True)"

section \<open>Classification\<close>

definition isCloudflareChallengeFailure :: "Failure \<Rightarrow> bool" where
  "isCloudflareChallengeFailure f = isCloudflareChallengeErrorMessage (fl_text f)"

definition isInvalidGrantFailure :: "Failure \<Rightarrow> bool" where
  "isInvalidGrantFailure f \<longleftrightarrow> statusCodeFromError f \<in> {400, 401} \<and> isInvalidGrantErrorMessage (fl_text f)"

definition isInvalidAPIKeyFailure :: "Failure \<Rightarrow> bool" where
  "isInvalidAPIKeyFailure f \<longleftrightarrow> statusCodeFromError f \<in> {400, 401, 403} \<and> isInvalidAPIKeyErrorMessage (fl_text f)"

definition isModelSupportFailure :: "Failure \<Rightarrow> bool" where
  "isModelSupportFailure f \<longleftrightarrow> statusCodeFromError f \<in> {400, 422} \<and> isModelSupportErrorMessage (fl_text f)"

definition isUnauthorizedError :: "Failure \<Rightarrow> bool" where
  "isUnauthorizedError f \<longleftrightarrow> statusCodeFromError f = 401 \<or>
     contains ''status 401'' (to_lower (fl_text f)) \<or> contains ''401 unauthorized'' (to_lower (fl_text f))"

definition isCredentialScopedError :: "Failure \<Rightarrow> bool" where
  "isCredentialScopedError f \<longleftrightarrow> fl_credential_scoped f = Some True \<or> isInvalidAPIKeyFailure f"

definition isRequestInvalidFailure :: "json_lib \<Rightarrow> Failure \<Rightarrow> bool" where
  "isRequestInvalidFailure J f =
     (if isRequestScopedError f then True
      else if isCloudflareChallengeFailure f then False
      else if isInvalidGrantFailure f then False
      else if isInvalidAPIKeyFailure f then False
      else if isModelSupportFailure f then False
      else if IsRequestFault J (statusCodeFromError f) (fl_text f) (fl_status f) then True
      else case fl_error f of None \<Rightarrow> False
        | Some e \<Rightarrow> er_message e \<noteq> [] \<and> IsRequestFault J (statusCodeFromError f) (er_message e) None)"

definition isConnectionLifecycleError :: "Failure \<Rightarrow> bool" where
  "isConnectionLifecycleError f \<longleftrightarrow>
     (case fl_close_code f of None \<Rightarrow> False | Some c \<Rightarrow> c \<in> {1000, 1001, 1006}) \<or>
     statusCodeFromError f = 0 \<and> (fl_canceled f \<or> fl_deadline f \<or> fl_eof f \<or> isConnectionLifecycleMessage (fl_text f))"

definition resultErrorFromError :: "json_lib \<Rightarrow> Failure \<Rightarrow> Error" where
  "resultErrorFromError J f =
     (let e0 = (case fl_error f of Some e \<Rightarrow> e | None \<Rightarrow> auth_error [] (fl_text f));
          e = (if er_http_status e0 = 0 then e0\<lparr>er_http_status := statusCodeFromError f\<rparr> else e0)
      in if isRequestScopedError f \<or> isRequestInvalidFailure J f then e\<lparr>er_code := ErrorCodeRequestScoped\<rparr>
         else if isConnectionLifecycleError f \<and> (er_code e = [] \<or> er_code e = ErrorCodeConnectionLifecycle)
         then e\<lparr>er_code := ErrorCodeConnectionLifecycle\<rparr> else e)"

text \<open>\<open>isExplicitModelNotFoundError\<close>, which walks the JSON of the error, is the parameter \<open>model_not_found\<close>.\<close>

definition isCountTokensEndpointNotFoundError :: "(Failure \<Rightarrow> string \<Rightarrow> bool) \<Rightarrow> Failure \<Rightarrow> string \<Rightarrow> bool" where
  "isCountTokensEndpointNotFoundError model_not_found f requestedModel \<longleftrightarrow>
     statusCodeFromError f = 404 \<and> \<not> model_not_found f (sr_model_name (ParseSuffix requestedModel))"

definition isResponsesCompactRequest :: "string \<Rightarrow> bool" where
  "isResponsesCompactRequest alt \<longleftrightarrow> alt = ''responses/compact''"

definition isResponsesCompactRequestFaultError :: "json_lib \<Rightarrow> string \<Rightarrow> Failure \<Rightarrow> bool" where
  "isResponsesCompactRequestFaultError J alt f =
     (if \<not> isResponsesCompactRequest alt then False
      else if isCredentialScopedError f \<or> isCloudflareChallengeFailure f \<or> isInvalidGrantFailure f then False
      else if IsRequestFault J (statusCodeFromError f) (fl_text f) (fl_status f) then True
      else statusCodeFromError f \<in> {400, 404, 405, 409, 413, 422, 501})"

definition isResponsesCompactAvailabilityNeutralError :: "string \<Rightarrow> Failure \<Rightarrow> Error \<Rightarrow> bool" where
  "isResponsesCompactAvailabilityNeutralError alt f resultErr =
     (if \<not> isResponsesCompactRequest alt then False
      else if er_code resultErr = ErrorCodeForceCooldown then False
      else if isCredentialScopedError f \<or> isCloudflareChallengeFailure f \<or> isInvalidGrantFailure f then False
      else if isCloudflareChallengeResultError (Some resultErr) \<or> isInvalidGrantResultError (Some resultErr) then False
      else let status0 = statusCodeFromError f;
               status = (if status0 = 0 then statusCodeFromResult (Some resultErr) else status0)
        in status \<notin> {401, 402, 403, 429})"

definition auth_failure :: "string \<Rightarrow> string \<Rightarrow> Failure" where
  "auth_failure code message = of_error (auth_error code message)"

definition errEmptyCompletion :: Error where
  "errEmptyCompletion = \<lparr>er_code = ''empty_completion'', er_message = ''upstream returned an empty completion'',
     er_retryable = True, er_http_status = 503\<rparr>"

definition isAuthNotFoundError :: "Failure \<Rightarrow> bool" where
  "isAuthNotFoundError f = (case fl_error f of None \<Rightarrow> False
     | Some e \<Rightarrow> er_code e \<in> {''auth_not_found'', ''auth_unavailable'', ''home_unavailable''})"

section \<open>Wrapping\<close>

definition wrapRequestStopError :: "Failure \<Rightarrow> Failure" where
  "wrapRequestStopError f = f\<lparr>fl_stop := True\<rparr>"

definition unwrapRequestStopError :: "Failure \<Rightarrow> Failure" where
  "unwrapRequestStopError f = f\<lparr>fl_stop := False\<rparr>"

text \<open>A failure to record a result is joined to the failure it was to record (\<open>errors.Join\<close>): what
  \<open>errors.As\<close> looks for is looked for in the latter first.\<close>

definition joinExecutionResultError :: "Failure option \<Rightarrow> Failure \<Rightarrow> Failure" where
  "joinExecutionResultError op rec =
     (let r = rec\<lparr>fl_text := ''record execution result: '' @ fl_text rec, fl_record := True\<rparr> in
      case op of None \<Rightarrow> r
      | Some f \<Rightarrow> \<lparr>fl_text = fl_text f @ [CHR 0x0A] @ fl_text r, fl_error = or_else (fl_error f) (fl_error r),
          fl_status = or_else (fl_status f) (fl_status r), fl_retry_after = or_else (fl_retry_after f) (fl_retry_after r),
          fl_body = or_else (fl_body f) (fl_body r), fl_request_scoped = or_else (fl_request_scoped f) (fl_request_scoped r),
          fl_credential_scoped = or_else (fl_credential_scoped f) (fl_credential_scoped r),
          fl_canceled = (fl_canceled f \<or> fl_canceled r), fl_deadline = (fl_deadline f \<or> fl_deadline r),
          fl_eof = (fl_eof f \<or> fl_eof r), fl_close_code = or_else (fl_close_code f) (fl_close_code r),
          fl_model_cooldown = (fl_model_cooldown f \<or> fl_model_cooldown r), fl_terminated = (fl_terminated f \<or> fl_terminated r),
          fl_stop = (fl_stop f \<or> fl_stop r), fl_record = True, fl_trace = or_else (fl_trace f) (fl_trace r)\<rparr>)"

section \<open>Rules for errors of a request\<close>

definition RequestScopedActionStop :: string where "RequestScopedActionStop = ''stop''"
definition RequestScopedActionStopAndCooldown :: string where "RequestScopedActionStopAndCooldown = ''stop-and-cooldown''"
definition RequestScopedActionContinue :: string where "RequestScopedActionContinue = ''continue''"
definition RequestScopedActionContinueAndCooldown :: string where
  "RequestScopedActionContinueAndCooldown = ''continue-and-cooldown''"

definition strip_prefix :: "string \<Rightarrow> string \<Rightarrow> string option" where
  "strip_prefix s p = (if has_prefix s p then Some (drop (length p) s) else None)"

definition rules_at :: "int option \<Rightarrow> APIKeyConfigEntry list \<Rightarrow> RequestScopedErrorRule list" where
  "rules_at index entries = (case index of None \<Rightarrow> []
     | Some i \<Rightarrow> if 0 \<le> i \<and> i < int (length entries) then ak_request_scoped_errors (entries ! nat i) else [])"

text \<open>\<open>mine\<close> is what the rules in the metadata of the credential decode to.\<close>

definition extractRequestScopedErrorRules ::
  "RoutingConfig \<Rightarrow> RequestScopedErrorRule list \<Rightarrow> Auth \<Rightarrow> RequestScopedErrorRule list" where
  "extractRequestScopedErrorRules cfg mine a =
     (let provider = to_lower (trim_space (au_provider a)) in
      if mine \<noteq> [] then mine
      else if AuthKind a = AuthKindOAuth then mget_or [] (rc_oauth_request_scoped_errors cfg) provider
      else let index = (case mget (au_attributes a) ''config_index'' of None \<Rightarrow> None | Some s \<Rightarrow> parse_int64 (trim_space s));
               providerKey = mget_or [] (au_attributes a) ''provider_key'';
               compat0 = mget_or [] (au_attributes a) ''compat_name'';
               compatName = (if compat0 \<noteq> [] then compat0
                 else case strip_prefix provider ''openai-compatible-'' of Some n \<Rightarrow> n
                 | None \<Rightarrow> (case strip_prefix provider ''openai-compatibility:'' of Some n \<Rightarrow> n | None \<Rightarrow> []));
               isCompat = (compatName \<noteq> [] \<or> providerKey \<noteq> [] \<or> provider = ''openai-compatibility'' \<or>
                 has_prefix provider ''openai-compatibility:'' \<or> has_prefix provider ''openai-compatible'');
               entry = (if isCompat then resolveOpenAICompatConfigForAuth cfg a providerKey compatName else None)
        in case entry of Some e \<Rightarrow> ce_request_scoped_errors e
           | None \<Rightarrow>
               if provider = ''claude'' then rules_at index (rc_claude cfg)
               else if provider = ''codex'' then rules_at index (rc_codex cfg)
               else if provider = ''xai'' then rules_at index (rc_xai cfg)
               else if provider = ''gemini'' then rules_at index (rc_gemini cfg)
               else if provider = ''interactions'' \<or> provider = ''gemini-interactions'' then rules_at index (rc_interactions cfg)
               else [])"

definition extractErrorBody :: "Failure \<Rightarrow> string" where
  "extractErrorBody f =
     (case fl_body f of Some (c # b) \<Rightarrow> c # b
      | _ \<Rightarrow> (case fl_error f of Some e \<Rightarrow> if er_message e \<noteq> [] then er_message e else fl_text f | None \<Rightarrow> fl_text f))"

definition rule_action :: "RequestScopedErrorRule \<Rightarrow> string option" where
  "rule_action rule =
     (let action = to_lower (trim_space (rs_action rule)) in
      if action \<in> {RequestScopedActionStop, RequestScopedActionStopAndCooldown,
                   RequestScopedActionContinue, RequestScopedActionContinueAndCooldown}
      then Some action else None)"

text \<open>\<open>regex\<close> says whether a pattern compiles and matches a text.\<close>

definition rule_matches :: "(string \<Rightarrow> string \<Rightarrow> bool) \<Rightarrow> int \<Rightarrow> string \<Rightarrow> RequestScopedErrorRule \<Rightarrow> bool" where
  "rule_matches regex statusCode body rule \<longleftrightarrow>
     rs_status rule > 0 \<and> rs_status rule = statusCode \<and>
     (list_ex (\<lambda>m. m \<noteq> [] \<and> contains m body) (rs_match rule) \<or>
      list_ex (\<lambda>p. p \<noteq> [] \<and> regex p body) (rs_match_regexr rule))"

definition matchRequestScopedErrorAction ::
  "(string \<Rightarrow> string \<Rightarrow> bool) \<Rightarrow> RequestScopedErrorRule list \<Rightarrow> Failure \<Rightarrow> string option" where
  "matchRequestScopedErrorAction regex rules f =
     first_result (\<lambda>rule. if rule_matches regex (statusCodeFromError f) (extractErrorBody f) rule then rule_action rule else None) rules"

definition applyRequestScopedActionToResult :: "string option \<Rightarrow> Error \<Rightarrow> Error" where
  "applyRequestScopedActionToResult action e =
     (case action of None \<Rightarrow> e
      | Some x \<Rightarrow> if x = RequestScopedActionStop \<or> x = RequestScopedActionContinue then e\<lparr>er_code := ErrorCodeRequestScoped\<rparr>
          else if x = RequestScopedActionStopAndCooldown \<or> x = RequestScopedActionContinueAndCooldown then e\<lparr>er_code := ErrorCodeForceCooldown\<rparr>
          else e)"

definition isRequestScopedStop :: "string option \<Rightarrow> bool" where
  "isRequestScopedStop action = (action \<in> {Some RequestScopedActionStop, Some RequestScopedActionStopAndCooldown})"

section \<open>The routes attempted\<close>

definition maxRouteAttemptsRecorded :: nat where "maxRouteAttemptsRecorded = 16"

record routeAttemptTracker =
  rt_attempts :: "(string \<times> string) list"
  rt_seen :: "(string \<times> string) list"
  rt_omitted :: nat

definition newRouteAttemptTracker :: routeAttemptTracker where
  "newRouteAttemptTracker = \<lparr>rt_attempts = [], rt_seen = [], rt_omitted = 0\<rparr>"

definition sanitizeProviderClass :: "string \<Rightarrow> string" where
  "sanitizeProviderClass p0 =
     (let p = to_lower (trim_space p0) in
      if p \<in> {''gemini'', ''claude'', ''openai'', ''codex'', ''antigravity'', ''aistudio'', ''vertex''} then p
      else if p = ''anthropic'' then ''claude''
      else if p \<in> {''vertexai'', ''vertex_ai''} then ''vertex''
      else ''other'')"

definition sanitizeStatus :: "Failure \<Rightarrow> string" where
  "sanitizeStatus f =
     (let st = (case fl_error f of None \<Rightarrow> 0 | Some e \<Rightarrow> er_http_status e); sc = statusCodeFromError f in
      if 0 < st \<and> st < 1000 then format_int st else if 0 < sc \<and> sc < 1000 then format_int sc else ''error'')"

definition record_route :: "Auth \<Rightarrow> Failure \<Rightarrow> routeAttemptTracker \<Rightarrow> routeAttemptTracker" where
  "record_route a f t =
     (let entry = (sanitizeProviderClass (au_provider a), sanitizeStatus f) in
      if entry \<in> set (rt_seen t) then t
      else let t1 = t\<lparr>rt_seen := entry # rt_seen t\<rparr> in
        if length (rt_attempts t1) \<ge> maxRouteAttemptsRecorded then t1\<lparr>rt_omitted := rt_omitted t1 + 1\<rparr>
        else t1\<lparr>rt_attempts := rt_attempts t1 @ [entry]\<rparr>)"

definition Summary :: "routeAttemptTracker \<Rightarrow> string" where
  "Summary t =
     (if rt_attempts t = [] then []
      else ''attempted routes: ['' @ join '', '' (map (\<lambda>(p, s). p @ '':'' @ s) (rt_attempts t)) @
        (if rt_omitted t > 0 then '', ... (+'' @ format_int (int (rt_omitted t)) @ '' omitted)'' else []) @ '']'')"

definition isStructuredJSON :: "json_lib \<Rightarrow> string \<Rightarrow> bool" where
  "isStructuredJSON J s =
     (let t = trim_space s in
      if length t < 2 then False
      else if (hd t = CHR ''{'' \<and> last t = CHR ''}'') \<or> (hd t = CHR ''['' \<and> last t = CHR '']'') then json_valid J t
      else False)"

definition wrapRouteExhaustion :: "json_lib \<Rightarrow> routeAttemptTracker \<Rightarrow> Failure \<Rightarrow> Failure" where
  "wrapRouteExhaustion J t f =
     (if Summary t = [] then f
      else f\<lparr>fl_text := (if isStructuredJSON J (fl_text f) then fl_text f else fl_text f @ ''; '' @ Summary t),
             fl_status := Some (statusCodeFromError f), fl_retry_after := Some (retryAfterFromError f)\<rparr>)"

section \<open>Failover along an ordered chain\<close>

definition isRequestShapeFaultError :: "json_lib \<Rightarrow> Failure \<Rightarrow> bool" where
  "isRequestShapeFaultError J f =
     (if isRequestScopedError f then True
      else let message = trim_space (case fl_error f of Some e \<Rightarrow> er_message e | None \<Rightarrow> fl_text f) in
        if message = [] then False
        else if has_prefix message ''invalid_request_error:'' then True
        else HasRequestFaultBodyString J message)"

definition permanentOrderedStopError :: "json_lib \<Rightarrow> Failure \<Rightarrow> bool" where
  "permanentOrderedStopError J f =
     (if (case fl_error f of Some e \<Rightarrow> er_code e = ''model_excluded'' | None \<Rightarrow> False) then True
      else if isInvalidGrantFailure f then True
      else if statusCodeFromError f \<in> {401, 403, 404, 413, 410} then True
      else if statusCodeFromError f = 400 \<and> \<not> isRequestShapeFaultError J f then False
      else isRequestInvalidFailure J f)"

text \<open>An error of the start of a stream, which only the streaming path has, is left out.\<close>

definition retryablePreFirstByteError :: "json_lib \<Rightarrow> Failure \<Rightarrow> bool" where
  "retryablePreFirstByteError J f =
     (if permanentOrderedStopError J f then False
      else if fl_canceled f \<or> fl_deadline f then False
      else if statusCodeFromError f \<in> {429, 408, 500, 502, 503, 504, 506, 507, 508, 510, 511, 509, 529} then True
      else case fl_error f of None \<Rightarrow> False | Some e \<Rightarrow> er_code e = ''empty_stream'' \<or> er_retryable e)"

definition annotateOrderedError :: "Failure \<Rightarrow> OrderedCandidate list \<Rightarrow> nat \<Rightarrow> string \<Rightarrow> Failure" where
  "annotateOrderedError f chain idx reason =
     (if chain = [] then f
      else f\<lparr>fl_trace := Some
        \<lparr>ot_from_model = (if idx > 0 then if idx - 1 < length chain then oc_upstream_model (chain ! (idx - 1)) else []
                          else oc_config_alias (chain ! 0)),
         ot_to_model = (if idx < length chain then oc_upstream_model (chain ! idx) else []),
         ot_reason = reason, ot_status = statusCodeFromError f, ot_chain_index = idx, ot_chain_length = length chain\<rparr>\<rparr>)"

definition orderedFailoverShouldFallThrough :: "Failure \<Rightarrow> bool" where
  "orderedFailoverShouldFallThrough f = (case fl_trace f of None \<Rightarrow> False | Some t \<Rightarrow> ot_reason t = ''exhausted'')"

definition orderedChainChannelForProviders :: "string list \<Rightarrow> string" where
  "orderedChainChannelForProviders providers =
     (case first_result (\<lambda>p. let c = OAuthModelAliasChannel (trim_space p) ''oauth'' in if c = [] then None else Some c) providers of
        None \<Rightarrow> [] | Some c \<Rightarrow> c)"

definition orderedCandidateProviders :: "string list \<Rightarrow> string \<Rightarrow> string list" where
  "orderedCandidateProviders providers channel0 =
     (let channel = to_lower (trim_space channel0) in
      if channel = [] then []
      else filter (\<lambda>p. OAuthModelAliasChannel p ''oauth'' = channel) (map trim_space providers))"

end
