(* ===== verification/Scheduler_Shard.thy ===== *)
theory Scheduler_Shard
  imports Scheduler
begin

text \<open>
  The shards of the scheduler: an entry stays what it was classified as until its retry time, the
  indexes list exactly the entries they should through every update, promotion brings every entry up
  to date, and a pick is the choice of its strategy among the ready entries of the highest priority.
\<close>

section \<open>Blocks over time\<close>

lemma state_block_later:
  assumes "t \<le> now"
  shows "state_block s now = (case state_block s t of
      (False, _, _) \<Rightarrow> state_block s now
    | (True, r, n) \<Rightarrow> if n = 0 \<or> now < n then (True, r, n) else state_block s now)"
    and "fst (state_block s now) \<Longrightarrow> fst (state_block s t) \<and> (snd (snd (state_block s t)) = 0 \<or> now < snd (snd (state_block s t)))"
proof -
  let ?u = "ms_unavailable s" and ?q = "qs_exceeded (ms_quota s)" and ?a = "ms_next_retry_after s" and ?b = "qs_next_recover_at (ms_quota s)"
  obtain b r n where t: "state_block s t = (b, r, n)" by (cases "state_block s t")
  note open_ = availabilityBlock_open [of ?u ?q ?a ?b t r now]
  note timed = availabilityBlock_timed(2,3) [of ?u ?q ?a ?b t r n now]
  note free = availabilityBlock_free [of ?u ?q ?a ?b t now]
  show "state_block s now = (case state_block s t of
      (False, _, _) \<Rightarrow> state_block s now
    | (True, r, n) \<Rightarrow> if n = 0 \<or> now < n then (True, r, n) else state_block s now)"
    using t open_ timed(1) assms by (cases b) (auto simp: state_block_def)
  show "fst (state_block s t) \<and> (snd (snd (state_block s t)) = 0 \<or> now < snd (snd (state_block s t)))"
    if "fst (state_block s now)"
    using that t timed(2) free assms by (cases b; cases "n = 0"; cases "now < n") (auto simp: state_block_def)
qed

text \<open>What the loop carries at a later moment: the block it had, unless that has ended.\<close>

definition lives :: "time \<Rightarrow> bool \<times> blockReason \<times> time \<Rightarrow> bool \<times> blockReason \<times> time \<Rightarrow> bool" where
  "lives now l l' \<longleftrightarrow> (if fst l \<and> now < snd (snd l) then l' = l else \<not> fst l')"

definition same_scan ::
  "time \<Rightarrow> (bool \<times> blockReason \<times> time) + (bool \<times> bool \<times> blockReason \<times> time) \<Rightarrow>
   (bool \<times> blockReason \<times> time) + (bool \<times> bool \<times> blockReason \<times> time) \<Rightarrow> bool" where
  "same_scan now r r' = (case r of Inl x \<Rightarrow> r' = Inl x | Inr (m, l) \<Rightarrow> (\<exists>l'. r' = Inr (m, l') \<and> lives now l l'))"

lemma scan_later:
  assumes "t \<le> now" "lives now (b, r, n) (b', r', n')"
  shows "same_scan now (scan_states key t l (m, b, r, n)) (scan_states key now l (m, b', r', n'))"
  using assms(2)
proof (induction l arbitrary: m b r n b' r' n')
  case (Cons x l)
  obtain i so where x: "x = (i, so)" by (cases x)
  note skip = Cons.IH [OF Cons.prems]
  show ?case
  proof (cases "\<exists>s. so = Some s \<and> canonicalModelKey i = key \<and> ms_status s \<noteq> StatusDisabled")
    case False
    then consider "so = None" | s where "so = Some s" "canonicalModelKey i \<noteq> key"
      | s where "so = Some s" "canonicalModelKey i = key" "ms_status s = StatusDisabled" by (cases so) auto
    then show ?thesis by cases (use skip in \<open>simp_all add: x same_scan_def\<close>)
  next
    case True
    then obtain s where s: "so = Some s" "canonicalModelKey i = key" "ms_status s \<noteq> StatusDisabled" by auto
    obtain bt rt nt where st: "state_block s t = (bt, rt, nt)" by (cases "state_block s t")
    obtain bn rn nn where sn: "state_block s now = (bn, rn, nn)" by (cases "state_block s now")
    note later = state_block_later [OF assms(1), of s, unfolded st sn]
    consider "\<not> bt" "\<not> bn" | "bt" "nt = 0" "(bn, rn, nn) = (True, rt, 0)"
      | "bt" "nt \<noteq> 0" "now < nt" "(bn, rn, nn) = (True, rt, nt)" | "bt" "nt \<noteq> 0" "nt \<le> now" "\<not> bn"
      using later by (cases bt) (auto split: if_splits)
    then show ?thesis
    proof cases
      case 1
      then show ?thesis using s st sn skip [of True] by (simp add: x)
    next
      case 2
      then show ?thesis using s st sn by (simp add: x same_scan_def)
    next
      case 3
      show ?thesis
      proof (cases "b \<and> now < n")
        case True
        then have "(b', r', n') = (b, r, n)" using Cons.prems by (simp add: lives_def)
        then show ?thesis
          using s st sn 3 skip [of True] Cons.IH [of True rt nt True rt nt True] by (auto simp: x lives_def)
      next
        case False
        then have nb: "\<not> b'" using Cons.prems by (auto simp: lives_def)
        have u: "\<not> b \<or> n < nt" using False 3 by auto
        have "lives now (True, rt, nt) (True, rt, nt)" using 3 by (simp add: lives_def)
        from Cons.IH [OF this] show ?thesis using s st sn 3 nb u by (simp add: x)
      qed
    next
      case 4
      show ?thesis
      proof (cases "\<not> b \<or> n < nt \<or> (nt = n \<and> rt = blockReasonCooldown)")
        case True
        have "lives now (True, rt, nt) (b', r', n')" using True 4 Cons.prems by (auto simp: lives_def split: if_splits)
        from Cons.IH [OF this] show ?thesis using s st sn 4 True by (simp add: x)
      next
        case False
        then show ?thesis using s st sn 4 skip [of True] by (auto simp: x)
      qed
    qed
  qed
qed (auto simp: same_scan_def)

lemma free_stays: "\<not> fst (isAuthBlockedForModel (Some a) model t) \<Longrightarrow> t \<le> now \<Longrightarrow> \<not> fst (isAuthBlockedForModel (Some a) model now)"
proof -
  assume f: "\<not> fst (isAuthBlockedForModel (Some a) model t)" and t: "t \<le> now"
  have "\<not> credential_quota a t \<longrightarrow> \<not> credential_quota a now" using t by (auto simp: credential_quota_def)
  moreover have "stops now s \<longrightarrow> stops t s" for s using state_block_later(2) [OF t] by (auto simp: stops_def)
  moreover have "fst (auth_block a now) \<longrightarrow> fst (auth_block a t)"
    using availabilityBlock_free [OF _ t] unfolding auth_block_def by blast
  ultimately show ?thesis using f unfolding isAuthBlocked_iff by (auto split: if_splits)
qed

lemma block_stays:
  assumes b: "isAuthBlockedForModel (Some a) model t = (True, r, n)" and t: "t \<le> now" "n = 0 \<or> now < n" "0 \<le> t"
  shows "isAuthBlockedForModel (Some a) model now = (True, r, n)"
proof -
  consider (off) "au_disabled a \<or> au_status a = StatusDisabled"
    | (quota) "\<not> (au_disabled a \<or> au_status a = StatusDisabled)" "credential_quota a t"
    | (rest) "\<not> (au_disabled a \<or> au_status a = StatusDisabled)" "\<not> credential_quota a t" by blast
  then show ?thesis
  proof cases
    case off
    then show ?thesis using b by (simp add: isAuthBlockedForModel_def)
  next
    case quota
    then have n: "r = blockReasonCooldown" "n = qs_next_recover_at (au_quota a)" using b by (simp_all add: isAuthBlockedForModel_def)
    have "t < n" using quota(2) n by (simp add: credential_quota_def)
    show ?thesis
    proof (cases "now < n")
      case True
      then have "credential_quota a now" using quota(2) n by (simp add: credential_quota_def)
      then show ?thesis using quota(1) n by (simp add: isAuthBlockedForModel_def)
    next
      case False
      then have "n = 0" using t(2) by simp
      then show ?thesis using \<open>t < n\<close> t(3) by simp
    qed
  next
    case rest
    then have nq: "\<not> credential_quota a now" using t(1) by (auto simp: credential_quota_def)
    show ?thesis
    proof (cases "model \<noteq> [] \<and> au_model_states a \<noteq> []")
      case False
      then have "availabilityBlock (au_unavailable a) (qs_exceeded (au_quota a)) (au_next_retry_after a) (qs_next_recover_at (au_quota a)) t = (True, r, n)"
        using b rest by (auto simp: isAuthBlockedForModel_def auth_block_def)
      note B = this
      have "auth_block a now = (True, r, n)"
      proof (cases "n = 0")
        case True
        show ?thesis unfolding auth_block_def True by (rule availabilityBlock_open [OF B [unfolded True]])
      next
        case False
        show ?thesis unfolding auth_block_def by (rule availabilityBlock_timed(2) [OF B False]) (use t False in auto)
      qed
      then show ?thesis using False rest nq by (auto simp: isAuthBlockedForModel_def)
    next
      case True
      have "lives now (False, blockReasonNone, 0) (False, blockReasonNone, 0)" by (simp add: lives_def)
      note sc = scan_later [OF t(1) this, where key = "canonicalModelKey model" and l = "au_model_states a" and m = False]
      show ?thesis
      proof (cases "scan_states (canonicalModelKey model) t (au_model_states a) (False, False, blockReasonNone, 0)")
        case (Inl x)
        then show ?thesis using sc b True rest nq by (simp add: isAuthBlockedForModel_def same_scan_def)
      next
        case (Inr x)
        obtain m2 l2 where x: "x = (m2, l2)" by (cases x)
        then have m2: "m2" "l2 = (True, r, n)" using b Inr True rest by (auto simp: isAuthBlockedForModel_def split: if_splits)
        then have "n \<noteq> 0" using Inr x scan_timed by metis
        then have "lives now l2 l2' \<Longrightarrow> l2' = (True, r, n)" for l2' using m2 t(2) by (simp add: lives_def)
        moreover obtain l2' where "scan_states (canonicalModelKey model) now (au_model_states a) (False, False, blockReasonNone, 0) = Inr (m2, l2')"
          "lives now l2 l2'" using sc unfolding Inr x same_scan_def by auto
        ultimately show ?thesis using m2 True rest nq by (simp add: isAuthBlockedForModel_def)
      qed
    qed
  qed
qed

lemma state_block_reason: "state_block s now = (True, r, n) \<Longrightarrow> r \<noteq> blockReasonDisabled"
  by (auto simp: state_block_def availabilityBlock_def Let_def split: if_splits)

lemma scan_reason:
  "scan_states key now l (m, b, r, n) = Inr (m', b', r', n') \<Longrightarrow> (b \<longrightarrow> r \<noteq> blockReasonDisabled) \<Longrightarrow> b' \<Longrightarrow> r' \<noteq> blockReasonDisabled"
proof (induction l arbitrary: m b r n)
  case (Cons x l)
  then show ?case
    by (cases x) (auto split: option.splits prod.splits bool.splits if_splits, (metis state_block_reason)+)
qed simp

lemma disabled_untimed: "isAuthBlockedForModel (Some a) model now = (True, blockReasonDisabled, n) \<Longrightarrow> n = 0"
proof (rule ccontr)
  assume b: "isAuthBlockedForModel (Some a) model now = (True, blockReasonDisabled, n)" and n: "n \<noteq> 0"
  from b n show False
  proof (cases rule: timed_cases)
    case quota
    then show ?thesis using b n by (auto simp: isAuthBlockedForModel_def split: if_splits)
  next
    case auth
    then show ?thesis by (auto simp: auth_block_def availabilityBlock_def Let_def split: if_splits)
  next
    case (state m)
    then show ?thesis using scan_reason [OF state(6)] by simp
  qed
qed

section \<open>Entries over time\<close>

lemma classify_later:
  assumes c: "classify a k t = (st, n)" and t: "0 \<le> t" "t \<le> now" "n = 0 \<or> now < n"
  shows "classify a k now = (st, n)"
proof -
  obtain b r x where i: "isAuthBlockedForModel (Some a) k t = (b, r, x)" by (cases "isAuthBlockedForModel (Some a) k t")
  show ?thesis
  proof (cases b)
    case False
    then have "\<not> fst (isAuthBlockedForModel (Some a) k now)" using free_stays [of a k t now] i t(2) by simp
    then show ?thesis using c i False by (auto simp: classify_def split: prod.splits)
  next
    case True
    have "x = 0 \<or> now < x" using c i True t(3) disabled_untimed [of a k t] by (auto simp: classify_def split: if_splits)
    then have "isAuthBlockedForModel (Some a) k now = (True, r, x)" using block_stays [of a k t r x now] i True t by simp
    then show ?thesis using c i True by (simp add: classify_def)
  qed
qed

lemma classify_untimed: "classify a k t = (ScheduledReady, n) \<or> classify a k t = (ScheduledDisabled, n) \<Longrightarrow> n = 0"
  by (auto simp: classify_def split: prod.splits if_splits)

definition dated :: "string \<Rightarrow> time \<Rightarrow> scheduledAuth \<Rightarrow> bool" where
  "dated k now e \<longleftrightarrow> (\<exists>t. 0 \<le> t \<and> t \<le> now \<and> e = scheduled (sd_meta e) k t)"

lemma scheduled_meta [simp]: "sd_meta (scheduled meta k now) = meta"
  by (simp add: scheduled_def split: prod.splits)

lemma scheduled_id [simp]: "entry_id (scheduled meta k now) = au_id (sm_auth meta)"
  by (simp add: entry_id_def)

lemma dated_scheduled [simp]: "0 \<le> now \<Longrightarrow> dated k now (scheduled meta k now)"
  by (auto simp: dated_def)

lemma dated_mono: "dated k now e \<Longrightarrow> now \<le> now' \<Longrightarrow> dated k now' e"
  by (force simp: dated_def)

lemma dated_current:
  assumes "dated k now e" "sd_next_retry_at e = 0 \<or> now < sd_next_retry_at e"
  shows "scheduled (sd_meta e) k now = e"
proof -
  obtain t where t: "0 \<le> t" "t \<le> now" "e = scheduled (sd_meta e) k t" using assms(1) by (auto simp: dated_def)
  obtain st n where c: "classify (sd_auth e) k t = (st, n)" by (cases "classify (sd_auth e) k t")
  have e: "e = \<lparr>sd_meta = sd_meta e, sd_state = st, sd_next_retry_at = n\<rparr>"
    using t(3) c by (simp add: scheduled_def split: prod.splits)
  then have "n = 0 \<or> now < n" using assms(2) by (metis scheduledAuth.select_convs(3))
  from classify_later [OF c t(1,2) this] show ?thesis using e by (simp add: scheduled_def)
qed

lemma dated_timed:
  assumes "dated k now e" "sd_next_retry_at e \<noteq> 0"
  shows "sd_state e = ScheduledCooldown \<or> sd_state e = ScheduledBlocked"
proof -
  obtain t where t: "e = scheduled (sd_meta e) k t" using assms(1) by (auto simp: dated_def)
  obtain st n where c: "classify (sd_auth e) k t = (st, n)" by (cases "classify (sd_auth e) k t")
  have "sd_state e = st" "sd_next_retry_at e = n"
    using arg_cong [OF t, of sd_state] arg_cong [OF t, of sd_next_retry_at] c by (simp_all add: scheduled_def)
  then show ?thesis using c assms(2) classify_untimed [of "sd_auth e" k t n] by (cases st) auto
qed

section \<open>The indexes of a shard\<close>

definition ready_ids :: "modelScheduler \<Rightarrow> int \<Rightarrow> string set" where
  "ready_ids m p = {i. \<exists>e. mget (md_entries m) i = Some e \<and> sd_state e = ScheduledReady \<and> sm_priority (sd_meta e) = p}"

definition ws_ids :: "modelScheduler \<Rightarrow> int \<Rightarrow> string set" where
  "ws_ids m p = {i. \<exists>e. mget (md_entries m) i = Some e \<and> sd_state e = ScheduledReady \<and> sm_priority (sd_meta e) = p \<and> sm_websocket (sd_meta e)}"

definition waiting_ids :: "modelScheduler \<Rightarrow> string set" where
  "waiting_ids m = {i. \<exists>e. mget (md_entries m) i = Some e \<and> (sd_state e = ScheduledCooldown \<or> sd_state e = ScheduledBlocked)}"

definition listing :: "string set \<Rightarrow> string list \<Rightarrow> bool" where
  "listing S xs \<longleftrightarrow> sorted_wrt (<) xs \<and> set xs = S"

definition bucket_ok :: "modelScheduler \<Rightarrow> int \<Rightarrow> readyBucket option \<Rightarrow> bool" where
  "bucket_ok m p bo = (case bo of None \<Rightarrow> ready_ids m p = {}
     | Some b \<Rightarrow> ready_ids m p \<noteq> {} \<and> listing (ready_ids m p) (rv_flat (bk_all b)) \<and> listing (ws_ids m p) (rv_flat (bk_ws b)))"

definition indexed :: "modelScheduler \<Rightarrow> bool" where
  "indexed m \<longleftrightarrow> mwf (md_ready m) \<and> sorted_wrt (\<lambda>a b. b < a) (md_order m) \<and> set (md_order m) = {p. ready_ids m p \<noteq> {}} \<and>
     (\<forall>p. bucket_ok m p (mget (md_ready m) p)) \<and> set (md_blocked m) = waiting_ids m"

definition entries_named :: "(string, scheduledAuth) gomap \<Rightarrow> bool" where
  "entries_named es \<longleftrightarrow> mwf es \<and> (\<forall>i e. mget es i = Some e \<longrightarrow> entry_id e = i)"

lemma named_distinct: "entries_named es \<Longrightarrow> map entry_id (map snd es) = mkeys es"
proof -
  assume n: "entries_named es"
  have "entry_id (snd x) = fst x" if "x \<in> set es" for x
    using n that by (cases x) (auto simp: entries_named_def mget_Some_iff)
  then show ?thesis by simp
qed

lemma mget_map_snd: "mget (map (\<lambda>(k, v). (k, f k v)) m) k = map_option (f k) (mget m k)"
  by (induction m) auto

lemma mkeys_map_snd [simp]: "mkeys (map (\<lambda>(k, v). (k, f k v)) m) = mkeys m"
  by (induction m) auto

lemma named_image:
  "entries_named es \<Longrightarrow> {i. \<exists>e. mget es i = Some e \<and> P e} = entry_id ` set (filter P (map snd es))"
proof -
  assume n: "entries_named es"
  then have m: "mget es i = Some e \<longleftrightarrow> (i, e) \<in> set es" for i e by (simp add: entries_named_def mget_Some_iff)
  have "entry_id e = i" if "(i, e) \<in> set es" for i e using n that by (simp add: entries_named_def m)
  then show ?thesis unfolding m by force
qed

lemma bucket_fold:
  "mwf (foldl bucket_step [] es) \<and> (\<forall>p. mget (foldl bucket_step [] es) p =
     (let l = filter (\<lambda>e. sd_state e = ScheduledReady \<and> sm_priority (sd_meta e) = p) es in if l = [] then None else Some l))"
proof (induction es rule: rev_induct)
  case (snoc e es)
  then show ?case by (auto simp: bucket_step_def mget_or_def Let_def)
qed (simp add: Let_def)

lemma sort_slice_key:
  assumes "distinct (map f xs)"
  shows "sorted_wrt (\<lambda>a b. f a < (f b :: 'b :: linorder)) (sort_slice (\<lambda>a b. f a < f b) xs)"
proof (rule sorted_sort_slice)
  show "distinct xs" using assms by (simp add: distinct_map)
  show "f x < f y \<or> f y < f x" if "x \<in> set xs" "y \<in> set xs" "x \<noteq> y" for x y
    using that assms by (metis distinct_map inj_onD not_less_iff_gr_or_eq)
qed simp

lemma sorted_ids:
  assumes "distinct (map entry_id es)"
  shows "listing (entry_id ` set es) (map entry_id (sort_slice (\<lambda>a b. entry_id a < entry_id b) es))"
  using sort_slice_key [OF assms] by (simp add: listing_def sorted_wrt_map)

lemma restore_flat [simp]: "rv_flat (restoreReadyViewCursors m old v) = rv_flat v"
  by (simp add: restoreReadyViewCursors_def Let_def)

lemma ready_bucket_flat:
  "rv_flat (bk_all (ready_bucket m p es)) = map entry_id (sort_slice (\<lambda>a b. entry_id a < entry_id b) es)"
  "rv_flat (bk_ws (ready_bucket m p es)) = map entry_id (filter (\<lambda>e. sm_websocket (sd_meta e)) (sort_slice (\<lambda>a b. entry_id a < entry_id b) es))"
  by (auto simp: ready_bucket_def buildReadyBucket_def buildReadyView_def Let_def split: option.splits)

lemma rebuild_entries [simp]: "md_entries (rebuildIndexesLocked m) = md_entries m" "md_key (rebuildIndexesLocked m) = md_key m"
  by (simp_all add: rebuildIndexesLocked_def Let_def)

lemma rebuild_indexed:
  assumes n: "entries_named (md_entries m)"
  shows "indexed (rebuildIndexesLocked m)"
proof -
  let ?m = "rebuildIndexesLocked m" and ?es = "map snd (md_entries m)"
  let ?b = "foldl bucket_step [] ?es"
  have d: "distinct (map entry_id ?es)" unfolding named_distinct [OF n] using n by (simp add: entries_named_def)
  note F = bucket_fold [of ?es]
  have r: "ready_ids ?m p = entry_id ` set (filter (\<lambda>e. sd_state e = ScheduledReady \<and> sm_priority (sd_meta e) = p) ?es)" for p
    unfolding ready_ids_def rebuild_entries by (rule named_image [OF n])
  have w: "ws_ids ?m p = entry_id ` set (filter (\<lambda>e. sm_websocket (sd_meta e)) (filter (\<lambda>e. sd_state e = ScheduledReady \<and> sm_priority (sd_meta e) = p) ?es))" for p
    using named_image [OF n, of "\<lambda>e. sd_state e = ScheduledReady \<and> sm_priority (sd_meta e) = p \<and> sm_websocket (sd_meta e)"]
    by (simp add: ws_ids_def conj_ac)
  have get: "mget (md_ready ?m) p = map_option (ready_bucket m p) (mget ?b p)" for p
    by (simp add: rebuildIndexesLocked_def Let_def mget_map_snd)
  have B: "bucket_ok ?m p (mget (md_ready ?m) p)" for p
  proof -
    obtain l where l: "l = filter (\<lambda>e. sd_state e = ScheduledReady \<and> sm_priority (sd_meta e) = p) ?es" by blast
    have R: "ready_ids ?m p = entry_id ` set l" unfolding l by (rule r)
    have W: "ws_ids ?m p = entry_id ` set (filter (\<lambda>e. sm_websocket (sd_meta e)) l)" unfolding l by (rule w)
    have G: "mget ?b p = (if l = [] then None else Some l)" unfolding l using F by (simp add: Let_def)
    have dl: "distinct (map entry_id l)" unfolding l using d by (rule distinct_map_filter)
    have "sorted_wrt (<) (map entry_id (filter (\<lambda>e. sm_websocket (sd_meta e)) (sort_slice (\<lambda>a b. entry_id a < entry_id b) l)))"
      using sort_slice_key [OF dl] by (simp add: sorted_wrt_map sorted_wrt_filter)
    then show ?thesis using sorted_ids [OF dl]
      by (auto simp: bucket_ok_def get R W G ready_bucket_flat listing_def)
  qed
  have "md_order ?m = sort_slice (\<lambda>a b. b < a) (mkeys ?b)" by (simp add: rebuildIndexesLocked_def Let_def)
  moreover have "sorted_wrt (\<lambda>a b. b < a) (sort_slice (\<lambda>a b. b < a) (mkeys ?b))"
    by (rule sorted_sort_slice) (use F in auto)
  moreover have "set (mkeys ?b) = {p. ready_ids ?m p \<noteq> {}}"
  proof -
    have "p \<in> set (mkeys ?b) \<longleftrightarrow> ready_ids ?m p \<noteq> {}" for p
    proof -
      have "p \<in> set (mkeys ?b) \<longleftrightarrow> mget ?b p \<noteq> None" unfolding mget_None_iff by blast
      then show ?thesis using B [of p] unfolding bucket_ok_def get by (cases "mget ?b p") simp_all
    qed
    then show ?thesis by blast
  qed
  moreover have "set (md_blocked ?m) = waiting_ids ?m"
    using named_image [OF n, of "\<lambda>e. sd_state e = ScheduledCooldown \<or> sd_state e = ScheduledBlocked"]
    by (simp add: rebuildIndexesLocked_def waiting_ids_def Let_def)
  moreover have "mwf (md_ready ?m)" using F by (simp add: rebuildIndexesLocked_def Let_def split_def comp_def)
  ultimately show ?thesis using B by (simp add: indexed_def)
qed

definition place :: "scheduledAuth \<Rightarrow> scheduledState \<times> int \<times> bool" where
  "place e = (sd_state e, sm_priority (sd_meta e), sm_websocket (sd_meta e))"

lemma place_ids:
  "ready_ids m p = {i. \<exists>w. map_option place (mget (md_entries m) i) = Some (ScheduledReady, p, w)}"
  "ws_ids m p = {i. map_option place (mget (md_entries m) i) = Some (ScheduledReady, p, True)}"
  "waiting_ids m = {i. \<exists>p w. map_option place (mget (md_entries m) i) \<in> {Some (ScheduledCooldown, p, w), Some (ScheduledBlocked, p, w)}}"
  by (auto simp: ready_ids_def ws_ids_def waiting_ids_def place_def)

lemma indexed_same:
  assumes "indexed m" "\<And>i. map_option place (mget (md_entries m') i) = map_option place (mget (md_entries m) i)"
    and "md_ready m' = md_ready m" "md_order m' = md_order m" "md_blocked m' = md_blocked m"
  shows "indexed m'"
proof -
  have E: "ready_ids m' = ready_ids m" "ws_ids m' = ws_ids m" "waiting_ids m' = waiting_ids m"
    by (simp_all add: place_ids fun_eq_iff assms(2))
  show ?thesis using assms(1) unfolding indexed_def bucket_ok_def E assms(3-5) .
qed

definition shard_ok :: "time \<Rightarrow> modelScheduler \<Rightarrow> bool" where
  "shard_ok now m \<longleftrightarrow> entries_named (md_entries m) \<and> indexed m \<and>
     (\<forall>i e. mget (md_entries m) i = Some e \<longrightarrow> dated (md_key m) now e)"

lemma shard_ok_mono: "shard_ok now m \<Longrightarrow> now \<le> now' \<Longrightarrow> shard_ok now' m"
  using dated_mono by (fastforce simp: shard_ok_def)

lemma new_shard_ok: "shard_ok now (new_shard k)"
  by (simp add: shard_ok_def new_shard_def entries_named_def indexed_def bucket_ok_def ready_ids_def waiting_ids_def)

lemma named_mput: "entries_named es \<Longrightarrow> entry_id e = i \<Longrightarrow> entries_named (mput i e es)"
  by (auto simp: entries_named_def)

lemma upsertEntry_facts [simp]:
  "md_entries (upsertEntryLocked meta now m) = mput (au_id (sm_auth meta)) (scheduled meta (md_key m) now) (md_entries m)"
  "md_key (upsertEntryLocked meta now m) = md_key m"
  by (simp_all add: upsertEntryLocked_def Let_def split: option.splits)

lemma upsertEntry_ok:
  assumes "shard_ok now m" "0 \<le> now"
  shows "shard_ok now (upsertEntryLocked meta now m)"
proof -
  let ?i = "au_id (sm_auth meta)" and ?e = "scheduled meta (md_key m) now"
  let ?m = "m\<lparr>md_entries := mput ?i ?e (md_entries m)\<rparr>"
  have n: "entries_named (mput ?i ?e (md_entries m))" using assms by (simp add: shard_ok_def named_mput)
  have "indexed (upsertEntryLocked meta now m)"
  proof (cases "\<exists>old. mget (md_entries m) ?i = Some old \<and> same_place old ?e")
    case True
    then obtain old where o: "mget (md_entries m) ?i = Some old" "same_place old ?e" by auto
    have "indexed ?m" by (rule indexed_same) (use assms o in \<open>auto simp: shard_ok_def same_place_def place_def\<close>)
    then show ?thesis using o by (simp add: upsertEntryLocked_def Let_def)
  next
    case False
    have "indexed (rebuildIndexesLocked ?m)" by (rule rebuild_indexed) (use n in simp)
    then show ?thesis using False by (auto simp: upsertEntryLocked_def Let_def split: option.splits)
  qed
  then show ?thesis using n assms by (auto simp: shard_ok_def)
qed

lemma removeEntry_facts [simp]:
  "i \<noteq> [] \<Longrightarrow> mget (md_entries (removeEntryLocked i m)) = (mget (md_entries m))(i := None)"
  "md_key (removeEntryLocked i m) = md_key m"
  by (auto simp: removeEntryLocked_def fun_eq_iff)

lemma removeEntry_ok:
  assumes "shard_ok now m"
  shows "shard_ok now (removeEntryLocked i m)"
proof -
  let ?m = "m\<lparr>md_entries := mdel i (md_entries m)\<rparr>"
  have n: "entries_named (mdel i (md_entries m))" using assms by (auto simp: shard_ok_def entries_named_def)
  have "indexed (rebuildIndexesLocked ?m)" by (rule rebuild_indexed) (use n in simp)
  then show ?thesis using assms n by (auto simp: removeEntryLocked_def shard_ok_def)
qed

section \<open>Promotion\<close>

definition now_current :: "time \<Rightarrow> modelScheduler \<Rightarrow> bool" where
  "now_current now m \<longleftrightarrow> (\<forall>i e. mget (md_entries m) i = Some e \<longrightarrow> scheduled (sd_meta e) (md_key m) now = e)"

lemma promote_fold:
  assumes "foldl (promote_step k now) (es, c) ids = (es', c')" "\<forall>i e. mget es i = Some e \<longrightarrow> dated k now e" "0 \<le> now" "mwf es"
  shows "(\<forall>i. mget es' i = map_option (\<lambda>e. if i \<in> set ids then scheduled (sd_meta e) k now else e) (mget es i)) \<and> mwf es' \<and>
    (\<not> c' \<longrightarrow> es' = es)"
  using assms(1)
proof (induction ids arbitrary: es' c' rule: rev_induct)
  case (snoc x ids)
  obtain es1 c1 where f: "foldl (promote_step k now) (es, c) ids = (es1, c1)" by (cases "foldl (promote_step k now) (es, c) ids")
  note IH = snoc.IH [OF f]
  have s: "promote_step k now (es1, c1) x = (es', c')" using snoc.prems f by simp
  have S: "(\<forall>i. mget es' i = (if i = x then map_option (\<lambda>e. scheduled (sd_meta e) k now) (mget es1 x) else mget es1 i)) \<and>
      mwf es' \<and> (\<not> c' \<longrightarrow> es' = es1 \<and> \<not> c1)"
  proof (cases "mget es1 x")
    case None
    then have "es' = es1" "c' = c1" using s by (simp_all add: promote_step_def)
    then show ?thesis using IH None by simp
  next
    case (Some e)
    obtain e0 where "mget es x = Some e0" "e = (if x \<in> set ids then scheduled (sd_meta e0) k now else e0)"
      using IH Some by (cases "mget es x") auto
    then have d: "dated k now e" using assms(2,3) by auto
    show ?thesis
    proof (cases "sd_next_retry_at e = 0 \<or> now < sd_next_retry_at e")
      case True
      then have "es' = es1" "c' = c1" using s Some by (auto simp: promote_step_def)
      moreover have "map_option (\<lambda>e. scheduled (sd_meta e) k now) (mget es1 x) = mget es1 x"
        unfolding Some using dated_current [OF d True] by simp
      ultimately show ?thesis using IH [THEN conjunct2] by simp
    next
      case False
      then have "es' = mput x (scheduled (sd_meta e) k now) es1" "c'" using s Some by (auto simp: promote_step_def)
      then show ?thesis using IH [THEN conjunct2] Some by simp
    qed
  qed
  have "mget es' i = map_option (\<lambda>e. if i \<in> set (ids @ [x]) then scheduled (sd_meta e) k now else e) (mget es i)" for i
  proof -
    have a: "mget es1 i = map_option (\<lambda>e. if i \<in> set ids then scheduled (sd_meta e) k now else e) (mget es i)" using IH by blast
    have b: "mget es' i = (if i = x then map_option (\<lambda>e. scheduled (sd_meta e) k now) (mget es1 i) else mget es1 i)" using S by auto
    show ?thesis unfolding b a by (cases "mget es i"; cases "i \<in> set ids"; cases "i = x") simp_all
  qed
  then show ?case using S IH by auto
qed (use assms(4) in \<open>simp add: option.map_ident\<close>)

lemma promote_facts:
  assumes ok: "shard_ok t m" "t \<le> now" "0 \<le> now"
  shows "md_key (promoteExpiredLocked now m) = md_key m" "shard_ok now (promoteExpiredLocked now m)"
    and "\<And>i. mget (md_entries (promoteExpiredLocked now m)) i = map_option (\<lambda>e. scheduled (sd_meta e) (md_key m) now) (mget (md_entries m) i)"
proof -
  obtain es c where f: "foldl (promote_step (md_key m) now) (md_entries m, False) (md_blocked m) = (es, c)"
    by (cases "foldl (promote_step (md_key m) now) (md_entries m, False) (md_blocked m)")
  have ok': "shard_ok now m" by (rule shard_ok_mono [OF ok(1,2)])
  have d: "\<forall>i e. mget (md_entries m) i = Some e \<longrightarrow> dated (md_key m) now e" and n: "entries_named (md_entries m)"
    and b: "set (md_blocked m) = waiting_ids m" and ix: "indexed m"
    using ok' by (simp_all add: shard_ok_def indexed_def)
  have P: "(\<forall>i. mget es i = map_option (\<lambda>e. if i \<in> set (md_blocked m) then scheduled (sd_meta e) (md_key m) now else e) (mget (md_entries m) i)) \<and>
      mwf es \<and> (\<not> c \<longrightarrow> es = md_entries m)"
    by (rule promote_fold [OF f d ok(3)]) (use n in \<open>simp add: entries_named_def\<close>)
  have get: "mget es i = map_option (\<lambda>e. scheduled (sd_meta e) (md_key m) now) (mget (md_entries m) i)" for i
  proof (cases "mget (md_entries m) i")
    case (Some e)
    have "scheduled (sd_meta e) (md_key m) now = e" if "i \<notin> set (md_blocked m)"
    proof -
      have "dated (md_key m) now e" using d Some by blast
      moreover have "sd_next_retry_at e = 0" using dated_timed [OF calculation] that Some unfolding b by (auto simp: waiting_ids_def)
      ultimately show ?thesis by (simp add: dated_current)
    qed
    then show ?thesis using P Some by auto
  qed (use P in simp)
  have n': "entries_named es" using P n get by (auto simp: entries_named_def entry_id_def)
  have E: "promoteExpiredLocked now m = (if c then rebuildIndexesLocked (m\<lparr>md_entries := es\<rparr>) else m)"
    using f P by (simp add: promoteExpiredLocked_def)
  then show "md_key (promoteExpiredLocked now m) = md_key m" by simp
  have es: "md_entries (promoteExpiredLocked now m) = es" using E P by simp
  then show "\<And>i. mget (md_entries (promoteExpiredLocked now m)) i = map_option (\<lambda>e. scheduled (sd_meta e) (md_key m) now) (mget (md_entries m) i)"
    using get by simp
  have "indexed (promoteExpiredLocked now m)" using E ix rebuild_indexed [of "m\<lparr>md_entries := es\<rparr>"] n' by simp
  then show "shard_ok now (promoteExpiredLocked now m)" using es n' get ok(3) by (auto simp: shard_ok_def E)
qed

lemma promote_current: "shard_ok t m \<Longrightarrow> t \<le> now \<Longrightarrow> 0 \<le> now \<Longrightarrow> now_current now (promoteExpiredLocked now m)"
  using promote_facts [of t m now] by (auto simp: now_current_def)

section \<open>The views of a shard\<close>

lemma view_somes:
  assumes "entries_named es" "set xs = {i. \<exists>e. mget es i = Some e \<and> P e}"
  shows "map entry_id (somes (map (mget es) xs)) = xs" "set (somes (map (mget es) xs)) = {e. mget es (entry_id e) = Some e \<and> P e}"
proof -
  have id: "mget es i = Some e \<Longrightarrow> entry_id e = i" for i e using assms(1) by (simp add: entries_named_def)
  have "set ys \<subseteq> set xs \<Longrightarrow> map entry_id (somes (map (mget es) ys)) = ys" for ys
  proof (induction ys)
    case (Cons y ys)
    then obtain e where "mget es y = Some e" using assms(2) by auto
    then show ?case using Cons id by simp
  qed simp
  then show "map entry_id (somes (map (mget es) xs)) = xs" by simp
  have "e \<in> set (somes (map (mget es) xs)) \<longleftrightarrow> (\<exists>i \<in> set xs. mget es i = Some e)" for e by (force simp: set_somes)
  then show "set (somes (map (mget es) xs)) = {e. mget es (entry_id e) = Some e \<and> P e}"
    unfolding assms(2) using id by fastforce
qed

definition ready_entry :: "modelScheduler \<Rightarrow> predicate \<Rightarrow> int \<Rightarrow> scheduledAuth \<Rightarrow> bool" where
  "ready_entry m pred p e \<longleftrightarrow> mget (md_entries m) (entry_id e) = Some e \<and> sd_state e = ScheduledReady \<and> sm_priority (sd_meta e) = p \<and> pred e"

definition ws_pred :: "bool \<Rightarrow> predicate \<Rightarrow> predicate" where
  "ws_pred ws pred e \<longleftrightarrow> pred e \<and> (ws \<longrightarrow> sm_websocket (sd_meta e))"

lemma view_props:
  fixes ws :: bool
  assumes "shard_ok now m" "mget (md_ready m) p = Some b"
  defines "v \<equiv> if ws then bk_ws b else bk_all b"
  shows "sorted_wrt (\<lambda>x y. entry_id x < entry_id y) (view_entries m v)"
    and "set (filter pred (view_entries m v)) = {e. ready_entry m (ws_pred ws pred) p e}"
proof -
  have n: "entries_named (md_entries m)" and "bucket_ok m p (Some b)"
    using assms(1,2) by (auto simp: shard_ok_def indexed_def dest: spec [of _ p])
  then have l: "listing (if ws then ws_ids m p else ready_ids m p) (rv_flat v)" by (simp add: bucket_ok_def v_def)
  then have s: "set (rv_flat v) = {i. \<exists>e. mget (md_entries m) i = Some e \<and> sd_state e = ScheduledReady \<and> sm_priority (sd_meta e) = p \<and> (ws \<longrightarrow> sm_websocket (sd_meta e))}"
    by (auto simp: listing_def ready_ids_def ws_ids_def)
  note V = view_somes [OF n s, folded view_entries_def]
  have "sorted_wrt (<) (map entry_id (view_entries m v))" using V(1) l by (simp add: listing_def)
  then show "sorted_wrt (\<lambda>x y. entry_id x < entry_id y) (view_entries m v)" by (simp add: sorted_wrt_map)
  show "set (filter pred (view_entries m v)) = {e. ready_entry m (ws_pred ws pred) p e}"
    unfolding set_filter V(2) by (auto simp: ready_entry_def ws_pred_def)
qed

lemma has_ready_iff:
  assumes "shard_ok now m"
  shows "has_ready m pred (if ws then bk_ws else bk_all) p \<longleftrightarrow> (\<exists>e. ready_entry m (ws_pred ws pred) p e)"
proof (cases "mget (md_ready m) p")
  case None
  have "bucket_ok m p None" using assms None by (metis indexed_def shard_ok_def)
  then have "\<not> ready_entry m (ws_pred ws pred) p e" for e by (auto simp: bucket_ok_def ready_ids_def ready_entry_def)
  then show ?thesis using None by (simp add: has_ready_def)
next
  case (Some b)
  have "has_ready m pred (if ws then bk_ws else bk_all) p \<longleftrightarrow> set (filter pred (view_entries m (if ws then bk_ws b else bk_all b))) \<noteq> {}"
    using Some by (auto simp: has_ready_def pickFirst_def find_None_iff)
  then show ?thesis unfolding view_props(2) [OF assms Some] by auto
qed

lemma find_highest:
  assumes "sorted_wrt (\<lambda>a b. b < (a :: int)) xs" "find P xs = Some p"
  shows "P p \<and> p \<in> set xs \<and> (\<forall>q \<in> set xs. P q \<longrightarrow> q \<le> p)"
  using assms by (induction xs) (auto split: if_splits)

section \<open>Picking from a shard\<close>

text \<open>Whether a pick takes the websocket views, and the view it picks from.\<close>

definition takes_ws :: "modelScheduler \<Rightarrow> bool \<Rightarrow> predicate \<Rightarrow> bool" where
  "takes_ws m pw pred \<longleftrightarrow> pw \<and> (\<exists>p e. ready_entry m (ws_pred True pred) p e)"

definition turn_view :: "modelScheduler \<Rightarrow> bool \<Rightarrow> predicate \<Rightarrow> readyView" where
  "turn_view m pw pred = (case highestReadyPriorityLocked pw pred m of None \<Rightarrow> buildReadyView []
     | Some p \<Rightarrow> (case mget (md_ready m) p of None \<Rightarrow> buildReadyView [] | Some b \<Rightarrow> if use_ws m pw pred b then bk_ws b else bk_all b))"

lemma order_all: "shard_ok now m \<Longrightarrow> ready_entry m P p e \<Longrightarrow> p \<in> set (md_order m)"
  by (auto simp: shard_ok_def indexed_def ready_ids_def ready_entry_def)

lemma highest_cases:
  fixes pw :: bool and pred :: predicate
  assumes ok: "shard_ok now m"
  defines "P \<equiv> ws_pred (takes_ws m pw pred) pred"
  shows "highestReadyPriorityLocked pw pred m = None \<Longrightarrow> \<not> ready_entry m P q e"
    and "highestReadyPriorityLocked pw pred m = Some p \<Longrightarrow>
      (\<exists>b. mget (md_ready m) p = Some b \<and> use_ws m pw pred b = takes_ws m pw pred) \<and>
      (\<exists>e. ready_entry m P p e) \<and> (\<forall>q e. ready_entry m P q e \<longrightarrow> q \<le> p)"
proof -
  note ws = has_ready_iff [OF ok, of pred True, simplified] and all = has_ready_iff [OF ok, of pred False, simplified]
  have srt: "sorted_wrt (\<lambda>a b. b < a) (md_order m)" using ok by (simp add: shard_ok_def indexed_def)
  let ?f = "find (has_ready m pred bk_ws) (md_order m)"
  have t: "takes_ws m pw pred \<longleftrightarrow> pw \<and> ?f \<noteq> None"
    using order_all [OF ok] by (auto simp: takes_ws_def find_None_iff ws)
  show "\<not> ready_entry m P q e" if "highestReadyPriorityLocked pw pred m = None"
  proof
    assume "ready_entry m P q e"
    then have "ready_entry m (ws_pred False pred) q e" by (auto simp: P_def ready_entry_def ws_pred_def)
    then have "q \<in> set (md_order m)" "has_ready m pred bk_all q" using order_all [OF ok] all by blast+
    then show False using that by (auto simp: highestReadyPriorityLocked_def find_None_iff split: option.splits if_splits)
  qed
  assume h: "highestReadyPriorityLocked pw pred m = Some p"
  have f: "find (has_ready m pred (if takes_ws m pw pred then bk_ws else bk_all)) (md_order m) = Some p"
    using h t by (auto simp: highestReadyPriorityLocked_def split: option.splits if_splits)
  note F = find_highest [OF srt f, unfolded has_ready_iff [OF ok]]
  obtain e where e: "ready_entry m P p e" using F by (auto simp: P_def)
  have "ready_ids m p \<noteq> {}" using e by (auto simp: ready_ids_def ready_entry_def)
  then obtain b where b: "mget (md_ready m) p = Some b"
    using ok by (cases "mget (md_ready m) p") (auto simp: shard_ok_def indexed_def bucket_ok_def dest: spec [of _ p])
  have "use_ws m pw pred b \<longleftrightarrow> pw \<and> has_ready m pred bk_ws p" using b by (simp add: use_ws_def has_ready_def)
  also have "\<dots> \<longleftrightarrow> takes_ws m pw pred"
  proof (cases "takes_ws m pw pred")
    case True
    then have "ready_entry m (ws_pred True pred) p e" using e by (simp add: P_def)
    then show ?thesis using True unfolding ws takes_ws_def by blast
  next
    case False
    then show ?thesis unfolding ws takes_ws_def by blast
  qed
  finally show "(\<exists>b. mget (md_ready m) p = Some b \<and> use_ws m pw pred b = takes_ws m pw pred) \<and>
      (\<exists>e. ready_entry m P p e) \<and> (\<forall>q e. ready_entry m P q e \<longrightarrow> q \<le> p)"
    using b e F order_all [OF ok] by (auto simp: P_def)
qed

text \<open>The credentials a pick chooses from, in the order of their identifiers.\<close>

definition turn_ring :: "modelScheduler \<Rightarrow> bool \<Rightarrow> predicate \<Rightarrow> scheduledAuth list" where
  "turn_ring m pw pred = filter pred (view_entries m (turn_view m pw pred))"

lemma turn_ring_props:
  fixes pw :: bool and pred :: predicate
  assumes ok: "shard_ok now m"
  defines "P \<equiv> ws_pred (takes_ws m pw pred) pred"
  shows "sorted_wrt (\<lambda>x y. entry_id x < entry_id y) (turn_ring m pw pred)"
    and "set (turn_ring m pw pred) = {e. \<exists>p. ready_entry m P p e \<and> (\<forall>q e'. ready_entry m P q e' \<longrightarrow> q \<le> p)}"
proof -
  note H = highest_cases [OF ok, of pw pred, folded P_def]
  have "sorted_wrt (\<lambda>x y. entry_id x < entry_id y) (turn_ring m pw pred) \<and>
    set (turn_ring m pw pred) = {e. \<exists>p. ready_entry m P p e \<and> (\<forall>q e'. ready_entry m P q e' \<longrightarrow> q \<le> p)}"
  proof (cases "highestReadyPriorityLocked pw pred m")
    case None
    then show ?thesis using H(1) by (simp add: turn_ring_def turn_view_def view_entries_def buildReadyView_def)
  next
    case (Some p)
    obtain b where b: "mget (md_ready m) p = Some b" "use_ws m pw pred b = takes_ws m pw pred" using H(2) [OF Some] by blast
    have v: "turn_view m pw pred = (if takes_ws m pw pred then bk_ws b else bk_all b)"
      using Some b by (simp add: turn_view_def)
    note V = view_props [OF ok b(1), where ws = "takes_ws m pw pred", folded v]
    have "{e. ready_entry m P p e} = {e. \<exists>p. ready_entry m P p e \<and> (\<forall>q e'. ready_entry m P q e' \<longrightarrow> q \<le> p)}"
      using H(2) [OF Some] by (auto simp: ready_entry_def intro: order.antisym)
    then show ?thesis using V(1) V(2) [of pred] unfolding turn_ring_def P_def by (simp add: sorted_wrt_filter)
  qed
  then show "sorted_wrt (\<lambda>x y. entry_id x < entry_id y) (turn_ring m pw pred)"
    "set (turn_ring m pw pred) = {e. \<exists>p. ready_entry m P p e \<and> (\<forall>q e'. ready_entry m P q e' \<longrightarrow> q \<le> p)}" by blast+
qed

section \<open>The three strategies\<close>

text \<open>Both rotations begin after the credential picked last.\<close>

lemma search_split:
  fixes p :: string
  assumes srt: "sorted_wrt (\<lambda>x y. f x < (f y :: string)) xs"
  defines "r \<equiv> search_from (\<lambda>i. p < f (xs ! i)) 0 (length xs)"
  shows "drop r xs = filter (\<lambda>x. p < f x) xs" "take r xs = filter (\<lambda>x. \<not> p < f x) xs"
proof -
  have lt: "f (xs ! a) < f (xs ! b)" if "a < b" "b < length xs" for a b using srt that by (rule sorted_wrt_nth_less)
  have S: "(\<forall>k < r. \<not> p < f (xs ! k)) \<and> (\<forall>k. r \<le> k \<longrightarrow> k < length xs \<longrightarrow> p < f (xs ! k))"
    unfolding r_def
  proof (rule search_first [of 0 "length xs"])
    show "p < f (xs ! l)" if "k \<le> l" "l < length xs" "p < f (xs ! k)" for k l
      using that lt [of k l] by (cases "k = l") auto
  qed simp_all
  have le: "r \<le> length xs" unfolding r_def using search_le [of 0 "length xs"] by simp
  have A: "\<forall>x \<in> set (drop r xs). p < f x" using S le by (auto simp: in_set_conv_nth)
  have B: "\<forall>x \<in> set (take r xs). \<not> p < f x" using S by (auto simp: in_set_conv_nth)
  have "filter Q xs = filter Q (take r xs) @ filter Q (drop r xs)" for Q
    by (metis append_take_drop_id filter_append)
  then show "drop r xs = filter (\<lambda>x. p < f x) xs" "take r xs = filter (\<lambda>x. \<not> p < f x) xs"
    using A B by (simp_all add: filter_empty_conv)
qed

definition after :: "('a \<Rightarrow> string) \<Rightarrow> string \<Rightarrow> 'a list \<Rightarrow> 'a list" where
  "after f p xs = (if p = [] then xs else filter (\<lambda>x. p < f x) xs @ filter (\<lambda>x. \<not> p < f x) xs)"

lemma successor_nth:
  assumes "sorted_wrt (\<lambda>x y. au_id x < au_id y) l" "l \<noteq> []"
  shows "l ! successorIndex l p = hd (after au_id p l)"
proof (cases "p = []")
  case True
  then show ?thesis using assms(2) by (simp add: successorIndex_def after_def hd_conv_nth)
next
  case False
  let ?r = "search_from (\<lambda>i. p < au_id (l ! i)) 0 (length l)"
  note S = search_split [OF assms(1), of p]
  show ?thesis
  proof (cases "?r < length l")
    case True
    then have "l ! ?r = hd (drop ?r l)" "drop ?r l \<noteq> []" by (simp_all add: hd_drop_conv_nth)
    then show ?thesis using True False S by (auto simp: successorIndex_def after_def Let_def hd_append)
  next
    case ge: False
    then have "drop ?r l = []" "take ?r l = l" by simp_all
    then show ?thesis using ge False S assms(2) by (auto simp: successorIndex_def after_def Let_def hd_conv_nth)
  qed
qed

lemma rotated:
  assumes "sorted_wrt (\<lambda>x y. entry_id x < entry_id y) xs"
  shows "map (\<lambda>offset. xs ! ((scheduledSuccessorIndex xs p + offset) mod length xs)) [0..<length xs] = after entry_id p xs"
proof -
  let ?s = "scheduledSuccessorIndex xs p" and ?r = "search_from (\<lambda>i. p < entry_id (xs ! i)) 0 (length xs)"
  have "map (\<lambda>offset. xs ! ((?s + offset) mod length xs)) [0..<length xs] = rotate ?s xs"
    by (rule nth_equalityI) (simp_all add: nth_rotate)
  also have "\<dots> = after entry_id p xs"
  proof (cases "p = []")
    case True
    then show ?thesis by (simp add: scheduledSuccessorIndex_def after_def)
  next
    case False
    note S = search_split [OF assms, of p]
    show ?thesis
    proof (cases "?r < length xs")
      case True
      then have "?s = ?r" using False by (simp add: scheduledSuccessorIndex_def Let_def)
      then show ?thesis using True False S by (simp add: rotate_drop_take after_def)
    next
      case ge: False
      then have "?s = 0" using False by (simp add: scheduledSuccessorIndex_def Let_def)
      moreover have "drop ?r xs = []" "take ?r xs = xs" using ge by simp_all
      ultimately show ?thesis using False S by (simp add: after_def)
    qed
  qed
  finally show ?thesis .
qed

lemma find_hd: "find P xs = (case filter P xs of [] \<Rightarrow> None | x # _ \<Rightarrow> Some x)"
  by (induction xs) auto

lemma filter_after: "filter P (after f p xs) = after f p (filter P xs)"
  by (simp add: after_def conj_commute)

lemma after_set [simp]: "set (after f p xs) = set xs"
  by (auto simp: after_def)

lemma map_after: "map g (after (f \<circ> g) p xs) = after f p (map g xs)"
  by (simp add: after_def filter_map comp_def)

lemma after_Nil [simp]: "after f p [] = []"
  by (simp add: after_def)

lemma hd_after_map: "xs \<noteq> [] \<Longrightarrow> hd (map g (after (f \<circ> g) p xs)) = g (hd (after (f \<circ> g) p xs))"
  by (rule hd_map) (metis after_set set_empty)

lemma pickRoundRobin_eq:
  fixes pred :: predicate
  assumes "sorted_wrt (\<lambda>x y. entry_id x < entry_id y) (view_entries m v)"
  defines "l \<equiv> filter pred (view_entries m v)"
  shows "snd (pickRoundRobin m pred v) = (if l = [] then None else Some (hd (after entry_id (rv_last_picked v) l)))"
proof -
  have f: "find pred (after entry_id (rv_last_picked v) (view_entries m v)) =
      (if l = [] then None else Some (hd (after entry_id (rv_last_picked v) l)))"
    unfolding find_hd filter_after l_def [symmetric]
    by (cases "after entry_id (rv_last_picked v) l"; cases "l = []") (auto dest: arg_cong [of _ _ set])
  show ?thesis using f by (auto simp: pickRoundRobin_def Let_def rotated [OF assms(1)])
qed

section \<open>Weighted picks\<close>

definition weights_current :: "scheduledAuth list \<Rightarrow> bool" where
  "weights_current es \<longleftrightarrow> (\<forall>e \<in> set es. sm_weight (sd_meta e) = authWeight (Some (sd_auth e)))"

definition as_auth :: "(scheduledAuth \<times> int) option \<times> int \<times> (string, int) gomap \<Rightarrow> smooth_acc" where
  "as_auth acc = (map_option (\<lambda>(e, c). (sd_auth e, c)) (fst acc), snd acc)"

lemma scheduled_fold:
  "weights_current es \<Longrightarrow> as_auth (foldl (scheduled_step pred) acc es) = foldl smooth_step (as_auth acc) (map sd_auth (filter pred es))"
proof (induction es arbitrary: acc)
  case (Cons e es)
  have w: "weights_current es" "sm_weight (sd_meta e) = authWeight (Some (sd_auth e))" using Cons.prems by (simp_all add: weights_current_def)
  obtain b t c where acc: "acc = (b, t, c)" by (cases acc)
  have "as_auth (scheduled_step pred acc e) = (if pred e then smooth_step (as_auth acc) (sd_auth e) else as_auth acc)"
    using w(2) by (auto simp: acc as_auth_def scheduled_step_def smooth_step_def Let_def entry_id_def split: option.splits)
  then show ?case using Cons.IH [OF w(1), of "scheduled_step pred acc e"] by simp
qed simp

lemma scheduled_smooth:
  assumes "weights_current es"
  shows "map_prod (map_option sd_auth) id (pickSmoothWeightedScheduled es c pred) = pickSmoothWeightedAuth (map sd_auth (filter pred es)) c"
proof -
  obtain b t c' where f: "foldl (scheduled_step pred) (None, 0, c) es = (b, t, c')" by (cases "foldl (scheduled_step pred) (None, 0, c) es")
  have "foldl smooth_step (None, 0, c) (map sd_auth (filter pred es)) = as_auth (b, t, c')"
    using scheduled_fold [OF assms, of pred "(None, 0, c)"] f by (simp add: as_auth_def)
  then show ?thesis using f
    by (cases b) (auto simp: pickSmoothWeightedScheduled_def pickSmoothWeightedAuth_def as_auth_def entry_id_def)
qed

lemma weight_vector_same:
  assumes "weights_current es"
  shows "scheduledWeightVectorMatching es pred = authWeightVector (map sd_auth (filter pred es))"
proof -
  have "weights_current es \<Longrightarrow> foldl (\<lambda>w e. if sm_weight (sd_meta e) \<le> 0 \<or> \<not> pred e then w else mput (entry_id e) (sm_weight (sd_meta e)) w) w0 es =
    foldl (\<lambda>m a. if authWeight (Some a) > 0 then mput (au_id a) (authWeight (Some a)) m else m) w0 (map sd_auth (filter pred es))" for w0
    by (induction es arbitrary: w0) (auto simp: weights_current_def entry_id_def not_le)
  then show ?thesis using assms by (simp add: scheduledWeightVectorMatching_def authWeightVector_def)
qed

lemma weighted_pick_eq:
  fixes pred :: predicate
  assumes "weights_current es"
  defines "l \<equiv> map sd_auth (filter pred es)"
  shows "map_option sd_auth (snd (weighted_pick es pred st)) = fst (pickSmoothWeightedAuth l (sw_current (prepare (authWeightVector l) st)))"
proof -
  obtain p c where pk: "pickSmoothWeightedScheduled es (sw_current (prepare (authWeightVector l) st)) pred = (p, c)"
    by (cases "pickSmoothWeightedScheduled es (sw_current (prepare (authWeightVector l) st)) pred")
  then have "pickSmoothWeightedAuth l (sw_current (prepare (authWeightVector l) st)) = (map_option sd_auth p, c)"
    using scheduled_smooth [OF assms(1), of "sw_current (prepare (authWeightVector l) st)" pred, folded l_def] by simp
  then show ?thesis using pk by (simp add: weighted_pick_def weight_vector_same [OF assms(1)] l_def [symmetric])
qed

section \<open>What a shard picks\<close>

text \<open>The choice of a strategy among credentials in the order of their identifiers, given the view
  that holds its rotation and its credits.\<close>

definition strategy_choice :: "schedulerStrategy \<Rightarrow> readyView \<Rightarrow> Auth list \<Rightarrow> Auth option" where
  "strategy_choice strategy v l =
     (if l = [] then None
      else case strategy of
        StrategyFillFirst \<Rightarrow> Some (hd l)
      | StrategyWeightedRoundRobin \<Rightarrow> fst (pickSmoothWeightedAuth l (sw_current (prepare (authWeightVector l) (rv_weighted v))))
      | _ \<Rightarrow> Some (l ! successorIndex l (rv_last_picked v)))"

definition weights_ok :: "modelScheduler \<Rightarrow> bool" where
  "weights_ok m \<longleftrightarrow> (\<forall>i e. mget (md_entries m) i = Some e \<longrightarrow> sm_weight (sd_meta e) = authWeight (Some (sd_auth e)))"

lemma view_weights: "weights_ok m \<Longrightarrow> weights_current (view_entries m v)"
  by (auto simp: weights_current_def view_entries_def set_somes weights_ok_def)

lemma pick_from_view_eq:
  fixes pred :: predicate
  assumes "sorted_wrt (\<lambda>x y. entry_id x < entry_id y) (view_entries m v)" "weights_ok m"
  shows "map_option sd_auth (snd (pick_from_view m strategy pred v)) =
    strategy_choice strategy v (map sd_auth (filter pred (view_entries m v)))"
proof -
  let ?l = "filter pred (view_entries m v)"
  have id: "entry_id = au_id \<circ> sd_auth" by (simp add: fun_eq_iff entry_id_def)
  have srt: "sorted_wrt (\<lambda>x y. au_id x < au_id y) (map sd_auth ?l)"
    using sorted_wrt_filter [OF assms(1), of pred] by (simp add: sorted_wrt_map entry_id_def)
  have rr: "map_option sd_auth (snd (pickRoundRobin m pred v)) =
      (if ?l = [] then None else Some (map sd_auth ?l ! successorIndex (map sd_auth ?l) (rv_last_picked v)))"
  proof (cases "?l = []")
    case False
    then have "map sd_auth ?l \<noteq> []" by simp
    from successor_nth [OF srt this] have "map sd_auth ?l ! successorIndex (map sd_auth ?l) (rv_last_picked v) =
        sd_auth (hd (after entry_id (rv_last_picked v) ?l))"
      using hd_after_map [OF False, of sd_auth au_id "rv_last_picked v"] by (simp add: map_after id)
    then show ?thesis using False pickRoundRobin_eq [OF assms(1), of pred] by simp
  qed (simp add: pickRoundRobin_eq [OF assms(1)])
  have w: "map_option sd_auth (snd (pickWeighted m pred v)) = (if ?l = [] then None
      else fst (pickSmoothWeightedAuth (map sd_auth ?l) (sw_current (prepare (authWeightVector (map sd_auth ?l)) (rv_weighted v)))))"
  proof (cases "rv_flat v = []")
    case True
    then show ?thesis by (simp add: pickWeighted_def view_entries_def)
  next
    case False
    have "fst (pickSmoothWeightedAuth [] c) = None" for c by (simp add: pickSmoothWeightedAuth_def)
    then show ?thesis using False weighted_pick_eq [OF view_weights [OF assms(2)], of v pred "rv_weighted v"]
      by (auto simp: pickWeighted_def split: prod.splits)
  qed
  show ?thesis using rr w
    by (cases strategy) (auto simp: pick_from_view_def strategy_choice_def pickFirst_def find_hd split: list.splits)
qed

lemma pick_view_flat: "pick_from_view m strategy pred v = (v', r) \<Longrightarrow> rv_flat v' = rv_flat v"
  by (cases strategy) (auto simp: pick_from_view_def pickRoundRobin_def pickWeighted_def Let_def split: option.splits prod.splits if_splits)

lemma pickAt_facts:
  assumes "shard_ok now m"
  shows "shard_ok now (fst (pickReadyAtPriorityLocked pw p strategy pred m))"
    "md_entries (fst (pickReadyAtPriorityLocked pw p strategy pred m)) = md_entries m"
    "md_key (fst (pickReadyAtPriorityLocked pw p strategy pred m)) = md_key m"
proof -
  let ?m = "fst (pickReadyAtPriorityLocked pw p strategy pred m)"
  show e: "md_entries ?m = md_entries m" and k: "md_key ?m = md_key m"
    by (simp_all add: pickReadyAtPriorityLocked_def Let_def split: option.splits prod.splits)
  have ids: "ready_ids ?m = ready_ids m" "ws_ids ?m = ws_ids m" "waiting_ids ?m = waiting_ids m"
    by (simp_all add: ready_ids_def ws_ids_def waiting_ids_def e fun_eq_iff)
  have o: "md_order ?m = md_order m" "md_blocked ?m = md_blocked m"
    by (simp_all add: pickReadyAtPriorityLocked_def Let_def split: option.splits prod.splits)
  have r: "mwf (md_ready ?m)" "bucket_ok m q (mget (md_ready ?m) q)" for q
  proof -
    have I: "mwf (md_ready m)" "bucket_ok m q (mget (md_ready m) q)" using assms by (simp_all add: shard_ok_def indexed_def)
    show "mwf (md_ready ?m)" using I(1) by (simp add: pickReadyAtPriorityLocked_def Let_def split: option.splits prod.splits)
    show "bucket_ok m q (mget (md_ready ?m) q)"
      using I(2)
      by (cases "mget (md_ready m) p"; cases "q = p")
        (auto simp: pickReadyAtPriorityLocked_def Let_def bucket_ok_def pick_view_flat split: prod.splits)
  qed
  show "shard_ok now ?m" using assms r unfolding shard_ok_def indexed_def bucket_ok_def ids o e k by blast
qed

lemma pickReady_eq:
  fixes pw :: bool
  assumes ok: "shard_ok t m0" "t \<le> now" "0 \<le> now" "weights_ok m0"
  defines "m \<equiv> promoteExpiredLocked now m0"
  shows "snd (pickReadyLocked now pw strategy pred m0) = strategy_choice strategy (turn_view m pw pred) (map sd_auth (turn_ring m pw pred))"
    and "shard_ok now (fst (pickReadyLocked now pw strategy pred m0))"
    and "md_entries (fst (pickReadyLocked now pw strategy pred m0)) = md_entries m"
    and "md_key (fst (pickReadyLocked now pw strategy pred m0)) = md_key m0"
proof -
  note P = promote_facts [OF ok(1-3), folded m_def]
  have w: "weights_ok m" using ok(4) P(3) by (auto simp: weights_ok_def)
  note A = pickAt_facts [OF P(2), of pw _ strategy pred]
  show "shard_ok now (fst (pickReadyLocked now pw strategy pred m0))" "md_entries (fst (pickReadyLocked now pw strategy pred m0)) = md_entries m"
    "md_key (fst (pickReadyLocked now pw strategy pred m0)) = md_key m0"
    using A P(1,2) by (simp_all add: pickReadyLocked_def Let_def m_def [symmetric] split: option.splits)
  show "snd (pickReadyLocked now pw strategy pred m0) = strategy_choice strategy (turn_view m pw pred) (map sd_auth (turn_ring m pw pred))"
  proof (cases "highestReadyPriorityLocked pw pred m")
    case None
    then show ?thesis
      by (simp add: pickReadyLocked_def Let_def m_def [symmetric] turn_ring_def turn_view_def view_entries_def buildReadyView_def strategy_choice_def)
  next
    case (Some p)
    obtain b where b: "mget (md_ready m) p = Some b" using highest_cases(2) [OF P(2) Some] by blast
    have v: "turn_view m pw pred = (if use_ws m pw pred b then bk_ws b else bk_all b)" using Some b by (simp add: turn_view_def)
    have srt: "sorted_wrt (\<lambda>x y. entry_id x < entry_id y) (view_entries m (turn_view m pw pred))"
      unfolding v by (rule view_props(1) [OF P(2) b])
    have "snd (pickReadyLocked now pw strategy pred m0) = map_option sd_auth (snd (pick_from_view m strategy pred (turn_view m pw pred)))"
      using Some b by (simp add: pickReadyLocked_def Let_def m_def [symmetric] pickReadyAtPriorityLocked_def v split: prod.splits)
    then show ?thesis unfolding pick_from_view_eq [OF srt w] turn_ring_def .
  qed
qed

end
