(* ===== verification/Scheduler_Refinement.thy ===== *)
theory Scheduler_Refinement
  imports Scheduler_Shard
begin

text \<open>
  The scheduler refines the selectors of \<open>Selectors\<close>: a shard answers what the selector of the
  strategy answers on the credentials it holds, and through every operation the scheduler holds, by
  provider and model, the credentials it was given.
\<close>

section \<open>The selectors as reference\<close>

definition plain_request :: "string \<Rightarrow> string \<Rightarrow> time \<Rightarrow> pick_request" where
  "plain_request provider model now = \<lparr>rq_provider = provider, rq_model = model, rq_excluded = [], rq_now = now,
     rq_websocket = False, rq_route_model = []\<rparr>"

text \<open>What the selector of a strategy answers on a list of candidates, started with the rotation and
  the credits of a view.\<close>

definition selector_pick ::
  "schedulerStrategy \<Rightarrow> readyView \<Rightarrow> string \<Rightarrow> string \<Rightarrow> time \<Rightarrow> Auth list \<Rightarrow> pick_error + Auth" where
  "selector_pick strategy v provider model now l =
     (let q = plain_request provider model now; key = provider @ '':'' @ canonicalModelKey model in
      case strategy of
        StrategyFillFirst \<Rightarrow> snd (FillFirstPick () q (map Some l))
      | StrategyWeightedRoundRobin \<Rightarrow>
          snd (WeightedPick \<lparr>wr_states = [(key, rv_weighted v)], wr_max_keys = 0\<rparr> q (map Some l))
      | _ \<Rightarrow> snd (RoundRobinPick \<lparr>rr_last_picked = [(key, rv_last_picked v)], rr_max_keys = 0\<rparr> q (map Some l)))"

definition available_ring :: "string \<Rightarrow> time \<Rightarrow> Auth list \<Rightarrow> Auth list" where
  "available_ring model now l = by_id (top_candidates (candidates model now [] (map Some l)))"

lemma somes_map [simp]: "somes (map Some l) = l"
  by (induction l) auto

lemma candidates_all: "candidates model now [] (map Some l) = filter (\<lambda>a. \<not> fst (isAuthBlockedForModel (Some a) model now)) l"
  by (auto simp: candidates_def request_ok_def intro: filter_cong)

lemma prefer_off [simp]: "preferCodexWebsocketAuths False p l = l"
  by (simp add: preferCodexWebsocketAuths_def)

lemma by_id_ordered: "distinct (map au_id l) \<Longrightarrow> sorted_wrt (\<lambda>x y. au_id x < au_id y) (by_id l)"
  unfolding by_id_def by (rule sort_slice_key)

lemma available_ring_props:
  assumes "distinct (map au_id l)"
  shows "sorted_wrt (\<lambda>x y. au_id x < au_id y) (available_ring model now l)"
    and "set (available_ring model now l) = {a \<in> set l. \<not> fst (isAuthBlockedForModel (Some a) model now) \<and>
      (\<forall>b \<in> set l. \<not> fst (isAuthBlockedForModel (Some b) model now) \<longrightarrow> authPriority b \<le> authPriority a)}"
    and "available_ring model now l = [] \<longleftrightarrow> candidates model now [] (map Some l) = []"
proof -
  have "distinct (map au_id (top_candidates (candidates model now [] (map Some l))))"
    using assms by (simp add: top_candidates_def candidates_all distinct_map_filter)
  then show "sorted_wrt (\<lambda>x y. au_id x < au_id y) (available_ring model now l)" by (simp add: available_ring_def by_id_ordered)
  show "set (available_ring model now l) = {a \<in> set l. \<not> fst (isAuthBlockedForModel (Some a) model now) \<and>
      (\<forall>b \<in> set l. \<not> fst (isAuthBlockedForModel (Some b) model now) \<longrightarrow> authPriority b \<le> authPriority a)}"
    by (auto simp: available_ring_def top_candidates_def candidates_all)
  show "available_ring model now l = [] \<longleftrightarrow> candidates model now [] (map Some l) = []"
    by (simp add: available_ring_def)
qed

lemma selector_pick_ring:
  assumes ne: "available_ring model now l \<noteq> []" and d: "distinct (map au_id l)"
    and w: "strategy = StrategyWeightedRoundRobin \<longrightarrow> (\<forall>a \<in> set l. 0 < authWeight (Some a))"
  shows "\<exists>a. strategy_choice strategy v (available_ring model now l) = Some a \<and> selector_pick strategy v provider model now l = Inr a"
proof -
  let ?r = "available_ring model now l"
  have c: "candidates model now [] (map Some l) \<noteq> []" using ne available_ring_props(3) [OF d] by simp
  have g: "getAvailableAuths (map Some l) provider model now [] = Inr ?r"
    using getAvailableAuths_eq(1) [OF c] by (simp add: available_ring_def)
  have k: "ensureRotationKey k (key_limit 0) [(k, x)] = [(k, x)]" for k :: string and x by (simp add: ensureRotationKey_def)
  have RR: "selector_pick strategy v provider model now l = Inr (?r ! successorIndex ?r (rv_last_picked v))"
    if "strategy \<noteq> StrategyFillFirst" "strategy \<noteq> StrategyWeightedRoundRobin"
    using that g by (cases strategy) (simp_all add: selector_pick_def RoundRobinPick_def plain_request_def Let_def k mget_or_def)
  show ?thesis
  proof (cases strategy)
    case StrategyWeightedRoundRobin
    have pos: "positiveWeightAuths (map Some l) = map Some l"
      using w StrategyWeightedRoundRobin by (simp add: positiveWeightAuths_def filter_id_conv)
    let ?c = "sw_current (prepare (authWeightVector ?r) (rv_weighted v))"
    obtain a where a: "a \<in> set ?r" using ne by (cases ?r) auto
    then have "a \<in> set l" using available_ring_props(2) [OF d] by blast
    then have "fst (pickSmoothWeightedAuth ?r ?c) \<noteq> None" using a w StrategyWeightedRoundRobin by (intro pickSmooth_some [of a]) simp_all
    then obtain p where "fst (pickSmoothWeightedAuth ?r ?c) = Some p" by auto
    moreover have "selector_pick strategy v provider model now l = (case fst (pickSmoothWeightedAuth ?r ?c) of
        None \<Rightarrow> Inl (AuthError (auth_error ''auth_unavailable'' ''no auth available with positive weight'')) | Some a \<Rightarrow> Inr a)"
      using StrategyWeightedRoundRobin g
      by (simp add: selector_pick_def WeightedPick_def plain_request_def Let_def pos mget_or_def weightedSelectorStateModel_def split: prod.splits)
    ultimately show ?thesis using ne StrategyWeightedRoundRobin by (simp add: strategy_choice_def)
  next
    case StrategyFillFirst
    then show ?thesis using ne g by (simp add: selector_pick_def FillFirstPick_def plain_request_def strategy_choice_def hd_conv_nth)
  qed (use RR ne in \<open>simp_all add: strategy_choice_def\<close>)
qed

definition all_blocked_error :: "string \<Rightarrow> string \<Rightarrow> time \<Rightarrow> nat \<Rightarrow> nat \<Rightarrow> time \<Rightarrow> pick_error" where
  "all_blocked_error provider model now cd el er =
     (if el > 0 \<and> cd = el \<and> er \<noteq> 0
      then newModelCooldownError model (if provider = ''mixed'' then [] else provider) (max 0 (time_sub er now))
      else AuthError (auth_error ''auth_unavailable'' ''no auth available''))"

lemma selector_pick_error:
  assumes e: "available_ring model now l = []" "l \<noteq> []" and d: "distinct (map au_id l)"
    and w: "strategy = StrategyWeightedRoundRobin \<longrightarrow> (\<forall>a \<in> set l. 0 < authWeight (Some a))"
    and c: "collected model now [] (map Some l) cd el er"
  shows "selector_pick strategy v provider model now l = Inl (all_blocked_error provider model now cd el er)"
proof -
  obtain b cd' el' er' where b: "collectAvailableByPriority (map Some l) model now [] = (b, cd', el', er')"
    by (cases "collectAvailableByPriority (map Some l) model now []")
  have bn: "b = []" using buckets_Nil [OF collect_buckets [of "map Some l" model now "[]"]] b e(1) available_ring_props(3) [OF d] by simp
  have C: "collected model now [] (map Some l) cd' el' er'" by (rule collect_collected [OF b])
  have "cd' = cd" "el' = el" using C c by (simp_all add: collected_def)
  moreover have "er' = er"
  proof (rule ccontr)
    assume n: "er' \<noteq> er"
    have "x \<le> y" if "collected model now [] (map Some l) cd el x" "collected model now [] (map Some l) cd' el' y" "y \<noteq> 0" for x y cd el cd' el'
      using that by (auto simp: collected_def)
    moreover have "x \<noteq> 0" if "collected model now [] (map Some l) cd el x" "collected model now [] (map Some l) cd' el' y" "y \<noteq> 0" for x y cd el cd' el'
      using that by (auto simp: collected_def)
    ultimately show False using n c C by (metis order.antisym)
  qed
  ultimately have g: "getAvailableAuths (map Some l) provider model now [] = Inl (all_blocked_error provider model now cd el er)"
    using b bn e(2) by (simp add: getAvailableAuths_def getAvailableAuthsWithPriorityMode_def all_blocked_error_def)
  have pos: "positiveWeightAuths (map Some l) = map Some l" if "strategy = StrategyWeightedRoundRobin"
    using w that by (simp add: positiveWeightAuths_def filter_id_conv)
  show ?thesis using g pos
    by (cases strategy) (simp_all add: selector_pick_def plain_request_def FillFirstPick_def RoundRobinPick_def WeightedPick_def Let_def)
qed

section \<open>A shard refines the selectors\<close>

definition meta_ok :: "scheduledAuthMeta \<Rightarrow> bool" where
  "meta_ok meta \<longleftrightarrow> sm_priority meta = authPriority (sm_auth meta) \<and> sm_weight meta = authWeight (Some (sm_auth meta)) \<and>
     sm_websocket meta = authWebsocketsEnabled (Some (sm_auth meta))"

text \<open>The credentials of a shard that a request may use, and those a pick is made from.\<close>

definition shard_auths :: "predicate \<Rightarrow> modelScheduler \<Rightarrow> Auth list" where
  "shard_auths pred m = map sd_auth (filter pred (map snd (md_entries m)))"

definition preferred :: "bool \<Rightarrow> string \<Rightarrow> time \<Rightarrow> Auth list \<Rightarrow> Auth list" where
  "preferred pw model now l =
     (if pw \<and> (\<exists>a \<in> set l. authWebsocketsEnabled (Some a) \<and> \<not> fst (isAuthBlockedForModel (Some a) model now))
      then filter (\<lambda>a. authWebsocketsEnabled (Some a)) l else l)"

definition same_model :: "string \<Rightarrow> string \<Rightarrow> bool" where
  "same_model key model \<longleftrightarrow> key \<noteq> [] \<and> model \<noteq> [] \<and> canonicalModelKey key = canonicalModelKey model"

lemma same_model_block: "same_model key model \<Longrightarrow> isAuthBlockedForModel a key now = isAuthBlockedForModel a model now"
  by (cases a) (simp_all add: same_model_def isAuthBlockedForModel_def)

lemma classify_ready: "fst (classify a k now) = ScheduledReady \<longleftrightarrow> \<not> fst (isAuthBlockedForModel (Some a) k now)"
  by (auto simp: classify_def split: prod.splits)

lemma classify_cooling:
  "fst (classify a k now) = ScheduledCooldown \<longleftrightarrow> cooling k now a"
  "cooling k now a \<Longrightarrow> snd (classify a k now) = recovery k now a"
  by (auto simp: classify_def cooling_def recovery_def split: prod.splits)

lemma scheduled_fields: "sd_state (scheduled meta k now) = fst (classify (sm_auth meta) k now)"
  "sd_next_retry_at (scheduled meta k now) = snd (classify (sm_auth meta) k now)"
  by (simp_all add: scheduled_def split: prod.splits)

definition shard_current :: "time \<Rightarrow> string \<Rightarrow> modelScheduler \<Rightarrow> bool" where
  "shard_current now model m \<longleftrightarrow> shard_ok now m \<and> now_current now m \<and> same_model (md_key m) model \<and>
     (\<forall>i e. mget (md_entries m) i = Some e \<longrightarrow> meta_ok (sd_meta e))"

lemma current_entry:
  assumes "shard_current now model m"
  shows "mget (md_entries m) (entry_id e) = Some e \<longleftrightarrow> e \<in> set (map snd (md_entries m))"
    and "e \<in> set (map snd (md_entries m)) \<Longrightarrow> meta_ok (sd_meta e)"
    and "e \<in> set (map snd (md_entries m)) \<Longrightarrow> sd_state e = ScheduledReady \<longleftrightarrow> \<not> fst (isAuthBlockedForModel (Some (sd_auth e)) model now)"
    and "e \<in> set (map snd (md_entries m)) \<Longrightarrow> sd_state e = ScheduledCooldown \<longleftrightarrow> cooling model now (sd_auth e)"
    and "e \<in> set (map snd (md_entries m)) \<Longrightarrow> cooling model now (sd_auth e) \<Longrightarrow> sd_next_retry_at e = recovery model now (sd_auth e)"
proof -
  have n: "entries_named (md_entries m)" and s: "same_model (md_key m) model" using assms by (simp_all add: shard_current_def shard_ok_def)
  have w: "mwf (md_entries m)" using n by (simp add: entries_named_def)
  show g: "mget (md_entries m) (entry_id e) = Some e \<longleftrightarrow> e \<in> set (map snd (md_entries m))"
  proof
    assume "mget (md_entries m) (entry_id e) = Some e"
    then have "(entry_id e, e) \<in> set (md_entries m)" by (rule mget_SomeD)
    then show "e \<in> set (map snd (md_entries m))" by force
  next
    assume "e \<in> set (map snd (md_entries m))"
    then obtain i where "(i, e) \<in> set (md_entries m)" by auto
    then have "mget (md_entries m) i = Some e" using w by (simp add: mget_Some_iff)
    then show "mget (md_entries m) (entry_id e) = Some e" using n by (auto simp: entries_named_def)
  qed
  assume e: "e \<in> set (map snd (md_entries m))"
  then have e': "mget (md_entries m) (entry_id e) = Some e" using g by blast
  then show "meta_ok (sd_meta e)" using assms unfolding shard_current_def by blast
  have "scheduled (sd_meta e) (md_key m) now = e" using e' assms unfolding shard_current_def now_current_def by blast
  then have f: "sd_state e = fst (classify (sd_auth e) (md_key m) now)" "sd_next_retry_at e = snd (classify (sd_auth e) (md_key m) now)"
    by (metis scheduled_fields(1), metis scheduled_fields(2))
  note B = same_model_block [OF s]
  show "sd_state e = ScheduledReady \<longleftrightarrow> \<not> fst (isAuthBlockedForModel (Some (sd_auth e)) model now)"
    unfolding f(1) classify_ready B ..
  have "cooling (md_key m) now (sd_auth e) = cooling model now (sd_auth e)" by (simp add: cooling_def B)
  then show "sd_state e = ScheduledCooldown \<longleftrightarrow> cooling model now (sd_auth e)" unfolding f(1) classify_cooling .
  show "sd_next_retry_at e = recovery model now (sd_auth e)" if "cooling model now (sd_auth e)"
    using that classify_cooling(2) [of "md_key m" now "sd_auth e"] f(2) by (simp add: recovery_def cooling_def B)
qed

lemma set_shard_auths: "shard_current now model m \<Longrightarrow> set (shard_auths pred m) =
    sd_auth ` {e. mget (md_entries m) (entry_id e) = Some e \<and> pred e}"
  using current_entry(1) [of now model m] by (auto simp: shard_auths_def image_iff)

lemma distinct_shard_auths: "shard_current now model m \<Longrightarrow> distinct (map au_id (shard_auths pred m))"
proof -
  assume c: "shard_current now model m"
  then have n: "entries_named (md_entries m)" by (simp add: shard_current_def shard_ok_def)
  then have "distinct (map entry_id (map snd (md_entries m)))" unfolding named_distinct [OF n] by (simp add: entries_named_def)
  then have "distinct (map entry_id (filter pred (map snd (md_entries m))))" by (rule distinct_map_filter)
  moreover have "entry_id = (\<lambda>e. au_id (sd_auth e))" by (simp add: fun_eq_iff entry_id_def)
  ultimately show ?thesis by (simp add: shard_auths_def comp_def)
qed

lemma summary_collected:
  assumes c: "shard_current now model m" and s: "availabilitySummaryLocked pred m = (n, cd, er)"
  shows "collected model now [] (map Some (shard_auths pred m)) cd n er"
proof -
  have "foldl (summary_step pred) (0, 0, 0) es = (n, cd, er) \<Longrightarrow> set es \<subseteq> set (map snd (md_entries m)) \<Longrightarrow>
      collected model now [] (map Some (map sd_auth (filter pred es))) cd n er" for es
  proof (induction es arbitrary: n cd er rule: rev_induct)
    case (snoc e es)
    obtain n' cd' er' where f: "foldl (summary_step pred) (0, 0, 0) es = (n', cd', er')"
      by (cases "foldl (summary_step pred) (0, 0, 0) es")
    have e: "e \<in> set (map snd (md_entries m))" using snoc.prems(2) by simp
    have IH: "collected model now [] (map Some (map sd_auth (filter pred es))) cd' n' er'" using snoc f by simp
    have st: "summary_step pred (n', cd', er') e = (n, cd, er)" using snoc.prems(1) f by simp
    show ?case
    proof (cases "pred e")
      case False
      then show ?thesis using IH st by (simp add: summary_step_def)
    next
      case p: True
      show ?thesis
      proof (cases "sd_state e = ScheduledCooldown")
        case False
        then show ?thesis using IH st p current_entry(4) [OF c e] by (auto simp: summary_step_def collected_def eligible_auths_def)
      next
        case True
        then have cool: "cooling model now (sd_auth e)" using current_entry(4) [OF c e] by blast
        note r = current_entry(5) [OF c e cool]
        have "n = n' + 1" "cd = cd' + 1" "er = (if sd_next_retry_at e \<noteq> 0 \<and> (er' = 0 \<or> sd_next_retry_at e < er') then sd_next_retry_at e else er')"
          using st p True by (auto simp: summary_step_def)
        then show ?thesis using IH p cool unfolding r by (auto simp: collected_def eligible_auths_def split: if_splits)
      qed
    qed
  qed (simp add: collected_def eligible_auths_def)
  then show ?thesis using s unfolding availabilitySummaryLocked_def shard_auths_def by blast
qed

lemma sorted_same:
  assumes "sorted_wrt (\<lambda>x y. f x < (f y :: string)) xs" "sorted_wrt (\<lambda>x y. f x < f y) ys" "set xs = set ys"
  shows "xs = ys"
proof -
  have "sorted_wrt (<) (map f xs)" "sorted_wrt (<) (map f ys)" using assms(1,2) by (simp_all add: sorted_wrt_map)
  then have "map f xs = map f ys" using assms(3) by (intro strict_sorted_equal) simp_all
  moreover have "inj_on f (set xs)"
  proof (rule inj_onI)
    fix x y assume xy: "x \<in> set xs" "y \<in> set xs" "f x = f y"
    then obtain i j where "i < length xs" "j < length xs" "x = xs ! i" "y = xs ! j" by (auto simp: in_set_conv_nth)
    then show "x = y" using sorted_wrt_nth_less [OF assms(1), of i j] sorted_wrt_nth_less [OF assms(1), of j i] xy(3)
      by (cases i j rule: linorder_cases) auto
  qed
  ultimately show ?thesis using map_inj_on [of f xs ys] assms(3) by simp
qed

lemma turn_ring_ring:
  assumes c: "shard_current now model m"
  shows "map sd_auth (turn_ring m pw pred) = available_ring model now (preferred pw model now (shard_auths pred m))"
proof -
  have ok: "shard_ok now m" using c by (simp add: shard_current_def)
  let ?l = "shard_auths pred m" and ?P = "ws_pred (takes_ws m pw pred) pred"
  let ?E = "{e. mget (md_entries m) (entry_id e) = Some e}"
  note C = current_entry [OF c]
  have R: "ready_entry m Q p e \<longleftrightarrow> e \<in> ?E \<and> \<not> fst (isAuthBlockedForModel (Some (sd_auth e)) model now) \<and> authPriority (sd_auth e) = p \<and> Q e" for Q p e
  proof (cases "e \<in> ?E")
    case True
    then have e: "e \<in> set (map snd (md_entries m))" using C(1) by blast
    show ?thesis using True C(3) [OF e] C(2) [OF e] by (auto simp: ready_entry_def meta_ok_def)
  qed (simp add: ready_entry_def)
  have W: "sm_websocket (sd_meta e) = authWebsocketsEnabled (Some (sd_auth e))" if "e \<in> ?E" for e
  proof -
    have e: "e \<in> set (map snd (md_entries m))" using that C(1) by blast
    show ?thesis using C(2) [OF e] by (simp add: meta_ok_def)
  qed
  have t: "takes_ws m pw pred \<longleftrightarrow> pw \<and> (\<exists>a \<in> set ?l. authWebsocketsEnabled (Some a) \<and> \<not> fst (isAuthBlockedForModel (Some a) model now))"
    using W by (auto simp: takes_ws_def R ws_pred_def set_shard_auths [OF c])
  have L: "set (preferred pw model now ?l) = sd_auth ` {e \<in> ?E. ?P e}"
    using W unfolding preferred_def t [symmetric] by (auto simp: ws_pred_def set_shard_auths [OF c])
  have d: "distinct (map au_id (preferred pw model now ?l))"
    using distinct_shard_auths [OF c, of pred] by (simp add: preferred_def distinct_map_filter)
  note A = available_ring_props [OF d, of model now]
  show ?thesis
  proof (rule sorted_same [where f = au_id])
    show "sorted_wrt (\<lambda>x y. au_id x < au_id y) (map sd_auth (turn_ring m pw pred))"
      using turn_ring_props(1) [OF ok, of pw pred] by (simp add: sorted_wrt_map entry_id_def)
    show "sorted_wrt (\<lambda>x y. au_id x < au_id y) (available_ring model now (preferred pw model now ?l))" by (rule A(1))
    show "set (map sd_auth (turn_ring m pw pred)) = set (available_ring model now (preferred pw model now ?l))"
      unfolding A(2) L set_map turn_ring_props(2) [OF ok] R by auto
  qed
qed

section \<open>What the scheduler holds\<close>

text \<open>The specification: the credentials, each with its metadata. A provider owns those of its key,
  a shard those of its provider that support the model.\<close>

type_synonym holding = "string \<Rightarrow> scheduledAuthMeta option"

definition owned :: "holding \<Rightarrow> string \<Rightarrow> holding" where
  "owned A key i = (case A i of Some meta \<Rightarrow> if sm_provider_key meta = key then Some meta else None | None \<Rightarrow> None)"

definition supporting :: "string \<Rightarrow> holding \<Rightarrow> holding" where
  "supporting k H i = (case H i of Some meta \<Rightarrow> if supportsModel k meta then Some meta else None | None \<Rightarrow> None)"

definition shard_metas :: "modelScheduler \<Rightarrow> holding" where
  "shard_metas m i = map_option sd_meta (mget (md_entries m) i)"

definition shard_of_holding :: "time \<Rightarrow> holding \<Rightarrow> string \<Rightarrow> modelScheduler \<Rightarrow> bool" where
  "shard_of_holding now H k m \<longleftrightarrow> md_key m = k \<and> shard_ok now m \<and> shard_metas m = supporting k H"

definition provider_ok :: "time \<Rightarrow> holding \<Rightarrow> providerScheduler \<Rightarrow> bool" where
  "provider_ok now H p \<longleftrightarrow> mwf (ps_auths p) \<and> mwf (ps_shards p) \<and> mget (ps_auths p) = H \<and>
     (\<forall>k m. mget (ps_shards p) k = Some m \<longrightarrow> shard_of_holding now H k m)"

lemma shard_of_holding_mono: "shard_of_holding now H k m \<Longrightarrow> now \<le> now' \<Longrightarrow> shard_of_holding now' H k m"
  by (auto simp: shard_of_holding_def intro: shard_ok_mono)

lemma provider_ok_mono: "provider_ok now H p \<Longrightarrow> now \<le> now' \<Longrightarrow> provider_ok now' H p"
  unfolding provider_ok_def using shard_of_holding_mono by blast

lemma provider_okI:
  assumes "mwf (ps_auths p)" "mget (ps_auths p) = H" "ps_shards p = map (\<lambda>(k, m). (k, f k m)) l" "mwf l"
    and "\<And>k m. mget l k = Some m \<Longrightarrow> shard_of_holding now H k (f k m)"
  shows "provider_ok now H p"
  unfolding provider_ok_def assms(3) mget_map_snd mkeys_map_snd using assms(1,2,4,5) by auto

lemma metas_upsert: "shard_metas (upsertEntryLocked meta now m) = (shard_metas m)(au_id (sm_auth meta) := Some meta)"
  by (simp add: shard_metas_def fun_eq_iff)

lemma metas_remove: "i \<noteq> [] \<Longrightarrow> shard_metas (removeEntryLocked i m) = (shard_metas m)(i := None)"
  by (simp add: shard_metas_def fun_eq_iff)

lemma supporting_upd: "supporting k (H(i := x)) = (supporting k H)(i := (case x of None \<Rightarrow> None | Some meta \<Rightarrow> if supportsModel k meta then Some meta else None))"
  by (simp add: supporting_def fun_eq_iff)

lemma provider_remove_ok:
  assumes "provider_ok now H p" "i \<noteq> []"
  shows "provider_ok now (H(i := None)) (provider_remove i p)"
proof -
  have "shard_of_holding now (H(i := None)) k (removeEntryLocked i m)" if "mget (ps_shards p) k = Some m" for k m
  proof -
    have "shard_of_holding now H k m" using assms(1) that by (auto simp: provider_ok_def)
    then show ?thesis using assms(2) by (simp add: shard_of_holding_def removeEntry_ok metas_remove supporting_upd)
  qed
  moreover have "mwf (ps_auths p)" "mget (ps_auths p) = H" "mwf (ps_shards p)" using assms(1) by (simp_all add: provider_ok_def)
  ultimately show ?thesis using assms(2)
    by (intro provider_okI [where f = "\<lambda>_. removeEntryLocked i" and l = "ps_shards p"]) (auto simp: provider_remove_def)
qed

lemma provider_upsert_ok:
  assumes "provider_ok now H p" "au_id (sm_auth meta) \<noteq> []" "0 \<le> now"
  shows "provider_ok now (H(au_id (sm_auth meta) := Some meta)) (provider_upsert meta now p)"
proof -
  let ?i = "au_id (sm_auth meta)"
  let ?f = "\<lambda>k m. if supportsModel k meta then upsertEntryLocked meta now m else removeEntryLocked ?i m"
  have "shard_of_holding now (H(?i := Some meta)) k (?f k m)" if "mget (ps_shards p) k = Some m" for k m
  proof -
    have "shard_of_holding now H k m" using assms(1) that by (auto simp: provider_ok_def)
    then show ?thesis using assms(2,3)
      by (auto simp: shard_of_holding_def removeEntry_ok upsertEntry_ok metas_remove metas_upsert supporting_upd)
  qed
  moreover have "mwf (ps_auths p)" "mget (ps_auths p) = H" "mwf (ps_shards p)" using assms(1) by (simp_all add: provider_ok_def)
  ultimately show ?thesis
    by (intro provider_okI [where f = ?f and l = "ps_shards p"]) (auto simp: provider_upsert_def)
qed

lemma put_shard_ok: "provider_ok now H p \<Longrightarrow> shard_of_holding now H (md_key m) m \<Longrightarrow> provider_ok now H (put_shard m p)"
  by (auto simp: provider_ok_def put_shard_def)

section \<open>Ensuring a shard\<close>

definition named_holding :: "holding \<Rightarrow> bool" where
  "named_holding H \<longleftrightarrow> (\<forall>i meta. H i = Some meta \<longrightarrow> au_id (sm_auth meta) = i)"

lemma build_shard:
  fixes k :: string
  assumes "0 \<le> now" "distinct (map (\<lambda>meta. au_id (sm_auth meta)) metas)"
  defines "m \<equiv> foldl (\<lambda>m meta. if supportsModel k meta then upsertEntryLocked meta now m else m) (new_shard k) metas"
  shows "md_key m = k \<and> shard_ok now m \<and> now_current now m \<and>
    (\<forall>i. shard_metas m i = find (\<lambda>meta. au_id (sm_auth meta) = i \<and> supportsModel k meta) metas)"
  unfolding m_def using assms(2)
proof (induction metas rule: rev_induct)
  case Nil
  have "shard_metas (new_shard k) i = None" for i by (simp add: shard_metas_def new_shard_def)
  then show ?case using new_shard_ok by (auto simp: now_current_def) (simp_all add: new_shard_def)
next
  case (snoc meta metas)
  let ?m = "foldl (\<lambda>m meta. if supportsModel k meta then upsertEntryLocked meta now m else m) (new_shard k) metas"
  have IH: "md_key ?m = k \<and> shard_ok now ?m \<and> now_current now ?m \<and>
    (\<forall>i. shard_metas ?m i = find (\<lambda>meta. au_id (sm_auth meta) = i \<and> supportsModel k meta) metas)"
    using snoc by simp
  have app: "find P (xs @ [x]) = (case find P xs of None \<Rightarrow> if P x then Some x else None | Some y \<Rightarrow> Some y)" for P xs and x :: scheduledAuthMeta
    by (induction xs) auto
  have new: "find (\<lambda>m. au_id (sm_auth m) = au_id (sm_auth meta) \<and> supportsModel k m) metas = None"
    using snoc.prems unfolding find_None_iff by (force simp: image_iff)
  show ?case
  proof (cases "supportsModel k meta")
    case False
    then show ?thesis using IH by (auto simp: app split: option.splits)
  next
    case True
    have "now_current now (upsertEntryLocked meta now ?m)" using IH by (auto simp: now_current_def)
    then show ?thesis using IH True new upsertEntry_ok [of now ?m meta] assms(1)
      by (auto simp: app metas_upsert split: option.splits)
  qed
qed

lemma ensure_facts:
  assumes p: "provider_ok t H p" "t \<le> now" "0 \<le> now" and n: "named_holding H"
  shows "shard_of_holding now H (canonicalModelKey k) (ensureModelLocked k now p)" "now_current now (ensureModelLocked k now p)"
proof -
  let ?k = "canonicalModelKey k"
  have "shard_of_holding now H ?k (ensureModelLocked k now p) \<and> now_current now (ensureModelLocked k now p)"
  proof (cases "mget (ps_shards p) ?k")
    case (Some m)
    then have m: "shard_of_holding t H ?k m" using p(1) by (simp add: provider_ok_def)
    then have ok: "shard_ok t m" by (simp add: shard_of_holding_def)
    note P = promote_facts [OF ok p(2,3)]
    have "shard_metas (promoteExpiredLocked now m) = shard_metas m"
      by (simp add: shard_metas_def P(3) fun_eq_iff option.map_comp comp_def)
    then show ?thesis using Some m P(1,2) promote_current [OF ok p(2,3)]
      by (simp add: ensureModelLocked_def shard_of_holding_def)
  next
    case None
    have w: "mwf (ps_auths p)" and g: "mget (ps_auths p) = H" using p(1) by (simp_all add: provider_ok_def)
    have ids: "au_id (sm_auth meta) = i" if "(i, meta) \<in> set (ps_auths p)" for i meta
      using that w g n by (metis mget_Some_iff named_holding_def)
    then have "map (\<lambda>meta. au_id (sm_auth meta)) (map snd (ps_auths p)) = mkeys (ps_auths p)" by (auto simp: split_def)
    then have d: "distinct (map (\<lambda>meta. au_id (sm_auth meta)) (map snd (ps_auths p)))" using w by (simp only:)
    have f: "find (\<lambda>meta. au_id (sm_auth meta) = i \<and> supportsModel ?k meta) (map snd (ps_auths p)) = supporting ?k H i" for i
    proof (cases "find (\<lambda>meta. au_id (sm_auth meta) = i \<and> supportsModel ?k meta) (map snd (ps_auths p))")
      case None
      have "\<not> supportsModel ?k meta" if "H i = Some meta" for meta
      proof -
        have "(i, meta) \<in> set (ps_auths p)" using that w g by (metis mget_Some_iff)
        then have "meta \<in> set (map snd (ps_auths p))" "au_id (sm_auth meta) = i" using ids by force+
        then show ?thesis using None unfolding find_None_iff by blast
      qed
      then show ?thesis using None by (auto simp: supporting_def split: option.splits)
    next
      case (Some meta)
      then have "meta \<in> set (map snd (ps_auths p))" "au_id (sm_auth meta) = i" "supportsModel ?k meta" by (auto simp: find_Some_iff)
      then have "H i = Some meta" using ids w g by (metis (no_types, lifting) imageE list.set_map mget_Some_iff prod.collapse)
      then show ?thesis using Some \<open>supportsModel ?k meta\<close> by (simp add: supporting_def)
    qed
    show ?thesis using build_shard [OF p(3) d, of ?k] None f
      by (simp add: ensureModelLocked_def shard_of_holding_def fun_eq_iff Let_def)
  qed
  then show "shard_of_holding now H (canonicalModelKey k) (ensureModelLocked k now p)" "now_current now (ensureModelLocked k now p)"
    by blast+
qed

section \<open>The scheduler holds what it was given\<close>

definition holding_ok :: "holding \<Rightarrow> bool" where
  "holding_ok A \<longleftrightarrow> (\<forall>i meta. A i = Some meta \<longrightarrow> au_id (sm_auth meta) = i \<and> i \<noteq> [] \<and> meta_ok meta \<and> sm_provider_key meta \<noteq> [])"

definition holds :: "time \<Rightarrow> authScheduler \<Rightarrow> holding \<Rightarrow> bool" where
  "holds now s A \<longleftrightarrow> holding_ok A \<and> mwf (sh_providers s) \<and> mwf (sh_auth_providers s) \<and>
     (\<forall>i. mget (sh_auth_providers s) i = map_option sm_provider_key (A i)) \<and>
     (\<forall>i meta. A i = Some meta \<longrightarrow> mget (sh_providers s) (sm_provider_key meta) \<noteq> None) \<and>
     (\<forall>key p. mget (sh_providers s) key = Some p \<longrightarrow> provider_ok now (owned A key) p)"

lemma holds_mono: "holds now s A \<Longrightarrow> now \<le> now' \<Longrightarrow> holds now' s A"
  unfolding holds_def using provider_ok_mono by blast

lemma owned_named: "holding_ok A \<Longrightarrow> named_holding (owned A key)"
  by (auto simp: holding_ok_def named_holding_def owned_def split: option.splits if_splits)

lemma owned_upd: "owned (A(i := x)) key = (owned A key)(i := (case x of None \<Rightarrow> None | Some meta \<Rightarrow> if sm_provider_key meta = key then Some meta else None))"
  by (auto simp: owned_def fun_eq_iff)

lemma owned_other: "(\<forall>meta. A i = Some meta \<longrightarrow> sm_provider_key meta \<noteq> key) \<Longrightarrow> (owned A key)(i := None) = owned A key"
  by (auto simp: owned_def fun_eq_iff split: option.splits)

definition spec_remove :: "string \<Rightarrow> holding \<Rightarrow> holding" where
  "spec_remove authID A = A(trim_space authID := None)"

definition spec_upsert :: "ModelRegistry \<Rightarrow> Auth \<Rightarrow> holding \<Rightarrow> holding" where
  "spec_upsert r a A =
     (let i = trim_space (au_id a) in
      if i = [] \<or> executorKeyFromAuth a = [] \<or> au_disabled a then A(i := None) else A(i := Some (buildScheduledAuthMeta r a)))"

lemma removeAuthLocked_holds:
  assumes h: "holds now s A"
  shows "holds now (removeAuthLocked i s) (A(i := None))"
proof (cases "A i")
  case None
  then have "A(i := None) = A" "mget_or [] (sh_auth_providers s) i = []" using h by (auto simp: holds_def mget_or_def)
  then show ?thesis using h by (simp add: removeAuthLocked_def)
next
  case (Some meta)
  let ?key = "sm_provider_key meta"
  have m: "i \<noteq> []" "?key \<noteq> []" "mget_or [] (sh_auth_providers s) i = ?key" using h Some by (auto simp: holds_def holding_ok_def mget_or_def)
  obtain p where p: "mget (sh_providers s) ?key = Some p" using h Some by (force simp: holds_def)
  have e: "removeAuthLocked i s = (put_provider ?key (provider_remove i p) s)\<lparr>sh_auth_providers := mdel i (sh_auth_providers s)\<rparr>"
    using m p by (simp add: removeAuthLocked_def on_provider_def)
  have "provider_ok now (owned (A(i := None)) key) q" if "mget (mput ?key (provider_remove i p) (sh_providers s)) key = Some q" for key q
  proof (cases "key = ?key")
    case True
    then show ?thesis using that h p m(1) provider_remove_ok [of now "owned A ?key" p i] by (auto simp: holds_def owned_upd)
  next
    case False
    then show ?thesis using that h Some by (auto simp: holds_def owned_upd owned_other)
  qed
  then show ?thesis unfolding e using h by (auto simp: holds_def put_provider_def holding_ok_def)
qed

lemma upsertAuth_holds:
  assumes h: "holds now s A" "0 \<le> now" and i: "trim_space (au_id a) = au_id a"
  shows "holds now (upsertAuthLocked r a now s) (spec_upsert r a A)"
proof (cases "au_id a = [] \<or> executorKeyFromAuth a = [] \<or> au_disabled a")
  case True
  then show ?thesis using removeAuthLocked_holds [OF h(1), of "au_id a"] i
    by (auto simp: upsertAuthLocked_def spec_upsert_def Let_def)
next
  case False
  let ?i = "au_id a" and ?key = "executorKeyFromAuth a" and ?meta = "buildScheduledAuthMeta r a"
  let ?prev = "mget_or [] (sh_auth_providers s) ?i"
  define s1 where "s1 = (if ?prev \<noteq> [] \<and> ?prev \<noteq> ?key then on_provider ?prev (provider_remove ?i) s else s)"
  define p where "p = provider_upsert ?meta now (ensureProviderLocked ?key s1)"
  have e: "upsertAuthLocked r a now s = s1\<lparr>sh_auth_providers := mput ?i ?key (sh_auth_providers s1), sh_providers := mput ?key p (sh_providers s1)\<rparr>"
    using False i by (simp add: upsertAuthLocked_def Let_def s1_def [symmetric] p_def put_provider_def ensureProviderLocked_def)
  have A': "spec_upsert r a A = A(?i := Some ?meta)" using False i by (simp add: spec_upsert_def)
  have prev: "?prev = (case A ?i of None \<Rightarrow> [] | Some m \<Rightarrow> sm_provider_key m)" using h by (auto simp: holds_def mget_or_def split: option.splits)
  have nk: "sm_provider_key m \<noteq> []" if "A ?i = Some m" for m using h that by (auto simp: holds_def holding_ok_def)
  have k: "sm_provider_key ?meta = ?key" "au_id (sm_auth ?meta) = ?i" "meta_ok ?meta" by (simp_all add: buildScheduledAuthMeta_def meta_ok_def)
  have s1: "sh_auth_providers s1 = sh_auth_providers s" "mwf (sh_providers s1)"
    "mget (sh_providers s1) key = None \<longleftrightarrow> mget (sh_providers s) key = None" for key
    using h by (auto simp: s1_def on_provider_def put_provider_def holds_def split: option.splits)
  have P: "provider_ok now ((owned A key)(?i := None)) q" if q: "mget (sh_providers s1) key = Some q" "key \<noteq> ?key" for key q
  proof (cases "?prev = key \<and> key \<noteq> []")
    case True
    then obtain q0 where "mget (sh_providers s) key = Some q0" "q = provider_remove ?i q0"
      using q by (auto simp: s1_def on_provider_def put_provider_def split: option.splits if_splits)
    then show ?thesis using provider_remove_ok [of now "owned A key" q0 ?i] h(1) False by (auto simp: holds_def)
  next
    case other: False
    then have "mget (sh_providers s) key = Some q"
      using q by (auto simp: s1_def on_provider_def put_provider_def split: option.splits if_splits)
    moreover have "(owned A key)(?i := None) = owned A key" using other prev nk by (intro owned_other) auto
    ultimately show ?thesis using h(1) by (simp add: holds_def)
  qed
  have own: "provider_ok now (owned A ?key) (ensureProviderLocked ?key s1)"
  proof (cases "mget (sh_providers s1) ?key")
    case None
    then have "mget (sh_providers s) ?key = None" using s1(3) by blast
    then have "owned A ?key = Map.empty" using h(1) by (fastforce simp: holds_def owned_def fun_eq_iff split: option.splits)
    then show ?thesis using None by (simp add: ensureProviderLocked_def mget_or_def provider_ok_def)
  next
    case (Some q)
    then have "mget (sh_providers s) ?key = Some q"
      by (auto simp: s1_def on_provider_def put_provider_def split: option.splits if_splits)
    then show ?thesis using h(1) Some by (simp add: ensureProviderLocked_def mget_or_def holds_def)
  qed
  have "provider_ok now (owned (A(?i := Some ?meta)) key) q" if "mget (mput ?key p (sh_providers s1)) key = Some q" for key q
  proof (cases "key = ?key")
    case True
    then show ?thesis using that provider_upsert_ok [OF own, of ?meta] False h(2) k by (simp add: owned_upd p_def)
  next
    case ne: False
    then show ?thesis using that P [of key q] k by (simp add: owned_upd)
  qed
  moreover have "mget (mput ?key p (sh_providers s1)) (sm_provider_key m) \<noteq> None" if "(A(?i := Some ?meta)) j = Some m" for j m
  proof (cases "j = ?i")
    case True
    then show ?thesis using that k by simp
  next
    case False
    then have "mget (sh_providers s) (sm_provider_key m) \<noteq> None" using that h(1) unfolding holds_def by auto
    then have "mget (sh_providers s1) (sm_provider_key m) \<noteq> None" using s1(3) [of "sm_provider_key m"] by (simp del: not_None_eq)
    then show ?thesis by (simp del: not_None_eq)
  qed
  moreover have "holding_ok (A(?i := Some ?meta))" using h(1) k False by (auto simp: holds_def holding_ok_def)
  moreover have "mwf (mput ?i ?key (sh_auth_providers s1))" "mwf (mput ?key p (sh_providers s1))"
    "mget (mput ?i ?key (sh_auth_providers s1)) j = map_option sm_provider_key ((A(?i := Some ?meta)) j)" for j
    using h(1) s1(1,2) k by (simp_all add: holds_def)
  ultimately show ?thesis unfolding A' e by (auto simp: holds_def simp del: not_None_eq)
qed

section \<open>Picks keep what is held\<close>

lemma put_provider_holds: "holds now s A \<Longrightarrow> provider_ok now (owned A key) p \<Longrightarrow> holds now (put_provider key p s) A"
  unfolding holds_def put_provider_def by (auto simp del: not_None_eq)

lemma on_provider_holds:
  assumes "holds now s A" "\<And>p. mget (sh_providers s) key = Some p \<Longrightarrow> provider_ok now (owned A key) (f p)"
  shows "holds now (on_provider key f s) A"
  using assms put_provider_holds by (auto simp: on_provider_def split: option.splits)

lemma holds_provider: "holds now s A \<Longrightarrow> mget (sh_providers s) key = Some p \<Longrightarrow> provider_ok now (owned A key) p"
  unfolding holds_def by blast

lemma holds_named: "holds now s A \<Longrightarrow> named_holding (owned A key)"
  by (auto simp: holds_def intro: owned_named)

lemma holds_fields [simp]:
  "holds now (s\<lparr>sh_mixed_cursors := c\<rparr>) A = holds now s A" "holds now (s\<lparr>sh_mixed_weighted := w\<rparr>) A = holds now s A"
  "holds now (s\<lparr>sh_strategy := st\<rparr>) A = holds now s A"
  by (simp_all add: holds_def)

lemma ensure_shards_holds:
  assumes "holds now s A" "0 \<le> now"
  shows "holds now (ensure_shards k now ps s) A"
  unfolding ensure_shards_def
proof (rule foldl_invariant [where P = "\<lambda>s. holds now s A"])
  fix s key assume h: "holds now s A"
  show "holds now (on_provider key (\<lambda>p. put_shard (ensureModelLocked k now p) p) s) A"
  proof (rule on_provider_holds [OF h])
    fix p assume "mget (sh_providers s) key = Some p"
    then have p: "provider_ok now (owned A key) p" by (rule holds_provider [OF h])
    have "shard_of_holding now (owned A key) (canonicalModelKey k) (ensureModelLocked k now p)"
      by (rule ensure_facts(1) [OF p order_refl assms(2) holds_named [OF h]])
    then show "provider_ok now (owned A key) (put_shard (ensureModelLocked k now p) p)"
      using put_shard_ok [OF p] by (simp add: shard_of_holding_def)
  qed
qed (use assms in simp)

definition held_shard :: "time \<Rightarrow> holding \<Rightarrow> string \<times> modelScheduler \<Rightarrow> bool" where
  "held_shard now A km \<longleftrightarrow> shard_of_holding now (owned A (fst km)) (md_key (snd km)) (snd km)"

lemma shard_of_held: "holds now s A \<Longrightarrow> shard_of s k key = Some m \<Longrightarrow> held_shard now A (key, m)"
  by (auto simp: shard_of_def held_shard_def holds_def provider_ok_def shard_of_holding_def split: option.splits
      simp del: not_None_eq dest!: spec [of _ key])

lemma candidate_shards_held: "holds now s A \<Longrightarrow> \<forall>km \<in> set (candidate_shards s k ps). held_shard now A km"
  using shard_of_held by (fastforce simp: candidate_shards_def set_somes map_option_case split: option.splits)

lemma pick_in_shard_holds:
  assumes h: "holds now s A" and m: "held_shard now A (key, m)"
  shows "holds now (fst (pick_in_shard p strategy pred key m s)) A"
proof -
  let ?m = "fst (pickReadyAtPriorityLocked False p strategy pred m)"
  have ok: "shard_ok now m" using m by (simp add: held_shard_def shard_of_holding_def)
  note F = pickAt_facts [OF ok, of False p strategy pred]
  have "shard_of_holding now (owned A key) (md_key ?m) ?m"
    using m F by (simp add: held_shard_def shard_of_holding_def shard_metas_def fun_eq_iff)
  then have "holds now (on_provider key (put_shard ?m) s) A"
    using put_shard_ok holds_provider [OF h] by (intro on_provider_holds [OF h]) blast
  then show ?thesis by (simp add: pick_in_shard_def split_def Let_def)
qed

lemma first_pick_holds: "holds now s A \<Longrightarrow> \<forall>km \<in> set shards. held_shard now A km \<Longrightarrow> holds now (fst (first_pick p strategy pred shards s)) A"
proof (induction p strategy pred shards s rule: first_pick.induct)
  case (2 p strategy pred k m shards s)
  then show ?case using pick_in_shard_holds [of now s A k m p strategy pred] by (auto split: prod.splits option.splits)
qed simp

lemma rotate_pick_holds: "holds now s A \<Longrightarrow> holds now (fst (rotate_pick p pred k ps w start slot offs s)) A"
proof (induction p pred k ps w start slot offs s rule: rotate_pick.induct)
  case (2 p pred k ps w start slot off offs s)
  let ?i = "(start + off) mod length ps"
  show ?case
  proof (cases "shard_of s k (ps ! ?i)")
    case None
    then show ?thesis using 2 by (simp add: Let_def)
  next
    case (Some m)
    have "holds now (fst (pick_in_shard p StrategyRoundRobin pred (ps ! ?i) m s)) A"
      by (rule pick_in_shard_holds [OF "2.prems" shard_of_held [OF "2.prems" Some]])
    then show ?thesis using 2 Some by (auto simp: Let_def split: prod.splits option.splits)
  qed
qed simp

lemma mixed_rotation_holds: "holds now s A \<Longrightarrow> holds now (fst (mixed_rotation p pred ck k ps s)) A"
  by (auto simp: mixed_rotation_def Let_def split_def rotate_pick_holds split: option.splits)

lemma mixed_weighted_holds: "holds now s A \<Longrightarrow> holds now (fst (mixed_weighted p pred ck k ps s)) A"
  by (auto simp: mixed_weighted_def Let_def split: prod.splits)

lemma unavailable_holds: "holds now s A \<Longrightarrow> 0 \<le> now \<Longrightarrow> holds now (fst (mixedUnavailableErrorLocked now ps model pred s)) A"
  by (simp add: mixedUnavailableErrorLocked_def Let_def ensure_shards_holds)

text \<open>The readings of the clock do not go back.\<close>

definition ticking :: "time \<Rightarrow> clock \<Rightarrow> bool" where
  "ticking t clk \<longleftrightarrow> 0 \<le> t \<and> t \<le> clk 0 \<and> clk 0 \<le> clk 1 \<and> clk 1 \<le> clk 2"

lemma pick_several_holds:
  assumes h: "holds t s A" and t: "ticking t clk"
  shows "holds (clk 2) (fst (pick_several clk ps model strategy pred s)) A"
proof -
  let ?k = "canonicalModelKey model"
  let ?s1 = "ensure_shards ?k (clk 0) ps s"
  let ?r = "case best_priority pred (candidate_shards ?s1 ?k ps) of None \<Rightarrow> (?s1, None)
     | Some priority \<Rightarrow>
         if strategy = StrategyFillFirst then first_pick priority strategy pred (candidate_shards ?s1 ?k ps) ?s1
         else if strategy = StrategyWeightedRoundRobin then mixed_weighted priority pred (join '','' ps @ '':'' @ ?k) ?k ps ?s1
         else mixed_rotation priority pred (join '','' ps @ '':'' @ ?k) ?k ps ?s1"
  have s1: "holds (clk 0) ?s1 A" using t h by (auto simp: ticking_def intro!: ensure_shards_holds intro: holds_mono)
  have r: "holds (clk 0) (fst ?r) A"
    using s1 first_pick_holds [OF s1 candidate_shards_held [OF s1]] mixed_weighted_holds [OF s1] mixed_rotation_holds [OF s1]
    by (auto split: option.splits)
  then have r1: "holds (clk 1) (fst ?r) A" and r2: "holds (clk 2) (fst ?r) A" using t by (auto simp: ticking_def intro: holds_mono)
  have "holds (clk 1) (fst (mixedUnavailableErrorLocked (clk 1) ps model pred (fst ?r))) A"
    by (rule unavailable_holds [OF r1]) (use t in \<open>simp add: ticking_def\<close>)
  then have e: "holds (clk 2) (fst (mixedUnavailableErrorLocked (clk 1) ps model pred (fst ?r))) A"
    using t by (auto simp: ticking_def intro: holds_mono)
  obtain s2 picked where x: "?r = (s2, picked)" by (cases ?r)
  show ?thesis using r2 e unfolding pick_several_def Let_def x
    by (auto split: option.splits prod.splits)
qed

section \<open>A pick from one provider\<close>

lemma pick_from_provider_ok:
  assumes p: "provider_ok t H p" and t: "ticking t clk" and n: "named_holding H" and w: "\<forall>i meta. H i = Some meta \<longrightarrow> meta_ok meta"
  shows "provider_ok (clk 2) H (fst (pick_from_provider clk k pw strategy pred provider model p))"
proof -
  let ?base = "ensureModelLocked k (clk 0) p"
  let ?m = "fst (pickReadyLocked (clk 1) pw strategy pred ?base)"
  have m0: "shard_of_holding (clk 0) H (canonicalModelKey k) ?base" by (rule ensure_facts(1) [OF p _ _ n]) (use t in \<open>auto simp: ticking_def\<close>)
  then have ok: "shard_ok (clk 0) ?base" by (simp add: shard_of_holding_def)
  have w0: "weights_ok ?base"
    unfolding weights_ok_def
  proof (intro allI impI)
    fix i e assume e: "mget (md_entries ?base) i = Some e"
    have "shard_metas ?base i = supporting (canonicalModelKey k) H i" using m0 by (simp add: shard_of_holding_def)
    then have "H i = Some (sd_meta e)" using e by (auto simp: shard_metas_def supporting_def split: option.splits if_splits)
    then show "sm_weight (sd_meta e) = weight_of (sd_auth e)" using w by (auto simp: meta_ok_def)
  qed
  have t1: "clk 0 \<le> clk 1" "0 \<le> clk 1" using t by (auto simp: ticking_def)
  note F = pickReady_eq [OF ok t1 w0, where strategy = strategy and pw = pw and pred = pred] and P = promote_facts [OF ok t1]
  have "shard_metas ?m i = shard_metas ?base i" for i
    unfolding shard_metas_def F(3) P(3) by (simp add: option.map_comp comp_def)
  then have "shard_metas ?m = shard_metas ?base" by (rule ext)
  then have "shard_of_holding (clk 1) H (md_key ?m) ?m" using m0 F(2,4) by (simp add: shard_of_holding_def)
  then have m: "shard_of_holding (clk 2) H (md_key ?m) ?m" using t by (auto simp: ticking_def intro: shard_of_holding_mono)
  have "provider_ok (clk 2) H p" using p t by (auto simp: ticking_def intro: provider_ok_mono)
  from put_shard_ok [OF this m] show ?thesis
    by (auto simp: pick_from_provider_def split: prod.splits option.splits)
qed

lemma single_holds:
  assumes h: "holds t s A" and t: "ticking t clk"
  shows "holds (clk 2) (fst (pickSingleWithStrategy clk provider q strategy s)) A"
proof -
  let ?key = "to_lower (trim_space provider)"
  have h2: "holds (clk 2) s A" using h t by (auto simp: ticking_def intro: holds_mono)
  have w: "\<forall>i meta. owned A ?key i = Some meta \<longrightarrow> meta_ok meta"
    using h by (auto simp: holds_def holding_ok_def owned_def split: option.splits if_splits)
  show ?thesis
  proof (cases "mget (sh_providers s) ?key")
    case None
    then show ?thesis using h2 by (simp add: pickSingleWithStrategy_def)
  next
    case (Some p)
    note ok = pick_from_provider_ok [OF holds_provider [OF h Some] t holds_named [OF h] w]
    then show ?thesis using Some put_provider_holds [OF h2 ok]
      by (simp add: pickSingleWithStrategy_def Let_def split_def)
  qed
qed

lemma pinned_holds:
  assumes h: "holds t s A" and t: "ticking t clk"
  shows "holds (clk 2) (fst (pick_pinned clk ps pinned model strategy pred s)) A"
proof -
  let ?key = "mget_or [] (sh_auth_providers s) pinned"
  have h2: "holds (clk 2) s A" using h t by (auto simp: ticking_def intro: holds_mono)
  have w: "\<forall>i meta. owned A ?key i = Some meta \<longrightarrow> meta_ok meta"
    using h by (auto simp: holds_def holding_ok_def owned_def split: option.splits if_splits)
  show ?thesis
  proof (cases "?key = [] \<or> ?key \<notin> set ps \<or> mget (sh_providers s) ?key = None")
    case True
    then show ?thesis using h2 by (auto simp: pick_pinned_def Let_def)
  next
    case False
    then obtain p where p: "mget (sh_providers s) ?key = Some p" by auto
    note ok = pick_from_provider_ok [OF holds_provider [OF h p] t holds_named [OF h] w]
    show ?thesis using False p put_provider_holds [OF h2 ok]
      by (auto simp: pick_pinned_def Let_def split_def)
  qed
qed

lemma mixed_holds:
  assumes h: "holds t s A" and t: "ticking t clk"
  shows "holds (clk 2) (fst (pickMixedWithStrategy clk ps q strategy s)) A"
proof -
  have h2: "holds (clk 2) s A" using h t by (auto simp: ticking_def intro: holds_mono)
  show ?thesis
    using h2 single_holds [OF h t, of _ q strategy] pinned_holds [OF h t] pick_several_holds [OF h t]
    by (auto simp: pickMixedWithStrategy_def Let_def split_def split: list.splits)
qed

end
