(* ===== verification/Scheduler_Properties.thy ===== *)
theory Scheduler_Properties
  imports Scheduler_Refinement
begin

text \<open>
  What a pick of the scheduler answers, and that it is what a selector answers. Here are the answer the
  specification gives (\<open>spec_answer\<close>), the operations of the scheduler as a step relation with the
  invariant \<open>holds\<close> of \<open>Scheduler_Refinement\<close> on its reachable states, the simulation lemma
  \<open>single_pick\<close>, and the properties that follow.
\<close>

section \<open>The answer of the specification\<close>

definition auth_allowed :: "sched_request \<Rightarrow> string \<Rightarrow> schedulerStrategy \<Rightarrow> Auth \<Rightarrow> bool" where
  "auth_allowed q pinned strategy a \<longleftrightarrow>
     allows (authSelectionEligibilityForRequest q) a \<and> (strategy = StrategyWeightedRoundRobin \<longrightarrow> 0 < authWeight (Some a)) \<and>
     (pinned \<noteq> [] \<longrightarrow> au_id a = pinned) \<and> au_id a \<notin> set (sq_tried q)"

lemma predicate_allowed: "meta_ok (sd_meta e) \<Longrightarrow> request_predicate q pinned strategy e = auth_allowed q pinned strategy (sd_auth e)"
  by (simp add: request_predicate_def scheduledAuthPredicate_def auth_allowed_def meta_ok_def entry_id_def)

text \<open>What the selector of the strategy answers on the candidates, those with a websocket first when
  the request prefers them.\<close>

definition spec_answer ::
  "schedulerStrategy \<Rightarrow> readyView \<Rightarrow> string \<Rightarrow> string \<Rightarrow> time \<Rightarrow> bool \<Rightarrow> Auth list \<Rightarrow> pick_error + Auth" where
  "spec_answer strategy v provider model now pw l =
     (if l = [] then Inl no_auth else selector_pick strategy v provider model now (preferred pw model now l))"

lemma collected_mset: "mset l = mset l' \<Longrightarrow> collected model now [] (map Some l) cd el er = collected model now [] (map Some l') cd el er"
proof -
  assume m: "mset l = mset l'"
  then have "set l = set l'" "length l = length l'" by (metis set_mset_mset, metis size_mset)
  moreover have "length (filter P l) = length (filter P l')" for P using m by (metis mset_filter size_mset)
  ultimately show ?thesis by (simp add: collected_def eligible_auths_def)
qed

lemma available_ring_mset:
  assumes "distinct (map au_id l)" "distinct (map au_id l')" "set l = set l'"
  shows "available_ring model now l = available_ring model now l'"
  by (rule sorted_same [where f = au_id]) (use available_ring_props [OF assms(1)] available_ring_props [OF assms(2)] assms(3) in auto)

lemma preferred_free: "available_ring model now (preferred pw model now l) = [] \<Longrightarrow> distinct (map au_id l) \<Longrightarrow> preferred pw model now l = l"
proof -
  assume a: "available_ring model now (preferred pw model now l) = []" and d: "distinct (map au_id l)"
  have d': "distinct (map au_id (preferred pw model now l))" using d by (simp add: preferred_def distinct_map_filter)
  have "candidates model now [] (map Some (preferred pw model now l)) = []" using a available_ring_props(3) [OF d'] by simp
  then have n: "\<forall>a \<in> set (preferred pw model now l). fst (isAuthBlockedForModel (Some a) model now)"
    by (simp add: candidates_all filter_empty_conv)
  have "\<not> (pw \<and> (\<exists>a \<in> set l. authWebsocketsEnabled (Some a) \<and> \<not> fst (isAuthBlockedForModel (Some a) model now)))"
  proof
    assume C: "pw \<and> (\<exists>a \<in> set l. authWebsocketsEnabled (Some a) \<and> \<not> fst (isAuthBlockedForModel (Some a) model now))"
    then obtain a where a: "a \<in> set l" "authWebsocketsEnabled (Some a)" "\<not> fst (isAuthBlockedForModel (Some a) model now)" by blast
    have "preferred pw model now l = filter (\<lambda>a. authWebsocketsEnabled (Some a)) l" unfolding preferred_def by (rule if_P [OF C])
    then have "a \<in> set (preferred pw model now l)" using a by simp
    then show False using n a(3) by blast
  qed
  then show ?thesis unfolding preferred_def by (rule if_not_P)
qed

text \<open>The pick of a shard whose entries are current.\<close>

lemma current_pick:
  assumes c: "shard_current now model m" and ok: "shard_ok t base" "t \<le> now" "0 \<le> now" "weights_ok base"
    and m: "m = promoteExpiredLocked now base"
    and w: "strategy = StrategyWeightedRoundRobin \<longrightarrow> (\<forall>a \<in> set (shard_auths pred m). 0 < authWeight (Some a))"
    and l: "distinct (map au_id l)" "set l = set (shard_auths pred m)"
  shows "(case pickReadyLocked now pw strategy pred base of (_, Some a) \<Rightarrow> Inr a
      | (m', None) \<Rightarrow> Inl (unavailableErrorLocked now provider model pred m')) =
    spec_answer strategy (turn_view m pw pred) provider model now pw l"
proof -
  let ?v = "turn_view m pw pred" and ?L = "shard_auths pred m"
  note E = pickReady_eq [OF ok, folded m, where strategy = strategy and pw = pw and pred = pred]
  have dL: "distinct (map au_id ?L)" by (rule distinct_shard_auths [OF c])
  have dp: "distinct (map au_id (preferred pw model now l))" "distinct (map au_id (preferred pw model now ?L))"
    using l dL by (simp_all add: preferred_def distinct_map_filter)
  have sp: "set (preferred pw model now l) = set (preferred pw model now ?L)" using l(2) by (auto simp: preferred_def)
  have ring: "map sd_auth (turn_ring m pw pred) = available_ring model now (preferred pw model now l)"
    unfolding turn_ring_ring [OF c] by (rule available_ring_mset [OF dp(2,1) sp [symmetric]])
  have wp: "strategy = StrategyWeightedRoundRobin \<longrightarrow> (\<forall>a \<in> set (preferred pw model now l). 0 < authWeight (Some a))"
    using w sp by (auto simp: preferred_def)
  obtain m' r where p: "pickReadyLocked now pw strategy pred base = (m', r)" by (cases "pickReadyLocked now pw strategy pred base")
  have r: "r = strategy_choice strategy ?v (available_ring model now (preferred pw model now l))" using E(1) p ring by simp
  have e': "md_entries m' = md_entries m" using E(3) p by simp
  show ?thesis
  proof (cases "available_ring model now (preferred pw model now l) = []")
    case False
    obtain a where a: "r = Some a" "selector_pick strategy ?v provider model now (preferred pw model now l) = Inr a"
      using selector_pick_ring [OF False dp(1) wp, of ?v provider] r by auto
    have "preferred pw model now l \<noteq> []" using False by (auto simp: available_ring_def candidates_def top_candidates_def)
    then have "l \<noteq> []" by (auto simp: preferred_def)
    then show ?thesis using a p by (simp add: spec_answer_def)
  next
    case True
    have pl: "preferred pw model now l = l" by (rule preferred_free [OF True l(1)])
    have n: "r = None" using r True by (simp add: strategy_choice_def)
    obtain cnt cd er where s: "availabilitySummaryLocked pred m' = (cnt, cd, er)" by (cases "availabilitySummaryLocked pred m'")
    have s': "availabilitySummaryLocked pred m = (cnt, cd, er)" using s by (simp add: availabilitySummaryLocked_def e')
    have C: "collected model now [] (map Some ?L) cd cnt er" by (rule summary_collected [OF c s'])
    have ms: "mset ?L = mset l" using l dL by (metis distinct_map set_eq_iff_mset_eq_distinct)
    have C': "collected model now [] (map Some l) cd cnt er" using C collected_mset [OF ms] by simp
    have len: "cnt = length l" using C' by (simp add: collected_def eligible_auths_def)
    show ?thesis
    proof (cases "l = []")
      case True
      then show ?thesis using p n s len by (simp add: spec_answer_def unavailableErrorLocked_def summary_error_def no_auth_def)
    next
      case ne: False
      have "selector_pick strategy ?v provider model now l = Inl (all_blocked_error provider model now cd cnt er)"
        by (rule selector_pick_error [OF True [unfolded pl] ne l(1) wp [unfolded pl] C'])
      then show ?thesis using p n s len ne pl
        by (simp add: spec_answer_def unavailableErrorLocked_def summary_error_def all_blocked_error_def)
    qed
  qed
qed

section \<open>A pick from one provider\<close>

definition provider_candidates :: "holding \<Rightarrow> string \<Rightarrow> (Auth \<Rightarrow> bool) \<Rightarrow> Auth set" where
  "provider_candidates H model P = {sm_auth meta |i meta. H i = Some meta \<and> supportsModel (canonicalModelKey model) meta \<and> P (sm_auth meta)}"

definition plain_model_name :: "string \<Rightarrow> bool" where
  "plain_model_name model \<longleftrightarrow> canonicalModelKey model \<noteq> [] \<and> canonicalModelKey (canonicalModelKey model) = canonicalModelKey model"

definition provider_view :: "time \<Rightarrow> string \<Rightarrow> bool \<Rightarrow> predicate \<Rightarrow> providerScheduler \<Rightarrow> readyView" where
  "provider_view now model pw pred p =
     turn_view (promoteExpiredLocked now (ensureModelLocked (canonicalModelKey model) now p)) pw pred"

text \<open>A shard brought up to date: its entries are current, and those the request may use are the
  credentials of the provider that support the model and that the request allows.\<close>

lemma held_current:
  assumes b: "shard_of_holding now H (canonicalModelKey model) m" "now_current now m"
    and n: "named_holding H" and w: "\<forall>i meta. H i = Some meta \<longrightarrow> meta_ok meta" and pl: "plain_model_name model"
  shows "shard_current now model m"
    and "set (shard_auths (request_predicate q pinned strategy) m) = provider_candidates H model (auth_allowed q pinned strategy)"
proof -
  let ?k = "canonicalModelKey model" and ?pred = "request_predicate q pinned strategy"
  have meta: "mget (md_entries m) i = Some e \<Longrightarrow> supporting ?k H i = Some (sd_meta e)" for i e
    using b(1) by (simp add: shard_of_holding_def shard_metas_def fun_eq_iff split: option.splits)
      (metis option.simps(9))
  have held: "H i = Some (sd_meta e)" "supportsModel ?k (sd_meta e)" if "mget (md_entries m) i = Some e" for i e
    using meta [OF that] by (auto simp: supporting_def split: option.splits if_splits)
  have k: "canonicalModelKey ?k = ?k" "?k \<noteq> []" using pl by (simp_all add: plain_model_name_def)
  have "same_model (md_key m) model"
    using b(1) k by (auto simp: same_model_def shard_of_holding_def canonicalModelKey_def Let_def)
  then show c: "shard_current now model m"
    using b held(1) w unfolding shard_current_def shard_of_holding_def by blast
  have "{e. mget (md_entries m) (entry_id e) = Some e \<and> ?pred e} = {e. mget (md_entries m) (entry_id e) = Some e \<and> auth_allowed q pinned strategy (sd_auth e)}"
    using predicate_allowed current_entry(1,2) [OF c] by blast
  moreover have "sd_auth ` {e. mget (md_entries m) (entry_id e) = Some e \<and> auth_allowed q pinned strategy (sd_auth e)} =
      provider_candidates H model (auth_allowed q pinned strategy)"
  proof (intro equalityI subsetI)
    fix a assume "a \<in> sd_auth ` {e. mget (md_entries m) (entry_id e) = Some e \<and> auth_allowed q pinned strategy (sd_auth e)}"
    then obtain e where e: "a = sd_auth e" "mget (md_entries m) (entry_id e) = Some e" "auth_allowed q pinned strategy (sd_auth e)" by auto
    show "a \<in> provider_candidates H model (auth_allowed q pinned strategy)"
      using held [OF e(2)] e by (auto simp: provider_candidates_def)
  next
    fix a assume "a \<in> provider_candidates H model (auth_allowed q pinned strategy)"
    then obtain i meta where i: "H i = Some meta" "supportsModel ?k meta" "auth_allowed q pinned strategy (sm_auth meta)" "a = sm_auth meta"
      by (auto simp: provider_candidates_def)
    then have "shard_metas m i = Some meta" using b(1) by (simp add: shard_of_holding_def supporting_def)
    then obtain e where e: "mget (md_entries m) i = Some e" "sd_meta e = meta" by (auto simp: shard_metas_def)
    have "entry_id e = i" using e n i(1) by (simp add: entry_id_def named_holding_def)
    then show "a \<in> sd_auth ` {e. mget (md_entries m) (entry_id e) = Some e \<and> auth_allowed q pinned strategy (sd_auth e)}"
      using e i by (intro image_eqI [of _ _ e]) auto
  qed
  ultimately show "set (shard_auths ?pred m) = provider_candidates H model (auth_allowed q pinned strategy)"
    unfolding set_shard_auths [OF c] by simp
qed

lemma provider_pick:
  assumes p: "provider_ok t H p" "t \<le> now" "0 \<le> now" and n: "named_holding H" and w: "\<forall>i meta. H i = Some meta \<longrightarrow> meta_ok meta"
    and pl: "plain_model_name model"
    and l: "distinct (map au_id l)" "set l = provider_candidates H model (auth_allowed q pinned strategy)"
  defines "pred \<equiv> request_predicate q pinned strategy"
  shows "snd (pick_from_provider (\<lambda>_. now) (canonicalModelKey model) pw strategy pred provider model p) =
    spec_answer strategy (provider_view now model pw pred p) provider model now pw l"
proof -
  let ?k = "canonicalModelKey model"
  define base where "base = ensureModelLocked ?k now p"
  define m where "m = promoteExpiredLocked now base"
  have k: "canonicalModelKey ?k = ?k" using pl by (simp add: plain_model_name_def)
  have b: "shard_of_holding now H ?k base" "now_current now base" using ensure_facts [OF p n, of ?k] k by (simp_all add: base_def)
  have ok: "shard_ok now base" using b by (simp add: shard_of_holding_def)
  have wb: "weights_ok base"
    using held_current(1) [OF b n w pl] by (auto simp: weights_ok_def meta_ok_def shard_current_def)
  note P = promote_facts [OF ok order_refl p(3), folded m_def]
  have "shard_metas m = shard_metas base"
    by (simp add: shard_metas_def P(3) fun_eq_iff option.map_comp comp_def)
  then have m: "shard_of_holding now H ?k m" using b(1) P(1,2) by (simp add: shard_of_holding_def)
  note C = held_current [OF m promote_current [OF ok order_refl p(3), folded m_def] n w pl]
  note S = C(2) [of q pinned strategy, folded pred_def]
  have "strategy = StrategyWeightedRoundRobin \<longrightarrow> (\<forall>a \<in> set (shard_auths pred m). 0 < authWeight (Some a))"
    unfolding S by (auto simp: provider_candidates_def auth_allowed_def)
  from current_pick [OF C(1) ok order_refl p(3) wb m_def this l(1) l(2) [folded S], where pw = pw and provider = provider]
  show ?thesis by (auto simp: pick_from_provider_def provider_view_def base_def [symmetric] m_def [symmetric] split: prod.splits option.splits)
qed

section \<open>Runs of the scheduler\<close>

definition trimmed :: "Auth \<Rightarrow> bool" where
  "trimmed a \<longleftrightarrow> trim_space (au_id a) = au_id a"

definition spec_rebuild :: "ModelRegistry \<Rightarrow> Auth option list \<Rightarrow> holding" where
  "spec_rebuild r as = foldl (\<lambda>A ao. case ao of None \<Rightarrow> A | Some a \<Rightarrow> spec_upsert r a A) (\<lambda>_. None) as"

lemma new_holds: "holds t (newAuthScheduler kind) (\<lambda>_. None)"
  by (simp add: holds_def holding_ok_def newAuthScheduler_def)

lemma rebuild_holds:
  assumes "0 \<le> now" "\<forall>a. Some a \<in> set as \<longrightarrow> trimmed a"
  shows "holds now (rebuild r as now s) (spec_rebuild r as)"
proof -
  let ?s0 = "s\<lparr>sh_providers := [], sh_auth_providers := [], sh_mixed_cursors := [], sh_mixed_weighted := []\<rparr>"
  have "holds now (foldl (\<lambda>s ao. case ao of None \<Rightarrow> s | Some a \<Rightarrow> upsertAuthLocked r a now s) ?s0 as)
      (foldl (\<lambda>A ao. case ao of None \<Rightarrow> A | Some a \<Rightarrow> spec_upsert r a A) (\<lambda>_. None) as)"
    using assms(2)
  proof (induction as rule: rev_induct)
    case Nil
    then show ?case by (simp add: holds_def holding_ok_def)
  next
    case (snoc x as)
    then show ?case using upsertAuth_holds [OF _ assms(1)] by (auto simp: trimmed_def split: option.splits)
  qed
  then show ?thesis by (simp add: rebuild_def spec_rebuild_def)
qed

text \<open>The state: the scheduler, what it was given, and the latest reading of the clock.\<close>

type_synonym sched_state = "authScheduler \<times> holding \<times> time"

definition sched_init :: "sched_state \<Rightarrow> bool" where
  "sched_init st \<longleftrightarrow> (\<exists>kind t. 0 \<le> t \<and> st = (newAuthScheduler kind, (\<lambda>_. None), t))"

inductive sched_step :: "sched_state \<Rightarrow> sched_state \<Rightarrow> bool" where
  upsert: "trimmed a \<Longrightarrow> t \<le> now \<Longrightarrow> sched_step (s, A, t) (upsertAuth r a now s, spec_upsert r a A, now)"
| remove: "sched_step (s, A, t) (removeAuth i s, spec_remove i A, t)"
| rebuild: "\<forall>a. Some a \<in> set as \<longrightarrow> trimmed a \<Longrightarrow> t \<le> now \<Longrightarrow> sched_step (s, A, t) (rebuild r as now s, spec_rebuild r as, now)"
| select: "sched_step (s, A, t) (setSelector kind s, A, t)"
| single: "ticking t clk \<Longrightarrow> sched_step (s, A, t) (fst (pickSingleWithStrategy clk provider q strategy s), A, clk 2)"
| mixed: "ticking t clk \<Longrightarrow> sched_step (s, A, t) (fst (pickMixedWithStrategy clk providers q strategy s), A, clk 2)"

interpretation scheduler: invariant_system sched_init sched_step "\<lambda>(s, A, t). 0 \<le> t \<and> holds t s A"
proof
  fix st assume "sched_init st"
  then show "case st of (s, A, t) \<Rightarrow> 0 \<le> t \<and> holds t s A" by (auto simp: sched_init_def new_holds)
next
  fix st st' assume i: "case st of (s, A, t) \<Rightarrow> 0 \<le> t \<and> holds t s A" and step: "sched_step st st'"
  obtain s A t where st: "st = (s, A, t)" by (cases st)
  have t: "0 \<le> t" "holds t s A" using i st by simp_all
  have tick: "0 \<le> clk 2" if "ticking t clk" for clk using that by (auto simp: ticking_def)
  show "case st' of (s, A, t) \<Rightarrow> 0 \<le> t \<and> holds t s A"
    using step unfolding st
  proof cases
    case (upsert a now r)
    then show ?thesis using t upsertAuth_holds [OF holds_mono [OF t(2)], of now a r] by (simp add: upsertAuth_def trimmed_def)
  next
    case (remove i)
    then show ?thesis using t removeAuthLocked_holds by (simp add: removeAuth_def spec_remove_def)
  next
    case (rebuild as now r)
    then show ?thesis using t rebuild_holds by simp
  next
    case (select kind)
    then show ?thesis using t by (simp add: setSelector_def)
  next
    case (single clk provider q strategy)
    then show ?thesis using t tick single_holds by simp
  next
    case (mixed clk providers q strategy)
    then show ?thesis using t tick mixed_holds by simp
  qed
qed

section \<open>Single picks\<close>

definition prefers_ws :: "string \<Rightarrow> sched_request \<Rightarrow> bool" where
  "prefers_ws provider q \<longleftrightarrow> sq_websocket q \<and> providerPrefersWebsocketTransport (to_lower (trim_space provider)) \<and>
     pinnedAuthIDFromMetadata (sq_metadata q) = []"

text \<open>The view of the scheduler a single pick is made from: it holds the rotation and the credits.\<close>

definition single_view :: "time \<Rightarrow> string \<Rightarrow> sched_request \<Rightarrow> authScheduler \<Rightarrow> readyView" where
  "single_view now provider q s =
     (case mget (sh_providers s) (to_lower (trim_space provider)) of None \<Rightarrow> buildReadyView []
      | Some p \<Rightarrow> provider_view now (sq_model q) (prefers_ws provider q)
          (request_predicate q (pinnedAuthIDFromMetadata (sq_metadata q)) (sh_strategy s)) p)"

text \<open>The credentials the scheduler was given that the request may use.\<close>

definition single_candidates :: "schedulerStrategy \<Rightarrow> string \<Rightarrow> sched_request \<Rightarrow> holding \<Rightarrow> Auth set" where
  "single_candidates strategy provider q A =
     provider_candidates (owned A (to_lower (trim_space provider))) (sq_model q)
       (auth_allowed q (pinnedAuthIDFromMetadata (sq_metadata q)) strategy)"

lemma single_pick:
  assumes h: "holds t s A" "t \<le> now" "0 \<le> now" and pl: "plain_model_name (sq_model q)"
    and l: "distinct (map au_id l)" "set l = single_candidates (sh_strategy s) provider q A"
  shows "snd (pickSingle (\<lambda>_. now) provider q s) =
    spec_answer (sh_strategy s) (single_view now provider q s) provider (sq_model q) now (prefers_ws provider q) l"
proof -
  let ?key = "to_lower (trim_space provider)"
  have cs: "current_strategy s StrategyCurrent = sh_strategy s" by (simp add: current_strategy_def)
  show ?thesis
  proof (cases "mget (sh_providers s) ?key")
    case None
    have "owned A ?key = (\<lambda>_. None)"
    proof (rule ext)
      fix i
      have "sm_provider_key meta \<noteq> ?key" if "A i = Some meta" for meta
      proof -
        have "mget (sh_providers s) (sm_provider_key meta) \<noteq> None" using h(1) that unfolding holds_def by blast
        then show ?thesis using None by auto
      qed
      then show "owned A ?key i = None" by (auto simp: owned_def split: option.splits)
    qed
    then have "l = []" using l(2) by (simp add: single_candidates_def provider_candidates_def)
    then show ?thesis using None by (simp add: pickSingle_def pickSingleWithStrategy_def spec_answer_def)
  next
    case (Some p)
    have w: "\<forall>i meta. owned A ?key i = Some meta \<longrightarrow> meta_ok meta"
      using h(1) by (auto simp: holds_def holding_ok_def owned_def split: option.splits if_splits)
    from provider_pick [OF holds_provider [OF h(1) Some] h(2,3) holds_named [OF h(1)] w pl l(1)
        l(2) [unfolded single_candidates_def], where pw = "prefers_ws provider q" and provider = provider]
    show ?thesis using Some
      by (simp add: pickSingle_def pickSingleWithStrategy_def single_view_def cs prefers_ws_def Let_def split_def)
  qed
qed

section \<open>Example\<close>

definition sched_cred :: "string \<Rightarrow> string \<Rightarrow> Auth" where
  "sched_cred i p = (empty_auth i)\<lparr>au_provider := ''Cursor'', au_status := StatusActive, au_attributes := [(''priority'', p)]\<rparr>"

definition sched_example_request :: sched_request where
  "sched_example_request = \<lparr>sq_model = ''gpt-5(high)'', sq_metadata = [], sq_required_kind = [], sq_policy = [],
     sq_websocket = False, sq_tried = []\<rparr>"

definition two_creds :: "selector_kind \<Rightarrow> authScheduler" where
  "two_creds kind = upsertAuth (newModelRegistry False) (sched_cred ''b'' ''5'') 20
     (upsertAuth (newModelRegistry False) (sched_cred ''a'' ''1'') 10 (newAuthScheduler kind))"

definition two_held :: holding where
  "two_held = spec_upsert (newModelRegistry False) (sched_cred ''b'' ''5'')
     (spec_upsert (newModelRegistry False) (sched_cred ''a'' ''1'') (\<lambda>_. None))"

lemma two_reached: "reach sched_init sched_step (two_creds kind, two_held, 20)"
proof -
  define r where "r = newModelRegistry False"
  define a where "a = sched_cred ''a'' ''1''"
  define b where "b = sched_cred ''b'' ''5''"
  have tr: "trimmed a" "trimmed b" unfolding a_def b_def by code_simp+
  have t: "(0 :: time) \<le> 10" "(10 :: time) \<le> 20" by simp_all
  have "reach sched_init sched_step (newAuthScheduler kind, (\<lambda>_. None), 0)"
    by (rule reach_init) (auto simp: sched_init_def)
  from reach_step [OF this sched_step.upsert [OF tr(1) t(1), of _ _ r]]
  have "reach sched_init sched_step (upsertAuth r a 10 (newAuthScheduler kind), spec_upsert r a (\<lambda>_. None), 10)" .
  from reach_step [OF this sched_step.upsert [OF tr(2) t(2), of _ _ r]]
  show ?thesis unfolding two_creds_def two_held_def r_def [symmetric] a_def [symmetric] b_def [symmetric] .
qed

lemma two_held_eq: "two_held i = (if i = ''b'' then Some (buildScheduledAuthMeta (newModelRegistry False) (sched_cred ''b'' ''5''))
  else if i = ''a'' then Some (buildScheduledAuthMeta (newModelRegistry False) (sched_cred ''a'' ''1'')) else None)"
proof -
  have "trim_space (au_id (sched_cred ''a'' ''1'')) = ''a''" "trim_space (au_id (sched_cred ''b'' ''5'')) = ''b''"
    "executorKeyFromAuth (sched_cred ''a'' ''1'') = ''cursor''" "executorKeyFromAuth (sched_cred ''b'' ''5'') = ''cursor''"
    "\<not> au_disabled (sched_cred ''a'' ''1'')" "\<not> au_disabled (sched_cred ''b'' ''5'')" by code_simp+
  then show ?thesis by (simp add: two_held_def spec_upsert_def Let_def)
qed

section \<open>Properties\<close>

text \<open>C5. The scheduler refines the selectors: after any operations, a pick from one provider answers
  what the selector of the strategy answers on the credentials the scheduler was given that the
  request may use, started with the rotation and the credits of the bucket the scheduler picks from,
  and names the same error when none is available.\<close>

theorem scheduler_refines_selectors:
  assumes "reach sched_init sched_step (s, A, t)" "t \<le> now" "plain_model_name (sq_model q)"
    and "distinct (map au_id l)" "set l = single_candidates (sh_strategy s) provider q A"
  shows "snd (pickSingle (\<lambda>_. now) provider q s) =
    spec_answer (sh_strategy s) (single_view now provider q s) provider (sq_model q) now (prefers_ws provider q) l"
proof -
  have "0 \<le> t" "holds t s A" using scheduler.reach_inv [OF assms(1)] by simp_all
  then show ?thesis using single_pick assms(2-5) by simp
qed

lemma two_candidates:
  "single_candidates StrategyFillFirst ''cursor'' sched_example_request two_held = set [sched_cred ''a'' ''1'', sched_cred ''b'' ''5'']"
proof -
  define r where "r = newModelRegistry False"
  define a where "a = sched_cred ''a'' ''1''"
  define b where "b = sched_cred ''b'' ''5''"
  define ma where "ma = buildScheduledAuthMeta r a"
  define mb where "mb = buildScheduledAuthMeta r b"
  have k: "to_lower (trim_space ''cursor'') = ''cursor''" "pinnedAuthIDFromMetadata (sq_metadata sched_example_request) = []"
    "sm_provider_key ma = ''cursor''" "sm_provider_key mb = ''cursor''"
    "supportsModel (canonicalModelKey (sq_model sched_example_request)) ma" "supportsModel (canonicalModelKey (sq_model sched_example_request)) mb"
    "auth_allowed sched_example_request [] StrategyFillFirst a" "auth_allowed sched_example_request [] StrategyFillFirst b"
    unfolding ma_def mb_def a_def b_def r_def by code_simp+
  have h: "two_held i = (if i = ''b'' then Some mb else if i = ''a'' then Some ma else None)" for i
    unfolding two_held_eq ma_def mb_def a_def b_def r_def ..
  have m: "sm_auth ma = a" "sm_auth mb = b" by (simp_all add: ma_def mb_def buildScheduledAuthMeta_def)
  have o: "owned two_held ''cursor'' = two_held" using k(3,4) by (auto simp: owned_def h fun_eq_iff)
  show ?thesis
    unfolding single_candidates_def provider_candidates_def k(1,2) o a_def [symmetric] b_def [symmetric]
  proof (intro equalityI subsetI)
    fix x assume "x \<in> {sm_auth meta |i meta. two_held i = Some meta \<and>
        supportsModel (canonicalModelKey (sq_model sched_example_request)) meta \<and> auth_allowed sched_example_request [] StrategyFillFirst (sm_auth meta)}"
    then obtain i meta where i: "two_held i = Some meta" "x = sm_auth meta" by blast
    show "x \<in> set [a, b]" using i m by (cases "i = ''b''"; cases "i = ''a''") (auto simp: h)
  next
    fix x assume "x \<in> set [a, b]"
    moreover have "two_held ''a'' = Some ma" "two_held ''b'' = Some mb" by (simp_all add: h)
    ultimately show "x \<in> {sm_auth meta |i meta. two_held i = Some meta \<and>
        supportsModel (canonicalModelKey (sq_model sched_example_request)) meta \<and> auth_allowed sched_example_request [] StrategyFillFirst (sm_auth meta)}"
      using k(5-8) m by auto
  qed
qed

theorem scheduler_refines_selectors_witness:
  "snd (pickSingle (\<lambda>_. 30) ''cursor'' sched_example_request (two_creds FillFirstKind)) =
     spec_answer StrategyFillFirst (single_view 30 ''cursor'' sched_example_request (two_creds FillFirstKind)) ''cursor''
       ''gpt-5(high)'' 30 False [sched_cred ''a'' ''1'', sched_cred ''b'' ''5''] \<and>
   snd (pickSingle (\<lambda>_. 30) ''cursor'' sched_example_request (two_creds FillFirstKind)) = Inr (sched_cred ''b'' ''5'')"
proof -
  let ?q = sched_example_request and ?l = "[sched_cred ''a'' ''1'', sched_cred ''b'' ''5'']"
  have st: "sh_strategy (two_creds FillFirstKind) = StrategyFillFirst" by code_simp
  have q: "sq_model ?q = ''gpt-5(high)''" "prefers_ws ''cursor'' ?q = False" "plain_model_name (sq_model ?q)" by code_simp+
  have c: "set ?l = single_candidates (sh_strategy (two_creds FillFirstKind)) ''cursor'' ?q two_held"
    unfolding st by (rule two_candidates [symmetric])
  have d: "distinct (map au_id ?l)" by code_simp
  have r: "snd (pickSingle (\<lambda>_. 30) ''cursor'' ?q (two_creds FillFirstKind)) = Inr (sched_cred ''b'' ''5'')" by code_simp
  have "(20 :: time) \<le> 30" by simp
  from scheduler_refines_selectors [OF two_reached this q(3) d c] show ?thesis
    unfolding st q(1,2) using r by (intro conjI)
qed

text \<open>C16. The index of a shard is exact in every reachable scheduler: the shard of a model has an entry
  for exactly the credentials of its provider that support the model, each with the metadata it was
  last given; each bucket lists the ready entries of its priority, in the order of their identifiers;
  and once a clock reading is past the latest one of the scheduler, an entry not due for promotion
  says of its credential what its availability is.\<close>

theorem scheduler_index_exact:
  assumes "reach sched_init sched_step (s, A, t)" "mget (sh_providers s) key = Some p" "mget (ps_shards p) k = Some m"
  shows "(mget (md_entries m) i \<noteq> None \<longleftrightarrow>
      (\<exists>meta. A i = Some meta \<and> sm_provider_key meta = key \<and> supportsModel k meta)) \<and>
    (mget (md_entries m) i = Some e \<longrightarrow> A i = Some (sd_meta e) \<and>
      (t \<le> now \<longrightarrow> sd_next_retry_at e = 0 \<or> now < sd_next_retry_at e \<longrightarrow>
         (sd_state e = ScheduledReady) = (\<not> fst (isAuthBlockedForModel (Some (sd_auth e)) k now)))) \<and>
    (mget (md_ready m) pr = Some b \<longrightarrow> sorted_wrt (<) (rv_flat (bk_all b)) \<and>
      set (rv_flat (bk_all b)) = {j. \<exists>e. mget (md_entries m) j = Some e \<and> sd_state e = ScheduledReady \<and> sm_priority (sd_meta e) = pr})"
proof -
  have h: "holds t s A" using scheduler.reach_inv [OF assms(1)] by simp
  then have m: "shard_of_holding t (owned A key) k m"
    using holds_provider [OF h assms(2)] assms(3) unfolding provider_ok_def by blast
  then have ok: "shard_ok t m" "md_key m = k" and sm: "map_option sd_meta (mget (md_entries m) j) = supporting k (owned A key) j" for j
    by (simp_all add: shard_of_holding_def shard_metas_def fun_eq_iff)
  have S: "supporting k (owned A key) j = Some meta \<longleftrightarrow> A j = Some meta \<and> sm_provider_key meta = key \<and> supportsModel k meta" for j meta
    by (auto simp: supporting_def owned_def split: option.splits if_splits)
  have "mget (md_entries m) i \<noteq> None \<longleftrightarrow> (\<exists>meta. A i = Some meta \<and> sm_provider_key meta = key \<and> supportsModel k meta)"
  proof -
    have "mget (md_entries m) i \<noteq> None \<longleftrightarrow> (\<exists>meta. supporting k (owned A key) i = Some meta)"
      unfolding sm [symmetric] by (cases "mget (md_entries m) i") simp_all
    then show ?thesis unfolding S .
  qed
  moreover have "A i = Some (sd_meta e) \<and>
      (t \<le> now \<longrightarrow> sd_next_retry_at e = 0 \<or> now < sd_next_retry_at e \<longrightarrow>
         (sd_state e = ScheduledReady) = (\<not> fst (isAuthBlockedForModel (Some (sd_auth e)) k now)))"
    if e: "mget (md_entries m) i = Some e"
  proof -
    have "supporting k (owned A key) i = Some (sd_meta e)" unfolding sm [symmetric] e by simp
    then have "A i = Some (sd_meta e)" unfolding S by blast
    moreover have "(sd_state e = ScheduledReady) = (\<not> fst (isAuthBlockedForModel (Some (sd_auth e)) k now))"
      if "t \<le> now" "sd_next_retry_at e = 0 \<or> now < sd_next_retry_at e"
    proof -
      have "dated k t e" using ok e unfolding shard_ok_def by blast
      then have "scheduled (sd_meta e) k now = e" using dated_current [OF dated_mono] that by blast
      then have "sd_state e = fst (classify (sd_auth e) k now)" by (metis scheduled_fields(1))
      then show ?thesis by (simp add: classify_ready)
    qed
    ultimately show ?thesis by blast
  qed
  moreover have "sorted_wrt (<) (rv_flat (bk_all b)) \<and>
      set (rv_flat (bk_all b)) = {j. \<exists>e. mget (md_entries m) j = Some e \<and> sd_state e = ScheduledReady \<and> sm_priority (sd_meta e) = pr}"
    if "mget (md_ready m) pr = Some b"
  proof -
    have "bucket_ok m pr (Some b)" using ok(1) that unfolding shard_ok_def indexed_def by metis
    then show ?thesis by (simp add: bucket_ok_def listing_def ready_ids_def)
  qed
  ultimately show ?thesis by blast
qed

theorem scheduler_index_exact_witness:
  "mget (md_entries (the (shard_of (fst (pickSingle (\<lambda>_. 30) ''cursor'' sched_example_request (two_creds FillFirstKind)))
     ''gpt-5'' ''cursor''))) ''a'' \<noteq> None"
proof -
  let ?s = "fst (pickSingleWithStrategy (\<lambda>_. 30) ''cursor'' sched_example_request StrategyCurrent (two_creds FillFirstKind))"
  have "ticking 20 (\<lambda>_. 30)" by (simp add: ticking_def)
  from reach_step [OF two_reached sched_step.single [OF this]] have r: "reach sched_init sched_step (?s, two_held, 30)" .
  obtain p where p: "mget (sh_providers ?s) ''cursor'' = Some p"
  proof -
    have "mget (sh_providers ?s) ''cursor'' \<noteq> None" by code_simp
    then show thesis using that by blast
  qed
  obtain m where m: "mget (ps_shards p) ''gpt-5'' = Some m"
  proof -
    have "(case mget (sh_providers ?s) ''cursor'' of None \<Rightarrow> True | Some p \<Rightarrow> mget (ps_shards p) ''gpt-5'' \<noteq> None)" by code_simp
    then show thesis using p that by (auto simp del: not_None_eq)
  qed
  have k: "two_held ''a'' = Some (buildScheduledAuthMeta (newModelRegistry False) (sched_cred ''a'' ''1''))"
    unfolding two_held_eq by simp
  have k2: "sm_provider_key (buildScheduledAuthMeta (newModelRegistry False) (sched_cred ''a'' ''1'')) = ''cursor''"
    "supportsModel ''gpt-5'' (buildScheduledAuthMeta (newModelRegistry False) (sched_cred ''a'' ''1''))"
    "canonicalModelKey ''gpt-5'' = ''gpt-5''" by code_simp+
  have "shard_of ?s ''gpt-5'' ''cursor'' = Some m" by (simp only: shard_of_def p m k2(3) option.case)
  then show ?thesis using scheduler_index_exact [OF r p m, THEN conjunct1, of "''a''"] k k2(1,2)
    unfolding pickSingle_def by (simp del: not_None_eq)
qed

end
