(* ===== verification/Scheduler_Mixed.thy ===== *)
theory Scheduler_Mixed
  imports Scheduler_Properties
begin

text \<open>
  Picks from several providers (\<open>pickMixedWithStrategy\<close> of \<open>sdk/cliproxy/auth/scheduler.go\<close>): after
  the shards of all providers are brought up to date, the credential picked is one of the best
  priority among those of every provider that can serve the request, whatever the strategy.
\<close>

section \<open>Shards of several providers\<close>

text \<open>The shard of a provider, brought up to date.\<close>

definition fresh_shard :: "time \<Rightarrow> holding \<Rightarrow> string \<Rightarrow> string \<Rightarrow> modelScheduler \<Rightarrow> bool" where
  "fresh_shard now A model key m \<longleftrightarrow> shard_of_holding now (owned A key) (canonicalModelKey model) m \<and> now_current now m"

lemma shard_of_put:
  "shard_of (put_provider key p s) k key' = (if key' = key then mget (ps_shards p) (canonicalModelKey k) else shard_of s k key')"
  by (simp add: shard_of_def put_provider_def)

lemma owned_none:
  assumes "holds t s A" "mget (sh_providers s) key = None"
  shows "owned A key = (\<lambda>_. None)"
proof (rule ext)
  fix i
  have "sm_provider_key meta \<noteq> key" if "A i = Some meta" for meta
    using assms that unfolding holds_def by force
  then show "owned A key i = None" by (auto simp: owned_def split: option.splits)
qed

text \<open>After ensuring, each of the providers has its shard brought up to date, unless it has no credential.\<close>

lemma ensure_shards_fresh:
  assumes h: "holds now s A" "0 \<le> now" and k: "canonicalModelKey k = canonicalModelKey model" "canonicalModelKey (canonicalModelKey model) = canonicalModelKey model"
    and key: "key \<in> set ps"
  shows "(case shard_of (ensure_shards k now ps s) k key of None \<Rightarrow> owned A key = (\<lambda>_. None) | Some m \<Rightarrow> fresh_shard now A model key m)"
  using key
proof (induction ps rule: rev_induct)
  case (snoc p ps)
  define s1 where "s1 = ensure_shards k now ps s"
  have h1: "holds now s1 A" unfolding s1_def by (rule ensure_shards_holds [OF h])
  have e: "ensure_shards k now (ps @ [p]) s = on_provider p (\<lambda>st. put_shard (ensureModelLocked k now st) st) s1"
    by (simp add: ensure_shards_def s1_def)
  show ?case
  proof (cases "key = p")
    case False
    have "shard_of (on_provider p (\<lambda>st. put_shard (ensureModelLocked k now st) st) s1) k key = shard_of s1 k key"
      using False by (auto simp: on_provider_def shard_of_put split: option.splits)
    then show ?thesis using snoc False unfolding e s1_def by simp
  next
    case True
    show ?thesis
    proof (cases "mget (sh_providers s1) p")
      case None
      then have "shard_of (on_provider p (\<lambda>st. put_shard (ensureModelLocked k now st) st) s1) k p = None"
        by (simp add: on_provider_def shard_of_def)
      then show ?thesis using owned_none [OF h1 None] unfolding e True by simp
    next
      case (Some st)
      note F = ensure_facts [OF holds_provider [OF h1 Some] order_refl h(2) holds_named [OF h1], of k]
      have "md_key (ensureModelLocked k now st) = canonicalModelKey k" using F(1) by (simp add: shard_of_holding_def)
      then have "shard_of (on_provider p (\<lambda>st. put_shard (ensureModelLocked k now st) st) s1) k p = Some (ensureModelLocked k now st)"
        using Some by (simp add: on_provider_def shard_of_put put_shard_def)
      then show ?thesis using F k unfolding e True by (simp add: fresh_shard_def)
    qed
  qed
qed simp

text \<open>The entries ready at a priority are the available credentials of that priority.\<close>

definition ready_at :: "modelScheduler \<Rightarrow> predicate \<Rightarrow> int \<Rightarrow> Auth \<Rightarrow> bool" where
  "ready_at m pred p a \<longleftrightarrow> (\<exists>e. ready_entry m pred p e \<and> sd_auth e = a)"

lemma fresh_ready:
  assumes h: "holds now s A" and f: "fresh_shard now A model key m" and pl: "plain_model_name model"
  shows "ready_at m (request_predicate q pinned strategy) p a \<longleftrightarrow>
    a \<in> provider_candidates (owned A key) model (auth_allowed q pinned strategy) \<and>
    \<not> fst (isAuthBlockedForModel (Some a) model now) \<and> authPriority a = p"
proof -
  have w: "\<forall>i meta. owned A key i = Some meta \<longrightarrow> meta_ok meta"
    using h by (auto simp: holds_def holding_ok_def owned_def split: option.splits if_splits)
  note C = held_current [OF f [unfolded fresh_shard_def, THEN conjunct1] f [unfolded fresh_shard_def, THEN conjunct2] holds_named [OF h] w pl]
  have e: "sd_state e = ScheduledReady \<longleftrightarrow> \<not> fst (isAuthBlockedForModel (Some (sd_auth e)) model now)"
    "sm_priority (sd_meta e) = authPriority (sd_auth e)" if "mget (md_entries m) (entry_id e) = Some e" for e
    using current_entry(1,2,3) [OF C(1), of e] that by (auto simp: meta_ok_def)
  show ?thesis
    unfolding C(2) [symmetric] set_shard_auths [OF C(1)] ready_at_def ready_entry_def using e by (auto simp: image_iff)
qed

lemma fresh_ok: "fresh_shard now A model key m \<Longrightarrow> shard_ok now m"
  by (simp add: fresh_shard_def shard_of_holding_def)

section \<open>The best priority\<close>

lemma ready_pred: "ready_entry m (ws_pred False pred) = ready_entry m pred"
  by (simp add: ready_entry_def ws_pred_def fun_eq_iff)

lemma highest_all:
  assumes "shard_ok now m"
  shows "highestReadyPriorityLocked False pred m = None \<Longrightarrow> \<not> ready_at m pred p a"
    and "highestReadyPriorityLocked False pred m = Some p \<Longrightarrow> (\<exists>a. ready_at m pred p a) \<and> (\<forall>q a. ready_at m pred q a \<longrightarrow> q \<le> p)"
proof -
  have t: "takes_ws m False pred = False" by (simp add: takes_ws_def)
  note H = highest_cases [OF assms, of False pred, unfolded t ready_pred]
  show "highestReadyPriorityLocked False pred m = None \<Longrightarrow> \<not> ready_at m pred p a" using H(1) by (auto simp: ready_at_def)
  show "highestReadyPriorityLocked False pred m = Some p \<Longrightarrow> (\<exists>a. ready_at m pred p a) \<and> (\<forall>q a. ready_at m pred q a \<longrightarrow> q \<le> p)"
    using H(2) [of p] by (auto simp: ready_at_def)
qed

lemma best_priority_max:
  assumes "\<forall>km \<in> set shards. shard_ok now (snd km)"
  shows "(case best_priority pred shards of
      None \<Rightarrow> \<forall>km \<in> set shards. \<forall>p a. \<not> ready_at (snd km) pred p a
    | Some p \<Rightarrow> (\<exists>km \<in> set shards. \<exists>a. ready_at (snd km) pred p a) \<and> (\<forall>km \<in> set shards. \<forall>q a. ready_at (snd km) pred q a \<longrightarrow> q \<le> p))"
  using assms
proof (induction shards rule: rev_induct)
  case (snoc km shards)
  obtain k m where km: "km = (k, m)" by (cases km)
  define b where "b = best_priority pred shards"
  have IH: "(case b of
      None \<Rightarrow> \<forall>km \<in> set shards. \<forall>p a. \<not> ready_at (snd km) pred p a
    | Some p \<Rightarrow> (\<exists>km \<in> set shards. \<exists>a. ready_at (snd km) pred p a) \<and> (\<forall>km \<in> set shards. \<forall>q a. ready_at (snd km) pred q a \<longrightarrow> q \<le> p))"
    using snoc by (simp add: b_def)
  have ok: "shard_ok now m" using snoc.prems km by simp
  have e: "best_priority pred (shards @ [km]) = (case highestReadyPriorityLocked False pred m of None \<Rightarrow> b | Some p \<Rightarrow> best_of b p)"
    by (simp add: best_priority_def b_def km split: option.splits)
  show ?case
  proof (cases "highestReadyPriorityLocked False pred m")
    case None
    then show ?thesis using IH highest_all(1) [OF ok None] unfolding e by (cases b) (auto simp: km)
  next
    case (Some p)
    note H = highest_all(2) [OF ok Some]
    show ?thesis
    proof (cases b)
      case None
      then show ?thesis using IH H unfolding e Some by (auto simp: km best_of_def)
    next
      case b: (Some p')
      then show ?thesis using IH H unfolding e Some b by (fastforce simp: km best_of_def)
    qed
  qed
qed (simp add: best_priority_def)

section \<open>The pick at the best priority\<close>

text \<open>The bucket of a priority lists what is ready there.\<close>

lemma bucket_ready:
  fixes pred :: predicate
  assumes "shard_ok now m"
  shows "mget (md_ready m) p = None \<Longrightarrow> \<not> ready_at m pred p a"
    and "mget (md_ready m) p = Some b \<Longrightarrow> sorted_wrt (\<lambda>x y. entry_id x < entry_id y) (view_entries m (bk_all b))"
    and "mget (md_ready m) p = Some b \<Longrightarrow> set (filter pred (view_entries m (bk_all b))) = {e. ready_entry m pred p e}"
proof -
  show "\<not> ready_at m pred p a" if n: "mget (md_ready m) p = None"
  proof -
    have "bucket_ok m p None" using assms n by (metis indexed_def shard_ok_def)
    then show ?thesis by (auto simp: bucket_ok_def ready_ids_def ready_at_def ready_entry_def)
  qed
  assume b: "mget (md_ready m) p = Some b"
  show "sorted_wrt (\<lambda>x y. entry_id x < entry_id y) (view_entries m (bk_all b))" by (rule view_props(1) [OF assms b, where ws = False, unfolded if_False])
  show "set (filter pred (view_entries m (bk_all b))) = {e. ready_entry m pred p e}" using view_props(2) [OF assms b, where ws = False and pred = pred, unfolded if_False] unfolding ready_pred .
qed

lemma pick_at:
  assumes ok: "shard_ok now m" and st: "strategy \<noteq> StrategyWeightedRoundRobin"
  shows "(case snd (pickReadyAtPriorityLocked False p strategy pred m) of
      None \<Rightarrow> \<forall>a. \<not> ready_at m pred p a | Some a \<Rightarrow> ready_at m pred p a)"
proof (cases "mget (md_ready m) p")
  case None
  then show ?thesis using bucket_ready(1) [OF ok] by (simp add: pickReadyAtPriorityLocked_def)
next
  case (Some b)
  define l where "l = filter pred (view_entries m (bk_all b))"
  have B: "sorted_wrt (\<lambda>x y. entry_id x < entry_id y) (view_entries m (bk_all b))" "set l = {e. ready_entry m pred p e}"
    using bucket_ready(2,3) [OF ok Some] by (simp_all add: l_def)
  have p: "snd (pickReadyAtPriorityLocked False p strategy pred m) = map_option sd_auth (snd (pick_from_view m strategy pred (bk_all b)))"
    using Some by (simp add: pickReadyAtPriorityLocked_def use_ws_def split_def Let_def)
  have "snd (pick_from_view m strategy pred (bk_all b)) = (if l = [] then None else Some (hd l)) \<or>
      snd (pick_from_view m strategy pred (bk_all b)) = (if l = [] then None else Some (hd (after entry_id (rv_last_picked (bk_all b)) l)))"
    using st pickRoundRobin_eq [OF B(1), of pred]
    by (cases strategy) (auto simp: pick_from_view_def pickFirst_def find_hd l_def split: list.splits)
  moreover have "hd (after entry_id x l) \<in> set l" if "l \<noteq> []" for x
    using that by (metis after_set hd_in_set set_empty)
  ultimately have "(case snd (pick_from_view m strategy pred (bk_all b)) of None \<Rightarrow> l = [] | Some e \<Rightarrow> e \<in> set l)"
    by (auto split: if_splits)
  then show ?thesis using B(2) unfolding p by (auto simp: ready_at_def split: option.splits)
qed

lemma count_ready:
  assumes "shard_ok now m"
  shows "readyCountAtPriorityLocked False p pred m \<noteq> 0 \<longleftrightarrow> (\<exists>a. ready_at m pred p a)"
proof (cases "mget (md_ready m) p")
  case None
  then show ?thesis using bucket_ready(1) [OF assms] by (simp add: readyCountAtPriorityLocked_def)
next
  case (Some b)
  have "filter pred (view_entries m (bk_all b)) \<noteq> [] \<longleftrightarrow> {e. ready_entry m pred p e} \<noteq> {}"
    unfolding bucket_ready(3) [OF assms Some, symmetric] set_empty ..
  moreover have "readyCountAtPriorityLocked False p pred m = length (filter pred (view_entries m (bk_all b)))"
    using Some by (simp add: readyCountAtPriorityLocked_def use_ws_def)
  ultimately show ?thesis by (auto simp: ready_at_def)
qed

subsection \<open>Fill first\<close>

lemma first_pick_ready:
  assumes "\<forall>km \<in> set shards. shard_ok now (snd km)" "strategy \<noteq> StrategyWeightedRoundRobin"
  shows "(case snd (first_pick p strategy pred shards s) of None \<Rightarrow> \<forall>km \<in> set shards. \<forall>a. \<not> ready_at (snd km) pred p a
    | Some (a, k) \<Rightarrow> \<exists>m. (k, m) \<in> set shards \<and> ready_at m pred p a)"
  using assms(1)
proof (induction shards arbitrary: s)
  case (Cons km shards)
  obtain k m where km: "km = (k, m)" by (cases km)
  have ok: "shard_ok now m" using Cons.prems km by simp
  obtain m' r where e: "pickReadyAtPriorityLocked False p strategy pred m = (m', r)" by (cases "pickReadyAtPriorityLocked False p strategy pred m")
  define s' where "s' = on_provider k (put_shard m') s"
  have p: "pick_in_shard p strategy pred k m s = (s', r)" by (simp add: pick_in_shard_def e s'_def)
  note P = pick_at [OF ok assms(2), where p = p and pred = pred, unfolded e snd_conv]
  show ?case
  proof (cases r)
    case None
    have f: "first_pick p strategy pred (km # shards) s = first_pick p strategy pred shards s'" by (simp add: km p None)
    have "\<forall>a. \<not> ready_at m pred p a" using P None by simp
    then show ?thesis using Cons.IH [of s'] Cons.prems unfolding f by (auto simp: km split: option.splits)
  next
    case (Some a)
    then show ?thesis using P by (auto simp: km p)
  qed
qed simp

subsection \<open>The mixed rotation\<close>

lemma segment_Suc: "i < length w \<Longrightarrow> segment_start w (Suc i) = segment_start w i + w ! i"
  by (simp add: segment_start_def take_Suc_conv_app_nth)

lemma start_provider_found:
  assumes "n < sum_list w"
  shows "\<exists>i < length w. start_provider w n = Some i \<and> w ! i \<noteq> 0"
proof (cases "start_provider w n")
  case None
  have "i \<le> length w \<Longrightarrow> segment_start w i \<le> n" for i
  proof (induction i)
    case (Suc i)
    have "w ! i = 0 \<or> segment_start w (Suc i) \<le> n" using None [unfolded start_provider_def find_None_iff] Suc.prems by (simp add: not_less) (metis less_eq_Suc_le not_less)
    then show ?case using Suc segment_Suc [of i w] by auto
  qed (simp add: segment_start_def)
  from this [of "length w"] show ?thesis using assms by (simp add: segment_start_def)
next
  case (Some i)
  then have "i < length w \<and> w ! i \<noteq> 0" by (auto simp: start_provider_def find_Some_iff)
  then show ?thesis using Some by blast
qed

lemma mixed_rotation_ready:
  assumes sh: "\<And>key m. key \<in> set ps \<Longrightarrow> shard_of s k key = Some m \<Longrightarrow> shard_ok now m"
    and ex: "key \<in> set ps" "shard_of s k key = Some m" "ready_at m pred p a"
  shows "\<exists>a key m. snd (mixed_rotation p pred ck k ps s) = Some (a, key) \<and> key \<in> set ps \<and> shard_of s k key = Some m \<and> ready_at m pred p a"
proof -
  let ?w = "slot_counts p pred ps k s"
  let ?n = "mget_or 0 (sh_mixed_cursors s) ck mod sum_list ?w"
  have lw: "length ?w = length ps" by (simp add: slot_counts_def)
  obtain j where j: "j < length ps" "ps ! j = key" using ex(1) by (metis in_set_conv_nth)
  have "?w ! j \<noteq> 0" using j ex count_ready [OF sh [OF ex(1,2)], where p = p and pred = pred] by (auto simp: slot_counts_def)
  then have pos: "0 < sum_list ?w" using j lw member_le_sum_list [of "?w ! j" ?w] by force
  then have "?n < sum_list ?w" by simp
  then obtain i where i: "i < length ps" "start_provider ?w ?n = Some i" "?w ! i \<noteq> 0"
    using start_provider_found lw by metis
  have "ps ! i \<in> set ps" using i by simp
  obtain m' where m': "shard_of s k (ps ! i) = Some m'" "readyCountAtPriorityLocked False p pred m' \<noteq> 0"
    using i(1,3) by (auto simp: slot_counts_def split: option.splits)
  have ok: "shard_ok now m'" by (rule sh [OF \<open>ps ! i \<in> set ps\<close> m'(1)])
  obtain m2 r where pk: "pickReadyAtPriorityLocked False p StrategyRoundRobin pred m' = (m2, r)"
    by (cases "pickReadyAtPriorityLocked False p StrategyRoundRobin pred m'")
  obtain b where b: "r = Some b" "ready_at m' pred p b"
    using pick_at [OF ok, where strategy = StrategyRoundRobin and p = p and pred = pred, simplified] m'(2) pk unfolding count_ready [OF ok] by (auto split: option.splits)
  have "[0..<length ps] = 0 # [1..<length ps]" using i(1) upt_conv_Cons [of 0 "length ps"] by (cases ps) simp_all
  then have "snd (rotate_pick p pred k ps ?w i ?n [0..<length ps] s) = Some (b, ps ! i, ?n + 1)"
    using i m' pk b by (simp add: pick_in_shard_def)
  then obtain s' where rp: "rotate_pick p pred k ps ?w i ?n [0..<length ps] s = (s', Some (b, ps ! i, ?n + 1))"
    by (metis prod.collapse)
  have z: "(sum_list ?w = 0) = False" using pos by (simp only: less_numeral_extra(3) less_not_refl2 neq0_conv)
  have "snd (mixed_rotation p pred ck k ps s) = Some (b, ps ! i)"
    unfolding mixed_rotation_def Let_def z if_False i(2) option.case rp prod.case by simp
  then show ?thesis using b m' \<open>ps ! i \<in> set ps\<close> by blast
qed

subsection \<open>Weighted\<close>

lemma scheduled_fold_pick:
  assumes "foldl (scheduled_step pred) acc es = (best, tot, c)"
  shows "(case best of None \<Rightarrow> fst acc = None \<and> (\<forall>e \<in> set es. \<not> (pred e \<and> 0 < sm_weight (sd_meta e)))
    | Some (e, _) \<Rightarrow> (e \<in> set es \<and> pred e \<and> 0 < sm_weight (sd_meta e)) \<or> (\<exists>x. fst acc = Some (e, x)))"
  using assms
proof (induction es arbitrary: best tot c rule: rev_induct)
  case Nil
  then show ?case by (cases acc) (auto split: option.splits)
next
  case (snoc e es)
  obtain b t c' where f: "foldl (scheduled_step pred) acc es = (b, t, c')" by (metis prod_cases3)
  have "scheduled_step pred (b, t, c') e = (best, tot, c)" using snoc.prems f by simp
  then have "best = b \<and> \<not> (pred e \<and> 0 < sm_weight (sd_meta e)) \<or>
      pred e \<and> 0 < sm_weight (sd_meta e) \<and> (\<exists>x. best = Some (e, x) \<or> b \<noteq> None \<and> best = b)"
    by (auto simp: scheduled_step_def Let_def split: option.splits if_splits)
  then show ?case using snoc.IH [OF f] by (fastforce split: option.splits)
qed

lemma weighted_pick_ready:
  "(case snd (weighted_pick es pred st) of None \<Rightarrow> \<forall>e \<in> set es. \<not> (pred e \<and> 0 < sm_weight (sd_meta e))
    | Some e \<Rightarrow> e \<in> set es \<and> pred e \<and> 0 < sm_weight (sd_meta e))"
proof -
  let ?c = "sw_current (prepare (scheduledWeightVectorMatching es pred) st)"
  obtain b t c where f: "foldl (scheduled_step pred) (None, 0, ?c) es = (b, t, c)" by (metis prod_cases3)
  have s: "snd (weighted_pick es pred st) = map_option fst b"
    using f by (auto simp: weighted_pick_def pickSmoothWeightedScheduled_def Let_def split: option.splits prod.splits)
  show ?thesis using scheduled_fold_pick [OF f] unfolding s by (auto split: option.splits)
qed

lemma mixed_entries_ready:
  assumes "\<forall>km \<in> set shards. shard_ok now (snd km)"
  shows "e \<in> set (mixed_entries p shards) \<and> pred e \<longleftrightarrow> (\<exists>km \<in> set shards. ready_entry (snd km) pred p e)"
proof -
  have one: "e \<in> set (case mget (md_ready m) p of None \<Rightarrow> [] | Some b \<Rightarrow> view_entries m (bk_all b)) \<and> pred e \<longleftrightarrow> ready_entry m pred p e"
    if "shard_ok now m" for m
  proof (cases "mget (md_ready m) p")
    case None
    then show ?thesis using bucket_ready(1) [OF that None] by (auto simp: ready_at_def)
  next
    case (Some b)
    then have "e \<in> set (filter pred (view_entries m (bk_all b))) \<longleftrightarrow> ready_entry m pred p e"
      by (simp only: bucket_ready(3) [OF that Some] mem_Collect_eq)
    then show ?thesis using Some by simp
  qed
  have "e \<in> set (mixed_entries p shards) \<longleftrightarrow>
      (\<exists>km \<in> set shards. e \<in> set (case mget (md_ready (snd km)) p of None \<Rightarrow> [] | Some b \<Rightarrow> view_entries (snd km) (bk_all b)))"
    by (simp add: mixed_entries_def split_def)
  then show ?thesis using one assms by blast
qed

section \<open>Picking from several providers\<close>

lemma candidate_shards_mem: "(key, m) \<in> set (candidate_shards s k ps) \<longleftrightarrow> key \<in> set ps \<and> shard_of s k key = Some m"
  by (induction ps) (auto simp: candidate_shards_def somes_def split: option.splits)

lemma fresh_provider_key:
  assumes "fresh_shard now A model key m" "ready_entry m pred p e"
  shows "sm_provider_key (sd_meta e) = key"
proof -
  have "shard_metas m = supporting (canonicalModelKey model) (owned A key)"
    using assms(1) by (simp add: fresh_shard_def shard_of_holding_def)
  then have "supporting (canonicalModelKey model) (owned A key) (entry_id e) = Some (sd_meta e)"
    using assms(2) by (metis ready_entry_def shard_metas_def option.simps(9))
  then show ?thesis by (auto simp: supporting_def owned_def split: option.splits if_splits)
qed

text \<open>Whatever the strategy, the pick at the best priority is ready there.\<close>

lemma mixed_pick_ready:
  assumes fresh: "\<forall>km \<in> set shards. fresh_shard now A model (fst km) (snd km)"
    and sh: "shards = candidate_shards s k ps"
    and best: "\<exists>km \<in> set shards. \<exists>a. ready_at (snd km) pred p a"
    and w: "strategy = StrategyWeightedRoundRobin \<Longrightarrow> (\<And>e. pred e \<Longrightarrow> 0 < sm_weight (sd_meta e))"
  shows "\<exists>a key m. snd (if strategy = StrategyFillFirst then first_pick p strategy pred shards s
      else if strategy = StrategyWeightedRoundRobin then mixed_weighted p pred ck k ps s
      else mixed_rotation p pred ck k ps s) = Some (a, key) \<and> (key, m) \<in> set shards \<and> ready_at m pred p a"
proof -
  have ok: "\<forall>km \<in> set shards. shard_ok now (snd km)" using fresh fresh_ok by blast
  consider (first) "strategy = StrategyFillFirst" | (weighted) "strategy = StrategyWeightedRoundRobin"
    | (rotation) "strategy \<noteq> StrategyFillFirst" "strategy \<noteq> StrategyWeightedRoundRobin" by blast
  then show ?thesis
  proof cases
    case first
    then have "strategy \<noteq> StrategyWeightedRoundRobin" by simp
    note P = first_pick_ready [OF ok this, where p = p and pred = pred and s = s]
    show ?thesis
    proof (cases "snd (first_pick p strategy pred shards s)")
      case None
      then show ?thesis using P best by auto
    next
      case (Some ak)
      then show ?thesis using P first by (cases ak) auto
    qed
  next
    case rotation
    obtain key m a where "(key, m) \<in> set shards" "ready_at m pred p a" using best by auto
    then have x: "key \<in> set ps" "shard_of s k key = Some m" "ready_at m pred p a" by (simp_all add: sh candidate_shards_mem)
    have oks: "shard_ok now m'" if "key' \<in> set ps" "shard_of s k key' = Some m'" for key' m'
      using ok that bspec [OF ok, of "(key', m')"] by (simp add: sh candidate_shards_mem)
    have "\<exists>a key m. snd (mixed_rotation p pred ck k ps s) = Some (a, key) \<and> key \<in> set ps \<and> shard_of s k key = Some m \<and> ready_at m pred p a"
      by (rule mixed_rotation_ready [OF oks x])
    then show ?thesis using rotation by (auto simp: sh candidate_shards_mem)
  next
    case weighted
    define es st where "es = mixed_entries p shards"
      and "st = mget_or \<lparr>sw_current = [], sw_weights = []\<rparr> (sh_mixed_weighted s) ck"
    have e: "snd (mixed_weighted p pred ck k ps s) = map_option (\<lambda>e. (sd_auth e, sm_provider_key (sd_meta e))) (snd (weighted_pick es pred st))"
      by (simp add: mixed_weighted_def es_def st_def sh Let_def split_def)
    note M = mixed_entries_ready [OF ok, of _ p pred, folded es_def]
    obtain km x where "km \<in> set shards" "ready_entry (snd km) pred p x" using best by (auto simp: ready_at_def)
    then have "x \<in> set es \<and> pred x" using M by blast
    then have ne: "snd (weighted_pick es pred st) \<noteq> None"
      using weighted_pick_ready [of es pred st] w [OF weighted, of x] by (auto split: option.splits)
    then obtain y where y: "snd (weighted_pick es pred st) = Some y" by blast
    then have "y \<in> set es \<and> pred y" using weighted_pick_ready [of es pred st] by simp
    then obtain km' where km': "km' \<in> set shards" "ready_entry (snd km') pred p y" using M by blast
    then have "sm_provider_key (sd_meta y) = fst km'" using fresh fresh_provider_key by blast
    then show ?thesis using weighted e y km' by (cases km') (auto simp: ready_at_def)
  qed
qed

text \<open>A credential that can serve: held for the provider, supporting the model, allowed by the request,
  not blocked.\<close>

definition can_serve :: "holding \<Rightarrow> sched_request \<Rightarrow> schedulerStrategy \<Rightarrow> time \<Rightarrow> string \<Rightarrow> Auth \<Rightarrow> bool" where
  "can_serve A q strategy now key a \<longleftrightarrow>
     a \<in> provider_candidates (owned A key) (sq_model q) (auth_allowed q [] strategy) \<and>
     \<not> fst (isAuthBlockedForModel (Some a) (sq_model q) now)"

lemma pick_several_best:
  assumes h: "holds now s A" "0 \<le> now" and pl: "plain_model_name (sq_model q)"
  shows "(case snd (pick_several (\<lambda>_. now) ps (sq_model q) strategy (request_predicate q [] strategy) s) of
      Inr (a, key) \<Rightarrow> key \<in> set ps \<and> can_serve A q strategy now key a \<and>
        (\<forall>key' a'. key' \<in> set ps \<and> can_serve A q strategy now key' a' \<longrightarrow> authPriority a' \<le> authPriority a)
    | Inl _ \<Rightarrow> \<forall>key a. key \<in> set ps \<longrightarrow> \<not> can_serve A q strategy now key a)"
proof -
  let ?k = "canonicalModelKey (sq_model q)"
  define pred where "pred = request_predicate q [] strategy"
  define s1 where "s1 = ensure_shards ?k now ps s"
  define shards where "shards = candidate_shards s1 ?k ps"
  define ck where "ck = join '','' ps @ '':'' @ ?k"
  have kk: "canonicalModelKey ?k = canonicalModelKey (sq_model q)" using pl by (simp add: plain_model_name_def)
  have E: "(case shard_of s1 ?k key of None \<Rightarrow> owned A key = (\<lambda>_. None) | Some m \<Rightarrow> fresh_shard now A (sq_model q) key m)"
    if "key \<in> set ps" for key
    unfolding s1_def by (rule ensure_shards_fresh [OF h kk kk that])
  have fresh: "\<forall>km \<in> set shards. fresh_shard now A (sq_model q) (fst km) (snd km)"
    using E by (force simp: shards_def candidate_shards_mem)
  have serve: "can_serve A q strategy now key a \<longleftrightarrow> (\<exists>m. (key, m) \<in> set shards \<and> ready_at m pred (authPriority a) a)"
    if key: "key \<in> set ps" for key a
  proof (cases "shard_of s1 ?k key")
    case None
    then have "owned A key = (\<lambda>_. None)" using E [OF key] by simp
    then show ?thesis using None by (auto simp: can_serve_def provider_candidates_def shards_def candidate_shards_mem)
  next
    case (Some m)
    then have "fresh_shard now A (sq_model q) key m" using E [OF key] by simp
    from fresh_ready [OF h(1) this pl, of q "[]" strategy "authPriority a" a]
    show ?thesis using key Some by (auto simp: can_serve_def pred_def shards_def candidate_shards_mem)
  qed
  have prio: "authPriority a = p" if "(key, m) \<in> set shards" "ready_at m pred p a" for key m p a
    using fresh_ready [OF h(1) fresh [rule_format, OF that(1), unfolded fst_conv snd_conv] pl, of q "[]" strategy p a] that(2) by (simp add: pred_def)
  have ok: "\<forall>km \<in> set shards. shard_ok now (snd km)" using fresh fresh_ok by blast
  note B = best_priority_max [OF ok, of pred]
  have inps: "(key, m) \<in> set shards \<Longrightarrow> key \<in> set ps" for key m by (simp add: shards_def candidate_shards_mem)
  show ?thesis
  proof (cases "best_priority pred shards")
    case None
    have "snd (pick_several (\<lambda>_. now) ps (sq_model q) strategy pred s) =
        Inl (snd (mixedUnavailableErrorLocked now ps (sq_model q) pred s1))"
      using None by (simp add: pick_several_def Let_def s1_def shards_def split_def)
    then show ?thesis using B None serve by (auto simp: pred_def)
  next
    case (Some p)
    define r where "r = (if strategy = StrategyFillFirst then first_pick p strategy pred shards s1
      else if strategy = StrategyWeightedRoundRobin then mixed_weighted p pred ck ?k ps s1
      else mixed_rotation p pred ck ?k ps s1)"
    have w: "0 < sm_weight (sd_meta e)" if "strategy = StrategyWeightedRoundRobin" "pred e" for e
      using that by (simp add: pred_def request_predicate_def scheduledAuthPredicate_def)
    have "\<exists>km \<in> set shards. \<exists>a. ready_at (snd km) pred p a" using B Some by simp
    then obtain a key m where a: "snd r = Some (a, key)" "(key, m) \<in> set shards" "ready_at m pred p a"
      using mixed_pick_ready [OF fresh shards_def, of pred p strategy ck] w unfolding r_def by blast
    have "snd (pick_several (\<lambda>_. now) ps (sq_model q) strategy pred s) = Inr (a, key)"
      unfolding pick_several_def Let_def s1_def [symmetric] shards_def [symmetric] ck_def [symmetric] Some option.case r_def [symmetric]
      using a(1) by (simp add: split_def)
    moreover have "authPriority a = p" by (rule prio [OF a(2,3)])
    moreover have "authPriority a' \<le> p" if "key' \<in> set ps" "can_serve A q strategy now key' a'" for key' a'
      using that B Some serve [OF that(1)] by fastforce
    moreover have "can_serve A q strategy now key a" using serve [OF inps [OF a(2)]] a(2,3) calculation(2) by blast
    ultimately show ?thesis using inps [OF a(2)] unfolding pred_def by (simp del: not_None_eq) blast
  qed
qed

text \<open>C9. A pick from several providers is the best one: after any operations of the scheduler, it
  answers a credential of one of the providers that can serve the request, of a priority no credential
  of any of the providers that can serve it exceeds, and an error only when none of them can serve it.\<close>

theorem mixed_pick_best:
  assumes "reach sched_init sched_step (s, A, t)" "t \<le> now" "plain_model_name (sq_model q)"
    and "pinnedAuthIDFromMetadata (sq_metadata q) = []" "1 < length (normalizeProviderKeys providers)"
  shows "(case snd (pickMixed (\<lambda>_. now) providers q s) of
      Inr (a, key) \<Rightarrow> key \<in> set (normalizeProviderKeys providers) \<and> can_serve A q (sh_strategy s) now key a \<and>
        (\<forall>key' a'. key' \<in> set (normalizeProviderKeys providers) \<and> can_serve A q (sh_strategy s) now key' a' \<longrightarrow> authPriority a' \<le> authPriority a)
    | Inl _ \<Rightarrow> \<forall>key a. key \<in> set (normalizeProviderKeys providers) \<longrightarrow> \<not> can_serve A q (sh_strategy s) now key a)"
proof -
  have "0 \<le> t" "holds t s A" using scheduler.reach_inv [OF assms(1)] by simp_all
  then have h: "holds now s A" "0 \<le> now" using assms(2) holds_mono by auto
  obtain k1 k2 ks where n: "normalizeProviderKeys providers = k1 # k2 # ks"
    using assms(5) by (metis One_nat_def Suc_less_eq length_Cons less_irrefl_nat list.exhaust list.size(3) not_less_zero)
  have "pickMixed (\<lambda>_. now) providers q s =
      pick_several (\<lambda>_. now) (normalizeProviderKeys providers) (sq_model q) (sh_strategy s) (request_predicate q [] (sh_strategy s)) s"
    unfolding pickMixed_def pickMixedWithStrategy_def Let_def assms(4) n by (simp add: current_strategy_def)
  then show ?thesis using pick_several_best [OF h assms(3)] by simp
qed

theorem mixed_pick_best_witness:
  "snd (pickMixed (\<lambda>_. 30) [''claude'', '' Cursor''] sched_example_request (two_creds FillFirstKind)) =
     Inr (sched_cred ''b'' ''5'', ''cursor'') \<and>
   can_serve two_held sched_example_request StrategyFillFirst 30 ''cursor'' (sched_cred ''b'' ''5'')"
proof -
  let ?q = sched_example_request and ?ps = "[''claude'', '' Cursor'']"
  have st: "sh_strategy (two_creds FillFirstKind) = StrategyFillFirst" by code_simp
  have r: "snd (pickMixed (\<lambda>_. 30) ?ps ?q (two_creds FillFirstKind)) = Inr (sched_cred ''b'' ''5'', ''cursor'')" by code_simp
  have q: "plain_model_name (sq_model ?q)" "pinnedAuthIDFromMetadata (sq_metadata ?q) = []" "1 < length (normalizeProviderKeys ?ps)" by code_simp+
  have "(20 :: time) \<le> 30" by simp
  from mixed_pick_best [OF two_reached [of FillFirstKind] this q] show ?thesis unfolding r st by simp
qed

text \<open>An identifier with a blank at an end is stored under itself in its provider and under the trimmed
  one in the scheduler: disabling or removing the credential leaves it picked.\<close>

theorem blank_id_never_removed:
  defines "r \<equiv> newModelRegistry False" and "c \<equiv> sched_cred ''a '' ''1''"
  defines "s \<equiv> upsertAuth r c 10 (newAuthScheduler RoundRobinKind)"
  shows "snd (pickSingle (\<lambda>_. 30) ''cursor'' sched_example_request (upsertAuth r (c\<lparr>au_disabled := True\<rparr>) 20 s)) = Inr c"
    and "snd (pickSingle (\<lambda>_. 30) ''cursor'' sched_example_request (removeAuth ''a '' s)) = Inr c"
  unfolding s_def c_def r_def by code_simp+

end
