(* ===== verification/Credential_Pick.thy ===== *)
theory Credential_Pick
  imports Request_Errors Scheduler_Mixed Mark_Result
begin

text \<open>
  How a request finds its credential (\<open>sdk/cliproxy/auth/conductor_selection.go\<close>): the scheduler's fast
  path, the slow path over all credentials that an alias makes necessary, and the credentials an
  operation of the manager may still retry. The selector is a built-in one and there is no plugin
  scheduler and no Home. A Go map is walked in the order of its list.
\<close>

section \<open>The state\<close>

datatype builtin_selector =
    RoundRobinSel RoundRobinSelector
  | WeightedSel WeightedRoundRobinSelector
  | FillFirstSel

record Conductor =
  cd_manager :: Manager
  cd_scheduler :: authScheduler
  cd_selector :: builtin_selector
  cd_executors :: "string list"
  cd_aliases :: alias_env
  cd_pool_offsets :: "(string, int) gomap"

definition cd_auths :: "Conductor \<Rightarrow> Auth list" where
  "cd_auths c = map snd (mg_auths (cd_manager c))"

definition has_executor :: "Conductor \<Rightarrow> string \<Rightarrow> bool" where
  "has_executor c provider0 =
     (let provider = trim_space provider0 in
      provider \<noteq> [] \<and> (provider \<in> set (cd_executors c) \<or> to_lower provider \<in> set (cd_executors c)))"

text \<open>\<open>auth_index\<close> is the index derived from the seed of a credential, empty without a seed.\<close>

definition EnsureIndex :: "(Auth \<Rightarrow> string) \<Rightarrow> Auth \<Rightarrow> Auth" where
  "EnsureIndex auth_index a =
     (let existing = trim_space (au_index a) in
      if existing \<noteq> [] then a\<lparr>au_index := existing, au_index_assigned := True\<rparr>
      else if auth_index a = [] then a
      else a\<lparr>au_index := auth_index a, au_index_assigned := True\<rparr>)"

definition assign_index :: "(Auth \<Rightarrow> string) \<Rightarrow> Auth \<Rightarrow> Conductor \<Rightarrow> Conductor \<times> Auth" where
  "assign_index auth_index selected c =
     (if au_index_assigned selected then (c, selected)
      else case mget (mg_auths (cd_manager c)) (au_id selected) of
        None \<Rightarrow> (c, selected)
      | Some current \<Rightarrow>
          if au_index_assigned current then (c, selected)
          else let a = EnsureIndex auth_index current; m = cd_manager c
            in (c\<lparr>cd_manager := m\<lparr>mg_auths := mput (au_id selected) a (mg_auths m)\<rparr>\<rparr>, a))"

section \<open>Availability for a route model\<close>

definition route_model_step ::
  "alias_env \<Rightarrow> string \<Rightarrow> time \<Rightarrow> (int, Auth list) gomap \<times> nat \<times> time \<Rightarrow> Auth \<Rightarrow> (int, Auth list) gomap \<times> nat \<times> time" where
  "route_model_step env routeModel now acc a =
     (let (available, cooldownCount, earliest) = acc;
          (blocked, reason, nxt) = isAuthBlockedForModel (Some a) (selectionModelForAuth env a routeModel) now
      in if \<not> blocked then (mput (authPriority a) (mget_or [] available (authPriority a) @ [a]) available, cooldownCount, earliest)
         else if reason = blockReasonCooldown then
           (available, cooldownCount + 1, if nxt \<noteq> 0 \<and> (earliest = 0 \<or> nxt < earliest) then nxt else earliest)
         else acc)"

definition availableAuthsForRouteModelWithPriorityMode ::
  "alias_env \<Rightarrow> Auth list \<Rightarrow> string \<Rightarrow> string \<Rightarrow> time \<Rightarrow> bool \<Rightarrow> pick_error + Auth list" where
  "availableAuthsForRouteModelWithPriorityMode env auths provider routeModel now allPriorities =
     (if auths = [] then Inl (AuthError (auth_error ''auth_not_found'' ''no auth candidates''))
      else let (available, cooldownCount, earliest) = foldl (route_model_step env routeModel now) ([], 0, 0) auths in
        if available = [] then
          (if cooldownCount = length auths \<and> earliest \<noteq> 0
           then Inl (newModelCooldownError routeModel (if provider = ''mixed'' then [] else provider) (max 0 (time_sub earliest now)))
           else Inl (AuthError (auth_error ''auth_unavailable'' ''no auth available'')))
        else Inr (availableAuthsFromPriorityBuckets available allPriorities))"

definition availableAuthsForRouteModel :: "alias_env \<Rightarrow> Auth list \<Rightarrow> string \<Rightarrow> string \<Rightarrow> time \<Rightarrow> pick_error + Auth list" where
  "availableAuthsForRouteModel env auths provider routeModel now =
     availableAuthsForRouteModelWithPriorityMode env auths provider routeModel now False"

section \<open>The slow path\<close>

definition restoreModelCooldownErrorModel :: "pick_error \<Rightarrow> string \<Rightarrow> pick_error" where
  "restoreModelCooldownErrorModel e requestedModel =
     (case e of ModelCooldownError model provider resetIn \<Rightarrow>
        if requestedModel = [] \<or> model \<noteq> [] then e else newModelCooldownError requestedModel provider resetIn
      | _ \<Rightarrow> e)"

definition builtin_pick ::
  "builtin_selector \<Rightarrow> pick_request \<Rightarrow> Auth option list \<Rightarrow> builtin_selector \<times> (pick_error + Auth)" where
  "builtin_pick sel q auths =
     (case sel of
        RoundRobinSel s \<Rightarrow> (let (s', r) = RoundRobinPick s q auths in (RoundRobinSel s', r))
      | WeightedSel s \<Rightarrow> (let (s', r) = WeightedPick s q auths in (WeightedSel s', r))
      | FillFirstSel \<Rightarrow> (FillFirstSel, snd (FillFirstPick () q auths)))"

definition lookup_model_key :: "string \<Rightarrow> string" where
  "lookup_model_key model =
     (let k = trim_space model in
      if k \<noteq> [] \<and> sr_model_name (ParseSuffix k) \<noteq> [] then trim_space (sr_model_name (ParseSuffix k)) else k)"

definition provider_set :: "string list \<Rightarrow> string list" where
  "provider_set providers = filter (\<lambda>p. p \<noteq> []) (map (\<lambda>p. to_lower (trim_space p)) providers)"

definition legacy_candidates :: "string list \<Rightarrow> sched_request \<Rightarrow> Conductor \<Rightarrow> Auth list" where
  "legacy_candidates providers q c =
     (let pinned = pinnedAuthIDFromMetadata (sq_metadata q); eligibility = authSelectionEligibilityForRequest q in
      filter (\<lambda>a. \<not> au_disabled a \<and> (pinned \<noteq> [] \<longrightarrow> au_id a = pinned) \<and> allows eligibility a \<and>
         executorKeyFromAuth a \<noteq> [] \<and> executorKeyFromAuth a \<in> set (provider_set providers) \<and>
         au_id a \<notin> set (sq_tried q) \<and> executorKeyFromAuth a \<in> set (cd_executors c) \<and>
         (lookup_model_key (sq_model q) \<noteq> [] \<longrightarrow>
            authSupportsRouteModel (cd_aliases c) (mg_registry (cd_manager c)) a (sq_model q))) (cd_auths c))"

text \<open>Two readings of the clock: one for the availability, one by the selector, which is asked without
  a model.\<close>

definition pickNextMixedLegacy ::
  "(Auth \<Rightarrow> string) \<Rightarrow> clock \<Rightarrow> string list \<Rightarrow> sched_request \<Rightarrow> Conductor \<Rightarrow> Conductor \<times> (pick_error + Auth \<times> string)" where
  "pickNextMixedLegacy auth_index clk providers q c =
     (if provider_set providers = [] then (c, Inl (AuthError (auth_error ''provider_not_found'' ''no provider supplied'')))
      else let cands = legacy_candidates providers q c in
        if cands = [] then (c, Inl (AuthError (auth_error ''auth_not_found'' ''no auth available'')))
        else case availableAuthsForRouteModel (cd_aliases c) cands ''mixed'' (sq_model q) (clk 0) of
          Inl e \<Rightarrow> (c, Inl e)
        | Inr available \<Rightarrow>
            let (sel, r) = builtin_pick (cd_selector c)
                  \<lparr>rq_provider = ''mixed'', rq_model = [], rq_excluded = extractExcludedAuthIDs (sq_metadata q), rq_now = clk 1,
                   rq_websocket = sq_websocket q, rq_route_model = sq_model q\<rparr> (map Some available);
                c1 = c\<lparr>cd_selector := sel\<rparr>
            in case r of
                 Inl e \<Rightarrow> (c1, Inl (restoreModelCooldownErrorModel e (sq_model q)))
               | Inr selected \<Rightarrow>
                   let providerKey = executorKeyFromAuth selected in
                   if \<not> has_executor c1 providerKey then (c1, Inl (AuthError (auth_error ''executor_not_found'' ''executor not registered'')))
                   else let (c2, a) = assign_index auth_index selected c1 in (c2, Inr (a, providerKey)))"

section \<open>The fast path\<close>

definition shouldRetrySchedulerPick :: "pick_error \<Rightarrow> bool" where
  "shouldRetrySchedulerPick e = (case e of
     ModelCooldownError _ _ _ \<Rightarrow> True
   | AuthError err \<Rightarrow> er_code err \<in> {''auth_not_found'', ''auth_unavailable''})"

definition eligible_step :: "Conductor \<Rightarrow> string list \<Rightarrow> string \<Rightarrow> string list" where
  "eligible_step c acc p =
     (let k = to_lower (trim_space p) in
      if k = [] \<or> k \<in> set acc \<or> \<not> has_executor c k then acc else acc @ [k])"

definition eligible_providers :: "Conductor \<Rightarrow> string list \<Rightarrow> string list" where
  "eligible_providers c providers = foldl (eligible_step c) [] providers"

definition needs_route_aware :: "string list \<Rightarrow> sched_request \<Rightarrow> Conductor \<Rightarrow> bool" where
  "needs_route_aware usable q c \<longleftrightarrow>
     trim_space (sq_model q) \<noteq> [] \<and>
     list_ex (\<lambda>a. \<not> au_disabled a \<and> executorKeyFromAuth a \<in> set usable \<and>
       allows (authSelectionEligibilityForRequest q) a \<and> au_id a \<notin> set (sq_tried q) \<and>
       routeAwareSelectionRequired (cd_aliases c) a (sq_model q)) (cd_auths c)"

definition syncScheduler :: "time \<Rightarrow> Conductor \<Rightarrow> Conductor" where
  "syncScheduler now c = c\<lparr>cd_scheduler := rebuild (mg_registry (cd_manager c)) (map Some (cd_auths c)) now (cd_scheduler c)\<rparr>"

definition fast_pick :: "clock \<Rightarrow> string list \<Rightarrow> sched_request \<Rightarrow> Conductor \<Rightarrow> Conductor \<times> (pick_error + Auth \<times> string)" where
  "fast_pick clk providers q c =
     (let (s, r) = pickMixed clk providers q (cd_scheduler c) in (c\<lparr>cd_scheduler := s\<rparr>, r))"

text \<open>The clocks of the first pick, of the synchronisation and of the pick after it.\<close>

definition pickNextMixed ::
  "(Auth \<Rightarrow> string) \<Rightarrow> (nat \<Rightarrow> clock) \<Rightarrow> string list \<Rightarrow> sched_request \<Rightarrow> Conductor \<Rightarrow> Conductor \<times> (pick_error + Auth \<times> string)" where
  "pickNextMixed auth_index clks providers q c =
     (let usable = eligible_providers c providers in
      if usable = [] then (c, Inl (AuthError (auth_error ''auth_not_found'' ''no auth available'')))
      else if needs_route_aware usable q c then pickNextMixedLegacy auth_index (clks 0) providers q c
      else let (c1, r1) = fast_pick (clks 0) usable q c;
               (c2, r) = (case r1 of
                 Inl e \<Rightarrow> if sq_model q \<noteq> [] \<and> shouldRetrySchedulerPick e
                           then fast_pick (clks 2) usable q (syncScheduler (clks 1 0) c1) else (c1, r1)
               | _ \<Rightarrow> (c1, r1))
        in case r of
             Inl e \<Rightarrow> (c2, Inl e)
           | Inr (selected, providerKey) \<Rightarrow>
               if \<not> has_executor c2 providerKey then (c2, Inl (AuthError (auth_error ''executor_not_found'' ''executor not registered'')))
               else let (c3, a) = assign_index auth_index selected c2 in (c3, Inr (a, providerKey)))"

section \<open>What the scheduler picks\<close>

text \<open>A credential picked from a shard is that of an entry the request may use.\<close>

definition picked_from :: "modelScheduler \<Rightarrow> predicate \<Rightarrow> Auth \<Rightarrow> bool" where
  "picked_from m pred a \<longleftrightarrow> (\<exists>i e. mget (md_entries m) i = Some e \<and> pred e \<and> sd_auth e = a)"

lemma view_entries_entry: "e \<in> set (view_entries m v) \<Longrightarrow> \<exists>i. mget (md_entries m) i = Some e"
  by (auto simp: view_entries_def set_somes)

lemma pickRoundRobin_entry:
  assumes "snd (pickRoundRobin m pred v) = Some e"
  shows "pred e \<and> e \<in> set (view_entries m v)"
proof -
  define flat where "flat = view_entries m v"
  obtain s where s: "find pred (map (\<lambda>offset. flat ! ((s + offset) mod length flat)) [0..<length flat]) = Some e"
    using assms by (auto simp: pickRoundRobin_def flat_def Let_def split: option.splits)
  then obtain i where i: "i < length flat" "pred e" "e = flat ! ((s + i) mod length flat)"
    by (auto simp: find_Some_iff)
  then have "(s + i) mod length flat < length flat" by (intro mod_less_divisor) linarith
  then show ?thesis using i unfolding flat_def by simp
qed

lemma pick_from_view_entry:
  assumes "snd (pick_from_view m strategy pred v) = Some e"
  shows "pred e \<and> e \<in> set (view_entries m v)"
proof -
  have f: "pred e \<and> e \<in> set (view_entries m v)" if "pickFirst m pred v = Some e"
    using that by (auto simp: pickFirst_def find_Some_iff)
  have w: "pred e \<and> e \<in> set (view_entries m v)" if "snd (pickWeighted m pred v) = Some e"
    using that weighted_pick_ready [of "view_entries m v" pred "rv_weighted v"]
    by (auto simp: pickWeighted_def split_def Let_def split: if_splits)
  show ?thesis using assms f w pickRoundRobin_entry [of m pred v e]
    by (auto simp: pick_from_view_def split: schedulerStrategy.splits)
qed

lemma pickAt_entry:
  assumes "snd (pickReadyAtPriorityLocked ws p strategy pred m) = Some a"
  shows "picked_from m pred a"
proof (cases "mget (md_ready m) p")
  case None
  then show ?thesis using assms by (simp add: pickReadyAtPriorityLocked_def)
next
  case (Some b)
  then obtain v e where "snd (pick_from_view m strategy pred v) = Some e" "sd_auth e = a"
    using assms by (auto simp: pickReadyAtPriorityLocked_def Let_def split_def)
  then show ?thesis using pick_from_view_entry view_entries_entry unfolding picked_from_def by blast
qed

text \<open>It is one the scheduler holds.\<close>

lemma picked_held:
  assumes h: "holding_ok A" and m: "shard_of_holding now (owned A key) k m" and p: "picked_from m pred a"
  shows "A (au_id a) \<noteq> None \<and> (\<exists>e. pred e \<and> sd_auth e = a)"
proof -
  obtain i e where e: "mget (md_entries m) i = Some e" "pred e" "sd_auth e = a" using p by (auto simp: picked_from_def)
  have "shard_metas m i = supporting k (owned A key) i" using m by (simp add: shard_of_holding_def)
  then have "A i = Some (sd_meta e)" using e(1) by (auto simp: shard_metas_def supporting_def owned_def split: option.splits if_splits)
  moreover from this have "au_id a = i" using h e(3) by (auto simp: holding_ok_def)
  ultimately show ?thesis using e by (auto simp del: not_None_eq)
qed

definition held_pick :: "holding \<Rightarrow> predicate \<Rightarrow> Auth \<Rightarrow> bool" where
  "held_pick A pred a \<longleftrightarrow> A (au_id a) \<noteq> None \<and> (\<exists>e. pred e \<and> sd_auth e = a)"

lemma pick_from_provider_held:
  assumes h: "holds t s A" and p: "mget (sh_providers s) key = Some p" and t: "ticking t clk"
    and r: "snd (pick_from_provider clk k pw strategy pred provider model p) = Inr a"
  shows "held_pick A pred a"
proof -
  let ?base = "ensureModelLocked k (clk 0) p"
  let ?m = "promoteExpiredLocked (clk 1) ?base"
  have m0: "shard_of_holding (clk 0) (owned A key) (canonicalModelKey k) ?base"
    by (rule ensure_facts(1) [OF holds_provider [OF h p] _ _ holds_named [OF h]]) (use t in \<open>auto simp: ticking_def\<close>)
  then have ok: "shard_ok (clk 0) ?base" by (simp add: shard_of_holding_def)
  have t1: "clk 0 \<le> clk 1" "0 \<le> clk 1" using t by (auto simp: ticking_def)
  note P = promote_facts [OF ok t1]
  have "shard_metas ?m = shard_metas ?base"
    by (rule ext) (unfold shard_metas_def P(3), simp add: option.map_comp comp_def)
  then have m: "shard_of_holding (clk 1) (owned A key) (canonicalModelKey k) ?m"
    using m0 P by (simp add: shard_of_holding_def)
  have "snd (pickReadyLocked (clk 1) pw strategy pred ?base) = Some a"
    using r by (auto simp: pick_from_provider_def split: prod.splits option.splits)
  then have "\<exists>q. snd (pickReadyAtPriorityLocked pw q strategy pred ?m) = Some a"
    by (auto simp: pickReadyLocked_def Let_def split: option.splits)
  then show ?thesis using picked_held [OF _ m] pickAt_entry h unfolding holds_def held_pick_def by blast
qed

lemma held_shard_pick:
  assumes "holds now s A" "held_shard now A (key, m)" "snd (pickReadyAtPriorityLocked ws p strategy pred m) = Some a"
  shows "held_pick A pred a"
  using picked_held [OF _ assms(2) [unfolded held_shard_def fst_conv snd_conv] pickAt_entry [OF assms(3)]] assms(1)
  unfolding holds_def held_pick_def by blast

lemma first_pick_held:
  "holds now s A \<Longrightarrow> \<forall>km \<in> set shards. held_shard now A km \<Longrightarrow>
   snd (first_pick p strategy pred shards s) = Some (a, k) \<Longrightarrow> held_pick A pred a"
proof (induction p strategy pred shards s rule: first_pick.induct)
  case (2 p strategy pred k m shards s)
  then show ?case using pick_in_shard_holds [of now s A k m p strategy pred] held_shard_pick [of now s A k m False p strategy pred]
    by (auto simp: pick_in_shard_def Let_def split_def split: option.splits)
qed simp

lemma rotate_pick_held:
  "holds now s A \<Longrightarrow> snd (rotate_pick p pred k ps w start slot offs s) = Some (a, key, n) \<Longrightarrow> held_pick A pred a"
proof (induction p pred k ps w start slot offs s rule: rotate_pick.induct)
  case (2 p pred k ps w start slot off offs s)
  let ?i = "(start + off) mod length ps"
  show ?case
  proof (cases "shard_of s k (ps ! ?i)")
    case None
    then show ?thesis using 2 by (auto simp: Let_def split: if_splits)
  next
    case (Some m)
    note hs = shard_of_held [OF "2.prems"(1) Some]
    obtain s' r where pk: "pick_in_shard p StrategyRoundRobin pred (ps ! ?i) m s = (s', r)" by (cases "pick_in_shard p StrategyRoundRobin pred (ps ! ?i) m s")
    have h': "holds now s' A" using pick_in_shard_holds [OF "2.prems"(1) hs, of p StrategyRoundRobin pred] pk by simp
    have "held_pick A pred b" if "r = Some b" for b
      using held_shard_pick [OF "2.prems"(1) hs, of False p StrategyRoundRobin pred b] pk that by (auto simp: pick_in_shard_def Let_def split_def)
    then show ?thesis using 2 Some pk h' by (cases r) (auto simp: Let_def split: if_splits)
  qed
qed simp

lemma mixed_weighted_held:
  assumes h: "holds now s A" and r: "snd (mixed_weighted p pred ck k ps s) = Some (a, key)"
  shows "held_pick A pred a"
proof -
  define es st where "es = mixed_entries p (candidate_shards s k ps)"
    and "st = mget_or \<lparr>sw_current = [], sw_weights = []\<rparr> (sh_mixed_weighted s) ck"
  have "\<exists>e. snd (weighted_pick es pred st) = Some e \<and> sd_auth e = a"
    using r by (auto simp: mixed_weighted_def es_def st_def Let_def split_def)
  then obtain e where e: "e \<in> set es" "pred e" "sd_auth e = a" using weighted_pick_ready [of es pred st] by auto
  obtain key' m v where m: "(key', m) \<in> set (candidate_shards s k ps)" "e \<in> set (view_entries m v)"
    using e(1) by (auto simp: es_def mixed_entries_def split: option.splits)
  obtain i where "mget (md_entries m) i = Some e" using view_entries_entry [OF m(2)] by blast
  then have "picked_from m pred a" using e unfolding picked_from_def by blast
  moreover have "held_shard now A (key', m)" using candidate_shards_held [OF h] m(1) by blast
  ultimately show ?thesis using picked_held h unfolding held_shard_def holds_def held_pick_def by (metis fst_conv snd_conv)
qed

lemma pick_several_held:
  assumes h: "holds t s A" and t: "ticking t clk"
    and r: "snd (pick_several clk ps model strategy pred s) = Inr (a, key)"
  shows "held_pick A pred a"
proof -
  let ?k = "canonicalModelKey model"
  define s1 where "s1 = ensure_shards ?k (clk 0) ps s"
  have s1: "holds (clk 0) s1 A" unfolding s1_def using t h by (auto simp: ticking_def intro!: ensure_shards_holds intro: holds_mono)
  show ?thesis
    using r first_pick_held [OF s1 candidate_shards_held [OF s1]] mixed_weighted_held [OF s1] rotate_pick_held [OF s1]
    unfolding pick_several_def Let_def s1_def [symmetric] mixed_rotation_def
    by (auto simp: split_def split: option.splits if_splits)
qed

lemma pickMixed_held:
  assumes h: "holds t s A" and t: "ticking t clk"
    and r: "snd (pickMixed clk ps q s) = Inr (a, key)"
  shows "A (au_id a) \<noteq> None \<and> au_id a \<notin> set (sq_tried q) \<and> allows (authSelectionEligibilityForRequest q) a"
proof -
  let ?pin = "pinnedAuthIDFromMetadata (sq_metadata q)" and ?st = "current_strategy s StrategyCurrent"
  have "held_pick A (request_predicate q ?pin ?st) a"
  proof (cases "normalizeProviderKeys ps")
    case Nil
    then show ?thesis using r by (simp add: pickMixed_def pickMixedWithStrategy_def)
  next
    case (Cons k ks)
    show ?thesis
    proof (cases ks)
      case Nil
      then have "snd (pickSingleWithStrategy clk k q StrategyCurrent s) = Inr a"
        using r Cons by (auto simp: pickMixed_def pickMixedWithStrategy_def Let_def split_def map_sum_def split: sum.splits)
      then obtain p pw where "mget (sh_providers s) (to_lower (trim_space k)) = Some p"
          "snd (pick_from_provider clk (canonicalModelKey (sq_model q)) pw ?st (request_predicate q ?pin ?st) k (sq_model q) p) = Inr a"
        by (auto simp: pickSingleWithStrategy_def Let_def split_def split: option.splits)
      then show ?thesis using pick_from_provider_held [OF h _ t] by blast
    next
      case (Cons k2 ks2)
      then have n: "normalizeProviderKeys ps = k # k2 # ks2" using \<open>normalizeProviderKeys ps = k # ks\<close> by simp
      show ?thesis
      proof (cases "?pin = []")
        case True
        then show ?thesis using r n pick_several_held [OF h t]
          by (auto simp: pickMixed_def pickMixedWithStrategy_def Let_def)
      next
        case False
        then have "snd (pick_pinned clk (k # k2 # ks2) ?pin (sq_model q) ?st (request_predicate q ?pin ?st) s) = Inr (a, key)"
          using r n by (simp add: pickMixed_def pickMixedWithStrategy_def Let_def)
        then obtain key' p where "mget (sh_providers s) key' = Some p"
            "snd (pick_from_provider clk (canonicalModelKey (sq_model q)) False ?st (request_predicate q ?pin ?st) ''mixed'' (sq_model q) p) = Inr a"
          by (auto simp: pick_pinned_def Let_def split_def map_sum_def split: option.splits if_splits sum.splits)
        then show ?thesis using pick_from_provider_held [OF h _ t] by blast
      qed
    qed
  qed
  then show ?thesis by (auto simp: held_pick_def request_predicate_def scheduledAuthPredicate_def entry_id_def simp del: not_None_eq)
qed

section \<open>What a request picks\<close>

text \<open>The conductor is in order at a time: the manager keeps its credentials under their identifiers,
  the scheduler is exact for what it holds, and every identifier is one of \<open>P\<close>.\<close>

definition manager_ok :: "string set \<Rightarrow> Manager \<Rightarrow> bool" where
  "manager_ok P m \<longleftrightarrow> mwf (mg_auths m) \<and> (\<forall>i a. mget (mg_auths m) i = Some a \<longrightarrow> au_id a = i \<and> i \<in> P \<and> trimmed a)"

definition scheduler_ok :: "string set \<Rightarrow> time \<Rightarrow> authScheduler \<Rightarrow> bool" where
  "scheduler_ok P t s \<longleftrightarrow> 0 \<le> t \<and> (\<exists>A. holds t s A \<and> dom A \<subseteq> P)"

definition conductor_ok :: "string set \<Rightarrow> time \<Rightarrow> Conductor \<Rightarrow> bool" where
  "conductor_ok P t c \<longleftrightarrow> manager_ok P (cd_manager c) \<and> scheduler_ok P t (cd_scheduler c)"

lemma manager_auth: "manager_ok P m \<Longrightarrow> a \<in> set (map snd (mg_auths m)) \<Longrightarrow> au_id a \<in> P \<and> trimmed a \<and> mget (mg_auths m) (au_id a) = Some a"
  by (auto simp: manager_ok_def dest: mget_Some_iff [THEN iffD2])

lemma manager_ok_put: "manager_ok P m \<Longrightarrow> au_id a = i \<Longrightarrow> i \<in> P \<Longrightarrow> trimmed a \<Longrightarrow> manager_ok P (m\<lparr>mg_auths := mput i a (mg_auths m)\<rparr>)"
  by (simp add: manager_ok_def)

lemma scheduler_ok_mono: "scheduler_ok P t s \<Longrightarrow> t \<le> t' \<Longrightarrow> scheduler_ok P t' s"
  unfolding scheduler_ok_def using holds_mono by (meson order_trans)

lemma conductor_ok_mono: "conductor_ok P t c \<Longrightarrow> t \<le> t' \<Longrightarrow> conductor_ok P t' c"
  unfolding conductor_ok_def using scheduler_ok_mono by blast

lemma spec_rebuild_dom: "dom (spec_rebuild r as) \<subseteq> {trim_space (au_id a) |a. Some a \<in> set as}"
proof (induction as rule: rev_induct)
  case (snoc ao as)
  show ?case
  proof (cases ao)
    case None
    then show ?thesis using snoc by (auto simp: spec_rebuild_def)
  next
    case (Some a)
    have "spec_rebuild r (as @ [ao]) = spec_upsert r a (spec_rebuild r as)" by (simp add: spec_rebuild_def Some)
    moreover have "dom (spec_upsert r a (spec_rebuild r as)) \<subseteq> insert (trim_space (au_id a)) (dom (spec_rebuild r as))"
      by (auto simp: spec_upsert_def Let_def)
    ultimately show ?thesis using snoc Some by fastforce
  qed
qed (simp add: spec_rebuild_def)

lemma syncScheduler_ok:
  assumes c: "conductor_ok P t c" and t: "t \<le> now"
  shows "conductor_ok P now (syncScheduler now c)"
proof -
  have m: "manager_ok P (cd_manager c)" and s: "0 \<le> now" using c t by (auto simp: conductor_ok_def scheduler_ok_def)
  have a: "au_id a \<in> P \<and> trimmed a" if "Some a \<in> set (map Some (cd_auths c))" for a
    using manager_auth [OF m, of a] that by (auto simp: cd_auths_def)
  then have h: "holds now (rebuild (mg_registry (cd_manager c)) (map Some (cd_auths c)) now (cd_scheduler c))
      (spec_rebuild (mg_registry (cd_manager c)) (map Some (cd_auths c)))"
    by (intro rebuild_holds [OF s]) blast
  have "{trim_space (au_id b) |b. Some b \<in> set (map Some (cd_auths c))} \<subseteq> P"
    using a unfolding trimmed_def by auto
  then have "dom (spec_rebuild (mg_registry (cd_manager c)) (map Some (cd_auths c))) \<subseteq> P"
    using spec_rebuild_dom by (rule subset_trans [rotated])
  then have "scheduler_ok P now (cd_scheduler (syncScheduler now c))"
    unfolding scheduler_ok_def syncScheduler_def using s h by auto
  then show ?thesis using m by (simp add: conductor_ok_def syncScheduler_def)
qed

lemma assign_index_ok:
  assumes c: "conductor_ok P t c" and r: "assign_index f a c = (c', a')"
  shows "conductor_ok P t c' \<and> au_id a' = au_id a"
proof -
  have E: "au_id (EnsureIndex f b) = au_id b" for b by (simp add: EnsureIndex_def Let_def)
  have m: "manager_ok P (cd_manager c)" using c by (simp add: conductor_ok_def)
  show ?thesis
  proof (cases "au_index_assigned a")
    case True
    then show ?thesis using c r by (simp add: assign_index_def)
  next
    case na: False
    show ?thesis
    proof (cases "mget (mg_auths (cd_manager c)) (au_id a)")
    case None
    then show ?thesis using na c r by (simp add: assign_index_def)
  next
    case b: (Some b)
    then have ob: "au_id b = au_id a" "au_id a \<in> P" "trimmed b" using m by (auto simp: manager_ok_def)
    have "manager_ok P ((cd_manager c)\<lparr>mg_auths := mput (au_id a) (EnsureIndex f b) (mg_auths (cd_manager c))\<rparr>)"
      using ob E by (intro manager_ok_put [OF m]) (simp_all add: trimmed_def)
    then show ?thesis using na b c r ob E by (auto simp: assign_index_def conductor_ok_def Let_def split: if_splits)
    qed
  qed
qed

lemma fast_pick_ok:
  assumes c: "conductor_ok P t c" and t: "ticking t clk" and r: "fast_pick clk ps q c = (c', r)"
  shows "conductor_ok P (clk 2) c' \<and> (case r of Inl _ \<Rightarrow> True | Inr (a, k) \<Rightarrow> au_id a \<in> P \<and> au_id a \<notin> set (sq_tried q))"
proof -
  obtain A where A: "holds t (cd_scheduler c) A" "dom A \<subseteq> P" using c by (auto simp: conductor_ok_def scheduler_ok_def)
  have h: "holds (clk 2) (fst (pickMixed clk ps q (cd_scheduler c))) A" unfolding pickMixed_def by (rule mixed_holds [OF A(1) t])
  have "0 \<le> clk 2" using t by (auto simp: ticking_def)
  moreover have "au_id a \<in> P \<and> au_id a \<notin> set (sq_tried q)" if "snd (pickMixed clk ps q (cd_scheduler c)) = Inr (a, k)" for a k
    using pickMixed_held [OF A(1) t that] A(2) by blast
  moreover have "c' = c\<lparr>cd_scheduler := fst (pickMixed clk ps q (cd_scheduler c))\<rparr>" "r = snd (pickMixed clk ps q (cd_scheduler c))"
    using r by (simp_all add: fast_pick_def split_def Let_def)
  ultimately show ?thesis using h A(2) c
    by (cases "snd (pickMixed clk ps q (cd_scheduler c))") (auto simp: conductor_ok_def scheduler_ok_def)
qed

text \<open>The slow path offers the selector the candidates of the best priority that are available for the
  model the route model stands for with each credential.\<close>

definition route_model_ok :: "alias_env \<Rightarrow> string \<Rightarrow> time \<Rightarrow> Auth \<Rightarrow> bool" where
  "route_model_ok env routeModel now a \<longleftrightarrow> \<not> fst (isAuthBlockedForModel (Some a) (selectionModelForAuth env a routeModel) now)"

lemma route_model_buckets:
  "buckets_of (fst (foldl (route_model_step env routeModel now) ([], 0, 0) as)) (filter (route_model_ok env routeModel now) as)"
proof (induction as rule: rev_induct)
  case Nil
  then show ?case by (simp add: buckets_of_def)
next
  case (snoc a as)
  obtain b cd er where c: "foldl (route_model_step env routeModel now) ([], 0, 0) as = (b, cd, er)" by (metis prod_cases3)
  obtain bl re nx where bl: "isAuthBlockedForModel (Some a) (selectionModelForAuth env a routeModel) now = (bl, re, nx)" by (metis prod_cases3)
  have IH: "buckets_of b (filter (route_model_ok env routeModel now) as)" using snoc c by simp
  have st: "fst (route_model_step env routeModel now (b, cd, er) a) =
      (if route_model_ok env routeModel now a then mput (authPriority a) (mget_or [] b (authPriority a) @ [a]) b else b)"
    by (simp add: route_model_step_def bl route_model_ok_def)
  have f: "foldl (route_model_step env routeModel now) ([], 0, 0) (as @ [a]) = route_model_step env routeModel now (b, cd, er) a"
    by (simp add: c)
  show ?case unfolding f st using IH by (auto simp: buckets_of_def mget_or_def Let_def)
qed

lemma route_model_available:
  "(case availableAuthsForRouteModel env as provider routeModel now of
      Inl _ \<Rightarrow> filter (route_model_ok env routeModel now) as = []
    | Inr l \<Rightarrow> l \<noteq> [] \<and> set l = set (top_candidates (filter (route_model_ok env routeModel now) as)))"
proof -
  obtain b cd er where c: "foldl (route_model_step env routeModel now) ([], 0, 0) as = (b, cd, er)" by (metis prod_cases3)
  let ?cs = "filter (route_model_ok env routeModel now) as"
  have b: "buckets_of b ?cs" using route_model_buckets [of env routeModel now as] c by simp
  have s: "set (availableAuthsFromPriorityBuckets b False) = set (top_candidates ?cs)"
    by (simp add: bucket_sets(2) [OF b])
  have n: "b = [] \<longleftrightarrow> ?cs = []" by (rule buckets_Nil [OF b])
  then have "b \<noteq> [] \<Longrightarrow> availableAuthsFromPriorityBuckets b False \<noteq> []"
    using s by (metis set_empty2 top_candidates_Nil)
  then show ?thesis using s n c
    by (auto simp: availableAuthsForRouteModel_def availableAuthsForRouteModelWithPriorityMode_def)
qed

lemma builtin_pick_from:
  assumes "builtin_pick sel q as = (sel', Inr a)"
  shows "Some a \<in> set as"
proof (cases sel)
  case (RoundRobinSel s)
  then have "RoundRobinPick s q as = (fst (RoundRobinPick s q as), Inr a)"
    using assms by (cases "RoundRobinPick s q as") (auto simp: builtin_pick_def)
  from round_robin.pick_from [OF this] show ?thesis ..
next
  case (WeightedSel s)
  then have "WeightedPick s q as = (fst (WeightedPick s q as), Inr a)"
    using assms by (cases "WeightedPick s q as") (auto simp: builtin_pick_def)
  from weighted.pick_from [OF this] show ?thesis ..
next
  case FillFirstSel
  then have "FillFirstPick () q as = (fst (FillFirstPick () q as), Inr a)"
    using assms by (cases "FillFirstPick () q as") (auto simp: builtin_pick_def)
  from fill_first.pick_from [OF this] show ?thesis ..
qed

lemma legacy_ok:
  assumes c: "conductor_ok P t c" and r: "pickNextMixedLegacy f clk providers q c = (c', r)"
  shows "conductor_ok P t c' \<and> (case r of Inl _ \<Rightarrow> True | Inr (a, k) \<Rightarrow> au_id a \<in> P \<and> au_id a \<notin> set (sq_tried q))"
proof -
  let ?cands = "legacy_candidates providers q c"
  have m: "manager_ok P (cd_manager c)" using c by (simp add: conductor_ok_def)
  show ?thesis
  proof (cases "availableAuthsForRouteModel (cd_aliases c) ?cands ''mixed'' (sq_model q) (clk 0)")
    case (Inl e)
    then show ?thesis using c r by (auto simp: pickNextMixedLegacy_def Let_def split: if_splits)
  next
    case (Inr available)
    have av: "set available \<subseteq> set ?cands"
      using route_model_available [where env = "cd_aliases c" and as = ?cands and provider = "''mixed''" and routeModel = "sq_model q" and now = "clk 0"] Inr
      by (auto simp: top_candidates_def)
    define pq where "pq = \<lparr>rq_provider = ''mixed'', rq_model = [], rq_excluded = extractExcludedAuthIDs (sq_metadata q), rq_now = clk 1,
                   rq_websocket = sq_websocket q, rq_route_model = sq_model q\<rparr>"
    obtain sel x where sel: "builtin_pick (cd_selector c) pq (map Some available) = (sel, x)"
      by (cases "builtin_pick (cd_selector c) pq (map Some available)")
    have c1: "conductor_ok P t (c\<lparr>cd_selector := sel\<rparr>)" using c by (simp add: conductor_ok_def)
    note e = r [unfolded pickNextMixedLegacy_def Let_def Inr sum.case pq_def [symmetric] sel prod.case]
    show ?thesis
    proof (cases x)
      case Inl
      then show ?thesis using e c c1 by (auto split: if_splits)
    next
      case x: (Inr a)
      have "a \<in> set ?cands" using builtin_pick_from [of "cd_selector c" pq "map Some available" sel a] sel x av by auto
      then have a: "au_id a \<notin> set (sq_tried q)" "au_id a \<in> P"
        using manager_auth [OF m, of a] by (auto simp: legacy_candidates_def Let_def cd_auths_def)
      obtain c2 a2 where i: "assign_index f a (c\<lparr>cd_selector := sel\<rparr>) = (c2, a2)" by (cases "assign_index f a (c\<lparr>cd_selector := sel\<rparr>)")
      show ?thesis using e x i assign_index_ok [OF c1 i] a c c1 by (auto split: if_splits)
    qed
  qed
qed

text \<open>The clocks of a pick go on from \<open>t\<close>.\<close>

definition clocks_from :: "time \<Rightarrow> (nat \<Rightarrow> clock) \<Rightarrow> bool" where
  "clocks_from t clks \<longleftrightarrow> ticking t (clks 0) \<and> clks 0 2 \<le> clks 1 0 \<and> ticking (clks 1 0) (clks 2)"

lemma pickNextMixed_ok:
  assumes c: "conductor_ok P t c" and t: "clocks_from t clks" and r: "pickNextMixed f clks providers q c = (c', r)"
  shows "conductor_ok P (clks 2 2) c' \<and> (case r of Inl _ \<Rightarrow> True | Inr (a, k) \<Rightarrow> au_id a \<in> P \<and> au_id a \<notin> set (sq_tried q))"
proof -
  define ps where "ps = eligible_providers c providers"
  have ts: "ticking t (clks 0)" "clks 0 2 \<le> clks 1 0" "ticking (clks 1 0) (clks 2)" "t \<le> clks 2 2" "clks 0 2 \<le> clks 2 2"
    using t by (auto simp: clocks_from_def ticking_def)
  have c': "conductor_ok P (clks 2 2) c" by (rule conductor_ok_mono [OF c ts(4)])
  consider (none) "ps = []" | (slow) "ps \<noteq> []" "needs_route_aware ps q c" | (fast) "ps \<noteq> []" "\<not> needs_route_aware ps q c" by blast
  then show ?thesis
  proof cases
    case none
    then show ?thesis using r c' by (auto simp: pickNextMixed_def ps_def)
  next
    case slow
    then have "pickNextMixedLegacy f (clks 0) providers q c = (c', r)" using r by (simp add: pickNextMixed_def ps_def)
    from legacy_ok [OF c' this] show ?thesis .
  next
    case fast
    obtain c1 r1 where f1: "fast_pick (clks 0) ps q c = (c1, r1)" by (cases "fast_pick (clks 0) ps q c")
    note F1 = fast_pick_ok [OF c ts(1) f1]
    have s1: "conductor_ok P (clks 1 0) (syncScheduler (clks 1 0) c1)" using syncScheduler_ok F1 ts(2) by blast
    obtain c2 r2 where f2: "fast_pick (clks 2) ps q (syncScheduler (clks 1 0) c1) = (c2, r2)" by (cases "fast_pick (clks 2) ps q (syncScheduler (clks 1 0) c1)")
    note F2 = fast_pick_ok [OF s1 ts(3) f2]
    obtain c3 r3 where x: "(c3, r3) = (case r1 of
                 Inl e \<Rightarrow> if sq_model q \<noteq> [] \<and> shouldRetrySchedulerPick e then (c2, r2) else (c1, r1) | _ \<Rightarrow> (c1, r1))" by (metis surj_pair)
    have F3: "conductor_ok P (clks 2 2) c3" "case r3 of Inl _ \<Rightarrow> True | Inr (a, k) \<Rightarrow> au_id a \<in> P \<and> au_id a \<notin> set (sq_tried q)"
      using x F1 F2 conductor_ok_mono [OF _ ts(5)] by (auto split: sum.splits if_splits)
    have e: "pickNextMixed f clks providers q c = (case r3 of
             Inl e \<Rightarrow> (c3, Inl e)
           | Inr (selected, providerKey) \<Rightarrow>
               if \<not> has_executor c3 providerKey then (c3, Inl (AuthError (auth_error ''executor_not_found'' ''executor not registered'')))
               else let (c4, a) = assign_index f selected c3 in (c4, Inr (a, providerKey)))"
      using fast unfolding pickNextMixed_def ps_def [symmetric] Let_def f1 prod.case f2 x [symmetric] by simp
    show ?thesis
    proof (cases r3)
      case (Inl e')
      then show ?thesis using r F3 unfolding e by auto
    next
      case (Inr ak)
      obtain a k where ak: "ak = (a, k)" by (cases ak)
      obtain c4 a4 where i: "assign_index f a c3 = (c4, a4)" by (cases "assign_index f a c3")
      show ?thesis using r F3 assign_index_ok [OF F3(1) i] i unfolding e Inr ak by (auto split: if_splits)
    qed
  qed
qed

end
