(* ===== verification/Cooldown_Properties.thy ===== *)
theory Cooldown_Properties
  imports Mark_Result
begin

text \<open>
  What recording results, restoring cooldowns and resetting a quota guarantee: the window of a rate
  limit, the credential after a restart and after a reset, and the properties of
  \<open>Manager.MarkResult\<close>, \<open>RestoreCooldownStates\<close> and \<open>ResetQuota\<close> that rest on them.
\<close>

section \<open>Quota windows\<close>

lemma model_state_put [simp]: "model_state (put_model_state key s a) key = s"
  by (simp add: model_state_def put_model_state_def mget_or_def)

lemma update_model_state:
  assumes "now < ms_next_retry_after s"
  shows "model_state (updateAggregatedAvailability now ((put_model_state key s a)\<lparr>au_status := st, au_updated_at := u\<rparr>)) key = s"
  using lift_future [OF assms]
  by (simp add: model_state_def update_states mget_map_values put_model_state_def mget_or_def)

lemma observe_model_state:
  "ms_next_retry_after (model_state (observe_quota result headers modelKey now a) k) = ms_next_retry_after (model_state a k)"
  "qs_backoff_level (ms_quota (model_state (observe_quota result headers modelKey now a) k)) = qs_backoff_level (ms_quota (model_state a k))"
  "qs_next_recover_at (ms_quota (model_state (observe_quota result headers modelKey now a) k)) = qs_next_recover_at (ms_quota (model_state a k))"
  by (auto simp: observe_quota_def Let_def put_model_state_def model_state_def mget_or_def split: option.splits dest!: existingModelState_Some)

lemma ensure_model_state:
  assumes "keys_canonical a" "canonicalModelKey key = key" "key \<noteq> []"
  shows "model_state (ensureModelState a key) key = model_state a key"
  by (simp add: ensure_canonical [OF assms] model_state_def mget_or_def split: option.splits)

section \<open>Restoring\<close>

lemma merge_blocked:
  "stops t (merge_states s (restored_state r q u)) \<or> \<not> (0 \<le> t \<and> t < cr_next_retry_after r)"
proof -
  let ?m = "merge_states s (restored_state r q u)"
  have "ms_unavailable ?m" "cr_next_retry_after r \<le> ms_next_retry_after ?m"
    by (auto simp: merge_states_def restored_state_def later_def Let_def)
  then show ?thesis using unavailable_stops [of t ?m] by auto
qed

lemma restore_blocked:
  assumes "trim_space (cr_model r) \<noteq> []" "canonicalModelKey (canonicalModelKey (trim_space (cr_model r))) = canonicalModelKey (trim_space (cr_model r))"
    and "canonicalModelKey model = canonicalModelKey (trim_space (cr_model r))" "model \<noteq> []"
    and t: "0 \<le> now" "now \<le> t" "t < cr_next_retry_after r"
  shows "fst (isAuthBlockedForModel (Some (restore_auth r now a)) model t)"
proof -
  let ?key = "canonicalModelKey (trim_space (cr_model r))"
  let ?q = "if qs_exceeded (cr_quota r) \<and> qs_next_recover_at (cr_quota r) = 0 then (cr_quota r)\<lparr>qs_next_recover_at := cr_next_retry_after r\<rparr> else cr_quota r"
  let ?u = "if cr_updated_at r = 0 then now else cr_updated_at r"
  let ?a1 = "ensureModelState a (trim_space (cr_model r))"
  let ?s = "merge_states (model_state ?a1 ?key) (restored_state r ?q ?u)"
  let ?U = "updateAggregatedAvailability now (put_model_state ?key ?s ?a1)"
  have f: "restore_auth r now a = ?U" using assms(1) by (simp add: restore_auth_def Let_def)
  have "now < ms_next_retry_after ?s" using t by (auto simp: merge_states_def restored_state_def later_def Let_def)
  then have "(?key, Some ?s) \<in> set (au_model_states ?U)"
    using put_mem [of ?key ?s ?a1] lift_future [of now ?s] by (auto simp: update_mem intro: exI [of _ "Some ?s"])
  then have "?s \<in> set (matching (canonicalModelKey model) (au_model_states ?U))" "au_model_states ?U \<noteq> []"
    using assms(2,3) by (auto simp: set_matching)
  moreover have "stops t ?s" using merge_blocked [of t "model_state ?a1 ?key" r ?q ?u] t by auto
  ultimately show ?thesis unfolding f isAuthBlocked_iff using assms(4) by auto
qed

section \<open>Reset\<close>

definition clean_block :: "ModelState \<Rightarrow> bool" where
  "clean_block s \<longleftrightarrow> \<not> ms_unavailable s \<and> \<not> qs_exceeded (ms_quota s)"

lemma clear_clean: "clean_block (clear_state now s)"
  by (auto simp: clear_state_def needs_clearing_def clean_block_def)

lemma lift_clean: "clean_block s \<Longrightarrow> clean_block (lift_expired now s)"
  by (simp add: lift_expired_def clean_block_def)

lemma clean_free: "clean_block s \<Longrightarrow> ms_status s \<noteq> StatusDisabled \<Longrightarrow> \<not> stops t s"
  by (simp add: clean_block_def stops_def state_block_def availabilityBlock_def)

lemma update_mem_split:
  assumes "(m, Some x) \<in> set (au_model_states (updateAggregatedAvailability now a))"
  shows "\<exists>y. (m, Some y) \<in> set (au_model_states a) \<and> (x = y \<or> x = lift_expired now y)"
  using assms by (rule update_mem_Some) metis

lemma reaggregated:
  assumes "a = (if changed then c else if au_model_states c \<noteq> [] then updateAggregatedAvailability now c else c)" "now \<le> t"
  shows "au_disabled a = au_disabled c" "au_status a = au_status c" "credential_quota a t = credential_quota c t"
    and "(m, Some s) \<in> set (au_model_states a) \<Longrightarrow> \<exists>y. (m, Some y) \<in> set (au_model_states c) \<and> (s = y \<or> s = lift_expired now y)"
    and "au_model_states a = [] \<Longrightarrow> a = c"
    and "au_model_states a = [] \<longleftrightarrow> au_model_states c = []"
proof -
  show "au_disabled a = au_disabled c" "au_status a = au_status c" "credential_quota a t = credential_quota c t"
    using assms(2) by (simp_all add: assms(1) update_credential_quota)
  show "\<exists>y. (m, Some y) \<in> set (au_model_states c) \<and> (s = y \<or> s = lift_expired now y)" if "(m, Some s) \<in> set (au_model_states a)"
  proof (cases "a = c")
    case True then show ?thesis using that by blast
  next
    case False
    then have "a = updateAggregatedAvailability now c" using assms(1) by (simp split: if_splits)
    then show ?thesis using that update_mem_split by blast
  qed
  show "au_model_states a = [] \<longleftrightarrow> au_model_states c = []" "au_model_states a = [] \<Longrightarrow> a = c"
    by (auto simp: assms(1) update_states split: if_splits)
qed

lemma cleared:
  fixes now a
  defines "c \<equiv> fst (clearCooldownStateForAuth now a)"
  shows "now \<le> t \<Longrightarrow> \<not> credential_quota c t" "au_disabled c = au_disabled a" "au_status c = au_status a"
    and "(m, Some s) \<in> set (au_model_states c) \<Longrightarrow> clean_block s \<and> (\<exists>s0. (m, Some s0) \<in> set (au_model_states a) \<and> ms_status s = ms_status s0)"
    and "au_model_states c = [] \<Longrightarrow> \<not> au_unavailable c \<and> \<not> qs_exceeded (au_quota c)"
proof -
  let ?self = "needs_clearing (au_unavailable a) (au_next_retry_after a) (au_quota a)"
  let ?a1 = "if ?self then a\<lparr>au_unavailable := False, au_next_retry_after := 0,
                  au_quota := applyCooldownFields (au_quota a) empty_quota, au_updated_at := now\<rparr> else a"
  obtain a2 where a2: "a2 = ?a1\<lparr>au_model_states := map (\<lambda>(m, so). (m, map_option (clear_state now) so)) (au_model_states ?a1)\<rparr>" by blast
  have c: "c = (if False then a2 else if au_model_states a2 \<noteq> [] then updateAggregatedAvailability now a2 else a2)"
    unfolding c_def clearCooldownStateForAuth_def Let_def a2 by simp
  have q: "\<not> qs_exceeded (au_quota a2)" "\<not> au_unavailable a2" "au_disabled a2 = au_disabled a" "au_status a2 = au_status a"
    by (auto simp: needs_clearing_def a2)
  have st: "au_model_states a2 = map (\<lambda>(m, so). (m, map_option (clear_state now) so)) (au_model_states a)" by (simp add: a2)
  show "\<not> credential_quota c t" if "now \<le> t"
    using q(1) reaggregated(3) [OF c that] by (simp add: credential_quota_def)
  show "au_disabled c = au_disabled a" "au_status c = au_status a" using reaggregated(1,2) [OF c order_refl] q by simp_all
  show "\<not> au_unavailable c \<and> \<not> qs_exceeded (au_quota c)" if "au_model_states c = []"
    using q reaggregated(5) [OF c order_refl that] by simp
  show "clean_block s \<and> (\<exists>s0. (m, Some s0) \<in> set (au_model_states a) \<and> ms_status s = ms_status s0)"
    if m: "(m, Some s) \<in> set (au_model_states c)"
  proof -
    obtain y where y: "(m, Some y) \<in> set (au_model_states a2)" "s = y \<or> s = lift_expired now y"
      using reaggregated(4) [OF c order_refl m] by blast
    then obtain so where so: "(m, so) \<in> set (au_model_states a)" "Some y = map_option (clear_state now) so" unfolding st by auto
    then obtain s0 where s0: "(m, Some s0) \<in> set (au_model_states a)" "y = clear_state now s0" by (cases so) auto
    then have "clean_block y" "ms_status y = ms_status s0" using clear_clean by (auto simp: clear_state_def)
    then show ?thesis using y(2) s0(1) lift_clean lift_status(1) by metis
  qed
qed

lemma free_from_clean:
  assumes "\<not> au_disabled a" "au_status a \<noteq> StatusDisabled" "\<not> credential_quota a t" "model \<noteq> []"
    and "\<And>m s. (m, Some s) \<in> set (au_model_states a) \<Longrightarrow> canonicalModelKey m = canonicalModelKey model \<Longrightarrow> \<not> stops t s"
    and "au_model_states a = [] \<Longrightarrow> \<not> au_unavailable a \<and> \<not> qs_exceeded (au_quota a)"
  shows "\<not> fst (isAuthBlockedForModel (Some a) model t)"
proof -
  have "\<not> fst (auth_block a t)" if "au_model_states a = []"
    using assms(6) [OF that] by (simp add: auth_block_def availabilityBlock_def)
  moreover have "\<not> (\<exists>s \<in> set (matching (canonicalModelKey model) (au_model_states a)). stops t s)"
    using assms(5) by (auto simp: set_matching)
  ultimately show ?thesis using assms(1-4) by (auto simp: isAuthBlocked_iff)
qed

lemma reset_auth_free:
  assumes "\<not> au_disabled a" "au_status a \<noteq> StatusDisabled" "canonicalModelKey model \<noteq> []" "now \<le> t"
  shows "\<not> fst (isAuthBlockedForModel (Some (reset_auth now a)) model t)"
proof -
  obtain c changed where cc: "clearCooldownStateForAuth now (reset_states now a) = (c, changed)" by (cases "clearCooldownStateForAuth now (reset_states now a)")
  note c = cleared [where now = now and a = "reset_states now a", unfolded cc fst_conv]
  obtain a2 where a2: "a2 = (if changed then c else if au_model_states c \<noteq> [] then updateAggregatedAvailability now c else c)" by blast
  note u = reaggregated [OF a2 assms(4)]
  have r: "au_model_states (reset_auth now a) = au_model_states a2" "au_disabled (reset_auth now a) = au_disabled a2"
    "au_status (reset_auth now a) = StatusActive \<or> au_status (reset_auth now a) = au_status a2"
    "au_quota (reset_auth now a) = au_quota a2" "au_unavailable (reset_auth now a) = au_unavailable a2"
    by (simp_all add: reset_auth_def Let_def cc a2 [symmetric])
  have b: "au_disabled a2 = au_disabled a" "au_status a2 = au_status a"
    using c(2,3) u(1,2) by (simp_all add: reset_states_def)
  show ?thesis
  proof (rule free_from_clean)
    show "\<not> au_disabled (reset_auth now a)" using r(2) b(1) assms(1) by simp
    show "au_status (reset_auth now a) \<noteq> StatusDisabled" using r(3) b(2) assms(2) by (auto simp: status_defs)
    show "\<not> credential_quota (reset_auth now a) t" using c(1) [OF assms(4)] u(3) r(4) by (simp add: credential_quota_def)
    show "model \<noteq> []" using assms(3) by (auto simp: canonicalModelKey_def)
    show "\<not> au_unavailable (reset_auth now a) \<and> \<not> qs_exceeded (au_quota (reset_auth now a))"
      if "au_model_states (reset_auth now a) = []" using u(5) c(5) that r by simp
    fix m s assume "(m, Some s) \<in> set (au_model_states (reset_auth now a))" and m: "canonicalModelKey m = canonicalModelKey model"
    then obtain y where y: "(m, Some y) \<in> set (au_model_states c)" "s = y \<or> s = lift_expired now y" using u(4) r(1) by metis
    obtain s0 where s0: "clean_block y" "(m, Some s0) \<in> set (au_model_states (reset_states now a))" "ms_status y = ms_status s0"
      using c(4) [OF y(1)] by blast
    have "trim_space m \<noteq> []" using m assms(3) by (auto simp: canonicalModelKey_def)
    moreover obtain so where "(m, so) \<in> set (au_model_states a)" "Some s0 = (if trim_space m = [] then so else map_option (resetModelState now) so)"
      using s0(2) by (auto simp: reset_states_def)
    ultimately have "ms_status s0 = StatusActive" by (cases so) (auto simp: resetModelState_def)
    then show "\<not> stops t s" using y(2) s0(1,3) lift_clean [OF s0(1)] by (intro clean_free) (auto simp: status_defs)
  qed
qed

section \<open>Restoring a list of records\<close>

text \<open>The credential is blocked for the key at least until \<open>D\<close> by its retry instant and until \<open>Q\<close> by its quota.\<close>

definition held :: "string \<Rightarrow> time \<Rightarrow> time \<Rightarrow> Auth \<Rightarrow> bool" where
  "held key D Q a \<longleftrightarrow> (\<exists>s. (key, Some s) \<in> set (au_model_states a) \<and> ms_unavailable s \<and>
     D \<le> ms_next_retry_after s \<and> Q \<le> qs_next_recover_at (ms_quota s))"



lemma held_blocks:
  assumes "held key D Q a" "canonicalModelKey model = key" "canonicalModelKey key = key" "model \<noteq> []" "0 \<le> t" "t < max D Q"
  shows "fst (isAuthBlockedForModel (Some a) model t)"
proof -
  obtain s where s: "(key, Some s) \<in> set (au_model_states a)" "ms_unavailable s" "D \<le> ms_next_retry_after s"
      "Q \<le> qs_next_recover_at (ms_quota s)"
    using assms(1) by (auto simp: held_def)
  then have "s \<in> set (matching (canonicalModelKey model) (au_model_states a))" using assms(2,3) by (auto simp: set_matching)
  moreover have "stops t s" using s assms(5,6)
    by (auto simp: stops_def state_block_def availabilityBlock_def later_future_def Let_def)
  ultimately show ?thesis using s(1) assms(4) unfolding isAuthBlocked_iff by auto
qed

lemma update_held: "held key D Q a \<Longrightarrow> now < D \<Longrightarrow> held key D Q (updateAggregatedAvailability now a)"
proof -
  assume h: "held key D Q a" and n: "now < D"
  obtain s where s: "(key, Some s) \<in> set (au_model_states a)" "ms_unavailable s" "D \<le> ms_next_retry_after s"
      "Q \<le> qs_next_recover_at (ms_quota s)"
    using h by (auto simp: held_def)
  then have "lift_expired now s = s" using n lift_future [of now s] by simp
  then have "(key, Some s) \<in> set (au_model_states (updateAggregatedAvailability now a))"
    using s(1) by (auto simp: update_mem intro: exI [of _ "Some s"])
  then show ?thesis using s by (auto simp: held_def)
qed


lemma update_identity [simp]:
  "au_provider (updateAggregatedAvailability now a) = au_provider a" "au_attributes (updateAggregatedAvailability now a) = au_attributes a"
  "au_metadata (updateAggregatedAvailability now a) = au_metadata a"
  by (auto simp: updateAggregatedAvailability_def clearAggregatedAvailability_def Let_def)











section \<open>The credential of a result\<close>

text \<open>The manager knows the credential \<open>a\<close> of the result, and saving credentials does not fail.\<close>

definition recorded :: "environment \<Rightarrow> Manager \<Rightarrow> Result \<Rightarrow> Auth \<Rightarrow> bool" where
  "recorded E m result a \<longleftrightarrow> mget (mg_auths m) (re_auth_id result) = Some a \<and> re_auth_id result \<noteq> [] \<and>
     en_persist_fails E = (\<lambda>_. False)"

text \<open>The key of the result's model names a model: it is not empty and canonical itself.\<close>

definition plain_model :: "Result \<Rightarrow> string \<Rightarrow> bool" where
  "plain_model result key \<longleftrightarrow> canonicalModelKey (re_model result) = key \<and> canonicalModelKey key = key \<and> key \<noteq> []"

text \<open>The result is a failure that counts against a credential whose cooling is on.\<close>

definition cooling_failure :: "environment \<Rightarrow> Manager \<Rightarrow> Auth \<Rightarrow> Result \<Rightarrow> bool" where
  "cooling_failure E m a result \<longleftrightarrow> \<not> re_success result \<and> \<not> shouldSkipCredentialCooldown (en_json E) (re_error result) \<and>
     cools (cooldownDisabledForAuth m a) result \<and> retry_positive result \<and> transient_enabled (mg_transient_seconds m)"

lemma recorded_auth:
  assumes "recorded E m result a"
  shows "mget (mg_auths (fst (MarkResult E headers now result m))) (re_auth_id result) =
    Some (fst (mark_auth (en_json E) (mg_transient_seconds m) (cooldownDisabledForAuth m a) result headers now a))"
proof -
  obtain a' mk where "mark_auth (en_json E) (mg_transient_seconds m) (cooldownDisabledForAuth m a) result headers now a = (a', mk)"
    by (cases "mark_auth (en_json E) (mg_transient_seconds m) (cooldownDisabledForAuth m a) result headers now a")
  then show ?thesis using assms MarkResult_auth [of m result a E headers now a' mk] by (simp add: recorded_def)
qed

lemma failure_auth:
  assumes "recorded E m result a" "cooling_failure E m a result" "plain_model result key"
  obtains a' where "mget (mg_auths (fst (MarkResult E headers now result m))) (re_auth_id result) = Some a'"
    "a' = observe_quota result headers key now (fst (model_failure (mg_transient_seconds m) result key now False (counted result now a)))"
  using recorded_auth [OF assms(1)] mark_failure [of result "en_json E" "cooldownDisabledForAuth m a"] assms(2,3)
  by (auto simp: cooling_failure_def plain_model_def)

lemma saved_auths:
  "mg_auths (fst (case if b then persistCooldownStates E now m else (m, True) of (m3, saved) \<Rightarrow> (m3, f saved))) = mg_auths m"
  using persistCooldownStates_auths [of E now m] by (simp add: case_prod_unfold)

lemma observed_block [simp]:
  "isAuthBlockedForModel (Some (observe_quota result headers key now a)) model t = isAuthBlockedForModel (Some a) model t"
  by (rule same_availability_block [OF observe_quota_same])

lemma counted_block: "isAuthBlockedForModel (Some (counted result now a)) model t = isAuthBlockedForModel (Some a) model t"
  by (rule same_availability_block [OF counted_same])

section \<open>The window of a rate limit\<close>

text \<open>The window a rate limit should give its model, and the level of the backoff after it: a hint of the
  provider moves the end forward only and leaves the level, an open window is kept, and otherwise the
  window lasts \<open>2^n\<close> seconds at level \<open>n\<close>, at most half an hour, and the level rises by one up to 11.\<close>

definition rate_window :: "Result \<Rightarrow> QuotaState \<Rightarrow> time \<Rightarrow> time \<times> int" where
  "rate_window result q now =
     (case re_retry_after result of
        Some d \<Rightarrow> (if qs_exceeded q then max (now + d) (qs_next_recover_at q) else now + d, qs_backoff_level q)
      | None \<Rightarrow> if now < qs_next_recover_at q then (qs_next_recover_at q, qs_backoff_level q)
                else (now + min (2 ^ nat (qs_backoff_level q) * second) (30 * minute), min (qs_backoff_level q + 1) 11))"

lemma ladder_window:
  assumes "0 \<le> l" "l \<le> 11"
  shows "nextQuotaCooldown l False = (min (2 ^ nat l * second) (30 * minute), min (l + 1) 11)"
proof -
  have l: "l = int (min (nat l) 11)" "ladder (nat l) = l" using assms by (simp_all add: ladder_min)
  have "fst (nextQuotaCooldown l False) = min (2 ^ nat l * second) (30 * minute)" using ladder_cooldown [of "nat l"] l(2) by simp
  moreover have "snd (nextQuotaCooldown l False) = min (l + 1) 11"
    using nextQuotaCooldown_level [of "nat l"] assms by (auto simp: min_def)
  ultimately show ?thesis by (simp add: prod_eq_iff)
qed

lemma quota_failure_rate_window:
  assumes "ms_quota s = q" "re_retry_after result \<noteq> None \<or> 0 \<le> qs_backoff_level q \<and> qs_backoff_level q \<le> 11"
  shows "ms_next_retry_after (fst (quota_failure result key now False s a)) = fst (rate_window result q now)"
    "qs_next_recover_at (ms_quota (fst (quota_failure result key now False s a))) = fst (rate_window result q now)"
    "qs_backoff_level (ms_quota (fst (quota_failure result key now False s a))) = snd (rate_window result q now)"
proof -
  have L: "re_retry_after result = None \<Longrightarrow> nextQuotaCooldown (qs_backoff_level q) False =
      (min (2 ^ nat (qs_backoff_level q) * second) (30 * minute), min (qs_backoff_level q + 1) 11)"
    using assms(2) ladder_window by simp
  have p: "re_retry_after result = None \<Longrightarrow> 0 < min (2 ^ nat (qs_backoff_level q) * second) (30 * minute)"
    using nextQuotaCooldown_pos [of "qs_backoff_level q"] L by simp
  show "ms_next_retry_after (fst (quota_failure result key now False s a)) = fst (rate_window result q now)"
    "qs_next_recover_at (ms_quota (fst (quota_failure result key now False s a))) = fst (rate_window result q now)"
    "qs_backoff_level (ms_quota (fst (quota_failure result key now False s a))) = snd (rate_window result q now)"
    using assms(1) L p
    by (auto simp: quota_failure_def rate_window_def quotaCooldownAfterFailure_def later_def max_def Let_def split: option.splits prod.splits)
qed

lemma model_failure_window:
  assumes "statusCodeFromResult (re_error result) = 429" "\<not> isCloudflareChallengeResultError (re_error result)"
    and "retry_positive result" "0 < now"
    and k: "keys_canonical a" "canonicalModelKey key = key" "key \<noteq> []"
    and q: "q = ms_quota (model_state a key)"
    and lv: "re_retry_after result \<noteq> None \<or> 0 \<le> qs_backoff_level q \<and> qs_backoff_level q \<le> 11"
  shows "ms_next_retry_after (model_state (fst (model_failure seconds result key now False a)) key) = fst (rate_window result q now) \<and>
    qs_next_recover_at (ms_quota (model_state (fst (model_failure seconds result key now False a)) key)) = fst (rate_window result q now) \<and>
    qs_backoff_level (ms_quota (model_state (fst (model_failure seconds result key now False a)) key)) = snd (rate_window result q now) \<and>
    now < fst (rate_window result q now) \<and> held key (fst (rate_window result q now)) (fst (rate_window result q now)) (fst (model_failure seconds result key now False a))"
proof -
  let ?a0 = "ensureModelState a key"
  let ?s0 = "(model_state ?a0 key)\<lparr>ms_unavailable := True, ms_status := StatusError, ms_updated_at := now\<rparr>"
  obtain s1 a1 where s1: "(case re_error result of None \<Rightarrow> (?s0, ?a0)
             | Some e \<Rightarrow> (?s0\<lparr>ms_last_error := Some e, ms_status_message := er_message e\<rparr>,
                         ?a0\<lparr>au_last_error := Some e, au_status_message := er_message e\<rparr>)) = (s1, a1)"
    "ms_quota s1 = q" "ms_unavailable s1"
    by (cases "re_error result") (auto simp: ensure_model_state [OF k] q)
  obtain s2 a2 su sq where s2: "quota_failure result key now False s1 a1 = (s2, a2, su, sq)" by (metis prod_cases4)
  have sw: "model_failure_switch seconds result key now False s1 a1 = (s2, a2, su, sq)"
    using assms(1,2) s2 by (cases "re_error result")
      (simp_all add: model_failure_switch_def Let_def isModelSupportResultError_def isInvalidGrantResultError_def isInvalidAPIKeyResultError_def)
  have e: "ms_next_retry_after s2 = fst (rate_window result q now)" "qs_next_recover_at (ms_quota s2) = fst (rate_window result q now)"
    "qs_backoff_level (ms_quota s2) = snd (rate_window result q now)"
    using quota_failure_rate_window [OF s1(2) lv, of key now a1] s2 by simp_all
  have b: "stays_blocked now s2" using quota_failure_blocked [OF s1(3) assms(3), of now key a1] s2 by simp
  let ?p = "(put_model_state key s2 a2)\<lparr>au_status := StatusError, au_updated_at := now\<rparr>"
  have f: "fst (model_failure seconds result key now False a) = updateAggregatedAvailability now ?p"
    unfolding model_failure_def Let_def k(2) s1(1) prod.case sw by (simp add: settle_keeps [OF b assms(4)])
  have now: "now < ms_next_retry_after s2" using b by (simp add: stays_blocked_def)
  have "held key (ms_next_retry_after s2) (qs_next_recover_at (ms_quota s2)) ?p"
    using put_mem [of key s2 a2] b by (auto simp: held_def stays_blocked_def)
  then have "held key (ms_next_retry_after s2) (qs_next_recover_at (ms_quota s2)) (updateAggregatedAvailability now ?p)" by (rule update_held [OF _ now])
  then show ?thesis using update_model_state [of now s2] now e unfolding f by simp
qed

section \<open>Example\<close>

definition example_manager :: "Auth \<Rightarrow> Manager" where
  "example_manager a = \<lparr>mg_auths = [(au_id a, a)], mg_registry = newModelRegistry False, mg_config = None,
     mg_transient_seconds = 0, mg_quota_disabled = False, mg_has_cooldown_store = True, mg_has_scheduler = True, mg_events = []\<rparr>"

definition example_environment :: environment where
  "example_environment = \<lparr>en_json = \<lparr>json_valid = (\<lambda>_. False), json_get = (\<lambda>_ _. [])\<rparr>,
     en_persist_fails = (\<lambda>_. False), en_save_fails = (\<lambda>_. False)\<rparr>"

definition example_result :: "bool \<Rightarrow> int \<Rightarrow> Result" where
  "example_result ok status = \<lparr>re_auth_id = ''a'', re_provider = ''codex'', re_model = ''gpt-5(high)'', re_success = ok,
     re_retry_after = None, re_credential_scope = False,
     re_error = (if ok then None else Some \<lparr>er_code = [], er_message = ''slow down'', er_retryable = True, er_http_status = status\<rparr>),
     re_skip_observation = False\<rparr>"

definition example_auth :: Auth where
  "example_auth = (empty_auth ''a'')\<lparr>au_model_states := [(''gpt-5'', Some active_state), (''o3'', Some active_state)]\<rparr>"

lemma example_id: "re_auth_id (example_result ok n) = ''a''"
  by (simp add: example_result_def)

lemma example_recorded: "recorded example_environment (example_manager (empty_auth ''a'')) (example_result ok n) (empty_auth ''a'')"
  "recorded example_environment (example_manager example_auth) (example_result ok n) example_auth"
  by (simp_all add: recorded_def example_environment_def example_manager_def example_result_def empty_auth_def example_auth_def)

lemma example_model: "plain_model (example_result ok n) ''gpt-5''"
proof -
  have "canonicalModelKey ''gpt-5(high)'' = ''gpt-5''" "canonicalModelKey ''gpt-5'' = ''gpt-5''" by code_simp+
  then show ?thesis by (simp add: plain_model_def example_result_def)
qed

lemma example_failure:
  "cooling_failure example_environment (example_manager example_auth) example_auth (example_result False 429)"
  "cooling_failure example_environment (example_manager (empty_auth ''a'')) (empty_auth ''a'') (example_result False 429)"
proof -
  have "\<not> shouldSkipCredentialCooldown (en_json example_environment) (re_error (example_result False 429))"
    "\<not> cooldownDisabledForAuth (example_manager example_auth) example_auth"
    "\<not> cooldownDisabledForAuth (example_manager (empty_auth ''a'')) (empty_auth ''a'')"
    by code_simp+
  then show "cooling_failure example_environment (example_manager example_auth) example_auth (example_result False 429)"
    "cooling_failure example_environment (example_manager (empty_auth ''a'')) (empty_auth ''a'') (example_result False 429)"
    by (simp_all add: cooling_failure_def cools_def retry_positive_def transient_enabled_def example_result_def example_manager_def max_int64_def)
qed

lemma example_canonical: "keys_canonical example_auth" "quota_dated example_auth"
proof -
  have "canonicalModelKey ''gpt-5'' = ''gpt-5''" "canonicalModelKey ''o3'' = ''o3''" by code_simp+
  then show "keys_canonical example_auth" "quota_dated example_auth"
    by (simp_all add: keys_canonical_def quota_dated_def example_auth_def active_state_def empty_quota_def)
qed

section \<open>Properties\<close>

text \<open>C21. A failure that counts against a credential blocks its model, when the model has at most one suffix:
  from the moment it is recorded the credential is unavailable for the model, under every name with the
  same key, until an instant that lies in the future.\<close>

theorem failure_blocks_model:
  assumes "recorded E m result a" "cooling_failure E m a result" "plain_model result key" "0 < now"
    and "canonicalModelKey model = key"
  shows "\<exists>a' D. mget (mg_auths (fst (MarkResult E headers now result m))) (re_auth_id result) = Some a' \<and> now < D \<and>
    (\<forall>t. now \<le> t \<longrightarrow> t < D \<longrightarrow> fst (isAuthBlockedForModel (Some a') model t))"
proof -
  from failure_auth [OF assms(1-3)] obtain a' where a': "mget (mg_auths (fst (MarkResult E headers now result m))) (re_auth_id result) = Some a'"
    "a' = observe_quota result headers key now (fst (model_failure (mg_transient_seconds m) result key now False (counted result now a)))" by blast
  have "\<exists>D > now. \<forall>t. now \<le> t \<longrightarrow> t < D \<longrightarrow>
    fst (isAuthBlockedForModel (Some (fst (model_failure (mg_transient_seconds m) result key now False (counted result now a)))) model t)"
    by (rule model_failure_blocked) (use assms in \<open>auto simp: cooling_failure_def plain_model_def\<close>)
  then show ?thesis using a' by auto
qed

theorem failure_blocks_model_witness:
  "\<exists>a' D. mget (mg_auths (fst (MarkResult example_environment [] 100 (example_result False 429) (example_manager example_auth)))) ''a'' = Some a' \<and>
    100 < D \<and> (\<forall>t. 100 \<le> t \<longrightarrow> t < D \<longrightarrow> fst (isAuthBlockedForModel (Some a') ''gpt-5(low)'' t))"
proof -
  have "canonicalModelKey ''gpt-5(low)'' = ''gpt-5''" by code_simp
  from failure_blocks_model [OF example_recorded(2) example_failure(1) example_model _ this, of 100 "[]"]
  show ?thesis by (simp add: example_result_def)
qed

text \<open>C12. The window of a rate limit, as \<open>rate_window\<close> says: a hint of the provider sets the end of the window of
  the model, never earlier than the one it has, and keeps the level of the backoff. Without a hint a
  failure inside an open window changes neither the end nor the level, so that a burst of failures of
  concurrent requests counts once; a failure after it opens a window of \<open>2^n\<close> seconds at level \<open>n\<close>,
  at most half an hour, and the next level. The model is blocked until the end.\<close>

theorem rate_limit_window:
  assumes "recorded E m result a" "cooling_failure E m a result" "plain_model result key" "0 < now"
    and "statusCodeFromResult (re_error result) = 429" "\<not> isCloudflareChallengeResultError (re_error result)"
    and "keys_canonical a" "q = ms_quota (model_state a key)" "0 \<le> qs_backoff_level q" "qs_backoff_level q \<le> 11"
    and "canonicalModelKey model = key"
  shows "\<exists>a'. mget (mg_auths (fst (MarkResult E headers now result m))) (re_auth_id result) = Some a' \<and>
    ms_next_retry_after (model_state a' key) = fst (rate_window result q now) \<and>
    qs_next_recover_at (ms_quota (model_state a' key)) = fst (rate_window result q now) \<and>
    qs_backoff_level (ms_quota (model_state a' key)) = snd (rate_window result q now) \<and> now < fst (rate_window result q now) \<and>
    (\<forall>t. now \<le> t \<longrightarrow> t < fst (rate_window result q now) \<longrightarrow> fst (isAuthBlockedForModel (Some a') model t))"
proof -
  from failure_auth [OF assms(1-3)] obtain a' where a': "mget (mg_auths (fst (MarkResult E headers now result m))) (re_auth_id result) = Some a'"
    "a' = observe_quota result headers key now (fst (model_failure (mg_transient_seconds m) result key now False (counted result now a)))" by blast
  let ?f = "fst (model_failure (mg_transient_seconds m) result key now False (counted result now a))"
  have k: "keys_canonical (counted result now a)" "q = ms_quota (model_state (counted result now a) key)" "canonicalModelKey key = key" "key \<noteq> []"
    "retry_positive result" "model \<noteq> []"
    using assms(2,3,7,8,11) by (auto simp: keys_canonical_def model_state_def plain_model_def cooling_failure_def canonicalModelKey_def)
  note W = model_failure_window [OF assms(5,6) k(5) assms(4) k(1,3,4,2) disjI2 [OF conjI [OF assms(9,10)]], of "mg_transient_seconds m"]
  have "fst (isAuthBlockedForModel (Some a') model t)" if "now \<le> t" "t < fst (rate_window result q now)" for t
    using held_blocks [of key "fst (rate_window result q now)" "fst (rate_window result q now)" ?f model t] W assms(4,11) k(3,6) that
    by (simp add: a'(2) observed_block)
  then show ?thesis using a' W by (simp add: observe_model_state)
qed

theorem rate_limit_window_witness:
  "\<exists>a'. mget (mg_auths (fst (MarkResult example_environment [] 100 (example_result False 429) (example_manager example_auth)))) ''a'' = Some a' \<and>
    ms_next_retry_after (model_state a' ''gpt-5'') = 100 + second \<and> qs_backoff_level (ms_quota (model_state a' ''gpt-5'')) = 1 \<and>
    fst (isAuthBlockedForModel (Some a') ''gpt-5(low)'' (99 + second))"
proof -
  have s: "statusCodeFromResult (re_error (example_result False 429)) = 429"
    "\<not> isCloudflareChallengeResultError (re_error (example_result False 429))"
    "rate_window (example_result False 429) (ms_quota (model_state example_auth ''gpt-5'')) 100 = (100 + second, 1)"
    "qs_backoff_level (ms_quota (model_state example_auth ''gpt-5'')) = 0" "canonicalModelKey ''gpt-5(low)'' = ''gpt-5''" by code_simp+
  have t: "(0::int) < 100" "(0::int) \<le> 0" "(0::int) \<le> 11" "(100::int) \<le> 99 + second" "99 + second < 100 + second" by (simp_all add: second_def)
  from rate_limit_window [OF example_recorded(2) example_failure(1) example_model t(1) s(1,2) example_canonical(1) refl _ _ s(5), of "[]"] t
  show ?thesis unfolding s(3,4) fst_conv snd_conv example_id by blast
qed

text \<open>The backoff is bounded and doubles: every rate-limit cooldown, whatever the recorded level,
  lasts between one second and half an hour, and the \<open>n\<close>-th in a row lasts \<open>2^n\<close> seconds up to that
  limit.\<close>

theorem backoff_ladder:
  "quotaBackoffBase \<le> fst (nextQuotaCooldown level False) \<and> fst (nextQuotaCooldown level False) \<le> quotaBackoffMax \<and>
    fst (nextQuotaCooldown (((\<lambda>l. snd (nextQuotaCooldown l False)) ^^ n) 0) False) = min (2 ^ n * second) (30 * minute)"
  using nextQuotaCooldown_range [of level] ladder_cooldown [of n] by (simp add: ladder_def)

text \<open>C22. A success frees its model: unless the credential-wide quota holds, a successful result makes
  an enabled credential available for the model at once, whatever cooldown was recorded for it.\<close>

theorem success_frees_model:
  assumes "recorded E m result a" "re_success result" "plain_model result key" "canonicalModelKey model = key"
    and "keys_canonical a" "\<not> au_disabled a" "au_status a \<noteq> StatusDisabled"
    and "\<not> (qs_reason (au_quota a) = ''credential_quota'' \<and> now < qs_next_recover_at (au_quota a))" "now \<le> t"
  shows "\<exists>a'. mget (mg_auths (fst (MarkResult E headers now result m))) (re_auth_id result) = Some a' \<and>
    \<not> fst (isAuthBlockedForModel (Some a') model t)"
proof -
  have "keys_canonical (counted result now a)" using assms(5) by (simp add: keys_canonical_def)
  moreover have "\<not> credential_quota (counted result now a) now" using assms(8) by (auto simp: credential_quota_def)
  ultimately have "\<not> fst (isAuthBlockedForModel (Some (model_success key now (counted result now a))) model t)"
    using assms by (intro model_success_free) (auto simp: plain_model_def)
  then show ?thesis
    using recorded_auth [OF assms(1), of headers now] mark_success [OF assms(2) _ assms(8)] assms(3) by (auto simp: plain_model_def)
qed

theorem success_frees_model_witness:
  "\<exists>a'. mget (mg_auths (fst (MarkResult example_environment [] 100 (example_result True 0) (example_manager example_auth)))) ''a'' = Some a' \<and>
    \<not> fst (isAuthBlockedForModel (Some a') ''gpt-5(low)'' 100)"
proof -
  have "canonicalModelKey ''gpt-5(low)'' = ''gpt-5''" by code_simp
  moreover have "re_success (example_result True 0)" "re_auth_id (example_result True 0) = ''a''" by (simp_all add: example_result_def)
  ultimately show ?thesis
    using success_frees_model [OF example_recorded(2) _ example_model _ example_canonical(1), of True 0 "''gpt-5(low)''" 100 100 "[]"]
    by (simp add: example_auth_def empty_auth_def status_defs empty_quota_def)
qed

text \<open>C19. A failure stays local: unless it concerns the whole credential, an invalid key or a rate
  limit of credential scope, it blocks no other model of the credential, although the aggregated
  state of the credential changes.\<close>

theorem failure_is_local:
  assumes "recorded E m result a" "\<not> re_success result" "plain_model result key"
    and "canonicalModelKey model \<noteq> key" "canonicalModelKey model \<noteq> []"
    and "\<not> credential_wide result" "keys_canonical a" "quota_dated a" "now \<le> t"
    and "\<not> fst (isAuthBlockedForModel (Some a) model t)"
  shows "\<exists>a'. mget (mg_auths (fst (MarkResult E headers now result m))) (re_auth_id result) = Some a' \<and>
    \<not> fst (isAuthBlockedForModel (Some a') model t)"
proof -
  let ?c = "counted result now a"
  let ?d = "cooldownDisabledForAuth m a \<and> \<not> force_cooldown (re_error result)"
  have k: "keys_canonical ?c" "quota_dated ?c" using assms(7,8) by (simp_all add: keys_canonical_def quota_dated_def)
  have f: "\<not> fst (isAuthBlockedForModel (Some ?c) model t)" using assms(10) counted_block by simp
  have "\<not> fst (isAuthBlockedForModel (Some (fst (model_failure (mg_transient_seconds m) result key now ?d ?c))) model t)"
    by (rule model_failure_others [OF k(1) _ _ assms(4,5,6) k(2) assms(9) f]) (use assms(3) in \<open>auto simp: plain_model_def\<close>)
  then show ?thesis
    using recorded_auth [OF assms(1), of headers now] f assms(2,3)
    by (auto simp: mark_auth_counted Let_def plain_model_def split: prod.splits)
qed

theorem failure_is_local_witness:
  "\<exists>a'. mget (mg_auths (fst (MarkResult example_environment [] 100 (example_result False 500) (example_manager example_auth)))) ''a'' = Some a' \<and>
    \<not> fst (isAuthBlockedForModel (Some a') ''o3(low)'' 100)"
proof -
  have c: "canonicalModelKey ''o3(low)'' \<noteq> ''gpt-5''" "canonicalModelKey ''o3(low)'' \<noteq> []"
    "\<not> credential_wide (example_result False 500)" "\<not> fst (isAuthBlockedForModel (Some example_auth) ''o3(low)'' 100)"
    "\<not> re_success (example_result False 500)" by code_simp+
  show ?thesis
    using failure_is_local [OF example_recorded(2) c(5) example_model c(1-3) example_canonical order_refl c(4), of "[]"]
    unfolding example_id .
qed

text \<open>C23. A rate limit of credential scope blocks the credential for every model, known or not, until
  an instant in the future.\<close>

theorem credential_scope_blocks_all:
  assumes "recorded E m result a" "cooling_failure E m a result" "plain_model result key" "0 < now"
    and "statusCodeFromResult (re_error result) = 429" "\<not> isCloudflareChallengeResultError (re_error result)"
    and "re_credential_scope result"
  shows "\<exists>a' D. mget (mg_auths (fst (MarkResult E headers now result m))) (re_auth_id result) = Some a' \<and> now < D \<and>
    (\<forall>t model. now \<le> t \<longrightarrow> t < D \<longrightarrow> fst (isAuthBlockedForModel (Some a') model t))"
proof -
  from failure_auth [OF assms(1-3)] obtain a' where a': "mget (mg_auths (fst (MarkResult E headers now result m))) (re_auth_id result) = Some a'"
    "a' = observe_quota result headers key now (fst (model_failure (mg_transient_seconds m) result key now False (counted result now a)))" by blast
  have "retry_positive result" using assms(2) by (simp add: cooling_failure_def)
  from scope_failure_blocks [OF assms(5,7,6) this assms(4)] show ?thesis using a' by (metis observed_block)
qed

theorem credential_scope_blocks_all_witness:
  "\<exists>a' D. mget (mg_auths (fst (MarkResult example_environment [] 100 ((example_result False 429)\<lparr>re_credential_scope := True\<rparr>)
      (example_manager example_auth)))) ''a'' = Some a' \<and> 100 < D \<and>
    (\<forall>t model. 100 \<le> t \<longrightarrow> t < D \<longrightarrow> fst (isAuthBlockedForModel (Some a') model t))"
proof -
  let ?r = "(example_result False 429)\<lparr>re_credential_scope := True\<rparr>"
  have r: "recorded example_environment (example_manager example_auth) ?r example_auth" "plain_model ?r ''gpt-5''"
    "cooling_failure example_environment (example_manager example_auth) example_auth ?r" "re_auth_id ?r = ''a''"
    using example_recorded(2) [of False 429] example_model [of False 429] example_failure(1) example_id [of False 429]
    by (simp_all add: recorded_def plain_model_def cooling_failure_def cools_def retry_positive_def)
  have s: "statusCodeFromResult (re_error ?r) = 429" "\<not> isCloudflareChallengeResultError (re_error ?r)" "re_credential_scope ?r" by code_simp+
  have "(0::int) < 100" by simp
  from credential_scope_blocks_all [OF r(1,3,2) this s, of "[]"] show ?thesis unfolding r(4) .
qed

text \<open>C24. An excused failure, a fault of the request, of the connection or of the item it names, changes
  the availability of its credential for no model: only the counters move.\<close>

theorem excused_failure_keeps_availability:
  assumes "recorded E m result a" "\<not> re_success result" "shouldSkipCredentialCooldown (en_json E) (re_error result)"
  shows "\<exists>a'. mget (mg_auths (fst (MarkResult E headers now result m))) (re_auth_id result) = Some a' \<and>
    isAuthBlockedForModel (Some a') model t = isAuthBlockedForModel (Some a) model t \<and> au_failed a' = au_failed a + 1"
proof -
  let ?a = "fst (mark_auth (en_json E) (mg_transient_seconds m) (cooldownDisabledForAuth m a) result headers now a)"
  have "?a = observe_quota result headers (canonicalModelKey (re_model result)) now (counted result now a)"
    using assms(2,3) by (simp add: mark_auth_counted Let_def applyAuthFailureState_def)
  then have "au_failed ?a = au_failed a + 1"
    using assms(2) by (auto simp: observe_quota_def counted_def recordRecentRequest_def put_model_state_def Let_def split: option.splits)
  then show ?thesis
    using recorded_auth [OF assms(1), of headers now] same_availability_block [OF mark_skipped [OF assms(2,3)]] by auto
qed

theorem excused_failure_keeps_availability_witness:
  "\<exists>a'. mget (mg_auths (fst (MarkResult example_environment [] 100 (example_result False 400) (example_manager example_auth)))) ''a'' = Some a' \<and>
    isAuthBlockedForModel (Some a') ''gpt-5'' 100 = isAuthBlockedForModel (Some example_auth) ''gpt-5'' 100 \<and>
    au_failed a' = au_failed example_auth + 1"
proof -
  have s: "shouldSkipCredentialCooldown (en_json example_environment) (re_error (example_result False 400))"
    "\<not> re_success (example_result False 400)" by code_simp+
  show ?thesis
    using excused_failure_keeps_availability [OF example_recorded(2) s(2,1), of "[]" 100 "''gpt-5''" 100] unfolding example_id .
qed


definition cooling_auth :: Auth where
  "cooling_auth = (empty_auth ''a'')\<lparr>au_model_states := [(''gpt-5'', Some (witness_model_state 100))]\<rparr>"


text \<open>C25. Resetting the quota of an enabled credential makes it available for every model at once.\<close>

theorem ResetQuota_frees:
  assumes "mget (mg_auths m) (trim_space authID) = Some a" "trim_space authID \<noteq> []" "en_persist_fails E = (\<lambda>_. False)"
    and "\<not> au_disabled a" "au_status a \<noteq> StatusDisabled" "canonicalModelKey model \<noteq> []" "now \<le> t"
  shows "\<exists>a'. mget (mg_auths (fst (ResetQuota E authID now m))) (trim_space authID) = Some a' \<and>
    \<not> fst (isAuthBlockedForModel (Some a') model t)"
proof -
  have "mget (mg_auths (fst (ResetQuota E authID now m))) (trim_space authID) = Some (reset_auth now a)"
    using assms(1-3) by (simp add: ResetQuota_def Let_def saved_auths)
  then show ?thesis using reset_auth_free [OF assms(4-7)] by blast
qed

theorem ResetQuota_frees_witness:
  "\<exists>a'. mget (mg_auths (fst (ResetQuota example_environment ''a'' 50 (example_manager cooling_auth)))) (trim_space ''a'') = Some a' \<and>
    \<not> fst (isAuthBlockedForModel (Some a') ''gpt-5(low)'' 60)"
proof -
  have c: "canonicalModelKey ''gpt-5(low)'' \<noteq> []" "trim_space ''a'' \<noteq> []" "au_status cooling_auth \<noteq> StatusDisabled" "\<not> au_disabled cooling_auth"
    by code_simp+
  have t: "trim_space ''a'' = ''a''" by code_simp
  have m: "mget (mg_auths (example_manager cooling_auth)) (trim_space ''a'') = Some cooling_auth" "en_persist_fails example_environment = (\<lambda>_. False)"
    unfolding t by (simp_all add: example_manager_def cooling_auth_def empty_auth_def example_environment_def)
  show ?thesis by (rule ResetQuota_frees [OF m(1) c(2) m(2) c(4,3,1)]) simp
qed

definition two_models :: ModelRegistry where
  "two_models = RegisterClient (newModelRegistry False) ''a'' ''codex'' (map (\<lambda>i. Some (empty_model_info i)) [''gpt-5'', ''o3'']) 10"

definition invalid_key_result :: Result where
  "invalid_key_result = (example_result False 400)\<lparr>re_error := Some \<lparr>er_code = [], er_message = ''API key not valid'', er_retryable = False, er_http_status = 400\<rparr>\<rparr>"

definition after_reset :: Manager where
  "after_reset = fst (ResetQuota example_environment ''a'' 60
     (fst (MarkResult example_environment [] 50 invalid_key_result ((example_manager (empty_auth ''a''))\<lparr>mg_registry := two_models\<rparr>))))"

text \<open>Resetting the quota leaves models suspended in the registry. An invalid key suspends every
  registered model of the credential, while \<open>ResetQuota\<close> resumes only those the credential has a state
  for: here \<open>o3\<close> stays suspended, although the credential is available for it.\<close>

theorem ResetQuota_leaves_suspended:
  "GetClientModelSuspensionReason (mg_registry after_reset) ''a'' ''o3'' = ''invalid_api_key'' \<and>
   GetClientModelSuspensionReason (mg_registry after_reset) ''a'' ''gpt-5'' = [] \<and>
   \<not> fst (isAuthBlockedForModel (mget (mg_auths after_reset) ''a'') ''o3'' 60)"
  by code_simp

text \<open>A model name with two suffixes escapes its cooldown: recording the failure strips both
  suffixes from the key, and looking the model up strips one, so that the failed model is not blocked
  while the bare model is.\<close>

theorem nested_suffix_unblocked:
  "\<exists>a'. mget (mg_auths (fst (MarkResult example_environment [] 100 ((example_result False 429)\<lparr>re_model := ''m(a)(b)''\<rparr>)
      (example_manager (empty_auth ''a''))))) ''a'' = Some a' \<and>
    \<not> fst (isAuthBlockedForModel (Some a') ''m(a)(b)'' 101) \<and> fst (isAuthBlockedForModel (Some a') ''m'' 101)"
proof -
  let ?m = "fst (MarkResult example_environment [] 100 ((example_result False 429)\<lparr>re_model := ''m(a)(b)''\<rparr>) (example_manager (empty_auth ''a'')))"
  have "(case mget (mg_auths ?m) ''a'' of None \<Rightarrow> False
     | Some a' \<Rightarrow> \<not> fst (isAuthBlockedForModel (Some a') ''m(a)(b)'' 101) \<and> fst (isAuthBlockedForModel (Some a') ''m'' 101))"
    by code_simp
  then show ?thesis by (simp split: option.splits)
qed

text \<open>A rate limit and an exhausted account are never excused: whatever the body of the answer
  says, such a failure counts against the credential, unless its code marks it as a fault of the
  request or of the connection.\<close>

theorem rate_limit_never_excused:
  assumes "statusCodeFromResult (Some e) \<in> {402, 429}"
    and "er_code e \<noteq> ErrorCodeRequestScoped" "er_code e \<noteq> ErrorCodeConnectionLifecycle"
  shows "\<not> shouldSkipCredentialCooldown J (Some e)"
  using assms
  by (auto simp: shouldSkipCredentialCooldown_def isRequestScopedResultError_def isRequestScopedNotFoundResultError_def
      isRequestInvalidError_def IsRequestScoped_def IsRequestFault_def isConnectionLifecycleResultError_def statusCodeFromResult_def)

theorem rate_limit_never_excused_witness:
  "\<forall>J. \<not> shouldSkipCredentialCooldown J (Some \<lparr>er_code = [], er_message = ''context canceled'', er_retryable = False, er_http_status = 429\<rparr>)"
  by (intro allI, rule rate_limit_never_excused)
    (simp_all add: statusCodeFromResult_def ErrorCodeRequestScoped_def ErrorCodeConnectionLifecycle_def)

end
