(* ===== verification/Retry_Rounds.thy ===== *)
theory Retry_Rounds
  imports Credential_Pick Cooldown_Properties
begin

text \<open>
  The rounds of a request (\<open>sdk/cliproxy/auth/conductor_selection.go\<close>, \<open>conductor_execution.go\<close>,
  \<open>types.go\<close>): how often a credential may be retried, whether another round is worth while, how long
  to wait for it, and which credentials it leaves out. A request is a local one, so the branches for
  Home are left out; the jitter of a wait is an argument.
\<close>

section \<open>Limits\<close>

text \<open>A signed integer stands for the types \<open>int\<close>, \<open>int32\<close> and \<open>int64\<close>, which JSON metadata hold none
  of. A float that no integer represents converts to the smallest one, as on amd64.\<close>

definition go_int_of_float :: "gofloat \<Rightarrow> int" where
  "go_int_of_float f = (case f of FInt i \<Rightarrow> if int64 i then i else min_int64 | FFrac i \<Rightarrow> if int64 i then i else min_int64
     | _ \<Rightarrow> min_int64)"

definition parseIntAny :: "meta_value \<Rightarrow> int option" where
  "parseIntAny v = (case v of
     MInt i \<Rightarrow> Some i
   | MFloat f \<Rightarrow> Some (go_int_of_float f)
   | MNumber s \<Rightarrow> parse_int64 s
   | MStr s \<Rightarrow> (let t = trim_space s in if t = [] then None else parse_int64 t)
   | _ \<Rightarrow> None)"

definition RequestRetryOverride :: "Auth \<Rightarrow> int option" where
  "RequestRetryOverride a =
     (let get = (\<lambda>k. case mget (au_metadata a) k of None \<Rightarrow> None | Some v \<Rightarrow> parseIntAny v) in
      case or_else (get ''request_retry'') (get ''request-retry'') of
        None \<Rightarrow> None | Some n \<Rightarrow> if n < 0 then None else Some n)"

definition effectiveRequestRetryLimit :: "Auth \<Rightarrow> int \<Rightarrow> int" where
  "effectiveRequestRetryLimit a defaultRetry =
     (case RequestRetryOverride a of Some n \<Rightarrow> n | None \<Rightarrow> max 0 defaultRetry)"

definition requestRetryRoundExclusions :: "int \<Rightarrow> int \<Rightarrow> Conductor \<Rightarrow> string list" where
  "requestRetryRoundExclusions retryRound defaultRequestRetry c =
     (if retryRound \<le> 0 then []
      else map au_id (filter (\<lambda>a. trim_space (au_id a) \<noteq> [] \<and>
             effectiveRequestRetryLimit a (max 0 defaultRequestRetry) < retryRound) (cd_auths c)))"

section \<open>Whether a credential can serve another round\<close>

definition isCredentialRetryRoundStatus :: "int \<Rightarrow> bool" where
  "isCredentialRetryRoundStatus status \<longleftrightarrow> status \<in> {403, 408, 429, 500, 502, 503, 504}"

definition credentialRetryRoundStateEligible :: "Error option \<Rightarrow> bool \<Rightarrow> bool" where
  "credentialRetryRoundStateEligible lastErr quotaExceeded =
     (case lastErr of None \<Rightarrow> quotaExceeded | Some _ \<Rightarrow> isCredentialRetryRoundStatus (statusCodeFromResult lastErr))"

text \<open>The loop over the states of the model: nothing for a state that rules the credential out, else
  whether one blocks.\<close>

definition retry_state_step :: "string \<Rightarrow> time \<Rightarrow> bool option \<Rightarrow> string \<times> ModelState option \<Rightarrow> bool option" where
  "retry_state_step modelKey now acc entry =
     (case acc of None \<Rightarrow> None
      | Some matched \<Rightarrow>
         (case snd entry of None \<Rightarrow> acc
          | Some s \<Rightarrow>
              if canonicalModelKey (fst entry) \<noteq> modelKey then acc
              else if ms_status s = StatusDisabled then None
              else let (blocked, _, nxt) = availabilityBlock (ms_unavailable s) (qs_exceeded (ms_quota s))
                         (ms_next_retry_after s) (qs_next_recover_at (ms_quota s)) now
                in if \<not> blocked then acc
                   else if nxt = 0 \<or> \<not> credentialRetryRoundStateEligible (ms_last_error s) (qs_exceeded (ms_quota s)) then None
                   else Some True))"

definition retryRoundAvailabilityForAuth :: "Auth \<Rightarrow> string \<Rightarrow> time \<Rightarrow> bool \<times> time" where
  "retryRoundAvailabilityForAuth a model now =
     (let (blocked, reason, nxt) = isAuthBlockedForModel (Some a) model now in
      if \<not> blocked then (True, 0)
      else if nxt = 0 \<or> reason = blockReasonDisabled then (False, 0)
      else if qs_exceeded (au_quota a) \<and> qs_reason (au_quota a) = ''credential_quota'' \<and> qs_next_recover_at (au_quota a) > now
      then (credentialRetryRoundStateEligible (au_last_error a) True, nxt)
      else let modelKey = canonicalModelKey model;
               scan = (if modelKey \<noteq> [] \<and> au_model_states a \<noteq> []
                 then foldl (retry_state_step modelKey now) (Some False) (au_model_states a) else Some False)
        in case scan of None \<Rightarrow> (False, 0)
           | Some True \<Rightarrow> (True, nxt)
           | Some False \<Rightarrow>
               if \<not> credentialRetryRoundStateEligible (au_last_error a) (qs_exceeded (au_quota a)) then (False, 0) else (True, nxt))"

section \<open>Whether another round is worth while\<close>

text \<open>The credentials that a further attempt could use: the condition of the loops of \<open>retryAllowed\<close> and
  \<open>closestCooldownWait\<close>.\<close>

definition retry_candidate :: "string list \<Rightarrow> sched_request \<Rightarrow> int \<Rightarrow> int \<Rightarrow> Conductor \<Rightarrow> Auth \<Rightarrow> bool" where
  "retry_candidate providers q attempt defaultRequestRetry c a \<longleftrightarrow>
     \<not> au_disabled a \<and> au_status a \<noteq> StatusDisabled \<and>
     (pinnedAuthIDFromMetadata (sq_metadata q) \<noteq> [] \<longrightarrow> au_id a = pinnedAuthIDFromMetadata (sq_metadata q)) \<and>
     allows (authSelectionEligibilityForRequest q) a \<and>
     executorKeyFromAuth a \<in> set (provider_set providers) \<and>
     (sq_model q \<noteq> [] \<longrightarrow> authSupportsRouteModel (cd_aliases c) (mg_registry (cd_manager c)) a (sq_model q)) \<and>
     attempt < effectiveRequestRetryLimit a (max 0 defaultRequestRetry)"

definition retry_availability :: "sched_request \<Rightarrow> time \<Rightarrow> Conductor \<Rightarrow> Auth \<Rightarrow> bool \<times> time" where
  "retry_availability q now c a =
     retryRoundAvailabilityForAuth a
       (if trim_space (sq_model q) \<noteq> [] then selectionModelForAuth (cd_aliases c) a (sq_model q) else sq_model q) now"

definition retryAllowed :: "time \<Rightarrow> int \<Rightarrow> string list \<Rightarrow> sched_request \<Rightarrow> int \<Rightarrow> Conductor \<Rightarrow> bool" where
  "retryAllowed now attempt providers q defaultRequestRetry c \<longleftrightarrow>
     attempt \<ge> 0 \<and> provider_set providers \<noteq> [] \<and>
     list_ex (\<lambda>a. retry_candidate providers q attempt defaultRequestRetry c a \<and> fst (retry_availability q now c a)) (cd_auths c)"

text \<open>The waits the loop compares; it stops at a credential that is available now.\<close>

fun closest_wait :: "(Auth \<Rightarrow> bool \<times> time) \<Rightarrow> time \<Rightarrow> duration option \<Rightarrow> Auth list \<Rightarrow> duration option" where
  "closest_wait avail now found [] = found"
| "closest_wait avail now found (a # as) =
     (let (ok, nxt) = avail a; wait = time_sub nxt now in
      if \<not> ok then closest_wait avail now found as
      else if nxt = 0 then Some 0
      else if wait < 0 then closest_wait avail now found as
      else closest_wait avail now
        (case found of None \<Rightarrow> Some wait | Some w \<Rightarrow> if wait < w then Some wait else Some w) as)"

definition closestCooldownWait :: "time \<Rightarrow> string list \<Rightarrow> sched_request \<Rightarrow> int \<Rightarrow> int \<Rightarrow> Conductor \<Rightarrow> duration option" where
  "closestCooldownWait now providers q attempt defaultRequestRetry c =
     (if providers = [] then None
      else closest_wait (retry_availability q now c) now None
        (filter (retry_candidate providers q attempt defaultRequestRetry c) (cd_auths c)))"

text \<open>Two readings of the clock.\<close>

definition shouldRetryAfterError ::
  "json_lib \<Rightarrow> clock \<Rightarrow> Failure \<Rightarrow> int \<Rightarrow> string list \<Rightarrow> sched_request \<Rightarrow> duration \<Rightarrow> int \<Rightarrow> Conductor \<Rightarrow> duration option" where
  "shouldRetryAfterError J clk f attempt providers q maxWait defaultRequestRetry c =
     (let status = statusCodeFromError f; within = (\<lambda>w. \<not> (w > 0 \<and> (maxWait \<le> 0 \<or> w > maxWait))) in
      if status = 200 then None
      else if isRequestInvalidFailure J f \<or> fl_stop f then None
      else if \<not> isCredentialRetryRoundStatus status \<or> \<not> retryAllowed (clk 0) attempt providers q defaultRequestRetry c then None
      else case closestCooldownWait (clk 1) providers q attempt defaultRequestRetry c of
        Some w \<Rightarrow> if within w then Some w else None
      | None \<Rightarrow>
          (case retryAfterFromError f of
             Some w \<Rightarrow> if w < 0 \<or> \<not> within w then None else Some w
           | None \<Rightarrow> Some 0))"

section \<open>Waiting\<close>

definition cooldownWaitJitterCap :: duration where "cooldownWaitJitterCap = 2 * second"

text \<open>\<open>draw\<close> is \<open>rand.N\<close>, a number from 0 up to but not including its argument.\<close>

definition jitteredCooldownWait :: "(duration \<Rightarrow> duration) \<Rightarrow> duration \<Rightarrow> duration \<Rightarrow> duration" where
  "jitteredCooldownWait draw wait maxWait =
     (if wait \<le> 0 then wait
      else let j0 = wait div 4;
               j1 = (if j0 > cooldownWaitJitterCap then cooldownWaitJitterCap else j0);
               j = (if maxWait > 0 \<and> j1 > maxWait - wait then maxWait - wait else j1)
        in if j \<le> 0 then wait else wait + draw j)"

definition resetRetryRoundExclusions :: "string list \<Rightarrow> string list \<Rightarrow> Failure \<Rightarrow> duration \<Rightarrow> Conductor \<Rightarrow> string list" where
  "resetRetryRoundExclusions tried preserve f wait c =
     (if tried = [] then tried
      else if wait \<le> 0 \<and> statusCodeFromError f \<noteq> 429 then preserve
      else if mg_quota_disabled (cd_manager c) then tried
      else filter (\<lambda>i. case mget (mg_auths (cd_manager c)) i of None \<Rightarrow> False
             | Some a \<Rightarrow> cooldownDisabledForAuth (cd_manager c) a) tried @ preserve)"

section \<open>The wait is the earliest recovery\<close>

lemma retry_available:
  assumes "retryRoundAvailabilityForAuth a model now = (True, n)"
  shows "if n = 0 then \<not> fst (isAuthBlockedForModel (Some a) model now)
    else \<exists>r. isAuthBlockedForModel (Some a) model now = (True, r, n)"
proof -
  obtain b r m where i: "isAuthBlockedForModel (Some a) model now = (b, r, m)" by (metis prod_cases3)
  show ?thesis
  proof (cases b)
    case False
    then show ?thesis using assms i by (auto simp: retryRoundAvailabilityForAuth_def)
  next
    case True
    then have "m \<noteq> 0 \<and> n = m"
      using assms i by (auto simp: retryRoundAvailabilityForAuth_def Let_def split: if_splits option.splits bool.splits)
    then show ?thesis using i True by simp
  qed
qed

text \<open>The loop answers 0 at a credential available now, else the least wait.\<close>

definition wait_of :: "(Auth \<Rightarrow> bool \<times> time) \<Rightarrow> time \<Rightarrow> Auth \<Rightarrow> duration" where
  "wait_of avail now a = (if snd (avail a) = 0 then 0 else time_sub (snd (avail a)) now)"

definition least_wait :: "duration option \<Rightarrow> duration \<Rightarrow> duration option" where
  "least_wait found w = (case found of None \<Rightarrow> Some w | Some v \<Rightarrow> if w < v then Some w else Some v)"

lemma closest_wait_Cons:
  "closest_wait avail now found (a # as) =
     (if \<not> fst (avail a) then closest_wait avail now found as
      else if snd (avail a) = 0 then Some 0
      else if wait_of avail now a < 0 then closest_wait avail now found as
      else closest_wait avail now (least_wait found (wait_of avail now a)) as)"
  by (auto simp: split_def Let_def wait_of_def least_wait_def)

declare closest_wait.simps(2) [simp del]

lemma closest_wait_found:
  assumes "closest_wait avail now found as = Some w"
  shows "found = Some w \<or> (\<exists>a \<in> set as. fst (avail a) \<and> w = wait_of avail now a)"
  using assms
proof (induction as arbitrary: found)
  case (Cons a as)
  have l: "least_wait found v = Some w \<Longrightarrow> found = Some w \<or> v = w" for v
    by (auto simp: least_wait_def split: option.splits if_splits)
  show ?case
  proof (cases "fst (avail a) \<and> snd (avail a) = 0")
    case True
    then show ?thesis using Cons.prems unfolding closest_wait_Cons by (simp add: wait_of_def)
  next
    case False
    show ?thesis
    proof (cases "fst (avail a) \<and> 0 \<le> wait_of avail now a")
      case True
      then have "closest_wait avail now (least_wait found (wait_of avail now a)) as = Some w"
        using Cons.prems False unfolding closest_wait_Cons by simp
      from Cons.IH [OF this] show ?thesis using l True by auto
    next
      case out: False
      then have "closest_wait avail now found as = Some w"
        using Cons.prems False unfolding closest_wait_Cons by (simp split: if_splits)
      from Cons.IH [OF this] show ?thesis by auto
    qed
  qed
qed simp

lemma closest_wait_least:
  assumes "closest_wait avail now found as = Some w" "\<And>v. found = Some v \<Longrightarrow> 0 \<le> v"
    and "\<forall>a \<in> set as. fst (avail a) \<longrightarrow> 0 \<le> wait_of avail now a"
  shows "0 \<le> w \<and> (\<forall>v. found = Some v \<longrightarrow> w \<le> v) \<and> (\<forall>a \<in> set as. fst (avail a) \<longrightarrow> w \<le> wait_of avail now a)"
  using assms
proof (induction as arbitrary: found)
  case (Cons a as)
  show ?case
  proof (cases "fst (avail a)")
    case False
    then show ?thesis using Cons.prems Cons.IH [of found] unfolding closest_wait_Cons by simp
  next
    case ok: True
    show ?thesis
    proof (cases "snd (avail a) = 0")
      case True
      then have "w = 0" using Cons.prems(1) ok unfolding closest_wait_Cons by simp
      then show ?thesis using Cons.prems(2,3) by simp
    next
      case False
      have nn: "0 \<le> wait_of avail now a" using Cons.prems(3) ok by simp
      then have "closest_wait avail now (least_wait found (wait_of avail now a)) as = Some w"
        using Cons.prems(1) ok False unfolding closest_wait_Cons by simp
      moreover have "\<And>v. least_wait found (wait_of avail now a) = Some v \<Longrightarrow> 0 \<le> v"
        using Cons.prems(2) nn by (auto simp: least_wait_def split: option.splits if_splits)
      ultimately have "0 \<le> w" "\<forall>v. least_wait found (wait_of avail now a) = Some v \<longrightarrow> w \<le> v"
        "\<forall>a \<in> set as. fst (avail a) \<longrightarrow> w \<le> wait_of avail now a"
        using Cons.IH Cons.prems(3) by auto
      moreover from this(2) have "w \<le> wait_of avail now a" "\<And>v. found = Some v \<Longrightarrow> w \<le> v"
        by (auto simp: least_wait_def split: option.splits if_splits)
      ultimately show ?thesis by auto
    qed
  qed
qed simp

text \<open>The model a credential is asked for.\<close>

definition retry_model :: "sched_request \<Rightarrow> Conductor \<Rightarrow> Auth \<Rightarrow> string" where
  "retry_model q c a = (if trim_space (sq_model q) \<noteq> [] then selectionModelForAuth (cd_aliases c) a (sq_model q) else sq_model q)"

lemma blocked_future:
  assumes "isAuthBlockedForModel (Some a) model now = (True, r, n)" "n \<noteq> 0"
  shows "now < n"
proof (cases "credential_quota a now")
  case True
  then show ?thesis using assms by (auto simp: isAuthBlockedForModel_def credential_quota_def split: if_splits)
next
  case False
  then show ?thesis using blocked_after [OF assms] by blast
qed

lemma retry_blocked:
  assumes "fst (retry_availability q now c a)"
  shows "0 \<le> wait_of (retry_availability q now c) now a"
    and "\<not> credential_quota a now \<Longrightarrow> wait_of (retry_availability q now c) now a < max_int64 \<Longrightarrow>
      \<not> fst (isAuthBlockedForModel (Some a) (retry_model q c a) (now + wait_of (retry_availability q now c) now a))"
    and "now \<le> t \<Longrightarrow> t < now + wait_of (retry_availability q now c) now a \<Longrightarrow> fst (isAuthBlockedForModel (Some a) (retry_model q c a) t)"
proof -
  obtain n where n: "retryRoundAvailabilityForAuth a (retry_model q c a) now = (True, n)" "retry_availability q now c a = (True, n)"
    using assms(1) unfolding retry_availability_def retry_model_def by (metis prod.collapse)
  consider (free) "n = 0" "\<not> fst (isAuthBlockedForModel (Some a) (retry_model q c a) now)" "wait_of (retry_availability q now c) now a = 0"
    | (blocked) r where "n \<noteq> 0" "isAuthBlockedForModel (Some a) (retry_model q c a) now = (True, r, n)"
        "wait_of (retry_availability q now c) now a = time_sub n now"
    using retry_available [OF n(1)] n(2) by (cases "n = 0") (auto simp: wait_of_def)
  then have "0 \<le> wait_of (retry_availability q now c) now a \<and>
    (\<not> credential_quota a now \<longrightarrow> wait_of (retry_availability q now c) now a < max_int64 \<longrightarrow>
      \<not> fst (isAuthBlockedForModel (Some a) (retry_model q c a) (now + wait_of (retry_availability q now c) now a))) \<and>
    (now \<le> t \<longrightarrow> t < now + wait_of (retry_availability q now c) now a \<longrightarrow> fst (isAuthBlockedForModel (Some a) (retry_model q c a) t))"
  proof cases
    case free
    then show ?thesis by simp
  next
    case blocked
    have later: "now < n" by (rule blocked_future [OF blocked(2,1)])
    then have s: "0 < time_sub n now" "time_sub n now \<le> n - now" "time_sub n now < max_int64 \<Longrightarrow> time_sub n now = n - now"
      by (auto simp: time_sub_def max_int64_def min_int64_def)
    show ?thesis unfolding blocked(3)
      using s blocked_after [OF blocked(2,1)] blocked_until [OF blocked(2,1), of t] by auto
  qed
  then show "0 \<le> wait_of (retry_availability q now c) now a"
    and "\<not> credential_quota a now \<Longrightarrow> wait_of (retry_availability q now c) now a < max_int64 \<Longrightarrow>
      \<not> fst (isAuthBlockedForModel (Some a) (retry_model q c a) (now + wait_of (retry_availability q now c) now a))"
    and "now \<le> t \<Longrightarrow> t < now + wait_of (retry_availability q now c) now a \<Longrightarrow> fst (isAuthBlockedForModel (Some a) (retry_model q c a) t)"
    by blast+
qed

section \<open>Properties\<close>

lemma closest_wait_sign:
  assumes "closestCooldownWait now providers q attempt d c = Some w"
  shows "0 \<le> w"
proof -
  have e: "closest_wait (retry_availability q now c) now None (filter (retry_candidate providers q attempt d c) (cd_auths c)) = Some w"
    using assms by (auto simp: closestCooldownWait_def split: if_splits)
  then show ?thesis using closest_wait_least [OF e] retry_blocked(1) by simp
qed

text \<open>C10. The wait before another round is the earliest recovery: every credential the round could use is
  blocked until it is over, and it ends when one of them recovers, which is available then, unless
  that one is under a quota of the whole credential, whose end may be announced too early, or the
  wait is the longest there is.\<close>

theorem retry_wait_earliest:
  assumes "closestCooldownWait now providers q attempt d c = Some w"
  shows "0 \<le> w \<and>
    (\<forall>a \<in> set (cd_auths c). retry_candidate providers q attempt d c a \<and> fst (retry_availability q now c a) \<longrightarrow>
       (\<forall>t. now \<le> t \<and> t < now + w \<longrightarrow> fst (isAuthBlockedForModel (Some a) (retry_model q c a) t))) \<and>
    (\<exists>a \<in> set (cd_auths c). \<exists>n. retry_candidate providers q attempt d c a \<and> retry_availability q now c a = (True, n) \<and>
       w = (if n = 0 then 0 else time_sub n now) \<and>
       (\<not> credential_quota a now \<and> w < max_int64 \<longrightarrow> \<not> fst (isAuthBlockedForModel (Some a) (retry_model q c a) (now + w))))"
proof -
  define as where "as = filter (retry_candidate providers q attempt d c) (cd_auths c)"
  let ?av = "retry_availability q now c"
  have e: "closest_wait ?av now None as = Some w" using assms(1) by (auto simp: closestCooldownWait_def as_def split: if_splits)
  have L: "0 \<le> w" "\<forall>a \<in> set as. fst (?av a) \<longrightarrow> w \<le> wait_of ?av now a"
    using closest_wait_least [OF e] retry_blocked(1) by (auto simp: as_def)
  obtain a where a: "a \<in> set as" "fst (?av a)" "w = wait_of ?av now a" using closest_wait_found [OF e] by auto
  then have "\<exists>a \<in> set (cd_auths c). \<exists>n. retry_candidate providers q attempt d c a \<and> ?av a = (True, n) \<and>
      w = (if n = 0 then 0 else time_sub n now) \<and>
      (\<not> credential_quota a now \<and> w < max_int64 \<longrightarrow> \<not> fst (isAuthBlockedForModel (Some a) (retry_model q c a) (now + w)))"
    using retry_blocked(2) [OF a(2)] by (intro bexI [of _ a] exI [of _ "snd (?av a)"]) (auto simp: as_def wait_of_def prod_eq_iff)
  moreover have "fst (isAuthBlockedForModel (Some b) (retry_model q c b) t)"
    if "b \<in> set (cd_auths c)" "retry_candidate providers q attempt d c b" "fst (?av b)" "now \<le> t" "t < now + w" for b t
  proof -
    have "w \<le> wait_of ?av now b" using L(2) that by (simp add: as_def)
    then show ?thesis using retry_blocked(3) [OF that(3,4)] that(5) by linarith
  qed
  ultimately show ?thesis using L(1) by blast
qed

lemma effectiveRequestRetryLimit_max [simp]: "effectiveRequestRetryLimit a (max 0 d) = effectiveRequestRetryLimit a d"
  by (simp add: effectiveRequestRetryLimit_def max_def split: option.splits)

text \<open>C11. Another round is bounded in number and in time: it is granted only while some credential allows
  more attempts than there were, and the wait before it, with a jitter drawn below its bound, is positive
  only within the configured maximum and longer than the wait asked for by at most two seconds.\<close>

theorem retry_bounded:
  assumes "shouldRetryAfterError J clk f attempt providers q maxWait d c = Some w"
    and "\<And>n. 0 < n \<Longrightarrow> 0 \<le> draw n \<and> draw n < n"
  shows "list_ex (\<lambda>a. attempt < effectiveRequestRetryLimit a d) (cd_auths c) \<and> isCredentialRetryRoundStatus (statusCodeFromError f) \<and>
    0 \<le> w \<and> w \<le> jitteredCooldownWait draw w maxWait \<and> jitteredCooldownWait draw w maxWait \<le> max 0 maxWait \<and>
    jitteredCooldownWait draw w maxWait \<le> w + 2 * second"
proof -
  have r: "isCredentialRetryRoundStatus (statusCodeFromError f)" "retryAllowed (clk 0) attempt providers q d c"
    using assms(1) by (auto simp: shouldRetryAfterError_def Let_def split: if_splits)
  then have "list_ex (\<lambda>a. attempt < effectiveRequestRetryLimit a d) (cd_auths c)"
    unfolding retryAllowed_def retry_candidate_def list_ex_iff effectiveRequestRetryLimit_max by blast
  moreover have w: "0 \<le> w" "w > 0 \<longrightarrow> maxWait > 0 \<and> w \<le> maxWait"
    using assms(1) closest_wait_sign
    by (auto simp: shouldRetryAfterError_def Let_def split: if_splits option.splits)
  moreover have "w \<le> jitteredCooldownWait draw w maxWait \<and> jitteredCooldownWait draw w maxWait \<le> max 0 maxWait \<and>
      jitteredCooldownWait draw w maxWait \<le> w + 2 * second"
    using w assms(2) [of "w div 4"] assms(2) [of "2 * second"] assms(2) [of "maxWait - w"]
    by (auto simp: jitteredCooldownWait_def cooldownWaitJitterCap_def Let_def second_def)
  ultimately show ?thesis using r(1) by blast
qed

section \<open>Example\<close>

definition cooled_manager :: Manager where
  "cooled_manager = fst (MarkResult example_environment [] 100 (example_result False 429)
     ((example_manager ((empty_auth ''a'')\<lparr>au_provider := ''codex''\<rparr>))\<lparr>mg_registry := two_models\<rparr>))"

definition cooled_conductor :: Conductor where
  "cooled_conductor = \<lparr>cd_manager = cooled_manager, cd_scheduler = newAuthScheduler RoundRobinKind,
     cd_selector = FillFirstSel, cd_executors = [''codex''],
     cd_aliases = \<lparr>ae_unmarshal = (\<lambda>_. None),
       ae_table = compileOAuthModelAliasTable [(''codex'', [example_alias ''o3'' ''smart''])],
       ae_routing = \<lparr>rc_gemini = [], rc_interactions = [], rc_claude = [], rc_codex = [], rc_xai = [], rc_vertex = [], rc_compat = [],
         rc_oauth_request_scoped_errors = []\<rparr>, ae_key_aliases = []\<rparr>,
     cd_pool_offsets = []\<rparr>"

definition request_for :: "string \<Rightarrow> sched_request" where
  "request_for model = \<lparr>sq_model = model, sq_metadata = [], sq_required_kind = [], sq_policy = [], sq_websocket = False, sq_tried = []\<rparr>"

theorem retry_wait_earliest_witness:
  "\<exists>a \<in> set (cd_auths cooled_conductor). \<exists>n. retry_candidate [''codex''] (request_for ''gpt-5'') 0 3 cooled_conductor a \<and>
     retry_availability (request_for ''gpt-5'') 200 cooled_conductor a = (True, n) \<and> n = 200 + 999999900"
proof -
  have "closestCooldownWait 200 [''codex''] (request_for ''gpt-5'') 0 3 cooled_conductor = Some 999999900" by code_simp
  from retry_wait_earliest [OF this] show ?thesis by (fastforce simp: time_sub_def max_int64_def min_int64_def split: if_splits)
qed

definition example_failure_text :: Failure where
  "example_failure_text = of_error \<lparr>er_code = [], er_message = ''slow down'', er_retryable = True, er_http_status = 429\<rparr>"

theorem retry_bounded_witness:
  "999999900 \<le> jitteredCooldownWait (\<lambda>_. 0) 999999900 (30 * second) \<and>
   jitteredCooldownWait (\<lambda>_. 0) 999999900 (30 * second) \<le> 999999900 + 2 * second"
proof -
  have "shouldRetryAfterError (en_json example_environment) (\<lambda>_. 200) example_failure_text 0 [''codex''] (request_for ''gpt-5'')
      (30 * second) 3 cooled_conductor = Some 999999900" by code_simp
  from retry_bounded [OF this, of "\<lambda>_. 0"] show ?thesis by simp
qed

section \<open>A divergence\<close>

text \<open>The slow path finds the credential available for the model the alias stands for, then asks the
  selector without a model: after one rate limit on another model the only states of the credential
  are blocked ones, its summary is unavailable, and the request is refused.\<close>

theorem alias_pick_refused:
  "map_sum (\<lambda>_. ()) (map au_id) (availableAuthsForRouteModel (cd_aliases cooled_conductor)
      (legacy_candidates [''codex''] (request_for ''smart'') cooled_conductor) ''mixed'' ''smart'' 200) = Inr [''a'']"
  "snd (pickNextMixed au_id (\<lambda>_ _. 200) [''codex''] (request_for ''smart'') cooled_conductor) =
     Inl (ModelCooldownError ''smart'' [] 999999900)"
  by code_simp+

end
