(* ===== verification/Execution.thy ===== *)
theory Execution
  imports Retry_Rounds
begin

text \<open>
  The execution of a request (\<open>sdk/cliproxy/auth/conductor_execution.go\<close>): one credential after the
  other, on each the models it stands for, the results recorded, and round after round while waiting
  is worth while; or the candidates of an ordered chain, one after the other
  (\<open>conductor_ordered_failover.go\<close>). The manager works alone, without Home and without a table of
  routes. What is outside, executors, interceptor, context, clock and the other requests, is the record
  \<open>runtime\<close>, over a world of any type. Left out are Go contexts, logging, the pricing of a model, the
  model information attached for API keys, and the metadata a pick leaves for session affinity
  (\<open>session_affinity_provider\<close> and \<open>session_affinity_model\<close>).
\<close>

section \<open>The world of a request\<close>

text \<open>A call of an executor, to execute or to count tokens.\<close>

record 'p call =
  cl_count :: bool
  cl_provider :: string
  cl_auth :: Auth
  cl_model :: string
  cl_metadata :: "(string, meta_value) gomap"
  cl_payload :: 'p

text \<open>Where the request stands: the conductor and the rest of the world.\<close>

type_synonym 'w place = "Conductor \<times> 'w"

record retry_settings =
  rs_request_retry :: int
  rs_max_credentials :: int
  rs_max_wait :: duration

text \<open>\<open>ru_others\<close> is what other goroutines do before the request takes its next step; \<open>ru_picked\<close> the world
  after the clock readings of a pick, \<open>ru_clocks\<close>; \<open>ru_context\<close> the error of the context.
  \<open>ru_prepare\<close> is \<open>prepareRequestAuth\<close>, \<open>ru_refresh\<close> \<open>refreshAuthForRequest\<close>, \<open>ru_credits\<close>
  \<open>tryAntigravityCreditsExecute\<close>, \<open>ru_empty\<close> \<open>isEmptyCompletionPayload\<close>, \<open>ru_rewrite\<close>
  \<open>rewriteModelInResponse\<close>, \<open>ru_own_rules\<close> the error rules in the metadata of a credential.\<close>

record ('w, 'p, 'r) runtime =
  ru_env :: environment
  ru_settings :: retry_settings
  ru_excluded :: "(string, string list) gomap"
  ru_credits_enabled :: bool
  ru_index :: "Auth \<Rightarrow> string"
  ru_regex :: "string \<Rightarrow> string \<Rightarrow> bool"
  ru_own_rules :: "Auth \<Rightarrow> RequestScopedErrorRule list"
  ru_model_not_found :: "Failure \<Rightarrow> string \<Rightarrow> bool"
  ru_cooldown_text :: "string \<Rightarrow> string \<Rightarrow> duration \<Rightarrow> string"
  ru_mark_failure :: "mark_error \<Rightarrow> Failure"
  ru_empty :: "'r \<Rightarrow> bool"
  ru_rewrite :: "string \<Rightarrow> 'r \<Rightarrow> 'r"
  ru_time :: "'w \<Rightarrow> time"
  ru_clocks :: "'w \<Rightarrow> nat \<Rightarrow> clock"
  ru_picked :: "'w \<Rightarrow> 'w"
  ru_headers :: "'w \<Rightarrow> (string, string list) gomap"
  ru_context :: "'w \<Rightarrow> Failure option"
  ru_draw :: "'w \<Rightarrow> duration \<Rightarrow> duration"
  ru_others :: "'w place \<Rightarrow> 'w place"
  ru_prepare :: "string \<Rightarrow> Auth \<Rightarrow> 'w place \<Rightarrow> 'w place \<times> Auth \<times> Failure option"
  ru_intercept :: "string \<Rightarrow> string \<Rightarrow> (string, meta_value) gomap \<Rightarrow> string \<Rightarrow> 'p \<Rightarrow> 'w place \<Rightarrow> 'w place \<times> 'p \<times> Failure option"
  ru_call :: "'p call \<Rightarrow> 'w place \<Rightarrow> 'w place \<times> (Failure + 'r)"
  ru_refresh :: "Auth \<Rightarrow> 'w place \<Rightarrow> 'w place \<times> Auth option"
  ru_sleep :: "duration \<Rightarrow> 'w place \<Rightarrow> 'w place \<times> Failure option"
  ru_credits :: "'w place \<Rightarrow> 'w place \<times> (Failure + 'r option)"

record 'p request =
  xr_model :: string
  xr_payload :: 'p
  xr_metadata :: "(string, meta_value) gomap"
  xr_kind :: string
  xr_policy :: string
  xr_websocket :: bool
  xr_alt :: string

section \<open>Metadata of a request\<close>

definition metadata_text :: "meta_value \<Rightarrow> string option" where
  "metadata_text v = (case v of MStr s \<Rightarrow> Some s | MBytes s \<Rightarrow> Some s | _ \<Rightarrow> None)"

definition hasRequestedModelMetadata :: "(string, meta_value) gomap \<Rightarrow> bool" where
  "hasRequestedModelMetadata meta =
     (case mget meta ''requested_model'' of None \<Rightarrow> False
      | Some v \<Rightarrow> (case metadata_text v of None \<Rightarrow> False | Some s \<Rightarrow> trim_space s \<noteq> []))"

definition ensureRequestedModelMetadata :: "(string, meta_value) gomap \<Rightarrow> string \<Rightarrow> (string, meta_value) gomap" where
  "ensureRequestedModelMetadata meta requestedModel0 =
     (let requestedModel = trim_space requestedModel0 in
      if requestedModel = [] \<or> hasRequestedModelMetadata meta then meta
      else mput ''requested_model'' (MStr requestedModel) meta)"

definition authSelectionModelFromOptions :: "(string, meta_value) gomap \<Rightarrow> string \<Rightarrow> string" where
  "authSelectionModelFromOptions meta fallback0 =
     (let fallback = trim_space fallback0 in
      case mget meta ''auth_selection_model'' of None \<Rightarrow> fallback
      | Some v \<Rightarrow> (case metadata_text v of None \<Rightarrow> fallback
          | Some s \<Rightarrow> if trim_space s \<noteq> [] then trim_space s else fallback))"

definition executionModelForAuthSelection :: "(string, meta_value) gomap \<Rightarrow> string \<Rightarrow> string option" where
  "executionModelForAuthSelection meta model0 =
     (let model = trim_space model0 in
      if model = [] \<or> authSelectionModelFromOptions meta model = model then None else Some model)"

definition requestedModelAliasFromOptions :: "(string, meta_value) gomap \<Rightarrow> string \<Rightarrow> string" where
  "requestedModelAliasFromOptions meta fallback0 =
     (let fallback = trim_space fallback0 in
      case mget meta ''requested_model'' of
        Some (MStr s) \<Rightarrow> if trim_space s = [] then fallback else trim_space s
      | Some (MBytes s) \<Rightarrow> if s = [] then fallback else trim_space s
      | _ \<Rightarrow> fallback)"

definition isModelRoutingOptions :: "(string, meta_value) gomap \<Rightarrow> bool" where
  "isModelRoutingOptions meta \<longleftrightarrow> mget meta ''cliproxy.model_routing.fail_fast'' = Some (MBool True)"

definition withExcludedAuthIDs :: "(string, meta_value) gomap \<Rightarrow> string list \<Rightarrow> (string, meta_value) gomap" where
  "withExcludedAuthIDs meta tried =
     (if tried = [] then meta
      else mput ''request_excluded_auth_ids'' (MIdSet (first_seen (tried @ extractExcludedAuthIDs meta))) meta)"

text \<open>The callbacks among the metadata are left out.\<close>

definition publishSelectedAuthMetadata ::
  "(Auth \<Rightarrow> string) \<Rightarrow> Auth \<Rightarrow> (string, meta_value) gomap \<Rightarrow> (string, meta_value) gomap" where
  "publishSelectedAuthMetadata auth_index a meta =
     (if meta = [] then meta
      else let i = trim_space (au_id a); k = trim_space (au_index (EnsureIndex auth_index a));
               m1 = (if i \<noteq> [] then mput ''selected_auth_id'' (MStr i) meta else meta)
        in if k \<noteq> [] then mput ''selected_auth_index'' (MStr k) m1 else m1)"

definition request_of :: "'p request \<Rightarrow> string \<Rightarrow> (string, meta_value) gomap \<Rightarrow> string list \<Rightarrow> sched_request" where
  "request_of q model meta tried = \<lparr>sq_model = model, sq_metadata = meta, sq_required_kind = xr_kind q, sq_policy = xr_policy q,
     sq_websocket = xr_websocket q, sq_tried = tried\<rparr>"

section \<open>Recording a result\<close>

text \<open>The scheduler is told of the credentials a result changed.\<close>

definition deliver :: "ModelRegistry \<Rightarrow> time \<Rightarrow> manager_event list \<Rightarrow> authScheduler \<Rightarrow> authScheduler" where
  "deliver r now evs s = foldl (\<lambda>s ev. case ev of SchedulerUpsert a \<Rightarrow> upsertAuth r a now s | _ \<Rightarrow> s) s evs"

definition record_result :: "('w, 'p, 'r) runtime \<Rightarrow> bool \<Rightarrow> Result \<Rightarrow> 'w place \<Rightarrow> 'w place \<times> Failure option" where
  "record_result R neutral result st =
     (let (c, w) = ru_others R st; m = cd_manager c;
          (m', e) = (if neutral then recordAvailabilityNeutralResult (ru_env R) (ru_time R w) result m
                     else MarkResult (ru_env R) (ru_headers R w) (ru_time R w) result m)
      in ((c\<lparr>cd_manager := m', cd_scheduler := deliver (mg_registry m) (ru_time R w) (drop (length (mg_events m)) (mg_events m')) (cd_scheduler c)\<rparr>, w),
          map_option (ru_mark_failure R) e))"

definition failed_result :: "Auth \<Rightarrow> string \<Rightarrow> string \<Rightarrow> bool \<Rightarrow> Error \<Rightarrow> Result" where
  "failed_result a provider model skip e = \<lparr>re_auth_id = au_id a, re_provider = provider, re_model = model, re_success = False,
     re_retry_after = None, re_credential_scope = False, re_error = Some e, re_skip_observation = skip\<rparr>"

definition good_result :: "Auth \<Rightarrow> string \<Rightarrow> string \<Rightarrow> bool \<Rightarrow> Result" where
  "good_result a provider model skip = \<lparr>re_auth_id = au_id a, re_provider = provider, re_model = model, re_success = True,
     re_retry_after = None, re_credential_scope = False, re_error = None, re_skip_observation = skip\<rparr>"

definition markEmptyCompletion :: "('w, 'p, 'r) runtime \<Rightarrow> Result \<Rightarrow> 'w place \<Rightarrow> 'w place \<times> Failure" where
  "markEmptyCompletion R result st =
     (let (st', e) = record_result R False (result\<lparr>re_success := False, re_error := Some errEmptyCompletion\<rparr>) st
      in (st', case e of None \<Rightarrow> of_error errEmptyCompletion | Some r \<Rightarrow> joinExecutionResultError (Some (of_error errEmptyCompletion)) r))"

definition claudeOAuthRequestCancellation :: "Failure option \<Rightarrow> Auth \<Rightarrow> Failure option \<Rightarrow> Failure option" where
  "claudeOAuthRequestCancellation ctx a err =
     (if \<not> equal_fold (trim_space (au_provider a)) ''claude'' \<or>
         \<not> equal_fold (trim_space (mget_or [] (au_attributes a) ''auth_kind'')) ''oauth'' then None
      else case ctx of
        Some e \<Rightarrow> if fl_canceled e then Some e else (case err of Some f \<Rightarrow> if fl_canceled f then Some f else None | None \<Rightarrow> None)
      | None \<Rightarrow> (case err of Some f \<Rightarrow> if fl_canceled f then Some f else None | None \<Rightarrow> None))"

definition authHasRefreshCredential :: "Auth \<Rightarrow> bool" where
  "authHasRefreshCredential a \<longleftrightarrow> authMetadataString a ''refresh_token'' \<noteq> [] \<or> authMetadataString a ''refreshToken'' \<noteq> []"

definition tryRefreshAfterUnauthorized ::
  "('w, 'p, 'r) runtime \<Rightarrow> Auth \<Rightarrow> Failure \<Rightarrow> bool \<Rightarrow> 'w place \<Rightarrow> 'w place \<times> Auth option" where
  "tryRefreshAfterUnauthorized R a err alreadyTried st =
     (if alreadyTried \<or> isRequestScopedError err \<or> \<not> isUnauthorizedError err \<or> \<not> authHasRefreshCredential a then (st, None)
      else ru_refresh R a st)"

definition resolveModelAliasResultForUpstream :: "RoutingConfig \<Rightarrow> Auth \<Rightarrow> string \<Rightarrow> string \<Rightarrow> OAuthModelAliasResult" where
  "resolveModelAliasResultForUpstream cfg a requestedModel0 upstreamModel0 =
     (let requestedModel = trim_space requestedModel0; upstreamModel = trim_space upstreamModel0 in
      if requestedModel = [] \<or> upstreamModel = [] then no_alias
      else let filtered = filter (\<lambda>e. trim_space (oa_name e) \<noteq> [] \<and>
                 equal_fold (preserveResolvedModelSuffix (trim_space (oa_name e)) (ParseSuffix requestedModel)) upstreamModel)
               (configuredModelAliasEntries cfg a)
        in if filtered = [] then no_alias else resolveModelAliasResultFromConfigModels requestedModel filtered)"

text \<open>No routing is given when the request fails fast.\<close>

definition resolveAttemptAliasResult ::
  "RoutingConfig option \<Rightarrow> Auth \<Rightarrow> string \<Rightarrow> string \<Rightarrow> OAuthModelAliasResult \<Rightarrow> OAuthModelAliasResult" where
  "resolveAttemptAliasResult routing a routeModel upstreamModel fallback =
     (case routing of None \<Rightarrow> fallback
      | Some cfg \<Rightarrow>
          if \<not> isConfiguredModelRoutingAuth a then fallback
          else let r = resolveModelAliasResultForUpstream cfg a (rewriteModelForAuth routeModel a) upstreamModel in
            if trim_space (ar_upstream_model r) = [] then fallback
            else if ar_force_mapping r \<and> ar_force_mapping fallback \<and> trim_space (ar_original_alias fallback) \<noteq> []
            then r\<lparr>ar_original_alias := ar_original_alias fallback\<rparr> else r)"

definition rewriteForceMappedResponse :: "('w, 'p, 'r) runtime \<Rightarrow> OAuthModelAliasResult \<Rightarrow> 'r \<Rightarrow> 'r" where
  "rewriteForceMappedResponse R a resp =
     (if \<not> ar_force_mapping a \<or> trim_space (ar_original_alias a) = [] then resp else ru_rewrite R (ar_original_alias a) resp)"

section \<open>One model of one credential\<close>

record 'w attempt =
  at_place :: "'w place"
  at_auth :: Auth
  at_refreshed :: bool
  at_tracker :: routeAttemptTracker
  at_error :: "Failure option"

text \<open>How the body of the loop over the models ends: it returns, breaks, or goes on.\<close>

datatype 'r loop_end = Returns "Failure + 'r" | Breaks | Continues

text \<open>The call, repeated once after a refresh of the credential; a failure ends the request when the
  context is over.\<close>

definition invoke :: "('w, 'p, 'r) runtime \<Rightarrow> bool \<Rightarrow> 'p call \<Rightarrow> 'w attempt \<Rightarrow> 'w attempt \<times> (Failure + (Failure + 'r))" where
  "invoke R failFast k l =
     (let (st1, r1) = ru_call R k (at_place l); l1 = l\<lparr>at_place := st1\<rparr> in
      case r1 of Inr resp \<Rightarrow> (l1, Inr (Inr resp))
      | Inl e \<Rightarrow>
          (case ru_context R (snd st1) of Some ec \<Rightarrow> (l1, Inl ec)
           | None \<Rightarrow>
               if failFast then (l1, Inr (Inl e))
               else let (st2, fresh) = tryRefreshAfterUnauthorized R (at_auth l) e (at_refreshed l) st1; l2 = l1\<lparr>at_place := st2\<rparr> in
                 case fresh of None \<Rightarrow> (l2, Inr (Inl e))
                 | Some a \<Rightarrow>
                     let (st3, r3) = ru_call R (k\<lparr>cl_auth := a\<rparr>) st2;
                         l3 = l\<lparr>at_place := st3, at_auth := a, at_refreshed := True\<rparr>
                     in case r3 of Inr resp \<Rightarrow> (l3, Inr (Inr resp))
                        | Inl e' \<Rightarrow> (case ru_context R (snd st3) of Some ec \<Rightarrow> (l3, Inl ec) | None \<Rightarrow> (l3, Inr (Inl e')))))"

definition request_action :: "('w, 'p, 'r) runtime \<Rightarrow> Conductor \<Rightarrow> Auth \<Rightarrow> Failure \<Rightarrow> string option" where
  "request_action R c a e =
     matchRequestScopedErrorAction (ru_regex R) (extractRequestScopedErrorRules (ae_routing (cd_aliases c)) (ru_own_rules R a) a) e"

text \<open>The result of a failed call, and whether it is kept off the availability: of an execution, of a
  counting.\<close>

definition execute_failure ::
  "('w, 'p, 'r) runtime \<Rightarrow> string \<Rightarrow> Failure \<Rightarrow> string option \<Rightarrow> Result \<Rightarrow> Result \<times> bool" where
  "execute_failure R alt e action base =
     (let err = applyRequestScopedActionToResult action (resultErrorFromError (en_json (ru_env R)) e) in
      (base\<lparr>re_error := Some err, re_retry_after := retryAfterFromError e, re_credential_scope := isCredentialScopedError e\<rparr>,
       isResponsesCompactAvailabilityNeutralError alt e err))"

definition count_failure ::
  "('w, 'p, 'r) runtime \<Rightarrow> string \<Rightarrow> Failure \<Rightarrow> string option \<Rightarrow> Result \<Rightarrow> Result \<times> bool" where
  "count_failure R model e action base =
     (let err = applyRequestScopedActionToResult action (resultErrorFromError (en_json (ru_env R)) e);
          neutral = (isCountTokensEndpointNotFoundError (ru_model_not_found R) e model \<and> er_code err \<noteq> ErrorCodeForceCooldown)
      in (base\<lparr>re_error := Some err, re_retry_after := retryAfterFromError e,
               re_credential_scope := \<not> neutral \<and> isCredentialScopedError e\<rparr>, neutral))"

definition request_fault :: "('w, 'p, 'r) runtime \<Rightarrow> bool \<Rightarrow> string \<Rightarrow> Failure \<Rightarrow> bool" where
  "request_fault R counting alt e \<longleftrightarrow>
     (\<not> counting \<and> isResponsesCompactRequestFaultError (en_json (ru_env R)) alt e) \<or> isRequestInvalidFailure (en_json (ru_env R)) e"

definition settle_failure ::
  "('w, 'p, 'r) runtime \<Rightarrow> bool \<Rightarrow> string option \<Rightarrow> bool \<Rightarrow> Result \<times> bool \<Rightarrow> Failure \<Rightarrow> 'w attempt \<Rightarrow> 'w attempt \<times> 'r loop_end" where
  "settle_failure R failFast action fault rn e l =
     (let (result, neutral) = rn; (st, rec) = record_result R neutral result (at_place l); l1 = l\<lparr>at_place := st\<rparr>;
          onward = (if re_credential_scope result then Breaks else Continues)
      in case rec of Some r \<Rightarrow> (l1, Returns (Inl (joinExecutionResultError (Some e) r)))
         | None \<Rightarrow>
             if failFast then (l1, Returns (Inl e))
             else if action \<noteq> None then
               (if isRequestScopedStop action then (l1, Returns (Inl (wrapRequestStopError e)))
                else (l1\<lparr>at_error := Some e\<rparr>, onward))
             else if fault then (l1, Returns (Inl e))
             else (l1\<lparr>at_error := Some e, at_tracker := record_route (at_auth l) e (at_tracker l)\<rparr>, onward))"

definition settle_success ::
  "('w, 'p, 'r) runtime \<Rightarrow> bool \<Rightarrow> bool \<Rightarrow> Result \<Rightarrow> OAuthModelAliasResult \<Rightarrow> 'r \<Rightarrow> 'w attempt \<Rightarrow> 'w attempt \<times> 'r loop_end" where
  "settle_success R counting failFast result alias_result resp l =
     (if \<not> counting \<and> ru_empty R resp then
        (let (st, e) = markEmptyCompletion R result (at_place l);
             l1 = l\<lparr>at_place := st, at_error := Some e, at_tracker := record_route (at_auth l) e (at_tracker l)\<rparr>
         in (l1, if failFast then Returns (Inl e) else Continues))
      else let (st, rec) = record_result R False result (at_place l); l1 = l\<lparr>at_place := st\<rparr> in
        case rec of Some r \<Rightarrow> (l1, Returns (Inl (joinExecutionResultError None r)))
        | None \<Rightarrow> (l1, Returns (Inr (rewriteForceMappedResponse R alias_result resp))))"

definition run_model ::
  "('w, 'p, 'r) runtime \<Rightarrow> bool \<Rightarrow> 'p request \<Rightarrow> string \<Rightarrow> (string, meta_value) gomap \<Rightarrow> bool \<Rightarrow> OAuthModelAliasResult \<Rightarrow>
   string \<Rightarrow> 'w attempt \<Rightarrow> 'w attempt \<times> 'r loop_end" where
  "run_model R counting q provider meta pooled alias_result upstreamModel l =
     (let routeModel = authSelectionModelFromOptions (xr_metadata q) (xr_model q);
          failFast = isModelRoutingOptions (xr_metadata q);
          resultModel = stateModelForExecution (cd_aliases (fst (at_place l))) (at_auth l) routeModel upstreamModel pooled;
          model = (case executionModelForAuthSelection (xr_metadata q) (xr_model q) of Some m \<Rightarrow> m | None \<Rightarrow> upstreamModel);
          (st1, payload, blocked) = ru_intercept R provider model meta (requestedModelAliasFromOptions meta routeModel) (xr_payload q) (at_place l);
          l1 = l\<lparr>at_place := st1\<rparr>
      in case blocked of Some e \<Rightarrow> (l1, Returns (Inl e))
         | None \<Rightarrow>
           (case invoke R failFast \<lparr>cl_count = counting, cl_provider = provider, cl_auth = at_auth l, cl_model = model,
                  cl_metadata = meta, cl_payload = payload\<rparr> l1 of
              (l2, Inl ec) \<Rightarrow> (l2, Returns (Inl ec))
            | (l2, Inr r) \<Rightarrow>
               let a = at_auth l2; c = fst (at_place l2); base = good_result a provider resultModel counting in
               (case claudeOAuthRequestCancellation (ru_context R (snd (at_place l2))) a (case r of Inl e \<Rightarrow> Some e | Inr _ \<Rightarrow> None) of
                  Some ec \<Rightarrow> (l2, Returns (Inl ec))
                | None \<Rightarrow>
                  (case r of
                     Inl e \<Rightarrow>
                       let action = request_action R c a e; failed = base\<lparr>re_success := False\<rparr> in
                       settle_failure R failFast action (request_fault R counting (xr_alt q) e)
                         (if counting then count_failure R model e action failed else execute_failure R (xr_alt q) e action failed) e l2
                   | Inr resp \<Rightarrow>
                       settle_success R counting failFast base
                         (resolveAttemptAliasResult (if failFast then None else Some (ae_routing (cd_aliases c))) a routeModel upstreamModel alias_result)
                         resp l2))))"

fun each_model :: "(string \<Rightarrow> 'w attempt \<Rightarrow> 'w attempt \<times> 'r loop_end) \<Rightarrow> string list \<Rightarrow> 'w attempt \<Rightarrow> 'w attempt \<times> (Failure + 'r) option" where
  "each_model f [] l = (l, None)"
| "each_model f (m # ms) l =
     (case f m l of
        (l', Returns r) \<Rightarrow> (l', Some r)
      | (l', Breaks) \<Rightarrow> (l', None)
      | (l', Continues) \<Rightarrow> each_model f ms l')"

section \<open>One credential\<close>

record 'w route =
  ro_place :: "'w place"
  ro_metadata :: "(string, meta_value) gomap"
  ro_tried :: "string list"
  ro_attempted :: "string list"
  ro_last :: "Failure option"
  ro_tracker :: routeAttemptTracker

definition insert_id :: "string \<Rightarrow> string list \<Rightarrow> string list" where
  "insert_id i ids = (if i \<in> set ids then ids else ids @ [i])"

text \<open>After the models of the credential: the request stops, or the error is kept for the end.\<close>

definition after_models :: "('w, 'p, 'r) runtime \<Rightarrow> bool \<Rightarrow> string \<Rightarrow> 'w attempt \<Rightarrow> 'w route \<Rightarrow> 'w route \<times> (Failure + 'r) option" where
  "after_models R counting alt l s =
     (case at_error l of None \<Rightarrow> (s, None)
      | Some e \<Rightarrow>
          let action = request_action R (fst (at_place l)) (at_auth l) e in
          if action \<noteq> None then
            (if isRequestScopedStop action then (s, Some (Inl (wrapRequestStopError e))) else (s\<lparr>ro_last := Some e\<rparr>, None))
          else if request_fault R counting alt e then (s, Some (Inl e))
          else (s\<lparr>ro_last := Some e\<rparr>, None))"

text \<open>The failure to prepare the credential.\<close>

definition prepare_failed ::
  "('w, 'p, 'r) runtime \<Rightarrow> bool \<Rightarrow> 'p request \<Rightarrow> string \<Rightarrow> Auth \<Rightarrow> Failure \<Rightarrow> 'w route \<Rightarrow> 'w route \<times> (Failure + 'r) option" where
  "prepare_failed R counting q provider a e s =
     (case claudeOAuthRequestCancellation (ru_context R (snd (ro_place s))) a (Some e) of
        Some ec \<Rightarrow> (s, Some (Inl ec))
      | None \<Rightarrow>
          let routeModel = authSelectionModelFromOptions (xr_metadata q) (xr_model q);
              (st, rec) = record_result R False (failed_result a provider routeModel counting (resultErrorFromError (en_json (ru_env R)) e)) (ro_place s);
              s1 = s\<lparr>ro_place := st\<rparr>
          in case rec of Some r \<Rightarrow> (s1, Some (Inl (joinExecutionResultError (Some e) r)))
             | None \<Rightarrow>
                 if isModelRoutingOptions (xr_metadata q) then (s1, Some (Inl e)) else (s1\<lparr>ro_last := Some e\<rparr>, None))"

text \<open>The credential picked: its models, its preparation, the calls. The first pick of a round shares its
  metadata with the request's, so what is published of the credential reaches the executor then.\<close>

definition use_credential ::
  "('w, 'p, 'r) runtime \<Rightarrow> bool \<Rightarrow> 'p request \<Rightarrow> (string, meta_value) gomap \<Rightarrow> Auth \<Rightarrow> string \<Rightarrow> 'w route \<Rightarrow> 'w route \<times> (Failure + 'r) option" where
  "use_credential R counting q pickMeta a provider s =
     (let routeModel = authSelectionModelFromOptions (xr_metadata q) (xr_model q);
          failFast = isModelRoutingOptions (xr_metadata q);
          published = publishSelectedAuthMetadata (ru_index R) a (ro_metadata s);
          meta = (if ro_tried s = [] then published else pickMeta);
          (c, w) = ru_others R (ro_place s);
          (offsets, models0, pooled0, alias0) = preparedExecutionModelsWithAlias (cd_aliases c) a routeModel (ru_time R w) (cd_pool_offsets c);
          (models, pooled, alias_result) = (if failFast then ([routeModel], False, no_alias) else (models0, pooled0, alias0));
          s1 = s\<lparr>ro_place := (c\<lparr>cd_pool_offsets := offsets\<rparr>, w), ro_metadata := published, ro_tried := insert_id (au_id a) (ro_tried s)\<rparr>
      in if models = [] then (s1, None)
         else let (st2, a2, failed) = ru_prepare R provider a (ro_place s1);
                  s2 = s1\<lparr>ro_place := st2, ro_attempted := insert_id (au_id a) (ro_attempted s1)\<rparr>
           in case failed of Some e \<Rightarrow> prepare_failed R counting q provider a2 e s2
              | None \<Rightarrow>
                  let (l, r) = each_model (run_model R counting q provider meta pooled alias_result) models
                        \<lparr>at_place = st2, at_auth = a2, at_refreshed = False, at_tracker = ro_tracker s2, at_error = None\<rparr>;
                      s3 = s2\<lparr>ro_place := at_place l, ro_tracker := at_tracker l\<rparr>
                  in case r of Some x \<Rightarrow> (s3, Some x) | None \<Rightarrow> after_models R counting (xr_alt q) l s3)"

definition pick_place ::
  "('w, 'p, 'r) runtime \<Rightarrow> 'p request \<Rightarrow> string list \<Rightarrow> (string, meta_value) gomap \<Rightarrow> string list \<Rightarrow> 'w place \<Rightarrow>
   'w place \<times> (pick_error + Auth \<times> string)" where
  "pick_place R q providers meta tried st =
     (let (c, w) = ru_others R st;
          (c1, picked) = pickNextMixed (ru_index R) (ru_clocks R w) providers
            (request_of q (authSelectionModelFromOptions (xr_metadata q) (xr_model q)) (withExcludedAuthIDs meta tried) tried) c
      in ((c1, ru_picked R w), picked))"

definition try_credential ::
  "('w, 'p, 'r) runtime \<Rightarrow> bool \<Rightarrow> 'p request \<Rightarrow> string list \<Rightarrow> 'w route \<Rightarrow> 'w route \<times> (Failure + 'r) option" where
  "try_credential R counting q providers s =
     (let (st, picked) = pick_place R q providers (ro_metadata s) (ro_tried s) (ro_place s); s1 = s\<lparr>ro_place := st\<rparr> in
      case picked of
        Inl e \<Rightarrow> (s1, Some (Inl (case ro_last s of Some last_err \<Rightarrow> last_err | None \<Rightarrow> of_pick_error (ru_cooldown_text R) e)))
      | Inr (a, provider) \<Rightarrow> use_credential R counting q (withExcludedAuthIDs (ro_metadata s) (ro_tried s)) a provider s1)"

section \<open>One round\<close>

text \<open>The loop over the credentials, with fuel.\<close>

fun mixed_loop ::
  "('w, 'p, 'r) runtime \<Rightarrow> bool \<Rightarrow> 'p request \<Rightarrow> string list \<Rightarrow> nat \<Rightarrow> 'w route \<Rightarrow> ('w route \<times> (Failure + 'r)) option" where
  "mixed_loop R counting q providers 0 s = None"
| "mixed_loop R counting q providers (Suc fuel) s =
     (let limit = rs_max_credentials (ru_settings R) in
      if limit > 0 \<and> int (length (ro_attempted s)) \<ge> limit then
        Some (s, Inl (case ro_last s of Some e \<Rightarrow> e | None \<Rightarrow> auth_failure ''auth_not_found'' ''no auth available''))
      else case try_credential R counting q providers s of
        (s', Some r) \<Rightarrow> Some (s', r)
      | (s', None) \<Rightarrow> mixed_loop R counting q providers fuel s')"

text \<open>What a round keeps for the next: the place, the credentials tried, the routes attempted.\<close>

definition begin_round :: "'p request \<Rightarrow> int \<Rightarrow> int \<Rightarrow> 'w route \<Rightarrow> 'w route" where
  "begin_round q retryRound defaultRequestRetry s =
     s\<lparr>ro_metadata := ensureRequestedModelMetadata (xr_metadata q) (authSelectionModelFromOptions (xr_metadata q) (xr_model q)),
       ro_tried := foldl (\<lambda>ids i. insert_id i ids) (ro_tried s)
         (requestRetryRoundExclusions retryRound defaultRequestRetry (fst (ro_place s))),
       ro_attempted := [], ro_last := None\<rparr>"

definition mixed_once ::
  "('w, 'p, 'r) runtime \<Rightarrow> bool \<Rightarrow> 'p request \<Rightarrow> string list \<Rightarrow> int \<Rightarrow> int \<Rightarrow> nat \<Rightarrow> 'w route \<Rightarrow> ('w route \<times> (Failure + 'r)) option" where
  "mixed_once R counting q providers retryRound defaultRequestRetry fuel s =
     (if providers = [] then Some (s, Inl (auth_failure ''provider_not_found'' ''no provider supplied''))
      else mixed_loop R counting q providers fuel (begin_round q retryRound defaultRequestRetry s))"

definition executeMixedOnce where "executeMixedOnce R = mixed_once R False"
definition executeCountMixedOnce where "executeCountMixedOnce R = mixed_once R True"

section \<open>Rounds\<close>

definition waitForCooldown :: "('w, 'p, 'r) runtime \<Rightarrow> duration \<Rightarrow> 'w place \<Rightarrow> 'w place \<times> Failure option" where
  "waitForCooldown R wait st =
     (if wait \<le> 0 then (st, None)
      else ru_sleep R (jitteredCooldownWait (ru_draw R (snd st)) wait (rs_max_wait (ru_settings R))) st)"

definition new_route :: "'w place \<Rightarrow> string list \<Rightarrow> routeAttemptTracker \<Rightarrow> 'w route" where
  "new_route st tried tracker = \<lparr>ro_place = st, ro_metadata = [], ro_tried = first_seen tried, ro_attempted = [], ro_last = None, ro_tracker = tracker\<rparr>"

text \<open>The loop over the rounds, with fuel; a round of the credentials has its own.\<close>

fun retry_loop ::
  "('w, 'p, 'r) runtime \<Rightarrow> bool \<Rightarrow> 'p request \<Rightarrow> string list \<Rightarrow> nat \<Rightarrow> nat \<Rightarrow> int \<Rightarrow> Failure option \<Rightarrow> 'w route \<Rightarrow>
   ('w route \<times> (Failure + (Failure + 'r))) option" where
  "retry_loop R counting q providers fuel 0 attempt lastErr s = None"
| "retry_loop R counting q providers fuel (Suc rounds) attempt lastErr s =
     (let D = rs_request_retry (ru_settings R) in
      case mixed_once R counting q providers attempt D fuel s of
        None \<Rightarrow> None
      | Some (s1, Inr resp) \<Rightarrow> Some (s1, Inr (Inr resp))
      | Some (s1, Inl e) \<Rightarrow>
          if fl_terminated e \<or> fl_stop e then Some (s1, Inr (Inl (unwrapRequestStopError e)))
          else let last1 = (case lastErr of None \<Rightarrow> e | Some l \<Rightarrow> if \<not> isAuthNotFoundError e then e else l);
                   (c, w) = ru_others R (ro_place s1)
            in case shouldRetryAfterError (en_json (ru_env R)) (ru_clocks R w 0) e attempt providers
                      (request_of q (authSelectionModelFromOptions (xr_metadata q) (xr_model q)) (xr_metadata q) [])
                      (rs_max_wait (ru_settings R)) D c of
                 None \<Rightarrow> Some (s1\<lparr>ro_place := (c, ru_picked R w)\<rparr>, Inl last1)
               | Some wait \<Rightarrow>
                   (case waitForCooldown R wait (c, ru_picked R w) of
                      (st, Some ec) \<Rightarrow> Some (s1\<lparr>ro_place := st\<rparr>, Inr (Inl ec))
                    | (st, None) \<Rightarrow>
                        retry_loop R counting q providers fuel rounds (attempt + 1) (Some last1)
                          (s1\<lparr>ro_place := st,
                             ro_tried := resetRetryRoundExclusions (ro_tried s1) (first_seen (extractExcludedAuthIDs (xr_metadata q))) e wait (fst st)\<rparr>)))"

definition hasAntigravityProvider :: "string list \<Rightarrow> bool" where
  "hasAntigravityProvider providers \<longleftrightarrow> list_ex (\<lambda>p. equal_fold (trim_space p) ''antigravity'') providers"

definition shouldAttemptAntigravityCreditsFallback :: "bool \<Rightarrow> Failure \<Rightarrow> bool" where
  "shouldAttemptAntigravityCreditsFallback enabled f =
     (if fl_terminated f \<or> \<not> enabled then False
      else if statusCodeFromError f \<in> {429, 503} then True
      else if statusCodeFromError f = 0 then
        (case fl_error f of Some e \<Rightarrow> er_code e \<in> {''auth_not_found'', ''auth_unavailable'', ''model_cooldown''}
         | None \<Rightarrow> fl_model_cooldown f)
      else False)"

definition normalizeProviders :: "string list \<Rightarrow> string list" where
  "normalizeProviders providers = first_seen (provider_set providers)"

section \<open>Ordered chains\<close>

definition orderedCandidateChainForRequest :: "Conductor \<Rightarrow> string list \<Rightarrow> 'p request \<Rightarrow> OrderedCandidate list" where
  "orderedCandidateChainForRequest c providers q =
     (let requestedModel = authSelectionModelFromOptions (xr_metadata q) (xr_model q);
          channel = orderedChainChannelForProviders providers
      in if providers = [] \<or> requestedModel = [] \<or> channel = [] then []
         else resolveOrderedCandidates (ae_table (cd_aliases c)) channel requestedModel)"

definition routeGuardExcludedModel :: "(string, string list) gomap \<Rightarrow> string list \<Rightarrow> 'p request \<Rightarrow> Failure option" where
  "routeGuardExcludedModel excluded providers q =
     (let m0 = authSelectionModelFromOptions (xr_metadata q) (xr_model q);
          requestedModel = (if m0 = [] then trim_space (xr_model q) else m0)
      in if requestedModel = [] then None
         else first_result (\<lambda>p. let channel = OAuthModelAliasChannel (trim_space p) ''oauth'' in
             if channel \<noteq> [] \<and> isModelExcludedForRoute excluded channel requestedModel
             then Some (auth_failure ''model_excluded''
               (''model '' @ requestedModel @ '' is excluded by oauth-excluded-models for provider '' @ p))
             else None) providers)"

definition withOrderedCandidateMetadata :: "(string, meta_value) gomap \<Rightarrow> nat \<Rightarrow> OrderedCandidate \<Rightarrow> (string, meta_value) gomap" where
  "withOrderedCandidateMetadata meta idx cand =
     mput ''cliproxy.ordered_candidate.alias'' (MStr (oc_config_alias cand))
       (mput ''cliproxy.ordered_candidate.upstream_model'' (MStr (oc_upstream_model cand))
         (mput ''cliproxy.ordered_candidate.channel'' (MStr (oc_channel cand))
           (mput ''cliproxy.ordered_candidate.index'' (MInt (int idx)) meta)))"

definition candidate_request :: "'p request \<Rightarrow> nat \<Rightarrow> OrderedCandidate \<Rightarrow> 'p request" where
  "candidate_request q idx cand =
     q\<lparr>xr_model := oc_upstream_model cand, xr_metadata := withOrderedCandidateMetadata (xr_metadata q) idx cand\<rparr>"

text \<open>The loop over the chain from a candidate on; the error of the last one waits for the end.\<close>

fun ordered_loop ::
  "('w, 'p, 'r) runtime \<Rightarrow> bool \<Rightarrow> 'p request \<Rightarrow> string list \<Rightarrow> OrderedCandidate list \<Rightarrow> nat \<Rightarrow>
   nat \<Rightarrow> Failure \<Rightarrow> OrderedCandidate list \<Rightarrow> 'w place \<times> routeAttemptTracker \<Rightarrow> (('w place \<times> routeAttemptTracker) \<times> (Failure + 'r)) option" where
  "ordered_loop R counting q providers chain fuel idx lastErr [] st = Some (st, Inl (annotateOrderedError lastErr chain (length chain - 1) ''exhausted''))"
| "ordered_loop R counting q providers chain fuel idx lastErr (cand # cands) st =
     (case mixed_once R counting (candidate_request q idx cand) (orderedCandidateProviders providers (oc_channel cand)) 0 0 fuel
             (new_route (fst st) [] (snd st)) of
        None \<Rightarrow> None
      | Some (s, Inr resp) \<Rightarrow> Some ((ro_place s, ro_tracker s), Inr resp)
      | Some (s, Inl e) \<Rightarrow>
          let st' = (ro_place s, ro_tracker s) in
          if permanentOrderedStopError (en_json (ru_env R)) e then Some (st', Inl (annotateOrderedError e chain idx ''permanent''))
          else if \<not> retryablePreFirstByteError (en_json (ru_env R)) e then Some (st', Inl e)
          else ordered_loop R counting q providers chain fuel (Suc idx) e cands st')"

text \<open>A caller has found a chain of more than one candidate; here it is looked up again, and a shorter one
  leads to a single round.\<close>

definition ordered_failover ::
  "('w, 'p, 'r) runtime \<Rightarrow> bool \<Rightarrow> 'p request \<Rightarrow> string list \<Rightarrow> nat \<Rightarrow> 'w place \<Rightarrow> ('w place \<times> (Failure + 'r)) option" where
  "ordered_failover R counting q providers fuel st =
     (case routeGuardExcludedModel (ru_excluded R) providers q of Some e \<Rightarrow> Some (st, Inl e)
      | None \<Rightarrow>
          let chain = orderedCandidateChainForRequest (fst st) providers q in
          if length chain \<le> 1 then
            map_option (\<lambda>(s, r). (ro_place s, r))
              (mixed_once R counting q providers 0 0 fuel
                (new_route st (if counting then [] else extractExcludedAuthIDs (xr_metadata q)) newRouteAttemptTracker))
          else map_option (\<lambda>(s, r). (fst s, r))
              (ordered_loop R counting q providers chain fuel 0 (auth_failure ''auth_not_found'' ''no auth available'') chain (st, newRouteAttemptTracker)))"

definition executeWithOrderedFailover where "executeWithOrderedFailover R = ordered_failover R False"
definition executeCountWithOrderedFailover where "executeCountWithOrderedFailover R = ordered_failover R True"

section \<open>A request\<close>

definition Execute ::
  "('w, 'p, 'r) runtime \<Rightarrow> string list \<Rightarrow> 'p request \<Rightarrow> nat \<Rightarrow> nat \<Rightarrow> 'w place \<Rightarrow> ('w place \<times> (Failure + 'r)) option" where
  "Execute R providers0 q fuel rounds st =
     (let providers = normalizeProviders providers0 in
      if providers = [] then Some (st, Inl (auth_failure ''provider_not_found'' ''no provider supplied''))
      else if length (orderedCandidateChainForRequest (fst st) providers q) > 1 then executeWithOrderedFailover R q providers fuel st
      else case retry_loop R False q providers fuel rounds 0 None (new_route st (extractExcludedAuthIDs (xr_metadata q)) newRouteAttemptTracker) of
        None \<Rightarrow> None
      | Some (s, Inr r) \<Rightarrow> Some (ro_place s, r)
      | Some (s, Inl e0) \<Rightarrow>
          let e = unwrapRequestStopError e0; J = en_json (ru_env R) in
          if hasAntigravityProvider providers \<and> shouldAttemptAntigravityCreditsFallback (ru_credits_enabled R) e then
            (case ru_credits R (ro_place s) of
               (st', Inl ec) \<Rightarrow> Some (st', Inl (wrapRouteExhaustion J (ro_tracker s) ec))
             | (st', Inr (Some resp)) \<Rightarrow> Some (st', Inr resp)
             | (st', Inr None) \<Rightarrow> Some (st', Inl (wrapRouteExhaustion J (ro_tracker s) e)))
          else Some (ro_place s, Inl (wrapRouteExhaustion J (ro_tracker s) e)))"

definition ExecuteCount ::
  "('w, 'p, 'r) runtime \<Rightarrow> string list \<Rightarrow> 'p request \<Rightarrow> nat \<Rightarrow> nat \<Rightarrow> 'w place \<Rightarrow> ('w place \<times> (Failure + 'r)) option" where
  "ExecuteCount R providers0 q fuel rounds st =
     (let providers = normalizeProviders providers0 in
      if providers = [] then Some (st, Inl (auth_failure ''provider_not_found'' ''no provider supplied''))
      else if length (orderedCandidateChainForRequest (fst st) providers q) > 1 then executeCountWithOrderedFailover R q providers fuel st
      else case retry_loop R True q providers fuel rounds 0 None (new_route st (extractExcludedAuthIDs (xr_metadata q)) newRouteAttemptTracker) of
        None \<Rightarrow> None
      | Some (s, Inr r) \<Rightarrow> Some (ro_place s, r)
      | Some (s, Inl e) \<Rightarrow>
          Some (ro_place s, Inl (unwrapRequestStopError (wrapRouteExhaustion (en_json (ru_env R)) (ro_tracker s) e))))"

end
