(* ===== verification/Execution_Properties.thy ===== *)
theory Execution_Properties
  imports Execution
begin

text \<open>
  What the execution of a request (\<open>Execution\<close>) promises, for every executor, interceptor and behaviour of
  the other requests that keeps the conductor in order: it ends; a round uses a credential once; an
  ordered chain is left at its first success or final failure; a fault of the request cools nothing.
\<close>

section \<open>Who a credential is\<close>

text \<open>Recording a result changes neither the identifier of a credential nor its metadata.\<close>

definition identity :: "Auth \<Rightarrow> string \<times> (string, meta_value) gomap" where
  "identity a = (au_id a, au_metadata a)"

named_theorems identity_simps

lemma updateAggregatedAvailability_identity [identity_simps]: "identity (updateAggregatedAvailability now a) = identity a"
  by (simp add: identity_def updateAggregatedAvailability_def clearAggregatedAvailability_def Let_def split_def split: option.splits)

lemma basic_identity [identity_simps]:
  "identity (ensureModelState a k) = identity a" "identity (put_model_state k s a) = identity a"
  "identity (map_others k f a) = identity a" "identity (recordRecentRequest a now b) = identity a"
  "identity (auth_timed m d now b a) = identity a" "identity (clearAuthStateOnSuccess now a) = identity a"
  by (simp_all add: identity_def ensureModelState_def normalizeModelStates_def put_model_state_def map_others_def recordRecentRequest_def auth_timed_def
      clearAuthStateOnSuccess_def Let_def split_def split: option.splits)

lemma update_keeps_identity [identity_simps]:
  "identity (au_status_update f1 x) = identity x"
  "identity (au_status_message_update f2 x) = identity x"
  "identity (au_next_retry_after_update f3 x) = identity x"
  "identity (au_unavailable_update f4 x) = identity x"
  "identity (au_quota_update f5 x) = identity x"
  "identity (au_model_states_update f6 x) = identity x"
  "identity (au_updated_at_update f7 x) = identity x"
  "identity (au_last_error_update f8 x) = identity x"
  "identity (au_success_update f9 x) = identity x"
  "identity (au_failed_update f10 x) = identity x"
  by (simp_all add: identity_def)

lemma auth_quota_identity [identity_simps]: "identity (auth_quota_failure r now b a) = identity a"
  by (simp add: identity_def auth_quota_failure_def Let_def split_def)

lemma auth_switch_identity [identity_simps]: "identity (auth_failure_switch n c r now b a) = identity a"
  by (simp add: auth_failure_switch_def Let_def identity_simps)

lemma auth_kind_identity [identity_simps]: "identity (auth_failure_kind n e r now b a) = identity a"
  by (simp add: auth_failure_kind_def Let_def split_def identity_simps)

lemma model_switch_identity [identity_simps]: "identity (fst (snd (model_failure_switch n r k now b s a))) = identity a"
proof -
  have "identity (fst (snd (quota_failure r k now b s a))) = identity a" "identity (fst (snd (invalid_key_failure k now b s a))) = identity a"
    "identity (fst (snd (cloudflare_failure now b s a))) = identity a" "identity (fst (snd (model_timed m d now b s a))) = identity a" for m d
    by (simp_all add: identity_def quota_failure_def invalid_key_failure_def cloudflare_failure_def model_timed_def map_others_def Let_def split_def)
  then show ?thesis by (simp add: model_failure_switch_def Let_def)
qed

lemma model_failure_identity [identity_simps]: "identity (fst (model_failure n r k now b a)) = identity a"
  by (simp add: model_failure_def Let_def split_def identity_simps split: option.splits)

lemma other_identity [identity_simps]:
  "identity (model_success k now a) = identity a" "identity (observe_quota r h k now a) = identity a"
  "identity (applyAuthFailureState J n e rt now b a) = identity a"
  by (simp_all add: model_success_def observe_quota_def applyAuthFailureState_def Let_def identity_simps split: option.splits)

lemma mark_auth_identity [identity_simps]: "identity (fst (mark_auth J n b r h now a)) = identity a"
  by (simp add: mark_auth_def Let_def split_def identity_simps)

section \<open>The credentials of a manager stay the same ones\<close>

text \<open>What a recorded result does to the manager: it may replace a credential it holds by one of the
  same identity, and tells the scheduler of no other.\<close>

definition same_holder :: "Manager \<Rightarrow> string \<Rightarrow> Auth \<Rightarrow> bool" where
  "same_holder m i a \<longleftrightarrow> (\<exists>b. mget (mg_auths m) i = Some b \<and> identity a = identity b)"

definition recorded_over :: "string \<Rightarrow> Manager \<Rightarrow> Manager \<Rightarrow> bool" where
  "recorded_over i m m' \<longleftrightarrow>
     (mg_auths m' = mg_auths m \<or> (\<exists>a. same_holder m i a \<and> mg_auths m' = mput i a (mg_auths m))) \<and>
     (\<exists>evs. mg_events m' = mg_events m @ evs \<and> (\<forall>a. SchedulerUpsert a \<in> set evs \<longrightarrow> same_holder m i a))"

lemma persist_events:
  "\<exists>evs. mg_events (fst (persistCooldownStates E now m)) = mg_events m @ evs \<and> (\<forall>a. SchedulerUpsert a \<notin> set evs)"
  by (simp add: persistCooldownStates_def emit_def Let_def)

lemma MarkResult_recorded: "recorded_over (re_auth_id r) m (fst (MarkResult E h now r m))"
proof (cases "re_auth_id r = [] \<or> mget (mg_auths m) (re_auth_id r) = None")
  case True
  then show ?thesis by (auto simp: MarkResult_def recorded_over_def emit_def)
next
  case False
  then obtain b where b: "re_auth_id r \<noteq> []" "mget (mg_auths m) (re_auth_id r) = Some b" by auto
  obtain a mk where mk: "mark_auth (en_json E) (mg_transient_seconds m) (cooldownDisabledForAuth m b) r h now b = (a, mk)"
    by (cases "mark_auth (en_json E) (mg_transient_seconds m) (cooldownDisabledForAuth m b) r h now b")
  then have "identity a = identity b" using mark_auth_identity by (metis fst_conv)
  then have a: "same_holder m (re_auth_id r) a" using b by (auto simp: same_holder_def)
  define m1 where "m1 = emit ([PersistAuth a] @ (if mg_has_scheduler m then [SchedulerUpsert a] else []))
                               (m\<lparr>mg_auths := mput (re_auth_id r) a (mg_auths m)\<rparr>)"
  define changed where "changed = (mg_has_cooldown_store m \<and> \<not> cooldownStateRecordsEqual
                      (cooldownStateRecordsForAuthLocked (cooldownDisabledForAuth m b) now b)
                      (cooldownStateRecordsForAuthLocked (cooldownDisabledForAuth m a) now a))"
  obtain m2 saved where m2: "(if changed then persistCooldownStates E now m1 else (m1, True)) = (m2, saved)"
    by (cases "if changed then persistCooldownStates E now m1 else (m1, True)")
  have ev1: "mg_auths m1 = mput (re_auth_id r) a (mg_auths m)"
    "\<exists>evs. mg_events m1 = mg_events m @ evs \<and> (\<forall>x. SchedulerUpsert x \<in> set evs \<longrightarrow> x = a)"
    by (simp_all add: m1_def emit_def)
  have "mg_auths m2 = mg_auths m1 \<and> (\<exists>evs. mg_events m2 = mg_events m1 @ evs \<and> (\<forall>x. SchedulerUpsert x \<notin> set evs))"
  proof -
    have "m2 = (if changed then fst (persistCooldownStates E now m1) else m1)" using m2 by (auto split: if_splits)
    then show ?thesis using persist_events [of E now m1] by simp
  qed
  then have m2': "mg_auths m2 = mput (re_auth_id r) a (mg_auths m)"
    "\<exists>evs. mg_events m2 = mg_events m @ evs \<and> (\<forall>x. SchedulerUpsert x \<in> set evs \<longrightarrow> x = a)"
    using ev1 by auto
  have e: "fst (MarkResult E h now r m) = (if en_persist_fails E a then emit [PersistAuth a] m
      else emit [HookResult r, SessionResult r] (m2\<lparr>mg_registry := mark_registry (re_auth_id r) (canonicalModelKey (re_model r)) mk now (mg_registry m2)\<rparr>))"
    using b(1) unfolding MarkResult_def Let_def b(2) option.case mk prod.case m1_def [symmetric] changed_def [symmetric] m2 by simp
  show ?thesis using m2' a unfolding e recorded_over_def by (auto simp: emit_def)
qed

lemma neutral_recorded: "recorded_over (re_auth_id r) m (fst (recordAvailabilityNeutralResult E now r m))"
proof (cases "re_auth_id r = [] \<or> mget (mg_auths m) (re_auth_id r) = None")
  case True
  then show ?thesis by (auto simp: recordAvailabilityNeutralResult_def recorded_over_def emit_def)
next
  case False
  then obtain b where b: "re_auth_id r \<noteq> []" "mget (mg_auths m) (re_auth_id r) = Some b" by auto
  define a where "a = (let a1 = recordRecentRequest b now (re_success r) in
     if re_success r then a1\<lparr>au_success := au_success a1 + 1\<rparr> else a1\<lparr>au_failed := au_failed a1 + 1\<rparr>)"
  have "identity a = identity b" by (simp add: a_def Let_def identity_simps)
  then have "same_holder m (re_auth_id r) a" using b by (auto simp: same_holder_def)
  moreover have "fst (recordAvailabilityNeutralResult E now r m) =
      emit [PersistAuth a, HookResult r] (m\<lparr>mg_auths := mput (re_auth_id r) a (mg_auths m)\<rparr>)"
    using b by (simp add: recordAvailabilityNeutralResult_def a_def Let_def)
  ultimately show ?thesis by (auto simp: recorded_over_def emit_def)
qed

section \<open>A recorded result keeps the conductor in order\<close>

lemma deliver_ok:
  assumes "scheduler_ok P now s" "\<And>a. SchedulerUpsert a \<in> set evs \<Longrightarrow> trimmed a \<and> au_id a \<in> P"
  shows "scheduler_ok P now (deliver r now evs s)"
  using assms(2)
proof (induction evs rule: rev_induct)
  case Nil
  then show ?case using assms(1) by (simp add: deliver_def)
next
  case (snoc ev evs)
  have IH: "scheduler_ok P now (deliver r now evs s)" using snoc by simp
  show ?case
  proof (cases "\<exists>a. ev = SchedulerUpsert a")
    case True
    then obtain a where a: "ev = SchedulerUpsert a" "trimmed a" "au_id a \<in> P" using snoc.prems by auto
    obtain A where A: "holds now (deliver r now evs s) A" "dom A \<subseteq> P" "0 \<le> now" using IH by (auto simp: scheduler_ok_def)
    have "holds now (upsertAuth r a now (deliver r now evs s)) (spec_upsert r a A)"
      using upsertAuth_holds [OF A(1,3)] a(2) by (simp add: upsertAuth_def trimmed_def)
    moreover have "dom (spec_upsert r a A) \<subseteq> P" using A(2) a by (auto simp: spec_upsert_def Let_def trimmed_def)
    ultimately show ?thesis using a(1) A(3) by (auto simp: deliver_def scheduler_ok_def)
  next
    case False
    then show ?thesis using IH by (cases ev) (auto simp: deliver_def)
  qed
qed

section \<open>What a request may rely on\<close>

text \<open>No credential allows more than \<open>B\<close> retries.\<close>

definition limits_within :: "int \<Rightarrow> int \<Rightarrow> Conductor \<Rightarrow> bool" where
  "limits_within B D c \<longleftrightarrow> (\<forall>i a. mget (mg_auths (cd_manager c)) i = Some a \<longrightarrow> effectiveRequestRetryLimit a D \<le> B)"

definition place_ok :: "('w, 'p, 'r) runtime \<Rightarrow> string set \<Rightarrow> int \<Rightarrow> 'w place \<Rightarrow> bool" where
  "place_ok R P B st \<longleftrightarrow> finite P \<and> conductor_ok P (ru_time R (snd st)) (fst st) \<and>
     limits_within B (rs_request_retry (ru_settings R)) (fst st)"

text \<open>The clock goes on, and nothing outside brings the conductor out of order: the identifiers of the
  credentials stay in \<open>P\<close> and their limits within \<open>B\<close>.\<close>

definition lawful :: "('w, 'p, 'r) runtime \<Rightarrow> string set \<Rightarrow> int \<Rightarrow> bool" where
  "lawful R P B \<longleftrightarrow>
     (\<forall>w. clocks_from (ru_time R w) (ru_clocks R w) \<and> ru_clocks R w 2 2 \<le> ru_time R (ru_picked R w)) \<and>
     (\<forall>st. place_ok R P B st \<longrightarrow>
        place_ok R P B (ru_others R st) \<and>
        (\<forall>p a. place_ok R P B (fst (ru_prepare R p a st))) \<and>
        (\<forall>p m meta al pl. place_ok R P B (fst (ru_intercept R p m meta al pl st))) \<and>
        (\<forall>k. place_ok R P B (fst (ru_call R k st))) \<and>
        (\<forall>a. place_ok R P B (fst (ru_refresh R a st))) \<and>
        (\<forall>d. place_ok R P B (fst (ru_sleep R d st))) \<and>
        place_ok R P B (fst (ru_credits R st)))"

lemma lawfulD:
  assumes "lawful R P B" "place_ok R P B st"
  shows "place_ok R P B (ru_others R st)" "place_ok R P B (fst (ru_prepare R p a st))"
    "place_ok R P B (fst (ru_intercept R p m meta al pl st))" "place_ok R P B (fst (ru_call R k st))"
    "place_ok R P B (fst (ru_refresh R a st))" "place_ok R P B (fst (ru_sleep R d st))" "place_ok R P B (fst (ru_credits R st))"
  using assms unfolding lawful_def by blast+

lemma lawful_clocks: "lawful R P B \<Longrightarrow> clocks_from (ru_time R w) (ru_clocks R w) \<and> ru_clocks R w 2 2 \<le> ru_time R (ru_picked R w)"
  by (simp add: lawful_def)

section \<open>Every step keeps the conductor in order\<close>

lemma limit_identity: "identity a = identity b \<Longrightarrow> effectiveRequestRetryLimit a D = effectiveRequestRetryLimit b D"
  by (simp add: identity_def effectiveRequestRetryLimit_def RequestRetryOverride_def)

lemma recorded_limits:
  assumes "recorded_over i (cd_manager c) (cd_manager c')" "limits_within B D c"
  shows "limits_within B D c'"
proof (cases "mg_auths (cd_manager c') = mg_auths (cd_manager c)")
  case True
  then show ?thesis using assms(2) by (simp add: limits_within_def)
next
  case False
  then obtain a b where a: "mget (mg_auths (cd_manager c)) i = Some b" "identity a = identity b"
    "mg_auths (cd_manager c') = mput i a (mg_auths (cd_manager c))" using assms(1) by (auto simp: recorded_over_def same_holder_def)
  then have "effectiveRequestRetryLimit a D \<le> B" using assms(2) limit_identity [OF a(2)] by (metis limits_within_def)
  then show ?thesis using assms(2) a(3) unfolding limits_within_def by simp
qed

lemma same_holder_ok:
  assumes "manager_ok P m" "same_holder m i a"
  shows "trimmed a \<and> au_id a = i \<and> i \<in> P"
proof -
  obtain b where b: "mget (mg_auths m) i = Some b" "identity a = identity b" using assms(2) by (auto simp: same_holder_def)
  then have "au_id b = i \<and> i \<in> P \<and> trimmed b" using assms(1) unfolding manager_ok_def by blast
  then show ?thesis using b(2) unfolding identity_def trimmed_def by (metis prod.inject)
qed

lemma recorded_manager:
  assumes "recorded_over i m m'" "manager_ok P m"
  shows "manager_ok P m'"
proof (cases "mg_auths m' = mg_auths m")
  case True
  then show ?thesis using assms by (simp add: manager_ok_def)
next
  case False
  then obtain a where a: "same_holder m i a" "mg_auths m' = mput i a (mg_auths m)" using assms(1) by (auto simp: recorded_over_def)
  have "manager_ok P (m\<lparr>mg_auths := mput i a (mg_auths m)\<rparr>)"
    using same_holder_ok [OF assms(2) a(1)] by (intro manager_ok_put [OF assms(2)]) auto
  then show ?thesis using a(2) by (simp add: manager_ok_def)
qed

lemma record_result_ok:
  assumes l: "lawful R P B" and p: "place_ok R P B st"
  shows "place_ok R P B (fst (record_result R neutral result st))"
proof -
  obtain c w where o: "ru_others R st = (c, w)" by (cases "ru_others R st")
  define now where "now = ru_time R w"
  have ok: "finite P" "conductor_ok P now c" "limits_within B (rs_request_retry (ru_settings R)) c"
    using lawfulD(1) [OF l p] o by (auto simp: place_ok_def now_def)
  obtain m' e where m': "(if neutral then recordAvailabilityNeutralResult (ru_env R) now result (cd_manager c)
      else MarkResult (ru_env R) (ru_headers R w) now result (cd_manager c)) = (m', e)" by (metis surj_pair)
  have "m' = fst (if neutral then recordAvailabilityNeutralResult (ru_env R) now result (cd_manager c)
      else MarkResult (ru_env R) (ru_headers R w) now result (cd_manager c))" using m' by simp
  then have ro: "recorded_over (re_auth_id result) (cd_manager c) m'" using MarkResult_recorded neutral_recorded by simp
  then obtain evs where evs: "mg_events m' = mg_events (cd_manager c) @ evs"
    "\<forall>a. SchedulerUpsert a \<in> set evs \<longrightarrow> same_holder (cd_manager c) (re_auth_id result) a" by (auto simp: recorded_over_def)
  define c' where "c' = c\<lparr>cd_manager := m', cd_scheduler := deliver (mg_registry (cd_manager c)) now evs (cd_scheduler c)\<rparr>"
  have r: "fst (record_result R neutral result st) = (c', w)"
    using m' [unfolded now_def] evs(1) by (simp add: record_result_def o c'_def now_def Let_def split del: if_split)
  have m: "manager_ok P (cd_manager c)" and s: "scheduler_ok P now (cd_scheduler c)" using ok(2) by (simp_all add: conductor_ok_def)
  have "scheduler_ok P now (deliver (mg_registry (cd_manager c)) now evs (cd_scheduler c))"
  proof (rule deliver_ok [OF s])
    fix a assume "SchedulerUpsert a \<in> set evs"
    then have "same_holder (cd_manager c) (re_auth_id result) a" using evs(2) by simp
    from same_holder_ok [OF m this] show "trimmed a \<and> au_id a \<in> P" by simp
  qed
  then have "scheduler_ok P now (cd_scheduler c')" by (simp add: c'_def)
  moreover have "manager_ok P (cd_manager c')" using recorded_manager [OF ro m] by (simp add: c'_def)
  moreover have "limits_within B (rs_request_retry (ru_settings R)) c'" using recorded_limits [OF _ ok(3), of "re_auth_id result" c'] ro by (simp add: c'_def)
  ultimately show ?thesis using ok(1) unfolding r by (simp add: place_ok_def conductor_ok_def now_def)
qed

lemma place_offsets: "place_ok R P B (c, w) \<Longrightarrow> place_ok R P B (c\<lparr>cd_pool_offsets := f\<rparr>, w)"
  by (simp add: place_ok_def conductor_ok_def limits_within_def)

section \<open>The pick of a request as a source of credentials\<close>

lemma assign_index_recorded: "assign_index f a c = (c', a') \<Longrightarrow> \<exists>i. recorded_over i (cd_manager c) (cd_manager c')"
proof -
  assume r: "assign_index f a c = (c', a')"
  have E: "identity (EnsureIndex f b) = identity b" for b by (simp add: EnsureIndex_def identity_def Let_def)
  have n: "recorded_over i m m" for i m by (simp add: recorded_over_def)
  show ?thesis
  proof (cases "mget (mg_auths (cd_manager c)) (au_id a)")
    case None
    then show ?thesis using r n by (auto simp: assign_index_def split: if_splits)
  next
    case (Some b)
    then have "recorded_over (au_id a) (cd_manager c) ((cd_manager c)\<lparr>mg_auths := mput (au_id a) (EnsureIndex f b) (mg_auths (cd_manager c))\<rparr>)"
      using E by (auto simp: recorded_over_def same_holder_def)
    then show ?thesis using r Some n by (auto simp: assign_index_def Let_def split: if_splits)
  qed
qed

lemma pickNextMixed_recorded:
  assumes r: "pickNextMixed f clks providers q c = (c', r)"
  shows "\<exists>i. recorded_over i (cd_manager c) (cd_manager c')"
proof -
  have n: "recorded_over i m m" for i m by (simp add: recorded_over_def)
  have L: "\<exists>i. recorded_over i (cd_manager c) (cd_manager (fst (pickNextMixedLegacy f clk providers q c)))" for clk
  proof -
    have A: "\<exists>i. recorded_over i (cd_manager c) (cd_manager (fst (assign_index f a (c\<lparr>cd_selector := s\<rparr>))))" for a s
      using assign_index_recorded [of f a "c\<lparr>cd_selector := s\<rparr>"] by (cases "assign_index f a (c\<lparr>cd_selector := s\<rparr>)") simp
    show ?thesis using n A by (auto simp: pickNextMixedLegacy_def Let_def split_def split: sum.splits)
  qed
  have F: "cd_manager (fst (fast_pick clk ps q d)) = cd_manager d" for clk ps d by (simp add: fast_pick_def split_def Let_def)
  have S: "cd_manager (syncScheduler t d) = cd_manager d" for t d by (simp add: syncScheduler_def)
  define ps where "ps = eligible_providers c providers"
  consider (none) "ps = []" | (slow) "ps \<noteq> []" "needs_route_aware ps q c" | (fast) "ps \<noteq> []" "\<not> needs_route_aware ps q c" by blast
  then show ?thesis
  proof cases
    case none
    then show ?thesis using r n by (auto simp: pickNextMixed_def ps_def)
  next
    case slow
    then have "pickNextMixedLegacy f (clks 0) providers q c = (c', r)" using r by (simp add: pickNextMixed_def ps_def)
    then show ?thesis using L by (metis fst_conv)
  next
    case fast
    obtain c1 r1 where f1: "fast_pick (clks 0) ps q c = (c1, r1)" by (cases "fast_pick (clks 0) ps q c")
    obtain c2 r2 where f2: "fast_pick (clks 2) ps q (syncScheduler (clks 1 0) c1) = (c2, r2)" by (cases "fast_pick (clks 2) ps q (syncScheduler (clks 1 0) c1)")
    obtain c3 r3 where x: "(c3, r3) = (case r1 of
                 Inl e \<Rightarrow> if sq_model q \<noteq> [] \<and> shouldRetrySchedulerPick e then (c2, r2) else (c1, r1) | _ \<Rightarrow> (c1, r1))" by (metis surj_pair)
    have "cd_manager c1 = cd_manager c" "cd_manager c2 = cd_manager c" using F f1 f2 S by (metis fst_conv)+
    then have m: "cd_manager c3 = cd_manager c" using x by (auto split: sum.splits if_splits)
    have e: "pickNextMixed f clks providers q c = (case r3 of
             Inl e \<Rightarrow> (c3, Inl e)
           | Inr (selected, providerKey) \<Rightarrow>
               if \<not> has_executor c3 providerKey then (c3, Inl (AuthError (auth_error ''executor_not_found'' ''executor not registered'')))
               else let (c4, a) = assign_index f selected c3 in (c4, Inr (a, providerKey)))"
      using fast unfolding pickNextMixed_def ps_def [symmetric] Let_def f1 prod.case f2 x [symmetric] by simp
    show ?thesis
    proof (cases r3)
      case (Inl e')
      then show ?thesis using r m n unfolding e by auto
    next
      case (Inr ak)
      obtain a k where ak: "ak = (a, k)" by (cases ak)
      obtain c4 a4 where i: "assign_index f a c3 = (c4, a4)" by (cases "assign_index f a c3")
      show ?thesis using r m n assign_index_recorded [OF i] i unfolding e Inr ak by (auto split: if_splits)
    qed
  qed
qed

section \<open>Sources of credentials\<close>

text \<open>A source hands out credentials of a finite pool, none that was tried before.\<close>

locale credential_source =
  fixes sound :: "'s \<Rightarrow> bool"
    and pick :: "string list \<Rightarrow> 's \<Rightarrow> 's \<times> string option"
    and pool :: "string set"
  assumes sound_finite: "sound s \<Longrightarrow> finite pool"
    and sound_pick: "sound s \<Longrightarrow> sound (fst (pick tried s))"
    and fresh_pick: "sound s \<Longrightarrow> snd (pick tried s) = Some i \<Longrightarrow> i \<in> pool \<and> i \<notin> set tried"
begin

lemma pick_decreases:
  assumes "sound s" "snd (pick tried s) = Some i"
  shows "card (pool - set (insert_id i tried)) < card (pool - set tried)"
proof -
  have i: "i \<in> pool" "i \<notin> set tried" using fresh_pick [OF assms] by auto
  then have "pool - set (insert_id i tried) = (pool - set tried) - {i}" by (auto simp: insert_id_def)
  moreover have "finite (pool - set tried)" using sound_finite [OF assms(1)] by simp
  ultimately show ?thesis using i by (metis DiffI card_Diff1_less)
qed

lemma exhausted_pick: "sound s \<Longrightarrow> pool \<subseteq> set tried \<Longrightarrow> snd (pick tried s) = None"
  using fresh_pick by (metis not_Some_eq subsetD)

end

text \<open>The pick of a request is one.\<close>

definition picked_id :: "pick_error + Auth \<times> string \<Rightarrow> string option" where
  "picked_id r = (case r of Inl _ \<Rightarrow> None | Inr (a, _) \<Rightarrow> Some (au_id a))"

lemma pick_place_ok:
  assumes l: "lawful R P B" and p: "place_ok R P B st"
  shows "place_ok R P B (fst (pick_place R q providers meta tried st)) \<and>
    (case snd (pick_place R q providers meta tried st) of Inl _ \<Rightarrow> True | Inr (a, k) \<Rightarrow> au_id a \<in> P \<and> au_id a \<notin> set tried)"
proof -
  let ?q = "request_of q (authSelectionModelFromOptions (xr_metadata q) (xr_model q)) (withExcludedAuthIDs meta tried) tried"
  obtain c w where o: "ru_others R st = (c, w)" by (cases "ru_others R st")
  obtain c1 r where pk: "pickNextMixed (ru_index R) (ru_clocks R w) providers ?q c = (c1, r)"
    by (cases "pickNextMixed (ru_index R) (ru_clocks R w) providers ?q c")
  have ok: "finite P" "conductor_ok P (ru_time R w) c" "limits_within B (rs_request_retry (ru_settings R)) c"
    using lawfulD(1) [OF l p] o by (auto simp: place_ok_def)
  note ck = lawful_clocks [OF l, of w]
  from pickNextMixed_ok [OF ok(2) conjunct1 [OF ck] pk] have
    1: "conductor_ok P (ru_clocks R w 2 2) c1" "case r of Inl _ \<Rightarrow> True | Inr (a, k) \<Rightarrow> au_id a \<in> P \<and> au_id a \<notin> set tried"
    by (auto simp: request_of_def split: sum.splits)
  have "conductor_ok P (ru_time R (ru_picked R w)) c1" using conductor_ok_mono [OF 1(1)] ck by blast
  moreover have "limits_within B (rs_request_retry (ru_settings R)) c1" using pickNextMixed_recorded [OF pk] recorded_limits ok(3) by blast
  ultimately show ?thesis using ok(1) 1(2) by (simp add: pick_place_def o pk place_ok_def)
qed

interpretation request_source: credential_source
  "\<lambda>st. lawful R P B \<and> place_ok R P B st"
  "\<lambda>tried st. (fst (pick_place R q providers meta tried st), picked_id (snd (pick_place R q providers meta tried st)))" P
  for R :: "('w, 'p, 'r) runtime" and P B and q :: "'p request" and providers meta
proof
  fix s :: "Conductor \<times> 'w" and tried i
  assume s: "lawful R P B \<and> place_ok R P B s"
  then show "finite P" by (simp add: place_ok_def)
  show "lawful R P B \<and> place_ok R P B (fst (fst (pick_place R q providers meta tried s), picked_id (snd (pick_place R q providers meta tried s))))"
    using s pick_place_ok [of R P B s q providers meta tried] by simp
  assume "snd (fst (pick_place R q providers meta tried s), picked_id (snd (pick_place R q providers meta tried s))) = Some i"
  then show "i \<in> P \<and> i \<notin> set tried"
    using pick_place_ok [of R P B s q providers meta tried] s by (auto simp: picked_id_def split: sum.splits)
qed

section \<open>Every step keeps the place in order\<close>

lemma refresh_ok: "lawful R P B \<Longrightarrow> place_ok R P B st \<Longrightarrow> place_ok R P B (fst (tryRefreshAfterUnauthorized R a e b st))"
  using lawfulD(5) [of R P B st a] by (simp add: tryRefreshAfterUnauthorized_def)

lemma invoke_ok:
  assumes l: "lawful R P B" and p: "place_ok R P B (at_place x)"
  shows "place_ok R P B (at_place (fst (invoke R ff k x)))"
proof -
  obtain st1 r1 where c1: "ru_call R k (at_place x) = (st1, r1)" by (cases "ru_call R k (at_place x)")
  have p1: "place_ok R P B st1" using lawfulD(4) [OF l p, of k] c1 by simp
  show ?thesis
  proof (cases r1)
    case (Inr resp)
    then show ?thesis using p1 c1 by (simp add: invoke_def)
  next
    case (Inl e)
    obtain st2 fr where rf: "tryRefreshAfterUnauthorized R (at_auth x) e (at_refreshed x) st1 = (st2, fr)"
      by (cases "tryRefreshAfterUnauthorized R (at_auth x) e (at_refreshed x) st1")
    have p2: "place_ok R P B st2" using refresh_ok [OF l p1, of "at_auth x" e "at_refreshed x"] rf by simp
    have p3: "place_ok R P B (fst (ru_call R k' st2))" for k' using lawfulD(4) [OF l p2] .
    show ?thesis using p1 p2 p3 by (auto simp: invoke_def c1 Inl rf Let_def split_def split: option.splits sum.splits)
  qed
qed

lemma settle_failure_ok:
  assumes l: "lawful R P B" and p: "place_ok R P B (at_place x)"
  shows "place_ok R P B (at_place (fst (settle_failure R ff action fault rn e x)))"
proof -
  obtain result neutral where rn: "rn = (result, neutral)" by (cases rn)
  obtain st rec where r: "record_result R neutral result (at_place x) = (st, rec)" by (cases "record_result R neutral result (at_place x)")
  have "place_ok R P B st" using record_result_ok [OF l p, of neutral result] r by simp
  then show ?thesis by (auto simp: settle_failure_def rn r Let_def split: option.splits)
qed

lemma settle_success_ok:
  assumes l: "lawful R P B" and p: "place_ok R P B (at_place x)"
  shows "place_ok R P B (at_place (fst (settle_success R counting ff result ar resp x)))"
proof -
  have "place_ok R P B (fst (markEmptyCompletion R result (at_place x)))"
    using record_result_ok [OF l p] by (simp add: markEmptyCompletion_def split_def Let_def)
  then show ?thesis using record_result_ok [OF l p]
    by (auto simp: settle_success_def Let_def split_def split: option.splits)
qed

lemma run_model_ok:
  assumes l: "lawful R P B" and p: "place_ok R P B (at_place x)"
  shows "place_ok R P B (at_place (fst (run_model R counting q provider meta pooled ar m x)))"
proof -
  define al where "al = requestedModelAliasFromOptions meta (authSelectionModelFromOptions (xr_metadata q) (xr_model q))"
  define md where "md = (case executionModelForAuthSelection (xr_metadata q) (xr_model q) of Some m \<Rightarrow> m | None \<Rightarrow> m)"
  obtain st1 pl bl where ic: "ru_intercept R provider md meta al (xr_payload q) (at_place x) = (st1, pl, bl)"
    by (metis prod_cases3)
  have p1: "place_ok R P B (at_place (x\<lparr>at_place := st1\<rparr>))" using lawfulD(3) [OF l p, of provider md meta al "xr_payload q"] ic by simp
  let ?k = "\<lparr>cl_count = counting, cl_provider = provider, cl_auth = at_auth x, cl_model = md, cl_metadata = meta, cl_payload = pl\<rparr>"
  obtain l2 r2 where iv: "invoke R (isModelRoutingOptions (xr_metadata q)) ?k (x\<lparr>at_place := st1\<rparr>) = (l2, r2)"
    by (cases "invoke R (isModelRoutingOptions (xr_metadata q)) ?k (x\<lparr>at_place := st1\<rparr>)")
  have p2: "place_ok R P B (at_place l2)" using invoke_ok [OF l p1, of "isModelRoutingOptions (xr_metadata q)" ?k] iv by simp
  show ?thesis
    using p1 p2 settle_failure_ok [OF l p2] settle_success_ok [OF l p2]
    by (auto simp: run_model_def al_def [symmetric] md_def [symmetric] ic iv Let_def split: option.splits sum.splits)
qed

lemma each_model_ok:
  assumes l: "lawful R P B" and "place_ok R P B (at_place x)"
  shows "place_ok R P B (at_place (fst (each_model (run_model R counting q provider meta pooled ar) ms x)))"
  using assms(2)
proof (induction ms arbitrary: x)
  case (Cons m ms)
  obtain x' e where r: "run_model R counting q provider meta pooled ar m x = (x', e)"
    by (cases "run_model R counting q provider meta pooled ar m x")
  have "place_ok R P B (at_place x')" using run_model_ok [OF l Cons.prems, of counting q provider meta pooled ar m] r by simp
  then show ?case using Cons.IH by (cases e) (simp_all add: r)
qed simp

section \<open>A round ends\<close>

lemma set_insert_id [simp]: "set (insert_id i ids) = insert i (set ids)"
  by (auto simp: insert_id_def)

lemma after_models_route:
  "ro_place (fst (after_models R counting alt x s)) = ro_place s \<and> ro_tried (fst (after_models R counting alt x s)) = ro_tried s \<and>
   ro_attempted (fst (after_models R counting alt x s)) = ro_attempted s"
  by (auto simp: after_models_def Let_def split: option.splits)

lemma prepare_failed_ok:
  assumes l: "lawful R P B" and p: "place_ok R P B (ro_place s)"
  shows "place_ok R P B (ro_place (fst (prepare_failed R counting q provider a e s))) \<and>
    ro_tried (fst (prepare_failed R counting q provider a e s)) = ro_tried s \<and>
    ro_attempted (fst (prepare_failed R counting q provider a e s)) = ro_attempted s"
  using record_result_ok [OF l p] p by (auto simp: prepare_failed_def Let_def split_def split: option.splits)

text \<open>Using a credential adds it to those tried, and to those attempted unless it has no model.\<close>

lemma use_credential_ok:
  assumes l: "lawful R P B" and p: "place_ok R P B (ro_place s)"
  shows "place_ok R P B (ro_place (fst (use_credential R counting q pickMeta a provider s))) \<and>
    ro_tried (fst (use_credential R counting q pickMeta a provider s)) = insert_id (au_id a) (ro_tried s) \<and>
    ro_attempted (fst (use_credential R counting q pickMeta a provider s)) \<in> {ro_attempted s, insert_id (au_id a) (ro_attempted s)}"
proof -
  define routeModel where "routeModel = authSelectionModelFromOptions (xr_metadata q) (xr_model q)"
  define ff where "ff = isModelRoutingOptions (xr_metadata q)"
  define published where "published = publishSelectedAuthMetadata (ru_index R) a (ro_metadata s)"
  define meta where "meta = (if ro_tried s = [] then published else pickMeta)"
  obtain c w where o: "ru_others R (ro_place s) = (c, w)" by (cases "ru_others R (ro_place s)")
  obtain offs ms0 pd0 al0 where pr: "preparedExecutionModelsWithAlias (cd_aliases c) a routeModel (ru_time R w) (cd_pool_offsets c) = (offs, ms0, pd0, al0)"
    by (metis prod_cases4)
  obtain ms pd al where ms: "(if ff then ([routeModel], False, no_alias) else (ms0, pd0, al0)) = (ms, pd, al)" by (metis prod_cases3)
  define s1 where "s1 = s\<lparr>ro_place := (c\<lparr>cd_pool_offsets := offs\<rparr>, w), ro_metadata := published, ro_tried := insert_id (au_id a) (ro_tried s)\<rparr>"
  have p1: "place_ok R P B (ro_place s1)" using lawfulD(1) [OF l p] o by (auto simp: s1_def intro: place_offsets)
  obtain st2 a2 failed where prep: "ru_prepare R provider a (ro_place s1) = (st2, a2, failed)" by (metis prod_cases3)
  have p2: "place_ok R P B st2" using lawfulD(2) [OF l p1, of provider a] prep by simp
  define s2 where "s2 = s1\<lparr>ro_place := st2, ro_attempted := insert_id (au_id a) (ro_attempted s1)\<rparr>"
  define x0 where "x0 = \<lparr>at_place = st2, at_auth = a2, at_refreshed = False, at_tracker = ro_tracker s2, at_error = None\<rparr>"
  obtain x r where em: "each_model (run_model R counting q provider meta pd al) ms x0 = (x, r)"
    by (cases "each_model (run_model R counting q provider meta pd al) ms x0")
  have px: "place_ok R P B (at_place x)"
    using each_model_ok [OF l, of x0 counting q provider meta pd al ms] p2 em by (simp add: x0_def)
  have e: "use_credential R counting q pickMeta a provider s =
      (if ms = [] then (s1, None) else case failed of Some e \<Rightarrow> prepare_failed R counting q provider a2 e s2
         | None \<Rightarrow> (case r of Some y \<Rightarrow> (s2\<lparr>ro_place := at_place x, ro_tracker := at_tracker x\<rparr>, Some y)
             | None \<Rightarrow> after_models R counting (xr_alt q) x (s2\<lparr>ro_place := at_place x, ro_tracker := at_tracker x\<rparr>)))"
    unfolding use_credential_def Let_def o prod.case routeModel_def [symmetric] ff_def [symmetric] pr ms
      published_def [symmetric] meta_def [symmetric] s1_def [symmetric] prep s2_def [symmetric] x0_def [symmetric] em by (rule refl)
  have s2: "place_ok R P B (ro_place s2)" "ro_tried s2 = insert_id (au_id a) (ro_tried s)" "ro_attempted s2 = insert_id (au_id a) (ro_attempted s)"
    "ro_tried s1 = insert_id (au_id a) (ro_tried s)" "ro_attempted s1 = ro_attempted s"
    using p2 by (simp_all add: s2_def s1_def)
  show ?thesis unfolding e
    using p1 s2 px prepare_failed_ok [OF l s2(1), of counting q provider a2] after_models_route [of R counting "xr_alt q" x]
    by (auto split: option.splits)
qed

text \<open>The loop picks a credential of \<open>P\<close> that was not tried, or stops.\<close>

lemma try_credential_ok:
  assumes l: "lawful R P B" and p: "place_ok R P B (ro_place s)" and t: "try_credential R counting q providers s = (s', r)"
  shows "place_ok R P B (ro_place s') \<and>
    ((ro_tried s' = ro_tried s \<and> ro_attempted s' = ro_attempted s \<and> r \<noteq> None) \<or>
     (\<exists>i. i \<in> P \<and> i \<notin> set (ro_tried s) \<and> ro_tried s' = ro_tried s @ [i] \<and> ro_attempted s' \<in> {ro_attempted s, insert_id i (ro_attempted s)}))"
proof -
  obtain st picked where pk: "pick_place R q providers (ro_metadata s) (ro_tried s) (ro_place s) = (st, picked)"
    by (cases "pick_place R q providers (ro_metadata s) (ro_tried s) (ro_place s)")
  note P = pick_place_ok [OF l p, of q providers "ro_metadata s" "ro_tried s", unfolded pk fst_conv snd_conv]
  have t': "(s', r) = (case picked of
        Inl e \<Rightarrow> (s\<lparr>ro_place := st\<rparr>, Some (Inl (case ro_last s of Some last_err \<Rightarrow> last_err | None \<Rightarrow> of_pick_error (ru_cooldown_text R) e)))
      | Inr (a, provider) \<Rightarrow> use_credential R counting q (withExcludedAuthIDs (ro_metadata s) (ro_tried s)) a provider (s\<lparr>ro_place := st\<rparr>))"
    using t by (simp add: try_credential_def pk Let_def)
  show ?thesis
  proof (cases picked)
    case (Inl e)
    then show ?thesis using t' P by simp
  next
    case (Inr ap)
    obtain a provider where ap: "ap = (a, provider)" by (cases ap)
    have "place_ok R P B (ro_place (s\<lparr>ro_place := st\<rparr>))" using P by simp
    note U = use_credential_ok [OF l this, of counting q "withExcludedAuthIDs (ro_metadata s) (ro_tried s)" a provider]
    have "au_id a \<in> P" "au_id a \<notin> set (ro_tried s)" using P Inr ap by simp_all
    moreover have "use_credential R counting q (withExcludedAuthIDs (ro_metadata s) (ro_tried s)) a provider (s\<lparr>ro_place := st\<rparr>) = (s', r)"
      using t' Inr ap by simp
    ultimately show ?thesis using U by (auto simp: insert_id_def)
  qed
qed

text \<open>The credentials a route has tried since another one.\<close>

definition tried_since :: "string set \<Rightarrow> 'w route \<Rightarrow> 'w route \<Rightarrow> bool" where
  "tried_since P s s' \<longleftrightarrow> (\<exists>picks. ro_tried s' = ro_tried s @ picks \<and> distinct picks \<and> set picks \<subseteq> P - set (ro_tried s) \<and>
     set (ro_attempted s') \<subseteq> set (ro_attempted s) \<union> set picks)"

lemma mixed_loop_ok:
  assumes l: "lawful R P B"
  shows "place_ok R P B (ro_place s) \<Longrightarrow> mixed_loop R counting q providers fuel s = Some (s', r) \<Longrightarrow>
    place_ok R P B (ro_place s') \<and> tried_since P s s' \<and>
    (0 < rs_max_credentials (ru_settings R) \<longrightarrow>
       int (length (ro_attempted s')) \<le> max (rs_max_credentials (ru_settings R)) (int (length (ro_attempted s))))"
proof (induction fuel arbitrary: s)
  case (Suc fuel)
  let ?limit = "rs_max_credentials (ru_settings R)"
  show ?case
  proof (cases "?limit > 0 \<and> int (length (ro_attempted s)) \<ge> ?limit")
    case True
    then show ?thesis using Suc.prems by (auto simp: Let_def tried_since_def)
  next
    case go: False
    obtain s1 r1 where t: "try_credential R counting q providers s = (s1, r1)" by (cases "try_credential R counting q providers s")
    note T = try_credential_ok [OF l Suc.prems(1) t]
    then consider (same) "ro_tried s1 = ro_tried s" "ro_attempted s1 = ro_attempted s" "r1 \<noteq> None"
      | (new) i where "i \<in> P" "i \<notin> set (ro_tried s)" "ro_tried s1 = ro_tried s @ [i]" "ro_attempted s1 \<in> {ro_attempted s, insert_id i (ro_attempted s)}"
      by blast
    then show ?thesis
    proof cases
      case same
      then have "s' = s1" using Suc.prems(2) go t by (auto simp: Let_def)
      then show ?thesis using same T by (auto simp: tried_since_def)
    next
      case new
      have len: "int (length (ro_attempted s1)) \<le> int (length (ro_attempted s)) + 1"
        using new(4) by (auto simp: insert_id_def)
      have one: "tried_since P s s1" unfolding tried_since_def using new by (intro exI [of _ "[i]"]) auto
      show ?thesis
      proof (cases r1)
        case (Some y)
        then have "s' = s1" using Suc.prems(2) go t by (auto simp: Let_def)
        then show ?thesis using one T len go by auto
      next
        case None
        then have m: "mixed_loop R counting q providers fuel s1 = Some (s', r)" using Suc.prems(2) go t by (auto simp: Let_def)
        note IH = Suc.IH [OF conjunct1 [OF T] m]
        obtain picks where pk: "ro_tried s' = ro_tried s1 @ picks" "distinct picks" "set picks \<subseteq> P - set (ro_tried s1)"
          "set (ro_attempted s') \<subseteq> set (ro_attempted s1) \<union> set picks"
          using IH by (auto simp: tried_since_def)
        have "tried_since P s s'"
          unfolding tried_since_def using pk new by (intro exI [of _ "i # picks"]) auto
        then show ?thesis using IH len go by auto
      qed
    qed
  qed
qed simp

text \<open>Every credential tried leaves fewer to try, so fuel for each of them, and one step more, is enough.\<close>

lemma try_decreases:
  assumes l: "lawful R P B" and p: "place_ok R P B (ro_place s)" and t: "try_credential R counting q providers s = (s', None)"
  shows "card (P - set (ro_tried s')) < card (P - set (ro_tried s))"
proof -
  obtain st picked where pk: "pick_place R q providers (ro_metadata s) (ro_tried s) (ro_place s) = (st, picked)"
    by (cases "pick_place R q providers (ro_metadata s) (ro_tried s) (ro_place s)")
  have t': "(s', None) = (case picked of
        Inl e \<Rightarrow> (s\<lparr>ro_place := st\<rparr>, Some (Inl (case ro_last s of Some last_err \<Rightarrow> last_err | None \<Rightarrow> of_pick_error (ru_cooldown_text R) e)))
      | Inr (a, provider) \<Rightarrow> use_credential R counting q (withExcludedAuthIDs (ro_metadata s) (ro_tried s)) a provider (s\<lparr>ro_place := st\<rparr>))"
    using t by (simp add: try_credential_def pk Let_def)
  then obtain a provider where ap: "picked = Inr (a, provider)" by (cases picked) auto
  have "place_ok R P B (ro_place (s\<lparr>ro_place := st\<rparr>))"
    using pick_place_ok [OF l p, of q providers "ro_metadata s" "ro_tried s"] pk by simp
  note U = use_credential_ok [OF l this, of counting q "withExcludedAuthIDs (ro_metadata s) (ro_tried s)" a provider]
  have "use_credential R counting q (withExcludedAuthIDs (ro_metadata s) (ro_tried s)) a provider (s\<lparr>ro_place := st\<rparr>) = (s', None)"
    using t' ap by simp
  then have "ro_tried s' = insert_id (au_id a) (ro_tried s)" using U by simp
  then show ?thesis
    using request_source.pick_decreases [where R = R and P = P and B = B and q = q and providers = providers
        and meta = "ro_metadata s" and s = "ro_place s" and tried = "ro_tried s" and i = "au_id a"] l p pk ap
    by (simp add: picked_id_def)
qed

lemma mixed_loop_ends:
  assumes l: "lawful R P B"
  shows "place_ok R P B (ro_place s) \<Longrightarrow> card (P - set (ro_tried s)) < fuel \<Longrightarrow> mixed_loop R counting q providers fuel s \<noteq> None"
proof (induction fuel arbitrary: s)
  case (Suc fuel)
  obtain s1 r1 where t: "try_credential R counting q providers s = (s1, r1)" by (cases "try_credential R counting q providers s")
  note T = try_credential_ok [OF l Suc.prems(1) t]
  show ?case
  proof (cases r1)
    case (Some y)
    then show ?thesis using t by (simp add: Let_def)
  next
    case None
    then have "card (P - set (ro_tried s1)) < card (P - set (ro_tried s))" using try_decreases [OF l Suc.prems(1)] t by simp
    then have "mixed_loop R counting q providers fuel s1 \<noteq> None" using Suc T by simp
    then show ?thesis using t None by (simp add: Let_def)
  qed
qed simp

section \<open>A request ends\<close>

lemma begin_round_facts:
  "ro_place (begin_round q n d s) = ro_place s" "ro_attempted (begin_round q n d s) = []"
  by (simp_all add: begin_round_def)

lemma mixed_once_ends:
  assumes l: "lawful R P B" and p: "place_ok R P B (ro_place s)" and f: "card P < fuel"
  shows "\<exists>s' r. mixed_once R counting q providers n d fuel s = Some (s', r) \<and> place_ok R P B (ro_place s')"
proof (cases "providers = []")
  case True
  then show ?thesis using p by (simp add: mixed_once_def)
next
  case False
  let ?b = "begin_round q n d s"
  have fin: "finite P" using p by (simp add: place_ok_def)
  have "card (P - set (ro_tried ?b)) \<le> card P" by (rule card_mono [OF fin]) blast
  then obtain s' r where m: "mixed_loop R counting q providers fuel ?b = Some (s', r)"
    using mixed_loop_ends [OF l, of ?b fuel counting q providers] p f by (auto simp: begin_round_facts)
  then have "place_ok R P B (ro_place s')" using mixed_loop_ok [OF l, of ?b counting q providers fuel s' r] p by (simp add: begin_round_facts)
  then show ?thesis using m False by (simp add: mixed_once_def)
qed

lemma retry_granted:
  assumes "shouldRetryAfterError J clk f attempt providers q maxWait d c = Some w" "conductor_ok P t c" "limits_within B d c"
  shows "attempt < B"
proof -
  have "retryAllowed (clk 0) attempt providers q d c"
    using assms(1) by (auto simp: shouldRetryAfterError_def Let_def split: if_splits)
  then obtain a where a: "a \<in> set (cd_auths c)" "attempt < effectiveRequestRetryLimit a (max 0 d)"
    by (auto simp: retryAllowed_def retry_candidate_def list_ex_iff simp del: effectiveRequestRetryLimit_max)
  have "mget (mg_auths (cd_manager c)) (au_id a) = Some a"
    using manager_auth [of P "cd_manager c" a] assms(2) a(1) by (simp add: conductor_ok_def cd_auths_def)
  then have "effectiveRequestRetryLimit a d \<le> B" using assms(3) by (simp add: limits_within_def)
  then show ?thesis using a(2) unfolding effectiveRequestRetryLimit_max by linarith
qed

lemma clocks_end: "clocks_from t clks \<Longrightarrow> t \<le> clks 2 2"
  by (auto simp: clocks_from_def ticking_def)

lemma place_later:
  assumes l: "lawful R P B" and p: "place_ok R P B (c, w)"
  shows "place_ok R P B (c, ru_picked R w)"
proof -
  have "ru_time R w \<le> ru_time R (ru_picked R w)" using lawful_clocks [OF l, of w] clocks_end by (meson order_trans)
  then show ?thesis using p conductor_ok_mono by (auto simp: place_ok_def)
qed

lemma wait_ok: "lawful R P B \<Longrightarrow> place_ok R P B st \<Longrightarrow> place_ok R P B (fst (waitForCooldown R d st))"
  using lawfulD(6) [of R P B st] by (simp add: waitForCooldown_def)

lemma retry_loop_ends:
  assumes l: "lawful R P B" and f: "card P < fuel"
  shows "place_ok R P B (ro_place s) \<Longrightarrow> nat (B - attempt) < rounds \<Longrightarrow>
    \<exists>s' r. retry_loop R counting q providers fuel rounds attempt lastErr s = Some (s', r) \<and> place_ok R P B (ro_place s')"
proof (induction rounds arbitrary: attempt lastErr s)
  case (Suc rounds)
  let ?D = "rs_request_retry (ru_settings R)"
  obtain s1 r1 where m: "mixed_once R counting q providers attempt ?D fuel s = Some (s1, r1)" and p1: "place_ok R P B (ro_place s1)"
    using mixed_once_ends [OF l Suc.prems(1) f, of counting q providers attempt ?D] by blast
  obtain c w where o: "ru_others R (ro_place s1) = (c, w)" by (cases "ru_others R (ro_place s1)")
  have pc: "place_ok R P B (c, w)" using lawfulD(1) [OF l p1] o by simp
  note pl = place_later [OF l pc]
  show ?case
  proof (cases r1)
    case (Inr resp)
    then show ?thesis using m p1 by simp
  next
    case (Inl e)
    show ?thesis
    proof (cases "fl_terminated e \<or> fl_stop e")
      case True
      then show ?thesis using m p1 Inl by simp
    next
      case go: False
      define last1 where "last1 = (case lastErr of None \<Rightarrow> e | Some l \<Rightarrow> if \<not> isAuthNotFoundError e then e else l)"
      define retry where "retry = shouldRetryAfterError (en_json (ru_env R)) (ru_clocks R w 0) e attempt providers
                      (request_of q (authSelectionModelFromOptions (xr_metadata q) (xr_model q)) (xr_metadata q) [])
                      (rs_max_wait (ru_settings R)) ?D c"
      have step: "retry_loop R counting q providers fuel (Suc rounds) attempt lastErr s =
          (case retry of None \<Rightarrow> Some (s1\<lparr>ro_place := (c, ru_picked R w)\<rparr>, Inl last1)
               | Some wait \<Rightarrow>
                   (case waitForCooldown R wait (c, ru_picked R w) of
                      (st, Some ec) \<Rightarrow> Some (s1\<lparr>ro_place := st\<rparr>, Inr (Inl ec))
                    | (st, None) \<Rightarrow>
                        retry_loop R counting q providers fuel rounds (attempt + 1) (Some last1)
                          (s1\<lparr>ro_place := st,
                             ro_tried := resetRetryRoundExclusions (ro_tried s1) (first_seen (extractExcludedAuthIDs (xr_metadata q))) e wait (fst st)\<rparr>)))"
        using go unfolding retry_loop.simps(2) m Inl Let_def option.case prod.case sum.case o last1_def retry_def by simp
      show ?thesis
      proof (cases retry)
        case None
        then show ?thesis unfolding step using pl by simp
      next
        case (Some wait)
        obtain st ec where wt: "waitForCooldown R wait (c, ru_picked R w) = (st, ec)" by (cases "waitForCooldown R wait (c, ru_picked R w)")
        have pst: "place_ok R P B st" using wait_ok [OF l pl, of wait] wt by simp
        have "attempt < B"
          using retry_granted [of _ _ _ attempt _ _ _ ?D c wait P "ru_time R w" B] Some pc unfolding retry_def place_ok_def by auto
        then have "nat (B - (attempt + 1)) < rounds" using Suc.prems(2) by linarith
        then show ?thesis unfolding step using Some wt pst Suc.IH by (auto split: option.splits)
      qed
    qed
  qed
qed simp

lemma ordered_loop_ends:
  assumes l: "lawful R P B" and f: "card P < fuel"
  shows "place_ok R P B (fst st) \<Longrightarrow>
    \<exists>st' r. ordered_loop R counting q providers chain fuel idx lastErr cands st = Some (st', r) \<and> place_ok R P B (fst st')"
proof (induction cands arbitrary: idx lastErr st)
  case (Cons cand cands)
  let ?s = "new_route (fst st) [] (snd st)"
  have p: "place_ok R P B (ro_place ?s)" using Cons.prems by (simp add: new_route_def)
  obtain s r where m: "mixed_once R counting (candidate_request q idx cand) (orderedCandidateProviders providers (oc_channel cand)) 0 0 fuel ?s = Some (s, r)"
      and ps: "place_ok R P B (ro_place s)"
    using mixed_once_ends [OF l p f, of counting "candidate_request q idx cand" "orderedCandidateProviders providers (oc_channel cand)" 0 0] by blast
  show ?case
  proof (cases r)
    case (Inr resp)
    then show ?thesis using m ps by simp
  next
    case (Inl e)
    have "\<exists>st' r. ordered_loop R counting q providers chain fuel (Suc idx) e cands (ro_place s, ro_tracker s) = Some (st', r) \<and> place_ok R P B (fst st')"
      using Cons.IH ps by simp
    then show ?thesis using m ps Inl by (simp add: Let_def del: split_paired_Ex)
  qed
qed simp

lemma ordered_failover_ends:
  assumes l: "lawful R P B" and f: "card P < fuel" and p: "place_ok R P B st"
  shows "\<exists>st' r. ordered_failover R counting q providers fuel st = Some (st', r) \<and> place_ok R P B st'"
proof (cases "routeGuardExcludedModel (ru_excluded R) providers q")
  case (Some e)
  then show ?thesis using p by (simp add: ordered_failover_def)
next
  case None
  define chain where "chain = orderedCandidateChainForRequest (fst st) providers q"
  define s0 where "s0 = (new_route st (if counting then [] else extractExcludedAuthIDs (xr_metadata q)) newRouteAttemptTracker :: 'a route)"
  have "place_ok R P B (ro_place s0)" using p by (simp add: s0_def new_route_def)
  from mixed_once_ends [OF l this f, of counting q providers 0 0]
  have one: "\<exists>s r. mixed_once R counting q providers 0 0 fuel s0 = Some (s, r) \<and> place_ok R P B (ro_place s)" .
  have many: "\<exists>st' r. ordered_loop R counting q providers chain fuel 0 (auth_failure ''auth_not_found'' ''no auth available'') chain
      (st, newRouteAttemptTracker) = Some (st', r) \<and> place_ok R P B (fst st')"
    by (rule ordered_loop_ends [OF l f]) (simp add: p)
  show ?thesis using None one many
    unfolding ordered_failover_def Let_def chain_def [symmetric] s0_def [symmetric] by (auto simp del: split_paired_Ex)
qed

text \<open>C1. Every request ends: with a finite pool of credentials, fuel for one more step than there are
  credentials and for one more round than the greatest retry limit is enough, whatever the executors,
  the interceptor and the other requests do.\<close>

theorem request_terminates:
  assumes "lawful R P B" "place_ok R P B st" "card P < fuel" "nat B < rounds"
  shows "(\<exists>st' r. Execute R providers q fuel rounds st = Some (st', r) \<and> place_ok R P B st') \<and>
    (\<exists>st' r. ExecuteCount R providers q fuel rounds st = Some (st', r) \<and> place_ok R P B st')"
proof -
  define ps where "ps = normalizeProviders providers"
  let ?s = "new_route st (extractExcludedAuthIDs (xr_metadata q)) newRouteAttemptTracker"
  have r: "\<exists>s' r. retry_loop R b q ps fuel rounds 0 None ?s = Some (s', r) \<and> place_ok R P B (ro_place s')" for b
    using retry_loop_ends [OF assms(1,3), of ?s 0 rounds b q ps None] assms(2,4) by (simp add: new_route_def)
  obtain s1 r1 where 1: "retry_loop R False q ps fuel rounds 0 None ?s = Some (s1, r1)" "place_ok R P B (ro_place s1)" using r by blast
  obtain s2 r2 where 2: "retry_loop R True q ps fuel rounds 0 None ?s = Some (s2, r2)" "place_ok R P B (ro_place s2)" using r by blast
  have c: "place_ok R P B (fst (ru_credits R (ro_place s1)))" by (rule lawfulD(7) [OF assms(1) 1(2)])
  note F = ordered_failover_ends [OF assms(1,3,2)]
  obtain st3 r3 where 3: "ordered_failover R False q ps fuel st = Some (st3, r3)" "place_ok R P B st3" using F by blast
  obtain st4 r4 where 4: "ordered_failover R True q ps fuel st = Some (st4, r4)" "place_ok R P B st4" using F by blast
  obtain st5 r5 where 5: "ru_credits R (ro_place s1) = (st5, r5)" "place_ok R P B st5" using c by (cases "ru_credits R (ro_place s1)") auto
  have "\<exists>st' r. Execute R providers q fuel rounds st = Some (st', r) \<and> place_ok R P B st'"
    using assms(2) unfolding Execute_def executeWithOrderedFailover_def ps_def [symmetric] Let_def 1 3 5
    by (cases r1) (auto simp: 1 3 5 simp del: split_paired_Ex split: sum.splits option.splits)
  moreover have "\<exists>st' r. ExecuteCount R providers q fuel rounds st = Some (st', r) \<and> place_ok R P B st'"
    using assms(2) unfolding ExecuteCount_def executeCountWithOrderedFailover_def ps_def [symmetric] Let_def 2 4
    by (cases r2) (auto simp: 2 4 simp del: split_paired_Ex)
  ultimately show ?thesis by blast
qed

text \<open>What a round books: each credential at most once, none that the caller or an earlier round excluded,
  and no more of them than the configured maximum.\<close>

lemma round_tried_once:
  assumes "lawful R P B" "place_ok R P B (ro_place s)" "providers \<noteq> []"
    and "executeMixedOnce R q providers n d fuel s = Some (s', r) \<or> executeCountMixedOnce R q providers n d fuel s = Some (s', r)"
  shows "(\<exists>picks. ro_tried s' = ro_tried (begin_round q n d s) @ picks \<and> distinct picks \<and>
      set picks \<subseteq> P - set (ro_tried (begin_round q n d s)) \<and> set (ro_attempted s') \<subseteq> set picks) \<and>
    (0 < rs_max_credentials (ru_settings R) \<longrightarrow> int (length (ro_attempted s')) \<le> rs_max_credentials (ru_settings R))"
proof -
  let ?b = "begin_round q n d s"
  obtain counting where m: "mixed_loop R counting q providers fuel ?b = Some (s', r)"
    using assms(3,4) by (auto simp: executeMixedOnce_def executeCountMixedOnce_def mixed_once_def)
  have "place_ok R P B (ro_place ?b)" using assms(2) by (simp add: begin_round_facts)
  from mixed_loop_ok [OF assms(1) this m] show ?thesis by (auto simp: tried_since_def begin_round_facts)
qed

section \<open>Ordered chains\<close>

text \<open>The run of a candidate, and an abstract account of the failover: it goes from a candidate to the
  next one exactly by a failure that may be retried.\<close>

definition run_candidate ::
  "('w, 'p, 'r) runtime \<Rightarrow> bool \<Rightarrow> 'p request \<Rightarrow> string list \<Rightarrow> OrderedCandidate list \<Rightarrow> nat \<Rightarrow> nat \<Rightarrow>
   'w place \<times> routeAttemptTracker \<Rightarrow> (('w place \<times> routeAttemptTracker) \<times> (Failure + 'r)) option" where
  "run_candidate R counting q providers chain fuel k st =
     map_option (\<lambda>(s, r). ((ro_place s, ro_tracker s), r))
       (mixed_once R counting (candidate_request q k (chain ! k)) (orderedCandidateProviders providers (oc_channel (chain ! k))) 0 0 fuel
         (new_route (fst st) [] (snd st)))"

inductive advances ::
  "('w, 'p, 'r) runtime \<Rightarrow> bool \<Rightarrow> 'p request \<Rightarrow> string list \<Rightarrow> OrderedCandidate list \<Rightarrow> nat \<Rightarrow>
   'w place \<times> routeAttemptTracker \<Rightarrow> nat \<Rightarrow> Failure \<Rightarrow> 'w place \<times> routeAttemptTracker \<Rightarrow> bool"
  for R counting q providers chain fuel st0 where
  start: "advances R counting q providers chain fuel st0 0 (auth_failure ''auth_not_found'' ''no auth available'') st0"
| advance: "advances R counting q providers chain fuel st0 k e st \<Longrightarrow> k < length chain \<Longrightarrow>
    run_candidate R counting q providers chain fuel k st = Some (st', Inl e') \<Longrightarrow>
    retryablePreFirstByteError (en_json (ru_env R)) e' \<Longrightarrow> advances R counting q providers chain fuel st0 (Suc k) e' st'"

inductive failover ::
  "('w, 'p, 'r) runtime \<Rightarrow> bool \<Rightarrow> 'p request \<Rightarrow> string list \<Rightarrow> OrderedCandidate list \<Rightarrow> nat \<Rightarrow>
   'w place \<times> routeAttemptTracker \<Rightarrow> 'w place \<times> routeAttemptTracker \<Rightarrow> Failure + 'r \<Rightarrow> bool"
  for R counting q providers chain fuel st0 where
  answered: "advances R counting q providers chain fuel st0 k e st \<Longrightarrow> k < length chain \<Longrightarrow>
    run_candidate R counting q providers chain fuel k st = Some (st', Inr resp) \<Longrightarrow>
    failover R counting q providers chain fuel st0 st' (Inr resp)"
| stopped: "advances R counting q providers chain fuel st0 k e st \<Longrightarrow> k < length chain \<Longrightarrow>
    run_candidate R counting q providers chain fuel k st = Some (st', Inl e') \<Longrightarrow>
    \<not> retryablePreFirstByteError (en_json (ru_env R)) e' \<Longrightarrow>
    failover R counting q providers chain fuel st0 st'
      (Inl (if permanentOrderedStopError (en_json (ru_env R)) e' then annotateOrderedError e' chain k ''permanent'' else e'))"
| exhausted: "advances R counting q providers chain fuel st0 (length chain) e st \<Longrightarrow>
    failover R counting q providers chain fuel st0 st (Inl (annotateOrderedError e chain (length chain - 1) ''exhausted''))"

lemma permanent_not_retryable: "permanentOrderedStopError J e \<Longrightarrow> \<not> retryablePreFirstByteError J e"
  by (simp add: retryablePreFirstByteError_def)

lemma ordered_loop_failover:
  assumes "advances R counting q providers chain fuel st0 k e st" "cands = drop k chain" "k \<le> length chain"
    and "ordered_loop R counting q providers chain fuel k e cands st = Some (st', r)"
  shows "failover R counting q providers chain fuel st0 st' r"
  using assms
proof (induction cands arbitrary: k e st)
  case Nil
  then have k: "k = length chain" by simp
  have r: "st = st'" "r = Inl (annotateOrderedError e chain (length chain - 1) ''exhausted'')" using Nil.prems(4) by simp_all
  show ?case unfolding r(2) by (rule failover.exhausted [of R counting q providers chain fuel st0 e]) (use Nil.prems(1) k r(1) in simp)
next
  case (Cons cand cands)
  have k: "k < length chain" using Cons.prems(2) by (metis drop_all leI list.discI)
  then have c: "cand = chain ! k" "cands = drop (Suc k) chain" using Cons.prems(2) by (simp_all add: Cons_nth_drop_Suc [symmetric])
  obtain s x where m: "mixed_once R counting (candidate_request q k cand) (orderedCandidateProviders providers (oc_channel cand)) 0 0 fuel
      (new_route (fst st) [] (snd st)) = Some (s, x)" using Cons.prems(4) by (auto split: option.splits)
  then have run: "run_candidate R counting q providers chain fuel k st = Some ((ro_place s, ro_tracker s), x)" by (simp add: run_candidate_def c(1))
  show ?case
  proof (cases x)
    case (Inr resp)
    then have r: "(ro_place s, ro_tracker s) = st'" "r = Inr resp" using Cons.prems(4) m by simp_all
    show ?thesis unfolding r(2) by (rule failover.answered [OF Cons.prems(1) k]) (use run Inr r(1) in simp)
  next
    case (Inl e')
    show ?thesis
    proof (cases "retryablePreFirstByteError (en_json (ru_env R)) e'")
      case True
      then have "advances R counting q providers chain fuel st0 (Suc k) e' (ro_place s, ro_tracker s)"
        using Cons.prems(1) k run Inl advances.advance by blast
      moreover have not_permanent: "\<not> permanentOrderedStopError (en_json (ru_env R)) e'" using True permanent_not_retryable by blast
      have "ordered_loop R counting q providers chain fuel (Suc k) e' cands (ro_place s, ro_tracker s) = Some (st', r)"
        using Cons.prems(4) m Inl True not_permanent by (simp add: Let_def)
      ultimately show ?thesis using Cons.IH c(2) k by simp
    next
      case False
      then have r: "(ro_place s, ro_tracker s) = st'"
          "r = Inl (if permanentOrderedStopError (en_json (ru_env R)) e' then annotateOrderedError e' chain k ''permanent'' else e')"
        using Cons.prems(4) m Inl by (auto simp: Let_def split: if_splits)
      show ?thesis unfolding r(2) by (rule failover.stopped [OF Cons.prems(1) k _ False]) (use run Inl r(1) in simp)
    qed
  qed
qed

text \<open>C2. The loop over an ordered chain refines the account of it: it answers with the first candidate that
  succeeds, every one before having failed in a way that may be retried; it stops at the first failure
  that may not be; and only after the last candidate it is exhausted.\<close>

theorem ordered_failover_refines:
  assumes "routeGuardExcludedModel (ru_excluded R) providers q = None"
    and "1 < length (orderedCandidateChainForRequest (fst st) providers q)"
    and "executeWithOrderedFailover R q providers fuel st = Some (st', r)"
  shows "\<exists>t. failover R False q providers (orderedCandidateChainForRequest (fst st) providers q) fuel
    (st, newRouteAttemptTracker) (st', t) r"
proof -
  let ?chain = "orderedCandidateChainForRequest (fst st) providers q"
  obtain t where o: "ordered_loop R False q providers ?chain fuel 0 (auth_failure ''auth_not_found'' ''no auth available'') ?chain (st, newRouteAttemptTracker) =
      Some ((st', t), r)"
    using assms by (auto simp: executeWithOrderedFailover_def ordered_failover_def Let_def)
  have "failover R False q providers ?chain fuel (st, newRouteAttemptTracker) (st', t) r"
    by (rule ordered_loop_failover [OF advances.start _ _ o]) simp_all
  then show ?thesis ..
qed

section \<open>Example\<close>

text \<open>A world that counts the calls; the first \<open>n\<close> of them fail with a 503.\<close>

definition example_runtime :: "nat \<Rightarrow> (nat, unit, string) runtime" where
  "example_runtime n = \<lparr>ru_env = example_environment, ru_settings = \<lparr>rs_request_retry = 3, rs_max_credentials = 2, rs_max_wait = 30 * second\<rparr>,
     ru_excluded = [], ru_credits_enabled = False, ru_index = (\<lambda>_. []), ru_regex = (\<lambda>_ _. False), ru_own_rules = (\<lambda>_. []),
     ru_model_not_found = (\<lambda>_ _. False), ru_cooldown_text = (\<lambda>_ _ _. ''cooling down''), ru_mark_failure = (\<lambda>_. plain_failure ''not saved''),
     ru_empty = (\<lambda>r. r = []), ru_rewrite = (\<lambda>alias_name r. ''model '' @ alias_name), ru_time = (\<lambda>_. 200), ru_clocks = (\<lambda>_ _ _. 200),
     ru_picked = id, ru_headers = (\<lambda>_. []), ru_context = (\<lambda>_. None), ru_draw = (\<lambda>_ _. 0), ru_others = id,
     ru_prepare = (\<lambda>_ a st. (st, a, None)), ru_intercept = (\<lambda>_ _ _ _ pl st. (st, pl, None)),
     ru_call = (\<lambda>k st. ((fst st, Suc (snd st)),
        if snd st < n then Inl (of_error \<lparr>er_code = [], er_message = ''overloaded'', er_retryable = False, er_http_status = 503\<rparr>)
        else Inr (''model '' @ cl_model k))),
     ru_refresh = (\<lambda>_ st. (st, None)), ru_sleep = (\<lambda>_ st. (st, None)), ru_credits = (\<lambda>st. (st, Inr None))\<rparr>"

definition example_alias_conductor :: "OAuthModelAlias list \<Rightarrow> Conductor" where
  "example_alias_conductor entries =
     \<lparr>cd_manager = (example_manager ((empty_auth ''a'')\<lparr>au_provider := ''codex''\<rparr>))\<lparr>mg_registry := two_models\<rparr>,
      cd_scheduler = newAuthScheduler RoundRobinKind, cd_selector = FillFirstSel, cd_executors = [''codex''],
      cd_aliases = \<lparr>ae_unmarshal = (\<lambda>_. None), ae_table = compileOAuthModelAliasTable [(''codex'', entries)],
        ae_routing = \<lparr>rc_gemini = [], rc_interactions = [], rc_claude = [], rc_codex = [], rc_xai = [], rc_vertex = [], rc_compat = [],
          rc_oauth_request_scoped_errors = []\<rparr>, ae_key_aliases = []\<rparr>,
      cd_pool_offsets = []\<rparr>"

definition forced_alias :: "string \<Rightarrow> OAuthModelAlias" where
  "forced_alias name = (example_alias name ''smart'')\<lparr>oa_force_mapping := True\<rparr>"

definition example_request :: "string \<Rightarrow> unit request" where
  "example_request model = \<lparr>xr_model = model, xr_payload = (), xr_metadata = [], xr_kind = [], xr_policy = [], xr_websocket = False, xr_alt = []\<rparr>"

definition answer_of :: "('s \<times> (Failure + 'r)) option \<Rightarrow> 'r option" where
  "answer_of x = (case x of Some (_, Inr r) \<Rightarrow> Some r | _ \<Rightarrow> None)"

text \<open>The credentials of this world stay the one.\<close>

lemma example_keeps: "place_ok (example_runtime n) P B (c, w) = place_ok (example_runtime n) P B (c, w')"
  by (simp add: place_ok_def example_runtime_def)

lemma example_lawful: "lawful (example_runtime n) P B"
proof -
  have c: "place_ok (example_runtime n) P B st \<Longrightarrow> place_ok (example_runtime n) P B (fst st, w)" for st w
    using example_keeps by (metis prod.collapse)
  have f: "ru_others (example_runtime n) st = st" "fst (ru_prepare (example_runtime n) p a st) = st"
    "fst (ru_intercept (example_runtime n) p m meta al pl st) = st" "fst (ru_call (example_runtime n) k st) = (fst st, Suc (snd st))"
    "fst (ru_refresh (example_runtime n) a st) = st" "fst (ru_sleep (example_runtime n) d st) = st" "fst (ru_credits (example_runtime n) st) = st"
    for st p a m meta al pl k d
    by (simp_all add: example_runtime_def)
  have "clocks_from (ru_time (example_runtime n) w) (ru_clocks (example_runtime n) w) \<and>
      ru_clocks (example_runtime n) w 2 2 \<le> ru_time (example_runtime n) (ru_picked (example_runtime n) w)" for w
    by (simp add: example_runtime_def clocks_from_def ticking_def)
  then show ?thesis unfolding lawful_def f using c by blast
qed

lemma example_place: "place_ok (example_runtime n) {''a''} 3 (example_alias_conductor entries, w)"
proof -
  define a where "a = (empty_auth ''a'')\<lparr>au_provider := ''codex''\<rparr>"
  have a: "au_id a = ''a''" "au_metadata a = []" by (simp_all add: a_def empty_auth_def)
  have t: "trim_space ''a'' = ''a''" by code_simp
  have m: "mg_auths (cd_manager (example_alias_conductor entries)) = [(''a'', a)]"
    by (simp add: example_alias_conductor_def example_manager_def a_def [symmetric] a(1))
  have s: "cd_scheduler (example_alias_conductor entries) = newAuthScheduler RoundRobinKind"
    by (simp add: example_alias_conductor_def)
  have "manager_ok {''a''} (cd_manager (example_alias_conductor entries))"
    unfolding manager_ok_def m using a t by (auto simp: trimmed_def)
  moreover have "scheduler_ok {''a''} 200 (cd_scheduler (example_alias_conductor entries))"
    unfolding scheduler_ok_def s using new_holds [of 200 RoundRobinKind] by (intro conjI exI [of _ "\<lambda>_. None"]) simp_all
  moreover have "effectiveRequestRetryLimit a 3 = 3"
    using a(2) by (simp add: effectiveRequestRetryLimit_def RequestRetryOverride_def or_else_def Let_def)
  ultimately show ?thesis
    by (auto simp: place_ok_def conductor_ok_def limits_within_def m example_runtime_def)
qed

theorem request_terminates_witness:
  "\<exists>st' r. Execute (example_runtime 1) [''Codex''] (example_request ''o3'') 2 4 (example_alias_conductor [], 0) = Some (st', r)"
  using request_terminates [OF example_lawful [of 1 "{''a''}" 3] example_place [of 1 "[]" 0], of 2 4 "[''Codex'']" "example_request ''o3''"] by auto

theorem ordered_failover_refines_witness:
  "\<exists>st' t r. failover (example_runtime 1) False (example_request ''smart'') [''codex'']
     (orderedCandidateChainForRequest (example_alias_conductor [forced_alias ''o3'', forced_alias ''gpt-5'']) [''codex''] (example_request ''smart'')) 2
     ((example_alias_conductor [forced_alias ''o3'', forced_alias ''gpt-5''], 0), newRouteAttemptTracker) (st', t) r"
proof -
  let ?c = "example_alias_conductor [forced_alias ''o3'', forced_alias ''gpt-5'']" and ?R = "example_runtime 1"
  have g: "routeGuardExcludedModel (ru_excluded ?R) [''codex''] (example_request ''smart'') = None"
    "1 < length (orderedCandidateChainForRequest (fst (?c, 0 :: nat)) [''codex''] (example_request ''smart''))" by code_simp+
  obtain st' r where "ordered_failover ?R False (example_request ''smart'') [''codex''] 2 (?c, 0) = Some (st', r)"
    using ordered_failover_ends [OF example_lawful _ example_place [of 1 "[forced_alias ''o3'', forced_alias ''gpt-5'']" 0],
        where fuel = 2 and counting = False and q = "example_request ''smart''" and providers = "[''codex'']"]
    by auto
  then have "executeWithOrderedFailover ?R (example_request ''smart'') [''codex''] 2 (?c, 0) = Some (st', r)"
    by (simp add: executeWithOrderedFailover_def)
  from ordered_failover_refines [OF g this] show ?thesis unfolding fst_conv by blast
qed

section \<open>A divergence\<close>

text \<open>An alias that forces its name on the responses loses that force when it has more than one entry: the
  chain asks each candidate for its upstream model by name.\<close>

definition forced_pair :: Conductor where
  "forced_pair = example_alias_conductor [forced_alias ''o3'', forced_alias ''gpt-5'']"

lemma forced_pair_forces:
  "ar_force_mapping (resolveUpstreamModelFromAliasTable (ae_table (cd_aliases forced_pair)) ''smart'' ''codex'')"
  by code_simp

theorem chain_loses_forced_alias:
  "answer_of (Execute (example_runtime 0) [''Codex''] (example_request ''smart'') 2 4 (forced_pair, 0)) = Some ''model o3''"
proof -
  define chain where "chain = orderedCandidateChainForRequest forced_pair [''codex''] (example_request ''smart'')"
  define c0 where "c0 = \<lparr>oc_channel = ''codex'', oc_upstream_model = ''o3'', oc_config_alias = ''smart'', oc_force_mapping = True\<rparr>"
  define c1 where "c1 = \<lparr>oc_channel = ''codex'', oc_upstream_model = ''gpt-5'', oc_config_alias = ''smart'', oc_force_mapping = True\<rparr>"
  have p: "normalizeProviders [''Codex''] = [''codex'']" "orderedCandidateProviders [''codex''] ''codex'' = [''codex'']" by code_simp+
  have ch: "chain = [c0, c1]" unfolding chain_def c0_def c1_def by code_simp
  have g: "routeGuardExcludedModel (ru_excluded (example_runtime 0)) [''codex''] (example_request ''smart'') = None" by code_simp
  have "answer_of (mixed_once (example_runtime 0) False (candidate_request (example_request ''smart'') 0 c0) [''codex''] 0 0 2
      (new_route (forced_pair, 0) [] newRouteAttemptTracker)) = Some ''model o3''" unfolding c0_def by code_simp
  then obtain s where s: "mixed_once (example_runtime 0) False (candidate_request (example_request ''smart'') 0 c0) [''codex''] 0 0 2
      (new_route (forced_pair, 0) [] newRouteAttemptTracker) = Some (s, Inr ''model o3'')"
    by (auto simp: answer_of_def split: option.splits sum.splits)
  have "oc_channel c0 = ''codex''" by (simp add: c0_def)
  then show ?thesis unfolding Execute_def executeWithOrderedFailover_def ordered_failover_def Let_def p(1) fst_conv chain_def [symmetric] ch g
    by (simp add: p(2) s answer_of_def)
qed

section \<open>Faults of a request\<close>

definition store_works :: "environment \<Rightarrow> bool" where
  "store_works E \<longleftrightarrow> en_persist_fails E = (\<lambda>_. False) \<and> en_save_fails E = (\<lambda>_. False)"

lemma MarkResult_saved: "store_works E \<Longrightarrow> snd (MarkResult E h now r m) = None"
  by (simp add: MarkResult_def store_works_def persistCooldownStates_def Let_def split_def split: option.splits)

lemma neutral_saved: "store_works E \<Longrightarrow> snd (recordAvailabilityNeutralResult E now r m) = None"
  by (simp add: recordAvailabilityNeutralResult_def store_works_def Let_def split: option.splits)

lemma request_fault_excused:
  "isRequestInvalidFailure J e \<Longrightarrow> shouldSkipCredentialCooldown J (Some (resultErrorFromError J e))"
  by (simp add: shouldSkipCredentialCooldown_def isRequestScopedResultError_def IsRequestScoped_def resultErrorFromError_def Let_def
      ErrorCodeRequestScoped_def ErrorCodeForceCooldown_def)

lemma excused_result_keeps:
  assumes "recorded E m r a" "\<not> re_success r" "shouldSkipCredentialCooldown (en_json E) (re_error r)"
  shows "\<exists>a'. mget (mg_auths (fst (if neutral then recordAvailabilityNeutralResult E now r m else MarkResult E h now r m))) (re_auth_id r) = Some a' \<and>
    isAuthBlockedForModel (Some a') = isAuthBlockedForModel (Some a)"
proof (cases neutral)
  case True
  have "mget (mg_auths (fst (recordAvailabilityNeutralResult E now r m))) (re_auth_id r) = Some (counted r now a)"
    using assms(1,2) by (simp add: recorded_def recordAvailabilityNeutralResult_def counted_def Let_def)
  moreover have "isAuthBlockedForModel (Some (counted r now a)) = isAuthBlockedForModel (Some a)" by (intro ext) (rule counted_block)
  ultimately show ?thesis using True by simp
next
  case False
  have "isAuthBlockedForModel (Some (fst (mark_auth (en_json E) (mg_transient_seconds m) (cooldownDisabledForAuth m a) r h now a))) =
      isAuthBlockedForModel (Some a)"
    by (intro ext) (rule same_availability_block [OF mark_skipped [OF assms(2,3)]])
  then show ?thesis using recorded_auth [OF assms(1), of h now] False by auto
qed

text \<open>What becomes of a fault of the request for which no rule provides: the loop over the models returns it,
  and the credential is left as available as it was, for every model at every time.\<close>

lemma request_fault_settles:
  fixes R :: "('w, 'p, 'r) runtime" and l :: "'w attempt"
  defines "c0 \<equiv> fst (ru_others R (at_place l))"
  assumes "isRequestInvalidFailure (en_json (ru_env R)) e" "store_works (ru_env R)" "\<not> re_success base"
    and "mget (mg_auths (cd_manager c0)) (re_auth_id base) = Some a" "re_auth_id base \<noteq> []"
    and "rn = execute_failure R alt e None base \<or> rn = count_failure R model e None base"
  shows "snd (settle_failure R ff None (request_fault R counting alt e) rn e l :: 'w attempt \<times> 'r loop_end) = Returns (Inl e) \<and>
    (\<exists>a'. mget (mg_auths (cd_manager (fst (at_place (fst (settle_failure R ff None (request_fault R counting alt e) rn e l :: 'w attempt \<times> 'r loop_end))))))
       (re_auth_id base) = Some a' \<and> isAuthBlockedForModel (Some a') = isAuthBlockedForModel (Some a))"
proof -
  let ?E = "ru_env R"
  obtain r neutral where rn: "rn = (r, neutral)" by (cases rn)
  have r: "re_auth_id r = re_auth_id base" "\<not> re_success r" "re_error r = Some (resultErrorFromError (en_json ?E) e)"
    using assms(4,7) rn by (auto simp: execute_failure_def count_failure_def applyRequestScopedActionToResult_def Let_def)
  have sk: "shouldSkipCredentialCooldown (en_json ?E) (re_error r)" using request_fault_excused [OF assms(2)] r(3) by simp
  obtain w where o: "ru_others R (at_place l) = (c0, w)" unfolding c0_def by (metis prod.collapse)
  have rec: "recorded ?E (cd_manager c0) r a" using assms(3,5,6) r(1) by (simp add: recorded_def store_works_def)
  define out where "out = (if neutral then recordAvailabilityNeutralResult ?E (ru_time R w) r (cd_manager c0)
      else MarkResult ?E (ru_headers R w) (ru_time R w) r (cd_manager c0))"
  have s: "snd out = None" using MarkResult_saved [OF assms(3)] neutral_saved [OF assms(3)] by (simp add: out_def)
  obtain a' where a': "mget (mg_auths (fst out)) (re_auth_id base) = Some a'" "isAuthBlockedForModel (Some a') = isAuthBlockedForModel (Some a)"
    using excused_result_keeps [OF rec r(2) sk, of neutral "ru_time R w" "ru_headers R w"] r(1) unfolding out_def by auto
  have "snd (record_result R neutral r (at_place l)) = None \<and> cd_manager (fst (fst (record_result R neutral r (at_place l)))) = fst out"
    using s by (cases neutral) (simp_all add: record_result_def o Let_def split_def out_def)
  then obtain st where st: "record_result R neutral r (at_place l) = (st, None)" "cd_manager (fst st) = fst out"
    by (metis prod.collapse)
  have "request_fault R counting alt e" using assms(2) by (simp add: request_fault_def)
  then have "settle_failure R ff None (request_fault R counting alt e) rn e l = (l\<lparr>at_place := st\<rparr>, Returns (Inl e) :: 'r loop_end)"
    by (simp add: settle_failure_def rn st Let_def)
  then show ?thesis using a' st(2) by simp
qed

definition bad_request :: Failure where
  "bad_request = of_error \<lparr>er_code = ErrorCodeRequestScoped, er_message = ''bad tool schema'', er_retryable = False, er_http_status = 400\<rparr>"

end
