(* ===== verification/Lifecycle.thy ===== *)
theory Lifecycle
  imports Execution_Properties
begin

text \<open>
  The life of a credential (\<open>sdk/cliproxy/auth/conductor_lifecycle.go\<close>, \<open>conductor_selection.go\<close>,
  \<open>metadata_keys.go\<close>, \<open>persist_policy.go\<close>): registered, updated, removed, loaded, and brought in line
  with the registry of models, with what each tells the scheduler. The queue of refreshes, the hook, the
  sessions of executors and of the selector are events of the manager. One reading of the clock stands for
  those an operation takes. An empty map of metadata counts as absent. \<open>Update\<close> shares the model states
  of the old credential by pointer, which shows only when saving fails after they were cleared; here the
  old credential is left as it was.
\<close>

section \<open>What the operations depend on\<close>

text \<open>\<open>lc_index\<close> is the index derived from the seed of a credential, \<open>lc_new_id\<close> a fresh UUID; the two
  flags are those of the context.\<close>

record lifecycle =
  lc_env :: environment
  lc_index :: "Auth \<Rightarrow> string"
  lc_has_store :: bool
  lc_skip_persist :: bool
  lc_defer_rebuild :: bool
  lc_new_id :: string

datatype lifecycle_error =
    WeightInvalid weight_source_error
  | NoAuthID
  | NotRegistered string
  | SaveFailed
  | CooldownSaveFailed
  | LoadFailed

section \<open>Settings and executors\<close>

definition int32 :: "int \<Rightarrow> int" where
  "int32 n = (n + 2 ^ 31) mod 2 ^ 32 - 2 ^ 31"

definition SetRetryConfig :: "int \<Rightarrow> duration \<Rightarrow> int \<Rightarrow> retry_settings" where
  "SetRetryConfig retry maxRetryInterval maxRetryCredentials =
     \<lparr>rs_request_retry = int32 (max 0 retry), rs_max_credentials = int32 (max 0 maxRetryCredentials),
      rs_max_wait = max 0 maxRetryInterval\<rparr>"

definition RegisterExecutor :: "string \<Rightarrow> Conductor \<Rightarrow> Conductor" where
  "RegisterExecutor identifier c =
     (let provider = trim_space identifier in
      if provider = [] \<or> provider \<in> set (cd_executors c) then c
      else c\<lparr>cd_executors := cd_executors c @ [provider]\<rparr>)"

definition UnregisterExecutor :: "string \<Rightarrow> Conductor \<Rightarrow> Conductor" where
  "UnregisterExecutor provider0 c =
     (let provider = to_lower (trim_space provider0) in
      if provider = [] then c else c\<lparr>cd_executors := filter (\<lambda>p. p \<noteq> provider) (cd_executors c)\<rparr>)"

section \<open>Metadata keys\<close>

definition CanonicalCredentialMetadataKey :: "string \<Rightarrow> string" where
  "CanonicalCredentialMetadataKey key = mget_or key
     [(''api-key'', ''api_key''), (''base-url'', ''base_url''), (''disable-cooling'', ''disable_cooling''),
      (''excluded-models'', ''excluded_models''), (''fingerprint-profile'', ''fingerprint_profile''),
      (''model-aliases'', ''model_aliases''), (''proxy-url'', ''proxy_url''), (''request-retry'', ''request_retry''),
      (''request-scoped-errors'', ''request_scoped_errors''), (''tool-prefix-disabled'', ''tool_prefix_disabled'')] key"

text \<open>The keys are rewritten one by one; no two of them have the same canonical name.\<close>

definition normalize_key :: "(string, meta_value) gomap \<Rightarrow> string \<times> meta_value \<Rightarrow> (string, meta_value) gomap" where
  "normalize_key meta entry =
     (let (key, v) = entry; canonical = CanonicalCredentialMetadataKey key in
      if canonical = key then meta
      else mdel key (if mget meta canonical = None then mput canonical v meta else meta))"

definition NormalizeCredentialMetadata :: "(string, meta_value) gomap \<Rightarrow> (string, meta_value) gomap" where
  "NormalizeCredentialMetadata meta = foldl normalize_key meta meta"

section \<open>Saving\<close>

definition IsConfigAPIKeyAuth :: "Auth \<Rightarrow> bool" where
  "IsConfigAPIKeyAuth a \<longleftrightarrow> AuthKind a = AuthKindAPIKey \<and> AuthSourceKind a = ''config''"

definition persist_due :: "lifecycle \<Rightarrow> Auth \<Rightarrow> bool" where
  "persist_due L a \<longleftrightarrow> lc_has_store L \<and> \<not> lc_skip_persist L \<and> \<not> IsConfigAPIKeyAuth a \<and>
     to_lower (trim_space (mget_or [] (au_attributes a) ''runtime_only'')) \<noteq> ''true'' \<and>
     \<not> IsPluginVirtualAuth a \<and> au_metadata a \<noteq> []"

text \<open>Whether the credential was saved, or had not to be.\<close>

definition persist :: "lifecycle \<Rightarrow> Auth \<Rightarrow> Manager \<Rightarrow> Manager \<times> bool" where
  "persist L a m =
     (if lc_has_store L \<and> ValidateAuthWeight (Some a) \<noteq> None then (m, False)
      else if \<not> persist_due L a then (m, True)
      else (emit [PersistAuth a] m, \<not> en_persist_fails (lc_env L) a))"

section \<open>Registering and updating\<close>

definition states_renamed :: "Auth \<Rightarrow> bool" where
  "states_renamed a = snd (foldl normalize_step ([], False) (au_model_states a))"

text \<open>The states of the models under their canonical names, and none of a cooldown that may not be; whether
  the cooldowns to be saved may have changed.\<close>

definition settle_states :: "Manager \<Rightarrow> time \<Rightarrow> Auth \<Rightarrow> Auth \<times> bool" where
  "settle_states m now a0 =
     (let a = normalizeModelStates a0 in
      if cooldownDisabledForAuth m a \<or> au_disabled a \<or> au_status a = StatusDisabled then
        let (a', cleared) = clearCooldownStateForAuth now a in (a', cleared \<or> states_renamed a0)
      else (a, states_renamed a0))"

definition rebuildAPIKeyModelAliasFromRuntimeConfig :: "Conductor \<Rightarrow> Conductor" where
  "rebuildAPIKeyModelAliasFromRuntimeConfig c =
     (let env = cd_aliases c in
      c\<lparr>cd_aliases := env\<lparr>ae_key_aliases := rebuild_key_aliases (ae_routing env) (mg_auths (cd_manager c))\<rparr>\<rparr>)"

definition rebuild_unless_deferred :: "lifecycle \<Rightarrow> Conductor \<Rightarrow> Conductor" where
  "rebuild_unless_deferred L c = (if lc_defer_rebuild L then c else rebuildAPIKeyModelAliasFromRuntimeConfig c)"

definition on_manager :: "(Manager \<Rightarrow> Manager) \<Rightarrow> Conductor \<Rightarrow> Conductor" where
  "on_manager f c = c\<lparr>cd_manager := f (cd_manager c)\<rparr>"

text \<open>What \<open>Register\<close> and \<open>Update\<close> do once the credential is settled: it is saved, takes its place, the
  scheduler and the queue of refreshes are told, and the cooldowns are saved when they changed.\<close>

definition install :: "lifecycle \<Rightarrow> time \<Rightarrow> (Auth \<Rightarrow> manager_event) \<Rightarrow> Auth \<times> bool \<Rightarrow> Conductor \<Rightarrow> Conductor \<times> (lifecycle_error + Auth)" where
  "install L now hook settled c =
     (let a = EnsureIndex (lc_index L) (fst settled); (m1, saved) = persist L a (cd_manager c) in
      if \<not> saved then (c\<lparr>cd_manager := m1\<rparr>, Inl SaveFailed)
      else let c1 = rebuild_unless_deferred L (c\<lparr>cd_manager := m1\<lparr>mg_auths := mput (au_id a) a (mg_auths m1)\<rparr>\<rparr>);
               c2 = (if mg_has_scheduler m1 then c1\<lparr>cd_scheduler := upsertAuth (mg_registry m1) a now (cd_scheduler c1)\<rparr> else c1);
               c3 = on_manager (emit [RefreshQueued (au_id a)]) c2;
               (m4, ok) = (if snd settled then persistCooldownStates (lc_env L) now (cd_manager c3) else (cd_manager c3, True));
               c4 = c3\<lparr>cd_manager := m4\<rparr>
        in if \<not> ok then (c4, Inl CooldownSaveFailed)
           else (on_manager (emit [hook a]) c4, Inr a))"

definition Register :: "lifecycle \<Rightarrow> time \<Rightarrow> Auth \<Rightarrow> Conductor \<Rightarrow> Conductor \<times> (lifecycle_error + Auth)" where
  "Register L now a0 c =
     (let a1 = a0\<lparr>au_metadata := NormalizeCredentialMetadata (au_metadata a0)\<rparr> in
      case ValidateAuthWeight (Some a1) of Some e \<Rightarrow> (c, Inl (WeightInvalid e))
      | None \<Rightarrow>
          let a2 = (if au_id a1 = [] then a1\<lparr>au_id := lc_new_id L\<rparr> else a1)
          in install L now HookRegistered (settle_states (cd_manager c) now a2) c)"

text \<open>What an update keeps of the credential it replaces: its index and its counters; and, when both are
  enabled, the states of its models when the new one has none, and the quota of the whole credential
  while it lasts.\<close>

definition carry_over :: "time \<Rightarrow> Auth \<Rightarrow> Auth \<Rightarrow> Auth" where
  "carry_over now existing a0 =
     (let a1 = (if \<not> au_index_assigned a0 \<and> au_index a0 = []
                then a0\<lparr>au_index := au_index existing, au_index_assigned := au_index_assigned existing\<rparr> else a0);
          a2 = a1\<lparr>au_success := au_success existing, au_failed := au_failed existing, au_recent_requests := au_recent_requests existing\<rparr>
      in if au_disabled existing \<or> au_status existing = StatusDisabled \<or> au_disabled a2 \<or> au_status a2 = StatusDisabled then a2
         else let a3 = (if au_model_states a2 = [] then a2\<lparr>au_model_states := au_model_states existing\<rparr> else a2);
                  q = au_quota existing
           in if qs_exceeded q \<and> qs_reason q = ''credential_quota'' \<and> qs_next_recover_at q > now
              then a3\<lparr>au_unavailable := au_unavailable existing, au_next_retry_after := au_next_retry_after existing, au_quota := q,
                      au_status := (if au_status a3 = StatusActive then au_status existing else au_status a3)\<rparr>
              else a3)"

definition Update :: "lifecycle \<Rightarrow> time \<Rightarrow> Auth \<Rightarrow> Conductor \<Rightarrow> Conductor \<times> (lifecycle_error + Auth)" where
  "Update L now a0 c =
     (if trim_space (au_id a0) = [] then (c, Inl NoAuthID)
      else let a1 = a0\<lparr>au_metadata := NormalizeCredentialMetadata (au_metadata a0)\<rparr> in
        case ValidateAuthWeight (Some a1) of Some e \<Rightarrow> (c, Inl (WeightInvalid e))
        | None \<Rightarrow>
            (case mget (mg_auths (cd_manager c)) (au_id a1) of None \<Rightarrow> (c, Inl (NotRegistered (au_id a1)))
             | Some existing \<Rightarrow> install L now HookUpdated (settle_states (cd_manager c) now (carry_over now existing a1)) c))"

section \<open>Removing and loading\<close>

text \<open>The event \<open>SessionsClosed\<close> stands for the call that an executor with sessions answers.\<close>

definition Remove :: "lifecycle \<Rightarrow> time \<Rightarrow> string \<Rightarrow> Conductor \<Rightarrow> Conductor \<times> lifecycle_error option" where
  "Remove L now id0 c =
     (let i = trim_space id0 in
      if i = [] then (c, Some NoAuthID)
      else case mget (mg_auths (cd_manager c)) i of None \<Rightarrow> (c, None)
      | Some existing \<Rightarrow>
          let provider = trim_space (au_provider existing); m = cd_manager c;
              c1 = rebuild_unless_deferred L
                (c\<lparr>cd_manager := m\<lparr>mg_auths := mdel i (mg_auths m)\<rparr>, cd_pool_offsets := mdel i (cd_pool_offsets c)\<rparr>);
              c2 = (if mg_has_scheduler m then c1\<lparr>cd_scheduler := removeAuth i (cd_scheduler c1)\<rparr> else c1);
              c3 = on_manager (emit ([RefreshUnscheduled i, AffinityInvalidated i] @
                     (if provider \<noteq> [] \<and> has_executor c2 provider then [SessionsClosed provider] else []))) c2;
              (m4, ok) = persistCooldownStates (lc_env L) now (cd_manager c3)
          in (c3\<lparr>cd_manager := m4\<rparr>, if ok then None else Some CooldownSaveFailed))"

definition load_step :: "lifecycle \<Rightarrow> (string, Auth) gomap \<Rightarrow> Auth option \<Rightarrow> (string, Auth) gomap" where
  "load_step L auths item =
     (case item of None \<Rightarrow> auths
      | Some a0 \<Rightarrow>
          let a = a0\<lparr>au_metadata := NormalizeCredentialMetadata (au_metadata a0)\<rparr> in
          if au_id a = [] \<or> ValidateAuthWeight (Some a) \<noteq> None then auths
          else mput (au_id a) (EnsureIndex (lc_index L) a) auths)"

text \<open>\<open>items\<close> is what the store lists, if it can.\<close>

definition Load :: "lifecycle \<Rightarrow> time \<Rightarrow> Auth option list option \<Rightarrow> Conductor \<Rightarrow> Conductor \<times> lifecycle_error option" where
  "Load L now items c =
     (if \<not> lc_has_store L then (c, None)
      else case items of None \<Rightarrow> (c, Some LoadFailed)
      | Some l \<Rightarrow>
          let c1 = rebuildAPIKeyModelAliasFromRuntimeConfig (on_manager (\<lambda>m. m\<lparr>mg_auths := foldl (load_step L) [] l\<rparr>) c)
          in (if mg_has_scheduler (cd_manager c1) then syncScheduler now c1 else c1, None))"

section \<open>In line with the registry of models\<close>

definition RefreshSchedulerEntry :: "time \<Rightarrow> string \<Rightarrow> Conductor \<Rightarrow> Conductor" where
  "RefreshSchedulerEntry now i c =
     (if \<not> mg_has_scheduler (cd_manager c) \<or> i = [] then c
      else case mget (mg_auths (cd_manager c)) i of None \<Rightarrow> c
      | Some a \<Rightarrow> c\<lparr>cd_scheduler := upsertAuth (mg_registry (cd_manager c)) a now (cd_scheduler c)\<rparr>)"

definition RefreshSchedulerAll :: "time \<Rightarrow> Conductor \<Rightarrow> Conductor" where
  "RefreshSchedulerAll now c = foldl (\<lambda>c i. RefreshSchedulerEntry now i c) c (map fst (mg_auths (cd_manager c)))"

text \<open>One state: dropped when the registry no longer lists its model, else reset.\<close>

definition reconcile_state :: "string list \<Rightarrow> time \<Rightarrow> string \<times> ModelState option \<Rightarrow> (string \<times> ModelState option) option" where
  "reconcile_state supported now entry =
     (let (modelKey, state) = entry; base0 = canonicalModelKey modelKey;
          baseModel = (if base0 = [] then trim_space modelKey else base0)
      in if baseModel \<notin> set supported then None
         else if modelStateIsClean state then Some entry
         else Some (modelKey, map_option (resetModelState now) state))"

definition supported_models :: "ModelRegistry \<Rightarrow> string \<Rightarrow> string list" where
  "supported_models r i = filter (\<lambda>k. k \<noteq> []) (map (\<lambda>mi. canonicalModelKey (mi_id mi)) (GetModelsForClient r i))"

definition reconciled :: "ModelRegistry \<Rightarrow> time \<Rightarrow> string \<Rightarrow> Auth \<Rightarrow> Auth option" where
  "reconciled r now i a =
     (let step = reconcile_state (supported_models r i) now in
      if list_all (\<lambda>entry. step entry \<noteq> None \<and> modelStateIsClean (snd entry)) (au_model_states a) then None
      else let a1 = updateAggregatedAvailability now (a\<lparr>au_model_states := concat (map (\<lambda>e. case step e of None \<Rightarrow> [] | Some e' \<Rightarrow> [e']) (au_model_states a))\<rparr>);
               a2 = (if hasModelError now a1 then a1 else a1\<lparr>au_last_error := None, au_status_message := [], au_status := StatusActive\<rparr>)
        in Some (a2\<lparr>au_updated_at := now\<rparr>))"

text \<open>A failure to save is only logged.\<close>

definition ReconcileRegistryModelStates :: "lifecycle \<Rightarrow> time \<Rightarrow> string \<Rightarrow> Conductor \<Rightarrow> Conductor" where
  "ReconcileRegistryModelStates L now i c =
     (let m = cd_manager c in
      case (if i = [] then None else mget (mg_auths m) i) of None \<Rightarrow> c
      | Some a0 \<Rightarrow>
          (case reconciled (mg_registry m) now i a0 of None \<Rightarrow> c
           | Some a \<Rightarrow>
               let m1 = fst (persist L a (m\<lparr>mg_auths := mput i a (mg_auths m)\<rparr>))
               in c\<lparr>cd_manager := m1,
                    cd_scheduler := (if mg_has_scheduler m then upsertAuth (mg_registry m) a now (cd_scheduler c) else cd_scheduler c)\<rparr>))"

section \<open>What the manager tells the scheduler\<close>

text \<open>An operation of the manager alone, followed by the upserts it asks for.\<close>

definition after_manager :: "time \<Rightarrow> Manager \<Rightarrow> Conductor \<Rightarrow> Conductor" where
  "after_manager now m' c =
     c\<lparr>cd_manager := m', cd_scheduler := deliver (mg_registry (cd_manager c)) now
         (drop (length (mg_events (cd_manager c))) (mg_events m')) (cd_scheduler c)\<rparr>"

section \<open>The selector\<close>

definition kind_of :: "builtin_selector \<Rightarrow> selector_kind" where
  "kind_of sel = (case sel of RoundRobinSel _ \<Rightarrow> RoundRobinKind | WeightedSel _ \<Rightarrow> WeightedKind | FillFirstSel \<Rightarrow> FillFirstKind)"

text \<open>\<open>same\<close> says that the selector is the one in use.\<close>

definition SetSelector :: "bool \<Rightarrow> time \<Rightarrow> builtin_selector \<Rightarrow> Conductor \<Rightarrow> Conductor" where
  "SetSelector same now sel c =
     (if same then c
      else let c1 = c\<lparr>cd_selector := sel\<rparr> in
        if mg_has_scheduler (cd_manager c) then syncScheduler now (c1\<lparr>cd_scheduler := setSelector (kind_of sel) (cd_scheduler c1)\<rparr>) else c1)"

text \<open>A manager as \<open>NewManager\<close> makes it.\<close>

definition NewManager :: "builtin_selector \<Rightarrow> Manager \<Rightarrow> alias_env \<Rightarrow> Conductor" where
  "NewManager sel m env =
     \<lparr>cd_manager = m\<lparr>mg_auths := [], mg_has_scheduler := True, mg_events := []\<rparr>, cd_scheduler = newAuthScheduler (kind_of sel),
      cd_selector = sel, cd_executors = [], cd_aliases = env\<lparr>ae_key_aliases := []\<rparr>, cd_pool_offsets = []\<rparr>"

end
