(* ===== verification/Lifecycle_Properties.thy ===== *)
theory Lifecycle_Properties
  imports Lifecycle
begin

text \<open>
  The properties of the life of a credential: every operation of the manager keeps the scheduler in step
  with it (\<open>manager\<close>, an instance of \<open>invariant_system\<close>), so that whatever a request picks, by the
  scheduler or the slow path, is a credential the manager holds now and that is free for the model; and an
  update keeps the cooldowns of the credential it replaces.
\<close>

section \<open>What the scheduler answers\<close>

definition serves :: "holding \<Rightarrow> sched_request \<Rightarrow> schedulerStrategy \<Rightarrow> time \<Rightarrow> string \<Rightarrow> Auth \<Rightarrow> bool" where
  "serves A q strategy now key a \<longleftrightarrow>
     a \<in> provider_candidates (owned A key) (sq_model q) (auth_allowed q (pinnedAuthIDFromMetadata (sq_metadata q)) strategy) \<and>
     \<not> fst (isAuthBlockedForModel (Some a) (sq_model q) now)"

lemma pickAt_ready:
  assumes ok: "shard_ok now m" and r: "snd (pickReadyAtPriorityLocked ws p strategy pred m) = Some a"
  shows "ready_at m pred p a"
proof (cases "mget (md_ready m) p")
  case None
  then show ?thesis using r by (simp add: pickReadyAtPriorityLocked_def)
next
  case (Some b)
  let ?ws = "use_ws m ws pred b"
  obtain e where e: "snd (pick_from_view m strategy pred (if ?ws then bk_ws b else bk_all b)) = Some e" "sd_auth e = a"
    using r Some by (auto simp: pickReadyAtPriorityLocked_def Let_def split_def)
  have "e \<in> set (filter pred (view_entries m (if ?ws then bk_ws b else bk_all b)))"
    using pick_from_view_entry [OF e(1)] by simp
  then have "ready_entry m (ws_pred ?ws pred) p e" unfolding view_props(2) [OF ok Some] by simp
  then show ?thesis using e(2) by (auto simp: ready_at_def ready_entry_def ws_pred_def)
qed

lemma provider_serves:
  assumes h: "holds now s A" "0 \<le> now" and p: "mget (sh_providers s) key = Some p" and pl: "plain_model_name (sq_model q)"
    and r: "snd (pick_from_provider (\<lambda>_. now) (canonicalModelKey (sq_model q)) pw strategy
      (request_predicate q (pinnedAuthIDFromMetadata (sq_metadata q)) strategy) provider (sq_model q) p) = Inr a"
  shows "serves A q strategy now key a"
proof -
  let ?k = "canonicalModelKey (sq_model q)"
  define base where "base = ensureModelLocked ?k now p"
  define m where "m = promoteExpiredLocked now base"
  have k: "canonicalModelKey ?k = ?k" using pl by (simp add: plain_model_name_def)
  have b: "shard_of_holding now (owned A key) ?k base" "now_current now base"
    using ensure_facts [OF holds_provider [OF h(1) p] order_refl h(2) holds_named [OF h(1)], of ?k] k by (simp_all add: base_def)
  then have ok: "shard_ok now base" by (simp add: shard_of_holding_def)
  note P = promote_facts [OF ok order_refl h(2), folded m_def]
  have "shard_metas m = shard_metas base" by (rule ext) (unfold shard_metas_def P(3), simp add: option.map_comp comp_def)
  then have f: "fresh_shard now A (sq_model q) key m"
    using b(1) P(1,2) promote_current [OF ok order_refl h(2)] by (simp add: fresh_shard_def shard_of_holding_def m_def)
  have "snd (pickReadyLocked now pw strategy (request_predicate q (pinnedAuthIDFromMetadata (sq_metadata q)) strategy) base) = Some a"
    using r by (auto simp: pick_from_provider_def base_def split: prod.splits option.splits)
  then obtain pr where "snd (pickReadyAtPriorityLocked pw pr strategy (request_predicate q (pinnedAuthIDFromMetadata (sq_metadata q)) strategy) m) = Some a"
    by (auto simp: pickReadyLocked_def Let_def m_def split: option.splits)
  from pickAt_ready [OF P(2) this] show ?thesis using fresh_ready [OF h(1) f pl] by (simp add: serves_def)
qed

lemma space_lower: "is_space (lower_char c) = is_space c"
proof (cases "65 \<le> (of_char c :: nat) \<and> (of_char c :: nat) \<le> 90")
  case True
  then have "(of_char (lower_char c) :: nat) = of_char c + 32" by (simp add: lower_char_def)
  then show ?thesis using True by (auto simp: is_space_def)
next
  case False
  then show ?thesis by (simp only: lower_char_def if_False)
qed

lemma trim_lower: "trim_space (to_lower s) = to_lower (trim_space s)"
proof -
  have "trim_left (to_lower t) = to_lower (trim_left t)" for t
    by (induction t) (simp_all add: trim_left_def to_lower_def space_lower)
  moreover have "rev (to_lower t) = to_lower (rev t)" for t by (simp add: to_lower_def rev_map)
  ultimately show ?thesis by (simp add: trim_space_def)
qed

lemma provider_key_step_mem:
  "k \<in> set (provider_key_step acc p) \<Longrightarrow> k \<in> set acc \<or> (k = to_lower (trim_space p) \<and> k \<noteq> [])"
  by (auto simp: provider_key_step_def Let_def split: if_splits)

lemma provider_key_fold:
  "k \<in> set (foldl provider_key_step [] ps) \<Longrightarrow> to_lower (trim_space k) = k \<and> k \<noteq> [] \<and> k \<in> set (provider_set ps)"
proof (induction ps rule: rev_induct)
  case (snoc p ps)
  show ?case
  proof (cases "k \<in> set (foldl provider_key_step [] ps)")
    case True
    then show ?thesis using snoc.IH by (simp add: provider_set_def)
  next
    case False
    then have "k = to_lower (trim_space p)" "k \<noteq> []" using snoc.prems provider_key_step_mem by (auto simp del: to_lower_eq_Nil)
    then show ?thesis by (simp add: trim_lower provider_set_def)
  qed
qed simp

lemma provider_key_normal: "k \<in> set (normalizeProviderKeys ps) \<Longrightarrow> to_lower (trim_space k) = k \<and> k \<noteq> [] \<and> k \<in> set (provider_set ps)"
  unfolding normalizeProviderKeys_def by (rule provider_key_fold)

lemma pickMixed_serves:
  assumes h: "holds now s A" "0 \<le> now" and pl: "plain_model_name (sq_model q)"
    and r: "snd (pickMixed (\<lambda>_. now) ps q s) = Inr (a, key)"
  shows "key \<in> set (normalizeProviderKeys ps) \<and> serves A q (sh_strategy s) now key a"
proof -
  let ?pin = "pinnedAuthIDFromMetadata (sq_metadata q)" and ?st = "sh_strategy s"
  have st: "current_strategy s StrategyCurrent = ?st" by (simp add: current_strategy_def)
  note S = provider_serves [OF h _ pl]
  show ?thesis
  proof (cases "normalizeProviderKeys ps")
    case Nil
    then show ?thesis using r by (simp add: pickMixed_def pickMixedWithStrategy_def)
  next
    case (Cons k ks)
    show ?thesis
    proof (cases ks)
      case Nil
      then have k: "key = k" "snd (pickSingleWithStrategy (\<lambda>_. now) k q StrategyCurrent s) = Inr a"
        using r Cons by (auto simp: pickMixed_def pickMixedWithStrategy_def Let_def split_def map_sum_def split: sum.splits)
      have "to_lower (trim_space k) = k" using provider_key_normal [of k ps] Cons by simp
      then obtain p pw where "mget (sh_providers s) k = Some p"
          "snd (pick_from_provider (\<lambda>_. now) (canonicalModelKey (sq_model q)) pw ?st (request_predicate q ?pin ?st) k (sq_model q) p) = Inr a"
        using k(2) by (auto simp: pickSingleWithStrategy_def st Let_def split_def split: option.splits)
      then show ?thesis using S k(1) Cons by auto
    next
      case (Cons k2 ks2)
      then have n: "normalizeProviderKeys ps = k # k2 # ks2" using \<open>normalizeProviderKeys ps = k # ks\<close> by simp
      show ?thesis
      proof (cases "?pin = []")
        case True
        then have "snd (pick_several (\<lambda>_. now) (k # k2 # ks2) (sq_model q) ?st (request_predicate q [] ?st) s) = Inr (a, key)"
          using r n by (simp add: pickMixed_def pickMixedWithStrategy_def Let_def st)
        then show ?thesis using pick_several_best [OF h pl, of "k # k2 # ks2" ?st] n True by (simp add: can_serve_def serves_def)
      next
        case False
        then have "snd (pick_pinned (\<lambda>_. now) (k # k2 # ks2) ?pin (sq_model q) ?st (request_predicate q ?pin ?st) s) = Inr (a, key)"
          using r n by (simp add: pickMixed_def pickMixedWithStrategy_def Let_def st)
        then obtain p where "key \<in> set (k # k2 # ks2)" "mget (sh_providers s) key = Some p"
            "snd (pick_from_provider (\<lambda>_. now) (canonicalModelKey (sq_model q)) False ?st (request_predicate q ?pin ?st) ''mixed'' (sq_model q) p) = Inr a"
          by (auto simp: pick_pinned_def Let_def split_def map_sum_def split: option.splits if_splits sum.splits)
        then show ?thesis using S n by metis
      qed
    qed
  qed
qed

section \<open>A scheduler in step with its manager\<close>

text \<open>What selection reads of a credential: all but its index and its counters.\<close>

definition core :: "Auth \<Rightarrow> Auth" where
  "core a = a\<lparr>au_index := [], au_index_assigned := False, au_success := 0, au_failed := 0, au_recent_requests := []\<rparr>"

lemma core_block: "isAuthBlockedForModel (Some (core a)) model now = isAuthBlockedForModel (Some a) model now"
  by (rule same_availability_block) (simp add: core_def same_availability_def)

lemma core_fields [simp]:
  "au_id (core a) = au_id a" "au_disabled (core a) = au_disabled a" "au_attributes (core a) = au_attributes a"
  "au_metadata (core a) = au_metadata a" "au_provider (core a) = au_provider a" "au_label (core a) = au_label a"
  "au_route_channel (core a) = au_route_channel a" "au_prefix (core a) = au_prefix a"
  by (simp_all add: core_def)

lemma core_readings [simp]:
  "executorKeyFromAuth (core a) = executorKeyFromAuth a" "authAttribute (core a) k = authAttribute a k"
  "authMetadataString (core a) k = authMetadataString a k"
  by (simp_all add: executorKeyFromAuth_def authAttribute_def authMetadataString_def Let_def)

lemma core_kind [simp]: "AuthKind (core a) = AuthKind a"
  by (simp add: AuthKind_def authHasOAuthMetadata_def Let_def)

lemma core_allows [simp]: "allows el (core a) = allows el a"
  unfolding allows_def by (cases "el_allowed el") (simp_all add: credentialPolicyAllows_def isFreeCodexAuth_def)

lemma same_core:
  fixes el :: authSelectionEligibility
  assumes "core a = core b"
  shows "isAuthBlockedForModel (Some a) model now = isAuthBlockedForModel (Some b) model now"
    "au_id a = au_id b" "au_disabled a = au_disabled b" "executorKeyFromAuth a = executorKeyFromAuth b" "allows el a = allows el b"
  using assms core_block [of a model now] core_block [of b model now] core_fields(1,2) [of a] core_fields(1,2) [of b]
    core_readings(1) [of a] core_readings(1) [of b] core_allows [of el a] core_allows [of el b] by metis+

lemma core_index [simp]: "core (EnsureIndex f a) = core a"
  by (simp add: core_def EnsureIndex_def Let_def)

lemma core_counted [simp]: "core (counted r now a) = core a"
  by (simp add: core_def counted_def recordRecentRequest_def Let_def)

definition schedulable :: "(string, Auth) gomap \<Rightarrow> string \<Rightarrow> Auth option" where
  "schedulable auths i = (case mget auths i of None \<Rightarrow> None
     | Some a \<Rightarrow> if i = [] \<or> executorKeyFromAuth a = [] \<or> au_disabled a then None else Some a)"

text \<open>The scheduler holds exactly the credentials that may be scheduled, in their present state.\<close>

definition in_step :: "string set \<Rightarrow> (string, Auth) gomap \<Rightarrow> holding \<Rightarrow> bool" where
  "in_step S auths A \<longleftrightarrow> (\<forall>i. i \<notin> S \<longrightarrow>
     map_option (\<lambda>meta. (core (sm_auth meta), sm_provider_key meta)) (A i) =
     map_option (\<lambda>a. (core a, executorKeyFromAuth a)) (schedulable auths i))"

definition told :: "string set \<Rightarrow> time \<Rightarrow> (string, Auth) gomap \<Rightarrow> authScheduler \<Rightarrow> bool" where
  "told S t auths s \<longleftrightarrow> 0 \<le> t \<and> mwf auths \<and> (\<forall>i a. mget auths i = Some a \<longrightarrow> au_id a = i \<and> trimmed a) \<and>
     (\<exists>A. holds t s A \<and> in_step S auths A)"

lemma schedulable_put: "schedulable (mput i a auths) = (schedulable auths)(i := schedulable [(i, a)] i)"
  by (auto simp: schedulable_def fun_eq_iff)

lemma schedulable_del: "mwf auths \<Longrightarrow> schedulable (mdel i auths) = (schedulable auths)(i := None)"
  by (auto simp: schedulable_def fun_eq_iff)

lemma in_step_upsert:
  assumes "in_step S auths A" "trimmed a" "au_id a = i"
  shows "in_step (S - {i}) (mput i a auths) (spec_upsert r a A)"
proof -
  have t: "trim_space (au_id a) = i" using assms(2,3) by (simp add: trimmed_def)
  show ?thesis
    using assms(1) unfolding in_step_def schedulable_put spec_upsert_def t Let_def
    by (auto simp: schedulable_def buildScheduledAuthMeta_def)
qed

lemma in_step_remove:
  assumes "in_step S auths A" "mwf auths"
  shows "in_step S (mdel i auths) (A(i := None))"
  using assms(1) unfolding in_step_def schedulable_del [OF assms(2)] by simp

lemma told_mono: "told S t auths s \<Longrightarrow> t \<le> t' \<Longrightarrow> told S t' auths s"
  unfolding told_def using holds_mono by (meson order_trans)

lemma told_weaken: "told S t auths s \<Longrightarrow> S \<subseteq> S' \<Longrightarrow> told S' t auths s"
  unfolding told_def in_step_def by blast

lemma told_upsert:
  assumes "told S t auths s" "t \<le> now" "trimmed a" "au_id a = i"
  shows "told (S - {i}) now (mput i a auths) (upsertAuth r a now s)"
proof -
  obtain A where A: "holds t s A" "in_step S auths A" "0 \<le> now" using assms(1,2) by (auto simp: told_def)
  have "holds now (upsertAuth r a now s) (spec_upsert r a A)"
    using upsertAuth_holds [OF holds_mono [OF A(1) assms(2)] A(3)] assms(3) by (simp add: upsertAuth_def trimmed_def)
  then show ?thesis using in_step_upsert [OF A(2) assms(3,4)] A(3) assms(1,3,4) by (auto simp: told_def)
qed

lemma told_put:
  assumes "told S t auths s" "trimmed a" "au_id a = i"
  shows "told (insert i S) t (mput i a auths) s"
  using assms unfolding told_def in_step_def schedulable_put by auto

lemma told_cong:
  assumes "told S t auths' s" "mget auths = mget auths'" "mwf auths"
  shows "told S t auths s"
  using assms(1,3) unfolding told_def in_step_def schedulable_def assms(2) by blast

text \<open>The scheduler is told of a credential the manager holds already.\<close>

lemma told_again:
  assumes t: "told S t auths s" "t \<le> now" and a: "mget auths i = Some a"
  shows "told (S - {i}) now auths (upsertAuth r a now s)"
proof -
  have ai: "au_id a = i" "trimmed a" "mwf auths" using t(1) a unfolding told_def by blast+
  have "mget auths = mget (mput i a auths)" using a by (auto simp: fun_eq_iff)
  from told_cong [OF told_upsert [OF t ai(2,1), of r] this ai(3)] show ?thesis .
qed

lemma told_remove:
  assumes "told S t auths s"
  shows "told S t (mdel i auths) (removeAuthLocked i s)"
proof -
  obtain A where A: "holds t s A" "in_step S auths A" "mwf auths" using assms by (auto simp: told_def)
  show ?thesis using removeAuthLocked_holds [OF A(1), of i] in_step_remove [OF A(2,3)] assms A(3) by (auto simp: told_def)
qed

text \<open>Counters and index do not matter.\<close>

lemma told_core:
  assumes t: "told S t auths s" and b: "mget auths i = Some b" and c: "core a = core b"
  shows "told S t (mput i a auths) s"
proof -
  have ai: "au_id b = i" "trimmed b" using t b unfolding told_def by blast+
  have e: "map_option (\<lambda>a. (core a, executorKeyFromAuth a)) (schedulable (mput i a auths) j) =
      map_option (\<lambda>a. (core a, executorKeyFromAuth a)) (schedulable auths j)" for j
    using same_core(3,4) [OF c] b c by (auto simp: schedulable_def)
  have "trimmed a" "au_id a = i" using ai same_core(2) [OF c] by (simp_all add: trimmed_def)
  then show ?thesis using t unfolding told_def in_step_def e by auto
qed

lemma in_step_rebuild:
  "distinct (map fst l) \<Longrightarrow> \<forall>(i, a) \<in> set l. au_id a = i \<and> trimmed a \<Longrightarrow> in_step {} l (spec_rebuild r (map Some (map snd l)))"
proof (induction l rule: rev_induct)
  case Nil
  then show ?case by (simp add: in_step_def schedulable_def spec_rebuild_def)
next
  case (snoc x l)
  obtain i a where x: "x = (i, a)" by (cases x)
  have IH: "in_step {} l (spec_rebuild r (map Some (map snd l)))" using snoc by auto
  have a: "trimmed a" "au_id a = i" "i \<notin> fst ` set l" using snoc.prems x by auto
  have s: "spec_rebuild r (map Some (map snd (l @ [x]))) = spec_upsert r a (spec_rebuild r (map Some (map snd l)))"
    by (simp add: spec_rebuild_def x)
  have n: "mget l i = None" using a(3) by (simp add: map_of_eq_None_iff)
  have "mget (l @ [x]) = mget (mput i a l)"
  proof (rule ext)
    fix j
    show "mget (l @ [x]) j = mget (mput i a l) j" using n x by (cases "mget l j") (auto simp: map_add_def)
  qed
  then have "in_step {} (l @ [x]) = in_step {} (mput i a l)" by (simp add: in_step_def schedulable_def fun_eq_iff)
  then show ?case using in_step_upsert [OF IH a(1,2), of r] unfolding s by simp
qed

lemma told_rebuild:
  assumes "mwf auths" "\<forall>i a. mget auths i = Some a \<longrightarrow> au_id a = i \<and> trimmed a" "0 \<le> now"
  shows "told {} now auths (rebuild r (map Some (map snd auths)) now s)"
proof -
  have e: "\<forall>(i, a) \<in> set auths. au_id a = i \<and> trimmed a" using assms(1,2) by (auto simp: mget_Some_iff)
  then have "holds now (rebuild r (map Some (map snd auths)) now s) (spec_rebuild r (map Some (map snd auths)))"
    by (intro rebuild_holds [OF assms(3)]) auto
  moreover have "distinct (map fst auths)" using assms(1) by simp
  ultimately show ?thesis using in_step_rebuild [OF _ e] assms unfolding told_def by blast
qed

section \<open>Every operation keeps the scheduler in step\<close>

definition synchronised :: "time \<Rightarrow> Conductor \<Rightarrow> bool" where
  "synchronised t c \<longleftrightarrow> mg_has_scheduler (cd_manager c) \<and> told {} t (mg_auths (cd_manager c)) (cd_scheduler c)"

lemma synchronised_mono: "synchronised t c \<Longrightarrow> t \<le> t' \<Longrightarrow> synchronised t' c"
  unfolding synchronised_def using told_mono by blast

lemma persist_fields [simp]:
  "mg_auths (fst (persist L a m)) = mg_auths m" "mg_registry (fst (persist L a m)) = mg_registry m"
  "mg_has_scheduler (fst (persist L a m)) = mg_has_scheduler m"
  by (simp_all add: persist_def emit_def)

lemma persistCooldown_fields [simp]:
  "mg_auths (fst (persistCooldownStates E now m)) = mg_auths m"
  "mg_has_scheduler (fst (persistCooldownStates E now m)) = mg_has_scheduler m"
  by (simp_all add: persistCooldownStates_def emit_def Let_def)

lemma rebuild_fields [simp]:
  "cd_manager (rebuild_unless_deferred L c) = cd_manager c" "cd_scheduler (rebuild_unless_deferred L c) = cd_scheduler c"
  "cd_manager (rebuildAPIKeyModelAliasFromRuntimeConfig c) = cd_manager c"
  by (simp_all add: rebuild_unless_deferred_def rebuildAPIKeyModelAliasFromRuntimeConfig_def Let_def)

lemma settle_id [simp]: "au_id (fst (settle_states m now a)) = au_id a"
proof -
  have "au_id (normalizeModelStates b) = au_id b" "au_id (fst (clearCooldownStateForAuth now b)) = au_id b" for b
    by (simp_all add: normalizeModelStates_def clearCooldownStateForAuth_def updateAggregatedAvailability_def clearAggregatedAvailability_def
        Let_def split_def split: option.splits)
  then show ?thesis by (simp add: settle_states_def Let_def split_def)
qed

lemma index_id [simp]: "au_id (EnsureIndex f a) = au_id a"
  by (simp add: EnsureIndex_def Let_def)

lemma trimmed_id: "au_id a = au_id b \<Longrightarrow> trimmed a = trimmed b"
  by (simp add: trimmed_def)

lemma install_synchronised:
  assumes c: "synchronised t c" "t \<le> now" and a: "trimmed (fst x)"
  shows "synchronised now (fst (install L now hook x c))"
proof -
  define a' where "a' = EnsureIndex (lc_index L) (fst x)"
  obtain m1 saved where p: "persist L a' (cd_manager c) = (m1, saved)" by (cases "persist L a' (cd_manager c)")
  have m1: "mg_auths m1 = mg_auths (cd_manager c)" "mg_registry m1 = mg_registry (cd_manager c)" "mg_has_scheduler m1"
    using persist_fields [of L a' "cd_manager c"] c(1) unfolding p by (simp_all add: synchronised_def)
  show ?thesis
  proof (cases saved)
    case False
    then show ?thesis using synchronised_mono [OF c] m1 by (simp add: install_def a'_def [symmetric] p synchronised_def)
  next
    case True
    define c3 where "c3 = on_manager (emit [RefreshQueued (au_id a')])
      ((rebuild_unless_deferred L (c\<lparr>cd_manager := m1\<lparr>mg_auths := mput (au_id a') a' (mg_auths m1)\<rparr>\<rparr>))
        \<lparr>cd_scheduler := upsertAuth (mg_registry m1) a' now (cd_scheduler c)\<rparr>)"
    have "trimmed a'" using a trimmed_id [of a' "fst x"] by (simp add: a'_def)
    from told_upsert [OF _ c(2) this refl, of "{}"] c(1) m1
    have s3: "synchronised now c3" by (simp add: synchronised_def c3_def on_manager_def emit_def)
    define e where "e = (if snd x then persistCooldownStates (lc_env L) now (cd_manager c3) else (cd_manager c3, True))"
    have "synchronised now (c3\<lparr>cd_manager := fst e\<rparr>)" using s3 by (simp add: synchronised_def e_def)
    moreover have "fst (install L now hook x c) = c3\<lparr>cd_manager := fst e\<rparr> \<or>
        fst (install L now hook x c) = on_manager (emit [hook a']) (c3\<lparr>cd_manager := fst e\<rparr>)"
      using True m1(3) by (cases "snd x") (simp_all add: install_def a'_def [symmetric] p Let_def c3_def [symmetric] e_def split_def)
    ultimately show ?thesis by (auto simp: synchronised_def on_manager_def emit_def)
  qed
qed

lemma carry_over_id [simp]: "au_id (carry_over now e a) = au_id a"
  by (simp add: carry_over_def Let_def)

lemma Register_synchronised:
  assumes "synchronised t c" "t \<le> now" "trimmed a" "trim_space (lc_new_id L) = lc_new_id L"
  shows "synchronised now (fst (Register L now a c))"
  using assms(3,4) install_synchronised [OF assms(1,2)] synchronised_mono [OF assms(1,2)]
  by (auto simp: Register_def Let_def trimmed_def split: option.splits)

lemma Update_synchronised:
  assumes "synchronised t c" "t \<le> now" "trimmed a"
  shows "synchronised now (fst (Update L now a c))"
  using assms(3) install_synchronised [OF assms(1,2)] synchronised_mono [OF assms(1,2)]
  by (auto simp: Update_def Let_def trimmed_def split: option.splits)

lemma Remove_synchronised:
  assumes "synchronised t c" "t \<le> now"
  shows "synchronised now (fst (Remove L now i c))"
proof -
  note c = synchronised_mono [OF assms]
  have "told {} now (mdel (trim_space i) (mg_auths (cd_manager c))) (removeAuthLocked (trim_space i) (cd_scheduler c))"
    using told_remove c by (simp add: synchronised_def)
  then show ?thesis using c
    by (auto simp: Remove_def Let_def synchronised_def on_manager_def emit_def removeAuth_def split_def split: option.splits)
qed

lemma sync_synchronised:
  assumes "mg_has_scheduler (cd_manager c)" "mwf (mg_auths (cd_manager c))" "0 \<le> now"
    and "\<forall>i a. mget (mg_auths (cd_manager c)) i = Some a \<longrightarrow> au_id a = i \<and> trimmed a"
  shows "synchronised now (syncScheduler now c)"
  using told_rebuild [OF assms(2,4,3)] assms(1) by (simp add: synchronised_def syncScheduler_def cd_auths_def)

definition keyed :: "(string, Auth) gomap \<Rightarrow> bool" where
  "keyed auths \<longleftrightarrow> mwf auths \<and> (\<forall>i a. mget auths i = Some a \<longrightarrow> au_id a = i \<and> trimmed a)"

lemma keyed_put: "keyed auths \<Longrightarrow> trimmed a \<Longrightarrow> keyed (mput (au_id a) a auths)"
  by (simp add: keyed_def)

lemma load_step_keyed:
  assumes "keyed auths" "\<forall>a. x = Some a \<longrightarrow> trimmed a"
  shows "keyed (load_step L auths x)"
proof (cases x)
  case (Some a)
  define a1 where "a1 = a\<lparr>au_metadata := NormalizeCredentialMetadata (au_metadata a)\<rparr>"
  have e: "trimmed (EnsureIndex (lc_index L) a1)" "au_id (EnsureIndex (lc_index L) a1) = au_id a1"
    using assms(2) Some by (simp_all add: trimmed_def a1_def)
  show ?thesis using keyed_put [OF assms(1) e(1)] assms(1) Some e(2) by (simp add: load_step_def Let_def a1_def [symmetric])
qed (use assms(1) in \<open>simp add: load_step_def\<close>)

lemma load_fold: "\<forall>a. Some a \<in> set l \<longrightarrow> trimmed a \<Longrightarrow> keyed (foldl (load_step L) [] l)"
proof (induction l rule: rev_induct)
  case Nil
  then show ?case by (simp add: keyed_def)
next
  case (snoc x l)
  then show ?case using load_step_keyed by (auto simp del: not_None_eq)
qed

lemma Load_synchronised:
  assumes "synchronised t c" "t \<le> now" "\<forall>l a. items = Some l \<and> Some a \<in> set l \<longrightarrow> trimmed a"
  shows "synchronised now (fst (Load L now items c))"
proof (cases "lc_has_store L \<and> items \<noteq> None")
  case False
  then show ?thesis using synchronised_mono [OF assms(1,2)] by (auto simp: Load_def split: option.splits)
next
  case True
  then obtain l where l: "items = Some l" by blast
  define c1 where "c1 = rebuildAPIKeyModelAliasFromRuntimeConfig (on_manager (\<lambda>m. m\<lparr>mg_auths := foldl (load_step L) [] l\<rparr>) c)"
  have m: "mg_auths (cd_manager c1) = foldl (load_step L) [] l" "mg_has_scheduler (cd_manager c1)"
    using assms(1) by (simp_all add: c1_def on_manager_def synchronised_def)
  have "0 \<le> now" using assms(1,2) by (auto simp: synchronised_def told_def)
  then have "synchronised now (syncScheduler now c1)"
    using sync_synchronised [OF m(2)] load_fold [of l L] assms(3) l unfolding m(1) keyed_def by blast
  then show ?thesis using True l m(2) by (simp add: Load_def Let_def c1_def)
qed

lemma RefreshSchedulerEntry_synchronised:
  assumes "synchronised t c" "t \<le> now"
  shows "synchronised now (RefreshSchedulerEntry now i c)"
  using synchronised_mono [OF assms] told_again [of "{}" t "mg_auths (cd_manager c)" "cd_scheduler c" now i] assms
  by (auto simp: RefreshSchedulerEntry_def synchronised_def split: option.splits)

lemma reconciled_id: "reconciled r now i a = Some b \<Longrightarrow> au_id b = au_id a"
  by (auto simp: reconciled_def Let_def updateAggregatedAvailability_def clearAggregatedAvailability_def split_def split: option.splits if_splits)

lemma Reconcile_synchronised:
  assumes "synchronised t c" "t \<le> now"
  shows "synchronised now (ReconcileRegistryModelStates L now i c)"
proof (cases "i = [] \<or> mget (mg_auths (cd_manager c)) i = None")
  case True
  then have "ReconcileRegistryModelStates L now i c = c" by (auto simp: ReconcileRegistryModelStates_def Let_def)
  then show ?thesis using synchronised_mono [OF assms] by simp
next
  case False
  then obtain a0 where a0: "i \<noteq> []" "mget (mg_auths (cd_manager c)) i = Some a0" by blast
  then have t0: "trimmed a0" "au_id a0 = i" using assms(1) unfolding synchronised_def told_def by blast+
  show ?thesis
  proof (cases "reconciled (mg_registry (cd_manager c)) now i a0")
    case None
    then show ?thesis using synchronised_mono [OF assms] a0 by (simp add: ReconcileRegistryModelStates_def Let_def)
  next
    case (Some a)
    have a: "trimmed a" "au_id a = i" using reconciled_id [OF Some] t0 by (simp_all add: trimmed_def)
    show ?thesis
      using told_upsert [OF _ assms(2) a, of "{}" "mg_auths (cd_manager c)" "cd_scheduler c" "mg_registry (cd_manager c)"] assms(1) a0 Some
      by (simp add: ReconcileRegistryModelStates_def synchronised_def Let_def)
  qed
qed

lemma SetSelector_synchronised:
  assumes "synchronised t c" "t \<le> now"
  shows "synchronised now (SetSelector same now sel c)"
proof -
  have m: "mwf (mg_auths (cd_manager c))" "0 \<le> now" "mg_has_scheduler (cd_manager c)"
    "\<forall>i a. mget (mg_auths (cd_manager c)) i = Some a \<longrightarrow> au_id a = i \<and> trimmed a"
    using assms by (auto simp: synchronised_def told_def)
  show ?thesis using sync_synchronised [of "c\<lparr>cd_selector := sel, cd_scheduler := setSelector (kind_of sel) (cd_scheduler c)\<rparr>", OF _ _ m(2)]
      m synchronised_mono [OF assms] by (simp add: SetSelector_def Let_def)
qed

text \<open>The credentials an operation asks the scheduler to take over.\<close>

definition upserts :: "manager_event list \<Rightarrow> Auth list" where
  "upserts evs = concat (map (\<lambda>ev. case ev of SchedulerUpsert a \<Rightarrow> [a] | _ \<Rightarrow> []) evs)"

lemma upserts_simps [simp]:
  "upserts [] = []" "upserts (evs @ evs') = upserts evs @ upserts evs'" "upserts (SchedulerUpsert a # evs) = a # upserts evs"
  "upserts (PersistAuth a # evs) = upserts evs" "upserts (HookResult r # evs) = upserts evs" "upserts (SessionResult r # evs) = upserts evs"
  "upserts (SaveCooldowns l # evs) = upserts evs"
  by (simp_all add: upserts_def)

lemma deliver_upserts: "deliver r now evs s = foldl (\<lambda>s a. upsertAuth r a now s) s (upserts evs)"
  by (induction evs arbitrary: s) (auto simp: deliver_def upserts_def split: manager_event.splits)

text \<open>What a recorded result or a reset does: it replaces one credential by another of the same identity
  and tells the scheduler of it, or changes none.\<close>

definition replaces_one :: "string \<Rightarrow> Manager \<Rightarrow> Manager \<Rightarrow> bool" where
  "replaces_one i m m' \<longleftrightarrow> mg_has_scheduler m' \<and>
     (\<exists>evs. mg_events m' = mg_events m @ evs \<and>
       ((mg_auths m' = mg_auths m \<and> upserts evs = []) \<or>
        (\<exists>a. same_holder m i a \<and> mg_auths m' = mput i a (mg_auths m) \<and> upserts evs = [a])))"

lemma same_holder_id: "synchronised t c \<Longrightarrow> same_holder (cd_manager c) i a \<Longrightarrow> trimmed a \<and> au_id a = i"
  unfolding synchronised_def told_def same_holder_def identity_def trimmed_def by (metis prod.inject)

lemma replaces_synchronised:
  assumes c: "synchronised t c" "t \<le> now" and m: "replaces_one i (cd_manager c) m'"
  shows "synchronised now (after_manager now m' c)"
proof -
  obtain evs where e: "mg_events m' = mg_events (cd_manager c) @ evs" "mg_has_scheduler m'" and
    d: "(mg_auths m' = mg_auths (cd_manager c) \<and> upserts evs = []) \<or>
        (\<exists>a. same_holder (cd_manager c) i a \<and> mg_auths m' = mput i a (mg_auths (cd_manager c)) \<and> upserts evs = [a])"
    using m unfolding replaces_one_def by blast
  have s: "synchronised now (after_manager now m' c) = told {} now (mg_auths m')
      (foldl (\<lambda>s a. upsertAuth (mg_registry (cd_manager c)) a now s) (cd_scheduler c) (upserts evs))"
    using e by (simp add: synchronised_def after_manager_def deliver_upserts)
  show ?thesis unfolding s using d
  proof
    assume "mg_auths m' = mg_auths (cd_manager c) \<and> upserts evs = []"
    then show "told {} now (mg_auths m') (foldl (\<lambda>s a. upsertAuth (mg_registry (cd_manager c)) a now s) (cd_scheduler c) (upserts evs))"
      using synchronised_mono [OF c] by (simp add: synchronised_def)
  next
    assume "\<exists>a. same_holder (cd_manager c) i a \<and> mg_auths m' = mput i a (mg_auths (cd_manager c)) \<and> upserts evs = [a]"
    then obtain a where a: "same_holder (cd_manager c) i a" "mg_auths m' = mput i a (mg_auths (cd_manager c))" "upserts evs = [a]" by blast
    from same_holder_id [OF c(1) a(1)] have "trimmed a" "au_id a = i" by simp_all
    from told_upsert [OF _ c(2) this, of "{}"] c(1) show "told {} now (mg_auths m') (foldl (\<lambda>s a. upsertAuth (mg_registry (cd_manager c)) a now s) (cd_scheduler c) (upserts evs))"
      unfolding a(2,3) by (simp add: synchronised_def)
  qed
qed

lemma persistCooldown_upserts: "\<exists>evs. mg_events (fst (persistCooldownStates E now m)) = mg_events m @ evs \<and> upserts evs = []"
  by (simp add: persistCooldownStates_def emit_def Let_def)

text \<open>The cooldowns are saved where they may have changed; then only other events follow.\<close>

lemma replaces_saved:
  assumes "replaces_one i m m1" "m2 = m1 \<or> m2 = fst (persistCooldownStates E now m1)"
    and "mg_auths m3 = mg_auths m2" "mg_has_scheduler m3 = mg_has_scheduler m2" "mg_events m3 = mg_events m2 @ evs" "upserts evs = []"
  shows "replaces_one i m m3"
proof -
  obtain ev1 where 1: "mg_events m2 = mg_events m1 @ ev1" "upserts ev1 = []" "mg_auths m2 = mg_auths m1" "mg_has_scheduler m2 = mg_has_scheduler m1"
    using assms(2) persistCooldown_upserts [of E now m1] by auto
  obtain ev0 where 0: "mg_events m1 = mg_events m @ ev0" "mg_has_scheduler m1"
    "(mg_auths m1 = mg_auths m \<and> upserts ev0 = []) \<or> (\<exists>a. same_holder m i a \<and> mg_auths m1 = mput i a (mg_auths m) \<and> upserts ev0 = [a])"
    using assms(1) unfolding replaces_one_def by blast
  have e: "mg_events m3 = mg_events m @ (ev0 @ ev1 @ evs)" "upserts (ev0 @ ev1 @ evs) = upserts ev0" "mg_has_scheduler m3" "mg_auths m3 = mg_auths m1"
    using 0 1 assms by simp_all
  show ?thesis unfolding replaces_one_def using e 0(3) by (intro conjI exI [of _ "ev0 @ ev1 @ evs"]) auto
qed

lemma MarkResult_replaces:
  assumes "mg_has_scheduler m"
  shows "replaces_one (re_auth_id r) m (fst (MarkResult E h now r m))"
proof (cases "re_auth_id r = [] \<or> mget (mg_auths m) (re_auth_id r) = None")
  case True
  then show ?thesis using assms by (auto simp: MarkResult_def replaces_one_def emit_def)
next
  case False
  then obtain b where b: "re_auth_id r \<noteq> []" "mget (mg_auths m) (re_auth_id r) = Some b" by auto
  obtain a mk where mk: "mark_auth (en_json E) (mg_transient_seconds m) (cooldownDisabledForAuth m b) r h now b = (a, mk)"
    by (cases "mark_auth (en_json E) (mg_transient_seconds m) (cooldownDisabledForAuth m b) r h now b")
  then have "identity a = identity b" using mark_auth_identity by (metis fst_conv)
  then have a: "same_holder m (re_auth_id r) a" using b by (auto simp: same_holder_def)
  define m1 where "m1 = emit ([PersistAuth a] @ (if mg_has_scheduler m then [SchedulerUpsert a] else []))
                               (m\<lparr>mg_auths := mput (re_auth_id r) a (mg_auths m)\<rparr>)"
  define changed where "changed = (mg_has_cooldown_store m \<and> \<not> cooldownStateRecordsEqual
                      (cooldownStateRecordsForAuthLocked (cooldownDisabledForAuth m b) now b)
                      (cooldownStateRecordsForAuthLocked (cooldownDisabledForAuth m a) now a))"
  obtain m2 saved where m2: "(if changed then persistCooldownStates E now m1 else (m1, True)) = (m2, saved)"
    by (cases "if changed then persistCooldownStates E now m1 else (m1, True)")
  have 1: "replaces_one (re_auth_id r) m m1" using a assms unfolding replaces_one_def m1_def emit_def by auto
  have 2: "m2 = m1 \<or> m2 = fst (persistCooldownStates E now m1)" using m2 by (metis fst_conv)
  have e: "fst (MarkResult E h now r m) = (if en_persist_fails E a then emit [PersistAuth a] m
      else emit [HookResult r, SessionResult r] (m2\<lparr>mg_registry := mark_registry (re_auth_id r) (canonicalModelKey (re_model r)) mk now (mg_registry m2)\<rparr>))"
    using b(1) unfolding MarkResult_def Let_def b(2) option.case mk prod.case m1_def [symmetric] changed_def [symmetric] m2 by simp
  show ?thesis
  proof (cases "en_persist_fails E a")
    case True
    then show ?thesis using assms unfolding e by (auto simp: replaces_one_def emit_def)
  next
    case False
    then show ?thesis unfolding e
      by (simp only: if_False, intro replaces_saved [OF 1 2, where evs = "[HookResult r, SessionResult r]"]) (simp_all add: emit_def)
  qed
qed

lemma reset_identity: "identity (reset_auth now a) = identity a"
proof -
  have "identity (fst (clearCooldownStateForAuth now b)) = identity b" for b
    by (simp add: clearCooldownStateForAuth_def Let_def identity_simps)
  moreover have "identity (reset_states now a) = identity a" by (simp add: reset_states_def identity_simps)
  ultimately show ?thesis by (simp add: reset_auth_def Let_def split_def identity_simps)
qed

lemma ResetQuota_replaces:
  assumes "mg_has_scheduler m" "\<not> en_persist_fails E (reset_auth now a0)" "mget (mg_auths m) (trim_space i) = Some a0"
  shows "replaces_one (trim_space i) m (fst (ResetQuota E i now m))"
proof (cases "trim_space i = []")
  case True
  then show ?thesis using assms(1) by (simp add: ResetQuota_def replaces_one_def)
next
  case False
  define a where "a = reset_auth now a0"
  have a: "same_holder m (trim_space i) a" using assms(3) reset_identity [of now a0] by (simp add: same_holder_def a_def)
  define models where "models = dedupeStrings (if filter (\<lambda>k. trim_space k \<noteq> []) (map fst (au_model_states a0)) = []
      then modelsForRegisteredAuth (mg_registry m) (trim_space i) else filter (\<lambda>k. trim_space k \<noteq> []) (map fst (au_model_states a0)))"
  define m2 where "m2 = emit ([PersistAuth a] @ (if mg_has_scheduler m then [SchedulerUpsert a] else []))
      (m\<lparr>mg_auths := mput (trim_space i) a (mg_auths m),
         mg_registry := foldl (\<lambda>r k. ResumeClientModel (ClearModelQuotaExceeded r (trim_space i) k) (trim_space i) k now) (mg_registry m) models\<rparr>)"
  have 2: "replaces_one (trim_space i) m m2" using a assms(1) unfolding replaces_one_def m2_def emit_def by auto
  have "fst (ResetQuota E i now m) = m2 \<or> fst (ResetQuota E i now m) = fst (persistCooldownStates E now m2)"
    using False assms(2,3) by (simp add: ResetQuota_def Let_def split_def m2_def models_def a_def)
  then show ?thesis by (intro replaces_saved [OF 2 _ refl refl, where evs = "[]"]) auto
qed

lemma neutral_synchronised:
  assumes c: "synchronised t c" "t \<le> now"
  shows "synchronised now (after_manager now (fst (recordAvailabilityNeutralResult E now r (cd_manager c))) c)"
proof (cases "re_auth_id r = [] \<or> mget (mg_auths (cd_manager c)) (re_auth_id r) = None")
  case True
  then show ?thesis using synchronised_mono [OF c]
    by (auto simp: recordAvailabilityNeutralResult_def after_manager_def synchronised_def deliver_upserts emit_def)
next
  case False
  then obtain b where b: "re_auth_id r \<noteq> []" "mget (mg_auths (cd_manager c)) (re_auth_id r) = Some b" by auto
  have "told {} now (mput (re_auth_id r) (counted r now b) (mg_auths (cd_manager c))) (cd_scheduler c)"
    using told_core [OF _ b(2), of "{}" now "cd_scheduler c" "counted r now b"] synchronised_mono [OF c] by (simp add: synchronised_def)
  moreover have "fst (recordAvailabilityNeutralResult E now r (cd_manager c)) =
      emit [PersistAuth (counted r now b), HookResult r] ((cd_manager c)\<lparr>mg_auths := mput (re_auth_id r) (counted r now b) (mg_auths (cd_manager c))\<rparr>)"
    using b by (simp add: recordAvailabilityNeutralResult_def counted_def Let_def)
  ultimately show ?thesis using c(1) by (simp add: after_manager_def synchronised_def deliver_upserts emit_def)
qed

section \<open>Restoring cooldowns\<close>

lemma restore_auth_id: "au_id (restore_auth r now a) = au_id a"
proof -
  have "identity (restore_auth r now a) = identity a" by (simp add: restore_auth_def Let_def identity_simps)
  then show ?thesis by (simp add: identity_def)
qed

text \<open>A restored credential is one the scheduler has not been told of yet.\<close>

definition restoring :: "time \<Rightarrow> Manager \<Rightarrow> authScheduler \<Rightarrow> Manager \<times> string list \<Rightarrow> bool" where
  "restoring t m s acc \<longleftrightarrow> told (set (snd acc)) t (mg_auths (fst acc)) s \<and> (\<forall>i \<in> set (snd acc). mget (mg_auths (fst acc)) i \<noteq> None) \<and>
     mg_events (fst acc) = mg_events m \<and> mg_has_scheduler (fst acc) = mg_has_scheduler m"

lemma restore_step_restoring: "restoring t m s acc \<Longrightarrow> restoring t m s (restore_step now acc r)"
proof -
  assume h: "restoring t m s acc"
  obtain m1 ids where acc: "acc = (m1, ids)" by (cases acc)
  let ?i = "trim_space (cr_auth_id r)"
  show ?thesis
  proof (cases "snd (restoreCooldownRecordLocked r now m1)")
    case False
    then have "fst (restoreCooldownRecordLocked r now m1) = m1" by (auto simp: restoreCooldownRecordLocked_def Let_def split: option.splits)
    then show ?thesis using h False acc by (simp add: restore_step_def split_def)
  next
    case True
    then obtain a where a: "mget (mg_auths m1) ?i = Some a"
      "restoreCooldownRecordLocked r now m1 = (m1\<lparr>mg_auths := mput ?i (restore_auth r now a) (mg_auths m1)\<rparr>, True)"
      by (auto simp: restoreCooldownRecordLocked_def Let_def split: option.splits if_splits)
    have t: "told (set ids) t (mg_auths m1) s" using h acc by (simp add: restoring_def)
    have "au_id a = ?i \<and> trimmed a" using t a(1) unfolding told_def by blast
    then have "trimmed (restore_auth r now a)" "au_id (restore_auth r now a) = ?i" by (simp_all add: trimmed_def restore_auth_id)
    from told_put [OF t this] show ?thesis using h acc a(2) by (auto simp: restoring_def restore_step_def)
  qed
qed

lemma restore_fold_restoring: "restoring t m s acc \<Longrightarrow> restoring t m s (foldl (restore_step now) acc rs)"
  by (induction rs arbitrary: acc) (simp_all add: restore_step_restoring)

lemma told_all:
  "told S now auths s \<Longrightarrow> S \<subseteq> set ids \<Longrightarrow> \<forall>i \<in> set ids. mget auths i \<noteq> None \<Longrightarrow>
   told {} now auths (foldl (\<lambda>s a. upsertAuth r a now s) s (concat (map (\<lambda>i. case mget auths i of None \<Rightarrow> [] | Some a \<Rightarrow> [a]) ids)))"
proof (induction ids arbitrary: S s)
  case Nil
  then show ?case by simp
next
  case (Cons i ids)
  then obtain a where a: "mget auths i = Some a" by auto
  have "told (S - {i}) now auths (upsertAuth r a now s)" using told_again [OF Cons.prems(1) order_refl a] .
  moreover have "S - {i} \<subseteq> set ids" using Cons.prems(2) by auto
  ultimately show ?case using Cons.IH Cons.prems(3) a by simp
qed

lemma restore_upserts:
  "upserts (concat (map (\<lambda>i. case mget auths i of None \<Rightarrow> [] | Some a \<Rightarrow> [SchedulerUpsert a]) ids)) =
   concat (map (\<lambda>i. case mget auths i of None \<Rightarrow> [] | Some a \<Rightarrow> [a]) ids)"
  by (induction ids) (auto split: option.splits)

lemma Restore_synchronised:
  assumes c: "synchronised t c" "t \<le> now"
  shows "synchronised now (after_manager now (fst (RestoreCooldownStates E loaded now (cd_manager c))) c)"
proof -
  define m where "m = cd_manager c"
  have same: "synchronised now (after_manager now m c)"
    using synchronised_mono [OF c] by (simp add: after_manager_def synchronised_def deliver_upserts m_def)
  have hs: "mg_has_scheduler m" using c(1) by (simp add: synchronised_def m_def)
  show ?thesis
  proof (cases "mg_has_cooldown_store m \<and> loaded \<noteq> None \<and> loaded \<noteq> Some []")
    case False
    then have "fst (RestoreCooldownStates E loaded now m) = m" by (auto simp: RestoreCooldownStates_def split: option.splits)
    then show ?thesis using same by (simp add: m_def)
  next
    case True
    then obtain rs where rs: "loaded = Some rs" "rs \<noteq> []" by blast
    obtain m1 ids1 where f1: "foldl (restore_step now) (m, []) (filter (\<lambda>r. trim_space (cr_model r) \<noteq> []) rs) = (m1, ids1)"
      by (cases "foldl (restore_step now) (m, []) (filter (\<lambda>r. trim_space (cr_model r) \<noteq> []) rs)")
    obtain m2 ids2 where f2: "foldl (restore_step now) (m1, ids1) (filter (\<lambda>r. trim_space (cr_model r) = []) rs) = (m2, ids2)"
      by (cases "foldl (restore_step now) (m1, ids1) (filter (\<lambda>r. trim_space (cr_model r) = []) rs)")
    have "restoring now m (cd_scheduler c) (m, [])" using synchronised_mono [OF c] by (simp add: restoring_def synchronised_def m_def)
    from restore_fold_restoring [OF this, of now "filter (\<lambda>r. trim_space (cr_model r) \<noteq> []) rs"]
    have "restoring now m (cd_scheduler c) (m1, ids1)" unfolding f1 .
    from restore_fold_restoring [OF this, of now "filter (\<lambda>r. trim_space (cr_model r) = []) rs"]
    have R: "restoring now m (cd_scheduler c) (m2, ids2)" unfolding f2 .
    define ups where "ups = concat (map (\<lambda>i. case mget (mg_auths m2) i of None \<Rightarrow> [] | Some a \<Rightarrow> [SchedulerUpsert a]) (first_seen ids2))"
    have r: "fst (RestoreCooldownStates E loaded now m) = fst (persistCooldownStates E now (emit ups m2))"
      using True rs f1 f2 R hs by (simp add: RestoreCooldownStates_def Let_def restoring_def ups_def)
    obtain evs where ev: "mg_events (fst (persistCooldownStates E now (emit ups m2))) = mg_events (emit ups m2) @ evs" "upserts evs = []"
      using persistCooldown_upserts by blast
    have "told {} now (mg_auths m2) (foldl (\<lambda>s a. upsertAuth (mg_registry m) a now s) (cd_scheduler c) (upserts ups))"
      unfolding ups_def restore_upserts by (rule told_all [where S = "set ids2"]) (use R in \<open>auto simp: restoring_def\<close>)
    then show ?thesis unfolding m_def [symmetric] r
      using R ev hs by (simp add: synchronised_def after_manager_def deliver_upserts m_def [symmetric] restoring_def emit_def)
  qed
qed

section \<open>Picking keeps the scheduler in step\<close>

lemma told_pick: "told S t auths s \<Longrightarrow> ticking t clk \<Longrightarrow> told S (clk 2) auths (fst (pickMixed clk ps q s))"
  unfolding told_def pickMixed_def using mixed_holds by (meson order_trans ticking_def)

lemma fast_pick_fields [simp]: "cd_manager (fst (fast_pick clk ps q c)) = cd_manager c" "cd_aliases (fst (fast_pick clk ps q c)) = cd_aliases c"
    "cd_executors (fst (fast_pick clk ps q c)) = cd_executors c"
    "cd_scheduler (fst (fast_pick clk ps q c)) = fst (pickMixed clk ps q (cd_scheduler c))"
    "snd (fast_pick clk ps q c) = snd (pickMixed clk ps q (cd_scheduler c))"
  by (simp_all add: fast_pick_def split_def Let_def)

lemma fast_pick_synchronised:
  "synchronised t c \<Longrightarrow> ticking t clk \<Longrightarrow> synchronised (clk 2) (fst (fast_pick clk ps q c))"
  unfolding synchronised_def by (simp, blast intro: told_pick)

lemma assign_index_synchronised:
  assumes "synchronised t c"
  shows "synchronised t (fst (assign_index f a c))"
  using assms told_core [of "{}" t "mg_auths (cd_manager c)" "cd_scheduler c" "au_id a"]
  by (auto simp: assign_index_def synchronised_def Let_def split: option.splits)

lemma syncScheduler_synchronised: "synchronised t c \<Longrightarrow> t \<le> now \<Longrightarrow> synchronised now (syncScheduler now c)"
  by (rule sync_synchronised) (auto simp: synchronised_def told_def)

lemma pick_synchronised:
  assumes c: "synchronised t c" and t: "clocks_from t clks"
  shows "synchronised (clks 2 2) (fst (pickNextMixed f clks providers q c))"
proof -
  define ps where "ps = eligible_providers c providers"
  have ts: "ticking t (clks 0)" "clks 0 2 \<le> clks 1 0" "ticking (clks 1 0) (clks 2)" "t \<le> clks 2 2" "clks 0 2 \<le> clks 2 2"
    using t by (auto simp: clocks_from_def ticking_def)
  have c': "synchronised (clks 2 2) c" by (rule synchronised_mono [OF c ts(4)])
  have sel: "synchronised (clks 2 2) (c\<lparr>cd_selector := sel\<rparr>)" for sel using c' by (simp add: synchronised_def)
  have legacy: "synchronised (clks 2 2) (fst (pickNextMixedLegacy f (clks 0) providers q c))"
    using c' sel assign_index_synchronised [OF sel]
    by (auto simp: pickNextMixedLegacy_def Let_def split_def split: sum.splits)
  obtain c1 r1 where f1: "fast_pick (clks 0) ps q c = (c1, r1)" by (cases "fast_pick (clks 0) ps q c")
  obtain c2 r2 where f2: "fast_pick (clks 2) ps q (syncScheduler (clks 1 0) c1) = (c2, r2)" by (cases "fast_pick (clks 2) ps q (syncScheduler (clks 1 0) c1)")
  have s1: "synchronised (clks 0 2) c1" using fast_pick_synchronised [OF c ts(1), of ps q] f1 by simp
  have s2: "synchronised (clks 2 2) c2"
    using fast_pick_synchronised [OF syncScheduler_synchronised [OF s1 ts(2)] ts(3), of ps q] f2 by simp
  obtain c3 r3 where x: "(c3, r3) = (case r1 of
               Inl e \<Rightarrow> if sq_model q \<noteq> [] \<and> shouldRetrySchedulerPick e then (c2, r2) else (c1, r1) | _ \<Rightarrow> (c1, r1))" by (metis surj_pair)
  have s3: "synchronised (clks 2 2) c3" using x s2 synchronised_mono [OF s1 ts(5)] by (auto split: sum.splits if_splits)
  have "fst (pickNextMixed f clks providers q c) = c \<or> fst (pickNextMixed f clks providers q c) = fst (pickNextMixedLegacy f (clks 0) providers q c) \<or>
      fst (pickNextMixed f clks providers q c) = c3 \<or> (\<exists>a. fst (pickNextMixed f clks providers q c) = fst (assign_index f a c3))"
    unfolding pickNextMixed_def ps_def [symmetric] Let_def f1 prod.case f2 x [symmetric] by (auto simp: split_def split: sum.splits)
  then show ?thesis using c' legacy s3 assign_index_synchronised [OF s3] by auto
qed

section \<open>The life of a manager\<close>

text \<open>Every operation on credentials, at any time, in any order, with any outcome of saving except for
  \<open>ResetQuota\<close>, which leaves the scheduler behind when the credential cannot be saved.\<close>

definition manager_init :: "Conductor \<times> time \<Rightarrow> bool" where
  "manager_init st \<longleftrightarrow> (\<exists>sel m env t. 0 \<le> t \<and> st = (NewManager sel m env, t))"

inductive manager_step :: "Conductor \<times> time \<Rightarrow> Conductor \<times> time \<Rightarrow> bool" where
  registers: "t \<le> now \<Longrightarrow> trimmed a \<Longrightarrow> trim_space (lc_new_id L) = lc_new_id L \<Longrightarrow> manager_step (c, t) (fst (Register L now a c), now)"
| updates: "t \<le> now \<Longrightarrow> trimmed a \<Longrightarrow> manager_step (c, t) (fst (Update L now a c), now)"
| removes: "t \<le> now \<Longrightarrow> manager_step (c, t) (fst (Remove L now i c), now)"
| loads: "t \<le> now \<Longrightarrow> \<forall>l a. items = Some l \<and> Some a \<in> set l \<longrightarrow> trimmed a \<Longrightarrow> manager_step (c, t) (fst (Load L now items c), now)"
| refreshes: "t \<le> now \<Longrightarrow> manager_step (c, t) (RefreshSchedulerEntry now i c, now)"
| reconciles: "t \<le> now \<Longrightarrow> manager_step (c, t) (ReconcileRegistryModelStates L now i c, now)"
| selects: "t \<le> now \<Longrightarrow> manager_step (c, t) (SetSelector same now sel c, now)"
| marks: "t \<le> now \<Longrightarrow> manager_step (c, t) (after_manager now (fst (MarkResult E h now r (cd_manager c))) c, now)"
| counts: "t \<le> now \<Longrightarrow> manager_step (c, t) (after_manager now (fst (recordAvailabilityNeutralResult E now r (cd_manager c))) c, now)"
| resets: "t \<le> now \<Longrightarrow> en_persist_fails E = (\<lambda>_. False) \<Longrightarrow>
    manager_step (c, t) (after_manager now (fst (ResetQuota E i now (cd_manager c))) c, now)"
| restores: "t \<le> now \<Longrightarrow> manager_step (c, t) (after_manager now (fst (RestoreCooldownStates E loaded now (cd_manager c))) c, now)"
| picks: "clocks_from t clks \<Longrightarrow> manager_step (c, t) (fst (pickNextMixed f clks providers q c), clks 2 2)"
| models: "manager_step (c, t) (on_manager (\<lambda>m. m\<lparr>mg_registry := g\<rparr>) c, t)"
| executor: "manager_step (c, t) (RegisterExecutor p c, t)"
| no_executor: "manager_step (c, t) (UnregisterExecutor p c, t)"

interpretation manager: invariant_system manager_init manager_step "\<lambda>(c, t). synchronised t c"
proof
  fix st assume "manager_init st"
  then show "case st of (c, t) \<Rightarrow> synchronised t c"
    by (auto simp: manager_init_def NewManager_def synchronised_def told_def in_step_def schedulable_def intro!: exI [of _ "\<lambda>_. None"] new_holds)
next
  fix st st' assume i: "case st of (c, t) \<Rightarrow> synchronised t c" and step: "manager_step st st'"
  obtain c t where st: "st = (c, t)" by (cases st)
  have c: "synchronised t c" using i st by simp
  show "case st' of (c, t) \<Rightarrow> synchronised t c"
    using step unfolding st
  proof cases
    case (registers now a L)
    then show ?thesis using Register_synchronised [OF c] by simp
  next
    case (updates now a L)
    then show ?thesis using Update_synchronised [OF c] by simp
  next
    case (removes now L i)
    then show ?thesis using Remove_synchronised [OF c] by simp
  next
    case (loads now items L)
    have "synchronised now (fst (Load L now items c))" by (rule Load_synchronised [OF c loads(2,3)])
    then show ?thesis unfolding loads(1) by simp
  next
    case (refreshes now i)
    then show ?thesis using RefreshSchedulerEntry_synchronised [OF c] by simp
  next
    case (reconciles now L i)
    then show ?thesis using Reconcile_synchronised [OF c] by simp
  next
    case (selects now same sel)
    then show ?thesis using SetSelector_synchronised [OF c] by simp
  next
    case (marks now E h r)
    then show ?thesis using replaces_synchronised [OF c _ MarkResult_replaces] c by (simp add: synchronised_def)
  next
    case (counts now E r)
    then show ?thesis using neutral_synchronised [OF c] by simp
  next
    case (resets now E i)
    have "synchronised now (after_manager now (fst (ResetQuota E i now (cd_manager c))) c)"
    proof (cases "mget (mg_auths (cd_manager c)) (trim_space i)")
      case None
      then have "fst (ResetQuota E i now (cd_manager c)) = cd_manager c" by (simp add: ResetQuota_def Let_def)
      then show ?thesis using synchronised_mono [OF c resets(2)] by (simp add: after_manager_def synchronised_def deliver_upserts)
    next
      case (Some a)
      have "replaces_one (trim_space i) (cd_manager c) (fst (ResetQuota E i now (cd_manager c)))"
        by (rule ResetQuota_replaces [OF _ _ Some]) (use c resets(3) in \<open>simp_all add: synchronised_def\<close>)
      then show ?thesis by (rule replaces_synchronised [OF c resets(2)])
    qed
    then show ?thesis unfolding resets(1) by simp
  next
    case (restores now E loaded)
    then show ?thesis using Restore_synchronised [OF c] by simp
  next
    case (picks clks f providers q)
    then show ?thesis using pick_synchronised [OF c] by simp
  next
    case (models g)
    then show ?thesis using c by (simp add: synchronised_def on_manager_def)
  next
    case (executor p)
    then show ?thesis using c by (auto simp: synchronised_def RegisterExecutor_def Let_def)
  next
    case (no_executor p)
    then show ?thesis using c by (auto simp: synchronised_def UnregisterExecutor_def Let_def)
  qed
qed

section \<open>What a request gets\<close>

lemma block_by_key:
  assumes "canonicalModelKey m = canonicalModelKey m'" "m \<noteq> []" "m' \<noteq> []"
  shows "isAuthBlockedForModel (Some a) m now = isAuthBlockedForModel (Some a) m' now"
  using assms by (simp add: isAuthBlockedForModel_def)

lemma canonical_Nil [simp]: "canonicalModelKey [] = []"
  by (simp add: canonicalModelKey_def)

text \<open>A credential the manager holds, enabled, with an executor among the providers, that the request may
  use and that is free for the model.\<close>

definition live :: "Conductor \<Rightarrow> string list \<Rightarrow> sched_request \<Rightarrow> time \<Rightarrow> string \<Rightarrow> string \<Rightarrow> bool" where
  "live c providers q now i k \<longleftrightarrow>
     (\<exists>b. mget (mg_auths (cd_manager c)) i = Some b \<and> \<not> au_disabled b \<and> executorKeyFromAuth b = k \<and> k \<in> set (provider_set providers) \<and>
        has_executor c k \<and> allows (authSelectionEligibilityForRequest q) b \<and> i \<notin> set (sq_tried q) \<and>
        \<not> fst (isAuthBlockedForModel (Some b) (selectionModelForAuth (cd_aliases c) b (sq_model q)) now))"

lemma eligible_mem: "u \<in> set (eligible_providers c providers) \<Longrightarrow> u \<in> set (provider_set providers) \<and> has_executor c u \<and> to_lower (trim_space u) = u"
proof -
  have "u \<in> set (foldl (eligible_step c) [] ps) \<Longrightarrow> u \<in> set (provider_set ps) \<and> has_executor c u \<and> to_lower (trim_space u) = u" for ps
  proof (induction ps rule: rev_induct)
    case (snoc p ps)
    have step: "u \<in> set (eligible_step c acc p) \<Longrightarrow> u \<in> set acc \<or> (u = to_lower (trim_space p) \<and> u \<noteq> [] \<and> has_executor c u)" for acc
      by (auto simp: eligible_step_def Let_def split: if_splits)
    have "u \<in> set (foldl (eligible_step c) [] ps) \<or> (u = to_lower (trim_space p) \<and> u \<noteq> [] \<and> has_executor c u)"
      using snoc.prems step by (simp del: to_lower_eq_Nil)
    then show ?case
    proof
      assume "u \<in> set (foldl (eligible_step c) [] ps)"
      then show ?thesis using snoc.IH by (simp add: provider_set_def)
    next
      assume "u = to_lower (trim_space p) \<and> u \<noteq> [] \<and> has_executor c u"
      then show ?thesis by (auto simp: provider_set_def trim_lower)
    qed
  qed simp
  then show "u \<in> set (eligible_providers c providers) \<Longrightarrow> ?thesis" by (simp add: eligible_providers_def)
qed

lemma served_by_manager:
  assumes "synchronised t c" "t \<le> now" "plain_model_name (sq_model q)"
    and "snd (pickMixed (\<lambda>_. now) ps q (cd_scheduler c)) = Inr (a, k)"
  shows "\<exists>b. mget (mg_auths (cd_manager c)) (au_id a) = Some b \<and> \<not> au_disabled b \<and> executorKeyFromAuth b = k \<and>
    k \<in> set (provider_set ps) \<and> allows (authSelectionEligibilityForRequest q) b \<and> au_id a \<notin> set (sq_tried q) \<and>
    \<not> fst (isAuthBlockedForModel (Some b) (sq_model q) now)"
proof -
  obtain A where A: "holds now (cd_scheduler c) A" "in_step {} (mg_auths (cd_manager c)) A" "0 \<le> now"
    using synchronised_mono [OF assms(1,2)] by (auto simp: synchronised_def told_def)
  have sv: "k \<in> set (normalizeProviderKeys ps)" "serves A q (sh_strategy (cd_scheduler c)) now k a"
    using pickMixed_serves [OF A(1,3) assms(3,4)] by simp_all
  then obtain i meta where m: "owned A k i = Some meta" "a = sm_auth meta" "\<not> fst (isAuthBlockedForModel (Some a) (sq_model q) now)"
    "allows (authSelectionEligibilityForRequest q) a" "au_id a \<notin> set (sq_tried q)"
    by (auto simp: serves_def provider_candidates_def auth_allowed_def)
  have Ai: "A i = Some meta" "sm_provider_key meta = k" using m(1) by (auto simp: owned_def split: option.splits if_splits)
  have i: "au_id a = i" using A(1) Ai(1) m(2) by (auto simp: holds_def holding_ok_def)
  have "map_option (\<lambda>a. (core a, executorKeyFromAuth a)) (schedulable (mg_auths (cd_manager c)) i) = Some (core a, k)"
    using A(2) Ai m(2) unfolding in_step_def by (metis empty_iff option.map(2))
  then obtain b where b: "schedulable (mg_auths (cd_manager c)) i = Some b" "core b = core a" "executorKeyFromAuth b = k" by auto
  then have "mget (mg_auths (cd_manager c)) i = Some b" "\<not> au_disabled b" by (auto simp: schedulable_def split: option.splits if_splits)
  then show ?thesis using b(3) m(3-5) i same_core(1,5) [OF b(2)] provider_key_normal [OF sv(1)] by auto
qed

lemma fast_live:
  assumes c: "synchronised t c" "t \<le> now" and pl: "plain_model_name (sq_model q)"
    and same: "mg_auths (cd_manager c) = mg_auths (cd_manager c0)" "cd_aliases c = cd_aliases c0"
    and n: "\<not> needs_route_aware (eligible_providers c0 providers) q c0"
    and r: "snd (fast_pick (\<lambda>_. now) (eligible_providers c0 providers) q c) = Inr (a, k)"
  shows "live c0 providers q now (au_id a) k"
proof -
  obtain b where b: "mget (mg_auths (cd_manager c0)) (au_id a) = Some b" "\<not> au_disabled b" "executorKeyFromAuth b = k"
      "k \<in> set (provider_set (eligible_providers c0 providers))"
      "allows (authSelectionEligibilityForRequest q) b" "au_id a \<notin> set (sq_tried q)" "\<not> fst (isAuthBlockedForModel (Some b) (sq_model q) now)"
    using served_by_manager [OF c pl, of "eligible_providers c0 providers" a k] r same by auto
  obtain u where u: "u \<in> set (eligible_providers c0 providers)" "k = to_lower (trim_space u)" using b(4) by (auto simp: provider_set_def)
  have k: "k \<in> set (eligible_providers c0 providers)" "k \<in> set (provider_set providers)" "has_executor c0 k"
    using u eligible_mem [OF u(1)] by simp_all
  have id: "b \<in> set (cd_auths c0)" using mget_SomeD [OF b(1)] by (force simp: cd_auths_def)
  have ids: "au_id b = au_id a" using c(1) b(1) same(1) unfolding synchronised_def told_def by metis
  have mk: "canonicalModelKey (sq_model q) \<noteq> []" using pl by (simp add: plain_model_name_def)
  then have "trim_space (sq_model q) \<noteq> []" by (auto simp: canonicalModelKey_def Let_def)
  then have "\<not> routeAwareSelectionRequired (cd_aliases c0) b (sq_model q)"
    using n id ids b k(1) by (auto simp: needs_route_aware_def list_ex_iff)
  then have "canonicalModelKey (selectionModelForAuth (cd_aliases c0) b (sq_model q)) = canonicalModelKey (sq_model q)"
    using \<open>trim_space (sq_model q) \<noteq> []\<close> by (simp add: routeAwareSelectionRequired_def selectionModelKeyForAuth_def)
  then have "isAuthBlockedForModel (Some b) (selectionModelForAuth (cd_aliases c0) b (sq_model q)) now = isAuthBlockedForModel (Some b) (sq_model q) now"
    using mk by (intro block_by_key) auto
  then show ?thesis using b k unfolding live_def by auto
qed

lemma assign_index_id [simp]: "synchronised t c \<Longrightarrow> au_id (snd (assign_index f a c)) = au_id a"
  by (auto simp: assign_index_def synchronised_def told_def Let_def split: option.splits)

lemma legacy_live:
  assumes c: "synchronised t c" and r: "snd (pickNextMixedLegacy f (\<lambda>_. now) providers q c) = Inr (a, k)"
    and pl: "plain_model_name (sq_model q)"
  shows "live c providers q now (au_id a) k"
proof -
  let ?cands = "legacy_candidates providers q c"
  show ?thesis
  proof (cases "availableAuthsForRouteModel (cd_aliases c) ?cands ''mixed'' (sq_model q) now")
    case (Inl e)
    then show ?thesis using r by (auto simp: pickNextMixedLegacy_def Let_def split: if_splits)
  next
    case (Inr available)
    have av: "set available \<subseteq> {b \<in> set ?cands. route_model_ok (cd_aliases c) (sq_model q) now b}"
      using route_model_available [where env = "cd_aliases c" and as = ?cands and provider = "''mixed''" and routeModel = "sq_model q" and now = now] Inr
      by (auto simp: top_candidates_def)
    define pq where "pq = \<lparr>rq_provider = ''mixed'', rq_model = [], rq_excluded = extractExcludedAuthIDs (sq_metadata q), rq_now = now,
                   rq_websocket = sq_websocket q, rq_route_model = sq_model q\<rparr>"
    obtain sel x where sel: "builtin_pick (cd_selector c) pq (map Some available) = (sel, x)"
      by (cases "builtin_pick (cd_selector c) pq (map Some available)")
    have c1: "synchronised t (c\<lparr>cd_selector := sel\<rparr>)" using c by (simp add: synchronised_def)
    note e = r [unfolded pickNextMixedLegacy_def Let_def Inr sum.case pq_def [symmetric] sel prod.case]
    obtain b where b: "x = Inr b" using e by (auto split: sum.splits if_splits)
    have "b \<in> set ?cands" "route_model_ok (cd_aliases c) (sq_model q) now b"
      using builtin_pick_from [of "cd_selector c" pq "map Some available" sel b] sel b av by auto
    moreover have "au_id a = au_id b" "k = executorKeyFromAuth b" "has_executor c k"
      using e b assign_index_id [OF c1, of f b] by (auto simp: split_def has_executor_def Let_def split: if_splits)
    moreover have "mget (mg_auths (cd_manager c)) (au_id b) = Some b" if "b \<in> set (cd_auths c)"
      using that c by (auto simp: cd_auths_def synchronised_def told_def mget_Some_iff)
    ultimately show ?thesis unfolding live_def by (auto simp: legacy_candidates_def Let_def route_model_ok_def)
  qed
qed

section \<open>What is picked is live\<close>

lemma pick_live:
  assumes c: "synchronised t c" "t \<le> now" and pl: "plain_model_name (sq_model q)"
    and r: "pickNextMixed f (\<lambda>_ _. now) providers q c = (c', Inr (a, k))"
  shows "live c providers q now (au_id a) k"
proof -
  define ps where "ps = eligible_providers c providers"
  have t0: "0 \<le> now" "ticking t (\<lambda>_. now)" using c by (auto simp: synchronised_def told_def ticking_def)
  consider (none) "ps = []" | (slow) "ps \<noteq> []" "needs_route_aware ps q c" | (fast) "ps \<noteq> []" "\<not> needs_route_aware ps q c" by blast
  then show ?thesis
  proof cases
    case none
    then show ?thesis using r by (simp add: pickNextMixed_def ps_def)
  next
    case slow
    then have "pickNextMixedLegacy f (\<lambda>_. now) providers q c = (c', Inr (a, k))" using r by (simp add: pickNextMixed_def ps_def)
    then have "snd (pickNextMixedLegacy f (\<lambda>_. now) providers q c) = Inr (a, k)" by simp
    then show ?thesis by (rule legacy_live [OF c(1) _ pl])
  next
    case fast
    obtain c1 r1 where f1: "fast_pick (\<lambda>_. now) ps q c = (c1, r1)" by (cases "fast_pick (\<lambda>_. now) ps q c")
    obtain c2 r2 where f2: "fast_pick (\<lambda>_. now) ps q (syncScheduler now c1) = (c2, r2)" by (cases "fast_pick (\<lambda>_. now) ps q (syncScheduler now c1)")
    have s1: "synchronised now c1" using fast_pick_synchronised [OF c(1) t0(2), of ps q] f1 by simp
    note F1 = fast_pick_fields [of "\<lambda>_. now" ps q c, unfolded f1 fst_conv snd_conv]
    have s: "synchronised now (syncScheduler now c1)" using syncScheduler_synchronised [OF s1] by simp
    have s2: "synchronised now c2" using fast_pick_synchronised [OF s, of "\<lambda>_. now" ps q] f2 t0(1) by (simp add: ticking_def)
    have m: "mg_auths (cd_manager (syncScheduler now c1)) = mg_auths (cd_manager c)" "cd_aliases (syncScheduler now c1) = cd_aliases c"
      using F1 by (simp_all add: syncScheduler_def)
    have L1: "live c providers q now (au_id x) y" if "r1 = Inr (x, y)" for x y
      using fast_live [OF c pl refl refl, of providers x y] fast(2) that f1 unfolding ps_def by simp
    have L2: "live c providers q now (au_id x) y" if "r2 = Inr (x, y)" for x y
      using fast_live [OF s order_refl pl m, of providers x y] fast(2) that f2 unfolding ps_def by simp
    obtain c3 r3 where x: "(c3, r3) = (case r1 of
                 Inl e \<Rightarrow> if sq_model q \<noteq> [] \<and> shouldRetrySchedulerPick e then (c2, r2) else (c1, r1) | _ \<Rightarrow> (c1, r1))" by (metis surj_pair)
    have L3: "live c providers q now (au_id x) y" if "r3 = Inr (x, y)" for x y
      using x that L1 L2 by (auto split: sum.splits if_splits)
    have s3: "synchronised now c3" using x s1 s2 by (auto split: sum.splits if_splits)
    have e: "pickNextMixed f (\<lambda>_ _. now) providers q c = (case r3 of
             Inl e \<Rightarrow> (c3, Inl e)
           | Inr (selected, providerKey) \<Rightarrow>
               if \<not> has_executor c3 providerKey then (c3, Inl (AuthError (auth_error ''executor_not_found'' ''executor not registered'')))
               else let (c4, a) = assign_index f selected c3 in (c4, Inr (a, providerKey)))"
      using fast unfolding pickNextMixed_def ps_def [symmetric] Let_def f1 prod.case f2 x [symmetric] by simp
    obtain b where b: "r3 = Inr (b, k)" "au_id a = au_id b"
      using r assign_index_id [OF s3, of f] unfolding e by (cases r3) (auto simp: Let_def split_def split: if_splits)
    show ?thesis using L3 [OF b(1)] b(2) by simp
  qed
qed

text \<open>C7. The scheduler is in step with the manager: whatever operations have run on the credentials, it
  holds exactly those that are enabled and have an executor's name, and of each all that selection reads
  of the manager's.\<close>

theorem scheduler_in_step:
  assumes "reach manager_init manager_step (c, t)"
  shows "\<exists>A. holds t (cd_scheduler c) A \<and>
    (\<forall>i. map_option (\<lambda>meta. (core (sm_auth meta), sm_provider_key meta)) (A i) =
       map_option (\<lambda>a. (core a, executorKeyFromAuth a)) (schedulable (mg_auths (cd_manager c)) i))"
  using manager.reach_inv [OF assms] by (auto simp: synchronised_def told_def in_step_def)

text \<open>C4. What a request picks is live: after any operations, by the scheduler or the slow path, the
  credential is one the manager holds now, enabled, with an executor among the providers asked for,
  that the request may use and has not tried, and free for the model it stands for.\<close>

theorem pick_is_live:
  assumes "reach manager_init manager_step (c, t)" "t \<le> now" "plain_model_name (sq_model q)"
    and "pickNextMixed f (\<lambda>_ _. now) providers q c = (c', Inr (a, k))"
  shows "\<exists>b. mget (mg_auths (cd_manager c)) (au_id a) = Some b \<and> \<not> au_disabled b \<and> executorKeyFromAuth b = k \<and>
    k \<in> set (provider_set providers) \<and> has_executor c k \<and> allows (authSelectionEligibilityForRequest q) b \<and>
    au_id a \<notin> set (sq_tried q) \<and> \<not> fst (isAuthBlockedForModel (Some b) (selectionModelForAuth (cd_aliases c) b (sq_model q)) now)"
  using pick_live [OF _ assms(2-4)] manager.reach_inv [OF assms(1)] by (simp add: live_def)

definition life_cred :: Auth where
  "life_cred = (empty_auth ''a'')\<lparr>au_provider := ''Cursor'', au_status := StatusActive\<rparr>"

definition life_settings :: "lifecycle" where
  "life_settings = \<lparr>lc_env = example_environment, lc_index = (\<lambda>_. ''0''), lc_has_store = False, lc_skip_persist = False,
     lc_defer_rebuild = False, lc_new_id = ''id''\<rparr>"

definition life_start :: Conductor where
  "life_start = NewManager FillFirstSel (example_manager (empty_auth ''a'')) example_env"

text \<open>A manager with one credential, registered at 1, and its executor.\<close>

definition life_one :: Conductor where
  "life_one = RegisterExecutor ''cursor'' (fst (Register life_settings 1 life_cred life_start))"

lemma life_reached: "reach manager_init manager_step (life_one, 1)"
proof -
  have "manager_init (life_start, 0)" unfolding manager_init_def life_start_def by blast
  then have 0: "reach manager_init manager_step (life_start, 0)" by (rule reach_init)
  have "trimmed life_cred" "trim_space (lc_new_id life_settings) = lc_new_id life_settings" by code_simp+
  then have "manager_step (life_start, 0) (fst (Register life_settings 1 life_cred life_start), 1)" by (intro registers) auto
  then have 1: "reach manager_init manager_step (fst (Register life_settings 1 life_cred life_start), 1)" by (rule reach_step [OF 0])
  show ?thesis unfolding life_one_def by (rule reach_step [OF 1]) (rule executor)
qed

theorem scheduler_in_step_witness:
  "\<exists>A. holds 1 (cd_scheduler life_one) A \<and> map_option (\<lambda>meta. au_id (sm_auth meta)) (A ''a'') = Some ''a''"
proof -
  obtain A where A: "holds 1 (cd_scheduler life_one) A"
    "map_option (\<lambda>meta. (core (sm_auth meta), sm_provider_key meta)) (A ''a'') =
       map_option (\<lambda>a. (core a, executorKeyFromAuth a)) (schedulable (mg_auths (cd_manager life_one)) ''a'')"
    using scheduler_in_step [OF life_reached] by blast
  have "map_option au_id (schedulable (mg_auths (cd_manager life_one)) ''a'') = Some ''a''" by code_simp
  then obtain a where a: "schedulable (mg_auths (cd_manager life_one)) ''a'' = Some a" "au_id a = ''a''" by auto
  then obtain meta where m: "A ''a'' = Some meta" "core (sm_auth meta) = core a" using A(2) by auto
  show ?thesis using A(1) m(1) same_core(2) [OF m(2)] a(2) by (intro exI [of _ A]) simp
qed

theorem pick_is_live_witness:
  "\<exists>b. mget (mg_auths (cd_manager life_one)) ''a'' = Some b \<and> \<not> au_disabled b \<and> executorKeyFromAuth b = ''cursor'' \<and>
    has_executor life_one ''cursor'' \<and> \<not> fst (isAuthBlockedForModel (Some b) (selectionModelForAuth (cd_aliases life_one) b ''gpt-5(high)'') 2)"
proof -
  have "map_sum id (\<lambda>(a, k). (au_id a, k)) (snd (pickNextMixed (\<lambda>_. ''0'') (\<lambda>_ _. 2) [''Cursor''] sched_example_request life_one)) = Inr (''a'', ''cursor'')"
    by code_simp
  then obtain c' a where p: "pickNextMixed (\<lambda>_. ''0'') (\<lambda>_ _. 2) [''Cursor''] sched_example_request life_one = (c', Inr (a, ''cursor''))" "au_id a = ''a''"
    by (cases "pickNextMixed (\<lambda>_. ''0'') (\<lambda>_ _. 2) [''Cursor''] sched_example_request life_one")
       (auto simp: map_sum_def split: sum.splits)
  have q: "plain_model_name (sq_model sched_example_request)" "sq_model sched_example_request = ''gpt-5(high)''" by code_simp+
  have t: "(1::int) \<le> 2" by simp
  from pick_is_live [OF life_reached t q(1) p(1)] show ?thesis unfolding q(2) p(2) by blast
qed

section \<open>An update keeps the cooldowns\<close>

lemma index_same: "same_availability (EnsureIndex f a) a"
  by (simp add: same_availability_def EnsureIndex_def Let_def)

lemma status_codes: "StatusActive \<noteq> StatusDisabled"
  by (simp add: StatusActive_def StatusDisabled_def)

lemma carry_over_fields:
  "au_id (carry_over now b a) = au_id a" "au_metadata (carry_over now b a) = au_metadata a"
  "au_provider (carry_over now b a) = au_provider a" "au_attributes (carry_over now b a) = au_attributes a"
  "au_disabled (carry_over now b a) = au_disabled a"
  by (simp_all add: carry_over_def Let_def)

lemma carry_over_cooling: "cooldownDisabledForAuth m (carry_over now b a) = cooldownDisabledForAuth m a"
proof -
  have d: "DisableCoolingOverride (carry_over now b a) = DisableCoolingOverride a"
    by (simp add: DisableCoolingOverride_def carry_over_fields)
  have p: "providerCoolingOverrideForAuth (carry_over now b a) cfg = providerCoolingOverrideForAuth a cfg" for cfg
    unfolding providerCoolingOverrideForAuth_def carry_over_fields by (rule refl)
  show ?thesis unfolding cooldownDisabledForAuth_def quotaCooldownDisabledForAuthWithConfig_def d p by (rule refl)
qed

lemma install_stores:
  assumes "install L now hook x c = (c', Inr a')"
  shows "a' = EnsureIndex (lc_index L) (fst x) \<and> mget (mg_auths (cd_manager c')) (au_id a') = Some a'"
proof -
  define a1 where "a1 = EnsureIndex (lc_index L) (fst x)"
  obtain m1 saved where p: "persist L a1 (cd_manager c) = (m1, saved)" by (cases "persist L a1 (cd_manager c)")
  show ?thesis
    using assms unfolding install_def a1_def [symmetric] Let_def p prod.case
    by (cases saved; cases "snd x") (auto simp: split_def on_manager_def emit_def split: if_splits)
qed

text \<open>C18. An update keeps the cooldowns: when an enabled credential of which some model has a state is
  replaced by an active one with neither states nor quota of its own and with cooling not disabled, the
  manager holds the new one, and it is blocked for the same models until the same instants.\<close>

theorem update_keeps_cooldowns:
  assumes "Update L now a c = (c', Inr a')" "mget (mg_auths (cd_manager c)) (au_id a) = Some b"
    and "\<not> au_disabled b" "au_status b \<noteq> StatusDisabled" "\<not> au_disabled a" "au_status a = StatusActive"
    and "au_model_states a = []" "au_quota a = empty_quota" "keys_canonical b" "au_model_states b \<noteq> []"
    and "\<not> cooldownDisabledForAuth (cd_manager c) (a\<lparr>au_metadata := NormalizeCredentialMetadata (au_metadata a)\<rparr>)"
    and "model \<noteq> []" "now \<le> t"
  shows "mget (mg_auths (cd_manager c')) (au_id a) = Some a' \<and>
    isAuthBlockedForModel (mget (mg_auths (cd_manager c')) (au_id a)) model t = isAuthBlockedForModel (mget (mg_auths (cd_manager c)) (au_id a)) model t"
proof -
  define a1 where "a1 = a\<lparr>au_metadata := NormalizeCredentialMetadata (au_metadata a)\<rparr>"
  define x where "x = carry_over now b a1"
  have st: "au_model_states x = au_model_states b" "\<not> au_disabled x" "au_status x \<noteq> StatusDisabled"
      "au_quota x = au_quota b \<or> au_quota x = empty_quota \<and> \<not> (qs_exceeded (au_quota b) \<and> qs_reason (au_quota b) = ''credential_quota'' \<and> now < qs_next_recover_at (au_quota b))"
    using assms(3-8) by (simp_all add: x_def carry_over_def a1_def Let_def status_codes)
  have "keys_canonical x" using assms(9) st(1) by (simp add: keys_canonical_def)
  then have n: "normalizeModelStates x = x" by (rule normalize_id)
  have "\<not> cooldownDisabledForAuth (cd_manager c) x" using assms(11) by (simp add: x_def a1_def carry_over_cooling)
  then have s: "fst (settle_states (cd_manager c) now x) = x" using st(2,3) n by (simp add: settle_states_def Let_def)
  have m: "mget (mg_auths (cd_manager c)) (au_id a1) = Some b" using assms(2) by (simp add: a1_def)
  have ins: "install L now HookUpdated (settle_states (cd_manager c) now x) c = (c', Inr a')"
    using assms(1) m by (simp add: Update_def a1_def [symmetric] x_def [symmetric] Let_def split: if_splits option.splits)
  then have a': "a' = EnsureIndex (lc_index L) x" using s install_stores by metis
  have "au_id a' = au_id a" by (simp add: a' x_def carry_over_fields a1_def)
  then have stored: "mget (mg_auths (cd_manager c')) (au_id a) = Some a'" using conjunct2 [OF install_stores [OF ins]] by (simp only:)
  have "isAuthBlockedForModel (Some a') model t = isAuthBlockedForModel (Some x) model t"
    unfolding a' using same_availability_block [OF index_same] by simp
  also have "\<dots> = isAuthBlockedForModel (Some b) model t"
  proof -
    have e: "credential_quota x t = credential_quota b t"
      using st(4) assms(13) by (auto simp: credential_quota_def empty_quota_def)
    have f: "credential_quota b t \<Longrightarrow> au_quota x = au_quota b" using st(4) assms(13) by (auto simp: credential_quota_def)
    show ?thesis using st(1-3) assms(3,4,10,12) by (simp add: isAuthBlockedForModel_def e f)
  qed
  finally show ?thesis using stored assms(2) by simp
qed

definition life_blocked :: Auth where
  "life_blocked = life_cred\<lparr>au_model_states := [(''gpt-5'', Some (active_state\<lparr>ms_unavailable := True, ms_next_retry_after := 100, ms_quota := empty_quota\<lparr>qs_exceeded := True, qs_next_recover_at := 100\<rparr>\<rparr>))]\<rparr>"

theorem update_keeps_cooldowns_witness:
  "isAuthBlockedForModel (mget (mg_auths (cd_manager (fst (Update life_settings 2 life_cred (fst (Register life_settings 1 life_blocked life_start))))))
     (au_id life_cred)) ''gpt-5'' 3 = (True, blockReasonCooldown, 100)"
proof -
  let ?c = "fst (Register life_settings 1 life_blocked life_start)"
  let ?b = "EnsureIndex (lc_index life_settings) life_blocked"
  have u: "\<not> isl (snd (Update life_settings 2 life_cred ?c))" by code_simp
  obtain c' a' where r: "Update life_settings 2 life_cred ?c = (c', Inr a')"
    using u by (cases "Update life_settings 2 life_cred ?c"; cases "snd (Update life_settings 2 life_cred ?c)") auto
  have h1: "mget (mg_auths (cd_manager ?c)) (au_id life_cred) = Some ?b" by code_simp
  have h2: "\<not> au_disabled ?b" by code_simp
  have h3: "au_status ?b \<noteq> StatusDisabled" by code_simp
  have h4:
    "\<not> au_disabled life_cred" "au_status life_cred = StatusActive" "au_model_states life_cred = []" "au_quota life_cred = empty_quota" by code_simp+
  have h5: "keys_canonical ?b" by code_simp
  have h6: "au_model_states ?b \<noteq> []" by code_simp
  have h7: "\<not> cooldownDisabledForAuth (cd_manager ?c) (life_cred\<lparr>au_metadata := NormalizeCredentialMetadata (au_metadata life_cred)\<rparr>)" by code_simp
  have h8: "''gpt-5'' \<noteq> []" "(2::int) \<le> 3" by simp_all
  note h = h1 h2 h3 h4 h5 h6 h7 h8
  have "isAuthBlockedForModel (Some ?b) ''gpt-5'' 3 = (True, blockReasonCooldown, 100)" by code_simp
  with conjunct2 [OF update_keeps_cooldowns [OF r h]] show ?thesis unfolding r fst_conv h1 by (rule trans)
qed

section \<open>What stays behind\<close>

text \<open>A removal leaves the offsets of the credential's pools of upstream models: they are kept under the
  credential's id together with the model, and it deletes the entry under the id alone.\<close>

lemma remove_keeps_pool_offsets:
  assumes "trim_space i = au_id a"
  shows "mget (cd_pool_offsets (fst (Remove L now i c))) (openAICompatModelPoolKey a m) =
    mget (cd_pool_offsets c) (openAICompatModelPoolKey a m)"
proof -
  have "trim_space (au_id a) = au_id a" using assms trim_space_idem by metis
  then have "length (au_id a) < length (openAICompatModelPoolKey a m)" by (simp add: openAICompatModelPoolKey_def Let_def to_lower_def)
  then have "openAICompatModelPoolKey a m \<noteq> trim_space i" using assms by auto
  then show ?thesis by (auto simp: Remove_def Let_def rebuild_unless_deferred_def rebuildAPIKeyModelAliasFromRuntimeConfig_def on_manager_def split_def
      split: option.splits)
qed

text \<open>An executor whose name has capitals stays: registering keeps them, unregistering asks for lower case.\<close>

lemma unregister_keeps_capitals: "p \<in> set (cd_executors c) \<Longrightarrow> to_lower p \<noteq> p \<Longrightarrow> p \<in> set (cd_executors (UnregisterExecutor q c))"
  by (auto simp: UnregisterExecutor_def Let_def)

definition life_unsaved :: environment where
  "life_unsaved = example_environment\<lparr>en_persist_fails := (\<lambda>_. True)\<rparr>"

definition life_saved :: Conductor where
  "life_saved = RegisterExecutor ''cursor'' (fst (Register life_settings 1 (life_blocked\<lparr>au_metadata := [(''k'', MBool True)]\<rparr>) life_start))"

text \<open>A reset that cannot be saved has freed the credential in the manager, and not in the scheduler.\<close>

lemma unsaved_reset_out_of_step:
  "(let c = after_manager 2 (fst (ResetQuota life_unsaved ''a'' 2 (cd_manager life_saved))) life_saved
    in \<not> fst (isAuthBlockedForModel (mget (mg_auths (cd_manager c)) ''a'') ''gpt-5'' 3) \<and>
       isl (snd (pickMixed (\<lambda>_. 3) [''cursor''] sched_example_request (cd_scheduler c))))"
  by code_simp

end
