(* ===== verification/Execution_Calls.thy ===== *)
theory Execution_Calls
  imports Execution_Properties
begin

text \<open>
  What the executors see of a request (\<open>Execution\<close>): the list of its calls and their results, read off the world by
  a projection of it. A round calls with each credential in one go and with no more credentials than
  configured; a call that fails with a fault of the request is the last one, whether the request goes round
  by round or along an ordered chain. The lemmas follow the functions of \<open>Execution\<close> one by one: \<open>silent\<close> is said
  of those that make no call, \<open>made\<close> of those that call with one credential, \<open>comes_to\<close> of the loops.
\<close>

section \<open>The calls of a request\<close>

text \<open>\<open>calls\<close> reads off the world the calls the request has made and their results: a call of an executor adds
  one, nothing else does.\<close>

definition observed :: "('w, 'p, 'r) runtime \<Rightarrow> ('w \<Rightarrow> ('p call \<times> (Failure + 'r)) list) \<Rightarrow> bool" where
  "observed R calls \<longleftrightarrow>
     (\<forall>st k. calls (snd (fst (ru_call R k st))) = calls (snd st) @ [(k, snd (ru_call R k st))]) \<and>
     (\<forall>st. calls (snd (ru_others R st)) = calls (snd st)) \<and>
     (\<forall>w. calls (ru_picked R w) = calls w) \<and>
     (\<forall>st p a. calls (snd (fst (ru_prepare R p a st))) = calls (snd st)) \<and>
     (\<forall>st p m meta al pl. calls (snd (fst (ru_intercept R p m meta al pl st))) = calls (snd st)) \<and>
     (\<forall>st a. calls (snd (fst (ru_refresh R a st))) = calls (snd st)) \<and>
     (\<forall>st d. calls (snd (fst (ru_sleep R d st))) = calls (snd st)) \<and>
     (\<forall>st. calls (snd (fst (ru_credits R st))) = calls (snd st))"

text \<open>Preparing or refreshing a credential gives a credential of the same identifier.\<close>

definition steadfast :: "('w, 'p, 'r) runtime \<Rightarrow> bool" where
  "steadfast R \<longleftrightarrow> (\<forall>p a st. au_id (fst (snd (ru_prepare R p a st))) = au_id a) \<and>
     (\<forall>a st b. snd (ru_refresh R a st) = Some b \<longrightarrow> au_id b = au_id a)"

definition routing :: "'w place \<Rightarrow> RoutingConfig" where
  "routing st = ae_routing (cd_aliases (fst st))"

text \<open>Nothing outside cuts the request short or changes the error rules it goes by: the configuration of the
  routes stays, results are saved, and the context does not end.\<close>

definition undisturbed :: "('w, 'p, 'r) runtime \<Rightarrow> bool" where
  "undisturbed R \<longleftrightarrow> store_works (ru_env R) \<and> (\<forall>w. ru_context R w = None) \<and>
     (\<forall>st. routing (ru_others R st) = routing st) \<and>
     (\<forall>st p a. routing (fst (ru_prepare R p a st)) = routing st) \<and>
     (\<forall>st p m meta al pl. routing (fst (ru_intercept R p m meta al pl st)) = routing st) \<and>
     (\<forall>st k. routing (fst (ru_call R k st)) = routing st) \<and>
     (\<forall>st a. routing (fst (ru_refresh R a st)) = routing st) \<and>
     (\<forall>st d. routing (fst (ru_sleep R d st)) = routing st)"

text \<open>The faults that end a request: those \<open>isRequestInvalidError\<close> sees, unless they call for a refresh of the
  credential, a rule of the configuration says what to do, or a chain goes on to its next candidate.\<close>

definition final_fault :: "('w, 'p, 'r) runtime \<Rightarrow> RoutingConfig \<Rightarrow> Auth \<Rightarrow> Failure \<Rightarrow> bool" where
  "final_fault R cfg a e \<longleftrightarrow> isRequestInvalidFailure (en_json (ru_env R)) e \<and>
     (isRequestScopedError e \<or> \<not> isUnauthorizedError e) \<and>
     matchRequestScopedErrorAction (ru_regex R) (extractRequestScopedErrorRules cfg (ru_own_rules R a) a) e = None \<and>
     \<not> retryablePreFirstByteError (en_json (ru_env R)) e"

definition quiet :: "('w, 'p, 'r) runtime \<Rightarrow> RoutingConfig \<Rightarrow> ('p call \<times> (Failure + 'r)) list \<Rightarrow> bool" where
  "quiet R cfg l \<longleftrightarrow> (\<forall>k e. (k, Inl e) \<in> set l \<longrightarrow> \<not> final_fault R cfg (cl_auth k) e)"

definition ended :: "('w, 'p, 'r) runtime \<Rightarrow> RoutingConfig \<Rightarrow> ('p call \<times> (Failure + 'r)) list \<Rightarrow> Auth \<Rightarrow> Failure \<Rightarrow> bool" where
  "ended R cfg l a e \<longleftrightarrow> (\<exists>l0 k. l = l0 @ [(k, Inl e)] \<and> quiet R cfg l0 \<and> cl_auth k = a \<and> final_fault R cfg a e)"

text \<open>What a step of a request does: it makes calls for the credential \<open>i\<close> only, and when one of them ends in a
  final fault, it is the last and \<open>Q\<close> holds of it.\<close>

definition made ::
  "('w, 'p, 'r) runtime \<Rightarrow> ('w \<Rightarrow> ('p call \<times> (Failure + 'r)) list) \<Rightarrow> string \<Rightarrow> (Auth \<Rightarrow> Failure \<Rightarrow> bool) \<Rightarrow> 'w place \<Rightarrow> 'w place \<Rightarrow> bool" where
  "made R calls i Q st st' \<longleftrightarrow> (\<exists>l. calls (snd st') = calls (snd st) @ l \<and>
     (steadfast R \<longrightarrow> (\<forall>c \<in> set l. au_id (cl_auth (fst c)) = i)) \<and>
     (undisturbed R \<longrightarrow> routing st' = routing st \<and> (quiet R (routing st) l \<or> (\<exists>a e. ended R (routing st) l a e \<and> Q a e))))"

definition silent :: "('w, 'p, 'r) runtime \<Rightarrow> ('w \<Rightarrow> ('p call \<times> (Failure + 'r)) list) \<Rightarrow> 'w place \<Rightarrow> 'w place \<Rightarrow> bool" where
  "silent R calls st st' \<longleftrightarrow> calls (snd st') = calls (snd st) \<and> (undisturbed R \<longrightarrow> routing st' = routing st)"

lemma quiet_Nil [simp]: "quiet R cfg []"
  by (simp add: quiet_def)

lemma quiet_append [simp]: "quiet R cfg (l @ l') \<longleftrightarrow> quiet R cfg l \<and> quiet R cfg l'"
  by (auto simp: quiet_def)

lemma ended_append: "quiet R cfg l \<Longrightarrow> ended R cfg l' a e \<Longrightarrow> ended R cfg (l @ l') a e"
  unfolding ended_def by (metis append_assoc quiet_append)

lemma made_silent: "silent R calls st st' \<Longrightarrow> made R calls i Q st st'"
  unfolding silent_def made_def by (rule exI [of _ "[]"]) simp

lemma made_trans:
  assumes "made R calls i (\<lambda>_ _. False) st st1" "made R calls i Q st1 st2"
  shows "made R calls i Q st st2"
proof -
  obtain l where l: "calls (snd st1) = calls (snd st) @ l" "steadfast R \<longrightarrow> (\<forall>c \<in> set l. au_id (cl_auth (fst c)) = i)"
    "undisturbed R \<longrightarrow> routing st1 = routing st \<and> quiet R (routing st) l" using assms(1) unfolding made_def by blast
  obtain l' where l': "calls (snd st2) = calls (snd st1) @ l'" "steadfast R \<longrightarrow> (\<forall>c \<in> set l'. au_id (cl_auth (fst c)) = i)"
    "undisturbed R \<longrightarrow> routing st2 = routing st1 \<and> (quiet R (routing st1) l' \<or> (\<exists>a e. ended R (routing st1) l' a e \<and> Q a e))"
    using assms(2) unfolding made_def by blast
  have "undisturbed R \<longrightarrow> routing st2 = routing st \<and> (quiet R (routing st) (l @ l') \<or> (\<exists>a e. ended R (routing st) (l @ l') a e \<and> Q a e))"
    using l(3) l'(3) ended_append by (metis quiet_append)
  then show ?thesis unfolding made_def using l(1,2) l'(1,2) by (intro exI [of _ "l @ l'"]) auto
qed

lemma made_silent_made: "silent R calls st st1 \<Longrightarrow> made R calls i Q st1 st2 \<Longrightarrow> made R calls i Q st st2"
  by (rule made_trans [OF made_silent])

lemma made_made_silent: "made R calls i Q st st1 \<Longrightarrow> silent R calls st1 st2 \<Longrightarrow> made R calls i Q st st2"
  unfolding made_def silent_def by auto

lemma made_mono: "made R calls i Q st st' \<Longrightarrow> (\<And>a e. undisturbed R \<Longrightarrow> final_fault R (routing st) a e \<Longrightarrow> Q a e \<Longrightarrow> Q' a e) \<Longrightarrow> made R calls i Q' st st'"
  unfolding made_def ended_def by blast

lemma silent_refl [simp]: "silent R calls st st"
  by (simp add: silent_def)

lemma silent_trans: "silent R calls st st1 \<Longrightarrow> silent R calls st1 st2 \<Longrightarrow> silent R calls st st2"
  by (simp add: silent_def)

lemma silent_steps:
  assumes "observed R calls"
  shows "silent R calls st (ru_others R st)" "silent R calls st (fst (ru_prepare R p a st))"
    "silent R calls st (fst (ru_intercept R p m meta al pl st))" "silent R calls st (fst (ru_refresh R a st))"
    "silent R calls st (fst (ru_sleep R d st))" "silent R calls (c, w) (c, ru_picked R w)"
  using assms unfolding observed_def undisturbed_def silent_def by (simp_all add: routing_def del: split_paired_All)

lemma context_free: "undisturbed R \<Longrightarrow> ru_context R w = None"
  by (simp add: undisturbed_def)

lemma one_call:
  assumes "observed R calls" "ru_call R k st = (st', r)" "steadfast R \<longrightarrow> au_id (cl_auth k) = i"
  shows "made R calls i (\<lambda>a e. r = Inl e \<and> cl_auth k = a) st st'"
proof -
  have c: "calls (snd st') = calls (snd st) @ [(k, r)]" using assms(1,2) unfolding observed_def by (metis fst_conv snd_conv)
  have "undisturbed R \<longrightarrow> routing st' = routing st" using assms(2) unfolding undisturbed_def by (metis fst_conv)
  moreover have "quiet R (routing st) [(k, r)] \<or> (\<exists>a e. ended R (routing st) [(k, r)] a e \<and> r = Inl e \<and> cl_auth k = a)"
    unfolding ended_def by (cases r) (auto simp: quiet_def)
  ultimately show ?thesis unfolding made_def using c assms(3) by (intro exI [of _ "[(k, r)]"]) auto
qed

section \<open>One model of one credential\<close>

lemma record_result_silent:
  assumes "observed R calls"
  shows "silent R calls st (fst (record_result R neutral result st)) \<and> (undisturbed R \<longrightarrow> snd (record_result R neutral result st) = None)"
proof -
  obtain c w where o: "ru_others R st = (c, w)" by (cases "ru_others R st")
  have "silent R calls st (c, w)" using silent_steps(1) [OF assms, of st] o by simp
  moreover have "undisturbed R \<longrightarrow> store_works (ru_env R)" by (simp add: undisturbed_def)
  ultimately show ?thesis using MarkResult_saved neutral_saved
    by (auto simp: record_result_def o Let_def split_def silent_def routing_def)
qed

lemma refresh_silent: "observed R calls \<Longrightarrow> silent R calls st (fst (tryRefreshAfterUnauthorized R a e b st))"
  by (simp add: tryRefreshAfterUnauthorized_def silent_steps)

lemma refresh_same:
  "steadfast R \<Longrightarrow> tryRefreshAfterUnauthorized R a e b st = (st', Some a') \<Longrightarrow> au_id a' = au_id a"
  unfolding steadfast_def tryRefreshAfterUnauthorized_def by (metis Pair_inject option.distinct(1) snd_conv)

lemma refresh_not_final:
  "tryRefreshAfterUnauthorized R a e b st = (st', Some a') \<Longrightarrow> \<not> final_fault R cfg x e"
  by (auto simp: tryRefreshAfterUnauthorized_def final_fault_def split: if_splits)

lemma invoke_made:
  assumes o: "observed R calls" and k: "cl_auth k = at_auth l" and i: "steadfast R \<longrightarrow> au_id (at_auth l) = i"
    and v: "invoke R ff k l = (l', r)"
  shows "made R calls i (\<lambda>a e. r = Inr (Inl e) \<and> at_auth l' = a) (at_place l) (at_place l') \<and> (steadfast R \<longrightarrow> au_id (at_auth l') = i)"
proof -
  obtain st1 r1 where c1: "ru_call R k (at_place l) = (st1, r1)" by (cases "ru_call R k (at_place l)")
  have m1: "made R calls i (\<lambda>a e. r1 = Inl e \<and> at_auth l = a) (at_place l) st1" using one_call [OF o c1] i k by simp
  show ?thesis
  proof (cases r1)
    case (Inr resp)
    then have "l' = l\<lparr>at_place := st1\<rparr>" using v c1 by (simp add: invoke_def)
    then show ?thesis using made_mono [OF m1] Inr i by simp
  next
    case (Inl e)
    show ?thesis
    proof (cases "ru_context R (snd st1)")
      case (Some ec)
      then have "l' = l\<lparr>at_place := st1\<rparr>" using v c1 Inl by (simp add: invoke_def)
      then show ?thesis using made_mono [OF m1] context_free [of R "snd st1"] Some i by auto
    next
      case None
      obtain st2 fr where rf: "tryRefreshAfterUnauthorized R (at_auth l) e (at_refreshed l) st1 = (st2, fr)"
        by (cases "tryRefreshAfterUnauthorized R (at_auth l) e (at_refreshed l) st1")
      have s2: "silent R calls st1 st2" using refresh_silent [OF o, of st1 "at_auth l" e "at_refreshed l"] rf by simp
      have m2: "made R calls i (\<lambda>a e. r1 = Inl e \<and> at_auth l = a) (at_place l) st2" by (rule made_made_silent [OF m1 s2])
      consider (ff) "ff" | (kept) "\<not> ff" "fr = None" | (fresh) a where "\<not> ff" "fr = Some a" by (cases fr) auto
      then show ?thesis
      proof cases
        case ff
        then have "l' = l\<lparr>at_place := st1\<rparr>" "r = Inr (Inl e)" using v c1 Inl None by (simp_all add: invoke_def)
        then show ?thesis using m1 Inl i by simp
      next
        case kept
        then have "l' = l\<lparr>at_place := st2\<rparr>" "r = Inr (Inl e)" using v c1 Inl None rf by (simp_all add: invoke_def)
        then show ?thesis using m2 Inl i by simp
      next
        case fresh
        obtain st3 r3 where c3: "ru_call R (k\<lparr>cl_auth := a\<rparr>) st2 = (st3, r3)" by (cases "ru_call R (k\<lparr>cl_auth := a\<rparr>) st2")
        have ia: "steadfast R \<longrightarrow> au_id a = i" using refresh_same [of R "at_auth l" e "at_refreshed l" st1 st2 a] rf fresh(2) i by simp
        have "made R calls i (\<lambda>_ _. False) (at_place l) st2"
          using made_mono [OF m2] refresh_not_final [OF rf [unfolded fresh(2)]] Inl by blast
        from made_trans [OF this one_call [OF o c3]] ia
        have m3: "made R calls i (\<lambda>b e. r3 = Inl e \<and> a = b) (at_place l) st3" by simp
        have v': "(l', r) = (let l3 = l\<lparr>at_place := st3, at_auth := a, at_refreshed := True\<rparr> in case r3 of Inr resp \<Rightarrow> (l3, Inr (Inr resp))
            | Inl e' \<Rightarrow> (case ru_context R (snd st3) of Some ec \<Rightarrow> (l3, Inl ec) | None \<Rightarrow> (l3, Inr (Inl e'))))"
          unfolding v [symmetric] invoke_def Let_def c1 prod.case Inl sum.case None option.case rf fresh(2) c3 using fresh(1) by simp
        have l': "at_place l' = st3" "at_auth l' = a"
          using v' by (cases r3; cases "ru_context R (snd st3)"; simp add: Let_def)+
        have "r = Inr (Inl e')" if "r3 = Inl e'" "undisturbed R" for e' using v' that context_free [OF that(2), of "snd st3"] by (simp add: Let_def)
        then have "made R calls i (\<lambda>b e. r = Inr (Inl e) \<and> at_auth l' = b) (at_place l) st3" by (intro made_mono [OF m3]) (simp add: l')
        then show ?thesis using l' ia by simp
      qed
    qed
  qed
qed


lemma settle_failure_silent:
  assumes o: "observed R calls" and s: "settle_failure R ff action fault rn e l = (l', r)"
  shows "silent R calls (at_place l) (at_place l') \<and> at_auth l' = at_auth l \<and>
    (undisturbed R \<and> action = None \<and> fault \<longrightarrow> r = Returns (Inl e))"
proof -
  obtain result neutral where rn: "rn = (result, neutral)" by (cases rn)
  obtain st rec where r: "record_result R neutral result (at_place l) = (st, rec)" by (cases "record_result R neutral result (at_place l)")
  have "silent R calls (at_place l) st \<and> (undisturbed R \<longrightarrow> rec = None)" using record_result_silent [OF o, of "at_place l" neutral result] r by simp
  then show ?thesis using s by (auto simp: settle_failure_def rn r Let_def split: option.splits if_splits)
qed

lemma settle_success_silent:
  assumes o: "observed R calls" and s: "settle_success R counting ff result ar resp l = (l', r)"
  shows "silent R calls (at_place l) (at_place l') \<and> at_auth l' = at_auth l"
proof -
  obtain st e where m: "markEmptyCompletion R result (at_place l) = (st, e)" by (cases "markEmptyCompletion R result (at_place l)")
  obtain st1 rec where r: "record_result R False result (at_place l) = (st1, rec)" by (cases "record_result R False result (at_place l)")
  have "silent R calls (at_place l) st"
    using record_result_silent [OF o, of "at_place l" False "result\<lparr>re_success := False, re_error := Some errEmptyCompletion\<rparr>"] m
    by (auto simp: markEmptyCompletion_def split_def Let_def)
  moreover have "silent R calls (at_place l) st1" using record_result_silent [OF o, of "at_place l" False result] r by simp
  ultimately show ?thesis using s by (auto simp: settle_success_def m r Let_def split: option.splits if_splits)
qed

lemma canceled_same: "claudeOAuthRequestCancellation None a (Some e) = Some ec \<Longrightarrow> ec = e"
  by (auto simp: claudeOAuthRequestCancellation_def split: if_splits)

lemma run_model_made:
  assumes o: "observed R calls" and i: "steadfast R \<longrightarrow> au_id (at_auth l) = i"
    and v: "run_model R counting q provider meta pooled ar m l = (l', r)"
  shows "made R calls i (\<lambda>_ e. r = Returns (Inl e)) (at_place l) (at_place l') \<and> (steadfast R \<longrightarrow> au_id (at_auth l') = i)"
proof -
  define route where "route = authSelectionModelFromOptions (xr_metadata q) (xr_model q)"
  define ff where "ff = isModelRoutingOptions (xr_metadata q)"
  define md where "md = (case executionModelForAuthSelection (xr_metadata q) (xr_model q) of Some m \<Rightarrow> m | None \<Rightarrow> m)"
  define rm where "rm = stateModelForExecution (cd_aliases (fst (at_place l))) (at_auth l) route m pooled"
  obtain st1 pl bl where ic: "ru_intercept R provider md meta (requestedModelAliasFromOptions meta route) (xr_payload q) (at_place l) = (st1, pl, bl)"
    by (metis prod_cases3)
  have s1: "silent R calls (at_place l) (at_place (l\<lparr>at_place := st1\<rparr>))"
    using silent_steps(3) [OF o, of "at_place l" provider md meta "requestedModelAliasFromOptions meta route" "xr_payload q"] ic by simp
  define k where "k = \<lparr>cl_count = counting, cl_provider = provider, cl_auth = at_auth l, cl_model = md, cl_metadata = meta, cl_payload = pl\<rparr>"
  obtain l2 x where iv: "invoke R ff k (l\<lparr>at_place := st1\<rparr>) = (l2, x)" by (cases "invoke R ff k (l\<lparr>at_place := st1\<rparr>)")
  have "cl_auth k = at_auth (l\<lparr>at_place := st1\<rparr>)" "steadfast R \<longrightarrow> au_id (at_auth (l\<lparr>at_place := st1\<rparr>)) = i" using i by (simp_all add: k_def)
  note V = invoke_made [OF o this iv]
  have m2: "made R calls i (\<lambda>a e. x = Inr (Inl e) \<and> at_auth l2 = a) (at_place l) (at_place l2)"
    by (rule made_silent_made [OF s1 conjunct1 [OF V]])
  show ?thesis
  proof (cases bl)
    case (Some e)
    then have "l' = l\<lparr>at_place := st1\<rparr>" using v
      unfolding run_model_def Let_def route_def [symmetric] ff_def [symmetric] md_def [symmetric] ic by simp
    then show ?thesis using made_silent [OF s1] i by simp
  next
    case None
    have v': "(case x of Inl ec \<Rightarrow> (l2, Returns (Inl ec))
            | Inr r \<Rightarrow>
               let a = at_auth l2; c = fst (at_place l2); base = good_result a provider rm counting in
               (case claudeOAuthRequestCancellation (ru_context R (snd (at_place l2))) a (case r of Inl e \<Rightarrow> Some e | Inr _ \<Rightarrow> None) of
                  Some ec \<Rightarrow> (l2, Returns (Inl ec))
                | None \<Rightarrow>
                  (case r of
                     Inl e \<Rightarrow>
                       let action = request_action R c a e; failed = base\<lparr>re_success := False\<rparr> in
                       settle_failure R ff action (request_fault R counting (xr_alt q) e)
                         (if counting then count_failure R md e action failed else execute_failure R (xr_alt q) e action failed) e l2
                   | Inr resp \<Rightarrow>
                       settle_success R counting ff base
                         (resolveAttemptAliasResult (if ff then None else Some (ae_routing (cd_aliases c))) a route m ar)
                         resp l2))) = (l', r)"
      using v unfolding run_model_def Let_def route_def [symmetric] ff_def [symmetric] md_def [symmetric] ic prod.case None option.case
        k_def [symmetric] iv rm_def [symmetric] by (cases x) simp_all
    show ?thesis
    proof (cases x)
      case (Inl ec)
      then show ?thesis using v' made_mono [OF m2] V by simp
    next
      case (Inr y)
      define cn where "cn = claudeOAuthRequestCancellation (ru_context R (snd (at_place l2))) (at_auth l2) (case y of Inl e \<Rightarrow> Some e | Inr _ \<Rightarrow> None)"
      note v2 = v' [unfolded Inr sum.case Let_def cn_def [symmetric]]
      show ?thesis
      proof (cases cn)
        case (Some ec)
        have "undisturbed R \<Longrightarrow> y = Inl e \<Longrightarrow> ec = e" for e
          using canceled_same [of "at_auth l2" e ec] context_free [of R "snd (at_place l2)"] Some by (simp add: cn_def)
        moreover have r: "l' = l2" "r = Returns (Inl ec)" using v2 Some by simp_all
        ultimately have "made R calls i (\<lambda>_ e. r = Returns (Inl e)) (at_place l) (at_place l2)" by (intro made_mono [OF m2]) (simp add: Inr)
        then show ?thesis using r V by simp
      next
        case no: None
        show ?thesis
        proof (cases y)
          case (Inr resp)
          then have m3: "made R calls i (\<lambda>_ _. False) (at_place l) (at_place l2)" using made_mono [OF m2] \<open>x = Inr y\<close> by simp
          from v2 no Inr settle_success_silent [OF o] have "silent R calls (at_place l2) (at_place l') \<and> at_auth l' = at_auth l2" by auto
          then show ?thesis using made_trans [OF m3 made_silent] V by simp
        next
          case (Inl e)
          define action where "action = request_action R (fst (at_place l2)) (at_auth l2) e"
          from v2 no Inl settle_failure_silent [OF o] have s: "silent R calls (at_place l2) (at_place l') \<and> at_auth l' = at_auth l2 \<and>
            (undisturbed R \<and> action = None \<and> request_fault R counting (xr_alt q) e \<longrightarrow> r = Returns (Inl e))"
            by (auto simp: action_def)
          have "routing (at_place l2) = routing (at_place l)" if "undisturbed R" using m2 that unfolding made_def by blast
          then have "r = Returns (Inl e')" if "undisturbed R" "final_fault R (routing (at_place l)) a e'" "x = Inr (Inl e') \<and> at_auth l2 = a" for a e'
            using s that Inl \<open>x = Inr y\<close> by (auto simp: action_def request_action_def final_fault_def request_fault_def routing_def)
          then have "made R calls i (\<lambda>_ e. r = Returns (Inl e)) (at_place l) (at_place l2)" by (rule made_mono [OF m2])
          from made_made_silent [OF this] s V show ?thesis by simp
        qed
      qed
    qed
  qed
qed

lemma each_model_made:
  assumes o: "observed R calls"
  shows "steadfast R \<longrightarrow> au_id (at_auth l) = i \<Longrightarrow> each_model (run_model R counting q provider meta pooled ar) ms l = (l', r) \<Longrightarrow>
    made R calls i (\<lambda>_ e. r = Some (Inl e)) (at_place l) (at_place l')"
proof (induction ms arbitrary: l)
  case Nil
  then show ?case by (simp add: made_silent)
next
  case (Cons m ms)
  obtain l1 x where r: "run_model R counting q provider meta pooled ar m l = (l1, x)" by (cases "run_model R counting q provider meta pooled ar m l")
  note M = run_model_made [OF o Cons.prems(1) r]
  show ?case
  proof (cases x)
    case (Returns y)
    then have "l' = l1" "r = Some y" using Cons.prems(2) r by simp_all
    then show ?thesis by (auto intro: made_mono [OF conjunct1 [OF M]] simp: Returns)
  next
    case Breaks
    then have "l' = l1" "r = None" using Cons.prems(2) r by simp_all
    then show ?thesis by (auto intro: made_mono [OF conjunct1 [OF M]] simp: Breaks)
  next
    case Continues
    then have e: "each_model (run_model R counting q provider meta pooled ar) ms l1 = (l', r)" using Cons.prems(2) r by simp
    have "made R calls i (\<lambda>_ _. False) (at_place l) (at_place l1)" using made_mono [OF conjunct1 [OF M]] Continues by simp
    from made_trans [OF this Cons.IH [OF conjunct2 [OF M] e]] show ?thesis .
  qed
qed

section \<open>One credential\<close>

lemma prepare_failed_silent:
  assumes o: "observed R calls"
  shows "silent R calls (ro_place s) (ro_place (fst (prepare_failed R counting q provider a e s)))"
  using record_result_silent [OF o] by (auto simp: prepare_failed_def Let_def split_def split: option.splits)

lemma use_credential_made:
  assumes o: "observed R calls" and u: "use_credential R counting q pickMeta a provider s = (s', z)"
  shows "made R calls (au_id a) (\<lambda>_ e. z = Some (Inl e)) (ro_place s) (ro_place s') \<and>
    (calls (snd (ro_place s')) = calls (snd (ro_place s)) \<or> au_id a \<in> set (ro_attempted s')) \<and>
    ro_tried s' = insert_id (au_id a) (ro_tried s) \<and> set (ro_attempted s) \<subseteq> set (ro_attempted s')"
proof -
  define routeModel where "routeModel = authSelectionModelFromOptions (xr_metadata q) (xr_model q)"
  define ff where "ff = isModelRoutingOptions (xr_metadata q)"
  define published where "published = publishSelectedAuthMetadata (ru_index R) a (ro_metadata s)"
  define meta where "meta = (if ro_tried s = [] then published else pickMeta)"
  obtain c w where oc: "ru_others R (ro_place s) = (c, w)" by (cases "ru_others R (ro_place s)")
  obtain offs ms0 pd0 al0 where pr: "preparedExecutionModelsWithAlias (cd_aliases c) a routeModel (ru_time R w) (cd_pool_offsets c) = (offs, ms0, pd0, al0)"
    by (metis prod_cases4)
  obtain ms pd al where ms: "(if ff then ([routeModel], False, no_alias) else (ms0, pd0, al0)) = (ms, pd, al)" by (metis prod_cases3)
  define s1 where "s1 = s\<lparr>ro_place := (c\<lparr>cd_pool_offsets := offs\<rparr>, w), ro_metadata := published, ro_tried := insert_id (au_id a) (ro_tried s)\<rparr>"
  have q1: "silent R calls (ro_place s) (ro_place s1)"
    using silent_steps(1) [OF o, of "ro_place s"] oc by (simp add: s1_def silent_def routing_def)
  obtain st2 a2 failed where prep: "ru_prepare R provider a (ro_place s1) = (st2, a2, failed)" by (metis prod_cases3)
  have q2: "silent R calls (ro_place s) st2"
    using silent_trans [OF q1 silent_steps(2) [OF o, of "ro_place s1" provider a]] prep by simp
  have a2: "steadfast R \<longrightarrow> au_id a2 = au_id a" using prep unfolding steadfast_def by (metis fst_conv snd_conv)
  define s2 where "s2 = s1\<lparr>ro_place := st2, ro_attempted := insert_id (au_id a) (ro_attempted s1)\<rparr>"
  define x0 where "x0 = \<lparr>at_place = st2, at_auth = a2, at_refreshed = False, at_tracker = ro_tracker s2, at_error = None\<rparr>"
  obtain x r where em: "each_model (run_model R counting q provider meta pd al) ms x0 = (x, r)"
    by (cases "each_model (run_model R counting q provider meta pd al) ms x0")
  have "made R calls (au_id a) (\<lambda>_ e. r = Some (Inl e)) (at_place x0) (at_place x)"
    by (rule each_model_made [OF o _ em]) (use a2 in \<open>simp add: x0_def\<close>)
  then have mx: "made R calls (au_id a) (\<lambda>_ e. r = Some (Inl e)) (ro_place s) (at_place x)"
    using made_silent_made [OF q2] by (simp add: x0_def)
  define s3 where "s3 = s2\<lparr>ro_place := at_place x, ro_tracker := at_tracker x\<rparr>"
  have e: "(s', z) = (if ms = [] then (s1, None) else case failed of Some e \<Rightarrow> prepare_failed R counting q provider a2 e s2
         | None \<Rightarrow> (case r of Some y \<Rightarrow> (s3, Some y) | None \<Rightarrow> after_models R counting (xr_alt q) x s3))"
    unfolding u [symmetric] use_credential_def Let_def oc prod.case routeModel_def [symmetric] ff_def [symmetric] pr ms
      published_def [symmetric] meta_def [symmetric] s1_def [symmetric] prep s2_def [symmetric] x0_def [symmetric] em s3_def [symmetric] by (rule refl)
  have at: "au_id a \<in> set (ro_attempted s2)" "ro_attempted s3 = ro_attempted s2" "ro_place s2 = st2" "ro_place s3 = at_place x"
    "set (ro_attempted s) \<subseteq> set (ro_attempted s2)" "ro_attempted s1 = ro_attempted s"
    "ro_tried s1 = insert_id (au_id a) (ro_tried s)" "ro_tried s2 = insert_id (au_id a) (ro_tried s)" "ro_tried s3 = insert_id (au_id a) (ro_tried s)"
    by (auto simp: s1_def s2_def s3_def)
  consider (none) "ms = []" | (failed) e where "ms \<noteq> []" "failed = Some e" | (returned) y where "ms \<noteq> []" "failed = None" "r = Some y"
    | (after) "ms \<noteq> []" "failed = None" "r = None" by (cases failed; cases r) auto
  then show ?thesis
  proof cases
    case none
    then show ?thesis using e q1 made_silent [OF q1] at by (simp add: silent_def)
  next
    case failed
    then have p: "prepare_failed R counting q provider a2 e s2 = (s', z)" using \<open>(s', z) = _\<close> by simp
    have "silent R calls (ro_place s2) (ro_place s')" using prepare_failed_silent [OF o, of s2 counting q provider a2 e] p by simp
    moreover have "ro_attempted s' = ro_attempted s2" "ro_tried s' = ro_tried s2" using p by (auto simp: prepare_failed_def Let_def split_def split: option.splits if_splits)
    ultimately show ?thesis using made_silent [OF silent_trans [OF q2]] at by simp
  next
    case returned
    then show ?thesis using e mx at by simp
  next
    case after
    then have p: "after_models R counting (xr_alt q) x s3 = (s', z)" using e by simp
    have "ro_place s' = at_place x" "ro_attempted s' = ro_attempted s3" "ro_tried s' = ro_tried s3" using after_models_route [of R counting "xr_alt q" x s3] p at by simp_all
    then show ?thesis using made_mono [OF mx] after at by simp
  qed
qed

section \<open>The credentials of a round\<close>

lemma assign_index_aliases: "cd_aliases (fst (assign_index f a c)) = cd_aliases c"
  by (auto simp: assign_index_def Let_def split: option.splits)

lemma pickNextMixed_aliases: "cd_aliases (fst (pickNextMixed f clks providers q c)) = cd_aliases c"
proof -
  have F: "cd_aliases (fst (fast_pick clk ps q d)) = cd_aliases d" for clk ps d by (simp add: fast_pick_def split_def Let_def)
  have S: "cd_aliases (syncScheduler t d) = cd_aliases d" for t d by (simp add: syncScheduler_def)
  have L: "cd_aliases (fst (pickNextMixedLegacy f clk providers q c)) = cd_aliases c" for clk
    by (auto simp: pickNextMixedLegacy_def Let_def split_def assign_index_aliases split: sum.splits)
  show ?thesis
    by (auto simp: pickNextMixed_def Let_def split_def F S L assign_index_aliases split: sum.splits)
qed

lemma pick_place_silent:
  assumes "observed R calls"
  shows "silent R calls st (fst (pick_place R q providers meta tried st))"
proof -
  obtain c w where o: "ru_others R st = (c, w)" by (cases "ru_others R st")
  have "calls (ru_picked R w) = calls w" using assms by (simp add: observed_def)
  then show ?thesis using silent_steps(1) [OF assms, of st] o
    by (simp add: pick_place_def Let_def split_def silent_def routing_def pickNextMixed_aliases)
qed

text \<open>A step of the loop either stops without a call, or uses the credential picked.\<close>

lemma try_credential_cases:
  assumes o: "observed R calls" and t: "try_credential R counting q providers s = (s', r)"
  obtains (stop) "silent R calls (ro_place s) (ro_place s')" "r \<noteq> None" "ro_attempted s' = ro_attempted s"
  | (credential) a provider where "snd (pick_place R q providers (ro_metadata s) (ro_tried s) (ro_place s)) = Inr (a, provider)"
      "made R calls (au_id a) (\<lambda>_ e. r = Some (Inl e)) (ro_place s) (ro_place s')"
      "calls (snd (ro_place s')) = calls (snd (ro_place s)) \<or> au_id a \<in> set (ro_attempted s')"
      "ro_tried s' = insert_id (au_id a) (ro_tried s)" "set (ro_attempted s) \<subseteq> set (ro_attempted s')"
proof -
  obtain st picked where pk: "pick_place R q providers (ro_metadata s) (ro_tried s) (ro_place s) = (st, picked)"
    by (cases "pick_place R q providers (ro_metadata s) (ro_tried s) (ro_place s)")
  have ps: "silent R calls (ro_place s) st" using pick_place_silent [OF o, of "ro_place s" q providers "ro_metadata s" "ro_tried s"] pk by simp
  have t': "(s', r) = (case picked of
        Inl e \<Rightarrow> (s\<lparr>ro_place := st\<rparr>, Some (Inl (case ro_last s of Some last_err \<Rightarrow> last_err | None \<Rightarrow> of_pick_error (ru_cooldown_text R) e)))
      | Inr (a, provider) \<Rightarrow> use_credential R counting q (withExcludedAuthIDs (ro_metadata s) (ro_tried s)) a provider (s\<lparr>ro_place := st\<rparr>))"
    using t by (simp add: try_credential_def pk Let_def)
  show thesis
  proof (cases picked)
    case (Inl e)
    then show thesis using stop t' ps by simp
  next
    case (Inr ap)
    obtain a provider where ap: "ap = (a, provider)" by (cases ap)
    have u: "use_credential R counting q (withExcludedAuthIDs (ro_metadata s) (ro_tried s)) a provider (s\<lparr>ro_place := st\<rparr>) = (s', r)"
      using t' Inr ap by simp
    note U = use_credential_made [OF o u]
    show thesis
    proof (rule credential)
      show "snd (pick_place R q providers (ro_metadata s) (ro_tried s) (ro_place s)) = Inr (a, provider)" using pk Inr ap by simp
      show "made R calls (au_id a) (\<lambda>_ e. r = Some (Inl e)) (ro_place s) (ro_place s')"
        by (rule made_silent_made [OF ps]) (use U in simp)
      show "calls (snd (ro_place s')) = calls (snd (ro_place s)) \<or> au_id a \<in> set (ro_attempted s')"
        using U ps by (simp add: silent_def)
    qed (use U in simp_all)
  qed
qed


definition call_ids :: "('p call \<times> (Failure + 'r)) list \<Rightarrow> string list" where
  "call_ids l = map (\<lambda>c. au_id (cl_auth (fst c))) l"

lemma call_ids_append [simp]: "call_ids (l @ l') = call_ids l @ call_ids l'"
  by (simp add: call_ids_def)

lemma made_ids:
  assumes "made R calls i Q st st'" "steadfast R"
  shows "\<exists>l. calls (snd st') = calls (snd st) @ l \<and> call_ids l = replicate (length l) i"
proof -
  obtain l where l: "calls (snd st') = calls (snd st) @ l" "\<forall>c \<in> set l. au_id (cl_auth (fst c)) = i"
    using assms unfolding made_def by blast
  then have "call_ids l = replicate (length l) i" unfolding call_ids_def by (intro replicate_eqI) auto
  then show ?thesis using l(1) by blast
qed

lemma mixed_loop_calls:
  assumes l: "lawful R P B" and o: "observed R calls" and st: "steadfast R"
  shows "place_ok R P B (ro_place s) \<Longrightarrow> mixed_loop R counting q providers fuel s = Some (s', r) \<Longrightarrow>
    \<exists>l picks ns. calls (snd (ro_place s')) = calls (snd (ro_place s)) @ l \<and> length ns = length picks \<and>
      call_ids l = concat (map2 replicate ns picks) \<and> distinct picks \<and> set picks \<subseteq> P - set (ro_tried s) \<and>
      set (call_ids l) \<union> set (ro_attempted s) \<subseteq> set (ro_attempted s')"
proof (induction fuel arbitrary: s)
  case (Suc fuel)
  let ?limit = "rs_max_credentials (ru_settings R)"
  have nil: ?case if "calls (snd (ro_place s')) = calls (snd (ro_place s))" "set (ro_attempted s) \<subseteq> set (ro_attempted s')"
    by (rule exI [of _ "[]"], rule exI [of _ "[]"], rule exI [of _ "[]"]) (use that in \<open>simp add: call_ids_def\<close>)
  show ?case
  proof (cases "?limit > 0 \<and> int (length (ro_attempted s)) \<ge> ?limit")
    case True
    then have "s' = s" using Suc.prems by (auto simp: Let_def)
    then show ?thesis using nil by simp
  next
    case go: False
    obtain s1 r1 where t: "try_credential R counting q providers s = (s1, r1)" by (cases "try_credential R counting q providers s")
    have step: "(case r1 of Some r' \<Rightarrow> Some (s1, r') | None \<Rightarrow> mixed_loop R counting q providers fuel s1) = Some (s', r)"
      using Suc.prems(2) go t by (cases r1) (auto simp: Let_def)
    show ?thesis
    proof (cases rule: try_credential_cases [OF o t, case_names stop credential])
      case stop
      then have "s' = s1" using step by auto
      then show ?thesis using nil stop by (simp add: silent_def)
    next
      case (credential a provider)
      have a: "au_id a \<in> P - set (ro_tried s)"
        using pick_place_ok [OF l Suc.prems(1), of q providers "ro_metadata s" "ro_tried s"] credential(1) by simp
      obtain m1 where m1: "calls (snd (ro_place s1)) = calls (snd (ro_place s)) @ m1" "call_ids m1 = replicate (length m1) (au_id a)"
        using made_ids [OF credential(2) st] by blast
      have at: "set (call_ids m1) \<subseteq> set (ro_attempted s1)"
        using credential(3) m1 by (cases "m1 = []") (auto simp: call_ids_def)
      show ?thesis
      proof (cases r1)
        case (Some y)
        then have "s' = s1" using step by simp
        then show ?thesis
          using m1 a at credential(5) by (intro exI [of _ m1] exI [of _ "[au_id a]"] exI [of _ "[length m1]"]) auto
      next
        case None
        then have m: "mixed_loop R counting q providers fuel s1 = Some (s', r)" using step by simp
        have "place_ok R P B (ro_place s1)" using try_credential_ok [OF l Suc.prems(1) t] by simp
        from Suc.IH [OF this m] obtain m2 picks ns where IH: "calls (snd (ro_place s')) = calls (snd (ro_place s1)) @ m2"
          "length ns = length picks" "call_ids m2 = concat (map2 replicate ns picks)" "distinct picks" "set picks \<subseteq> P - set (ro_tried s1)"
          "set (call_ids m2) \<union> set (ro_attempted s1) \<subseteq> set (ro_attempted s')" by blast
        show ?thesis
          using m1 a at credential(4,5) IH
          by (intro exI [of _ "m1 @ m2"] exI [of _ "au_id a # picks"] exI [of _ "length m1 # ns"]) auto
      qed
    qed
  qed
qed simp

text \<open>C8. One round calls the executors with each credential in one go at most, none that the caller or an
  earlier round excluded, and with no more credentials than the configured maximum.\<close>

theorem round_uses_each_once:
  assumes "lawful R P B" "place_ok R P B (ro_place s)" "providers \<noteq> []" "observed R calls" "steadfast R"
    and "executeMixedOnce R q providers n d fuel s = Some (s', r) \<or> executeCountMixedOnce R q providers n d fuel s = Some (s', r)"
    and "calls (snd (ro_place s')) = calls (snd (ro_place s)) @ l'"
  shows "(\<exists>picks ns. length ns = length picks \<and> call_ids l' = concat (map2 replicate ns picks) \<and> distinct picks \<and>
      set picks \<subseteq> P - set (ro_tried (begin_round q n d s))) \<and>
    (0 < rs_max_credentials (ru_settings R) \<longrightarrow> int (card (set (call_ids l'))) \<le> rs_max_credentials (ru_settings R))"
proof -
  let ?b = "begin_round q n d s"
  obtain counting where m: "mixed_loop R counting q providers fuel ?b = Some (s', r)"
    using assms(3,6) by (auto simp: executeMixedOnce_def executeCountMixedOnce_def mixed_once_def)
  have b: "place_ok R P B (ro_place ?b)" using assms(2) by (simp add: begin_round_facts)
  obtain l picks ns where l: "calls (snd (ro_place s')) = calls (snd (ro_place ?b)) @ l" "length ns = length picks"
    "call_ids l = concat (map2 replicate ns picks)" "distinct picks" "set picks \<subseteq> P - set (ro_tried ?b)"
    "set (call_ids l) \<subseteq> set (ro_attempted s')"
    using mixed_loop_calls [OF assms(1,4,5) b m] by blast
  then have "l = l'" using assms(7) by (simp add: begin_round_facts)
  moreover have "int (card (set (call_ids l))) \<le> int (length (ro_attempted s'))"
    using card_mono [OF _ l(6)] card_length [of "ro_attempted s'"] by simp
  ultimately show ?thesis using l mixed_loop_ok [OF assms(1) b m] by (auto simp: begin_round_facts)
qed

section \<open>A final fault ends the request\<close>

text \<open>What the loops make of the calls, when nothing disturbs them: the same, whichever credentials they use.\<close>

definition comes_to ::
  "('w, 'p, 'r) runtime \<Rightarrow> ('w \<Rightarrow> ('p call \<times> (Failure + 'r)) list) \<Rightarrow> (Failure \<Rightarrow> bool) \<Rightarrow> 'w place \<Rightarrow> 'w place \<Rightarrow> bool" where
  "comes_to R calls Q st st' \<longleftrightarrow> (\<exists>l. calls (snd st') = calls (snd st) @ l \<and> routing st' = routing st \<and>
     (quiet R (routing st) l \<or> (\<exists>a e. ended R (routing st) l a e \<and> Q e)))"

lemma made_comes: "undisturbed R \<Longrightarrow> made R calls i (\<lambda>_. Q) st st' \<Longrightarrow> comes_to R calls Q st st'"
  unfolding made_def comes_to_def by blast

lemma silent_comes: "undisturbed R \<Longrightarrow> silent R calls st st' \<Longrightarrow> comes_to R calls Q st st'"
  unfolding silent_def comes_to_def by (rule exI [of _ "[]"]) simp

lemma comes_trans:
  assumes "comes_to R calls (\<lambda>_. False) st st1" "comes_to R calls Q st1 st2"
  shows "comes_to R calls Q st st2"
proof -
  obtain l where l: "calls (snd st1) = calls (snd st) @ l" "routing st1 = routing st" "quiet R (routing st) l"
    using assms(1) unfolding comes_to_def by blast
  obtain l' where l': "calls (snd st2) = calls (snd st1) @ l'" "routing st2 = routing st1"
    "quiet R (routing st1) l' \<or> (\<exists>a e. ended R (routing st1) l' a e \<and> Q e)" using assms(2) unfolding comes_to_def by blast
  have "quiet R (routing st) (l @ l') \<or> (\<exists>a e. ended R (routing st) (l @ l') a e \<and> Q e)"
    using l(2,3) l'(3) ended_append by (metis quiet_append)
  then show ?thesis unfolding comes_to_def using l(1,2) l'(1,2) by (intro exI [of _ "l @ l'"]) auto
qed

lemma comes_mono:
  "comes_to R calls Q st st' \<Longrightarrow> (\<And>a e. final_fault R (routing st) a e \<Longrightarrow> Q e \<Longrightarrow> Q' e) \<Longrightarrow> comes_to R calls Q' st st'"
  unfolding comes_to_def ended_def by blast

lemma comes_then_silent: "undisturbed R \<Longrightarrow> comes_to R calls Q st st1 \<Longrightarrow> silent R calls st1 st2 \<Longrightarrow> comes_to R calls Q st st2"
  unfolding comes_to_def silent_def by auto

lemma mixed_loop_comes:
  assumes o: "observed R calls" and u: "undisturbed R"
  shows "mixed_loop R counting q providers fuel s = Some (s', r) \<Longrightarrow> comes_to R calls (\<lambda>e. r = Inl e) (ro_place s) (ro_place s')"
proof (induction fuel arbitrary: s)
  case (Suc fuel)
  let ?limit = "rs_max_credentials (ru_settings R)"
  show ?case
  proof (cases "?limit > 0 \<and> int (length (ro_attempted s)) \<ge> ?limit")
    case True
    then have "s' = s" using Suc.prems by (auto simp: Let_def)
    then show ?thesis using silent_comes [OF u] by simp
  next
    case go: False
    obtain s1 r1 where t: "try_credential R counting q providers s = (s1, r1)" by (cases "try_credential R counting q providers s")
    have step: "(case r1 of Some r' \<Rightarrow> Some (s1, r') | None \<Rightarrow> mixed_loop R counting q providers fuel s1) = Some (s', r)"
      using Suc.prems go t by (cases r1) (auto simp: Let_def)
    have c: "comes_to R calls (\<lambda>e. r1 = Some (Inl e)) (ro_place s) (ro_place s1)"
      by (cases rule: try_credential_cases [OF o t]) (auto intro: silent_comes [OF u] made_comes [OF u])
    show ?thesis
    proof (cases r1)
      case (Some y)
      then have "s' = s1" "r = y" using step by simp_all
      then show ?thesis using comes_mono [OF c] Some by simp
    next
      case None
      then have "mixed_loop R counting q providers fuel s1 = Some (s', r)" using step by simp
      from Suc.IH [OF this] comes_mono [OF c, of "\<lambda>_. False"] None show ?thesis using comes_trans by blast
    qed
  qed
qed simp

lemma mixed_once_comes:
  assumes o: "observed R calls" and u: "undisturbed R" and m: "mixed_once R counting q providers n d fuel s = Some (s', r)"
  shows "comes_to R calls (\<lambda>e. r = Inl e) (ro_place s) (ro_place s')"
proof (cases "providers = []")
  case True
  then show ?thesis using m silent_comes [OF u] by (simp add: mixed_once_def)
next
  case False
  then have "mixed_loop R counting q providers fuel (begin_round q n d s) = Some (s', r)" using m by (simp add: mixed_once_def)
  from mixed_loop_comes [OF o u this] show ?thesis by (simp add: begin_round_facts)
qed

lemma wait_silent: "observed R calls \<Longrightarrow> silent R calls st (fst (waitForCooldown R d st))"
  by (simp add: waitForCooldown_def silent_steps)

text \<open>No round follows a final fault.\<close>

lemma no_retry_after_fault: "final_fault R cfg a e \<Longrightarrow> shouldRetryAfterError (en_json (ru_env R)) clk e n providers q mw d c = None"
  by (simp add: final_fault_def shouldRetryAfterError_def Let_def)

lemma retry_loop_comes:
  assumes o: "observed R calls" and u: "undisturbed R"
  shows "retry_loop R counting q providers fuel rounds attempt lastErr s = Some (s', r) \<Longrightarrow>
    comes_to R calls (\<lambda>e. r = Inr (Inl (unwrapRequestStopError e)) \<or> r = Inl e \<or> (isAuthNotFoundError e \<and> (\<exists>x. r = Inl x))) (ro_place s) (ro_place s')"
proof (induction rounds arbitrary: attempt lastErr s)
  case (Suc rounds)
  let ?D = "rs_request_retry (ru_settings R)"
  obtain s1 r1 where m: "mixed_once R counting q providers attempt ?D fuel s = Some (s1, r1)"
    using Suc.prems by (cases "mixed_once R counting q providers attempt ?D fuel s") auto
  note M = mixed_once_comes [OF o u m]
  obtain c w where oc: "ru_others R (ro_place s1) = (c, w)" by (cases "ru_others R (ro_place s1)")
  have sc: "silent R calls (ro_place s1) (c, ru_picked R w)"
    using silent_trans [OF silent_steps(1) [OF o, of "ro_place s1", unfolded oc] silent_steps(6) [OF o]] .
  show ?case
  proof (cases r1)
    case (Inr resp)
    then have "s' = s1" using m Suc.prems by simp
    then show ?thesis using comes_mono [OF M] Inr by simp
  next
    case (Inl e)
    show ?thesis
    proof (cases "fl_terminated e \<or> fl_stop e")
      case True
      then have "s' = s1" "r = Inr (Inl (unwrapRequestStopError e))" using m Suc.prems Inl by simp_all
      then show ?thesis using comes_mono [OF M] Inl by simp
    next
      case go: False
      define last1 where "last1 = (case lastErr of None \<Rightarrow> e | Some l \<Rightarrow> if \<not> isAuthNotFoundError e then e else l)"
      define retry where "retry = shouldRetryAfterError (en_json (ru_env R)) (ru_clocks R w 0) e attempt providers
                      (request_of q (authSelectionModelFromOptions (xr_metadata q) (xr_model q)) (xr_metadata q) [])
                      (rs_max_wait (ru_settings R)) ?D c"
      define reset where "reset st wait = s1\<lparr>ro_place := st,
            ro_tried := resetRetryRoundExclusions (ro_tried s1) (first_seen (extractExcludedAuthIDs (xr_metadata q))) e wait (fst st)\<rparr>" for st wait
      have step: "Some (s', r) =
          (case retry of None \<Rightarrow> Some (s1\<lparr>ro_place := (c, ru_picked R w)\<rparr>, Inl last1)
               | Some wait \<Rightarrow>
                   (case waitForCooldown R wait (c, ru_picked R w) of
                      (st, Some ec) \<Rightarrow> Some (s1\<lparr>ro_place := st\<rparr>, Inr (Inl ec))
                    | (st, None) \<Rightarrow> retry_loop R counting q providers fuel rounds (attempt + 1) (Some last1) (reset st wait)))"
        using go unfolding Suc.prems [symmetric] retry_loop.simps(2) m Inl Let_def option.case prod.case sum.case oc last1_def retry_def reset_def by simp
      show ?thesis
      proof (cases retry)
        case None
        then have r: "ro_place s' = (c, ru_picked R w)" "r = Inl last1" using step by simp_all
        have "comes_to R calls (\<lambda>e. r = Inr (Inl (unwrapRequestStopError e)) \<or> r = Inl e \<or> (isAuthNotFoundError e \<and> (\<exists>x. r = Inl x))) (ro_place s) (ro_place s1)"
          by (rule comes_mono [OF M]) (simp add: r(2) Inl last1_def split: option.split)
        from comes_then_silent [OF u this sc] show ?thesis unfolding r(1) .
      next
        case (Some wait)
        obtain st ec where wt: "waitForCooldown R wait (c, ru_picked R w) = (st, ec)" by (cases "waitForCooldown R wait (c, ru_picked R w)")
        have ss: "silent R calls (ro_place s1) st"
          using silent_trans [OF sc wait_silent [OF o, of "(c, ru_picked R w)" wait]] unfolding wt by simp
        have "\<not> final_fault R cfg a e" for cfg a using no_retry_after_fault Some unfolding retry_def by (metis option.distinct(1))
        then have "comes_to R calls (\<lambda>_. False) (ro_place s) (ro_place s1)" using comes_mono [OF M] Inl by (metis sum.inject(1))
        from comes_then_silent [OF u this ss] have before: "comes_to R calls (\<lambda>_. False) (ro_place s) st" .
        show ?thesis
        proof (cases ec)
          case (Some f)
          then have "ro_place s' = st" using step \<open>retry = Some wait\<close> wt by simp
          then show ?thesis using comes_mono [OF before] by simp
        next
          case None
          then have "retry_loop R counting q providers fuel rounds (attempt + 1) (Some last1) (reset st wait) = Some (s', r)"
            using step \<open>retry = Some wait\<close> wt by simp
          from comes_trans [OF before Suc.IH [OF this, unfolded reset_def, simplified]] show ?thesis .
        qed
      qed
    qed
  qed
qed simp

lemma ordered_loop_comes:
  assumes o: "observed R calls" and u: "undisturbed R"
  shows "ordered_loop R counting q providers chain fuel idx lastErr cands st = Some (st', r) \<Longrightarrow>
    comes_to R calls (\<lambda>e. r = Inl e \<or> (\<exists>k. r = Inl (annotateOrderedError e chain k ''permanent''))) (fst st) (fst st')"
proof (induction cands arbitrary: idx lastErr st)
  case Nil
  then show ?case using silent_comes [OF u] by simp
next
  case (Cons cand cands)
  obtain s x where m: "mixed_once R counting (candidate_request q idx cand) (orderedCandidateProviders providers (oc_channel cand)) 0 0 fuel
      (new_route (fst st) [] (snd st)) = Some (s, x)" using Cons.prems by (auto split: option.splits)
  have M: "comes_to R calls (\<lambda>e. x = Inl e) (fst st) (ro_place s)"
    using mixed_once_comes [OF o u m] by (simp add: new_route_def)
  show ?case
  proof (cases x)
    case (Inr resp)
    then have "fst st' = ro_place s" using Cons.prems m by auto
    then show ?thesis using comes_mono [OF M] Inr by simp
  next
    case (Inl e)
    let ?J = "en_json (ru_env R)"
    have step: "(if permanentOrderedStopError ?J e then Some ((ro_place s, ro_tracker s), Inl (annotateOrderedError e chain idx ''permanent''))
        else if \<not> retryablePreFirstByteError ?J e then Some ((ro_place s, ro_tracker s), Inl e)
        else ordered_loop R counting q providers chain fuel (Suc idx) e cands (ro_place s, ro_tracker s)) = Some (st', r)"
      using Cons.prems unfolding ordered_loop.simps(2) m option.case prod.case Inl sum.case Let_def .
    consider (permanent) "permanentOrderedStopError ?J e" | (final) "\<not> permanentOrderedStopError ?J e" "\<not> retryablePreFirstByteError ?J e"
      | (onward) "\<not> permanentOrderedStopError ?J e" "retryablePreFirstByteError ?J e" by blast
    then show ?thesis
    proof cases
      case permanent
      then have "fst st' = ro_place s" "r = Inl (annotateOrderedError e chain idx ''permanent'')" using step by auto
      then show ?thesis by (simp only:) (rule comes_mono [OF M], use Inl in auto)
    next
      case final
      then have "fst st' = ro_place s" "r = Inl e" using step by auto
      then show ?thesis by (simp only:) (rule comes_mono [OF M], use Inl in auto)
    next
      case onward
      then have n: "ordered_loop R counting q providers chain fuel (Suc idx) e cands (ro_place s, ro_tracker s) = Some (st', r)"
        using step by simp
      have "comes_to R calls (\<lambda>_. False) (fst st) (fst (ro_place s, ro_tracker s))"
        unfolding fst_conv by (rule comes_mono [OF M]) (use onward(2) Inl in \<open>auto simp: final_fault_def\<close>)
      from comes_trans [OF this Cons.IH [OF n]] show ?thesis .
    qed
  qed
qed


lemma ordered_failover_comes:
  assumes o: "observed R calls" and u: "undisturbed R" and f: "ordered_failover R counting q providers fuel st = Some (st', r)"
  shows "comes_to R calls (\<lambda>e. r = Inl e \<or> (\<exists>chain k. r = Inl (annotateOrderedError e chain k ''permanent''))) st st'"
proof (cases "routeGuardExcludedModel (ru_excluded R) providers q")
  case (Some e)
  then show ?thesis using f silent_comes [OF u] by (simp add: ordered_failover_def)
next
  case None
  define chain where "chain = orderedCandidateChainForRequest (fst st) providers q"
  define s0 where "s0 = (new_route st (if counting then [] else extractExcludedAuthIDs (xr_metadata q)) newRouteAttemptTracker :: 'a route)"
  note f' = f [unfolded ordered_failover_def None option.case Let_def, folded chain_def, folded s0_def]
  show ?thesis
  proof (cases "length chain \<le> 1")
    case True
    then obtain s where m: "mixed_once R counting q providers 0 0 fuel s0 = Some (s, r)" "st' = ro_place s" using f' by auto
    from mixed_once_comes [OF o u m(1)] have "comes_to R calls (\<lambda>e. r = Inl e) st st'" by (simp add: s0_def new_route_def m(2))
    then show ?thesis by (rule comes_mono) simp
  next
    case False
    then obtain s where m: "ordered_loop R counting q providers chain fuel 0 (auth_failure ''auth_not_found'' ''no auth available'') chain
        (st, newRouteAttemptTracker) = Some (s, r)" "st' = fst s" using f' by auto
    from ordered_loop_comes [OF o u m(1)] show ?thesis unfolding m(2) fst_conv by (rule comes_mono) blast
  qed
qed

text \<open>The same failure, but for what is noted on it on its way.\<close>

definition same_failure :: "Failure \<Rightarrow> Failure \<Rightarrow> bool" where
  "same_failure e e' \<longleftrightarrow> fl_error e' = fl_error e \<and> fl_body e' = fl_body e \<and> fl_request_scoped e' = fl_request_scoped e \<and>
     statusCodeFromError e' = statusCodeFromError e \<and> has_prefix (fl_text e') (fl_text e)"

lemma same_failure_simps [simp]:
  "same_failure e e" "same_failure e (unwrapRequestStopError e)" "same_failure e (annotateOrderedError e chain k reason)"
  "same_failure e (wrapRouteExhaustion J t e)" "same_failure e (unwrapRequestStopError (wrapRouteExhaustion J t e))"
  "same_failure e (wrapRouteExhaustion J t (unwrapRequestStopError e))"
  by (simp_all add: same_failure_def unwrapRequestStopError_def annotateOrderedError_def wrapRouteExhaustion_def statusCodeFromError_def has_prefix_iff)

lemma request_comes:
  assumes o: "observed R calls" and u: "undisturbed R" and c: "\<not> ru_credits_enabled R"
    and x: "Execute R providers q fuel rounds st = Some (st', r) \<or> ExecuteCount R providers q fuel rounds st = Some (st', r)"
  shows "comes_to R calls (\<lambda>e. \<exists>e'. r = Inl e' \<and> (isAuthNotFoundError e \<or> same_failure e e')) st st'"
proof -
  define ps where "ps = normalizeProviders providers"
  define s0 where "s0 = (new_route st (extractExcludedAuthIDs (xr_metadata q)) newRouteAttemptTracker :: 'a route)"
  define chained where "chained = (length (orderedCandidateChainForRequest (fst st) ps q) > 1)"
  have nc: "\<not> shouldAttemptAntigravityCreditsFallback (ru_credits_enabled R) f" for f
    using c by (simp add: shouldAttemptAntigravityCreditsFallback_def)
  note x' = x [unfolded Execute_def ExecuteCount_def executeWithOrderedFailover_def executeCountWithOrderedFailover_def Let_def,
      folded ps_def, folded s0_def, folded chained_def]
  consider (none) "ps = []" | (chain) "ps \<noteq> []" chained | (loop) "ps \<noteq> []" "\<not> chained" by blast
  then show ?thesis
  proof cases
    case none
    then show ?thesis using x' silent_comes [OF u] by auto
  next
    case chain
    then obtain counting where "ordered_failover R counting q ps fuel st = Some (st', r)" using x' by auto
    from ordered_failover_comes [OF o u this] show ?thesis by (rule comes_mono) auto
  next
    case loop
    then obtain counting s y where l: "retry_loop R counting q ps fuel rounds 0 None s0 = Some (s, y)" "st' = ro_place s"
        "r = (case y of Inr r \<Rightarrow> r | Inl e \<Rightarrow> if counting then Inl (unwrapRequestStopError (wrapRouteExhaustion (en_json (ru_env R)) (ro_tracker s) e))
          else Inl (wrapRouteExhaustion (en_json (ru_env R)) (ro_tracker s) (unwrapRequestStopError e)))"
      using x' nc by (fastforce split: option.splits sum.splits)
    from retry_loop_comes [OF o u l(1)] have "comes_to R calls
        (\<lambda>e. y = Inr (Inl (unwrapRequestStopError e)) \<or> y = Inl e \<or> (isAuthNotFoundError e \<and> (\<exists>x. y = Inl x))) st st'"
      by (simp add: s0_def new_route_def l(2))
    then show ?thesis by (rule comes_mono) (auto simp: l(3))
  qed
qed

text \<open>C13. A fault of the request ends it: when nothing disturbs the request and a call of it fails with a fault that
  no rule of the configuration provides for, that calls for no refresh and that a chain does not go on after,
  it is the last call, on any path the request takes, and the request fails with that failure, but for what is
  noted on it; when the fault looks like a missing credential, with some failure.\<close>

theorem request_fault_ends:
  assumes "observed R calls" "undisturbed R" "\<not> ru_credits_enabled R"
    and "Execute R providers q fuel rounds st = Some (st', r) \<or> ExecuteCount R providers q fuel rounds st = Some (st', r)"
    and "calls (snd st') = calls (snd st) @ l0 @ (k, Inl e) # l1" "final_fault R (routing st) (cl_auth k) e"
  shows "l1 = [] \<and> (\<exists>e'. r = Inl e' \<and> (isAuthNotFoundError e \<or> same_failure e e'))"
proof -
  obtain l where l: "calls (snd st') = calls (snd st) @ l" "quiet R (routing st) l \<or>
      (\<exists>a f. ended R (routing st) l a f \<and> (\<exists>e'. r = Inl e' \<and> (isAuthNotFoundError f \<or> same_failure f e')))"
    using request_comes [OF assms(1-4)] unfolding comes_to_def by blast
  then have e: "l = l0 @ (k, Inl e) # l1" using assms(5) by simp
  then have "\<not> quiet R (routing st) l" using assms(6) unfolding quiet_def by auto
  then obtain a f where f: "ended R (routing st) l a f" "\<exists>e'. r = Inl e' \<and> (isAuthNotFoundError f \<or> same_failure f e')" using l(2) by blast
  then obtain m k' where m: "l0 @ (k, Inl e) # l1 = m @ [(k', Inl f)]" "quiet R (routing st) m" unfolding ended_def e by blast
  have "l1 = []"
  proof (rule ccontr)
    assume "l1 \<noteq> []"
    then have "m = l0 @ (k, Inl e) # butlast l1" using m(1) by (metis butlast_append butlast_snoc butlast.simps(2) list.distinct(1))
    then show False using m(2) assms(6) unfolding quiet_def by auto
  qed
  then show ?thesis using m(1) f(2) by simp
qed

section \<open>Example\<close>

text \<open>The world of \<open>example_runtime\<close>, but it keeps the calls and their results; the first \<open>n\<close> calls fail with \<open>f\<close>.\<close>

type_synonym call_log = "(unit call \<times> (Failure + string)) list"

definition logged_runtime :: "nat \<Rightarrow> Failure \<Rightarrow> (call_log, unit, string) runtime" where
  "logged_runtime n f = \<lparr>ru_env = example_environment, ru_settings = \<lparr>rs_request_retry = 3, rs_max_credentials = 2, rs_max_wait = 30 * second\<rparr>,
     ru_excluded = [], ru_credits_enabled = False, ru_index = (\<lambda>_. []), ru_regex = (\<lambda>_ _. False), ru_own_rules = (\<lambda>_. []),
     ru_model_not_found = (\<lambda>_ _. False), ru_cooldown_text = (\<lambda>_ _ _. ''cooling down''), ru_mark_failure = (\<lambda>_. plain_failure ''not saved''),
     ru_empty = (\<lambda>r. r = []), ru_rewrite = (\<lambda>alias_name r. ''model '' @ alias_name), ru_time = (\<lambda>_. 200), ru_clocks = (\<lambda>_ _ _. 200),
     ru_picked = id, ru_headers = (\<lambda>_. []), ru_context = (\<lambda>_. None), ru_draw = (\<lambda>_ _. 0), ru_others = id,
     ru_prepare = (\<lambda>_ a st. (st, a, None)), ru_intercept = (\<lambda>_ _ _ _ pl st. (st, pl, None)),
     ru_call = (\<lambda>k st. let r = (if length (snd st) < n then Inl f else Inr (''model '' @ cl_model k)) in ((fst st, snd st @ [(k, r)]), r)),
     ru_refresh = (\<lambda>_ st. (st, None)), ru_sleep = (\<lambda>_ st. (st, None)), ru_credits = (\<lambda>st. (st, Inr None))\<rparr>"

lemma logged_observed: "observed (logged_runtime n f) id"
  by (simp add: observed_def logged_runtime_def Let_def)

lemma logged_steadfast: "steadfast (logged_runtime n f)"
  by (simp add: steadfast_def logged_runtime_def)

lemma logged_undisturbed: "undisturbed (logged_runtime n f)"
  by (simp add: undisturbed_def logged_runtime_def store_works_def example_environment_def routing_def Let_def)

lemma logged_keeps: "place_ok (logged_runtime n f) P B (c, w) = place_ok (logged_runtime n f) P B (c, w')"
  by (simp add: place_ok_def logged_runtime_def)

lemma logged_lawful: "lawful (logged_runtime n f) P B"
proof -
  let ?R = "logged_runtime n f"
  have c: "place_ok ?R P B st \<Longrightarrow> place_ok ?R P B (fst st, w)" for st w
    using logged_keeps by (metis prod.collapse)
  have f: "ru_others ?R st = st" "fst (ru_prepare ?R p a st) = st" "fst (ru_intercept ?R p m meta al pl st) = st"
    "fst (ru_call ?R k st) = (fst st, snd (fst (ru_call ?R k st)))" "fst (ru_refresh ?R a st) = st" "fst (ru_sleep ?R d st) = st" "fst (ru_credits ?R st) = st"
    for st p a m meta al pl k d
    by (simp_all add: logged_runtime_def Let_def)
  have "clocks_from (ru_time ?R w) (ru_clocks ?R w) \<and> ru_clocks ?R w 2 2 \<le> ru_time ?R (ru_picked ?R w)" for w
    by (simp add: logged_runtime_def clocks_from_def ticking_def)
  then show ?thesis unfolding lawful_def using c f by metis
qed

lemma logged_place: "place_ok (logged_runtime n f) {''a''} 3 (example_alias_conductor entries, w)"
  using example_place [of 0 entries 0] by (simp add: place_ok_def logged_runtime_def example_runtime_def)

text \<open>A round in that world: the first call fails with a fault of the request.\<close>

abbreviation faulty_world :: "(call_log, unit, string) runtime" where
  "faulty_world \<equiv> logged_runtime 2 bad_request"

abbreviation first_route :: "call_log route" where
  "first_route \<equiv> new_route (example_alias_conductor [], []) [] newRouteAttemptTracker"

lemma faulty_round_evaluates:
  "(case mixed_once faulty_world False (example_request ''o3'') [''codex''] 0 3 2 first_route of None \<Rightarrow> False
    | Some (s, r) \<Rightarrow> r = Inl bad_request \<and> map snd (snd (ro_place s)) = [Inl bad_request] \<and> call_ids (snd (ro_place s)) = [''a''] \<and>
        final_fault faulty_world (routing (ro_place first_route)) (cl_auth (fst (hd (snd (ro_place s))))) bad_request)"
  by code_simp

lemma faulty_round:
  obtains s k where "mixed_once faulty_world False (example_request ''o3'') [''codex''] 0 3 2 first_route = Some (s, Inl bad_request)"
    "snd (ro_place s) = [(k, Inl bad_request)]" "au_id (cl_auth k) = ''a''"
    "final_fault faulty_world (routing (ro_place first_route)) (cl_auth k) bad_request"
proof -
  obtain s where s: "mixed_once faulty_world False (example_request ''o3'') [''codex''] 0 3 2 first_route = Some (s, Inl bad_request)"
    "map snd (snd (ro_place s)) = [Inl bad_request]" "call_ids (snd (ro_place s)) = [''a'']"
    "final_fault faulty_world (routing (ro_place first_route)) (cl_auth (fst (hd (snd (ro_place s))))) bad_request"
    using faulty_round_evaluates by (auto split: option.splits)
  obtain k where k: "snd (ro_place s) = [(k, Inl bad_request)]" using s(2) by (auto simp: map_eq_Cons_conv)
  show thesis using that [OF s(1) k] s(3,4) k by (simp add: call_ids_def)
qed

theorem round_uses_each_once_witness:
  "\<exists>s' k r. executeMixedOnce faulty_world (example_request ''o3'') [''codex''] 0 3 2 first_route = Some (s', Inl r) \<and>
     snd (ro_place s') = [(k, Inl bad_request)] \<and> int (card (set (call_ids (snd (ro_place s'))))) \<le> 2"
proof -
  have p: "place_ok faulty_world {''a''} 3 (ro_place first_route)" using logged_place by (simp add: new_route_def)
  obtain s' k where m: "mixed_once faulty_world False (example_request ''o3'') [''codex''] 0 3 2 first_route = Some (s', Inl bad_request)"
    "snd (ro_place s') = [(k, Inl bad_request)]" by (rule faulty_round)
  then have x: "executeMixedOnce faulty_world (example_request ''o3'') [''codex''] 0 3 2 first_route = Some (s', Inl bad_request)"
    by (simp add: executeMixedOnce_def)
  have "id (snd (ro_place s')) = id (snd (ro_place first_route)) @ snd (ro_place s')" by (simp add: new_route_def)
  from round_uses_each_once [OF logged_lawful p _ logged_observed logged_steadfast disjI1 [OF x] this]
  have "int (card (set (call_ids (snd (ro_place s'))))) \<le> 2" by (simp add: logged_runtime_def)
  then show ?thesis using m x by blast
qed

theorem request_fault_ends_witness:
  "\<exists>st' k e'. Execute faulty_world [''Codex''] (example_request ''o3'') 2 4 (example_alias_conductor [], []) = Some (st', Inl e') \<and>
     snd st' = [(k, Inl bad_request)] \<and> same_failure bad_request e'"
proof -
  let ?st = "(example_alias_conductor [], []) :: call_log place"
  obtain s k where m: "mixed_once faulty_world False (example_request ''o3'') [''codex''] 0 3 2 first_route = Some (s, Inl bad_request)"
    "snd (ro_place s) = [(k, Inl bad_request)]" "final_fault faulty_world (routing (ro_place first_route)) (cl_auth k) bad_request"
    by (rule faulty_round)
  have p: "normalizeProviders [''Codex''] = [''codex'']" "\<not> 1 < length (orderedCandidateChainForRequest (fst ?st) [''codex''] (example_request ''o3''))"
    "extractExcludedAuthIDs (xr_metadata (example_request ''o3'')) = []" "\<not> fl_terminated bad_request" "\<not> fl_stop bad_request"
    "\<not> isAuthNotFoundError bad_request" by code_simp+
  have w: "rs_request_retry (ru_settings faulty_world) = 3" "ru_others faulty_world st = st" for st :: "call_log place"
    by (simp_all add: logged_runtime_def)
  have "retry_loop faulty_world False (example_request ''o3'') [''codex''] 2 (Suc 3) 0 None first_route = Some (s, Inl bad_request)"
    using p(4,5) unfolding retry_loop.simps(2) w(1) Let_def m(1) option.case prod.case sum.case w(2) no_retry_after_fault [OF m(3)]
    by (cases "ro_place s") (simp add: logged_runtime_def)
  then have "\<exists>s' x. retry_loop faulty_world False (example_request ''o3'') [''codex''] 2 4 0 None first_route = Some (s', Inl x) \<and> snd (ro_place s') = snd (ro_place s)"
    by (simp add: numeral_eq_Suc)
  then obtain s' x where l: "retry_loop faulty_world False (example_request ''o3'') [''codex''] 2 4 0 None first_route = Some (s', Inl x)"
    "snd (ro_place s') = [(k, Inl bad_request)]" using m(2) by auto
  define r where "r = wrapRouteExhaustion (en_json (ru_env faulty_world)) (ro_tracker s') (unwrapRequestStopError x)"
  have x: "Execute faulty_world [''Codex''] (example_request ''o3'') 2 4 ?st = Some (ro_place s', Inl r)"
  proof -
    have "\<not> shouldAttemptAntigravityCreditsFallback (ru_credits_enabled faulty_world) f" for f
      by (simp add: shouldAttemptAntigravityCreditsFallback_def logged_runtime_def)
    then show ?thesis using p(2) unfolding Execute_def Let_def p(1,3) l(1) by (simp add: r_def)
  qed
  have "id (snd (ro_place s')) = id (snd ?st) @ [] @ (k, Inl bad_request) # []" using l(2) by simp
  moreover have "routing (ro_place first_route) = routing ?st" by (simp add: new_route_def)
  ultimately have "\<exists>e'. (Inl r :: Failure + string) = Inl e' \<and> (isAuthNotFoundError bad_request \<or> same_failure bad_request e')"
    using request_fault_ends [OF logged_observed logged_undisturbed _ disjI1 [OF x], of "[]" k bad_request "[]"] m(3)
    by (simp add: logged_runtime_def)
  then show ?thesis using x l(2) p(6) by blast
qed

end
