(* ===== verification/Spec2Isabelle.thy ===== *)
theory Spec2Isabelle
  imports Thinking Model_Registry Credential_Weight Auth_State Selectors Affinity_Properties Lifecycle_Properties Execution_Calls
begin

text \<open>
  A verification library for CLIProxyAPI, the proxy server under \<open>src/\<close> (Go). The server takes a request
  for a model, picks one of many credentials that can serve it, calls the provider behind it, records what
  came of the call and, where that is worth while, goes on with another credential, another round or another
  model. The library models this core: \<open>sdk/cliproxy/auth\<close>, \<open>internal/registry\<close>,
  \<open>internal/credentialweight\<close>, \<open>internal/clienterror\<close> and \<open>internal/thinking\<close>.

  \<^bold>\<open>The parts and the theories\<close>

  A request enters through \<open>Manager.Execute\<close> (\<open>Execution\<close>). Aliases and ordered chains say which models its
  name stands for (\<open>Model_Alias\<close>). Each round picks credentials (\<open>Credential_Pick\<close>), by the scheduler
  (\<open>Scheduler\<close>) or by a selector (\<open>Selectors\<close>), among those that are enabled and not cooling down
  (\<open>Auth_State\<close>); the result of a call is classified (\<open>Result_Errors\<close>, \<open>Request_Errors\<close>) and recorded
  (\<open>Mark_Result\<close>), which opens or closes cooldowns (\<open>Cooldown\<close>), tells the registry of models
  (\<open>Model_Registry\<close>) and the scheduler; \<open>Retry_Rounds\<close> decides on another round and how long to wait.

  \<^item> \<open>Prelude\<close>: Go's strings, 64-bit integers, instants and maps as HOL values, and the lemmas all share.
  \<^item> \<open>Thinking\<close> (\<open>internal/thinking\<close>): suffixes of model names, levels, budgets, \<open>ValidateConfig\<close>.
  \<^item> \<open>Model_Info\<close>, \<open>Model_Registry\<close> (\<open>internal/registry/model_registry.go\<close>): the record
    \<open>ModelRegistry\<close> holds clients, registrations with their counts, and the cached lists; each method is a
    definition of its name, and \<open>apply_op\<close> is a sequence of them.
  \<^item> \<open>Credential_Weight\<close> (\<open>internal/credentialweight\<close>, \<open>weight.go\<close>) and \<open>Auth_State\<close> (\<open>types.go\<close>,
    \<open>selector.go\<close>, \<open>classification.go\<close>): the records \<open>Auth\<close>, \<open>ModelState\<close>, \<open>QuotaState\<close>, and whether a
    credential is blocked for a model.
  \<^item> \<open>Selectors\<close> (\<open>selector.go\<close>): round robin, smooth weighted round robin and fill first, behind the locale
    of a selector.
  \<^item> \<open>Session_Cache\<close> (\<open>session_cache.go\<close>), \<open>Session_Affinity\<close>, \<open>Affinity_Properties\<close> (\<open>selector.go\<close>):
    groups of session identifiers bound to a credential, and the selector that keeps a session on its
    credential around any strategy.
  \<^item> \<open>Scheduler\<close>, \<open>Scheduler_Shard\<close>, \<open>Scheduler_Refinement\<close>, \<open>Scheduler_Properties\<close>, \<open>Scheduler_Mixed\<close>
    (\<open>scheduler.go\<close>, \<open>conductor_selection.go\<close>): shards per provider and model, their picks, and their
    refinement of the selectors.
  \<^item> \<open>Result_Errors\<close>, \<open>Quota_Signals\<close>, \<open>Cooldown\<close>, \<open>Mark_Result\<close>, \<open>Cooldown_Properties\<close>
    (\<open>internal/clienterror\<close>, \<open>quota_signals.go\<close>, \<open>conductor_cooldown.go\<close>, \<open>cooldown_state.go\<close>): what a
    failure means for its credential, and recording, clearing, saving and restoring it.
  \<^item> \<open>Model_Alias\<close> (\<open>oauth_model_alias.go\<close>, \<open>ordered_pool.go\<close>, \<open>conductor_models.go\<close>,
    \<open>conductor_exclusion.go\<close>): aliases, pools of models, ordered chains and excluded models.
  \<^item> \<open>Request_Errors\<close>, \<open>Credential_Pick\<close>, \<open>Retry_Rounds\<close>, \<open>Execution\<close>, \<open>Execution_Properties\<close>,
    \<open>Execution_Calls\<close> (\<open>conductor_execution.go\<close>, \<open>conductor_selection.go\<close>, \<open>conductor_ordered_failover.go\<close>,
    \<open>conductor_request_scoped_errors.go\<close>, \<open>route_tracker.go\<close>): the execution of a request.
  \<^item> \<open>Lifecycle\<close>, \<open>Lifecycle_Properties\<close> (\<open>conductor_lifecycle.go\<close>, \<open>conductor_selection.go\<close>,
    \<open>metadata_keys.go\<close>): credentials registered, updated, removed, loaded and brought in line with the
    registry; the relation \<open>manager_step\<close> takes these together with results, resets, restored cooldowns
    and picks, over the record \<open>Conductor\<close> of manager, scheduler and selector.

  A struct is a record whose fields have the prefix of their type (\<open>au_\<close> for \<open>Auth\<close>), a Go map an
  association list without repeated keys, an error a value of \<open>Error\<close>, \<open>pick_error\<close> or \<open>Failure\<close>, a
  mutex-protected method one step from state to state.

  \<^bold>\<open>What is shown\<close>

  \<^item> Of a request: it ends, whatever the executors and the other requests do; a round calls with each
    credential in one go at most and with no more than configured; failover along a chain refines an abstract
    account of it; the waits are the earliest recovery and bounded; no call follows one that failed with a
    fault of the request.
  \<^item> Of selection: exact proportionality and fairness of the strategies, no repetition under failover; the
    scheduler answers what the selectors answer; picks over several providers are of the best priority.
  \<^item> Of the manager as a whole: after any operations the scheduler is in step with it, and what a request
    picks is a credential it holds now, enabled, allowed and free for the model.
  \<^item> Of results: which window a failure opens, for which models and how long; that a success, the end of the
    window or a reset frees the credential; that cooldowns survive a restart.
  \<^item> Of sessions: groups stay coherent; a session keeps its credential, other sessions notwithstanding, and
    avoids one that failed it.
  \<^item> Of names and settings: chains and aliases are exactly the entries of the configuration; patterns are
    globs; levels and budgets that leave validation are supported and in range.
  \<^item> Of the registry: counts are exact in every reachable state, the reconciling registration equals a fresh
    one, and a cached list is the current one.

  Where the code differs from what it means to do, a theorem shows the instance
  (\<open>split_with_picked_stays_split\<close>, \<open>nested_suffix_unblocked\<close>, \<open>blank_id_never_removed\<close>,
  \<open>alias_pick_refused\<close>, \<open>chain_loses_forced_alias\<close>, \<open>remove_keeps_pool_offsets\<close>,
  \<open>unsaved_reset_out_of_step\<close> and others).

  \<^bold>\<open>Bounds and fuel\<close>

  \<^item> Instants are nanoseconds as integers, 0 the zero time, clocks positive and not decreasing. The proportion of
    weighted round robin is for weights whose sum keeps the 64-bit credits from saturating, for any number of
    cycles from a fresh state over the same available credentials.
  \<^item> The ladder of quota cooldowns is a shift in 64 bits; its levels up to 11 are those a run from level 0
    reaches, and \<open>rate_limit_window\<close> is for these: one second, doubled with every level, half an hour at most.
  \<^item> \<open>rebindAliasGroupCAS\<close> and \<open>mergeSplitAliasGroupsCAS\<close> try three times, as in the code; a generation is a
    natural number.
  \<^item> \<open>scheduler_refines_selectors\<close> and \<open>mixed_pick_best\<close> take one reading of the clock per call and
    credentials whose identifiers have no blanks around them.
  \<^item> \<open>plain_model_name\<close> is asked of the model of a request by \<open>scheduler_refines_selectors\<close>, \<open>mixed_pick_best\<close> and
    \<open>pick_is_live\<close>, \<open>plain_model\<close> by the theorems on recorded results: not empty, and at most one suffix in
    parentheses. A name like \<open>m(a)(b)\<close> is a model for some functions of the code and another for the others
    (\<open>nested_suffix_unblocked\<close>). \<open>mixed_pick_best\<close> is for requests that pin no credential.
  \<^item> \<open>retry_wait_earliest\<close> excepts a credential under a credential-wide quota, which the wait counts as recovered
    at the end of that quota, and a wait as long as 64 bits hold.
  \<^item> \<open>scheduler_in_step\<close> and \<open>pick_is_live\<close> are for every order and outcome of the steps of \<open>manager_step\<close>,
    a quota reset that fails to save excepted; an operation and a pick read the clock once, identifiers have
    no blanks around them, and an empty map of metadata counts as absent.
  \<^item> The loops of \<open>Execution\<close> have fuel: \<open>request_terminates\<close> shows that one more than there are credentials,
    and one more round than the greatest retry limit, is enough for a result, for every request.
  \<^item> \<open>session_sticks\<close> is for a session that can be moved (\<open>movable\<close>; \<open>split_with_picked_stays_split\<close> and
    \<open>twice_bound_stays_bound\<close> are the others) and for runs of picks of that session only; \<open>failed_auth_avoided\<close> for
    runs of picks and successes of any sessions (a further failure may shorten a quarantine:
    \<open>quarantine_shortened\<close>).
  \<^item> \<open>request_fault_ends\<close> is for requests that nothing disturbs (\<open>undisturbed\<close>), without the fallback to credits, and for
    faults no rule of the configuration provides for (\<open>final_fault\<close>).

  \<^bold>\<open>What is not modelled\<close>

  Hashes, regular expressions, the parsing of JSON and what other goroutines do are parameters. Executors of
  providers, the translators between protocols, HTTP handlers, storage, configuration files, plugins and the
  terminal interface are input and output or rewrite JSON with libraries that are not part of the repository.
  Streaming works on channels between goroutines; Home and the routing table are protocols with a service
  outside the repository; the refresh of credentials is a background loop of OAuth exchanges, of which the
  execution sees a refreshed credential or none.
\<close>

end
